(* ===== verification/Claw_Prelude.thy ===== *)
theory Claw_Prelude
  imports Main "HOL-Library.AList"
begin

text \<open>
  Shared vocabulary of the development: Rust's \<^verbatim>\<open>Result\<close> and its combinators, the unsigned
  64-bit operations the code checks or saturates, the parts of \<^verbatim>\<open>str\<close> the code uses
  (\<^verbatim>\<open>trim\<close>, \<^verbatim>\<open>split\<close>, \<^verbatim>\<open>join\<close>, decimal printing and parsing), and ordered maps.

  A Rust \<^verbatim>\<open>String\<close> is modelled by the list of its UTF-8 bytes, one \<open>char\<close> per byte. Byte
  lengths, byte offsets, splitting at an ASCII separator and substring search then mean exactly
  what they mean in Rust; \<^verbatim>\<open>char::is_whitespace\<close>, which also accepts characters outside ASCII,
  is written over the byte sequences that encode the Unicode \<^verbatim>\<open>White_Space\<close> property.
\<close>

named_theorems result_simps \<open>case analysis of results\<close>
named_theorems str_simps \<open>splitting, joining and trimming of strings\<close>

section \<open>Results\<close>

datatype ('a, 'e) result = Ok (the_ok: 'a) | Err (the_err: 'e)

fun and_then :: "('a, 'e) result \<Rightarrow> ('a \<Rightarrow> ('b, 'e) result) \<Rightarrow> ('b, 'e) result" where
  "and_then (Ok x) f = f x"
| "and_then (Err e) f = Err e"

fun ok_or :: "'e \<Rightarrow> 'a option \<Rightarrow> ('a, 'e) result" where
  "ok_or e None = Err e"
| "ok_or e (Some x) = Ok x"

fun is_ok :: "('a, 'e) result \<Rightarrow> bool" where
  "is_ok (Ok x) \<longleftrightarrow> True"
| "is_ok (Err e) \<longleftrightarrow> False"

fun result_ok :: "('a, 'e) result \<Rightarrow> 'a option" where
  "result_ok (Ok x) = Some x"
| "result_ok (Err e) = None"

text \<open>A loop that applies a fallible step to each element and stops at the first error.\<close>

fun try_fold :: "('s \<Rightarrow> 'v \<Rightarrow> ('s, 'e) result) \<Rightarrow> 's \<Rightarrow> 'v list \<Rightarrow> ('s, 'e) result" where
  "try_fold f s [] = Ok s"
| "try_fold f s (v # vs) = and_then (f s v) (\<lambda>s'. try_fold f s' vs)"

section \<open>Unsigned 64-bit integers\<close>

definition u64_max :: nat where
  "u64_max = 18446744073709551615"

definition checked_add_u64 :: "nat \<Rightarrow> nat \<Rightarrow> nat option" where
  "checked_add_u64 a b = (if a + b \<le> u64_max then Some (a + b) else None)"

definition saturating_add_u64 :: "nat \<Rightarrow> nat \<Rightarrow> nat" where
  "saturating_add_u64 a b = min (a + b) u64_max"

definition saturating_mul_u64 :: "nat \<Rightarrow> nat \<Rightarrow> nat" where
  "saturating_mul_u64 a b = min (a * b) u64_max"

section \<open>Characters and strings\<close>

abbreviation byte :: "char \<Rightarrow> nat" where
  "byte c \<equiv> of_char c"

abbreviation newline :: char where
  "newline \<equiv> CHR 0x0A"

definition is_ascii_digit :: "char \<Rightarrow> bool" where
  "is_ascii_digit c \<longleftrightarrow> 48 \<le> byte c \<and> byte c \<le> 57"

definition ws1 :: "nat \<Rightarrow> bool" where
  "ws1 x \<longleftrightarrow> x = 32 \<or> (9 \<le> x \<and> x \<le> 13)"

definition ws2 :: "nat \<Rightarrow> nat \<Rightarrow> bool" where
  "ws2 x y \<longleftrightarrow> x = 194 \<and> (y = 133 \<or> y = 160)"

definition ws3 :: "nat \<Rightarrow> nat \<Rightarrow> nat \<Rightarrow> bool" where
  "ws3 x y z \<longleftrightarrow>
     (x = 225 \<and> y = 154 \<and> z = 128) \<or>
     (x = 226 \<and> y = 128 \<and> ((128 \<le> z \<and> z \<le> 138) \<or> z = 168 \<or> z = 169 \<or> z = 175)) \<or>
     (x = 226 \<and> y = 129 \<and> z = 159) \<or>
     (x = 227 \<and> y = 128 \<and> z = 128)"

text \<open>The encoded length of a white-space character at the front of a string, 0 if there is none.\<close>

fun ws_len :: "string \<Rightarrow> nat" where
  "ws_len [] = 0"
| "ws_len [a] = (if ws1 (byte a) then 1 else 0)"
| "ws_len [a, b] = (if ws1 (byte a) then 1 else if ws2 (byte a) (byte b) then 2 else 0)"
| "ws_len (a # b # c # s) =
     (if ws1 (byte a) then 1 else if ws2 (byte a) (byte b) then 2
      else if ws3 (byte a) (byte b) (byte c) then 3 else 0)"

text \<open>The same at the back, given the reversed string.\<close>

fun ws_len_back :: "string \<Rightarrow> nat" where
  "ws_len_back [] = 0"
| "ws_len_back [a] = (if ws1 (byte a) then 1 else 0)"
| "ws_len_back [a, b] = (if ws1 (byte a) then 1 else if ws2 (byte b) (byte a) then 2 else 0)"
| "ws_len_back (a # b # c # s) =
     (if ws1 (byte a) then 1 else if ws2 (byte b) (byte a) then 2
      else if ws3 (byte c) (byte b) (byte a) then 3 else 0)"

function trim_start :: "string \<Rightarrow> string" where
  "trim_start s = (if s = [] \<or> ws_len s = 0 then s else trim_start (drop (ws_len s) s))"
  by pat_completeness auto
termination
  by (relation "measure length") auto

function trim_back :: "string \<Rightarrow> string" where
  "trim_back s = (if s = [] \<or> ws_len_back s = 0 then s else trim_back (drop (ws_len_back s) s))"
  by pat_completeness auto
termination
  by (relation "measure length") auto

declare trim_start.simps [simp del] trim_back.simps [simp del]

definition trim_end :: "string \<Rightarrow> string" where
  "trim_end s = rev (trim_back (rev s))"

definition trim :: "string \<Rightarrow> string" where
  "trim s = trim_end (trim_start s)"

text \<open>\<^verbatim>\<open>value.trim().is_empty()\<close>\<close>

definition is_blank :: "string \<Rightarrow> bool" where
  "is_blank s \<longleftrightarrow> trim s = []"

text \<open>\<^verbatim>\<open>str::split\<close> at one ASCII character, and \<^verbatim>\<open>slice::join\<close>.\<close>

fun split_on :: "char \<Rightarrow> string \<Rightarrow> string list" where
  "split_on c [] = [[]]"
| "split_on c (x # xs) =
     (if x = c then [] # split_on c xs
      else (case split_on c xs of [] \<Rightarrow> [[x]] | y # ys \<Rightarrow> (x # y) # ys))"

fun join_with :: "string \<Rightarrow> string list \<Rightarrow> string" where
  "join_with sep [] = []"
| "join_with sep [x] = x"
| "join_with sep (x # y # ys) = x @ sep @ join_with sep (y # ys)"

definition starts_with :: "string \<Rightarrow> string \<Rightarrow> bool" where
  "starts_with p s \<longleftrightarrow> take (length p) s = p"

definition ends_with :: "string \<Rightarrow> string \<Rightarrow> bool" where
  "ends_with p s \<longleftrightarrow> starts_with (rev p) (rev s)"

definition strip_prefix :: "string \<Rightarrow> string \<Rightarrow> string option" where
  "strip_prefix p s = (if starts_with p s then Some (drop (length p) s) else None)"

section \<open>Decimal numerals\<close>

definition digit_char :: "nat \<Rightarrow> char" where
  "digit_char d = char_of (48 + d)"

fun decimal :: "nat \<Rightarrow> string" where
  "decimal n = (if n < 10 then [digit_char n] else decimal (n div 10) @ [digit_char (n mod 10)])"

declare decimal.simps [simp del]

definition decimal_value :: "string \<Rightarrow> nat" where
  "decimal_value s = foldl (\<lambda>acc c. acc * 10 + (byte c - 48)) 0 s"

text \<open>\<^verbatim>\<open>str::parse::<u64>\<close> on a string already known to be all digits.\<close>

definition parse_u64 :: "string \<Rightarrow> nat option" where
  "parse_u64 s = (if decimal_value s \<le> u64_max then Some (decimal_value s) else None)"

section \<open>Ordered maps\<close>

text \<open>
  \<^verbatim>\<open>serde_json::Map\<close> is built with insertion order preserved (Cargo.lock lists \<^verbatim>\<open>indexmap\<close> among
  the dependencies of \<^verbatim>\<open>serde_json\<close>): inserting an existing key replaces its value in place,
  inserting a new key appends. That is \<open>AList.update\<close>.
\<close>

type_synonym 'v omap = "(string \<times> 'v) list"

fun insert_all :: "'v omap \<Rightarrow> 'v omap \<Rightarrow> 'v omap" where
  "insert_all m [] = m"
| "insert_all m ((k, v) # kvs) = insert_all (AList.update k v m) kvs"

definition keys :: "'v omap \<Rightarrow> string list" where
  "keys m = map fst m"

section \<open>Lemmas on results\<close>

lemma and_then_Ok_iff [result_simps]:
  "and_then r f = Ok y \<longleftrightarrow> (\<exists>x. r = Ok x \<and> f x = Ok y)"
  by (cases r) auto

lemma and_then_Err_iff [result_simps]:
  "and_then r f = Err e \<longleftrightarrow> r = Err e \<or> (\<exists>x. r = Ok x \<and> f x = Err e)"
  by (cases r) auto

lemma ok_or_Ok_iff [result_simps]: "ok_or e r = Ok x \<longleftrightarrow> r = Some x"
  by (cases r) auto

lemma ok_or_Err_iff [result_simps]: "ok_or e r = Err e' \<longleftrightarrow> r = None \<and> e' = e"
  by (cases r) auto

lemma is_ok_iff [result_simps]: "is_ok r \<longleftrightarrow> (\<exists>x. r = Ok x)"
  by (cases r) auto

lemma checked_add_u64_Some_iff [result_simps]:
  "checked_add_u64 a b = Some c \<longleftrightarrow> c = a + b \<and> c \<le> u64_max"
  by (auto simp: checked_add_u64_def)

lemma try_fold_append:
  "try_fold f s (vs @ ws) = and_then (try_fold f s vs) (\<lambda>s'. try_fold f s' ws)"
proof (induction vs arbitrary: s)
  case (Cons v vs)
  then show ?case by (cases "f s v") auto
qed simp

text \<open>
  A log whose replay step keeps an invariant: the contract both the session log and the pending
  queue offer to whoever rebuilds state from stored records.
\<close>

locale replayed_log =
  fixes step :: "'s \<Rightarrow> 'v \<Rightarrow> ('s, 'e) result" and inv :: "'s \<Rightarrow> bool"
  assumes step_inv: "inv s \<Longrightarrow> step s v = Ok s' \<Longrightarrow> inv s'"
begin

lemma replay_inv: "inv s \<Longrightarrow> try_fold step s vs = Ok s' \<Longrightarrow> inv s'"
proof (induction vs arbitrary: s)
  case (Cons v vs)
  then show ?case by (auto simp: result_simps intro: step_inv)
qed simp

lemma replay_prefix:
  "inv s \<Longrightarrow> try_fold step s (vs @ ws) = Ok s' \<Longrightarrow>
    \<exists>m. try_fold step s vs = Ok m \<and> inv m \<and> try_fold step m ws = Ok s'"
  by (auto simp: try_fold_append result_simps intro: replay_inv)

end

section \<open>Lemmas on strings\<close>

lemma ws_len_le: "ws_len s \<le> length s"
  by (cases s rule: ws_len.cases) auto

lemma trim_start_Nil [simp]: "trim_start [] = []"
  by (simp add: trim_start.simps)

lemma trim_back_Nil [simp]: "trim_back [] = []"
  by (simp add: trim_back.simps)

lemma trim_start_suffix: "\<exists>p. s = p @ trim_start s"
proof (induction s rule: trim_start.induct)
  case (1 s)
  show ?case
  proof (cases "s = [] \<or> ws_len s = 0")
    case True
    then show ?thesis by (auto simp: trim_start.simps [of s])
  next
    case False
    with "1.IH" obtain p where "drop (ws_len s) s = p @ trim_start (drop (ws_len s) s)" by blast
    with False have "s = (take (ws_len s) s @ p) @ trim_start s"
      by (metis append.assoc append_take_drop_id trim_start.simps)
    then show ?thesis by blast
  qed
qed

lemma not_blank_char:
  assumes a: "\<not> ws1 (byte a)" "byte a < 128"
  shows "\<not> is_blank (a # s)"
proof -
  have start: "ws_len (a # s) = 0"
    using a by (cases "a # s" rule: ws_len.cases) (auto simp: ws2_def ws3_def)
  have at_back: "trim_back (u @ [a]) \<noteq> []" for u :: string
  proof (induction "u @ [a]" arbitrary: u rule: trim_back.induct)
    case (1 u)
    let ?n = "ws_len_back (u @ [a])"
    show ?case
    proof (cases "?n = 0")
      case True
      then show ?thesis by (subst trim_back.simps) simp
    next
      case False
      have "?n \<le> length u"
        using a by (cases u rule: ws_len_back.cases)
          (auto simp: ws2_def ws3_def Cons_eq_append_conv append_eq_Cons_conv split: if_splits)
      then have "drop ?n (u @ [a]) = drop ?n u @ [a]" by simp
      with False "1.hyps" show ?thesis by (subst trim_back.simps) simp
    qed
  qed
  from start have "trim_start (a # s) = a # s" by (simp add: trim_start.simps)
  with at_back [of "rev s"] show ?thesis
    by (simp add: is_blank_def trim_def trim_end_def)
qed

lemma split_on_nonempty [simp]: "split_on c s \<noteq> []"
  by (induction s) (auto split: list.splits)

lemma split_on_append_sep [str_simps]:
  "c \<notin> set x \<Longrightarrow> split_on c (x @ c # s) = x # split_on c s"
  by (induction x) auto

lemma split_on_no_sep [str_simps]: "c \<notin> set x \<Longrightarrow> split_on c x = [x]"
  by (induction x) auto

lemma join_split [str_simps]: "join_with [c] (split_on c s) = s"
proof (induction s)
  case (Cons x s)
  obtain y ys where y: "split_on c s = y # ys" by (cases "split_on c s") auto
  with Cons show ?case by (cases ys) auto
qed simp

lemma split_on_pieces: "x \<in> set (split_on c s) \<Longrightarrow> c \<notin> set x"
proof (induction s arbitrary: x)
  case (Cons a s)
  obtain y ys where y: "split_on c s = y # ys" by (cases "split_on c s") auto
  with Cons show ?case by (auto split: if_splits)
qed simp

lemma split_join [str_simps]:
  "\<forall>x \<in> set xs. c \<notin> set x \<Longrightarrow> xs \<noteq> [] \<Longrightarrow> split_on c (join_with [c] xs) = xs"
  by (induction "[c]" xs rule: join_with.induct) (auto simp: str_simps)

lemma join_with_Cons: "xs \<noteq> [] \<Longrightarrow> join_with sep (x # xs) = x @ sep @ join_with sep xs"
  by (cases xs) auto

lemma join_with_lines:
  "xs \<noteq> [] \<Longrightarrow> join_with [c] xs @ [c] = concat (map (\<lambda>x. x @ [c]) xs)"
  by (induction "[c]" xs rule: join_with.induct) auto

lemma starts_with_append [simp]: "starts_with p (p @ s)"
  by (simp add: starts_with_def)

lemma starts_with_iff: "starts_with p s \<longleftrightarrow> (\<exists>t. s = p @ t)"
  unfolding starts_with_def by (metis append_eq_conv_conj append_take_drop_id)

lemma ends_with_iff: "ends_with p s \<longleftrightarrow> (\<exists>t. s = t @ p)"
  unfolding ends_with_def starts_with_iff by (metis rev_append rev_rev_ident)

lemma strip_prefix_Some_iff [str_simps]: "strip_prefix p s = Some t \<longleftrightarrow> s = p @ t"
  by (auto simp: strip_prefix_def starts_with_iff)

section \<open>Lemmas on decimal numerals\<close>

lemma byte_digit_char [simp]: "d < 10 \<Longrightarrow> byte (digit_char d) = 48 + d"
  by (simp add: digit_char_def of_char_of)

lemma decimal_nonempty [simp]: "decimal n \<noteq> []"
  by (simp add: decimal.simps [of n])

lemma decimal_digits: "list_all is_ascii_digit (decimal n)"
proof (induction n rule: decimal.induct)
  case (1 n)
  have "n mod 10 \<le> 9" by presburger
  with 1 show ?case
    by (subst decimal.simps) (simp add: is_ascii_digit_def [of "digit_char _"])
qed

lemma decimal_value_snoc: "decimal_value (s @ [c]) = decimal_value s * 10 + (byte c - 48)"
  by (simp add: decimal_value_def)

lemma decimal_value_decimal [simp]: "decimal_value (decimal n) = n"
proof (induction n rule: decimal.induct)
  case (1 n)
  show ?case
  proof (cases "n < 10")
    case True
    then show ?thesis by (subst decimal.simps) (simp add: decimal_value_def)
  next
    case False
    with 1 show ?thesis by (subst decimal.simps) (simp add: decimal_value_snoc)
  qed
qed

lemma parse_decimal: "n \<le> u64_max \<Longrightarrow> parse_u64 (decimal n) = Some n"
  by (simp add: parse_u64_def)

section \<open>Lemmas on ordered maps\<close>

lemma map_of_insert_all:
  "map_of (insert_all m kvs) k = (case map_of (rev kvs) k of None \<Rightarrow> map_of m k | Some v \<Rightarrow> Some v)"
proof (induction m kvs rule: insert_all.induct)
  case (2 m k' v kvs)
  then show ?case
    by (auto simp: update_conv' map_add_def split: option.splits)
qed simp

lemma keys_update: "k \<notin> set (keys m) \<Longrightarrow> AList.update k v m = m @ [(k, v)]"
  by (induction m) (auto simp: keys_def)

lemma insert_all_fresh:
  "distinct (keys kvs) \<Longrightarrow> set (keys kvs) \<inter> set (keys m) = {} \<Longrightarrow> insert_all m kvs = m @ kvs"
proof (induction m kvs rule: insert_all.induct)
  case (2 m k v kvs)
  then have "insert_all (m @ [(k, v)]) kvs = (m @ [(k, v)]) @ kvs"
    by (simp add: keys_update keys_def) 
  with 2 show ?case by (simp add: keys_update keys_def)
qed simp

end
