(* ===== verification/Json.thy ===== *)
theory Json
  imports Claw_Prelude
begin

text \<open>
  The value model of \<^verbatim>\<open>serde_json\<close> as far as the program inspects it: \<^verbatim>\<open>serde_json::Value\<close>, the
  accessors \<^verbatim>\<open>get\<close>, \<^verbatim>\<open>as_str\<close>, \<^verbatim>\<open>as_u64\<close>, and the field-wise decoding that a derived
  \<^verbatim>\<open>Deserialize\<close> performs on an object: a required field must be present and decode, an
  \<^verbatim>\<open>Option\<close> field may be absent or null, unknown fields are ignored, and a flattened map collects
  the keys that no named field takes. Enumerations are decoded from their string names. The text
  form of a value (\<^verbatim>\<open>to_string\<close>, \<^verbatim>\<open>from_str\<close>) is third-party code and stays a parameter of the
  definitions that need it.
\<close>

named_theorems json_simps \<open>decoding of encoded values\<close>

section \<open>Values\<close>

datatype json_number = PosInt nat | NegInt int | Float nat

datatype json =
    JNull
  | JBool bool
  | JNumber json_number
  | JString string
  | JArray "json list"
  | JObject "(string \<times> json) list"

type_synonym json_map = "json omap"

fun as_str :: "json \<Rightarrow> string option" where
  "as_str (JString s) = Some s"
| "as_str _ = None"

text \<open>A \<^verbatim>\<open>PosInt\<close> holds a \<^verbatim>\<open>u64\<close>; the bound keeps larger numbers out of the model.\<close>

fun as_u64 :: "json \<Rightarrow> nat option" where
  "as_u64 (JNumber (PosInt n)) = (if n \<le> u64_max then Some n else None)"
| "as_u64 _ = None"

fun as_object :: "json \<Rightarrow> json_map option" where
  "as_object (JObject m) = Some m"
| "as_object _ = None"

fun json_get :: "string \<Rightarrow> json \<Rightarrow> json option" where
  "json_get k (JObject m) = map_of m k"
| "json_get k _ = None"

definition json_u64 :: "nat \<Rightarrow> json" where
  "json_u64 n = JNumber (PosInt n)"

fun json_opt_string :: "string option \<Rightarrow> json" where
  "json_opt_string None = JNull"
| "json_opt_string (Some s) = JString s"

text \<open>A field that \<^verbatim>\<open>skip_serializing_if = "Option::is_none"\<close> omits when it is \<^verbatim>\<open>None\<close>.\<close>

fun skip_none :: "string \<Rightarrow> string option \<Rightarrow> json_map" where
  "skip_none k None = []"
| "skip_none k (Some s) = [(k, JString s)]"

section \<open>Decoding\<close>

definition field :: "string \<Rightarrow> (json \<Rightarrow> 'a option) \<Rightarrow> json_map \<Rightarrow> 'a option" where
  "field k d m = Option.bind (map_of m k) d"

definition opt_field :: "string \<Rightarrow> (json \<Rightarrow> 'a option) \<Rightarrow> json_map \<Rightarrow> 'a option option" where
  "opt_field k d m = (case map_of m k of None \<Rightarrow> Some None | Some JNull \<Rightarrow> Some None
     | Some v \<Rightarrow> map_option Some (d v))"

definition default_field :: "string \<Rightarrow> 'a \<Rightarrow> (json \<Rightarrow> 'a option) \<Rightarrow> json_map \<Rightarrow> 'a option" where
  "default_field k x d m = (case map_of m k of None \<Rightarrow> Some x | Some v \<Rightarrow> d v)"

fun string_list :: "json \<Rightarrow> string list option" where
  "string_list (JArray vs) = those (map as_str vs)"
| "string_list _ = None"

text \<open>The keys a flattened map keeps: all but those the named fields take.\<close>

definition leftover :: "string list \<Rightarrow> json_map \<Rightarrow> json_map" where
  "leftover named m = filter (\<lambda>kv. fst kv \<notin> set named) m"

section \<open>Names of enumeration variants\<close>

text \<open>
  Every enumeration that crosses a wire has a fixed list of variants and one name per variant;
  parsing looks the name up in the list. The laws are that the list is complete and that the
  names are pairwise distinct.
\<close>

definition variant_of :: "'a list \<Rightarrow> ('a \<Rightarrow> string) \<Rightarrow> string \<Rightarrow> 'a option" where
  "variant_of variants name s = find (\<lambda>x. name x = s) variants"

text \<open>A unit variant is its name, or an object whose only key is the name and whose value is null.\<close>

fun decode_variant :: "'a list \<Rightarrow> ('a \<Rightarrow> string) \<Rightarrow> json \<Rightarrow> 'a option" where
  "decode_variant variants name (JString s) = variant_of variants name s"
| "decode_variant variants name (JObject [(k, JNull)]) = variant_of variants name k"
| "decode_variant variants name _ = None"

declare decode_variant.simps [simp del]

locale wire_names =
  fixes variants :: "'a list" and name :: "'a \<Rightarrow> string"
  assumes complete: "x \<in> set variants"
    and distinct_names: "distinct (map name variants)"
begin

lemma inj_name: "name x = name y \<Longrightarrow> x = y"
  using complete [of x] complete [of y] distinct_names by (meson distinct_map inj_onD)

lemma variant_of_iff: "variant_of variants name s = Some x \<longleftrightarrow> s = name x"
proof
  assume "variant_of variants name s = Some x"
  then show "s = name x" by (auto simp: variant_of_def find_Some_iff)
next
  assume s: "s = name x"
  obtain y where y: "find (\<lambda>z. name z = s) variants = Some y"
    using complete [of x] s by (cases "find (\<lambda>z. name z = s) variants") (auto simp: find_None_iff)
  then have "name y = name x" using s by (auto simp: find_Some_iff)
  then have "y = x" by (rule inj_name)
  with y show "variant_of variants name s = Some x" by (simp add: variant_of_def)
qed

lemma decode_name: "decode_variant variants name (JString (name x)) = Some x"
  by (simp add: decode_variant.simps variant_of_iff)

lemma decode_Some:
  "decode_variant variants name v = Some x \<Longrightarrow> v = JString (name x) \<or> v = JObject [(name x, JNull)]"
  by (cases "(variants, name, v)" rule: decode_variant.cases) (auto simp: decode_variant.simps variant_of_iff)

end

section \<open>Lemmas\<close>

lemma as_str_Some_iff [json_simps]: "as_str v = Some s \<longleftrightarrow> v = JString s"
  by (cases v) auto

lemma as_u64_Some_iff [json_simps]: "as_u64 v = Some n \<longleftrightarrow> v = JNumber (PosInt n) \<and> n \<le> u64_max"
  by (cases v rule: as_u64.cases) auto

lemma as_object_Some_iff [json_simps]: "as_object v = Some m \<longleftrightarrow> v = JObject m"
  by (cases v) auto

lemma as_u64_json_u64 [json_simps]: "n \<le> u64_max \<Longrightarrow> as_u64 (json_u64 n) = Some n"
  by (simp add: json_u64_def)

lemma leftover_append [json_simps]: "leftover ks (m @ m') = leftover ks m @ leftover ks m'"
  by (simp add: leftover_def)

lemma leftover_fresh [json_simps]: "set ks \<inter> set (keys m) = {} \<Longrightarrow> leftover ks m = m"
  by (force simp: leftover_def keys_def filter_id_conv)

lemma leftover_all [json_simps]: "set (keys m) \<subseteq> set ks \<Longrightarrow> leftover ks m = []"
  by (force simp: leftover_def keys_def filter_empty_conv)

lemma map_of_leftover: "map_of (leftover ks m) k = (if k \<in> set ks then None else map_of m k)"
  by (induction m) (auto simp: leftover_def)

lemma field_append [json_simps]:
  "k \<notin> set (keys m') \<Longrightarrow> field k d (m @ m') = field k d m"
  "k \<notin> set (keys m) \<Longrightarrow> field k d (m @ m') = field k d m'"
  by (simp_all add: field_def keys_def map_add_def map_of_eq_None_iff [THEN iffD2] split: option.split)

end
