(* ===== verification/Scalars.thy ===== *)
theory Scalars
  imports Json
begin

text \<open>
  The validated scalars of \<^verbatim>\<open>crates/protocol\<close>: string identifiers, decimal millisecond timestamps,
  JavaScript-safe sequences and session titles, with their wire forms, and the two name tables
  \<^verbatim>\<open>IdKind\<close> and \<^verbatim>\<open>AcpExtensionMethod\<close>. An identifier newtype is the string it wraps; a timestamp
  or sequence is the number it wraps.
\<close>

section \<open>scalar.rs\<close>

definition MAX_SAFE_INTEGER :: nat where
  "MAX_SAFE_INTEGER = 9007199254740991"

datatype scalar_error =
    EmptyIdentifier string
  | InvalidTimestamp
  | InvalidSequence
  | EmptySessionTitle
  | SessionTitleTooLong nat

type_synonym session_id = string
type_synonym run_id = string
type_synonym turn_id = string
type_synonym message_id = string
type_synonym entry_id = string
type_synonym lane_id = string
type_synonym record_id = string
type_synonym queue_id = string

text \<open>\<^verbatim>\<open>define_string_id!\<close>: construction by \<^verbatim>\<open>TryFrom<String>\<close>, with the identifier's kind.\<close>

definition id_try_from :: "string \<Rightarrow> string \<Rightarrow> (string, scalar_error) result" where
  "id_try_from kind value = (if is_blank value then Err (EmptyIdentifier kind) else Ok value)"

definition TurnId_system :: "session_id \<Rightarrow> turn_id" where
  "TurnId_system session = ''system-'' @ session"

definition timestamp_try_from :: "string \<Rightarrow> (nat, scalar_error) result" where
  "timestamp_try_from value =
     (if value = [] \<or> \<not> list_all is_ascii_digit value then Err InvalidTimestamp
      else ok_or InvalidTimestamp (parse_u64 value))"

definition timestamp_to_string :: "nat \<Rightarrow> string" where
  "timestamp_to_string t = decimal t"

definition sequence_try_from :: "nat \<Rightarrow> (nat, scalar_error) result" where
  "sequence_try_from value =
     (if value = 0 \<or> MAX_SAFE_INTEGER < value then Err InvalidSequence else Ok value)"

text \<open>The serde forms: \<^verbatim>\<open>try_from = "String"\<close> and \<^verbatim>\<open>try_from = "u64"\<close>.\<close>

definition decode_id :: "json \<Rightarrow> string option" where
  "decode_id v = Option.bind (as_str v) (\<lambda>s. result_ok (id_try_from [] s))"

definition decode_timestamp :: "json \<Rightarrow> nat option" where
  "decode_timestamp v = Option.bind (as_str v) (\<lambda>s. result_ok (timestamp_try_from s))"

definition encode_timestamp :: "nat \<Rightarrow> json" where
  "encode_timestamp t = JString (timestamp_to_string t)"

definition decode_sequence :: "json \<Rightarrow> nat option" where
  "decode_sequence v = Option.bind (as_u64 v) (\<lambda>n. result_ok (sequence_try_from n))"

definition encode_sequence :: "nat \<Rightarrow> json" where
  "encode_sequence n = json_u64 n"

section \<open>SessionTitle in capability.rs\<close>

definition MAX_SESSION_TITLE_CHARS :: nat where
  "MAX_SESSION_TITLE_CHARS = 120"

text \<open>\<^verbatim>\<open>chars().count()\<close>: the bytes that do not continue an encoded character.\<close>

definition chars_count :: "string \<Rightarrow> nat" where
  "chars_count s = length (filter (\<lambda>c. \<not> (128 \<le> byte c \<and> byte c < 192)) s)"

definition session_title_try_from :: "string \<Rightarrow> (string, scalar_error) result" where
  "session_title_try_from value =
     (let normalized = trim value in
      if normalized = [] then Err EmptySessionTitle
      else if MAX_SESSION_TITLE_CHARS < chars_count normalized
        then Err (SessionTitleTooLong MAX_SESSION_TITLE_CHARS)
      else Ok normalized)"

section \<open>IdKind in id.rs\<close>

datatype id_kind =
  IkTrace | IkSession | IkRun | IkTurn | IkMessage | IkEntry | IkRecord | IkQueue | IkRequest

fun id_kind_prefix :: "id_kind \<Rightarrow> string" where
  "id_kind_prefix IkTrace = ''trace''"
| "id_kind_prefix IkSession = ''session''"
| "id_kind_prefix IkRun = ''run''"
| "id_kind_prefix IkTurn = ''turn''"
| "id_kind_prefix IkMessage = ''message''"
| "id_kind_prefix IkEntry = ''entry''"
| "id_kind_prefix IkRecord = ''record''"
| "id_kind_prefix IkQueue = ''queue''"
| "id_kind_prefix IkRequest = ''request''"

section \<open>AcpExtensionMethod in identity.rs\<close>

datatype acp_extension_method =
    Tree | Navigate | Branch | Fork | Compact | PendingMessagesMethod | PendingMessageRemove
  | PendingMessagePromote | ClearQueue | SessionRuntime | InvokeSkill | SkillList | McpStatus
  | McpReconnect | McpPromptGet | McpResourceRead | McpComplete | McpOAuthContinue
  | ExtensionCommand | UserBash

fun acp_method_as_str :: "acp_extension_method \<Rightarrow> string" where
  "acp_method_as_str Tree = ''_clawcode/session/tree''"
| "acp_method_as_str Navigate = ''_clawcode/session/navigate''"
| "acp_method_as_str Branch = ''_clawcode/session/branch''"
| "acp_method_as_str Fork = ''_clawcode/session/fork''"
| "acp_method_as_str Compact = ''_clawcode/session/compact''"
| "acp_method_as_str PendingMessagesMethod = ''_clawcode/session/pending_messages''"
| "acp_method_as_str PendingMessagePromote = ''_clawcode/session/pending_message/promote''"
| "acp_method_as_str PendingMessageRemove = ''_clawcode/session/pending_message/remove''"
| "acp_method_as_str ClearQueue = ''_clawcode/session/clear_queue''"
| "acp_method_as_str SessionRuntime = ''_clawcode/session/runtime''"
| "acp_method_as_str InvokeSkill = ''_clawcode/skill/invoke''"
| "acp_method_as_str SkillList = ''_clawcode/skill/list''"
| "acp_method_as_str McpStatus = ''_clawcode/mcp/status''"
| "acp_method_as_str McpReconnect = ''_clawcode/mcp/reconnect''"
| "acp_method_as_str McpPromptGet = ''_clawcode/mcp/prompt/get''"
| "acp_method_as_str McpResourceRead = ''_clawcode/mcp/resource/read''"
| "acp_method_as_str McpComplete = ''_clawcode/mcp/complete''"
| "acp_method_as_str McpOAuthContinue = ''_clawcode/mcp/oauth/continue''"
| "acp_method_as_str ExtensionCommand = ''_clawcode/extension/command''"
| "acp_method_as_str UserBash = ''_clawcode/session/bash''"

definition acp_methods :: "acp_extension_method list" where
  "acp_methods =
     [Tree, Navigate, Branch, Fork, Compact, PendingMessagesMethod, PendingMessageRemove,
      PendingMessagePromote, ClearQueue, SessionRuntime, InvokeSkill, SkillList, McpStatus,
      McpReconnect, McpPromptGet, McpResourceRead, McpComplete, McpOAuthContinue,
      ExtensionCommand, UserBash]"

definition acp_method_parse :: "string \<Rightarrow> acp_extension_method option" where
  "acp_method_parse method_name = find (\<lambda>candidate. acp_method_as_str candidate = method_name) acp_methods"

section \<open>Lemmas\<close>

interpretation acp_names: wire_names acp_methods acp_method_as_str
proof
  show "x \<in> set acp_methods" for x by (cases x) (simp_all add: acp_methods_def)
  show "distinct (map acp_method_as_str acp_methods)" by (simp add: acp_methods_def)
qed

interpretation id_kind_names: wire_names
  "[IkTrace, IkSession, IkRun, IkTurn, IkMessage, IkEntry, IkRecord, IkQueue, IkRequest]"
  id_kind_prefix
proof
  show "x \<in> set [IkTrace, IkSession, IkRun, IkTurn, IkMessage, IkEntry, IkRecord, IkQueue, IkRequest]"
    for x by (cases x) simp_all
  show "distinct (map id_kind_prefix
    [IkTrace, IkSession, IkRun, IkTurn, IkMessage, IkEntry, IkRecord, IkQueue, IkRequest])" by simp
qed

lemma decode_id_Some_iff [json_simps]:
  "decode_id v = Some s \<longleftrightarrow> v = JString s \<and> \<not> is_blank s"
  by (cases v) (auto simp: decode_id_def id_try_from_def)

lemma decode_id_string [json_simps]:
  "decode_id (JString s) = (if is_blank s then None else Some s)"
  by (simp add: decode_id_def id_try_from_def)

lemma timestamp_roundtrip: "t \<le> u64_max \<Longrightarrow> timestamp_try_from (timestamp_to_string t) = Ok t"
  by (simp add: timestamp_try_from_def timestamp_to_string_def decimal_digits parse_decimal)

lemma decode_encode_timestamp [json_simps]:
  "t \<le> u64_max \<Longrightarrow> decode_timestamp (encode_timestamp t) = Some t"
  by (simp add: decode_timestamp_def encode_timestamp_def timestamp_roundtrip)

lemma sequence_try_from_Ok_iff [result_simps]:
  "sequence_try_from n = Ok s \<longleftrightarrow> s = n \<and> 0 < n \<and> n \<le> MAX_SAFE_INTEGER"
  by (auto simp: sequence_try_from_def)

lemma max_safe_le_u64: "MAX_SAFE_INTEGER \<le> u64_max"
  by (simp add: MAX_SAFE_INTEGER_def u64_max_def)

lemma decode_encode_sequence [json_simps]:
  "0 < n \<Longrightarrow> n \<le> MAX_SAFE_INTEGER \<Longrightarrow> decode_sequence (encode_sequence n) = Some n"
  using max_safe_le_u64
  by (simp add: decode_sequence_def encode_sequence_def json_u64_def sequence_try_from_def)

lemma decode_sequence_Some_iff [json_simps]:
  "decode_sequence v = Some n \<longleftrightarrow>
     v = JNumber (PosInt n) \<and> 0 < n \<and> n \<le> MAX_SAFE_INTEGER"
  using max_safe_le_u64
  by (auto simp: decode_sequence_def sequence_try_from_def json_simps bind_eq_Some_conv split: if_splits)

end
