(* ===== verification/Session_Store.thy ===== *)
theory Session_Store
  imports Scalars "HOL-Library.Monad_Syntax"
begin

text \<open>
  The append-only session log of \<^verbatim>\<open>crates/store\<close>: the data of \<^verbatim>\<open>model.rs\<close>, the projection and the
  persisted mutations of \<^verbatim>\<open>state.rs\<close>, and the \<^verbatim>\<open>JsonlSessionStore\<close> of \<^verbatim>\<open>session.rs\<close> with every
  operation of the \<^verbatim>\<open>SessionStore\<close> trait.

  A store holds the bytes of its file, the bytes its \<^verbatim>\<open>BufWriter\<close> still retains, and the
  projected state. Operations take the environment they read: the text form of JSON values, the
  two foreign decoders, the clock's answer, and how the file system answered the write.
\<close>

named_theorems store_defs \<open>definitions of the store operations\<close>
named_theorems mutation_simps \<open>decoding of encoded mutations\<close>

section \<open>model.rs\<close>

datatype entry_kind =
  EkMessage | EkModelChange | EkThinkingLevelChange | EkActiveToolsChange | EkCompaction
  | EkBranchSummary | EkCustom

fun entry_kind_as_str :: "entry_kind \<Rightarrow> string" where
  "entry_kind_as_str EkMessage = ''message''"
| "entry_kind_as_str EkModelChange = ''model_change''"
| "entry_kind_as_str EkThinkingLevelChange = ''thinking_level_change''"
| "entry_kind_as_str EkActiveToolsChange = ''active_tools_change''"
| "entry_kind_as_str EkCompaction = ''compaction''"
| "entry_kind_as_str EkBranchSummary = ''branch_summary''"
| "entry_kind_as_str EkCustom = ''custom''"

definition entry_kinds :: "entry_kind list" where
  "entry_kinds =
     [EkMessage, EkModelChange, EkThinkingLevelChange, EkActiveToolsChange, EkCompaction,
      EkBranchSummary, EkCustom]"

datatype record_kind =
  OperationStarted | AbortRequested | OperationFinished | StepAttempt | ToolStarted
  | QueueEnqueued | QueueCancelled | WriteDeferred | UsageRecord

fun record_kind_name :: "record_kind \<Rightarrow> string" where
  "record_kind_name OperationStarted = ''operation_started''"
| "record_kind_name AbortRequested = ''abort_requested''"
| "record_kind_name OperationFinished = ''operation_finished''"
| "record_kind_name StepAttempt = ''step_attempt''"
| "record_kind_name ToolStarted = ''tool_started''"
| "record_kind_name QueueEnqueued = ''queue_enqueued''"
| "record_kind_name QueueCancelled = ''queue_cancelled''"
| "record_kind_name WriteDeferred = ''write_deferred''"
| "record_kind_name UsageRecord = ''usage''"

definition record_kinds :: "record_kind list" where
  "record_kinds =
     [OperationStarted, AbortRequested, OperationFinished, StepAttempt, ToolStarted,
      QueueEnqueued, QueueCancelled, WriteDeferred, UsageRecord]"

record new_entry =
  ne_id :: entry_id
  ne_kind :: entry_kind
  ne_payload :: json

record new_record =
  nr_id :: record_id
  nr_lane :: lane_id
  nr_run_id :: "run_id option"
  nr_kind :: record_kind
  nr_payload :: json

record session_entry =
  se_id :: entry_id
  se_sequence :: nat
  se_parent_id :: "entry_id option"
  se_timestamp_ms :: nat
  se_kind :: entry_kind
  se_payload :: json_map

record session_record =
  sr_id :: record_id
  sr_sequence :: nat
  sr_lane :: lane_id
  sr_timestamp_ms :: nat
  sr_run_id :: "run_id option"
  sr_kind :: record_kind
  sr_payload :: json_map

text \<open>\<^verbatim>\<open>StoreError\<close>; the message of \<^verbatim>\<open>InvalidSession\<close> is kept as the reason it reports.\<close>

datatype invalid_reason =
    NoKind
  | InvalidMutationSequence
  | NotConsecutive nat nat
  | LaneMissingEntry lane_id entry_id
  | InvalidCompactionPayload
  | CompactionDetailsRequired
  | CompactionSummaryEmpty
  | CompactionEndedBeforeStart
  | EntryMissingLane lane_id
  | EntryNotChained
  | RecordMissingLane lane_id
  | DuplicateRecordId record_id
  | NoFactType
  | LabelWithoutTarget
  | InvalidTargetId
  | UnknownFact string
  | UnknownMutationKind string
  | BranchCycle entry_id
  | MissingHeader
  | InvalidHeader
  | UnsupportedHeader
  | InvalidJsonLine nat
  | InvalidMessageEntry entry_id

datatype store_error =
    Unsupported string
  | StoreIo
  | StoreJson
  | InvalidLane lane_id
  | DuplicateEntry entry_id
  | InvalidEntryPayload
  | SequenceExhausted
  | InvalidSession invalid_reason
  | EntryNotFound entry_id

section \<open>state.rs\<close>

record session_state =
  next_sequence :: nat
  lanes :: "lane_id \<rightharpoonup> entry_id option"
  entries_by_id :: "entry_id \<rightharpoonup> session_entry"
  entry_order :: "entry_id list"
  session_records :: "session_record list"
  used_record_ids :: "record_id set"
  session_name :: "string option"
  named :: bool
  labels :: "entry_id \<rightharpoonup> string"

definition SessionState_new :: session_state where
  "SessionState_new =
     \<lparr>next_sequence = 0, lanes = [''main'' \<mapsto> None], entries_by_id = Map.empty, entry_order = [],
      session_records = [], used_record_ids = {}, session_name = None, named = False,
      labels = Map.empty\<rparr>"

datatype mutation_kind = MkEntry | MkLane | MkRecord | MkFact

fun mutation_kind_name :: "mutation_kind \<Rightarrow> string" where
  "mutation_kind_name MkEntry = ''entry''"
| "mutation_kind_name MkLane = ''lane''"
| "mutation_kind_name MkRecord = ''record''"
| "mutation_kind_name MkFact = ''fact''"

definition mutation_kinds :: "mutation_kind list" where
  "mutation_kinds = [MkEntry, MkLane, MkRecord, MkFact]"

record lane_mutation =
  lm_sequence :: nat
  lm_lane :: lane_id
  lm_leaf_id :: "entry_id option"

record entry_mutation =
  em_lane :: lane_id
  em_entry :: session_entry

text \<open>
  The serialized mutations. The \<^verbatim>\<open>kind\<close> field of each struct is the discriminant it is built
  with. A flattened payload is written after the named fields, and writing a key that is already
  there replaces its value.
\<close>

definition encode_lane_mutation :: "lane_mutation \<Rightarrow> json" where
  "encode_lane_mutation m = JObject
     [(''kind'', JString (mutation_kind_name MkLane)), (''seq'', encode_sequence (lm_sequence m)),
      (''lane'', JString (lm_lane m)), (''leafId'', json_opt_string (lm_leaf_id m))]"

definition encode_entry_mutation :: "entry_mutation \<Rightarrow> json" where
  "encode_entry_mutation m = (let e = em_entry m in JObject (insert_all
     [(''kind'', JString (mutation_kind_name MkEntry)), (''lane'', JString (em_lane m)),
      (''id'', JString (se_id e)), (''seq'', encode_sequence (se_sequence e)),
      (''parentId'', json_opt_string (se_parent_id e)),
      (''timestamp'', encode_timestamp (se_timestamp_ms e)),
      (''type'', JString (entry_kind_as_str (se_kind e)))]
     (se_payload e)))"

definition encode_record_mutation :: "session_record \<Rightarrow> json" where
  "encode_record_mutation r = JObject (insert_all
     ([(''kind'', JString (mutation_kind_name MkRecord)), (''id'', JString (sr_id r)),
       (''seq'', encode_sequence (sr_sequence r)), (''lane'', JString (sr_lane r)),
       (''timestamp'', encode_timestamp (sr_timestamp_ms r))] @
      skip_none ''runId'' (sr_run_id r) @
      [(''type'', JString (record_kind_name (sr_kind r)))])
     (sr_payload r))"

definition encode_name_fact :: "nat \<Rightarrow> string option \<Rightarrow> json" where
  "encode_name_fact sequence name = JObject
     ([(''kind'', JString (mutation_kind_name MkFact)), (''seq'', encode_sequence sequence),
       (''fact'', JString ''name'')] @ skip_none ''name'' name)"

definition encode_label_fact :: "nat \<Rightarrow> entry_id \<Rightarrow> string option \<Rightarrow> json" where
  "encode_label_fact sequence target label = JObject
     ([(''kind'', JString (mutation_kind_name MkFact)), (''seq'', encode_sequence sequence),
       (''fact'', JString ''label''), (''targetId'', JString target)] @ skip_none ''label'' label)"

text \<open>Their typed decoding, by the same field names.\<close>

fun decode_lane_mutation :: "json \<Rightarrow> lane_mutation option" where
  "decode_lane_mutation (JObject m) = do {
     kind \<leftarrow> field ''kind'' (decode_variant mutation_kinds mutation_kind_name) m;
     sequence \<leftarrow> field ''seq'' decode_sequence m;
     lane \<leftarrow> field ''lane'' decode_id m;
     leaf \<leftarrow> opt_field ''leafId'' decode_id m;
     Some \<lparr>lm_sequence = sequence, lm_lane = lane, lm_leaf_id = leaf\<rparr> }"
| "decode_lane_mutation _ = None"

definition decode_session_entry :: "json_map \<Rightarrow> session_entry option" where
  "decode_session_entry m = do {
     id \<leftarrow> field ''id'' decode_id m;
     sequence \<leftarrow> field ''seq'' decode_sequence m;
     parent \<leftarrow> opt_field ''parentId'' decode_id m;
     timestamp \<leftarrow> field ''timestamp'' decode_timestamp m;
     kind \<leftarrow> field ''type'' (decode_variant entry_kinds entry_kind_as_str) m;
     Some \<lparr>se_id = id, se_sequence = sequence, se_parent_id = parent,
           se_timestamp_ms = timestamp, se_kind = kind,
           se_payload = leftover [''id'', ''seq'', ''parentId'', ''timestamp'', ''type''] m\<rparr> }"

fun decode_entry_mutation :: "json \<Rightarrow> entry_mutation option" where
  "decode_entry_mutation (JObject m) = do {
     kind \<leftarrow> field ''kind'' (decode_variant mutation_kinds mutation_kind_name) m;
     lane \<leftarrow> field ''lane'' decode_id m;
     entry \<leftarrow> decode_session_entry (leftover [''kind'', ''lane''] m);
     Some \<lparr>em_lane = lane, em_entry = entry\<rparr> }"
| "decode_entry_mutation _ = None"

definition decode_session_record :: "json_map \<Rightarrow> session_record option" where
  "decode_session_record m = do {
     id \<leftarrow> field ''id'' decode_id m;
     sequence \<leftarrow> field ''seq'' decode_sequence m;
     lane \<leftarrow> field ''lane'' decode_id m;
     timestamp \<leftarrow> field ''timestamp'' decode_timestamp m;
     run \<leftarrow> opt_field ''runId'' decode_id m;
     kind \<leftarrow> field ''type'' (decode_variant record_kinds record_kind_name) m;
     Some \<lparr>sr_id = id, sr_sequence = sequence, sr_lane = lane, sr_timestamp_ms = timestamp,
           sr_run_id = run, sr_kind = kind,
           sr_payload = leftover [''id'', ''seq'', ''lane'', ''timestamp'', ''runId'', ''type''] m\<rparr> }"

fun decode_record_mutation :: "json \<Rightarrow> session_record option" where
  "decode_record_mutation (JObject m) = do {
     kind \<leftarrow> field ''kind'' (decode_variant mutation_kinds mutation_kind_name) m;
     decode_session_record (leftover [''kind''] m) }"
| "decode_record_mutation _ = None"

section \<open>CompactionData in capability.rs\<close>

text \<open>
  The decoders of \<^verbatim>\<open>AgentMessage\<close> and \<^verbatim>\<open>ModelUsage\<close> wrap types of the \<^verbatim>\<open>rig_core\<close> crate; the log
  only asks whether they accept a value.
\<close>

record foreign_codec =
  accepts_message :: "json \<Rightarrow> bool"
  accepts_usage :: "json \<Rightarrow> bool"

datatype compaction_reason = CrManual | CrThreshold | CrOverflow

fun compaction_reason_name :: "compaction_reason \<Rightarrow> string" where
  "compaction_reason_name CrManual = ''manual''"
| "compaction_reason_name CrThreshold = ''threshold''"
| "compaction_reason_name CrOverflow = ''overflow''"

record compaction_details =
  cd_reason :: compaction_reason
  cd_run_id :: run_id
  cd_turn_id :: turn_id
  cd_started_at_ms :: nat
  cd_ended_at_ms :: nat
  cd_read_files :: "string list"
  cd_modified_files :: "string list"

record compaction_data =
  cp_summary :: string
  cp_retained_tail :: "json list"
  cp_tokens_before :: nat
  cp_usage :: "json option"
  cp_details :: "compaction_details option"

fun decode_compaction_details :: "json \<Rightarrow> compaction_details option" where
  "decode_compaction_details (JObject m) = do {
     reason \<leftarrow> field ''reason''
       (decode_variant [CrManual, CrThreshold, CrOverflow] compaction_reason_name) m;
     run \<leftarrow> field ''runId'' decode_id m;
     turn \<leftarrow> field ''turnId'' decode_id m;
     started \<leftarrow> field ''startedAtMs'' decode_timestamp m;
     ended \<leftarrow> field ''endedAtMs'' decode_timestamp m;
     reads \<leftarrow> default_field ''readFiles'' [] string_list m;
     modified \<leftarrow> default_field ''modifiedFiles'' [] string_list m;
     Some \<lparr>cd_reason = reason, cd_run_id = run, cd_turn_id = turn, cd_started_at_ms = started,
           cd_ended_at_ms = ended, cd_read_files = reads, cd_modified_files = modified\<rparr> }"
| "decode_compaction_details _ = None"

fun decode_messages :: "foreign_codec \<Rightarrow> json \<Rightarrow> json list option" where
  "decode_messages c (JArray vs) = (if list_all (accepts_message c) vs then Some vs else None)"
| "decode_messages c _ = None"

definition decode_compaction :: "foreign_codec \<Rightarrow> json_map \<Rightarrow> compaction_data option" where
  "decode_compaction c m = do {
     summary \<leftarrow> field ''summary'' as_str m;
     tail \<leftarrow> field ''retainedTail'' (decode_messages c) m;
     tokens \<leftarrow> field ''tokensBefore'' decode_timestamp m;
     usage \<leftarrow> opt_field ''usage'' (\<lambda>v. if accepts_usage c v then Some v else None) m;
     details \<leftarrow> opt_field ''details'' decode_compaction_details m;
     Some \<lparr>cp_summary = summary, cp_retained_tail = tail, cp_tokens_before = tokens,
           cp_usage = usage, cp_details = details\<rparr> }"

section \<open>session.rs: validation and commit\<close>

datatype validated_mutation =
    VLane lane_mutation
  | VEntry entry_mutation
  | VRecord session_record
  | VName nat "string option"
  | VLabel nat entry_id "string option"

definition validate_compaction :: "foreign_codec \<Rightarrow> session_entry \<Rightarrow> (unit, store_error) result" where
  "validate_compaction c e =
     (if se_kind e \<noteq> EkCompaction then Ok ()
      else case decode_compaction c (se_payload e) of
        None \<Rightarrow> Err (InvalidSession InvalidCompactionPayload)
      | Some data \<Rightarrow>
         (case cp_details data of
            None \<Rightarrow> Err (InvalidSession CompactionDetailsRequired)
          | Some details \<Rightarrow>
              if is_blank (cp_summary data) then Err (InvalidSession CompactionSummaryEmpty)
              else if cd_ended_at_ms details < cd_started_at_ms details
                then Err (InvalidSession CompactionEndedBeforeStart)
              else Ok ()))"

definition validate_lane :: "session_state \<Rightarrow> json \<Rightarrow> (validated_mutation, store_error) result" where
  "validate_lane state value =
     and_then (ok_or StoreJson (decode_lane_mutation value)) (\<lambda>m.
       case lm_leaf_id m of
         None \<Rightarrow> Ok (VLane m)
       | Some target \<Rightarrow>
           if entries_by_id state target = None
           then Err (InvalidSession (LaneMissingEntry (lm_lane m) target))
           else Ok (VLane m))"

definition validate_entry ::
    "foreign_codec \<Rightarrow> session_state \<Rightarrow> json \<Rightarrow> (validated_mutation, store_error) result" where
  "validate_entry c state value =
     and_then (ok_or StoreJson (decode_entry_mutation value)) (\<lambda>m.
     and_then (validate_compaction c (em_entry m)) (\<lambda>_.
       if entries_by_id state (se_id (em_entry m)) \<noteq> None
       then Err (DuplicateEntry (se_id (em_entry m)))
       else case lanes state (em_lane m) of
           None \<Rightarrow> Err (InvalidSession (EntryMissingLane (em_lane m)))
         | Some leaf \<Rightarrow>
             if leaf \<noteq> se_parent_id (em_entry m) then Err (InvalidSession EntryNotChained)
             else Ok (VEntry m)))"

definition validate_record :: "session_state \<Rightarrow> json \<Rightarrow> (validated_mutation, store_error) result" where
  "validate_record state value =
     and_then (ok_or StoreJson (decode_record_mutation value)) (\<lambda>r.
       if lanes state (sr_lane r) = None
       then Err (InvalidSession (RecordMissingLane (sr_lane r)))
       else if sr_id r \<in> used_record_ids state
       then Err (InvalidSession (DuplicateRecordId (sr_id r)))
       else Ok (VRecord r))"

definition json_get_str :: "string \<Rightarrow> json \<Rightarrow> string option" where
  "json_get_str k v = Option.bind (json_get k v) as_str"

definition validate_fact ::
    "session_state \<Rightarrow> nat \<Rightarrow> json \<Rightarrow> (validated_mutation, store_error) result" where
  "validate_fact state sequence value =
     and_then (ok_or (InvalidSession NoFactType) (json_get_str ''fact'' value)) (\<lambda>fact.
       if fact = ''name'' then Ok (VName sequence (json_get_str ''name'' value))
       else if fact = ''label'' then
         and_then (ok_or (InvalidSession LabelWithoutTarget) (json_get_str ''targetId'' value)) (\<lambda>target.
           case id_try_from ''entry'' target of
             Err _ \<Rightarrow> Err (InvalidSession InvalidTargetId)
           | Ok target_id \<Rightarrow>
               if entries_by_id state target_id = None then Err (EntryNotFound target_id)
               else Ok (VLabel sequence target_id (json_get_str ''label'' value)))
       else Err (InvalidSession (UnknownFact fact)))"

definition validate ::
    "foreign_codec \<Rightarrow> session_state \<Rightarrow> json \<Rightarrow> (validated_mutation, store_error) result" where
  "validate c state value =
     and_then (ok_or (InvalidSession NoKind) (json_get_str ''kind'' value)) (\<lambda>kind.
     and_then (ok_or (InvalidSession InvalidMutationSequence)
                 (Option.bind (json_get ''seq'' value) as_u64)) (\<lambda>sequence.
       if sequence \<noteq> saturating_add_u64 (next_sequence state) 1
       then Err (InvalidSession (NotConsecutive sequence (next_sequence state)))
       else if kind = ''lane'' then validate_lane state value
       else if kind = ''entry'' then validate_entry c state value
       else if kind = ''record'' then validate_record state value
       else if kind = ''fact'' then validate_fact state sequence value
       else Err (InvalidSession (UnknownMutationKind kind))))"

fun commit :: "session_state \<Rightarrow> validated_mutation \<Rightarrow> session_state" where
  "commit state (VLane m) =
     state\<lparr>next_sequence := lm_sequence m, lanes := (lanes state)(lm_lane m \<mapsto> lm_leaf_id m)\<rparr>"
| "commit state (VEntry m) =
     state\<lparr>next_sequence := se_sequence (em_entry m),
           lanes := (lanes state)(em_lane m \<mapsto> Some (se_id (em_entry m))),
           entry_order := entry_order state @ [se_id (em_entry m)],
           entries_by_id := (entries_by_id state)(se_id (em_entry m) \<mapsto> em_entry m)\<rparr>"
| "commit state (VRecord r) =
     state\<lparr>next_sequence := sr_sequence r,
           used_record_ids := insert (sr_id r) (used_record_ids state),
           session_records := session_records state @ [r]\<rparr>"
| "commit state (VName sequence name) =
     state\<lparr>next_sequence := sequence, session_name := name, named := True\<rparr>"
| "commit state (VLabel sequence target label) =
     state\<lparr>next_sequence := sequence, labels := (labels state)(target := label)\<rparr>"

definition apply_loaded_mutation ::
    "foreign_codec \<Rightarrow> session_state \<Rightarrow> json \<Rightarrow> (session_state, store_error) result" where
  "apply_loaded_mutation c state value =
     and_then (validate c state value) (\<lambda>m. Ok (commit state m))"

section \<open>session.rs: JsonlSessionStore\<close>

text \<open>
  How the file system answers one append: all bytes reach the file, or the operation fails after
  \<open>j\<close> bytes of the line entered the \<^verbatim>\<open>BufWriter\<close> and \<open>k\<close> retained bytes reached the file.
  \<^verbatim>\<open>BufWriter\<close> keeps what it could not write and sends it with the next flush.
\<close>

datatype write_outcome = Written | WriteFailed nat nat

record jsonl_store =
  js_session_id :: session_id
  js_path :: string
  js_file :: string
  js_buffer :: string
  js_state :: session_state

record store_env =
  to_text :: "json \<Rightarrow> string"
  codec :: foreign_codec

definition candidate_sequence :: "session_state \<Rightarrow> (nat, store_error) result" where
  "candidate_sequence state =
     and_then (ok_or SequenceExhausted (checked_add_u64 (next_sequence state) 1)) (\<lambda>n.
       ok_or SequenceExhausted (result_ok (sequence_try_from n)))"

fun append_line :: "write_outcome \<Rightarrow> string \<Rightarrow> jsonl_store \<Rightarrow> jsonl_store \<times> (unit, store_error) result" where
  "append_line Written line st =
     (st\<lparr>js_file := js_file st @ js_buffer st @ line @ [newline], js_buffer := []\<rparr>, Ok ())"
| "append_line (WriteFailed j k) line st =
     (let retained = js_buffer st @ take j (line @ [newline]) in
      (st\<lparr>js_file := js_file st @ take k retained, js_buffer := drop k retained\<rparr>, Err StoreIo))"

definition persist ::
    "store_env \<Rightarrow> write_outcome \<Rightarrow> json \<Rightarrow> jsonl_store \<Rightarrow> jsonl_store \<times> (unit, store_error) result" where
  "persist env w value st =
     (case validate (codec env) (js_state st) value of
        Err e \<Rightarrow> (st, Err e)
      | Ok validated \<Rightarrow>
         (case append_line w (to_text env value) st of
            (st', Err e) \<Rightarrow> (st', Err e)
          | (st', Ok _) \<Rightarrow> (st'\<lparr>js_state := commit (js_state st') validated\<rparr>, Ok ())))"

definition create_lane ::
    "store_env \<Rightarrow> write_outcome \<Rightarrow> lane_id \<Rightarrow> entry_id option \<Rightarrow> jsonl_store
      \<Rightarrow> jsonl_store \<times> (unit, store_error) result" where
  "create_lane env w lane at st =
     (if lanes (js_state st) lane \<noteq> None then (st, Err (InvalidLane lane))
      else if (case at of None \<Rightarrow> False | Some eid \<Rightarrow> entries_by_id (js_state st) eid = None)
        then (st, Err (InvalidLane lane))
      else case candidate_sequence (js_state st) of
        Err e \<Rightarrow> (st, Err e)
      | Ok n \<Rightarrow> persist env w
          (encode_lane_mutation \<lparr>lm_sequence = n, lm_lane = lane, lm_leaf_id = at\<rparr>) st)"

definition move_lane ::
    "store_env \<Rightarrow> write_outcome \<Rightarrow> lane_id \<Rightarrow> entry_id option \<Rightarrow> jsonl_store
      \<Rightarrow> jsonl_store \<times> (unit, store_error) result" where
  "move_lane env w lane to st =
     (if lanes (js_state st) lane = None then (st, Err (InvalidLane lane))
      else case (case to of None \<Rightarrow> None
                 | Some eid \<Rightarrow> if entries_by_id (js_state st) eid = None then Some eid else None) of
        Some eid \<Rightarrow> (st, Err (EntryNotFound eid))
      | None \<Rightarrow>
         (case candidate_sequence (js_state st) of
            Err e \<Rightarrow> (st, Err e)
          | Ok n \<Rightarrow> persist env w
              (encode_lane_mutation \<lparr>lm_sequence = n, lm_lane = lane, lm_leaf_id = to\<rparr>) st))"

definition append_entry ::
    "store_env \<Rightarrow> write_outcome \<Rightarrow> nat \<Rightarrow> lane_id \<Rightarrow> new_entry \<Rightarrow> jsonl_store
      \<Rightarrow> jsonl_store \<times> (session_entry, store_error) result" where
  "append_entry env w now lane entry st =
     (if entries_by_id (js_state st) (ne_id entry) \<noteq> None
      then (st, Err (DuplicateEntry (ne_id entry)))
      else case lanes (js_state st) lane of
        None \<Rightarrow> (st, Err (InvalidLane lane))
      | Some parent \<Rightarrow>
         (case as_object (ne_payload entry) of
            None \<Rightarrow> (st, Err InvalidEntryPayload)
          | Some payload \<Rightarrow>
             (case candidate_sequence (js_state st) of
                Err e \<Rightarrow> (st, Err e)
              | Ok n \<Rightarrow>
                 (let stored = \<lparr>se_id = ne_id entry, se_sequence = n, se_parent_id = parent,
                        se_timestamp_ms = now, se_kind = ne_kind entry, se_payload = payload\<rparr>
                  in case persist env w
                         (encode_entry_mutation \<lparr>em_lane = lane, em_entry = stored\<rparr>) st of
                       (st', Err e) \<Rightarrow> (st', Err e)
                     | (st', Ok _) \<Rightarrow> (st', Ok stored)))))"

record extension_entry_data =
  ext_id :: string
  ext_custom_type :: string
  ext_data :: json

definition append_extension_entry ::
    "store_env \<Rightarrow> write_outcome \<Rightarrow> nat \<Rightarrow> lane_id \<Rightarrow> entry_id \<Rightarrow> extension_entry_data \<Rightarrow> jsonl_store
      \<Rightarrow> jsonl_store \<times> (session_entry, store_error) result" where
  "append_extension_entry env w now lane eid entry st =
     append_entry env w now lane
       \<lparr>ne_id = eid, ne_kind = EkCustom,
        ne_payload = JObject [(''extensionId'', JString (ext_id entry)),
          (''customType'', JString (ext_custom_type entry)), (''data'', ext_data entry)]\<rparr> st"

definition lane_leaf :: "jsonl_store \<Rightarrow> lane_id \<Rightarrow> entry_id option" where
  "lane_leaf st lane = Option.bind (lanes (js_state st) lane) (\<lambda>leaf. leaf)"

definition get_entry :: "jsonl_store \<Rightarrow> entry_id \<Rightarrow> session_entry option" where
  "get_entry st eid = entries_by_id (js_state st) eid"

definition store_entries :: "jsonl_store \<Rightarrow> session_entry list" where
  "store_entries st = List.map_filter (entries_by_id (js_state st)) (entry_order (js_state st))"

text \<open>
  The loop of \<^verbatim>\<open>branch\<close>: \<open>None\<close> would be a walk that never ends; the visited set rules it out.
\<close>

partial_function (option) branch_walk ::
    "session_state \<Rightarrow> entry_id option \<Rightarrow> entry_id set \<Rightarrow> session_entry list
      \<Rightarrow> (session_entry list, store_error) result option" where
  "branch_walk state cursor visited acc =
     (case cursor of
        None \<Rightarrow> Some (Ok (rev acc))
      | Some eid \<Rightarrow>
          if eid \<in> visited then Some (Err (InvalidSession (BranchCycle eid)))
          else case entries_by_id state eid of
              None \<Rightarrow> Some (Err (EntryNotFound eid))
            | Some e \<Rightarrow> branch_walk state (se_parent_id e) (insert eid visited) (acc @ [e]))"

definition branch :: "jsonl_store \<Rightarrow> entry_id \<Rightarrow> (session_entry list, store_error) result option" where
  "branch st leaf = branch_walk (js_state st) (Some leaf) {} []"

definition append_record ::
    "store_env \<Rightarrow> write_outcome \<Rightarrow> nat \<Rightarrow> new_record \<Rightarrow> jsonl_store
      \<Rightarrow> jsonl_store \<times> (session_record, store_error) result" where
  "append_record env w now r st =
     (if lanes (js_state st) (nr_lane r) = None then (st, Err (InvalidLane (nr_lane r)))
      else if nr_id r \<in> used_record_ids (js_state st)
      then (st, Err (InvalidSession (DuplicateRecordId (nr_id r))))
      else case as_object (nr_payload r) of
        None \<Rightarrow> (st, Err InvalidEntryPayload)
      | Some payload \<Rightarrow>
         (case candidate_sequence (js_state st) of
            Err e \<Rightarrow> (st, Err e)
          | Ok n \<Rightarrow>
             (let stored = \<lparr>sr_id = nr_id r, sr_sequence = n, sr_lane = nr_lane r,
                    sr_timestamp_ms = now, sr_run_id = nr_run_id r, sr_kind = nr_kind r,
                    sr_payload = payload\<rparr>
              in case persist env w (encode_record_mutation stored) st of
                   (st', Err e) \<Rightarrow> (st', Err e)
                 | (st', Ok _) \<Rightarrow> (st', Ok stored))))"

definition store_records :: "jsonl_store \<Rightarrow> session_record list" where
  "store_records st = session_records (js_state st)"

definition last_sequence :: "jsonl_store \<Rightarrow> nat" where
  "last_sequence st = next_sequence (js_state st)"

definition set_name ::
    "store_env \<Rightarrow> write_outcome \<Rightarrow> string option \<Rightarrow> jsonl_store
      \<Rightarrow> jsonl_store \<times> (unit, store_error) result" where
  "set_name env w name st =
     (case candidate_sequence (js_state st) of
        Err e \<Rightarrow> (st, Err e)
      | Ok n \<Rightarrow> persist env w (encode_name_fact n name) st)"

definition store_name :: "jsonl_store \<Rightarrow> string option" where
  "store_name st = session_name (js_state st)"

definition was_named :: "jsonl_store \<Rightarrow> bool" where
  "was_named st = named (js_state st)"

definition set_label ::
    "store_env \<Rightarrow> write_outcome \<Rightarrow> entry_id \<Rightarrow> string option \<Rightarrow> jsonl_store
      \<Rightarrow> jsonl_store \<times> (unit, store_error) result" where
  "set_label env w target label st =
     (if entries_by_id (js_state st) target = None then (st, Err (EntryNotFound target))
      else case candidate_sequence (js_state st) of
        Err e \<Rightarrow> (st, Err e)
      | Ok n \<Rightarrow> persist env w (encode_label_fact n target label) st)"

definition store_label :: "jsonl_store \<Rightarrow> entry_id \<Rightarrow> string option" where
  "store_label st target = labels (js_state st) target"

text \<open>\<^verbatim>\<open>sync\<close>: flush what the writer retains, then \<^verbatim>\<open>sync_data\<close>; \<open>k\<close> bytes reach the file when it fails.\<close>

fun sync :: "write_outcome \<Rightarrow> jsonl_store \<Rightarrow> jsonl_store \<times> (unit, store_error) result" where
  "sync Written st = (st\<lparr>js_file := js_file st @ js_buffer st, js_buffer := []\<rparr>, Ok ())"
| "sync (WriteFailed j k) st =
     (st\<lparr>js_file := js_file st @ take k (js_buffer st), js_buffer := drop k (js_buffer st)\<rparr>, Err StoreIo)"

lemmas store_op_defs [store_defs] =
  persist_def create_lane_def move_lane_def append_entry_def append_record_def set_name_def
  set_label_def append_extension_entry_def

end
