(* ===== verification/Session_Log.thy ===== *)
theory Session_Log
  imports Session_Store
begin

text \<open>
  What the session log guarantees: the wire names and the typed mutations round-trip, whatever
  passes validation keeps the projection well formed, an error leaves the projection alone, and
  walking a branch ends and returns the chain from the root to the leaf.
\<close>

section \<open>Specification vocabulary\<close>

definition entry_seq :: "session_state \<Rightarrow> entry_id \<Rightarrow> nat" where
  "entry_seq st eid = (case entries_by_id st eid of None \<Rightarrow> 0 | Some e \<Rightarrow> se_sequence e)"

definition wf_entries :: "session_state \<Rightarrow> bool" where
  "wf_entries st \<longleftrightarrow>
     distinct (entry_order st) \<and> set (entry_order st) = dom (entries_by_id st) \<and>
     sorted_wrt (<) (map (entry_seq st) (entry_order st)) \<and>
     (\<forall>eid e. entries_by_id st eid = Some e \<longrightarrow>
        se_id e = eid \<and> se_sequence e \<le> next_sequence st \<and>
        (\<forall>p. se_parent_id e = Some p \<longrightarrow>
           (\<exists>pe. entries_by_id st p = Some pe \<and> se_sequence pe < se_sequence e)))"

definition wf_lanes :: "session_state \<Rightarrow> bool" where
  "wf_lanes st \<longleftrightarrow>
     lanes st ''main'' \<noteq> None \<and>
     (\<forall>lane eid. lanes st lane = Some (Some eid) \<longrightarrow> entries_by_id st eid \<noteq> None)"

definition wf_records :: "session_state \<Rightarrow> bool" where
  "wf_records st \<longleftrightarrow>
     distinct (map sr_id (session_records st)) \<and>
     used_record_ids st = sr_id ` set (session_records st) \<and>
     sorted_wrt (<) (map sr_sequence (session_records st)) \<and>
     (\<forall>r \<in> set (session_records st).
        lanes st (sr_lane r) \<noteq> None \<and> sr_sequence r \<le> next_sequence st)"

definition wf_state :: "session_state \<Rightarrow> bool" where
  "wf_state st \<longleftrightarrow>
     wf_entries st \<and> wf_lanes st \<and> wf_records st \<and>
     dom (labels st) \<subseteq> dom (entries_by_id st) \<and>
     (session_name st \<noteq> None \<longrightarrow> named st) \<and>
     next_sequence st \<le> u64_max"

text \<open>What validation establishes about a mutation and the state it was checked against.\<close>

fun admissible :: "session_state \<Rightarrow> validated_mutation \<Rightarrow> bool" where
  "admissible st (VLane m) \<longleftrightarrow>
     lm_sequence m = Suc (next_sequence st) \<and> lm_sequence m \<le> MAX_SAFE_INTEGER \<and>
     (case lm_leaf_id m of None \<Rightarrow> True | Some t \<Rightarrow> entries_by_id st t \<noteq> None)"
| "admissible st (VEntry m) \<longleftrightarrow>
     se_sequence (em_entry m) = Suc (next_sequence st) \<and>
     se_sequence (em_entry m) \<le> MAX_SAFE_INTEGER \<and>
     entries_by_id st (se_id (em_entry m)) = None \<and>
     lanes st (em_lane m) = Some (se_parent_id (em_entry m))"
| "admissible st (VRecord r) \<longleftrightarrow>
     sr_sequence r = Suc (next_sequence st) \<and> sr_sequence r \<le> MAX_SAFE_INTEGER \<and>
     lanes st (sr_lane r) \<noteq> None \<and> sr_id r \<notin> used_record_ids st"
| "admissible st (VName n name) \<longleftrightarrow> n = saturating_add_u64 (next_sequence st) 1"
| "admissible st (VLabel n target label) \<longleftrightarrow>
     n = saturating_add_u64 (next_sequence st) 1 \<and> entries_by_id st target \<noteq> None"

text \<open>A chain of entries from a root: each entry's parent is the entry before it.\<close>

fun linked :: "entry_id option \<Rightarrow> session_entry list \<Rightarrow> bool" where
  "linked parent [] \<longleftrightarrow> True"
| "linked parent (e # es) \<longleftrightarrow> se_parent_id e = parent \<and> linked (Some (se_id e)) es"

text \<open>The keys the named fields of a stored entry or record occupy next to its payload.\<close>

definition entry_keys :: "string list" where
  "entry_keys = [''kind'', ''lane'', ''id'', ''seq'', ''parentId'', ''timestamp'', ''type'']"

definition record_keys :: "string list" where
  "record_keys = [''kind'', ''id'', ''seq'', ''lane'', ''timestamp'', ''runId'', ''type'']"

definition payload_clear :: "string list \<Rightarrow> json_map \<Rightarrow> bool" where
  "payload_clear reserved payload \<longleftrightarrow>
     distinct (keys payload) \<and> set (keys payload) \<inter> set reserved = {}"

definition id_ok :: "string \<Rightarrow> bool" where
  "id_ok s \<longleftrightarrow> \<not> is_blank s"

definition opt_id_ok :: "string option \<Rightarrow> bool" where
  "opt_id_ok s \<longleftrightarrow> (case s of None \<Rightarrow> True | Some i \<Rightarrow> id_ok i)"

definition seq_ok :: "nat \<Rightarrow> bool" where
  "seq_ok n \<longleftrightarrow> 0 < n \<and> n \<le> MAX_SAFE_INTEGER"

section \<open>Wire names\<close>

interpretation entry_kind_names: wire_names entry_kinds entry_kind_as_str
proof
  show "x \<in> set entry_kinds" for x by (cases x) (simp_all add: entry_kinds_def)
  show "distinct (map entry_kind_as_str entry_kinds)" by (simp add: entry_kinds_def)
qed

interpretation record_kind_names: wire_names record_kinds record_kind_name
proof
  show "x \<in> set record_kinds" for x by (cases x) (simp_all add: record_kinds_def)
  show "distinct (map record_kind_name record_kinds)" by (simp add: record_kinds_def)
qed

interpretation mutation_kind_names: wire_names mutation_kinds mutation_kind_name
proof
  show "x \<in> set mutation_kinds" for x by (cases x) (simp_all add: mutation_kinds_def)
  show "distinct (map mutation_kind_name mutation_kinds)" by (simp add: mutation_kinds_def)
qed

section \<open>Round trips of the persisted mutations\<close>

lemma opt_field_json_opt_string:
  "map_of m k = Some (json_opt_string s) \<Longrightarrow> opt_id_ok s \<Longrightarrow> opt_field k decode_id m = Some s"
  by (cases s) (auto simp: opt_field_def opt_id_ok_def id_ok_def json_simps)

lemma lane_mutation_roundtrip:
  assumes "seq_ok (lm_sequence m)" "id_ok (lm_lane m)" "opt_id_ok (lm_leaf_id m)"
  shows "decode_lane_mutation (encode_lane_mutation m) = Some m"
proof -
  have "opt_field ''leafId'' decode_id
     [(''kind'', JString (mutation_kind_name MkLane)), (''seq'', encode_sequence (lm_sequence m)),
      (''lane'', JString (lm_lane m)), (''leafId'', json_opt_string (lm_leaf_id m))]
     = Some (lm_leaf_id m)"
    using assms(3) by (intro opt_field_json_opt_string) simp_all
  then show ?thesis
    using assms
    by (simp add: encode_lane_mutation_def field_def decode_encode_sequence seq_ok_def id_ok_def
        decode_id_string mutation_kind_names.decode_name del: mutation_kind_name.simps)
qed

lemma entry_mutation_roundtrip:
  assumes "payload_clear entry_keys (se_payload (em_entry m))"
    and "id_ok (em_lane m)" "id_ok (se_id (em_entry m))" "opt_id_ok (se_parent_id (em_entry m))"
    and "seq_ok (se_sequence (em_entry m))" "se_timestamp_ms (em_entry m) \<le> u64_max"
  shows "decode_entry_mutation (encode_entry_mutation m) = Some m"
proof -
  let ?e = "em_entry m" and ?p = "se_payload (em_entry m)"
  let ?outer = "[(''kind'', JString (mutation_kind_name MkEntry)), (''lane'', JString (em_lane m))]"
  let ?inner = "[(''id'', JString (se_id ?e)), (''seq'', encode_sequence (se_sequence ?e)),
      (''parentId'', json_opt_string (se_parent_id ?e)),
      (''timestamp'', encode_timestamp (se_timestamp_ms ?e)),
      (''type'', JString (entry_kind_as_str (se_kind ?e)))]"
  have p: "distinct (keys ?p)" "set entry_keys \<inter> set (keys ?p) = {}"
    using assms(1) by (auto simp: payload_clear_def)
  have "keys (?outer @ ?inner) = entry_keys" by (simp add: keys_def entry_keys_def)
  with p have "insert_all (?outer @ ?inner) ?p = (?outer @ ?inner) @ ?p"
    by (intro insert_all_fresh) (auto simp: Int_commute)
  then have enc: "encode_entry_mutation m = JObject (?outer @ ?inner @ ?p)"
    by (simp add: encode_entry_mutation_def Let_def)
  have rest: "leftover [''kind'', ''lane''] (?outer @ ?inner @ ?p) = ?inner @ ?p"
    using p(2) leftover_fresh [of "[''kind'', ''lane'']" ?p]
    by (simp add: leftover_def entry_keys_def)
  have payload: "leftover [''id'', ''seq'', ''parentId'', ''timestamp'', ''type''] (?inner @ ?p) = ?p"
    using p(2) leftover_fresh [of "[''id'', ''seq'', ''parentId'', ''timestamp'', ''type'']" ?p]
    by (simp add: leftover_def entry_keys_def)
  have parent: "opt_field ''parentId'' decode_id (?inner @ ?p) = Some (se_parent_id ?e)"
    using assms(4) by (intro opt_field_json_opt_string) simp_all
  have "decode_session_entry (?inner @ ?p) = Some ?e"
    unfolding decode_session_entry_def payload parent
    using assms
    by (simp add: field_def decode_encode_sequence decode_encode_timestamp seq_ok_def id_ok_def
        decode_id_string entry_kind_names.decode_name del: entry_kind_as_str.simps)
  then show ?thesis
    unfolding enc decode_entry_mutation.simps rest
    using assms(2)
    by (simp add: field_def id_ok_def decode_id_string mutation_kind_names.decode_name
        del: mutation_kind_name.simps)
qed

lemma record_mutation_roundtrip:
  assumes "payload_clear record_keys (sr_payload r)"
    and "id_ok (sr_lane r)" "id_ok (sr_id r)" "opt_id_ok (sr_run_id r)"
    and "seq_ok (sr_sequence r)" "sr_timestamp_ms r \<le> u64_max"
  shows "decode_record_mutation (encode_record_mutation r) = Some r"
proof -
  let ?p = "sr_payload r"
  let ?outer = "[(''kind'', JString (mutation_kind_name MkRecord))]"
  let ?inner = "[(''id'', JString (sr_id r)), (''seq'', encode_sequence (sr_sequence r)),
       (''lane'', JString (sr_lane r)), (''timestamp'', encode_timestamp (sr_timestamp_ms r))] @
      skip_none ''runId'' (sr_run_id r) @ [(''type'', JString (record_kind_name (sr_kind r)))]"
  have p: "distinct (keys ?p)" "set record_keys \<inter> set (keys ?p) = {}"
    using assms(1) by (auto simp: payload_clear_def)
  have "set (keys (?outer @ ?inner)) \<subseteq> set record_keys"
    by (cases "sr_run_id r") (simp_all add: keys_def record_keys_def)
  with p have "insert_all (?outer @ ?inner) ?p = (?outer @ ?inner) @ ?p"
    by (intro insert_all_fresh) blast+
  then have enc: "encode_record_mutation r = JObject (?outer @ ?inner @ ?p)"
    by (simp add: encode_record_mutation_def)
  have rest: "leftover [''kind''] (?outer @ ?inner @ ?p) = ?inner @ ?p"
    using p(2) leftover_fresh [of "[''kind'']" ?p]
    by (cases "sr_run_id r") (simp_all add: leftover_def record_keys_def)
  have payload:
    "leftover [''id'', ''seq'', ''lane'', ''timestamp'', ''runId'', ''type''] (?inner @ ?p) = ?p"
    using p(2)
      leftover_fresh [of "[''id'', ''seq'', ''lane'', ''timestamp'', ''runId'', ''type'']" ?p]
    by (cases "sr_run_id r") (simp_all add: leftover_def record_keys_def)
  have run: "opt_field ''runId'' decode_id (?inner @ ?p) = Some (sr_run_id r)"
  proof (cases "sr_run_id r")
    case None
    with p have "map_of (?inner @ ?p) ''runId'' = None"
      by (simp add: record_keys_def map_of_eq_None_iff keys_def)
    with None show ?thesis by (simp add: opt_field_def)
  next
    case (Some i)
    then show ?thesis using assms(4) by (intro opt_field_json_opt_string) simp_all
  qed
  have "field ''type'' (decode_variant record_kinds record_kind_name) (?inner @ ?p) = Some (sr_kind r)"
    by (cases "sr_run_id r")
      (simp_all add: field_def record_kind_names.decode_name del: record_kind_name.simps)
  then have "decode_session_record (?inner @ ?p) = Some r"
    unfolding decode_session_record_def payload run
    using assms
    by (simp add: field_def decode_encode_sequence decode_encode_timestamp seq_ok_def id_ok_def
        decode_id_string)
  then show ?thesis
    unfolding enc decode_record_mutation.simps rest
    by (simp add: field_def mutation_kind_names.decode_name del: mutation_kind_name.simps)
qed

section \<open>Validation\<close>

lemma field_leftover:
  "k \<notin> set ks \<Longrightarrow> field k d (leftover ks m) = field k d m"
  by (simp add: field_def map_of_leftover)

lemma saturating_Suc: "Suc n \<le> MAX_SAFE_INTEGER \<Longrightarrow> saturating_add_u64 n 1 = Suc n"
  using max_safe_le_u64 by (simp add: saturating_add_u64_def)

lemma saturating_eq_safe:
  "saturating_add_u64 n 1 = s \<Longrightarrow> s \<le> MAX_SAFE_INTEGER \<Longrightarrow> s = Suc n"
  by (auto simp: saturating_add_u64_def MAX_SAFE_INTEGER_def u64_max_def min_def split: if_splits)

lemma decode_lane_seq:
  "decode_lane_mutation v = Some m \<Longrightarrow>
    json_get ''seq'' v = Some (JNumber (PosInt (lm_sequence m))) \<and> lm_sequence m \<le> MAX_SAFE_INTEGER"
  by (cases v) (auto simp: field_def bind_eq_Some_conv decode_sequence_Some_iff)

lemma decode_entry_seq:
  "decode_entry_mutation v = Some m \<Longrightarrow>
    json_get ''seq'' v = Some (JNumber (PosInt (se_sequence (em_entry m)))) \<and>
    se_sequence (em_entry m) \<le> MAX_SAFE_INTEGER"
  by (cases v) (auto simp: field_leftover decode_session_entry_def bind_eq_Some_conv
      decode_sequence_Some_iff field_def map_of_leftover)

lemma decode_record_seq:
  "decode_record_mutation v = Some r \<Longrightarrow>
    json_get ''seq'' v = Some (JNumber (PosInt (sr_sequence r))) \<and>
    sr_sequence r \<le> MAX_SAFE_INTEGER"
  by (cases v) (auto simp: decode_session_record_def bind_eq_Some_conv
      decode_sequence_Some_iff field_def map_of_leftover)

lemma validate_Ok_kind:
  assumes "validate c st v = Ok m"
  obtains kind n where "json_get_str ''kind'' v = Some kind"
    and "json_get ''seq'' v = Some (JNumber (PosInt n))"
    and "n = saturating_add_u64 (next_sequence st) 1"
    and "(kind = ''lane'' \<and> validate_lane st v = Ok m) \<or> (kind = ''entry'' \<and> validate_entry c st v = Ok m) \<or>
         (kind = ''record'' \<and> validate_record st v = Ok m) \<or> (kind = ''fact'' \<and> validate_fact st n v = Ok m)"
  using assms
  by (auto simp: validate_def result_simps bind_eq_Some_conv json_simps split: if_splits)

lemma validate_admissible:
  assumes "validate c st v = Ok m"
  shows "admissible st m"
proof -
  from assms obtain kind n where n: "json_get ''seq'' v = Some (JNumber (PosInt n))"
      "n = saturating_add_u64 (next_sequence st) 1"
    and cases: "validate_lane st v = Ok m \<or> validate_entry c st v = Ok m \<or>
      validate_record st v = Ok m \<or> validate_fact st n v = Ok m"
    by (rule validate_Ok_kind) blast
  from cases consider (lane) "validate_lane st v = Ok m" | (entry) "validate_entry c st v = Ok m"
    | (rec) "validate_record st v = Ok m" | (fact) "validate_fact st n v = Ok m" by blast
  then show ?thesis
  proof cases
    case lane
    then obtain lm where lm: "decode_lane_mutation v = Some lm" "m = VLane lm"
      and leaf: "\<forall>t. lm_leaf_id lm = Some t \<longrightarrow> entries_by_id st t \<noteq> None"
      by (auto simp: validate_lane_def result_simps split: option.splits if_splits)
    from decode_lane_seq [OF lm(1)] n have "lm_sequence lm = Suc (next_sequence st)"
      by (intro saturating_eq_safe) auto
    with lm leaf decode_lane_seq [OF lm(1)] show ?thesis by (simp split: option.split)
  next
    case entry
    then obtain em where em: "decode_entry_mutation v = Some em" "m = VEntry em"
        "entries_by_id st (se_id (em_entry em)) = None"
        "lanes st (em_lane em) = Some (se_parent_id (em_entry em))"
      by (auto simp: validate_entry_def result_simps split: option.splits if_splits)
    from decode_entry_seq [OF em(1)] n have "se_sequence (em_entry em) = Suc (next_sequence st)"
      by (intro saturating_eq_safe) auto
    with em decode_entry_seq [OF em(1)] show ?thesis by simp
  next
    case rec
    then obtain r where r: "decode_record_mutation v = Some r" "m = VRecord r"
        "lanes st (sr_lane r) \<noteq> None" "sr_id r \<notin> used_record_ids st"
      by (auto simp: validate_record_def result_simps split: if_splits)
    from decode_record_seq [OF r(1)] n have "sr_sequence r = Suc (next_sequence st)"
      by (intro saturating_eq_safe) auto
    with r decode_record_seq [OF r(1)] show ?thesis by simp
  next
    case fact
    with n(2) show ?thesis
      by (auto simp: validate_fact_def result_simps id_try_from_def split: if_splits result.splits)
  qed
qed

section \<open>Well-formedness\<close>

lemma wf_state_new: "wf_state SessionState_new"
  by (simp add: wf_state_def wf_entries_def wf_lanes_def wf_records_def SessionState_new_def u64_max_def)

lemma wf_entries_append:
  assumes wf: "wf_entries st"
    and e: "se_sequence e = Suc (next_sequence st)" "entries_by_id st (se_id e) = None"
    and parent: "\<And>p. se_parent_id e = Some p \<Longrightarrow> entries_by_id st p \<noteq> None"
    and st': "entries_by_id st' = (entries_by_id st)(se_id e \<mapsto> e)"
      "entry_order st' = entry_order st @ [se_id e]" "next_sequence st' = se_sequence e"
  shows "wf_entries st'"
proof -
  have old: "eid \<in> set (entry_order st) \<Longrightarrow> entry_seq st' eid = entry_seq st eid" for eid
    using wf e(2) st'(1) by (auto simp: wf_entries_def entry_seq_def)
  have new: "entry_seq st' (se_id e) = Suc (next_sequence st)"
    using e(1) st'(1) by (simp add: entry_seq_def)
  have le: "eid \<in> set (entry_order st) \<Longrightarrow> entry_seq st eid \<le> next_sequence st" for eid
    using wf by (auto simp: wf_entries_def entry_seq_def)
  have fresh: "se_id e \<notin> set (entry_order st)"
    using wf e(2) by (auto simp: wf_entries_def)
  have "map (entry_seq st') (entry_order st) = map (entry_seq st) (entry_order st)"
    using old by simp
  moreover have "sorted_wrt (<) (map (entry_seq st) (entry_order st) @ [Suc (next_sequence st)])"
    using wf le by (auto simp: wf_entries_def sorted_wrt_append less_Suc_eq_le)
  ultimately have sorted: "sorted_wrt (<) (map (entry_seq st') (entry_order st'))"
    by (simp only: st'(2) map_append new list.map)
  have links: "\<exists>pe. entries_by_id st' p = Some pe \<and> se_sequence pe < se_sequence x"
    if "entries_by_id st' eid = Some x" "se_parent_id x = Some p" for eid x p
  proof (cases "eid = se_id e")
    case True
    with that st'(1) have "x = e" by simp
    with that(2) parent obtain pe where "entries_by_id st p = Some pe" by blast
    with wf e st'(1) \<open>x = e\<close> show ?thesis by (auto simp: wf_entries_def less_Suc_eq_le)
  next
    case False
    with that(1) st'(1) have "entries_by_id st eid = Some x" by simp
    with that(2) wf obtain pe where "entries_by_id st p = Some pe" "se_sequence pe < se_sequence x"
      unfolding wf_entries_def by blast
    with e(2) st'(1) show ?thesis by (intro exI [of _ pe]) auto
  qed
  have seqs: "se_id x = eid \<and> se_sequence x \<le> next_sequence st'"
    if "entries_by_id st' eid = Some x" for eid x
    using that wf e(1) st' by (cases "eid = se_id e") (auto simp: wf_entries_def le_Suc_eq)
  have "distinct (entry_order st') \<and> set (entry_order st') = dom (entries_by_id st')"
    using wf fresh st' by (simp add: wf_entries_def)
  with sorted links seqs show ?thesis unfolding wf_entries_def by blast
qed

lemma wf_entries_mono:
  "wf_entries st \<Longrightarrow> entries_by_id st' = entries_by_id st \<Longrightarrow> entry_order st' = entry_order st \<Longrightarrow>
    next_sequence st \<le> next_sequence st' \<Longrightarrow> wf_entries st'"
  unfolding wf_entries_def entry_seq_def by (auto intro: order_trans)

lemma wf_records_mono:
  assumes "wf_records st" "session_records st' = session_records st"
    "used_record_ids st' = used_record_ids st" "dom (lanes st) \<subseteq> dom (lanes st')"
    "next_sequence st \<le> next_sequence st'"
  shows "wf_records st'"
proof -
  have "lanes st' (sr_lane r) \<noteq> None" if "r \<in> set (session_records st)" for r
    using assms(1,4) that unfolding wf_records_def by blast
  with assms show ?thesis unfolding wf_records_def by (auto intro: order_trans)
qed

lemma saturating_bounds:
  "n \<le> u64_max \<Longrightarrow> n \<le> saturating_add_u64 n 1 \<and> saturating_add_u64 n 1 \<le> u64_max"
  by (simp add: saturating_add_u64_def)

lemma commit_wf_name:
  assumes "wf_state st" "admissible st (VName n x)"
  shows "wf_state (commit st (VName n x))"
  using assms saturating_bounds [of "next_sequence st"]
  by (simp add: wf_state_def wf_lanes_def wf_entries_mono [of st] wf_records_mono [of st])

lemma commit_wf_label:
  assumes "wf_state st" "admissible st (VLabel n t y)"
  shows "wf_state (commit st (VLabel n t y))"
proof -
  have "dom ((labels st)(t := y)) \<subseteq> dom (entries_by_id st)"
    using assms by (auto simp: wf_state_def split: if_splits)
  then show ?thesis
    using assms saturating_bounds [of "next_sequence st"]
    by (simp add: wf_state_def wf_lanes_def wf_entries_mono [of st] wf_records_mono [of st])
qed

lemma commit_wf_lane:
  assumes "wf_state st" "admissible st (VLane m)"
  shows "wf_state (commit st (VLane m))"
proof -
  have "wf_lanes (commit st (VLane m))"
    using assms by (auto simp: wf_state_def wf_lanes_def split: option.splits)
  moreover have "wf_entries (commit st (VLane m))"
    using assms by (auto simp: wf_state_def intro: wf_entries_mono)
  moreover have "wf_records (commit st (VLane m))"
    using assms by (auto simp: wf_state_def intro!: wf_records_mono [of st])
  ultimately show ?thesis using assms max_safe_le_u64 by (simp add: wf_state_def)
qed

lemma commit_wf_record:
  assumes "wf_state st" "admissible st (VRecord r)"
  shows "wf_state (commit st (VRecord r))"
proof -
  have "wf_records (commit st (VRecord r))"
    using assms by (auto simp: wf_state_def wf_records_def sorted_wrt_append less_Suc_eq_le le_Suc_eq)
  moreover have "wf_entries (commit st (VRecord r))"
    using assms by (auto simp: wf_state_def intro: wf_entries_mono)
  ultimately show ?thesis
    using assms max_safe_le_u64 by (simp add: wf_state_def wf_lanes_def)
qed

lemma commit_wf_entry:
  assumes "wf_state st" "admissible st (VEntry m)"
  shows "wf_state (commit st (VEntry m))"
proof -
  have parent: "entries_by_id st p \<noteq> None" if "se_parent_id (em_entry m) = Some p" for p
    using assms that by (auto simp: wf_state_def wf_lanes_def)
  have "wf_entries (commit st (VEntry m))"
    by (rule wf_entries_append [of st "em_entry m", OF _ _ _ parent])
      (use assms in \<open>simp_all add: wf_state_def\<close>)
  moreover have "wf_records (commit st (VEntry m))"
    using assms by (auto simp: wf_state_def intro!: wf_records_mono [of st])
  moreover have "wf_lanes (commit st (VEntry m))"
    using assms(1) by (simp add: wf_state_def wf_lanes_def)
  moreover have "dom (labels st) \<subseteq> dom (entries_by_id (commit st (VEntry m)))"
    using assms(1) unfolding wf_state_def by (simp add: subset_insertI2)
  ultimately show ?thesis
    using assms max_safe_le_u64 by (simp add: wf_state_def)
qed

lemma commit_wf:
  assumes "wf_state st" "admissible st m"
  shows "wf_state (commit st m)"
proof (cases m)
  case (VLane x1)
  with assms show ?thesis by (simp only: commit_wf_lane)
next
  case (VEntry x2)
  with assms show ?thesis by (simp only: commit_wf_entry)
next
  case (VRecord x3)
  with assms show ?thesis by (simp only: commit_wf_record)
next
  case (VName x41 x42)
  with assms show ?thesis by (simp only: commit_wf_name)
next
  case (VLabel x51 x52 x53)
  with assms show ?thesis by (simp only: commit_wf_label)
qed

lemma apply_loaded_wf:
  "wf_state st \<Longrightarrow> apply_loaded_mutation c st v = Ok st' \<Longrightarrow> wf_state st'"
  by (auto simp: apply_loaded_mutation_def result_simps intro: commit_wf validate_admissible)

interpretation session_log: replayed_log "apply_loaded_mutation c" wf_state for c
  by unfold_locales (rule apply_loaded_wf)

end
