(* ===== verification/Store_Ops.thy ===== *)
theory Store_Ops
  imports Session_Log
begin

text \<open>
  The operations of \<^verbatim>\<open>JsonlSessionStore\<close> as clients see them: every operation is either refused
  without a trace or goes through \<open>persist\<close>, so well-formedness, atomicity under I/O failure and
  agreement of the log with the projection are proved once for \<open>persist\<close>; then what each
  operation does, and the walk along a branch.
\<close>

section \<open>Sequences of operations\<close>

datatype store_op =
    OpCreateLane lane_id "entry_id option"
  | OpMoveLane lane_id "entry_id option"
  | OpAppendEntry nat lane_id new_entry
  | OpAppendRecord nat new_record
  | OpSetName "string option"
  | OpSetLabel entry_id "string option"

fun discard :: "'s \<times> ('a, 'e) result \<Rightarrow> 's \<times> (unit, 'e) result" where
  "discard (s, Ok x) = (s, Ok ())"
| "discard (s, Err e) = (s, Err e)"

fun run_op :: "store_env \<Rightarrow> write_outcome \<Rightarrow> store_op \<Rightarrow> jsonl_store \<Rightarrow> jsonl_store \<times> (unit, store_error) result" where
  "run_op env w (OpCreateLane lane at) st = create_lane env w lane at st"
| "run_op env w (OpMoveLane lane to) st = move_lane env w lane to st"
| "run_op env w (OpAppendEntry now lane e) st = discard (append_entry env w now lane e st)"
| "run_op env w (OpAppendRecord now r) st = discard (append_record env w now r st)"
| "run_op env w (OpSetName name) st = set_name env w name st"
| "run_op env w (OpSetLabel target label) st = set_label env w target label st"

fun run_ops :: "store_env \<Rightarrow> (store_op \<times> write_outcome) list \<Rightarrow> jsonl_store \<Rightarrow> jsonl_store" where
  "run_ops env [] st = st"
| "run_ops env ((operation, w) # ops) st = run_ops env ops (fst (run_op env w operation st))"

text \<open>The lines of a log that hold the given values, and a store that agrees with its log.\<close>

definition log_lines :: "store_env \<Rightarrow> json list \<Rightarrow> string" where
  "log_lines env vs = concat (map (\<lambda>v. to_text env v @ [newline]) vs)"

definition log_agrees :: "store_env \<Rightarrow> string \<Rightarrow> jsonl_store \<Rightarrow> json list \<Rightarrow> bool" where
  "log_agrees env header st vs \<longleftrightarrow>
     js_file st = header @ [newline] @ log_lines env vs \<and> js_buffer st = [] \<and>
     try_fold (apply_loaded_mutation (codec env)) SessionState_new vs = Ok (js_state st)"

text \<open>A path from a root entry to the entry with the given identifier.\<close>

definition path_to :: "session_state \<Rightarrow> entry_id \<Rightarrow> session_entry list \<Rightarrow> bool" where
  "path_to st leaf es \<longleftrightarrow>
     es \<noteq> [] \<and> se_id (last es) = leaf \<and> linked None es \<and>
     (\<forall>e \<in> set es. entries_by_id st (se_id e) = Some e)"

text \<open>An outcome that is a refusal without a trace or that of one persisted mutation.\<close>

definition via_persist ::
    "store_env \<Rightarrow> write_outcome \<Rightarrow> jsonl_store \<Rightarrow> jsonl_store \<times> (unit, store_error) result \<Rightarrow> bool" where
  "via_persist env w st p \<longleftrightarrow> (\<exists>e. p = (st, Err e)) \<or> (\<exists>v. p = persist env w v st)"

section \<open>persist\<close>

lemma append_line_state [simp]: "js_state (fst (append_line w line st)) = js_state st"
  by (cases w) (simp_all add: Let_def)

lemma append_line_result:
  "snd (append_line w line st) = (case w of Written \<Rightarrow> Ok () | WriteFailed j k \<Rightarrow> Err StoreIo)"
  by (cases w) (simp_all add: Let_def)

lemma persist_Written:
  "validate (codec env) (js_state st) v = Ok m \<Longrightarrow>
    persist env Written v st =
      (st\<lparr>js_file := js_file st @ js_buffer st @ to_text env v @ [newline], js_buffer := [],
          js_state := commit (js_state st) m\<rparr>, Ok ())"
  by (simp add: persist_def)

lemma persist_Ok_iff:
  "snd (persist env w v st) = Ok () \<longleftrightarrow>
    w = Written \<and> (\<exists>m. validate (codec env) (js_state st) v = Ok m)"
  by (cases w) (auto simp: persist_def Let_def split: result.splits)

lemma persist_Ok_state:
  "snd (persist env w v st) = Ok () \<Longrightarrow>
    \<exists>m. validate (codec env) (js_state st) v = Ok m \<and>
      js_state (fst (persist env w v st)) = commit (js_state st) m"
  by (cases w) (auto simp: persist_def Let_def split: result.splits)

lemma persist_Err_state:
  "snd (persist env w v st) = Err e \<Longrightarrow> js_state (fst (persist env w v st)) = js_state st"
  by (cases w) (auto simp: persist_def Let_def split: result.splits)

lemma persist_Err_store:
  "snd (persist env w v st) = Err e \<Longrightarrow> w = Written \<or> e \<noteq> StoreIo \<Longrightarrow> fst (persist env w v st) = st"
  by (cases w) (auto simp: persist_def Let_def split: result.splits)

lemma persist_wf: "wf_state (js_state st) \<Longrightarrow> wf_state (js_state (fst (persist env w v st)))"
proof (cases "snd (persist env w v st)")
  case (Ok u)
  assume wf: "wf_state (js_state st)"
  from Ok have "snd (persist env w v st) = Ok ()" by simp
  from persist_Ok_state [OF this] obtain m where m: "validate (codec env) (js_state st) v = Ok m"
    "js_state (fst (persist env w v st)) = commit (js_state st) m" by blast
  from commit_wf [OF wf validate_admissible [OF m(1)]] m(2) show ?thesis by simp
qed (simp add: persist_Err_state)

section \<open>Every operation is refused or persisted\<close>

lemma via_persistI [intro]:
  "via_persist env w st (st, Err e)" "via_persist env w st (persist env w v st)"
  by (auto simp: via_persist_def)

lemma discard_case:
  "discard (case p of (s, Ok x) \<Rightarrow> (s, Ok y) | (s, Err e) \<Rightarrow> (s, Err e)) = discard p"
  by (cases p; cases "snd p") auto

lemma discard_unit [simp]: "discard (p :: 's \<times> (unit, 'e) result) = p"
  by (cases p; cases "snd p") auto

lemma run_op_via_persist: "via_persist env w st (run_op env w operation st)"
  by (cases operation)
    (auto simp: create_lane_def move_lane_def append_entry_def append_record_def set_name_def
      set_label_def Let_def discard_case split: result.splits option.splits)

lemma via_persist_wf:
  "via_persist env w st p \<Longrightarrow> wf_state (js_state st) \<Longrightarrow> wf_state (js_state (fst p))"
  by (auto simp: via_persist_def intro: persist_wf)

lemma run_op_wf: "wf_state (js_state st) \<Longrightarrow> wf_state (js_state (fst (run_op env w operation st)))"
  by (rule via_persist_wf [OF run_op_via_persist])

lemma run_ops_wf: "wf_state (js_state st) \<Longrightarrow> wf_state (js_state (run_ops env ops st))"
  by (induction env ops st rule: run_ops.induct) (auto intro: run_op_wf)

lemma via_persist_Err:
  "via_persist env w st p \<Longrightarrow> snd p = Err e \<Longrightarrow>
    js_state (fst p) = js_state st \<and> (w = Written \<or> e \<noteq> StoreIo \<longrightarrow> fst p = st)"
  by (auto simp: via_persist_def persist_Err_state persist_Err_store)

section \<open>Agreement of the log with the projection\<close>

lemma log_lines_snoc: "log_lines env (vs @ [v]) = log_lines env vs @ to_text env v @ [newline]"
  by (simp add: log_lines_def)

lemma persist_log_agrees:
  assumes "log_agrees env header st vs"
  shows "\<exists>vs'. log_agrees env header (fst (persist env Written v st)) (vs @ vs')"
proof (cases "validate (codec env) (js_state st) v")
  case (Ok m)
  with assms have "log_agrees env header (fst (persist env Written v st)) (vs @ [v])"
    by (simp add: log_agrees_def persist_Written log_lines_snoc try_fold_append
        apply_loaded_mutation_def)
  then show ?thesis by blast
next
  case (Err e)
  then have "fst (persist env Written v st) = st" by (simp add: persist_def)
  with assms show ?thesis by (intro exI [of _ "[]"]) simp
qed

lemma run_op_log_agrees:
  assumes "log_agrees env header st vs"
  shows "\<exists>vs'. log_agrees env header (fst (run_op env Written operation st)) (vs @ vs')"
  using run_op_via_persist [of env Written st operation] assms persist_log_agrees [OF assms]
  by (auto simp: via_persist_def intro: exI [of _ "[]"])

lemma run_ops_log_agrees:
  assumes "log_agrees env header st vs" "\<forall>ow \<in> set ops. snd ow = Written"
  shows "\<exists>vs'. log_agrees env header (run_ops env ops st) (vs @ vs')"
  using assms
proof (induction ops arbitrary: st vs)
  case Nil
  then show ?case by (auto intro: exI [of _ "[]"])
next
  case (Cons ow ops)
  obtain operation where ow: "ow = (operation, Written)" using Cons.prems(2) by (cases ow) auto
  obtain us where "log_agrees env header (fst (run_op env Written operation st)) (vs @ us)"
    using run_op_log_agrees [OF Cons.prems(1)] by blast
  then obtain ws where
    "log_agrees env header (run_ops env ops (fst (run_op env Written operation st))) ((vs @ us) @ ws)"
    using Cons.IH Cons.prems(2) by (metis list.set_intros(2))
  with ow show ?case by (intro exI [of _ "us @ ws"]) simp
qed

section \<open>Branches\<close>

lemma branch_walk_total:
  assumes "finite (dom (entries_by_id st))"
  shows "\<exists>r. branch_walk st cursor visited acc = Some r"
proof (induction "card (dom (entries_by_id st) - visited)" arbitrary: cursor visited acc
    rule: less_induct)
  case less
  show ?case
  proof (cases cursor)
    case None
    then show ?thesis by (simp add: branch_walk.simps)
  next
    case (Some eid)
    show ?thesis
    proof (cases "eid \<in> visited \<or> entries_by_id st eid = None")
      case True
      with Some show ?thesis by (subst branch_walk.simps) (auto split: option.splits)
    next
      case False
      then obtain e where e: "entries_by_id st eid = Some e" "eid \<notin> visited" by auto
      have "dom (entries_by_id st) - insert eid visited \<subset> dom (entries_by_id st) - visited"
        using e by blast
      with assms have "card (dom (entries_by_id st) - insert eid visited)
          < card (dom (entries_by_id st) - visited)"
        by (intro psubset_card_mono) auto
      from less [OF this] obtain r where
        "branch_walk st (se_parent_id e) (insert eid visited) (acc @ [e]) = Some r" by blast
      with Some e show ?thesis by (subst branch_walk.simps) simp
    qed
  qed
qed

lemma linked_append:
  "linked p (xs @ ys) \<longleftrightarrow> linked p xs \<and> linked (if xs = [] then p else Some (se_id (last xs))) ys"
  by (induction xs arbitrary: p) auto

lemma sorted_wrt_snoc:
  fixes f :: "'a \<Rightarrow> nat"
  assumes "sorted_wrt (<) (map f xs)" "xs \<noteq> []" "f (last xs) < f x"
  shows "sorted_wrt (<) (map f (xs @ [x]))"
proof -
  obtain ys y where xs: "xs = ys @ [y]" using assms(2) by (cases xs rule: rev_cases) simp
  then show ?thesis using assms by (auto simp: sorted_wrt_append)
qed

lemma branch_walk_wf:
  assumes wf: "wf_entries st" and e: "entries_by_id st eid = Some e"
    and seen: "\<forall>v \<in> visited. se_sequence e < entry_seq st v"
  shows "\<exists>es. branch_walk st (Some eid) visited acc = Some (Ok (es @ rev acc)) \<and> path_to st eid es \<and>
    sorted_wrt (<) (map se_sequence es)"
  using e seen
proof (induction "se_sequence e" arbitrary: eid e visited acc rule: less_induct)
  case less
  have eid: "se_id e = eid" using wf less.prems(1) by (simp add: wf_entries_def)
  have notin: "eid \<notin> visited" using less.prems by (auto simp: entry_seq_def)
  then have step: "branch_walk st (Some eid) visited acc =
      branch_walk st (se_parent_id e) (insert eid visited) (acc @ [e])"
    using less.prems(1) by (subst branch_walk.simps) simp
  show ?case
  proof (cases "se_parent_id e")
    case None
    with step have "branch_walk st (Some eid) visited acc = Some (Ok ([e] @ rev acc))"
      by (simp add: branch_walk.simps)
    moreover have "path_to st eid [e]" using None less.prems(1) eid by (simp add: path_to_def)
    ultimately show ?thesis by (intro exI [of _ "[e]"]) simp
  next
    case (Some p)
    with wf less.prems(1) obtain pe where pe: "entries_by_id st p = Some pe" "se_sequence pe < se_sequence e"
      unfolding wf_entries_def by blast
    have "\<forall>v \<in> insert eid visited. se_sequence pe < entry_seq st v"
      using pe(2) less.prems by (auto simp: entry_seq_def)
    from less.hyps [OF pe(2,1) this, of "acc @ [e]"] obtain es where es:
      "branch_walk st (Some p) (insert eid visited) (acc @ [e]) = Some (Ok (es @ rev (acc @ [e])))"
      "path_to st p es" "sorted_wrt (<) (map se_sequence es)" by blast
    have last: "last es = pe" "es \<noteq> []"
      using es(2) pe(1) wf by (auto simp: path_to_def)
    have "path_to st eid (es @ [e])"
      using es(2) eid less.prems(1) Some by (auto simp: path_to_def linked_append)
    moreover have "sorted_wrt (<) (map se_sequence (es @ [e]))"
      using es(3) last pe(2)
      by (intro sorted_wrt_snoc) simp_all
    ultimately show ?thesis using step es(1) Some by (intro exI [of _ "es @ [e]"]) simp
  qed
qed

lemma path_to_snoc:
  "path_to st leaf (es @ [e]) \<longleftrightarrow> se_id e = leaf \<and> entries_by_id st leaf = Some e \<and>
    (case se_parent_id e of None \<Rightarrow> es = [] | Some p \<Rightarrow> path_to st p es)"
  unfolding path_to_def linked_append by (cases "es = []") (auto split: option.splits)

lemma path_unique:
  "path_to st leaf es \<Longrightarrow> path_to st leaf es' \<Longrightarrow> es = es'"
proof (induction es arbitrary: leaf es' rule: rev_induct)
  case Nil
  then show ?case by (simp add: path_to_def)
next
  case (snoc e es)
  from snoc.prems(2) obtain fs f where es': "es' = fs @ [f]"
    unfolding path_to_def by (metis append_butlast_last_id)
  have fe: "f = e" using snoc.prems unfolding es' path_to_snoc by simp
  show ?case
  proof (cases "se_parent_id e")
    case None
    then show ?thesis using snoc.prems fe unfolding es' path_to_snoc by simp
  next
    case (Some p)
    then have "path_to st p es" "path_to st p fs"
      using snoc.prems fe unfolding es' path_to_snoc by simp_all
    then have "es = fs" by (rule snoc.IH)
    with es' fe show ?thesis by simp
  qed
qed

lemma branch_path:
  assumes "wf_entries (js_state st)" "get_entry st leaf \<noteq> None"
  shows "\<exists>es. branch st leaf = Some (Ok es) \<and> path_to (js_state st) leaf es \<and>
    sorted_wrt (<) (map se_sequence es)"
proof -
  from assms(2) obtain e where "entries_by_id (js_state st) leaf = Some e"
    by (auto simp: get_entry_def)
  from branch_walk_wf [OF assms(1) this, of "{}" "[]"] show ?thesis by (auto simp: branch_def)
qed

lemma branch_of_path:
  assumes "wf_entries (js_state st)" "path_to (js_state st) leaf es"
  shows "branch st leaf = Some (Ok es)"
proof -
  have "get_entry st leaf \<noteq> None"
    using assms(2) last_in_set [of es] by (auto simp: path_to_def get_entry_def)
  from branch_path [OF assms(1) this] path_unique [OF _ assms(2)] show ?thesis by blast
qed

end
