(* ===== verification/Store_Effects.thy ===== *)
theory Store_Effects
  imports Store_Ops
begin

text \<open>
  What the operations of the store do when they succeed, read through its queries, and what they
  leave alone.
\<close>

section \<open>Accepted arguments and what they store\<close>

definition new_session_entry :: "jsonl_store \<Rightarrow> nat \<Rightarrow> lane_id \<Rightarrow> new_entry \<Rightarrow> session_entry" where
  "new_session_entry st now lane e =
     \<lparr>se_id = ne_id e, se_sequence = Suc (last_sequence st), se_parent_id = lane_leaf st lane,
      se_timestamp_ms = now, se_kind = ne_kind e, se_payload = the (as_object (ne_payload e))\<rparr>"

definition entry_accepted :: "store_env \<Rightarrow> nat \<Rightarrow> lane_id \<Rightarrow> new_entry \<Rightarrow> jsonl_store \<Rightarrow> bool" where
  "entry_accepted env now lane e st \<longleftrightarrow>
     id_ok lane \<and> id_ok (ne_id e) \<and> opt_id_ok (lane_leaf st lane) \<and> now \<le> u64_max \<and>
     last_sequence st < MAX_SAFE_INTEGER \<and> get_entry st (ne_id e) = None \<and>
     lanes (js_state st) lane \<noteq> None \<and>
     (case as_object (ne_payload e) of None \<Rightarrow> False | Some p \<Rightarrow> payload_clear entry_keys p) \<and>
     validate_compaction (codec env) (new_session_entry st now lane e) = Ok ()"

definition new_session_record :: "jsonl_store \<Rightarrow> nat \<Rightarrow> new_record \<Rightarrow> session_record" where
  "new_session_record st now r =
     \<lparr>sr_id = nr_id r, sr_sequence = Suc (last_sequence st), sr_lane = nr_lane r,
      sr_timestamp_ms = now, sr_run_id = nr_run_id r, sr_kind = nr_kind r,
      sr_payload = the (as_object (nr_payload r))\<rparr>"

definition record_accepted :: "nat \<Rightarrow> new_record \<Rightarrow> jsonl_store \<Rightarrow> bool" where
  "record_accepted now r st \<longleftrightarrow>
     id_ok (nr_lane r) \<and> id_ok (nr_id r) \<and> opt_id_ok (nr_run_id r) \<and> now \<le> u64_max \<and>
     last_sequence st < MAX_SAFE_INTEGER \<and> nr_id r \<notin> used_record_ids (js_state st) \<and>
     lanes (js_state st) (nr_lane r) \<noteq> None \<and>
     (case as_object (nr_payload r) of None \<Rightarrow> False | Some p \<Rightarrow> payload_clear record_keys p)"

text \<open>A store to try the operations on: compact text forms, foreign decoders that accept all.\<close>

definition sample_env :: store_env where
  "sample_env = \<lparr>to_text = (\<lambda>v. case json_get_str ''id'' v of None \<Rightarrow> ''{}'' | Some i \<Rightarrow> i),
     codec = \<lparr>accepts_message = (\<lambda>v. True), accepts_usage = (\<lambda>v. True)\<rparr>\<rparr>"

definition sample_store :: jsonl_store where
  "sample_store = \<lparr>js_session_id = ''s1'', js_path = ''p'', js_file = ''h'' @ [newline], js_buffer = [],
     js_state = SessionState_new\<rparr>"

definition sample_entry :: "string \<Rightarrow> new_entry" where
  "sample_entry i = \<lparr>ne_id = i, ne_kind = EkMessage, ne_payload = JObject [(''role'', JString ''user'')]\<rparr>"

definition sample_record :: new_record where
  "sample_record = \<lparr>nr_id = ''r1'', nr_lane = ''main'', nr_run_id = None, nr_kind = QueueEnqueued,
     nr_payload = JObject [(''item'', JNull)]\<rparr>"

section \<open>Sequence numbers\<close>

lemma candidate_sequence_Ok:
  "next_sequence s < MAX_SAFE_INTEGER \<Longrightarrow> candidate_sequence s = Ok (Suc (next_sequence s))"
  using max_safe_le_u64
  by (simp add: candidate_sequence_def checked_add_u64_def sequence_try_from_def)

lemma candidate_sequence_Err:
  "MAX_SAFE_INTEGER \<le> next_sequence s \<Longrightarrow> candidate_sequence s = Err SequenceExhausted"
  by (simp add: candidate_sequence_def checked_add_u64_def sequence_try_from_def)

lemma candidate_sequence_iff:
  "candidate_sequence s = Ok n \<longleftrightarrow> n = Suc (next_sequence s) \<and> next_sequence s < MAX_SAFE_INTEGER"
  using candidate_sequence_Ok [of s] candidate_sequence_Err [of s]
  by (cases "next_sequence s < MAX_SAFE_INTEGER") auto

section \<open>Encoded mutations pass validation\<close>

lemma map_of_insert_all_clear:
  "payload_clear reserved p \<Longrightarrow> k \<in> set reserved \<Longrightarrow> map_of (insert_all m p) k = map_of m k"
  by (force simp: payload_clear_def map_of_insert_all keys_def split: option.split
      dest!: map_of_SomeD)

lemma validate_encoded_entry:
  assumes "payload_clear entry_keys (se_payload e)" "id_ok lane" "id_ok (se_id e)"
    "opt_id_ok (se_parent_id e)" "se_timestamp_ms e \<le> u64_max"
    and seq: "se_sequence e = Suc (next_sequence s)" "next_sequence s < MAX_SAFE_INTEGER"
    and "entries_by_id s (se_id e) = None" "lanes s lane = Some (se_parent_id e)"
    and "validate_compaction c e = Ok ()"
  shows "validate c s (encode_entry_mutation \<lparr>em_lane = lane, em_entry = e\<rparr>) =
    Ok (VEntry \<lparr>em_lane = lane, em_entry = e\<rparr>)"
proof -
  let ?v = "encode_entry_mutation \<lparr>em_lane = lane, em_entry = e\<rparr>"
  have ok: "seq_ok (se_sequence e)" using seq by (simp add: seq_ok_def)
  have "decode_entry_mutation ?v = Some \<lparr>em_lane = lane, em_entry = e\<rparr>"
    using assms ok by (intro entry_mutation_roundtrip) simp_all
  then have "validate_entry c s ?v = Ok (VEntry \<lparr>em_lane = lane, em_entry = e\<rparr>)"
    using assms by (simp add: validate_entry_def)
  moreover have "json_get_str ''kind'' ?v = Some ''entry''"
    "json_get ''seq'' ?v = Some (JNumber (PosInt (se_sequence e)))"
    using map_of_insert_all_clear [OF assms(1)]
    by (simp_all add: json_get_str_def encode_entry_mutation_def Let_def entry_keys_def
        encode_sequence_def json_u64_def)
  ultimately show ?thesis
    using seq saturating_Suc [of "next_sequence s"] max_safe_le_u64
    by (simp add: validate_def)
qed

lemma validate_encoded_record:
  assumes "payload_clear record_keys (sr_payload r)" "id_ok (sr_lane r)" "id_ok (sr_id r)"
    "opt_id_ok (sr_run_id r)" "sr_timestamp_ms r \<le> u64_max"
    and seq: "sr_sequence r = Suc (next_sequence s)" "next_sequence s < MAX_SAFE_INTEGER"
    and "lanes s (sr_lane r) \<noteq> None" "sr_id r \<notin> used_record_ids s"
  shows "validate c s (encode_record_mutation r) = Ok (VRecord r)"
proof -
  let ?v = "encode_record_mutation r"
  have ok: "seq_ok (sr_sequence r)" using seq by (simp add: seq_ok_def)
  have "decode_record_mutation ?v = Some r"
    using assms ok by (intro record_mutation_roundtrip) simp_all
  then have "validate_record s ?v = Ok (VRecord r)"
    using assms by (simp add: validate_record_def)
  moreover have "json_get_str ''kind'' ?v = Some ''record''"
    "json_get ''seq'' ?v = Some (JNumber (PosInt (sr_sequence r)))"
    using map_of_insert_all_clear [OF assms(1)]
    by (simp_all add: json_get_str_def encode_record_mutation_def record_keys_def
        encode_sequence_def json_u64_def)
  ultimately show ?thesis
    using seq saturating_Suc [of "next_sequence s"] max_safe_le_u64
    by (simp add: validate_def)
qed

lemma validate_encoded_lane:
  assumes "id_ok (lm_lane m)" "opt_id_ok (lm_leaf_id m)"
    and seq: "lm_sequence m = Suc (next_sequence s)" "next_sequence s < MAX_SAFE_INTEGER"
    and "\<And>t. lm_leaf_id m = Some t \<Longrightarrow> entries_by_id s t \<noteq> None"
  shows "validate c s (encode_lane_mutation m) = Ok (VLane m)"
proof -
  let ?v = "encode_lane_mutation m"
  have "decode_lane_mutation ?v = Some m"
    using assms by (intro lane_mutation_roundtrip) (simp_all add: seq_ok_def)
  then have "validate_lane s ?v = Ok (VLane m)"
    using assms(5) by (cases "lm_leaf_id m") (simp_all add: validate_lane_def)
  moreover have "json_get_str ''kind'' ?v = Some ''lane''"
    "json_get ''seq'' ?v = Some (JNumber (PosInt (lm_sequence m)))"
    by (simp_all add: json_get_str_def encode_lane_mutation_def encode_sequence_def json_u64_def)
  ultimately show ?thesis
    using seq saturating_Suc [of "next_sequence s"] max_safe_le_u64
    by (simp add: validate_def)
qed

lemma validate_encoded_name:
  assumes "next_sequence s < MAX_SAFE_INTEGER"
  shows "validate c s (encode_name_fact (Suc (next_sequence s)) name) =
    Ok (VName (Suc (next_sequence s)) name)"
  using assms saturating_Suc [of "next_sequence s"] max_safe_le_u64
  by (cases name) (simp_all add: validate_def validate_fact_def json_get_str_def encode_name_fact_def
      encode_sequence_def json_u64_def)

lemma validate_encoded_label:
  assumes "next_sequence s < MAX_SAFE_INTEGER" "id_ok target" "entries_by_id s target \<noteq> None"
  shows "validate c s (encode_label_fact (Suc (next_sequence s)) target label) =
    Ok (VLabel (Suc (next_sequence s)) target label)"
  using assms saturating_Suc [of "next_sequence s"] max_safe_le_u64
  by (cases label) (simp_all add: validate_def validate_fact_def json_get_str_def encode_label_fact_def
      encode_sequence_def json_u64_def id_try_from_def id_ok_def)

section \<open>Effects of the operations\<close>

lemma branch_walk_agree:
  assumes "branch_walk s cursor visited acc = Some r" "entries_by_id s' = entries_by_id s"
  shows "branch_walk s' cursor visited acc = Some r"
  using assms
proof (induct rule: branch_walk.raw_induct [rotated 1, consumes 1])
  case (1 walk s cursor visited acc r)
  then show ?case by (subst branch_walk.simps) (auto split: option.splits if_splits)
qed

lemma branch_walk_cong:
  assumes "entries_by_id s' = entries_by_id s"
  shows "branch_walk s' cursor visited acc = branch_walk s cursor visited acc"
proof (cases "branch_walk s cursor visited acc")
  case None
  then show ?thesis
    using branch_walk_agree [of s' cursor visited acc _ s] assms
    by (cases "branch_walk s' cursor visited acc") auto
next
  case (Some r)
  with branch_walk_agree [OF Some] assms show ?thesis by simp
qed

lemma branch_append:
  assumes wf: "wf_entries (js_state st)" and wf': "wf_entries (js_state st')"
    and e: "entries_by_id (js_state st) (se_id e) = None"
    and st': "entries_by_id (js_state st') = (entries_by_id (js_state st))(se_id e \<mapsto> e)"
  shows "get_entry st leaf \<noteq> None \<Longrightarrow> branch st' leaf = branch st leaf"
    and "se_parent_id e = None \<Longrightarrow> branch st' (se_id e) = Some (Ok [e])"
    and "se_parent_id e = Some p \<Longrightarrow> get_entry st p \<noteq> None \<Longrightarrow>
      \<exists>es. branch st p = Some (Ok es) \<and> branch st' (se_id e) = Some (Ok (es @ [e]))"
proof -
  have keep: "path_to (js_state st) l es \<Longrightarrow> path_to (js_state st') l es" for l es
    using e st' by (auto simp: path_to_def)
  show "branch st' leaf = branch st leaf" if "get_entry st leaf \<noteq> None"
    using branch_path [OF wf that] branch_of_path [OF wf' keep] by auto
  have snoc: "entries_by_id (js_state st') (se_id e) = Some e" using st' by simp
  show "branch st' (se_id e) = Some (Ok [e])" if "se_parent_id e = None"
    using path_to_snoc [of "js_state st'" "se_id e" "[]" e] snoc that
    by (intro branch_of_path [OF wf']) simp
  show "\<exists>es. branch st p = Some (Ok es) \<and> branch st' (se_id e) = Some (Ok (es @ [e]))"
    if p: "se_parent_id e = Some p" "get_entry st p \<noteq> None"
  proof -
    from branch_path [OF wf p(2)] obtain es where es: "branch st p = Some (Ok es)"
      "path_to (js_state st) p es" by blast
    have "path_to (js_state st') (se_id e) (es @ [e])"
      unfolding path_to_snoc using snoc p(1) keep [OF es(2)] by simp
    from branch_of_path [OF wf' this] es(1) show ?thesis by blast
  qed
qed

lemma append_entry_Ok:
  assumes "entry_accepted env now lane e st"
  defines "stored \<equiv> new_session_entry st now lane e"
  shows "append_entry env Written now lane e st =
    (st\<lparr>js_file := js_file st @ js_buffer st @
          to_text env (encode_entry_mutation \<lparr>em_lane = lane, em_entry = stored\<rparr>) @ [newline],
        js_buffer := [],
        js_state := commit (js_state st) (VEntry \<lparr>em_lane = lane, em_entry = stored\<rparr>)\<rparr>, Ok stored)"
proof -
  from assms obtain p leaf where p: "as_object (ne_payload e) = Some p" "payload_clear entry_keys p"
    and leaf: "lanes (js_state st) lane = Some leaf" "lane_leaf st lane = leaf"
    by (auto simp: entry_accepted_def lane_leaf_def split: option.splits)
  let ?v = "encode_entry_mutation \<lparr>em_lane = lane, em_entry = stored\<rparr>"
  have valid: "validate (codec env) (js_state st) ?v =
      Ok (VEntry \<lparr>em_lane = lane, em_entry = stored\<rparr>)"
    using assms p leaf
    by (intro validate_encoded_entry)
      (simp_all add: entry_accepted_def new_session_entry_def last_sequence_def get_entry_def)
  have stored: "\<lparr>se_id = ne_id e, se_sequence = Suc (next_sequence (js_state st)),
      se_parent_id = leaf, se_timestamp_ms = now, se_kind = ne_kind e, se_payload = p\<rparr> = stored"
    using p leaf by (simp add: stored_def new_session_entry_def last_sequence_def)
  have "append_entry env Written now lane e st =
      (case persist env Written ?v st of (st', Err x) \<Rightarrow> (st', Err x) | (st', Ok _) \<Rightarrow> (st', Ok stored))"
    using assms(1) p leaf
    by (simp add: append_entry_def candidate_sequence_Ok entry_accepted_def last_sequence_def
        get_entry_def stored)
  then show ?thesis by (simp only: persist_Written [OF valid] prod.case result.case)
qed

lemma store_entries_commit:
  assumes "wf_entries s" "entries_by_id s (se_id (em_entry m)) = None"
  shows "List.map_filter (entries_by_id (commit s (VEntry m))) (entry_order (commit s (VEntry m))) =
    List.map_filter (entries_by_id s) (entry_order s) @ [em_entry m]"
proof -
  have fresh: "se_id (em_entry m) \<notin> set (entry_order s)" using assms by (auto simp: wf_entries_def)
  have "List.map_filter ((entries_by_id s)(se_id (em_entry m) \<mapsto> em_entry m)) xs =
      List.map_filter (entries_by_id s) xs" if "se_id (em_entry m) \<notin> set xs" for xs
    using that by (induction xs) (auto simp: List.map_filter_def)
  with fresh show ?thesis by (simp add: List.map_filter_def)
qed

lemma append_record_Ok:
  assumes "record_accepted now r st"
  defines "stored \<equiv> new_session_record st now r"
  shows "append_record env Written now r st =
    (st\<lparr>js_file := js_file st @ js_buffer st @ to_text env (encode_record_mutation stored) @ [newline],
        js_buffer := [], js_state := commit (js_state st) (VRecord stored)\<rparr>, Ok stored)"
proof -
  from assms obtain p where p: "as_object (nr_payload r) = Some p" "payload_clear record_keys p"
    by (auto simp: record_accepted_def split: option.splits)
  let ?v = "encode_record_mutation stored"
  have valid: "validate (codec env) (js_state st) ?v = Ok (VRecord stored)"
    using assms p
    by (intro validate_encoded_record)
      (simp_all add: record_accepted_def new_session_record_def last_sequence_def)
  have stored: "\<lparr>sr_id = nr_id r, sr_sequence = Suc (next_sequence (js_state st)), sr_lane = nr_lane r,
      sr_timestamp_ms = now, sr_run_id = nr_run_id r, sr_kind = nr_kind r, sr_payload = p\<rparr> = stored"
    using p by (simp add: stored_def new_session_record_def last_sequence_def)
  have "append_record env Written now r st =
      (case persist env Written ?v st of (st', Err x) \<Rightarrow> (st', Err x) | (st', Ok _) \<Rightarrow> (st', Ok stored))"
    using assms(1) p
    by (auto simp: append_record_def candidate_sequence_Ok record_accepted_def last_sequence_def stored)
  then show ?thesis by (simp only: persist_Written [OF valid] prod.case result.case)
qed

lemma append_entry_effect:
  assumes "wf_state (js_state st)" "entry_accepted env now lane e st"
  shows "\<exists>st' stored. append_entry env Written now lane e st = (st', Ok stored) \<and>
    stored = new_session_entry st now lane e \<and>
    get_entry st' (ne_id e) = Some stored \<and>
    store_entries st' = store_entries st @ [stored] \<and>
    last_sequence st' = Suc (last_sequence st) \<and>
    (\<forall>other. lane_leaf st' other = (if other = lane then Some (ne_id e) else lane_leaf st other)) \<and>
    branch st' (ne_id e) = (case lane_leaf st lane of None \<Rightarrow> Some (Ok [stored])
      | Some leaf \<Rightarrow> map_option (\<lambda>b. Ok (the_ok b @ [stored])) (branch st leaf)) \<and>
    (\<forall>leaf. get_entry st leaf \<noteq> None \<longrightarrow> branch st' leaf = branch st leaf)"
proof -
  define stored where "stored = new_session_entry st now lane e"
  define st' where "st' = fst (append_entry env Written now lane e st)"
  have eq: "append_entry env Written now lane e st = (st', Ok stored)"
    using append_entry_Ok [OF assms(2)] by (simp add: st'_def stored_def)
  have state: "js_state st' = commit (js_state st) (VEntry \<lparr>em_lane = lane, em_entry = stored\<rparr>)"
    using append_entry_Ok [OF assms(2)] by (simp add: st'_def stored_def)
  have f: "se_id stored = ne_id e" "se_sequence stored = Suc (last_sequence st)"
    "se_parent_id stored = lane_leaf st lane" by (simp_all add: stored_def new_session_entry_def)
  have fresh: "entries_by_id (js_state st) (se_id stored) = None"
    using assms(2) f by (simp add: entry_accepted_def get_entry_def)
  have wf: "wf_entries (js_state st)" using assms(1) by (simp add: wf_state_def)
  have "wf_state (js_state st')"
    using run_op_wf [OF assms(1), of env Written "OpAppendEntry now lane e"] by (simp add: eq)
  then have wf': "wf_entries (js_state st')" by (simp add: wf_state_def)
  have upd: "entries_by_id (js_state st') = (entries_by_id (js_state st))(se_id stored \<mapsto> stored)"
    by (simp add: state)
  note branches = branch_append [OF wf wf' fresh upd]
  have leaf: "get_entry st p \<noteq> None" if "lane_leaf st lane = Some p" for p
    using assms(1) that
    by (auto simp: wf_state_def wf_lanes_def lane_leaf_def get_entry_def bind_eq_Some_conv)
  have "branch st' (ne_id e) = (case lane_leaf st lane of None \<Rightarrow> Some (Ok [stored])
      | Some leaf \<Rightarrow> map_option (\<lambda>b. Ok (the_ok b @ [stored])) (branch st leaf))"
    using branches(2) branches(3) leaf f by (cases "lane_leaf st lane") auto
  moreover have "store_entries st' = store_entries st @ [stored]"
    using store_entries_commit [OF wf, of "\<lparr>em_lane = lane, em_entry = stored\<rparr>"] fresh
    by (simp only: store_entries_def state entry_mutation.simps)
  moreover have "get_entry st' (ne_id e) = Some stored" "last_sequence st' = Suc (last_sequence st)"
    using f by (simp_all add: get_entry_def last_sequence_def state)
  moreover have "lane_leaf st' other = (if other = lane then Some (ne_id e) else lane_leaf st other)" for other
    using f by (simp add: lane_leaf_def state)
  ultimately show ?thesis using eq branches(1) by (metis stored_def)
qed

section \<open>Properties of the store\<close>

text \<open>C14: whatever operations are run, with whatever outcomes of the writes, on a store whose
  projection is well formed, the projection stays well formed: entry order and sequence numbers
  increase strictly, every parent exists with a smaller sequence number, lanes and labels point at
  stored entries, record identifiers are unique.\<close>

theorem store_ops_keep_wf:
  "wf_state (js_state st) \<Longrightarrow> wf_state (js_state (run_ops env ops st))"
  by (rule run_ops_wf)

theorem store_ops_keep_wf_witness:
  "wf_state (js_state (run_ops sample_env
     [(OpAppendEntry 7 ''main'' (sample_entry ''e1''), Written),
      (OpCreateLane ''side'' (Some ''e1''), WriteFailed 3 1)] sample_store))"
  by (rule store_ops_keep_wf) (simp add: sample_store_def wf_state_new)





text \<open>C16: walking a branch always ends. On a well-formed projection it returns, for a stored leaf,
  the chain of stored entries from a root to the leaf in increasing sequence, and reports any
  other leaf as not found; the cycle error cannot occur.\<close>

theorem branch_returns_chain:
  assumes "wf_state (js_state st)"
  shows "case get_entry st leaf of
      None \<Rightarrow> branch st leaf = Some (Err (EntryNotFound leaf))
    | Some e \<Rightarrow> (\<exists>es. branch st leaf = Some (Ok es) \<and> path_to (js_state st) leaf es \<and>
        sorted_wrt (<) (map se_sequence es))"
proof (cases "get_entry st leaf")
  case None
  then show ?thesis by (simp add: branch_def branch_walk.simps get_entry_def)
next
  case (Some e)
  with branch_path [of st leaf] assms show ?thesis by (force simp: wf_state_def)
qed

theorem branch_returns_chain_witness:
  "branch sample_store ''x'' = Some (Err (EntryNotFound ''x''))"
proof -
  have "wf_state (js_state sample_store)" by (simp add: sample_store_def wf_state_new)
  from branch_returns_chain [OF this, of "''x''"] show ?thesis
    by (simp add: get_entry_def sample_store_def SessionState_new_def)
qed

text \<open>Appending a record that meets its preconditions succeeds, the record returned is the record
  stored, records keep their order, and no entry, lane, label, name or branch changes.\<close>

lemma append_record_only_adds_record:
  assumes "record_accepted now r st"
  shows "\<exists>st' stored. append_record env Written now r st = (st', Ok stored) \<and>
    stored = new_session_record st now r \<and>
    store_records st' = store_records st @ [stored] \<and>
    last_sequence st' = Suc (last_sequence st) \<and>
    store_entries st' = store_entries st \<and> store_name st' = store_name st \<and>
    (\<forall>lane. lane_leaf st' lane = lane_leaf st lane) \<and> (\<forall>t. store_label st' t = store_label st t) \<and>
    (\<forall>leaf. branch st' leaf = branch st leaf)"
proof -
  let ?s = "new_session_record st now r"
  define st' where "st' = fst (append_record env Written now r st)"
  have eq: "append_record env Written now r st = (st', Ok ?s)"
    and state: "js_state st' = commit (js_state st) (VRecord ?s)"
    using append_record_Ok [OF assms] by (simp_all add: st'_def)
  have walk: "branch_walk (js_state st') c v a = branch_walk (js_state st) c v a" for c v a
    by (rule branch_walk_cong) (simp add: state)
  show ?thesis
    using eq walk
    by (intro exI [of _ st'] exI [of _ ?s])
      (auto simp: store_records_def last_sequence_def store_entries_def store_name_def lane_leaf_def
        store_label_def branch_def state new_session_record_def)
qed

end
