(* ===== verification/Store_Factory.thy ===== *)
theory Store_Factory
  imports Store_Effects "HOL-Library.Monad_Syntax" "HOL-Library.Countable"
begin

text \<open>
  \<^verbatim>\<open>JsonlStoreFactory\<close> of \<^verbatim>\<open>crates/store/src/factory.rs\<close>: the header line, creating, opening and
  repairing a log, renaming a session by reading only the tail of its log, forking a branch,
  listing and deleting. The files below the sessions root are a list in the order in which
  \<^verbatim>\<open>read_dir\<close> yields them. Reading and writing succeed, except that opening a missing file and
  creating an existing one fail; the text form of JSON is a parameter.
\<close>

section \<open>Header\<close>

datatype session_ownership = OwnedByTool session_id string | OwnedInBackground session_id string

fun owner :: "session_ownership \<Rightarrow> session_id" where
  "owner (OwnedByTool session call) = session"
| "owner (OwnedInBackground session name) = session"

fun encode_ownership :: "session_ownership \<Rightarrow> json" where
  "encode_ownership (OwnedByTool session call) = JObject
     [(''kind'', JString ''tool''), (''sessionId'', JString session), (''toolCallId'', JString call)]"
| "encode_ownership (OwnedInBackground session name) = JObject
     [(''kind'', JString ''background''), (''sessionId'', JString session), (''name'', JString name)]"

fun decode_ownership :: "json \<Rightarrow> session_ownership option" where
  "decode_ownership (JObject m) = do {
     kind \<leftarrow> field ''kind'' as_str m;
     session \<leftarrow> field ''sessionId'' decode_id m;
     (if kind = ''tool'' then map_option (OwnedByTool session) (field ''toolCallId'' decode_id m)
      else if kind = ''background'' then map_option (OwnedInBackground session) (field ''name'' as_str m)
      else None) }"
| "decode_ownership _ = None"

record v4_header =
  vh_version :: nat
  vh_id :: session_id
  vh_created_at :: nat
  vh_cwd :: string
  vh_parent_session_id :: "session_id option"
  vh_ownership :: "session_ownership option"

definition encode_header :: "v4_header \<Rightarrow> json" where
  "encode_header h = JObject
     ([(''kind'', JString ''header''), (''version'', json_u64 (vh_version h)), (''id'', JString (vh_id h)),
       (''createdAt'', encode_timestamp (vh_created_at h)), (''cwd'', JString (vh_cwd h))] @
      skip_none ''parentSessionId'' (vh_parent_session_id h) @
      (case vh_ownership h of None \<Rightarrow> [] | Some o' \<Rightarrow> [(''ownership'', encode_ownership o')]))"

definition decode_u8 :: "json \<Rightarrow> nat option" where
  "decode_u8 v = Option.bind (as_u64 v) (\<lambda>n. if n \<le> 255 then Some n else None)"

text \<open>\<^verbatim>\<open>HeaderKind\<close> has one variant, so decoding the kind already requires \<^verbatim>\<open>header\<close>.\<close>

fun decode_header :: "json \<Rightarrow> v4_header option" where
  "decode_header (JObject m) = do {
     kind \<leftarrow> field ''kind'' (decode_variant [()] (\<lambda>_. ''header'')) m;
     version \<leftarrow> field ''version'' decode_u8 m;
     sid \<leftarrow> field ''id'' decode_id m;
     created \<leftarrow> field ''createdAt'' decode_timestamp m;
     cwd \<leftarrow> field ''cwd'' as_str m;
     parent \<leftarrow> opt_field ''parentSessionId'' decode_id m;
     ownership \<leftarrow> opt_field ''ownership'' decode_ownership m;
     Some \<lparr>vh_version = version, vh_id = sid, vh_created_at = created, vh_cwd = cwd,
           vh_parent_session_id = parent, vh_ownership = ownership\<rparr> }"
| "decode_header _ = None"

section \<open>Files\<close>

record log_file =
  lf_directory :: string
  lf_name :: string
  lf_content :: string
  lf_modified_ms :: nat

type_synonym disk = "log_file list"

record factory =
  sessions_root :: string
  from_text :: "string \<Rightarrow> json option"
  fenv :: store_env

definition file_path :: "factory \<Rightarrow> log_file \<Rightarrow> string" where
  "file_path f lf = sessions_root f @ ''/'' @ lf_directory lf @ ''/'' @ lf_name lf"

definition read_file :: "factory \<Rightarrow> disk \<Rightarrow> string \<Rightarrow> string option" where
  "read_file f disk path = map_option lf_content (find (\<lambda>lf. file_path f lf = path) disk)"

definition write_file :: "factory \<Rightarrow> string \<Rightarrow> string \<Rightarrow> disk \<Rightarrow> disk" where
  "write_file f path content disk =
     map (\<lambda>lf. if file_path f lf = path then lf\<lparr>lf_content := content\<rparr> else lf) disk"

text \<open>\<^verbatim>\<open>CwdSessionDirectory::from\<close>\<close>

definition encode_cwd_char :: "char \<Rightarrow> char" where
  "encode_cwd_char c = (if c = CHR ''/'' \<or> c = CHR 0x5C \<or> c = CHR '':'' then CHR ''-'' else c)"

definition cwd_session_directory :: "string \<Rightarrow> string" where
  "cwd_session_directory cwd =
     ''--'' @ map encode_cwd_char (dropWhile (\<lambda>c. c = CHR ''/'' \<or> c = CHR 0x5C) cwd) @ ''--''"

text \<open>\<^verbatim>\<open>path.extension() == Some("jsonl")\<close>: a name that is only \<^verbatim>\<open>.jsonl\<close> has no extension.\<close>

definition is_jsonl :: "string \<Rightarrow> bool" where
  "is_jsonl name \<longleftrightarrow> ends_with ''.jsonl'' name \<and> length name > 6"

section \<open>create and open\<close>

record create_options =
  co_session_id :: session_id
  co_cwd :: string
  co_parent_session_id :: "session_id option"

definition create_with ::
    "factory \<Rightarrow> nat \<Rightarrow> create_options \<Rightarrow> session_ownership option \<Rightarrow> disk
      \<Rightarrow> disk \<times> (jsonl_store, store_error) result" where
  "create_with f now options ownership disk =
     (let header = \<lparr>vh_version = 4, vh_id = co_session_id options, vh_created_at = now,
            vh_cwd = co_cwd options, vh_parent_session_id = co_parent_session_id options,
            vh_ownership = ownership\<rparr>;
          content = to_text (fenv f) (encode_header header) @ [newline];
          file = \<lparr>lf_directory = cwd_session_directory (co_cwd options),
            lf_name = timestamp_to_string now @ ''_'' @ co_session_id options @ ''.jsonl'',
            lf_content = content, lf_modified_ms = now\<rparr>
      in if read_file f disk (file_path f file) \<noteq> None then (disk, Err StoreIo)
         else (disk @ [file],
           Ok \<lparr>js_session_id = vh_id header, js_path = file_path f file, js_file = content,
               js_buffer = [], js_state = SessionState_new\<rparr>))"

text \<open>The lines of a log: what follows the final newline is a line only when it is not empty.\<close>

definition log_split :: "string \<Rightarrow> string list" where
  "log_split content =
     (let lines = split_on newline content in if last lines = [] then butlast lines else lines)"

text \<open>
  The replay loop: it returns the state and, when the final line is torn, the lines before it.
\<close>

fun replay_lines ::
    "factory \<Rightarrow> string list \<Rightarrow> session_state \<Rightarrow> string list
      \<Rightarrow> (session_state \<times> string list option, store_error) result" where
  "replay_lines f before state [] = Ok (state, None)"
| "replay_lines f before state (line # rest) =
     (case from_text f line of
        None \<Rightarrow> if rest = [] then Ok (state, Some before)
                else Err (InvalidSession (InvalidJsonLine (Suc (length before))))
      | Some value \<Rightarrow>
          and_then (apply_loaded_mutation (codec (fenv f)) state value) (\<lambda>state'.
            replay_lines f (before @ [line]) state' rest))"

definition repaired_content :: "string list \<Rightarrow> string" where
  "repaired_content valid_lines = join_with [newline] valid_lines @ [newline]"

definition open_content :: "factory \<Rightarrow> string \<Rightarrow> string \<Rightarrow> (jsonl_store, store_error) result" where
  "open_content f path content =
     (case log_split content of
        [] \<Rightarrow> Err (InvalidSession MissingHeader)
      | header_line # rest \<Rightarrow>
         (case Option.bind (from_text f header_line) decode_header of
            None \<Rightarrow> Err (InvalidSession InvalidHeader)
          | Some header \<Rightarrow>
              if vh_version header \<noteq> 4 then Err (InvalidSession UnsupportedHeader)
              else and_then (replay_lines f [header_line] SessionState_new rest) (\<lambda>(state, repaired).
                Ok \<lparr>js_session_id = vh_id header, js_path = path,
                  js_file = (case repaired of
                      Some valid_lines \<Rightarrow> repaired_content valid_lines
                    | None \<Rightarrow> if ends_with [newline] content then content else content @ [newline]),
                  js_buffer = [], js_state = state\<rparr>)))"

definition open_store :: "factory \<Rightarrow> string \<Rightarrow> disk \<Rightarrow> disk \<times> (jsonl_store, store_error) result" where
  "open_store f path disk =
     (case read_file f disk path of
        None \<Rightarrow> (disk, Err StoreIo)
      | Some content \<Rightarrow>
         (case open_content f path content of
            Err e \<Rightarrow> (disk, Err e)
          | Ok store \<Rightarrow> (write_file f path (js_file store) disk, Ok store)))"

section \<open>set_name_at\<close>

text \<open>The bytes after the last newline, if there is a newline.\<close>

definition after_last_newline :: "string \<Rightarrow> string option" where
  "after_last_newline body =
     (if newline \<in> set body then Some (rev (takeWhile (\<lambda>c. c \<noteq> newline) (rev body))) else None)"

definition line_sequence :: "factory \<Rightarrow> string \<Rightarrow> nat option" where
  "line_sequence f line = do { v \<leftarrow> from_text f line; n \<leftarrow> json_get ''seq'' v; as_u64 n }"

partial_function (option) last_sequence_loop :: "factory \<Rightarrow> string \<Rightarrow> nat \<Rightarrow> nat option option" where
  "last_sequence_loop f content window =
     (let start = length content - window; tail = drop start content in
      if \<not> ends_with [newline] tail then Some None
      else case after_last_newline (butlast tail) of
          Some line \<Rightarrow> Some (line_sequence f line)
        | None \<Rightarrow> if start = 0 then Some None
                  else last_sequence_loop f content (saturating_mul_u64 window 4))"

definition log_last_sequence :: "factory \<Rightarrow> string \<Rightarrow> nat option option" where
  "log_last_sequence f content = last_sequence_loop f content (64 * 1024)"

text \<open>
  Renaming: a log that ends with a complete mutation gets one more line, any other log is opened,
  which repairs it, and renamed. The outer \<open>None\<close> would be a scan that never ends.
\<close>

definition set_name_at ::
    "factory \<Rightarrow> string \<Rightarrow> string option \<Rightarrow> disk \<Rightarrow> (disk \<times> (unit, store_error) result) option" where
  "set_name_at f path name disk =
     (case read_file f disk path of
        None \<Rightarrow> Some (disk, Err StoreIo)
      | Some content \<Rightarrow>
         (case log_last_sequence f content of
            None \<Rightarrow> None
          | Some None \<Rightarrow>
              Some (case open_store f path disk of
                (disk', Err e) \<Rightarrow> (disk', Err e)
              | (disk', Ok store) \<Rightarrow>
                  (case set_name (fenv f) Written name store of
                     (store', Err e) \<Rightarrow> (disk', Err e)
                   | (store', Ok _) \<Rightarrow> (write_file f path (js_file store') disk', Ok ())))
          | Some (Some n) \<Rightarrow>
              Some (case Option.bind (checked_add_u64 n 1) (\<lambda>next. result_ok (sequence_try_from next)) of
                None \<Rightarrow> (disk, Err SequenceExhausted)
              | Some next \<Rightarrow>
                  (write_file f path
                     (content @ to_text (fenv f) (encode_name_fact next name) @ [newline]) disk,
                   Ok ()))))"

section \<open>fork\<close>

record fork_options =
  fo_create :: create_options
  fo_source_leaf :: entry_id
  fo_lane :: lane_id

text \<open>The ancestor walk of \<^verbatim>\<open>fork\<close>, which keeps no visited set.\<close>

partial_function (option) fork_walk ::
    "jsonl_store \<Rightarrow> entry_id option \<Rightarrow> session_entry list
      \<Rightarrow> (session_entry list, store_error) result option" where
  "fork_walk source cursor acc =
     (case cursor of
        None \<Rightarrow> Some (Ok (rev acc))
      | Some eid \<Rightarrow>
         (case get_entry source eid of
            None \<Rightarrow> Some (Err (EntryNotFound eid))
          | Some e \<Rightarrow> fork_walk source (se_parent_id e) (acc @ [e])))"

fun append_copies ::
    "store_env \<Rightarrow> nat \<Rightarrow> lane_id \<Rightarrow> session_entry list \<Rightarrow> jsonl_store
      \<Rightarrow> jsonl_store \<times> (unit, store_error) result" where
  "append_copies env now lane [] target = (target, Ok ())"
| "append_copies env now lane (e # es) target =
     (case append_entry env Written now lane
         \<lparr>ne_id = se_id e, ne_kind = se_kind e, ne_payload = JObject (se_payload e)\<rparr> target of
        (target', Err x) \<Rightarrow> (target', Err x)
      | (target', Ok _) \<Rightarrow> append_copies env now lane es target')"

definition fork ::
    "factory \<Rightarrow> nat \<Rightarrow> string \<Rightarrow> fork_options \<Rightarrow> disk
      \<Rightarrow> (disk \<times> (jsonl_store, store_error) result) option" where
  "fork f now source_path options disk =
     (case open_store f source_path disk of
        (disk1, Err e) \<Rightarrow> Some (disk1, Err e)
      | (disk1, Ok source) \<Rightarrow>
         (case fork_walk source (Some (fo_source_leaf options)) [] of
            None \<Rightarrow> None
          | Some (Err e) \<Rightarrow> Some (disk1, Err e)
          | Some (Ok copied) \<Rightarrow>
             (let create = fo_create options;
                  create' = (if co_parent_session_id create = None
                    then create\<lparr>co_parent_session_id := Some (js_session_id source)\<rparr> else create)
              in Some (case create_with f now create' None disk1 of
                (disk2, Err e) \<Rightarrow> (disk2, Err e)
              | (disk2, Ok target) \<Rightarrow>
                 (case (if fo_lane options \<noteq> ''main''
                        then create_lane (fenv f) Written (fo_lane options) None target
                        else (target, Ok ())) of
                    (target1, Err e) \<Rightarrow> (write_file f (js_path target1) (js_file target1) disk2, Err e)
                  | (target1, Ok _) \<Rightarrow>
                     (case append_copies (fenv f) now (fo_lane options) copied target1 of
                        (target2, Err e) \<Rightarrow> (write_file f (js_path target2) (js_file target2) disk2, Err e)
                      | (target2, Ok _) \<Rightarrow>
                          (write_file f (js_path target2) (js_file target2) disk2, Ok target2)))))))"

section \<open>list, headers and delete\<close>

definition in_directory :: "string option \<Rightarrow> log_file \<Rightarrow> bool" where
  "in_directory cwd lf \<longleftrightarrow>
     (case cwd of None \<Rightarrow> True | Some c \<Rightarrow> lf_directory lf = cwd_session_directory c)"

record session_header =
  sh_id :: session_id
  sh_cwd :: string
  sh_ownership :: "session_ownership option"
  sh_path :: string

text \<open>\<^verbatim>\<open>read_line\<close> keeps the newline it stops at.\<close>

definition read_line :: "string \<Rightarrow> string" where
  "read_line content =
     takeWhile (\<lambda>c. c \<noteq> newline) content @ (if newline \<in> set content then [newline] else [])"

definition scan_header :: "factory \<Rightarrow> session_id option \<Rightarrow> log_file \<Rightarrow> session_header option" where
  "scan_header f sid lf =
     (if \<not> is_jsonl (lf_name lf) \<or>
         (case sid of None \<Rightarrow> False | Some i \<Rightarrow> \<not> ends_with (''_'' @ i @ ''.jsonl'') (lf_name lf))
      then None
      else case Option.bind (from_text f (read_line (lf_content lf))) decode_header of
          None \<Rightarrow> None
        | Some header \<Rightarrow>
            if vh_version header \<noteq> 4 \<or> (case sid of None \<Rightarrow> False | Some i \<Rightarrow> i \<noteq> vh_id header) then None
            else Some \<lparr>sh_id = vh_id header, sh_cwd = vh_cwd header, sh_ownership = vh_ownership header,
                       sh_path = file_path f lf\<rparr>)"

definition scan_headers :: "factory \<Rightarrow> string option \<Rightarrow> session_id option \<Rightarrow> disk \<Rightarrow> session_header list" where
  "scan_headers f cwd sid disk = List.map_filter (scan_header f sid) (filter (in_directory cwd) disk)"

definition headers :: "factory \<Rightarrow> string option \<Rightarrow> disk \<Rightarrow> session_header list" where
  "headers f cwd disk = scan_headers f cwd None disk"

definition find_header :: "factory \<Rightarrow> session_id \<Rightarrow> disk \<Rightarrow> session_header option" where
  "find_header f sid disk =
     (case scan_headers f None (Some sid) disk of
        h # _ \<Rightarrow> Some h
      | [] \<Rightarrow> find (\<lambda>h. sh_id h = sid) (headers f None disk))"

definition session_exists :: "factory \<Rightarrow> session_id \<Rightarrow> disk \<Rightarrow> bool" where
  "session_exists f sid disk \<longleftrightarrow> find_header f sid disk \<noteq> None"

definition delete_session :: "factory \<Rightarrow> session_id \<Rightarrow> disk \<Rightarrow> disk" where
  "delete_session f sid disk =
     (let paths = map sh_path (filter (\<lambda>h. sh_id h = sid) (headers f None disk)) in
      filter (\<lambda>lf. file_path f lf \<notin> set paths) disk)"

record session_metadata =
  sm_id :: session_id
  sm_created_at_ms :: nat
  sm_cwd :: string
  sm_parent_session_id :: "session_id option"
  sm_ownership :: "session_ownership option"
  sm_path :: string
  sm_modified_at_ms :: nat
  sm_name :: "string option"

text \<open>\<^verbatim>\<open>str::lines\<close>: split after newlines, without a final empty line and without a carriage return
  before the newline.\<close>

definition strip_cr :: "string \<Rightarrow> string" where
  "strip_cr line = (if line \<noteq> [] \<and> last line = CHR 0x0D then butlast line else line)"

definition str_lines :: "string \<Rightarrow> string list" where
  "str_lines content =
     (let pieces = split_on newline content in
      map strip_cr (butlast pieces) @ (if last pieces = [] then [] else [last pieces]))"

definition name_after_line :: "factory \<Rightarrow> string option \<Rightarrow> string \<Rightarrow> string option" where
  "name_after_line f name line =
     (case from_text f line of
        None \<Rightarrow> name
      | Some v \<Rightarrow>
          if json_get_str ''kind'' v = Some ''fact'' \<and> json_get_str ''fact'' v = Some ''name''
          then json_get_str ''name'' v else name)"

definition list_entry :: "factory \<Rightarrow> log_file \<Rightarrow> session_metadata option" where
  "list_entry f lf =
     (if \<not> is_jsonl (lf_name lf) then None
      else case str_lines (lf_content lf) of
          [] \<Rightarrow> None
        | header_line # rest \<Rightarrow>
           (case Option.bind (from_text f header_line) decode_header of
              None \<Rightarrow> None
            | Some header \<Rightarrow>
                if vh_version header \<noteq> 4 then None
                else Some \<lparr>sm_id = vh_id header, sm_created_at_ms = vh_created_at header,
                  sm_cwd = vh_cwd header, sm_parent_session_id = vh_parent_session_id header,
                  sm_ownership = vh_ownership header, sm_path = file_path f lf,
                  sm_modified_at_ms = lf_modified_ms lf,
                  sm_name = foldl (name_after_line f) None rest\<rparr>))"

text \<open>The stable sort by descending modification time.\<close>

definition list_sessions :: "factory \<Rightarrow> string option \<Rightarrow> disk \<Rightarrow> session_metadata list" where
  "list_sessions f cwd disk =
     sort_key (\<lambda>m. - int (sm_modified_at_ms m))
       (List.map_filter (list_entry f) (filter (in_directory cwd) disk))"

end
