(* ===== verification/Factory_Props.thy ===== *)
theory Factory_Props
  imports Store_Factory
begin

text \<open>
  What opening a log guarantees: it reproduces the state that was written, survives a crash in
  the middle of a write, repairs at most once, and the shortcuts that read only the tail or the
  header of a log agree with a full replay.
\<close>

section \<open>Specification vocabulary\<close>

text \<open>\<^verbatim>\<open>serde_json\<close> prints the value on one line that parses back to it.\<close>

definition printable :: "factory \<Rightarrow> json \<Rightarrow> bool" where
  "printable f v \<longleftrightarrow>
     from_text f (to_text (fenv f) v) = Some v \<and> newline \<notin> set (to_text (fenv f) v) \<and>
     to_text (fenv f) v \<noteq> []"

text \<open>No proper prefix of the text is a JSON text: true of objects, whose last byte closes them.\<close>

definition prefix_free :: "factory \<Rightarrow> json \<Rightarrow> bool" where
  "prefix_free f v \<longleftrightarrow>
     (\<forall>n < length (to_text (fenv f) v). from_text f (take n (to_text (fenv f) v)) = None)"

definition header_ok :: "v4_header \<Rightarrow> bool" where
  "header_ok h \<longleftrightarrow>
     vh_version h = 4 \<and> id_ok (vh_id h) \<and> vh_created_at h \<le> u64_max \<and>
     opt_id_ok (vh_parent_session_id h) \<and>
     (case vh_ownership h of None \<Rightarrow> True
      | Some (OwnedByTool s c) \<Rightarrow> id_ok s \<and> id_ok c
      | Some (OwnedInBackground s n) \<Rightarrow> id_ok s)"

text \<open>The reference for the backward scan: the sequence on the last complete line after the header.\<close>

definition whole_file_sequence :: "factory \<Rightarrow> string \<Rightarrow> nat option" where
  "whole_file_sequence f content =
     (if ends_with [newline] content \<and> 2 \<le> length (log_split content)
      then line_sequence f (last (log_split content)) else None)"

text \<open>The lines of a log that agrees with its store.\<close>

definition log_of :: "factory \<Rightarrow> v4_header \<Rightarrow> json list \<Rightarrow> string list" where
  "log_of f h vs = to_text (fenv f) (encode_header h) # map (to_text (fenv f)) vs"

definition created_header :: "nat \<Rightarrow> create_options \<Rightarrow> session_ownership option \<Rightarrow> v4_header" where
  "created_header now options ownership =
     \<lparr>vh_version = 4, vh_id = co_session_id options, vh_created_at = now, vh_cwd = co_cwd options,
      vh_parent_session_id = co_parent_session_id options, vh_ownership = ownership\<rparr>"

text \<open>A factory whose text forms are numerals: values are numbered by the countability of JSON.\<close>

instance json_number :: countable
  by countable_datatype

instance json :: countable
  by countable_datatype

definition numeral_factory :: factory where
  "numeral_factory = \<lparr>sessions_root = ''r'',
     from_text = (\<lambda>s. if s \<noteq> [] \<and> last s = CHR '';'' \<and> list_all is_ascii_digit (butlast s)
       then Some (from_nat (decimal_value (butlast s))) else None),
     fenv = \<lparr>to_text = (\<lambda>v. decimal (to_nat v) @ '';''),
       codec = \<lparr>accepts_message = (\<lambda>v. True), accepts_usage = (\<lambda>v. True)\<rparr>\<rparr>\<rparr>"

section \<open>Lines\<close>

lemma split_on_snoc_sep: "split_on c (s @ [c]) = split_on c s @ [[]]"
  by (induction s) (auto split: list.splits)

lemma last_split_on: "last (split_on c s) = [] \<longleftrightarrow> s = [] \<or> last s = c"
proof (induction s)
  case (Cons x s)
  obtain y ys where y: "split_on c s = y # ys" by (cases "split_on c s") auto
  show ?case
  proof (cases "ys = []")
    case True
    with y have sy: "s = y" using join_split [of c s] by simp
    have "c \<notin> set s" using split_on_pieces [of y c s] y unfolding sy by simp
    then have "s \<noteq> [] \<Longrightarrow> last s \<noteq> c" using last_in_set by metis
    with y True show ?thesis by (cases "s = []") (simp_all add: sy [symmetric])
  next
    case False
    with y have "s \<noteq> []" by auto
    with y False Cons show ?thesis by auto
  qed
qed simp

lemma ends_with_single: "ends_with [c] s \<longleftrightarrow> s \<noteq> [] \<and> last s = c"
  by (metis append_butlast_last_id ends_with_iff last_snoc snoc_eq_iff_butlast)

lemma log_split_snoc: "log_split (s @ [newline]) = split_on newline s"
  by (simp add: log_split_def split_on_snoc_sep)

lemma log_split_torn: "s \<noteq> [] \<Longrightarrow> last s \<noteq> newline \<Longrightarrow> log_split s = split_on newline s"
  by (simp add: log_split_def last_split_on)

lemma log_split_lines:
  assumes "\<forall>x \<in> set xs. newline \<notin> set x"
  shows "log_split (concat (map (\<lambda>x. x @ [newline]) xs)) = xs"
proof (cases "xs = []")
  case True
  then show ?thesis by (simp add: log_split_def)
next
  case False
  then show ?thesis
    using assms split_join [of xs newline] by (simp add: join_with_lines [symmetric] log_split_snoc)
qed

lemma log_split_closed:
  assumes "log_split content \<noteq> []"
  shows "log_split (if ends_with [newline] content then content else content @ [newline]) = log_split content"
proof (cases "ends_with [newline] content")
  case False
  moreover have "content \<noteq> []" using assms by (auto simp: log_split_def)
  ultimately show ?thesis by (simp add: ends_with_single log_split_torn log_split_snoc)
qed simp

lemma log_split_pieces: "x \<in> set (log_split content) \<Longrightarrow> newline \<notin> set x"
  by (auto simp: log_split_def Let_def dest: in_set_butlastD split_on_pieces split: if_splits)

lemma log_split_append_line:
  assumes "\<forall>x \<in> set xs. newline \<notin> set x" "newline \<notin> set t" "t \<noteq> []"
  shows "log_split (concat (map (\<lambda>x. x @ [newline]) xs) @ t) = xs @ [t]"
proof -
  have "last t \<noteq> newline" using assms(2,3) last_in_set by metis
  with log_split_torn [of "concat (map (\<lambda>x. x @ [newline]) xs) @ t"] assms(3)
  have "log_split (concat (map (\<lambda>x. x @ [newline]) xs) @ t) =
      log_split ((concat (map (\<lambda>x. x @ [newline]) xs) @ t) @ [newline])"
    by (simp add: log_split_snoc del: append_assoc)
  also have "\<dots> = xs @ [t]"
    using log_split_lines [of "xs @ [t]"] assms(1,2) by simp
  finally show ?thesis .
qed

lemma last_concat_lines: "xs \<noteq> [] \<Longrightarrow> last (concat (map (\<lambda>x. x @ [c]) xs)) = c"
  by (induction xs rule: rev_induct) auto

section \<open>Header\<close>

lemma decode_encode_ownership:
  "(case o' of OwnedByTool s c \<Rightarrow> id_ok s \<and> id_ok c | OwnedInBackground s n \<Rightarrow> id_ok s) \<Longrightarrow>
    decode_ownership (encode_ownership o') = Some o'"
  by (cases o') (auto simp: field_def id_ok_def decode_id_string)

lemma header_roundtrip:
  assumes "header_ok h"
  shows "decode_header (encode_header h) = Some h"
proof -
  obtain v i c d p o' where h: "h = \<lparr>vh_version = v, vh_id = i, vh_created_at = c, vh_cwd = d,
      vh_parent_session_id = p, vh_ownership = o'\<rparr>" by (cases h)
  have own: "opt_field ''ownership'' decode_ownership [(''ownership'', encode_ownership x)] = Some (Some x)"
    if "o' = Some x" for x
    using assms decode_encode_ownership [of x] that h
    by (cases x) (auto simp: opt_field_def header_ok_def)
  show ?thesis
    using assms own unfolding h
    by (cases p; cases o')
      (auto simp: header_ok_def encode_header_def field_def opt_field_def decode_variant.simps variant_of_def
        decode_u8_def json_u64_def u64_max_def id_ok_def opt_id_ok_def decode_id_string
        decode_encode_timestamp split: session_ownership.splits json.splits)
qed

section \<open>Replay\<close>

lemma replay_lines_torn:
  "replay_lines f before st lines = Ok (st', Some valid) \<Longrightarrow>
    \<exists>pre line. lines = pre @ [line] \<and> valid = before @ pre \<and>
      replay_lines f before st pre = Ok (st', None)"
proof (induction f before st lines rule: replay_lines.induct)
  case (2 f before state line rest)
  show ?case
  proof (cases "from_text f line")
    case None
    with 2 show ?thesis by (auto split: if_splits)
  next
    case (Some v)
    with "2.prems" obtain state' where s: "apply_loaded_mutation (codec (fenv f)) state v = Ok state'"
      "replay_lines f (before @ [line]) state' rest = Ok (st', Some valid)"
      by (auto simp: result_simps)
    from "2.IH" [OF Some s(2)] obtain pre l where "rest = pre @ [l]" "valid = (before @ [line]) @ pre"
      "replay_lines f (before @ [line]) state' pre = Ok (st', None)" by blast
    with Some s(1) show ?thesis by (intro exI [of _ "line # pre"] exI [of _ l]) simp
  qed
qed simp

lemma replay_lines_before:
  "replay_lines f before st lines = Ok (st', None) \<Longrightarrow> replay_lines f other st lines = Ok (st', None)"
  by (induction f before st lines arbitrary: other rule: replay_lines.induct)
    (auto simp: result_simps split: option.splits if_splits)

lemma replay_lines_printed:
  assumes "\<forall>v \<in> set vs. printable f v"
    and "try_fold (apply_loaded_mutation (codec (fenv f))) st vs = Ok st'"
  shows "replay_lines f before st (map (to_text (fenv f)) vs @ rest) =
    replay_lines f (before @ map (to_text (fenv f)) vs) st' rest"
  using assms
proof (induction vs arbitrary: before st)
  case (Cons v vs)
  then obtain s where s: "apply_loaded_mutation (codec (fenv f)) st v = Ok s"
    "try_fold (apply_loaded_mutation (codec (fenv f))) s vs = Ok st'"
    by (auto simp: result_simps)
  with Cons.prems(1) Cons.IH [of s "before @ [to_text (fenv f) v]"] show ?case
    by (simp add: printable_def)
qed simp

lemma open_content_wf: "open_content f path content = Ok store \<Longrightarrow> wf_state (js_state store)"
proof -
  have "wf_state st \<Longrightarrow> replay_lines f before st lines = Ok (st', r) \<Longrightarrow> wf_state st'"
    for before st lines st' r
    by (induction f before st lines rule: replay_lines.induct)
      (auto simp: result_simps split: option.splits if_splits intro: apply_loaded_wf)
  with wf_state_new show "open_content f path content = Ok store \<Longrightarrow> wf_state (js_state store)"
    by (auto simp: open_content_def result_simps split: list.splits option.splits if_splits)
qed

lemma open_content_lines:
  assumes "log_split content = to_text (fenv f) (encode_header h) # lines" "header_ok h"
    "printable f (encode_header h)"
  shows "open_content f path content =
    and_then (replay_lines f [to_text (fenv f) (encode_header h)] SessionState_new lines)
      (\<lambda>(state, repaired). Ok \<lparr>js_session_id = vh_id h, js_path = path,
        js_file = (case repaired of Some valid \<Rightarrow> repaired_content valid
          | None \<Rightarrow> if ends_with [newline] content then content else content @ [newline]),
        js_buffer = [], js_state = state\<rparr>)"
  using assms header_roundtrip [OF assms(2)]
  by (simp add: open_content_def printable_def header_ok_def)

lemma log_agrees_file:
  assumes "log_agrees (fenv f) (to_text (fenv f) (encode_header h)) st vs"
  shows "js_file st = concat (map (\<lambda>x. x @ [newline]) (log_of f h vs))"
  using assms by (simp add: log_agrees_def log_of_def log_lines_def comp_def)

lemma log_of_newline:
  "printable f (encode_header h) \<Longrightarrow> \<forall>v \<in> set vs. printable f v \<Longrightarrow>
    \<forall>x \<in> set (log_of f h vs). newline \<notin> set x"
  by (auto simp: log_of_def printable_def)

lemma repaired_log_of: "repaired_content (log_of f h vs) = concat (map (\<lambda>x. x @ [newline]) (log_of f h vs))"
  by (simp add: repaired_content_def join_with_lines log_of_def)

text \<open>Opening an agreeing log, whole, with one more complete line, or with a torn one.\<close>

lemma open_agreeing:
  assumes agrees: "log_agrees (fenv f) (to_text (fenv f) (encode_header h)) st vs"
    and h: "header_ok h" "printable f (encode_header h)" and vs: "\<forall>v \<in> set vs. printable f v"
  shows "open_content f path (js_file st) = Ok (st\<lparr>js_session_id := vh_id h, js_path := path\<rparr>)"
proof -
  note nl = log_of_newline [OF h(2) vs]
  have split: "log_split (js_file st) = to_text (fenv f) (encode_header h) # map (to_text (fenv f)) vs"
    using log_split_lines [OF nl] log_agrees_file [OF agrees] by (simp add: log_of_def)
  have closed: "ends_with [newline] (js_file st)"
    using last_concat_lines [of "log_of f h vs" newline]
    by (simp add: log_agrees_file [OF agrees] ends_with_single log_of_def del: concat.simps)
  have fold: "try_fold (apply_loaded_mutation (codec (fenv f))) SessionState_new vs = Ok (js_state st)"
    using agrees by (simp add: log_agrees_def)
  have "replay_lines f before SessionState_new (map (to_text (fenv f)) vs) = Ok (js_state st, None)" for before
    using replay_lines_printed [OF vs fold, of before "[]"] by simp
  with open_content_lines [OF split h] closed agrees show ?thesis by (simp add: log_agrees_def)
qed

lemma open_torn:
  assumes agrees: "log_agrees (fenv f) (to_text (fenv f) (encode_header h)) st vs"
    and h: "header_ok h" "printable f (encode_header h)" and vs: "\<forall>v \<in> set vs. printable f v"
    and t: "t \<noteq> []" "newline \<notin> set t" "from_text f t = None"
  shows "open_content f path (js_file st @ t) = Ok (st\<lparr>js_session_id := vh_id h, js_path := path\<rparr>)"
proof -
  note nl = log_of_newline [OF h(2) vs]
  have split: "log_split (js_file st @ t) =
      to_text (fenv f) (encode_header h) # (map (to_text (fenv f)) vs @ [t])"
    using log_split_append_line [OF nl t(2,1)] log_agrees_file [OF agrees] by (simp add: log_of_def)
  have fold: "try_fold (apply_loaded_mutation (codec (fenv f))) SessionState_new vs = Ok (js_state st)"
    using agrees by (simp add: log_agrees_def)
  have "replay_lines f [to_text (fenv f) (encode_header h)] SessionState_new
      (map (to_text (fenv f)) vs @ [t]) = Ok (js_state st, Some (log_of f h vs))"
    using replay_lines_printed [OF vs fold] t(3) by (simp add: log_of_def)
  with open_content_lines [OF split h] agrees log_agrees_file [OF agrees] show ?thesis
    by (simp add: log_agrees_def repaired_log_of)
qed

lemma open_unterminated:
  assumes "log_agrees (fenv f) (to_text (fenv f) (encode_header h)) st' (vs @ [v])"
    and h: "header_ok h" "printable f (encode_header h)" and vs: "\<forall>x \<in> set (vs @ [v]). printable f x"
    and fl: "js_file st' = content @ [newline]" "\<not> ends_with [newline] content"
  shows "open_content f path content = Ok (st'\<lparr>js_session_id := vh_id h, js_path := path\<rparr>)"
proof -
  have same: "log_split content = log_split (js_file st')"
  proof -
    have "content \<noteq> []"
      using assms(1) h(2) vs fl(1) by (auto simp: log_agrees_def printable_def append_eq_Cons_conv Cons_eq_append_conv)
    with fl show ?thesis by (simp add: log_split_snoc ends_with_single log_split_torn)
  qed
  have split: "log_split (js_file st') =
      to_text (fenv f) (encode_header h) # map (to_text (fenv f)) (vs @ [v])"
    using log_split_lines [OF log_of_newline [OF h(2) vs]] log_agrees_file [OF assms(1)]
    by (simp add: log_of_def)
  have "open_content f path content = open_content f path (js_file st')"
    unfolding open_content_lines [OF split h] open_content_lines [OF split [folded same] h]
    using fl(2) unfolding fl(1) by (simp only: ends_with_single last_snoc) simp
  with open_agreeing [OF assms(1) h vs] show ?thesis by simp
qed

lemma persist_agrees:
  assumes "log_agrees env header st vs" "validate (codec env) (js_state st) v = Ok m"
  shows "log_agrees env header (fst (persist env Written v st)) (vs @ [v])"
  using assms
  by (simp add: log_agrees_def persist_Written log_lines_snoc try_fold_append apply_loaded_mutation_def)

text \<open>What a failed write leaves in the file.\<close>

lemma persist_failed_file:
  assumes "js_buffer st = []" "validate (codec env) (js_state st) v = Ok m"
  shows "js_file (fst (persist env (WriteFailed j k) v st)) =
    js_file st @ take (min j k) (to_text env v @ [newline])"
  using assms by (simp add: persist_def Let_def take_take min.commute del: take_append)

lemma crash_outcome:
  assumes agrees: "log_agrees (fenv f) (to_text (fenv f) (encode_header h)) st vs"
    and h: "header_ok h" "printable f (encode_header h)" and vs: "\<forall>x \<in> set (vs @ [v]). printable f x"
    and v: "prefix_free f v" "validate (codec (fenv f)) (js_state st) v = Ok m"
  shows "\<exists>s. open_content f path (js_file (fst (persist (fenv f) (WriteFailed j k) v st))) = Ok s \<and>
    js_state s = (if min j k < length (to_text (fenv f) v) then js_state st
      else js_state (fst (persist (fenv f) Written v st)))"
proof -
  let ?t = "to_text (fenv f) v" and ?n = "min j k"
  have buffer: "js_buffer st = []" using agrees by (simp add: log_agrees_def)
  note fl = persist_failed_file [OF buffer v(2), of j k]
  note agrees' = persist_agrees [OF agrees v(2)]
  have t: "newline \<notin> set ?t" "?t \<noteq> []" using vs by (simp_all add: printable_def)
  then have lt: "last ?t \<noteq> newline" by (metis last_in_set)
  consider "?n = 0" | "0 < ?n" "?n < length ?t" | "?n = length ?t" | "length ?t < ?n" by linarith
  then show ?thesis
  proof cases
    case 1
    then show ?thesis
      using open_agreeing [OF agrees h, of path] vs t(2) fl by simp
  next
    case 2
    have "from_text f (take ?n ?t) = None" using v(1) 2 by (simp only: prefix_free_def)
    moreover have "newline \<notin> set (take ?n ?t)" using t(1) in_set_takeD by metis
    ultimately have "open_content f path (js_file st @ take ?n ?t) =
        Ok (st\<lparr>js_session_id := vh_id h, js_path := path\<rparr>)"
      using vs 2 by (intro open_torn [OF agrees h]) auto
    moreover have "js_file (fst (persist (fenv f) (WriteFailed j k) v st)) = js_file st @ take ?n ?t"
      using 2 unfolding fl by simp
    ultimately show ?thesis using 2 by simp
  next
    case 3
    have "open_content f path (js_file st @ ?t) =
        Ok (fst (persist (fenv f) Written v st)\<lparr>js_session_id := vh_id h, js_path := path\<rparr>)"
      by (rule open_unterminated [OF agrees' h vs])
        (use buffer t(2) lt in \<open>auto simp: persist_Written [OF v(2)] ends_with_single\<close>)
    with 3 fl show ?thesis by simp
  next
    case 4
    then have "take ?n (?t @ [newline]) = ?t @ [newline]" by (intro take_all) simp
    then have "js_file (fst (persist (fenv f) (WriteFailed j k) v st)) =
        js_file (fst (persist (fenv f) Written v st))"
      using fl buffer by (simp add: persist_Written [OF v(2)] del: take_append)
    moreover have "\<not> ?n < length ?t" using 4 by linarith
    ultimately show ?thesis using open_agreeing [OF agrees' h vs, of path] by simp
  qed
qed

section \<open>Reading only the tail\<close>

lemma split_on_append: "split_on c (x @ c # y) = split_on c x @ split_on c y"
proof (induction x)
  case (Cons a x)
  obtain z zs where "split_on c x = z # zs" by (cases "split_on c x") auto
  with Cons show ?case by simp
qed simp

lemma after_last_newline_split:
  "after_last_newline body =
    (if 2 \<le> length (split_on newline body) then Some (last (split_on newline body)) else None)"
proof (cases "newline \<in> set body")
  case True
  then obtain x y where b: "body = x @ newline # y" "newline \<notin> set y" by (metis split_list_last)
  have "takeWhile (\<lambda>c. c \<noteq> newline) (rev body) = rev y"
    using b by (auto simp: takeWhile_append takeWhile_eq_all_conv)
  moreover have "0 < length (split_on newline x)" by simp
  ultimately show ?thesis using True b
    by (simp add: after_last_newline_def split_on_append str_simps Suc_le_eq del: length_greater_0_conv)
next
  case False
  then show ?thesis by (simp add: after_last_newline_def str_simps)
qed

text \<open>Once the window shows a newline before the final one, the whole file gives the same line.\<close>

lemma after_last_newline_window:
  assumes "after_last_newline (butlast (drop start content)) = Some line"
  shows "after_last_newline (butlast content) = Some line"
proof -
  let ?tail = "drop start content"
  have ne: "?tail \<noteq> []" using assms by (auto simp: after_last_newline_def split: if_splits)
  have "content = take start content @ ?tail" by simp
  then have "butlast content = take start content @ butlast ?tail"
    using ne by (metis butlast_append)
  with assms show ?thesis
    by (auto simp: after_last_newline_def takeWhile_append split: if_splits)
qed

lemma whole_file_sequence_alt:
  "whole_file_sequence f content =
     (if \<not> ends_with [newline] content then None
      else case after_last_newline (butlast content) of
          None \<Rightarrow> None | Some line \<Rightarrow> line_sequence f line)"
proof (cases "ends_with [newline] content")
  case True
  then have "log_split content = split_on newline (butlast content)"
    by (metis ends_with_single append_butlast_last_id log_split_snoc)
  with True show ?thesis by (simp add: whole_file_sequence_def after_last_newline_split)
qed (simp add: whole_file_sequence_def)

lemma ends_with_drop:
  "drop start content \<noteq> [] \<Longrightarrow> ends_with [newline] (drop start content) = ends_with [newline] content"
  by (cases "drop start content = []") (auto simp: ends_with_single last_drop)

lemma last_sequence_loop_total:
  assumes "0 < window" "length content \<le> u64_max"
  shows "last_sequence_loop f content window = Some (whole_file_sequence f content)"
  using assms
proof (induction "length content - window" arbitrary: window rule: less_induct)
  case less
  let ?tail = "drop (length content - window) content"
  show ?case
  proof (cases "content = []")
    case True
    then show ?thesis
      by (subst last_sequence_loop.simps) (simp add: whole_file_sequence_alt ends_with_single)
  next
    case False
    with less.prems(1) have ne: "?tail \<noteq> []" by (cases content) auto
    note ends = ends_with_drop [OF ne]
    consider "\<not> ends_with [newline] content"
      | line where "ends_with [newline] content" "after_last_newline (butlast ?tail) = Some line"
      | "ends_with [newline] content" "after_last_newline (butlast ?tail) = None" by fastforce
    then show ?thesis
    proof cases
      case 1
      then show ?thesis
        by (subst last_sequence_loop.simps) (simp add: whole_file_sequence_alt ends)
    next
      case 2
      with after_last_newline_window [OF 2(2)] show ?thesis
        by (subst last_sequence_loop.simps) (simp add: whole_file_sequence_alt ends)
    next
      case 3
      show ?thesis
      proof (cases "length content - window = 0")
        case True
        with 3 show ?thesis
          by (subst last_sequence_loop.simps) (simp add: whole_file_sequence_alt)
      next
        case False
        let ?w = "saturating_mul_u64 window 4"
        have "window < u64_max" using False less.prems(2) by simp
        with less.prems(1) have "window < ?w" by (auto simp: saturating_mul_u64_def min_def)
        with False have "length content - ?w < length content - window" "0 < ?w" by simp_all
        from less.hyps [OF this less.prems(2)] 3 False show ?thesis
          by (subst last_sequence_loop.simps) (simp add: ends Let_def)
      qed
    qed
  qed
qed

section \<open>Creating, walking and renaming\<close>

lemma create_agrees:
  assumes "create_with f now options ownership disk = (disk', Ok st)"
  shows "log_agrees (fenv f) (to_text (fenv f) (encode_header (created_header now options ownership))) st []"
    and "js_session_id st = co_session_id options"
  using assms
  by (auto simp: create_with_def log_agrees_def log_lines_def created_header_def Let_def split: if_splits)

lemma persist_session_id: "js_session_id (fst (persist env w v st)) = js_session_id st"
  by (cases w) (auto simp: persist_def Let_def split: result.splits)

lemma run_ops_session_id: "js_session_id (run_ops env ops st) = js_session_id st"
proof (induction ops arbitrary: st)
  case (Cons ow ops)
  obtain operation w where ow: "ow = (operation, w)" by (cases ow)
  have "js_session_id (fst (run_op env w operation st)) = js_session_id st"
    using run_op_via_persist [of env w st operation] persist_session_id
    by (auto simp: via_persist_def)
  with Cons ow show ?case by simp
qed simp

lemma fork_walk_of_branch_walk:
  "branch_walk st cursor visited acc = Some r \<Longrightarrow> st = js_state source \<Longrightarrow>
    (\<forall>eid. r \<noteq> Err (InvalidSession (BranchCycle eid))) \<Longrightarrow> fork_walk source cursor acc = Some r"
proof (induct rule: branch_walk.raw_induct [rotated 1, consumes 1])
  case (1 walk st cursor visited acc r)
  then show ?case
    by (subst fork_walk.simps) (auto simp: get_entry_def split: option.splits if_splits)
qed

lemma last_sequence_of_log:
  assumes "try_fold (apply_loaded_mutation c) SessionState_new vs = Ok st" "vs \<noteq> []"
  shows "Option.bind (json_get ''seq'' (last vs)) as_u64 = Some (next_sequence st)"
proof -
  from assms(2) obtain us v where vs: "vs = us @ [v]" by (cases vs rule: rev_cases) auto
  from assms(1) obtain s m where s: "validate c s v = Ok m" "st = commit s m"
    and wf: "try_fold (apply_loaded_mutation c) SessionState_new us = Ok s"
    unfolding vs by (auto simp: try_fold_append result_simps apply_loaded_mutation_def)
  from validate_Ok_kind [OF s(1)] obtain n where n: "json_get ''seq'' v = Some (JNumber (PosInt n))"
    "n = saturating_add_u64 (next_sequence s) 1" by blast
  from validate_admissible [OF s(1)] n(2) s(2) saturating_Suc [of "next_sequence s"]
  have "next_sequence st = n" by (cases m) auto
  with n show ?thesis by (simp add: vs saturating_add_u64_def)
qed

lemma whole_file_sequence_agrees:
  assumes agrees: "log_agrees (fenv f) (to_text (fenv f) (encode_header h)) st vs"
    and h: "printable f (encode_header h)" and vs: "\<forall>v \<in> set vs. printable f v"
  shows "whole_file_sequence f (js_file st) =
    (if vs = [] then None else Some (next_sequence (js_state st)))"
proof -
  have split: "log_split (js_file st) = log_of f h vs"
    using log_split_lines [OF log_of_newline [OF h vs]] log_agrees_file [OF agrees] by simp
  have closed: "ends_with [newline] (js_file st)"
    using last_concat_lines [of "log_of f h vs" newline]
    by (simp add: log_agrees_file [OF agrees] ends_with_single log_of_def del: concat.simps)
  show ?thesis
  proof (cases "vs = []")
    case True
    then show ?thesis by (simp add: whole_file_sequence_def split log_of_def)
  next
    case False
    then have line: "last (log_of f h vs) = to_text (fenv f) (last vs)" "2 \<le> length (log_of f h vs)"
      by (simp_all add: log_of_def last_map Suc_le_eq)
    have "line_sequence f (to_text (fenv f) (last vs)) = Some (next_sequence (js_state st))"
      using last_sequence_of_log [of "codec (fenv f)" vs "js_state st"] agrees vs False
      by (simp add: line_sequence_def log_agrees_def printable_def)
    with False line closed show ?thesis by (simp add: whole_file_sequence_def split)
  qed
qed

lemma set_name_Written:
  "set_name env Written name st =
    (case candidate_sequence (js_state st) of Err e \<Rightarrow> (st, Err e)
     | Ok n \<Rightarrow> (st\<lparr>js_file := js_file st @ js_buffer st @ to_text env (encode_name_fact n name) @ [newline],
         js_buffer := [], js_state := commit (js_state st) (VName n name)\<rparr>, Ok ()))"
proof (cases "candidate_sequence (js_state st)")
  case (Ok n)
  then have n: "n = Suc (next_sequence (js_state st))" "next_sequence (js_state st) < MAX_SAFE_INTEGER"
    by (simp_all add: candidate_sequence_iff)
  from persist_Written [OF validate_encoded_name [OF n(2)]] n(1) Ok show ?thesis
    by (simp add: set_name_def)
qed (simp add: set_name_def)

lemma write_file_same:
  assumes "distinct (map (file_path f) disk)" "read_file f disk path = Some content"
  shows "write_file f path content disk = disk"
proof -
  have "lf_content lf = content" if "lf \<in> set disk" "file_path f lf = path" for lf
    using assms that
    by (induction disk) (auto simp: read_file_def split: if_splits)
  then show ?thesis by (auto simp: write_file_def intro!: map_idI)
qed

lemma write_file_twice:
  "write_file f path content (write_file f path other disk) = write_file f path content disk"
  by (auto simp: write_file_def file_path_def)

end
