(* ===== verification/Log_Recovery.thy ===== *)
theory Log_Recovery
  imports Factory_Props
begin

text \<open>
  The properties of creating, opening, renaming, forking, finding and deleting session logs.
\<close>

section \<open>Samples\<close>

definition sample_options :: create_options where
  "sample_options = \<lparr>co_session_id = ''s1'', co_cwd = ''/w'', co_parent_session_id = None\<rparr>"

definition sample_created :: jsonl_store where
  "sample_created = the_ok (snd (create_with numeral_factory 5 sample_options None []))"

definition sample_log :: log_file where
  "sample_log = \<lparr>lf_directory = cwd_session_directory ''/w'', lf_name = timestamp_to_string 5 @ ''_s1.jsonl'',
     lf_content = js_file sample_created, lf_modified_ms = 5\<rparr>"

text \<open>A factory that knows two lines, the header and one name fact, and the log that holds both.\<close>

definition table_factory :: factory where
  "table_factory = \<lparr>sessions_root = ''r'',
     from_text = (\<lambda>s. if s = ''h;'' then Some (encode_header (created_header 5 sample_options None))
       else if s = ''n;'' then Some (encode_name_fact 1 None) else None),
     fenv = \<lparr>to_text = (\<lambda>v. if v = encode_header (created_header 5 sample_options None) then ''h;'' else ''n;''),
       codec = \<lparr>accepts_message = (\<lambda>v. True), accepts_usage = (\<lambda>v. True)\<rparr>\<rparr>\<rparr>"

definition table_content :: string where
  "table_content = ''h;'' @ [newline] @ ''n;'' @ [newline]"

definition table_store :: jsonl_store where
  "table_store = \<lparr>js_session_id = ''s1'', js_path = ''p'', js_file = table_content, js_buffer = [],
     js_state = commit SessionState_new (VName 1 None)\<rparr>"

definition table_log :: log_file where
  "table_log = \<lparr>lf_directory = ''d'', lf_name = ''1_s1.jsonl'', lf_content = table_content, lf_modified_ms = 5\<rparr>"

lemma numeral_to_text: "to_text (fenv numeral_factory) v = decimal (to_nat v) @ '';''"
  by (simp add: numeral_factory_def)

lemma numeral_printable: "printable numeral_factory v"
proof -
  have "newline \<notin> set (decimal (to_nat v))"
    using decimal_digits [of "to_nat v"] by (auto simp: list_all_iff is_ascii_digit_def)
  then show ?thesis
    using decimal_digits [of "to_nat v"]
    by (simp add: printable_def numeral_to_text numeral_factory_def)
qed

lemma numeral_prefix_free: "prefix_free numeral_factory v"
proof -
  have "from_text numeral_factory (take n (decimal (to_nat v))) = None" for n
  proof (cases "take n (decimal (to_nat v)) = []")
    case False
    then have "last (take n (decimal (to_nat v))) \<in> set (decimal (to_nat v))"
      using last_in_set in_set_takeD by metis
    then have "is_ascii_digit (last (take n (decimal (to_nat v))))"
      using decimal_digits [of "to_nat v"] by (simp add: list_all_iff)
    then have "last (take n (decimal (to_nat v))) \<noteq> CHR '';''" by (auto simp: is_ascii_digit_def)
    then show ?thesis by (simp add: numeral_factory_def)
  qed (simp add: numeral_factory_def)
  then show ?thesis by (auto simp: prefix_free_def numeral_to_text less_Suc_eq_le)
qed

lemma sample_create: "create_with numeral_factory 5 sample_options None [] = ([sample_log], Ok sample_created)"
  by (simp add: sample_created_def sample_log_def create_with_def sample_options_def read_file_def Let_def)

lemma sample_header_ok: "header_ok (created_header 5 sample_options None)"
proof -
  have "\<not> is_blank ''s1''" by (rule not_blank_char) (simp_all add: ws1_def)
  then show ?thesis
    by (simp add: header_ok_def created_header_def sample_options_def id_ok_def opt_id_ok_def u64_max_def)
qed

lemma table_printable:
  "printable table_factory (encode_header (created_header 5 sample_options None))"
  "printable table_factory (encode_name_fact 1 None)"
  by (simp_all add: printable_def table_factory_def encode_name_fact_def encode_header_def)

lemma table_text_fact: "to_text (fenv table_factory) (encode_name_fact n name) = ''n;''"
  by (simp add: table_factory_def encode_name_fact_def encode_header_def)

lemma table_state: "next_sequence (js_state table_store) = 1"
  by (simp add: table_store_def)

lemma table_agrees:
  "log_agrees (fenv table_factory)
    (to_text (fenv table_factory) (encode_header (created_header 5 sample_options None)))
    table_store [encode_name_fact 1 None]"
proof -
  have "validate (codec (fenv table_factory)) SessionState_new (encode_name_fact 1 None) = Ok (VName 1 None)"
    using validate_encoded_name [of SessionState_new "codec (fenv table_factory)" None]
    by (simp add: SessionState_new_def MAX_SAFE_INTEGER_def)
  moreover have "to_text (fenv table_factory) (encode_header (created_header 5 sample_options None)) = ''h;''"
    "to_text (fenv table_factory) (encode_name_fact 1 None) = ''n;''"
    by (simp add: table_factory_def)
      (simp add: table_factory_def encode_name_fact_def encode_header_def)
  ultimately show ?thesis
    by (simp add: log_agrees_def table_store_def table_content_def log_lines_def apply_loaded_mutation_def)
qed

section \<open>Names\<close>

lemma str_lines_log:
  assumes "\<forall>x \<in> set xs. newline \<notin> set x" "\<forall>x \<in> set xs. x \<noteq> [] \<longrightarrow> last x \<noteq> CHR 0x0D"
  shows "str_lines (concat (map (\<lambda>x. x @ [newline]) xs)) = xs"
proof (cases "xs = []")
  case True
  then show ?thesis by (simp add: str_lines_def)
next
  case False
  have "map strip_cr xs = xs" using assms(2) by (intro map_idI) (auto simp: strip_cr_def)
  with False assms(1) split_join [of xs newline] show ?thesis
    by (simp add: join_with_lines [symmetric] str_lines_def split_on_snoc_sep)
qed

lemma validate_name:
  assumes "validate c s v = Ok m"
  shows "session_name (commit s m) =
    (if json_get_str ''kind'' v = Some ''fact'' \<and> json_get_str ''fact'' v = Some ''name''
     then json_get_str ''name'' v else session_name s)"
proof -
  from assms obtain kind n where kind: "json_get_str ''kind'' v = Some kind"
    and cases: "(kind = ''lane'' \<and> validate_lane s v = Ok m) \<or> (kind = ''entry'' \<and> validate_entry c s v = Ok m) \<or>
       (kind = ''record'' \<and> validate_record s v = Ok m) \<or> (kind = ''fact'' \<and> validate_fact s n v = Ok m)"
    by (rule validate_Ok_kind) blast
  show ?thesis
  proof (cases "kind = ''fact''")
    case True
    with cases have "validate_fact s n v = Ok m" by auto
    with kind True show ?thesis
      by (auto simp: validate_fact_def result_simps id_try_from_def split: result.splits if_splits)
  next
    case False
    with cases have "\<not> (\<exists>n x. m = VName n x)"
      by (auto simp: validate_lane_def validate_entry_def validate_record_def result_simps
          split: option.splits if_splits)
    with False kind show ?thesis by (cases m) auto
  qed
qed

lemma listed_name_fold:
  assumes "\<forall>v \<in> set vs. printable f v"
    and "try_fold (apply_loaded_mutation (codec (fenv f))) s vs = Ok s'"
  shows "foldl (name_after_line f) (session_name s) (map (to_text (fenv f)) vs) = session_name s'"
  using assms
proof (induction vs arbitrary: s)
  case (Cons v vs)
  then obtain m where m: "validate (codec (fenv f)) s v = Ok m"
    "try_fold (apply_loaded_mutation (codec (fenv f))) (commit s m) vs = Ok s'"
    unfolding try_fold.simps apply_loaded_mutation_def [of _ s v] by (auto simp: result_simps)
  have "name_after_line f (session_name s) (to_text (fenv f) v) = session_name (commit s m)"
    using validate_name [OF m(1)] Cons.prems(1) by (simp add: name_after_line_def printable_def)
  with Cons.IH [OF _ m(2)] Cons.prems(1) show ?case by simp
qed simp

lemma headers_mem: "h \<in> set (headers f None disk) \<longleftrightarrow> (\<exists>x \<in> set disk. scan_header f None x = Some h)"
  by (force simp: headers_def scan_headers_def map_filter_def in_directory_def image_iff)

lemma commit_sequence:
  assumes "validate c s v = Ok m"
  shows "next_sequence (commit s m) = saturating_add_u64 (next_sequence s) 1"
  using validate_admissible [OF assms] saturating_Suc [of "next_sequence s"] by (cases m) auto

lemma validate_repeated:
  assumes "validate c s v = Ok m"
    and "next_sequence s' = saturating_add_u64 (next_sequence s) 1"
    and "next_sequence s' \<noteq> saturating_add_u64 (next_sequence s') 1"
  shows "validate c s' v = Err (InvalidSession (NotConsecutive (next_sequence s') (next_sequence s')))"
proof -
  from assms(1) obtain kind n where "json_get_str ''kind'' v = Some kind"
    "json_get ''seq'' v = Some (JNumber (PosInt n))" "n = saturating_add_u64 (next_sequence s) 1"
    by (rule validate_Ok_kind) blast
  moreover from this have "n \<le> u64_max" by (simp add: saturating_add_u64_def)
  ultimately show ?thesis using assms(2,3) by (simp add: validate_def)
qed

section \<open>Reopening\<close>

text \<open>C1: a log that was created and then extended by any operations whose writes succeeded
  consists of the header line and one line per accepted mutation; when the JSON text of these
  values parses back, opening the log returns the very store that wrote it.\<close>

theorem reopen_reproduces_store:
  assumes "create_with f now options ownership disk = (disk', Ok st)"
    and "\<forall>ow \<in> set ops. snd ow = Written"
    and "header_ok (created_header now options ownership)"
  shows "\<exists>vs. js_file (run_ops (fenv f) ops st) =
      to_text (fenv f) (encode_header (created_header now options ownership)) @ [newline] @
      log_lines (fenv f) vs \<and>
    ((\<forall>v \<in> set (encode_header (created_header now options ownership) # vs). printable f v) \<longrightarrow>
      open_content f path (js_file (run_ops (fenv f) ops st)) =
        Ok ((run_ops (fenv f) ops st)\<lparr>js_path := path\<rparr>))"
proof -
  let ?h = "created_header now options ownership" and ?st = "run_ops (fenv f) ops st"
  from run_ops_log_agrees [OF create_agrees(1) [OF assms(1)] assms(2)] obtain vs where
    agrees: "log_agrees (fenv f) (to_text (fenv f) (encode_header ?h)) ?st vs" by auto
  have sid: "vh_id ?h = js_session_id ?st"
    using create_agrees(2) [OF assms(1)] run_ops_session_id [of "fenv f" ops st]
    by (simp add: created_header_def)
  have "open_content f path (js_file ?st) = Ok (?st\<lparr>js_path := path\<rparr>)"
    if "\<forall>v \<in> set (encode_header ?h # vs). printable f v"
  proof -
    from that have "printable f (encode_header ?h)" "\<forall>v \<in> set vs. printable f v" by simp_all
    from open_agreeing [OF agrees assms(3) this] sid show ?thesis by simp
  qed
  moreover have "js_file ?st = to_text (fenv f) (encode_header ?h) @ [newline] @ log_lines (fenv f) vs"
    using agrees by (simp add: log_agrees_def)
  ultimately show ?thesis by blast
qed

theorem reopen_reproduces_store_witness:
  "open_content numeral_factory ''p''
     (js_file (run_ops (fenv numeral_factory) [(OpSetName (Some ''n''), Written)] sample_created)) =
   Ok ((run_ops (fenv numeral_factory) [(OpSetName (Some ''n''), Written)] sample_created)\<lparr>js_path := ''p''\<rparr>)"
  using reopen_reproduces_store [OF sample_create _ sample_header_ok,
      of "[(OpSetName (Some ''n''), Written)]" "''p''"] numeral_printable
  by auto



text \<open>Opening repairs once: the file it leaves behind opens to the same store without any
  further change, whatever the file held.\<close>

lemma open_idempotent:
  assumes "open_content f path content = Ok store"
  shows "open_content f path (js_file store) = Ok store"
proof -
  from assms obtain hl rest h state repaired where l: "log_split content = hl # rest"
    and h: "Option.bind (from_text f hl) decode_header = Some h" "vh_version h = 4"
    and r: "replay_lines f [hl] SessionState_new rest = Ok (state, repaired)"
    and store: "store = \<lparr>js_session_id = vh_id h, js_path = path,
      js_file = (case repaired of Some valid \<Rightarrow> repaired_content valid
        | None \<Rightarrow> if ends_with [newline] content then content else content @ [newline]),
      js_buffer = [], js_state = state\<rparr>"
    by (auto simp: open_content_def result_simps split: list.splits option.splits if_splits)
  show ?thesis
  proof (cases repaired)
    case None
    have "log_split (js_file store) = hl # rest" "ends_with [newline] (js_file store)"
      using log_split_closed [of content] l None
      by (simp_all add: store ends_with_iff)
    with h r None show ?thesis by (simp add: open_content_def) (simp add: store)
  next
    case (Some valid)
    with replay_lines_torn [of f "[hl]" SessionState_new rest state valid] r obtain pre line where
      pre: "valid = hl # pre" "rest = pre @ [line]" "replay_lines f [hl] SessionState_new pre = Ok (state, None)"
      by auto
    have "\<forall>x \<in> set (hl # pre). newline \<notin> set x"
      using pre(2) l log_split_pieces [of _ content] by auto
    from log_split_lines [OF this] have "log_split (js_file store) = hl # pre"
      by (simp add: store Some repaired_content_def pre(1) join_with_lines)
    moreover have "ends_with [newline] (js_file store)"
      by (simp add: store Some repaired_content_def ends_with_iff)
    ultimately show ?thesis using h pre(3) by (simp add: open_content_def) (simp add: store Some)
  qed
qed

section \<open>Shortcuts that do not replay\<close>

text \<open>The backward scan of a log's tail ends for every file a \<^verbatim>\<open>u64\<close> can measure and finds
  what reading the whole file would: the sequence on the last line, when the file ends with a
  complete line other than the header.\<close>

lemma tail_scan_reads_last_line:
  assumes "length content \<le> u64_max"
  shows "log_last_sequence f content = Some (whole_file_sequence f content)"
  unfolding log_last_sequence_def using assms by (intro last_sequence_loop_total) simp_all

text \<open>Renaming a session by appending to its log without replaying it has the effect of
  opening the log, setting the name on the store and syncing: same file, same result.\<close>

lemma rename_equals_replay:
  assumes "log_agrees (fenv f) (to_text (fenv f) (encode_header h)) st vs" "header_ok h"
    and "\<forall>x \<in> set (encode_header h # vs). printable f x"
    and "distinct (map (file_path f) disk)" "read_file f disk path = Some (js_file st)"
    and "length (js_file st) \<le> u64_max"
  shows "set_name_at f path name disk = Some (case set_name (fenv f) Written name st of
      (st', Err e) \<Rightarrow> (disk, Err e)
    | (st', Ok _) \<Rightarrow> (write_file f path (js_file st') disk, Ok ()))"
proof -
  have printed: "printable f (encode_header h)" "\<forall>v \<in> set vs. printable f v" using assms(3) by simp_all
  have tail: "log_last_sequence f (js_file st) =
      Some (if vs = [] then None else Some (next_sequence (js_state st)))"
    unfolding log_last_sequence_def
    using last_sequence_loop_total [OF _ assms(6), of "64 * 1024" f]
      whole_file_sequence_agrees [OF assms(1) printed] by simp
  have buffer: "js_buffer st = []" using assms(1) by (simp add: log_agrees_def)
  note same = write_file_same [OF assms(4,5)]
  show ?thesis
  proof (cases "vs = []")
    case True
    have "open_store f path disk = (disk, Ok (st\<lparr>js_session_id := vh_id h, js_path := path\<rparr>))"
      using assms(5) open_agreeing [OF assms(1,2) printed, of path] same by (simp add: open_store_def)
    with True tail assms(5) show ?thesis
      by (cases "candidate_sequence (js_state st)") (simp_all add: set_name_at_def set_name_Written)
  next
    case False
    have "Option.bind (checked_add_u64 (next_sequence (js_state st)) 1)
        (\<lambda>n. result_ok (sequence_try_from n)) = result_ok (candidate_sequence (js_state st))"
      by (simp add: candidate_sequence_def checked_add_u64_def sequence_try_from_def)
    moreover have "candidate_sequence (js_state st) = Err e \<Longrightarrow> e = SequenceExhausted" for e
      by (auto simp: candidate_sequence_def result_simps)
    ultimately show ?thesis
      using False tail assms(5) buffer
      by (cases "candidate_sequence (js_state st)") (simp_all add: set_name_at_def set_name_Written)
  qed
qed

text \<open>The name that listing shows, read off the lines of a log without replaying it, is the
  name an opened store would report.\<close>

lemma listed_name_is_session_name:
  assumes "log_agrees (fenv f) (to_text (fenv f) (encode_header h)) st vs" "header_ok h"
    and "\<forall>x \<in> set (encode_header h # vs). printable f x \<and> last (to_text (fenv f) x) \<noteq> CHR 0x0D"
    and "lf_content lf = js_file st" "is_jsonl (lf_name lf)"
  shows "map_option sm_name (list_entry f lf) = Some (store_name st)"
proof -
  have printed: "printable f (encode_header h)" "\<forall>v \<in> set vs. printable f v" using assms(3) by simp_all
  have lines: "str_lines (js_file st) = log_of f h vs"
    using assms(3) str_lines_log [OF log_of_newline [OF printed]] log_agrees_file [OF assms(1)]
    by (auto simp: log_of_def)
  have "foldl (name_after_line f) None (map (to_text (fenv f)) vs) = session_name (js_state st)"
    using assms(1) listed_name_fold [OF printed(2), of SessionState_new "js_state st"]
    by (simp add: log_agrees_def) (simp add: SessionState_new_def)
  with lines header_roundtrip [OF assms(2)] assms(2,4,5) printed(1) show ?thesis
    by (simp add: list_entry_def log_of_def printable_def header_ok_def store_name_def)
qed

section \<open>Branches, lookup and deletion\<close>

text \<open>C24: the ancestor walk of a fork, which keeps no record of visited entries, ends on every
  store that opening a log can produce and returns what the checked walk of \<^verbatim>\<open>branch\<close> returns.\<close>

theorem fork_copies_branch:
  assumes "open_content f path content = Ok source"
  shows "fork_walk source (Some leaf) [] = branch source leaf \<and> fork_walk source (Some leaf) [] \<noteq> None"
proof -
  have wf: "wf_entries (js_state source)"
    using open_content_wf [OF assms] by (simp add: wf_state_def)
  have "\<exists>r. branch source leaf = Some r \<and> (\<forall>eid. r \<noteq> Err (InvalidSession (BranchCycle eid)))"
  proof (cases "get_entry source leaf")
    case None
    then show ?thesis by (simp add: branch_def branch_walk.simps get_entry_def)
  next
    case (Some e)
    with branch_path [OF wf] show ?thesis by force
  qed
  then show ?thesis using fork_walk_of_branch_walk [of _ _ "{}" "[]"] by (auto simp: branch_def)
qed

theorem fork_copies_branch_witness:
  "fork_walk (table_store\<lparr>js_path := ''q''\<rparr>) (Some ''e'') [] = Some (Err (EntryNotFound ''e''))"
proof -
  have "open_content table_factory ''q'' (js_file table_store) =
      Ok (table_store\<lparr>js_session_id := vh_id (created_header 5 sample_options None), js_path := ''q''\<rparr>)"
    using table_printable by (intro open_agreeing [OF table_agrees sample_header_ok]) simp_all
  then have "open_content table_factory ''q'' (js_file table_store) = Ok (table_store\<lparr>js_path := ''q''\<rparr>)"
    by (simp add: created_header_def sample_options_def table_store_def)
  from fork_copies_branch [OF this, of "''e''"] show ?thesis
    by (simp add: branch_def branch_walk.simps table_store_def SessionState_new_def)
qed

text \<open>Looking a session up through generated file names first finds exactly the identities that
  a scan of every header finds.\<close>

lemma exists_iff_some_header:
  "session_exists f sid disk \<longleftrightarrow> (\<exists>h \<in> set (headers f None disk). sh_id h = sid)"
proof -
  have sound: "sh_id h = sid \<and> scan_header f None lf = Some h" if "scan_header f (Some sid) lf = Some h" for h lf
    using that by (auto simp: scan_header_def split: if_splits option.splits)
  show ?thesis
  proof (cases "scan_headers f None (Some sid) disk")
    case Nil
    then show ?thesis
      by (auto simp: session_exists_def find_header_def find_None_iff)
  next
    case (Cons h hs)
    then have "h \<in> set (scan_headers f None (Some sid) disk)" by simp
    then obtain lf where "lf \<in> set disk" "scan_header f (Some sid) lf = Some h"
      by (auto simp: scan_headers_def map_filter_def)
    with sound have "h \<in> set (headers f None disk)" "sh_id h = sid" by (auto simp: headers_mem)
    with Cons show ?thesis by (auto simp: session_exists_def find_header_def)
  qed
qed

text \<open>Deleting a session removes every log that carries its identity, under whatever file name,
  and no log of any other session.\<close>

lemma delete_removes_exactly_session:
  assumes "distinct (map (file_path f) disk)"
  shows "headers f None (delete_session f sid disk) = filter (\<lambda>h. sh_id h \<noteq> sid) (headers f None disk) \<and>
    (\<forall>lf \<in> set disk. (case scan_header f None lf of None \<Rightarrow> True | Some h \<Rightarrow> sh_id h \<noteq> sid) \<longleftrightarrow>
      lf \<in> set (delete_session f sid disk))"
proof -
  have path: "sh_path h = file_path f lf" if "scan_header f None lf = Some h" for h lf
    using that by (auto simp: scan_header_def split: if_splits option.splits)
  have inj: "x = y" if "x \<in> set disk" "y \<in> set disk" "file_path f x = file_path f y" for x y
    using assms that by (meson distinct_map inj_onD)
  have kept: "file_path f lf \<notin> set (map sh_path (filter (\<lambda>h. sh_id h = sid) (headers f None disk))) \<longleftrightarrow>
      (case scan_header f None lf of None \<Rightarrow> True | Some h \<Rightarrow> sh_id h \<noteq> sid)" if lf: "lf \<in> set disk" for lf
  proof -
    have "file_path f lf \<in> set (map sh_path (filter (\<lambda>h. sh_id h = sid) (headers f None disk))) \<longleftrightarrow>
        (\<exists>h. scan_header f None lf = Some h \<and> sh_id h = sid)" (is "?l \<longleftrightarrow> ?r")
    proof
      assume ?l
      then obtain h x where "x \<in> set disk" "scan_header f None x = Some h" "sh_id h = sid"
        "sh_path h = file_path f lf" by (auto simp: headers_mem)
      with path inj lf show ?r by metis
    next
      assume ?r
      with path headers_mem lf show ?l by force
    qed
    then show ?thesis by (simp split: option.split)
  qed
  have del: "delete_session f sid disk =
      filter (\<lambda>lf. case scan_header f None lf of None \<Rightarrow> True | Some h \<Rightarrow> sh_id h \<noteq> sid) disk"
    unfolding delete_session_def Let_def using kept by (intro filter_cong) simp_all
  have "List.map_filter (scan_header f None)
      (filter (\<lambda>lf. case scan_header f None lf of None \<Rightarrow> True | Some h \<Rightarrow> sh_id h \<noteq> sid) lfs) =
      filter (\<lambda>h. sh_id h \<noteq> sid) (List.map_filter (scan_header f None) lfs)" for lfs
    by (induction lfs) (auto simp: List.map_filter_def split: option.splits)
  then show ?thesis by (simp add: headers_def scan_headers_def in_directory_def del)
qed

text \<open>C23: a write that fails with the whole line still in the writer's buffer is reported as an
  error and not applied, but the line is not withdrawn: the next successful append writes it
  together with its own line under the same sequence number, and the log no longer opens.\<close>

theorem retained_line_corrupts_log:
  assumes "log_agrees (fenv f) (to_text (fenv f) (encode_header h)) st vs" "header_ok h"
    and "\<forall>x \<in> set (encode_header h # vs @ [v, v']). printable f x"
    and "snd (persist (fenv f) Written v st) = Ok ()" "snd (persist (fenv f) Written v' st) = Ok ()"
    and "length (to_text (fenv f) v) < j" "last_sequence st < MAX_SAFE_INTEGER"
  defines "failed \<equiv> persist (fenv f) (WriteFailed j 0) v st"
  shows "snd failed = Err StoreIo \<and> snd (persist (fenv f) Written v' (fst failed)) = Ok () \<and>
    (\<exists>n. open_content f path (js_file (fst (persist (fenv f) Written v' (fst failed)))) =
      Err (InvalidSession (NotConsecutive n n)))"
proof -
  let ?t = "to_text (fenv f)" and ?apply = "apply_loaded_mutation (codec (fenv f))"
  from assms(4,5) obtain m m' where m: "validate (codec (fenv f)) (js_state st) v = Ok m"
    and m': "validate (codec (fenv f)) (js_state st) v' = Ok m'" by (auto simp: persist_Ok_iff)
  have st: "js_buffer st = []" "try_fold ?apply SessionState_new vs = Ok (js_state st)"
    "js_file st = concat (map (\<lambda>x. x @ [newline]) (log_of f h vs))"
    using assms(1) log_agrees_file [OF assms(1)] by (simp_all add: log_agrees_def)
  have failed: "failed = (st\<lparr>js_buffer := ?t v @ [newline]\<rparr>, Err StoreIo)"
    using m st(1) assms(6) by (simp add: failed_def persist_def Let_def)
  have fl: "js_file (fst (persist (fenv f) Written v' (fst failed))) =
      concat (map (\<lambda>x. x @ [newline]) (log_of f h (vs @ [v, v'])))"
    using m' st(3) by (simp add: failed persist_Written log_of_def)
  have printed: "printable f (encode_header h)" "\<forall>x \<in> set (vs @ [v, v']). printable f x"
    using assms(3) by simp_all
  have split: "log_split (js_file (fst (persist (fenv f) Written v' (fst failed)))) =
      ?t (encode_header h) # (map ?t (vs @ [v]) @ [?t v'])"
    using log_split_lines [OF log_of_newline [OF printed]] by (simp add: fl log_of_def)
  let ?n = "saturating_add_u64 (next_sequence (js_state st)) 1"
  have fold: "try_fold ?apply SessionState_new (vs @ [v]) = Ok (commit (js_state st) m)"
    using st(2) m by (simp add: try_fold_append apply_loaded_mutation_def)
  have "?n \<noteq> saturating_add_u64 ?n 1"
    using assms(7) max_safe_le_u64 by (simp add: saturating_add_u64_def last_sequence_def MAX_SAFE_INTEGER_def u64_max_def)
  then have again: "?apply (commit (js_state st) m) v' = Err (InvalidSession (NotConsecutive ?n ?n))"
    using validate_repeated [OF m', of "commit (js_state st) m"] commit_sequence [OF m]
    by (simp add: apply_loaded_mutation_def)
  have "replay_lines f [?t (encode_header h)] SessionState_new (map ?t (vs @ [v]) @ [?t v']) =
      Err (InvalidSession (NotConsecutive ?n ?n))"
    using replay_lines_printed [OF _ fold, of "[?t (encode_header h)]" "[?t v']"] printed again
    by (simp add: printable_def)
  with open_content_lines [OF split assms(2) printed(1)] have
    "open_content f path (js_file (fst (persist (fenv f) Written v' (fst failed)))) =
      Err (InvalidSession (NotConsecutive ?n ?n))" by simp
  moreover have "snd (persist (fenv f) Written v' (fst failed)) = Ok ()"
    using m' by (simp add: failed persist_Written)
  ultimately show ?thesis using failed by auto
qed

theorem retained_line_corrupts_log_witness:
  "\<exists>n. open_content numeral_factory ''p'' (js_file (fst (persist (fenv numeral_factory) Written
      (encode_name_fact 1 (Some ''b'')) (fst (persist (fenv numeral_factory)
        (WriteFailed (Suc (length (to_text (fenv numeral_factory) (encode_name_fact 1 None)))) 0)
        (encode_name_fact 1 None) sample_created))))) = Err (InvalidSession (NotConsecutive n n))"
proof -
  have state: "js_state sample_created = SessionState_new"
    by (simp add: sample_created_def create_with_def read_file_def Let_def)
  have ok: "snd (persist (fenv numeral_factory) Written (encode_name_fact 1 name) sample_created) = Ok ()" for name
    using validate_encoded_name [of SessionState_new "codec (fenv numeral_factory)" name]
    by (simp add: persist_Ok_iff state) (simp add: SessionState_new_def MAX_SAFE_INTEGER_def)
  have "last_sequence sample_created < MAX_SAFE_INTEGER"
    by (simp add: last_sequence_def state SessionState_new_def MAX_SAFE_INTEGER_def)
  with retained_line_corrupts_log [OF create_agrees(1) [OF sample_create] sample_header_ok _ ok ok lessI,
      where path = "''p''"] numeral_printable
  show ?thesis by auto
qed

end
