(* ===== verification/Messages.thy ===== *)
theory Messages
  imports Session_Store
begin

text \<open>
  The transcript messages of \<^verbatim>\<open>crates/protocol\<close>: content blocks, message content, slash-command
  input and output, their textual projections and the small parsers in front of a run. Payloads
  the program only carries (structured JSON, token usage, provider-native messages, extension
  details) are kept as the JSON they serialize to.
\<close>

section \<open>message.rs: blocks\<close>

datatype embedded_resource_content = ErcText string | ErcBlob string

datatype content_block =
    CbText string
  | CbReasoning string
  | CbImage string string
  | CbAudio string string
  | CbEmbeddedResource string "string option" embedded_resource_content
  | CbResourceLink "string option" string string "string option" "string option" "string option" "nat option"
  | CbStructured json
  | CbToolCall string string json "string option"

fun block_text :: "content_block \<Rightarrow> string option" where
  "block_text (CbText t) = Some t"
| "block_text (CbReasoning t) = None"
| "block_text (CbImage d m) = None"
| "block_text (CbAudio d m) = None"
| "block_text (CbEmbeddedResource u m c) = None"
| "block_text (CbResourceLink s u n t d m k) = None"
| "block_text (CbStructured v) = None"
| "block_text (CbToolCall i n a x) = None"

definition joined_text :: "content_block list \<Rightarrow> string option" where
  "joined_text blocks =
     (let text = concat (List.map_filter block_text blocks) in if text = [] then None else Some text)"

section \<open>slash_command.rs\<close>

datatype slash_command_source = ScBuiltin | ScExtension | ScSkill | ScPromptTemplate

datatype slash_command_status = ScSucceeded | ScFailed | ScCancelled

record slash_command_invocation =
  sci_original :: string
  sci_name :: string
  sci_arguments :: string

datatype slash_command_parse_error = NotCommand | EmptyName

text \<open>\<^verbatim>\<open>split_once(' ')\<close> with the whole string and no tail when there is no blank.\<close>

definition split_once_blank :: "string \<Rightarrow> string \<times> string" where
  "split_once_blank s = (takeWhile (\<lambda>c. c \<noteq> CHR '' '') s, drop 1 (dropWhile (\<lambda>c. c \<noteq> CHR '' '') s))"

definition slash_command_try_from ::
    "string \<Rightarrow> (slash_command_invocation, slash_command_parse_error) result" where
  "slash_command_try_from input =
     and_then (ok_or NotCommand (strip_prefix ''/'' input)) (\<lambda>command.
       let (name, arguments) = split_once_blank command in
       if name = [] then Err EmptyName
       else Ok \<lparr>sci_original = input, sci_name = name, sci_arguments = arguments\<rparr>)"

record slash_command_expansion =
  sce_invocation :: slash_command_invocation
  sce_source :: slash_command_source
  sce_model_blocks :: "content_block list"

record slash_command_output =
  sco_command :: string
  sco_source :: slash_command_source
  sco_status :: slash_command_status
  sco_blocks :: "content_block list"

datatype slash_command_message =
    ScmInvocation slash_command_invocation slash_command_source
  | ScmOutput slash_command_output

fun slash_message_text :: "slash_command_message \<Rightarrow> string option" where
  "slash_message_text (ScmInvocation invocation source) = Some (sci_original invocation)"
| "slash_message_text (ScmOutput out) = joined_text (sco_blocks out)"

section \<open>message.rs: messages\<close>

record message_identity =
  mi_message_id :: message_id
  mi_turn_id :: turn_id

record message_timing =
  mt_timestamp_ms :: nat
  mt_started_at_ms :: nat
  mt_ended_at_ms :: nat

definition message_timing_try_from :: "nat \<Rightarrow> nat \<Rightarrow> nat \<Rightarrow> (message_timing, nat \<times> nat) result" where
  "message_timing_try_from timestamp started ended =
     (if ended < started then Err (started, ended)
      else Ok \<lparr>mt_timestamp_ms = timestamp, mt_started_at_ms = started, mt_ended_at_ms = ended\<rparr>)"

datatype stop_reason = EndTurn | ToolUse | MaxTokens | Refusal | StopError | StopCancelled

record assistant_metadata =
  am_provider_id :: string
  am_model_id :: string
  am_stop_reason :: stop_reason
  am_raw_stop_reason :: "string option"
  am_usage :: json
  am_error :: "string option"
  am_context_overflow :: bool

record extension_message =
  em_extension_id :: string
  em_custom_type :: string
  em_blocks :: "content_block list"
  em_display :: bool
  em_include_in_context :: bool
  em_details :: "json option"

record compaction_summary_message =
  csm_entry_id :: entry_id
  csm_summary :: string
  csm_tokens_before :: nat
  csm_read_files :: "string list"
  csm_modified_files :: "string list"

definition compaction_model_text :: "compaction_summary_message \<Rightarrow> string" where
  "compaction_model_text m =
     ''The conversation history before this point was compacted from '' @ decimal (csm_tokens_before m) @
     '' tokens into the following summary:'' @ [newline, newline] @ ''<summary>'' @ [newline] @
     csm_summary m @ [newline] @ ''</summary>''"

datatype user_bash_disposition = UbCompleted | UbBlocked string

record user_bash_result =
  ub_disposition :: user_bash_disposition
  ub_output :: string
  ub_exit_code :: "int option"
  ub_signal :: "string option"
  ub_cancelled :: bool
  ub_truncated :: bool
  ub_full_output_path :: "string option"

record bash_execution_message =
  be_command :: string
  be_result :: user_bash_result
  be_exclude_from_context :: bool
  be_cwd :: "string option"

definition decimal_int :: "int \<Rightarrow> string" where
  "decimal_int i = (if i < 0 then ''-'' @ decimal (nat (- i)) else decimal (nat i))"

definition bash_model_text :: "bash_execution_message \<Rightarrow> string" where
  "bash_model_text m =
     (let r = be_result m in
      ''Ran `'' @ be_command m @ ''`'' @ [newline] @
      (if ub_output r = [] then ''(no output)''
       else ''```'' @ [newline] @ ub_output r @ [newline] @ ''```'') @
      (if ub_cancelled r then [newline, newline] @ ''(command cancelled)''
       else case ub_exit_code r of
           None \<Rightarrow> []
         | Some code \<Rightarrow> if code = 0 then []
             else [newline, newline] @ ''Command exited with code '' @ decimal_int code) @
      (if ub_truncated r then (case ub_full_output_path r of
           None \<Rightarrow> []
         | Some path \<Rightarrow> [newline, newline] @ ''[Output truncated. Full output: '' @ path @ '']'')
       else []))"

datatype message_content =
    McSystem "content_block list"
  | McUser "content_block list"
  | McExpandedUser slash_command_expansion
  | McAssistant "content_block list" assistant_metadata "json option"
  | McToolResult string "content_block list" bool "json option" "json option" bool
  | McBashExecution bash_execution_message
  | McExtension extension_message
  | McSlashCommand slash_command_message
  | McCompactionSummary compaction_summary_message

datatype role = RoleSystem | RoleUser | RoleAssistant

fun content_role :: "message_content \<Rightarrow> role option" where
  "content_role (McSystem b) = Some RoleSystem"
| "content_role (McUser b) = Some RoleUser"
| "content_role (McExpandedUser e) = Some RoleUser"
| "content_role (McAssistant b m n) = Some RoleAssistant"
| "content_role (McToolResult i b e d out c) = None"
| "content_role (McBashExecution b) = None"
| "content_role (McExtension e) = None"
| "content_role (McSlashCommand m) = None"
| "content_role (McCompactionSummary c) = None"

fun content_discriminant :: "message_content \<Rightarrow> nat" where
  "content_discriminant (McSystem b) = 0"
| "content_discriminant (McUser b) = 1"
| "content_discriminant (McExpandedUser e) = 2"
| "content_discriminant (McAssistant b m n) = 3"
| "content_discriminant (McToolResult i b e d out c) = 4"
| "content_discriminant (McBashExecution b) = 5"
| "content_discriminant (McExtension e) = 6"
| "content_discriminant (McSlashCommand m) = 7"
| "content_discriminant (McCompactionSummary c) = 8"

definition same_role :: "message_content \<Rightarrow> message_content \<Rightarrow> bool" where
  "same_role a b \<longleftrightarrow>
     (case (content_role a, content_role b) of
        (Some r, Some r') \<Rightarrow> r = r'
      | _ \<Rightarrow> content_discriminant a = content_discriminant b)"

fun text_content :: "message_content \<Rightarrow> string option" where
  "text_content (McSystem blocks) = joined_text blocks"
| "text_content (McUser blocks) = joined_text blocks"
| "text_content (McExpandedUser e) = joined_text (sce_model_blocks e)"
| "text_content (McAssistant blocks m n) = joined_text blocks"
| "text_content (McToolResult i blocks e d out c) = joined_text blocks"
| "text_content (McBashExecution b) = Some (bash_model_text b)"
| "text_content (McExtension e) = None"
| "text_content (McSlashCommand m) = slash_message_text m"
| "text_content (McCompactionSummary c) = Some (csm_summary c)"

record agent_message =
  msg_identity :: message_identity
  msg_timing :: message_timing
  msg_content :: message_content

fun is_assistant :: "message_content \<Rightarrow> bool" where
  "is_assistant (McAssistant b m n) \<longleftrightarrow> True"
| "is_assistant _ \<longleftrightarrow> False"

fun is_tool_result :: "message_content \<Rightarrow> bool" where
  "is_tool_result (McToolResult i b e d out c) \<longleftrightarrow> True"
| "is_tool_result _ \<longleftrightarrow> False"

text \<open>The lines of a text without their line ends, then \<^verbatim>\<open>chars().take(80)\<close> of the first that is
  not blank: a character is a byte that does not continue one, with the bytes that do.\<close>

fun take_chars :: "nat \<Rightarrow> string \<Rightarrow> string" where
  "take_chars n [] = []"
| "take_chars n (c # s) =
     (if 128 \<le> byte c \<and> byte c < 192 then c # take_chars n s
      else case n of 0 \<Rightarrow> [] | Suc k \<Rightarrow> c # take_chars k s)"

definition text_lines :: "string \<Rightarrow> string list" where
  "text_lines s =
     (let pieces = split_on newline s;
          strip = (\<lambda>l. if l \<noteq> [] \<and> last l = CHR 0x0D then butlast l else l)
      in map strip (butlast pieces) @ (if last pieces = [] then [] else [last pieces]))"

definition first_line :: "string \<Rightarrow> string option" where
  "first_line text = map_option (take_chars 80) (find (\<lambda>l. l \<noteq> []) (map trim (text_lines text)))"

fun find_map :: "('a \<Rightarrow> 'b option) \<Rightarrow> 'a list \<Rightarrow> 'b option" where
  "find_map f [] = None"
| "find_map f (x # xs) = (case f x of None \<Rightarrow> find_map f xs | Some y \<Rightarrow> Some y)"

fun default_title :: "message_content \<Rightarrow> string option" where
  "default_title (McUser blocks) = find_map first_line (List.map_filter block_text blocks)"
| "default_title (McExpandedUser e) = first_line (sci_original (sce_invocation e))"
| "default_title _ = None"

section \<open>session.rs and queue.rs\<close>

record user_bash_input =
  ubi_command :: string
  ubi_exclude_from_context :: bool

definition parse_prefixed :: "string \<Rightarrow> user_bash_input option" where
  "parse_prefixed input =
     (let exclude = starts_with ''!!'' input in
      Option.bind (strip_prefix (if exclude then ''!!'' else ''!'') input) (\<lambda>rest.
        let command = trim rest in
        if command = [] then None
        else Some \<lparr>ubi_command = command, ubi_exclude_from_context = exclude\<rparr>))"

datatype queue_kind = Steering | FollowUp

fun queue_kind_name :: "queue_kind \<Rightarrow> string" where
  "queue_kind_name Steering = ''steering''"
| "queue_kind_name FollowUp = ''followUp''"

record queued_message =
  qm_queue_id :: queue_id
  qm_kind :: queue_kind
  qm_message :: agent_message
  qm_submission_id :: "string option"

record pending_messages =
  pm_steering :: "queued_message list"
  pm_follow_up :: "queued_message list"

datatype session_mode = ModeDefault | ModePlan

fun session_mode_name :: "session_mode \<Rightarrow> string" where
  "session_mode_name ModeDefault = ''default''"
| "session_mode_name ModePlan = ''plan''"

section \<open>Kernel errors\<close>

text \<open>\<^verbatim>\<open>KernelError\<close> as far as the modelled operations raise or inspect it.\<close>

datatype kernel_error =
    PromptCancelled
  | SessionPersistenceUncertain
  | SessionNotFound session_id
  | SessionClosing
  | SessionStarting
  | SessionNotRunning session_id
  | ExtensionBlocked string
  | ModelAuthRequired string
  | ModelCancelled
  | ToolCancelled
  | StoreFailed store_error
  | ProtocolError string
  | PlanApprovalResolved string
  | OtherError string

text \<open>\<open>describe\<close> is the error's \<^verbatim>\<open>Display\<close> text.\<close>

fun for_insertion :: "(kernel_error \<Rightarrow> string) \<Rightarrow> kernel_error \<Rightarrow> kernel_error" where
  "for_insertion describe PromptCancelled = PromptCancelled"
| "for_insertion describe SessionPersistenceUncertain = SessionPersistenceUncertain"
| "for_insertion describe (SessionNotFound s) = SessionNotFound s"
| "for_insertion describe SessionClosing = SessionClosing"
| "for_insertion describe (ExtensionBlocked r) = ExtensionBlocked r"
| "for_insertion describe (ModelAuthRequired r) = ModelAuthRequired r"
| "for_insertion describe other = ProtocolError (describe other)"

fun is_cancellation :: "kernel_error \<Rightarrow> bool" where
  "is_cancellation PromptCancelled \<longleftrightarrow> True"
| "is_cancellation ModelCancelled \<longleftrightarrow> True"
| "is_cancellation ToolCancelled \<longleftrightarrow> True"
| "is_cancellation _ \<longleftrightarrow> False"

section \<open>Lemmas\<close>

interpretation session_mode_names: wire_names "[ModeDefault, ModePlan]" session_mode_name
proof
  show "x \<in> set [ModeDefault, ModePlan]" for x by (cases x) simp_all
qed simp

interpretation queue_kind_names: wire_names "[Steering, FollowUp]" queue_kind_name
proof
  show "x \<in> set [Steering, FollowUp]" for x by (cases x) simp_all
qed simp

lemma split_once_blank_rejoin:
  "CHR '' '' \<in> set s \<Longrightarrow> fst (split_once_blank s) @ '' '' @ snd (split_once_blank s) = s"
proof -
  assume "CHR '' '' \<in> set s"
  then have d: "dropWhile (\<lambda>c. c \<noteq> CHR '' '') s \<noteq> []" by (simp add: dropWhile_eq_Nil_conv)
  then have "hd (dropWhile (\<lambda>c. c \<noteq> CHR '' '') s) = CHR '' ''" using hd_dropWhile [OF d] by simp
  with d have "'' '' @ drop 1 (dropWhile (\<lambda>c. c \<noteq> CHR '' '') s) = dropWhile (\<lambda>c. c \<noteq> CHR '' '') s"
    by (cases "dropWhile (\<lambda>c. c \<noteq> CHR '' '') s") simp_all
  then show ?thesis by (simp add: split_once_blank_def)
qed

text \<open>An accepted slash command is its name and its arguments, separated by the first blank, after
  the slash; the name is not empty and holds no blank, and the original text is kept.\<close>

lemma slash_command_parse_print:
  assumes "slash_command_try_from input = Ok cmd"
  shows "sci_original cmd = input \<and> sci_name cmd \<noteq> [] \<and> CHR '' '' \<notin> set (sci_name cmd) \<and>
    (input = ''/'' @ sci_name cmd \<and> sci_arguments cmd = [] \<or>
     input = ''/'' @ sci_name cmd @ '' '' @ sci_arguments cmd)"
proof -
  from assms obtain command where c: "input = ''/'' @ command"
    and inv: "cmd = \<lparr>sci_original = input, sci_name = fst (split_once_blank command),
      sci_arguments = snd (split_once_blank command)\<rparr>" "fst (split_once_blank command) \<noteq> []"
    by (auto simp: slash_command_try_from_def result_simps str_simps split_once_blank_def split: if_splits)
  have "CHR '' '' \<notin> set (fst (split_once_blank command))"
    by (auto simp: split_once_blank_def dest: set_takeWhileD)
  moreover have "fst (split_once_blank command) = command \<and> snd (split_once_blank command) = []"
    if "CHR '' '' \<notin> set command"
  proof -
    have "dropWhile (\<lambda>c. c \<noteq> CHR '' '') command = []" using that by (auto simp: dropWhile_eq_Nil_conv)
    moreover have "takeWhile (\<lambda>c. c \<noteq> CHR '' '') command = command"
      using that by (auto simp: takeWhile_eq_all_conv)
    ultimately show ?thesis unfolding split_once_blank_def by (simp only: fst_conv snd_conv drop_Nil)
  qed
  ultimately show ?thesis using c inv split_once_blank_rejoin [of command]
    by (cases "CHR '' '' \<in> set command") auto
qed

end
