(* ===== verification/Plan_Mode.thy ===== *)
theory Plan_Mode
  imports Messages
begin

text \<open>
  Plan mode of \<^verbatim>\<open>crates/kernel/src/runtime/plan\<close>: the persisted mode switch, the note that states
  a mode in model context, the notes that wait behind tool calls, and the plan that waits for
  the user's decision.
\<close>

section \<open>mod.rs: mode switches\<close>

definition SLUG :: string where
  "SLUG = ''clawcode''"

definition MODE_CUSTOM_TYPE :: string where
  "MODE_CUSTOM_TYPE = ''session_mode''"

record mode_change =
  mc_mode :: session_mode
  mc_turn_id :: turn_id

definition mode_change_payload :: "mode_change \<Rightarrow> json" where
  "mode_change_payload c = JObject
     [(''extensionId'', JString SLUG), (''customType'', JString MODE_CUSTOM_TYPE),
      (''data'', JObject [(''mode'', JString (session_mode_name (mc_mode c))),
                          (''turnId'', JString (mc_turn_id c))])]"

definition decode_session_mode :: "json \<Rightarrow> session_mode option" where
  "decode_session_mode v = decode_variant [ModeDefault, ModePlan] session_mode_name v"

definition mode_change_from_entry :: "session_entry \<Rightarrow> mode_change option" where
  "mode_change_from_entry e =
     (if se_kind e \<noteq> EkCustom \<or>
         Option.bind (map_of (se_payload e) ''extensionId'') as_str \<noteq> Some SLUG \<or>
         Option.bind (map_of (se_payload e) ''customType'') as_str \<noteq> Some MODE_CUSTOM_TYPE
      then None
      else let data = map_of (se_payload e) ''data'';
               mode = Option.bind (Option.bind data (json_get ''mode'')) decode_session_mode;
               turn = Option.bind (Option.bind (Option.bind data (json_get ''turnId'')) as_str)
                        (\<lambda>s. result_ok (id_try_from ''turn'' s))
           in case (mode, turn) of
                (Some m, Some t) \<Rightarrow> Some \<lparr>mc_mode = m, mc_turn_id = t\<rparr>
              | _ \<Rightarrow> None)"

definition branch_mode :: "session_entry list \<Rightarrow> session_mode" where
  "branch_mode entries =
     (case find_map mode_change_from_entry (rev entries) of
        None \<Rightarrow> ModeDefault | Some c \<Rightarrow> mc_mode c)"

section \<open>note.rs: the note for a mode\<close>

definition ENTER_NOTE :: string where
  "ENTER_NOTE = ''Plan mode is active. Research and plan, but change nothing: edit, write, and other tools that modify files are refused, and bash accepts only read-only commands such as ls, cat, grep, find, and git log. Investigate the code and ask the user about anything unclear. When the plan is complete, call exit_plan_mode with the full plan as Markdown in its `plan` argument and wait for the user's decision. Do not claim to have started the work.''"

definition ENTER_DELEGATED_NOTE :: string where
  "ENTER_DELEGATED_NOTE = ''Plan mode is active. Research only and change nothing: edit, write, and other tools that modify files are refused, and bash accepts only read-only commands. Investigate the task and give your findings as your final reply to the parent session.''"

definition EXIT_NOTE :: string where
  "EXIT_NOTE = ''Plan mode has ended; you may edit files now.''"

record mode_note =
  mn_mode :: session_mode
  mn_delegated :: bool

definition mode_note_text :: "mode_note \<Rightarrow> string" where
  "mode_note_text n =
     (case (mn_mode n, mn_delegated n) of
        (ModePlan, False) \<Rightarrow> ENTER_NOTE
      | (ModePlan, True) \<Rightarrow> ENTER_DELEGATED_NOTE
      | (ModeDefault, _) \<Rightarrow> EXIT_NOTE)"

definition mode_note_message ::
    "mode_note \<Rightarrow> string \<Rightarrow> turn_id \<Rightarrow> nat \<Rightarrow> (agent_message, kernel_error) result" where
  "mode_note_message n message_id turn at =
     (case id_try_from ''message'' message_id of
        Err e \<Rightarrow> Err (ProtocolError ''message id'')
      | Ok mid \<Rightarrow>
         (case message_timing_try_from at at at of
            Err e \<Rightarrow> Err (ProtocolError ''message timing'')
          | Ok timing \<Rightarrow>
              Ok \<lparr>msg_identity = \<lparr>mi_message_id = mid, mi_turn_id = turn\<rparr>, msg_timing = timing,
                  msg_content = McExtension \<lparr>em_extension_id = SLUG, em_custom_type = MODE_CUSTOM_TYPE,
                    em_blocks = [CbText (mode_note_text n)], em_display = False,
                    em_include_in_context = True,
                    em_details = Some (JObject [(''mode'', JString (session_mode_name (mn_mode n)))])\<rparr>\<rparr>))"

fun stated_mode :: "message_content \<Rightarrow> session_mode option" where
  "stated_mode (McExtension e) =
     (if em_custom_type e = MODE_CUSTOM_TYPE \<and> em_extension_id e = SLUG
      then Option.bind (Option.bind (em_details e) (json_get ''mode'')) decode_session_mode
      else None)"
| "stated_mode _ = None"

section \<open>note.rs: notes that wait\<close>

type_synonym mode_notes = "agent_message list"

text \<open>The calls of the last assistant message that no later message answers.\<close>

definition tool_calls :: "content_block list \<Rightarrow> string list" where
  "tool_calls blocks =
     List.map_filter (\<lambda>b. case b of CbToolCall i n a x \<Rightarrow> Some i | _ \<Rightarrow> None) blocks"

fun answered_call :: "message_content \<Rightarrow> string option" where
  "answered_call (McToolResult i b e d out c) = Some i"
| "answered_call _ = None"

fun assistant_blocks :: "message_content \<Rightarrow> content_block list" where
  "assistant_blocks (McAssistant blocks m n) = blocks"
| "assistant_blocks _ = []"

definition awaiting_results :: "agent_message list \<Rightarrow> bool" where
  "awaiting_results history =
     (let after = takeWhile (\<lambda>m. \<not> is_assistant (msg_content m)) (rev history);
          rest = drop (length after) (rev history)
      in case rest of
           [] \<Rightarrow> False
         | a # _ \<Rightarrow>
             (let answered = List.map_filter (\<lambda>m. answered_call (msg_content m)) after
              in list_ex (\<lambda>i. i \<notin> set answered) (tool_calls (assistant_blocks (msg_content a)))))"

definition notes_place ::
    "agent_message \<Rightarrow> agent_message list \<times> mode_notes \<Rightarrow> agent_message list \<times> mode_notes" where
  "notes_place note = (\<lambda>(history, deferred).
     if awaiting_results history then (history, deferred @ [note]) else (history @ [note], deferred))"

definition notes_push ::
    "agent_message \<Rightarrow> agent_message list \<times> mode_notes \<Rightarrow> agent_message list \<times> mode_notes" where
  "notes_push message = (\<lambda>(history, deferred).
     let tool_result = is_tool_result (msg_content message);
         (history, deferred) = (if tool_result then (history, deferred) else (history @ deferred, []));
         history = history @ [message]
     in if tool_result \<and> \<not> awaiting_results history then (history @ deferred, []) else (history, deferred))"

definition after_compaction ::
    "mode_note \<Rightarrow> entry_id \<Rightarrow> agent_message list \<times> mode_notes
      \<Rightarrow> (agent_message list \<times> mode_notes, kernel_error) result" where
  "after_compaction n compaction_entry_id = (\<lambda>(context, notes).
     let stated = (case find_map (\<lambda>m. stated_mode (msg_content m)) (rev context) of
           None \<Rightarrow> ModeDefault | Some m \<Rightarrow> m)
     in case context of
          [] \<Rightarrow> Ok (context, notes)
        | summary # _ \<Rightarrow>
            if stated = mn_mode n then Ok (context, notes)
            else and_then (mode_note_message n (''session-mode-'' @ compaction_entry_id)
                   (mi_turn_id (msg_identity summary)) (mt_ended_at_ms (msg_timing summary)))
                 (\<lambda>note. Ok (notes_place note (context, notes))))"

section \<open>mod.rs: the waiting plan\<close>

record plan_request =
  pr_request_id :: string
  pr_tool_call_id :: string
  pr_plan :: string

datatype plan_decision = PlanApproved | PlanRejected "string option" | PlanCancelled

text \<open>
  The waiting plan with whether its wait still listens. A wait listens until it is dropped, and
  dropping it forgets its own plan.
\<close>

record plan_state =
  ps_mode :: session_mode
  ps_approval :: "plan_request option"
  ps_waits :: "string list"

definition plan_state_new :: "session_mode \<Rightarrow> plan_state" where
  "plan_state_new mode = \<lparr>ps_mode = mode, ps_approval = None, ps_waits = []\<rparr>"

definition plan_begin :: "plan_request \<Rightarrow> plan_state \<Rightarrow> plan_state \<times> bool" where
  "plan_begin request st =
     (if ps_approval st \<noteq> None then (st, False)
      else (st\<lparr>ps_approval := Some request, ps_waits := pr_request_id request # ps_waits st\<rparr>, True))"

definition plan_resolve ::
    "string \<Rightarrow> plan_state \<Rightarrow> plan_state \<times> (unit, kernel_error) result" where
  "plan_resolve request_id st =
     (case ps_approval st of
        None \<Rightarrow> (st, Err (PlanApprovalResolved request_id))
      | Some pending \<Rightarrow>
          if pr_request_id pending \<noteq> request_id then (st, Err (PlanApprovalResolved request_id))
          else (st\<lparr>ps_approval := None\<rparr>,
                if request_id \<in> set (ps_waits st) then Ok () else Err (PlanApprovalResolved request_id)))"

definition plan_drop_wait :: "string \<Rightarrow> plan_state \<Rightarrow> plan_state" where
  "plan_drop_wait request_id st =
     st\<lparr>ps_approval := (case ps_approval st of
          None \<Rightarrow> None
        | Some pending \<Rightarrow> if pr_request_id pending = request_id then None else Some pending),
        ps_waits := remove1 request_id (ps_waits st)\<rparr>"

definition plan_replace_mode :: "session_mode \<Rightarrow> plan_state \<Rightarrow> plan_state" where
  "plan_replace_mode mode st = st\<lparr>ps_mode := mode\<rparr>"

section \<open>Specification vocabulary\<close>

definition is_note :: "agent_message \<Rightarrow> bool" where
  "is_note m \<longleftrightarrow> stated_mode (msg_content m) \<noteq> None"

datatype context_event = PlaceNote agent_message | PushMessage agent_message

fun run_context :: "context_event list \<Rightarrow> agent_message list \<times> mode_notes \<Rightarrow> agent_message list \<times> mode_notes" where
  "run_context [] s = s"
| "run_context (PlaceNote n # es) s = run_context es (notes_place n s)"
| "run_context (PushMessage m # es) s = run_context es (notes_push m s)"

fun context_event_ok :: "context_event \<Rightarrow> bool" where
  "context_event_ok (PlaceNote n) \<longleftrightarrow> is_note n"
| "context_event_ok (PushMessage m) \<longleftrightarrow> \<not> is_note m"

fun event_message :: "context_event \<Rightarrow> agent_message" where
  "event_message (PlaceNote n) = n"
| "event_message (PushMessage m) = m"

text \<open>No tool result follows a note that stands between an open tool call and its results.\<close>

definition notes_outside_batches :: "agent_message list \<Rightarrow> bool" where
  "notes_outside_batches history \<longleftrightarrow>
     (\<forall>xs n ns r ys. history = xs @ [n] @ ns @ [r] @ ys \<and> is_note n \<and> list_all is_note ns \<and>
        is_tool_result (msg_content r) \<longrightarrow> \<not> awaiting_results xs)"

text \<open>The notes at the end of a history stand where no result is due.\<close>

definition trailing_notes_settled :: "agent_message list \<Rightarrow> bool" where
  "trailing_notes_settled history \<longleftrightarrow>
     (\<forall>xs n ns. history = xs @ [n] @ ns \<and> is_note n \<and> list_all is_note ns \<longrightarrow> \<not> awaiting_results xs)"

definition context_inv :: "agent_message list \<times> mode_notes \<Rightarrow> bool" where
  "context_inv s \<longleftrightarrow> notes_outside_batches (fst s) \<and> trailing_notes_settled (fst s) \<and>
     list_all is_note (snd s) \<and> (snd s \<noteq> [] \<longrightarrow> awaiting_results (fst s))"

datatype plan_op = PlanBegin plan_request | PlanResolve string | PlanDrop string | PlanMode session_mode

fun run_plan_op :: "plan_op \<Rightarrow> plan_state \<Rightarrow> plan_state" where
  "run_plan_op (PlanBegin r) st = fst (plan_begin r st)"
| "run_plan_op (PlanResolve i) st = fst (plan_resolve i st)"
| "run_plan_op (PlanDrop i) st = plan_drop_wait i st"
| "run_plan_op (PlanMode m) st = plan_replace_mode m st"

definition plan_inv :: "plan_state \<Rightarrow> bool" where
  "plan_inv st \<longleftrightarrow> (case ps_approval st of None \<Rightarrow> True | Some r \<Rightarrow> pr_request_id r \<in> set (ps_waits st))"

section \<open>Mode switches\<close>

lemma decode_session_mode_name: "decode_session_mode (JString (session_mode_name m)) = Some m"
  unfolding decode_session_mode_def by (rule session_mode_names.decode_name)

lemma mode_note_message_states:
  "mode_note_message n message_id turn at = Ok m \<Longrightarrow> stated_mode (msg_content m) = Some (mn_mode n)"
  by (auto simp: mode_note_message_def id_try_from_def message_timing_try_from_def
      decode_session_mode_name split: if_splits)

text \<open>A mode switch written to the log is read back from its entry, so the mode a branch ends in
  is the mode of its last switch.\<close>

lemma mode_switch_roundtrip:
  assumes "se_kind e = EkCustom" "JObject (se_payload e) = mode_change_payload c" "\<not> is_blank (mc_turn_id c)"
  shows "mode_change_from_entry e = Some c \<and> branch_mode (es @ [e]) = mc_mode c"
proof -
  have "mode_change_from_entry e = Some c"
    using assms
    by (cases c) (simp add: mode_change_from_entry_def mode_change_payload_def id_try_from_def
        decode_session_mode_name)
  then show ?thesis by (simp add: branch_mode_def)
qed

section \<open>Notes and tool batches\<close>

lemma note_kind [simp]:
  "is_note m \<Longrightarrow> \<not> is_assistant (msg_content m)" "is_note m \<Longrightarrow> \<not> is_tool_result (msg_content m)"
  "is_note m \<Longrightarrow> answered_call (msg_content m) = None"
  by (cases "msg_content m"; simp add: is_note_def)+

lemma awaiting_results_note:
  assumes "is_note n"
  shows "awaiting_results (history @ [n]) = awaiting_results history"
  using assms by (simp add: awaiting_results_def Let_def List.map_filter_def split: list.split)

lemma awaiting_results_notes:
  "list_all is_note ns \<Longrightarrow> awaiting_results (history @ ns) = awaiting_results history"
proof (induction ns rule: rev_induct)
  case (snoc n ns)
  then show ?case using awaiting_results_note [of n "history @ ns"] by simp
qed simp

lemma trailing_settled_append:
  assumes "list_all is_note ns" "\<not> awaiting_results history"
  shows "trailing_notes_settled history \<Longrightarrow> trailing_notes_settled (history @ ns)"
  unfolding trailing_notes_settled_def
proof (intro allI impI, elim conjE)
  fix xs n ns'
  assume old: "\<forall>xs n ns. history = xs @ [n] @ ns \<and> is_note n \<and> list_all is_note ns \<longrightarrow> \<not> awaiting_results xs"
    and eq: "history @ ns = xs @ [n] @ ns'" and n: "is_note n" "list_all is_note ns'"
  from eq consider us where "xs = history @ us" "us @ [n] @ ns' = ns" | us where "history = xs @ us" "us @ ns = [n] @ ns'"
    by (auto simp: append_eq_append_conv2)
  then show "\<not> awaiting_results xs"
  proof cases
    case 1
    then have "list_all is_note us" using assms(1) by auto
    with 1(1) assms(2) awaiting_results_notes show ?thesis by simp
  next
    case 2
    show ?thesis
    proof (cases us)
      case Nil
      with 2(1) assms(2) show ?thesis by simp
    next
      case (Cons u us')
      with 2 have "u = n" "list_all is_note us'" using n(2) by auto
      with old 2(1) Cons n(1) show ?thesis by auto
    qed
  qed
qed

lemma outside_batches_snoc:
  assumes "notes_outside_batches history" "trailing_notes_settled history"
  shows "notes_outside_batches (history @ [m])"
  unfolding notes_outside_batches_def
proof (intro allI impI, elim conjE)
  fix xs n ns r ys
  assume eq: "history @ [m] = xs @ [n] @ ns @ [r] @ ys" and n: "is_note n" "list_all is_note ns"
    and r: "is_tool_result (msg_content r)"
  show "\<not> awaiting_results xs"
  proof (cases ys rule: rev_cases)
    case Nil
    with eq have "history = xs @ [n] @ ns" by simp
    with assms(2) n show ?thesis unfolding trailing_notes_settled_def by blast
  next
    case (snoc ys' y)
    with eq have "history = xs @ [n] @ ns @ [r] @ ys'" by simp
    with assms(1) n r show ?thesis unfolding notes_outside_batches_def by blast
  qed
qed

lemma outside_batches_message:
  assumes "notes_outside_batches history" "\<not> is_tool_result (msg_content m)"
  shows "notes_outside_batches (history @ [m])"
  unfolding notes_outside_batches_def
proof (intro allI impI, elim conjE)
  fix xs n us r ys
  assume eq: "history @ [m] = xs @ [n] @ us @ [r] @ ys" and n: "is_note n" "list_all is_note us"
    and r: "is_tool_result (msg_content r)"
  from r assms(2) have "r \<noteq> m" by auto
  with eq have "ys \<noteq> []" by auto
  then obtain ys' where "ys = ys' @ [m]" using eq by (cases ys rule: rev_cases) auto
  with eq have "history = xs @ [n] @ us @ [r] @ ys'" by simp
  with assms(1) n r show "\<not> awaiting_results xs" unfolding notes_outside_batches_def by blast
qed

lemma outside_batches_notes:
  assumes "notes_outside_batches history" "list_all is_note ns"
  shows "notes_outside_batches (history @ ns)"
  using assms
proof (induction ns rule: rev_induct)
  case (snoc m ns)
  then have "notes_outside_batches ((history @ ns) @ [m])" by (intro outside_batches_message) simp_all
  then show ?case by simp
qed simp

lemma trailing_settled_message:
  assumes "\<not> is_note m"
  shows "trailing_notes_settled (history @ [m])"
  unfolding trailing_notes_settled_def
proof (intro allI impI, elim conjE)
  fix xs n ns
  assume "history @ [m] = xs @ [n] @ ns" "is_note n" "list_all is_note ns"
  with assms show "\<not> awaiting_results xs" by (cases ns rule: rev_cases) auto
qed

lemma place_inv: "context_inv s \<Longrightarrow> is_note n \<Longrightarrow> context_inv (notes_place n s)"
  using trailing_settled_append [of "[n]" "fst s"] outside_batches_notes [of "fst s" "[n]"]
    awaiting_results_note [of n "fst s"]
  by (auto simp: context_inv_def notes_place_def split: prod.splits)

lemma push_inv:
  assumes "context_inv (history, deferred)" "\<not> is_note m"
  shows "context_inv (notes_push m (history, deferred))"
proof -
  have inv: "notes_outside_batches history" "trailing_notes_settled history" "list_all is_note deferred"
    "deferred \<noteq> [] \<longrightarrow> awaiting_results history" using assms(1) by (simp_all add: context_inv_def)
  note tail = trailing_settled_message [OF assms(2)]
  show ?thesis
  proof (cases "is_tool_result (msg_content m)")
    case True
    note out = outside_batches_snoc [OF inv(1,2), of m]
    show ?thesis
    proof (cases "awaiting_results (history @ [m])")
      case w: True
      then show ?thesis using True out tail inv(3) by (simp add: context_inv_def notes_push_def)
    next
      case w: False
      then show ?thesis
        using True outside_batches_notes [OF out inv(3)] trailing_settled_append [OF inv(3) w tail]
        by (simp add: context_inv_def notes_push_def)
    qed
  next
    case False
    have "notes_outside_batches ((history @ deferred) @ [m])"
      using outside_batches_message [OF outside_batches_notes [OF inv(1,3)] False] .
    with False tail [of "history @ deferred"] show ?thesis by (simp add: context_inv_def notes_push_def)
  qed
qed

lemma run_context_inv:
  "list_all context_event_ok es \<Longrightarrow> context_inv s \<Longrightarrow> context_inv (run_context es s)"
proof (induction es s rule: run_context.induct)
  case (3 m es s)
  then show ?case by (cases s) (simp add: push_inv)
qed (simp_all add: place_inv)

lemma note_order_push:
  assumes "context_inv (history, deferred)" "\<not> is_note m"
  shows "filter (\<lambda>x. \<not> is_note x) (fst (notes_push m (history, deferred))) = filter (\<lambda>x. \<not> is_note x) history @ [m]"
    and "filter is_note (fst (notes_push m (history, deferred))) @ snd (notes_push m (history, deferred)) =
      filter is_note history @ deferred"
proof -
  have "filter (\<lambda>x. \<not> is_note x) deferred = []" "filter is_note deferred = deferred"
    using assms(1) by (auto simp: context_inv_def list_all_iff filter_empty_conv filter_id_conv)
  with assms(2) show "filter (\<lambda>x. \<not> is_note x) (fst (notes_push m (history, deferred))) = filter (\<lambda>x. \<not> is_note x) history @ [m]"
    "filter is_note (fst (notes_push m (history, deferred))) @ snd (notes_push m (history, deferred)) =
      filter is_note history @ deferred"
    by (auto simp: notes_push_def Let_def)
qed

lemma note_order_place:
  assumes "context_inv (history, deferred)" "is_note n"
  shows "filter (\<lambda>x. \<not> is_note x) (fst (notes_place n (history, deferred))) = filter (\<lambda>x. \<not> is_note x) history"
    and "filter is_note (fst (notes_place n (history, deferred))) @ snd (notes_place n (history, deferred)) =
      filter is_note history @ deferred @ [n]"
  using assms by (auto simp: notes_place_def context_inv_def)

lemma run_context_order:
  assumes "list_all context_event_ok es" "context_inv s"
  shows "filter (\<lambda>x. \<not> is_note x) (fst (run_context es s)) =
      filter (\<lambda>x. \<not> is_note x) (fst s) @ filter (\<lambda>x. \<not> is_note x) (map event_message es) \<and>
    filter is_note (fst (run_context es s)) @ snd (run_context es s) =
      filter is_note (fst s) @ snd s @ filter is_note (map event_message es)"
  using assms
proof (induction es s rule: run_context.induct)
  case (2 n es s)
  then have n: "is_note n" by simp
  with 2 place_inv [of s n] note_order_place [of "fst s" "snd s" n] show ?case by simp
next
  case (3 m es s)
  then have m: "\<not> is_note m" by simp
  with 3 push_inv [of "fst s" "snd s" m] note_order_push [of "fst s" "snd s" m] show ?case by simp
qed simp



section \<open>The waiting plan\<close>

lemma run_plan_op_inv: "plan_inv st \<Longrightarrow> plan_inv (run_plan_op operation st)"
  by (cases operation)
    (auto simp: plan_inv_def plan_begin_def plan_resolve_def plan_drop_wait_def plan_replace_mode_def
      split: option.splits if_splits)

lemma run_plan_ops_inv: "plan_inv st \<Longrightarrow> plan_inv (fold run_plan_op ops st)"
  by (induction ops arbitrary: st) (simp_all add: run_plan_op_inv)


end
