(* ===== verification/Transcript.thy ===== *)
theory Transcript
  imports Plan_Mode Store_Effects
begin

text \<open>
  \<^verbatim>\<open>SessionTranscript\<close> of \<^verbatim>\<open>crates/kernel/src/runtime/session/transcript.rs\<close> and the rebuild of model
  context in \<^verbatim>\<open>replay.rs\<close>. A transcript holds the store of one lane, the model context it shows,
  the notes that wait, and the two flags that stop writes. The JSON form of a message is a
  parameter, because an assistant message carries a provider-native payload of another crate.
\<close>

section \<open>replay.rs: rebuilding context\<close>

record transcript_env =
  senv :: store_env
  encode_message :: "agent_message \<Rightarrow> json"
  decode_message :: "json \<Rightarrow> agent_message option"

type_synonym model_context = "agent_message list \<times> mode_notes"

text \<open>The context a compaction entry starts: its summary message and the tail it retains.\<close>

definition compaction_context ::
    "transcript_env \<Rightarrow> entry_id \<Rightarrow> json_map \<Rightarrow> (agent_message list, kernel_error) result" where
  "compaction_context env entry_id payload =
     (case decode_compaction (codec (senv env)) payload of
        None \<Rightarrow> Err (OtherError ''json'')
      | Some data \<Rightarrow>
         (case cp_details data of
            None \<Rightarrow> Err (ProtocolError ''compaction details are required'')
          | Some details \<Rightarrow>
             (case id_try_from ''message'' (''compaction-summary-'' @ entry_id) of
                Err e \<Rightarrow> Err (ProtocolError ''message id'')
              | Ok mid \<Rightarrow>
                 (case message_timing_try_from (cd_started_at_ms details) (cd_started_at_ms details)
                     (cd_ended_at_ms details) of
                    Err e \<Rightarrow> Err (ProtocolError ''message timing'')
                  | Ok timing \<Rightarrow>
                     (case those (map (decode_message env) (cp_retained_tail data)) of
                        None \<Rightarrow> Err (OtherError ''json'')
                      | Some tail \<Rightarrow>
                          Ok (\<lparr>msg_identity = \<lparr>mi_message_id = mid, mi_turn_id = cd_turn_id details\<rparr>,
                               msg_timing = timing,
                               msg_content = McCompactionSummary
                                 \<lparr>csm_entry_id = entry_id, csm_summary = cp_summary data,
                                  csm_tokens_before = cp_tokens_before data,
                                  csm_read_files = cd_read_files details,
                                  csm_modified_files = cd_modified_files details\<rparr>\<rparr> # tail))))))"

definition rebuild_entry ::
    "transcript_env \<Rightarrow> bool \<Rightarrow> model_context \<times> session_mode \<Rightarrow> session_entry
      \<Rightarrow> (model_context \<times> session_mode, kernel_error) result" where
  "rebuild_entry env delegated = (\<lambda>(ctx, mode) e.
     case se_kind e of
       EkMessage \<Rightarrow>
        (case decode_message env (JObject (se_payload e)) of
           None \<Rightarrow> Err (StoreFailed (InvalidSession (InvalidMessageEntry (se_id e))))
         | Some m \<Rightarrow> Ok (notes_push m ctx, mode))
     | EkCompaction \<Rightarrow>
         and_then (compaction_context env (se_id e) (se_payload e)) (\<lambda>context.
         and_then (after_compaction \<lparr>mn_mode = mode, mn_delegated = delegated\<rparr> (se_id e) (context, [])) (\<lambda>ctx'.
           Ok (ctx', mode)))
     | EkCustom \<Rightarrow>
        (case mode_change_from_entry e of
           None \<Rightarrow> Ok (ctx, mode)
         | Some change \<Rightarrow>
             and_then (mode_note_message \<lparr>mn_mode = mc_mode change, mn_delegated = delegated\<rparr>
                 (''session-mode-'' @ se_id e) (mc_turn_id change) (se_timestamp_ms e)) (\<lambda>note.
               Ok (notes_place note ctx, mc_mode change)))
     | EkModelChange \<Rightarrow> Ok (ctx, mode)
     | EkThinkingLevelChange \<Rightarrow> Ok (ctx, mode)
     | EkActiveToolsChange \<Rightarrow> Ok (ctx, mode)
     | EkBranchSummary \<Rightarrow> Ok (ctx, mode))"

definition rebuild ::
    "transcript_env \<Rightarrow> bool \<Rightarrow> session_entry list \<Rightarrow> (model_context \<times> session_mode, kernel_error) result" where
  "rebuild env delegated es = try_fold (rebuild_entry env delegated) (([], []), ModeDefault) es"

text \<open>\<open>None\<close> would be a branch walk that never ends.\<close>

definition active_branch :: "jsonl_store \<Rightarrow> lane_id \<Rightarrow> (session_entry list, store_error) result option" where
  "active_branch st lane =
     (case lane_leaf st lane of None \<Rightarrow> Some (Ok []) | Some leaf \<Rightarrow> branch st leaf)"

definition history_from_store ::
    "transcript_env \<Rightarrow> jsonl_store \<Rightarrow> lane_id \<Rightarrow> bool \<Rightarrow> (model_context, kernel_error) result option" where
  "history_from_store env st lane delegated =
     (case active_branch st lane of
        None \<Rightarrow> None
      | Some (Err e) \<Rightarrow> Some (Err (StoreFailed e))
      | Some (Ok es) \<Rightarrow> Some (and_then (rebuild env delegated es) (\<lambda>(ctx, mode). Ok ctx)))"

fun count_assistants :: "transcript_env \<Rightarrow> session_entry list \<Rightarrow> (nat, kernel_error) result" where
  "count_assistants env [] = Ok 0"
| "count_assistants env (e # es) =
     (if se_kind e \<noteq> EkMessage then count_assistants env es
      else case decode_message env (JObject (se_payload e)) of
          None \<Rightarrow> Err (StoreFailed (InvalidSession (InvalidMessageEntry (se_id e))))
        | Some m \<Rightarrow> and_then (count_assistants env es) (\<lambda>n.
            Ok (if is_assistant (msg_content m) then saturating_add_u64 n 1 else n)))"

definition replay_sequence_floor ::
    "transcript_env \<Rightarrow> jsonl_store \<Rightarrow> lane_id \<Rightarrow> (nat, kernel_error) result option" where
  "replay_sequence_floor env st lane =
     (case lane_leaf st lane of
        None \<Rightarrow> Some (Ok (last_sequence st))
      | Some leaf \<Rightarrow>
         (case branch st leaf of
            None \<Rightarrow> None
          | Some (Err e) \<Rightarrow> Some (Err (StoreFailed e))
          | Some (Ok es) \<Rightarrow> Some (and_then (count_assistants env es) (\<lambda>n.
              Ok (saturating_add_u64 (last_sequence st) n)))))"

section \<open>transcript.rs\<close>

record transcript =
  ts_lane :: lane_id
  ts_delegated :: bool
  ts_store :: jsonl_store
  ts_context :: model_context
  ts_write_failed :: bool
  ts_sealed :: bool

definition restored ::
    "transcript_env \<Rightarrow> jsonl_store \<Rightarrow> lane_id \<Rightarrow> bool \<Rightarrow> (transcript, kernel_error) result option" where
  "restored env st lane delegated =
     map_option (\<lambda>r. and_then r (\<lambda>ctx.
       Ok \<lparr>ts_lane = lane, ts_delegated = delegated, ts_store = st, ts_context = ctx,
           ts_write_failed = False, ts_sealed = False\<rparr>))
       (history_from_store env st lane delegated)"

definition writable :: "transcript \<Rightarrow> (unit, kernel_error) result" where
  "writable t =
     (if ts_sealed t then Err SessionClosing
      else if ts_write_failed t then Err SessionPersistenceUncertain
      else Ok ())"

definition seal :: "transcript \<Rightarrow> transcript" where
  "seal t = t\<lparr>ts_sealed := True\<rparr>"

text \<open>A guarded store operation whose error is passed on.\<close>

definition guarded ::
    "(jsonl_store \<Rightarrow> jsonl_store \<times> ('a, store_error) result) \<Rightarrow> transcript
      \<Rightarrow> transcript \<times> ('a, kernel_error) result" where
  "guarded operation t =
     (case writable t of
        Err e \<Rightarrow> (t, Err e)
      | Ok _ \<Rightarrow>
         (case operation (ts_store t) of
            (st, Err e) \<Rightarrow> (t\<lparr>ts_store := st\<rparr>, Err (StoreFailed e))
          | (st, Ok x) \<Rightarrow> (t\<lparr>ts_store := st\<rparr>, Ok x)))"

definition commit_setting ::
    "transcript_env \<Rightarrow> write_outcome \<Rightarrow> write_outcome \<Rightarrow> nat \<Rightarrow> new_entry \<Rightarrow> transcript
      \<Rightarrow> transcript \<times> (unit, kernel_error) result" where
  "commit_setting env w ws now entry t =
     (case writable t of
        Err e \<Rightarrow> (t, Err e)
      | Ok _ \<Rightarrow>
         (case append_entry (senv env) w now (ts_lane t) entry (ts_store t) of
            (st, Err e) \<Rightarrow> (t\<lparr>ts_store := st, ts_write_failed := True\<rparr>, Err (StoreFailed e))
          | (st, Ok _) \<Rightarrow>
             (case sync ws st of
                (st', Err e) \<Rightarrow> (t\<lparr>ts_store := st', ts_write_failed := True\<rparr>, Err (StoreFailed e))
              | (st', Ok _) \<Rightarrow> (t\<lparr>ts_store := st'\<rparr>, Ok ()))))"

fun append_records ::
    "transcript_env \<Rightarrow> nat \<Rightarrow> (new_record \<times> write_outcome) list \<Rightarrow> jsonl_store
      \<Rightarrow> jsonl_store \<times> (unit, store_error) result" where
  "append_records env now [] st = (st, Ok ())"
| "append_records env now ((r, w) # rs) st =
     (case append_record (senv env) w now r st of
        (st', Err e) \<Rightarrow> (st', Err e)
      | (st', Ok _) \<Rightarrow> append_records env now rs st')"

definition commit_records ::
    "transcript_env \<Rightarrow> write_outcome \<Rightarrow> nat \<Rightarrow> (new_record \<times> write_outcome) list \<Rightarrow> transcript
      \<Rightarrow> transcript \<times> (unit, kernel_error) result" where
  "commit_records env ws now records t =
     (case writable t of
        Err e \<Rightarrow> (t, Err e)
      | Ok _ \<Rightarrow>
         (case append_records env now records (ts_store t) of
            (st, Err e) \<Rightarrow> (t\<lparr>ts_store := st, ts_write_failed := True\<rparr>, Err SessionPersistenceUncertain)
          | (st, Ok _) \<Rightarrow>
             (case sync ws st of
                (st', Err e) \<Rightarrow> (t\<lparr>ts_store := st', ts_write_failed := True\<rparr>, Err SessionPersistenceUncertain)
              | (st', Ok _) \<Rightarrow> (t\<lparr>ts_store := st'\<rparr>, Ok ()))))"

definition message_entry :: "transcript_env \<Rightarrow> entry_id \<Rightarrow> agent_message \<Rightarrow> new_entry" where
  "message_entry env entry_id message =
     \<lparr>ne_id = entry_id, ne_kind = EkMessage, ne_payload = encode_message env message\<rparr>"

definition commit_consumed ::
    "transcript_env \<Rightarrow> write_outcome \<Rightarrow> write_outcome \<Rightarrow> nat \<Rightarrow> entry_id \<Rightarrow> agent_message \<Rightarrow> new_record
      \<Rightarrow> transcript \<Rightarrow> transcript \<times> (unit, kernel_error) result" where
  "commit_consumed env w wr now entry_id message r t =
     (case writable t of
        Err e \<Rightarrow> (t, Err e)
      | Ok _ \<Rightarrow>
         (case append_entry (senv env) w now (ts_lane t) (message_entry env entry_id message) (ts_store t) of
            (st, Err e) \<Rightarrow> (t\<lparr>ts_store := st, ts_write_failed := True\<rparr>, Err SessionPersistenceUncertain)
          | (st, Ok _) \<Rightarrow>
             (let t' = t\<lparr>ts_store := st, ts_context := notes_push message (ts_context t)\<rparr> in
              case append_record (senv env) wr now r st of
                (st', Err e) \<Rightarrow> (t'\<lparr>ts_store := st', ts_write_failed := True\<rparr>, Err SessionPersistenceUncertain)
              | (st', Ok _) \<Rightarrow> (t'\<lparr>ts_store := st'\<rparr>, Ok ()))))"

definition append_context_message ::
    "transcript_env \<Rightarrow> write_outcome \<Rightarrow> nat \<Rightarrow> entry_id \<Rightarrow> agent_message \<Rightarrow> transcript
      \<Rightarrow> transcript \<times> (unit, kernel_error) result" where
  "append_context_message env w now entry_id message t =
     (case guarded (append_entry (senv env) w now (ts_lane t) (message_entry env entry_id message)) t of
        (t', Err e) \<Rightarrow> (t', Err e)
      | (t', Ok _) \<Rightarrow> (t'\<lparr>ts_context := notes_push message (ts_context t')\<rparr>, Ok ()))"

definition append_mode_note ::
    "transcript_env \<Rightarrow> write_outcome \<Rightarrow> nat \<Rightarrow> entry_id \<Rightarrow> mode_change \<Rightarrow> transcript
      \<Rightarrow> transcript \<times> (unit, kernel_error) result" where
  "append_mode_note env w now entry_id change t =
     (case guarded (append_entry (senv env) w now (ts_lane t)
         \<lparr>ne_id = entry_id, ne_kind = EkCustom, ne_payload = mode_change_payload change\<rparr>) t of
        (t', Err e) \<Rightarrow> (t', Err e)
      | (t', Ok entry) \<Rightarrow>
         (case mode_note_message \<lparr>mn_mode = mc_mode change, mn_delegated = ts_delegated t'\<rparr>
             (''session-mode-'' @ se_id entry) (mc_turn_id change) (se_timestamp_ms entry) of
            Err e \<Rightarrow> (t', Err e)
          | Ok note \<Rightarrow> (t'\<lparr>ts_context := notes_place note (ts_context t')\<rparr>, Ok ())))"

definition append_store_only_entry ::
    "transcript_env \<Rightarrow> write_outcome \<Rightarrow> nat \<Rightarrow> new_entry \<Rightarrow> transcript
      \<Rightarrow> transcript \<times> (session_entry, kernel_error) result" where
  "append_store_only_entry env w now entry t =
     guarded (append_entry (senv env) w now (ts_lane t) entry) t"

definition transcript_append_record ::
    "transcript_env \<Rightarrow> write_outcome \<Rightarrow> nat \<Rightarrow> new_record \<Rightarrow> transcript
      \<Rightarrow> transcript \<times> (session_record, kernel_error) result" where
  "transcript_append_record env w now r t = guarded (append_record (senv env) w now r) t"

text \<open>Compaction replaces the context under the lock in which it reads the branch's mode.\<close>

definition commit_compaction ::
    "transcript_env \<Rightarrow> write_outcome \<Rightarrow> nat \<Rightarrow> new_entry \<Rightarrow> agent_message list \<Rightarrow> transcript
      \<Rightarrow> (transcript \<times> (unit, kernel_error) result) option" where
  "commit_compaction env w now entry context t =
     (case writable t of
        Err e \<Rightarrow> Some (t, Err e)
      | Ok _ \<Rightarrow>
         (case active_branch (ts_store t) (ts_lane t) of
            None \<Rightarrow> None
          | Some (Err e) \<Rightarrow> Some (t, Err (StoreFailed e))
          | Some (Ok es) \<Rightarrow>
             Some (case after_compaction \<lparr>mn_mode = branch_mode es, mn_delegated = ts_delegated t\<rparr>
                 (ne_id entry) (context, []) of
               Err e \<Rightarrow> (t, Err e)
             | Ok ctx \<Rightarrow>
                (case append_entry (senv env) w now (ts_lane t) entry (ts_store t) of
                   (st, Err e) \<Rightarrow> (t\<lparr>ts_store := st\<rparr>, Err (StoreFailed e))
                 | (st, Ok _) \<Rightarrow> (t\<lparr>ts_store := st, ts_context := ctx\<rparr>, Ok ())))))"

definition transcript_sync :: "write_outcome \<Rightarrow> transcript \<Rightarrow> transcript \<times> (unit, kernel_error) result" where
  "transcript_sync w t =
     (case sync w (ts_store t) of
        (st, Err e) \<Rightarrow> (t\<lparr>ts_store := st\<rparr>, Err (StoreFailed e))
      | (st, Ok _) \<Rightarrow> (t\<lparr>ts_store := st\<rparr>, Ok ()))"

definition transcript_set_name ::
    "transcript_env \<Rightarrow> write_outcome \<Rightarrow> string option \<Rightarrow> transcript \<Rightarrow> transcript \<times> (unit, kernel_error) result" where
  "transcript_set_name env w name t = guarded (set_name (senv env) w name) t"

definition set_default_name ::
    "transcript_env \<Rightarrow> write_outcome \<Rightarrow> string \<Rightarrow> transcript
      \<Rightarrow> transcript \<times> (string option, kernel_error) result" where
  "set_default_name env w name t =
     (case writable t of
        Err e \<Rightarrow> (t, Err e)
      | Ok _ \<Rightarrow>
          if was_named (ts_store t) then (t, Ok None)
          else case set_name (senv env) w (Some name) (ts_store t) of
              (st, Err e) \<Rightarrow> (t\<lparr>ts_store := st\<rparr>, Err (StoreFailed e))
            | (st, Ok _) \<Rightarrow> (t\<lparr>ts_store := st\<rparr>, Ok (Some name)))"

definition transcript_set_label ::
    "transcript_env \<Rightarrow> write_outcome \<Rightarrow> entry_id \<Rightarrow> string option \<Rightarrow> transcript
      \<Rightarrow> transcript \<times> (unit, kernel_error) result" where
  "transcript_set_label env w eid label t = guarded (set_label (senv env) w eid label) t"

definition transcript_append_extension_entry ::
    "transcript_env \<Rightarrow> write_outcome \<Rightarrow> nat \<Rightarrow> entry_id \<Rightarrow> extension_entry_data \<Rightarrow> transcript
      \<Rightarrow> transcript \<times> (session_entry, kernel_error) result" where
  "transcript_append_extension_entry env w now eid entry t =
     guarded (append_extension_entry (senv env) w now (ts_lane t) eid entry) t"

end
