(* ===== verification/Transcript_Props.thy ===== *)
theory Transcript_Props
  imports Transcript
begin

text \<open>
  The live context of a transcript is always the context that a rebuild from its store produces:
  each operation of the transcript keeps the two in step, whether its writes succeed or fail.
\<close>

section \<open>Specification vocabulary\<close>

text \<open>What the types of the arguments guarantee: identifiers are not blank, times fit, and payload
  keys are distinct and none of the reserved ones.\<close>

definition typed_payload :: "string list \<Rightarrow> json \<Rightarrow> bool" where
  "typed_payload reserved v \<longleftrightarrow>
     (case as_object v of None \<Rightarrow> True | Some p \<Rightarrow> payload_clear reserved p)"

definition typed_entry :: "new_entry \<Rightarrow> bool" where
  "typed_entry e \<longleftrightarrow> id_ok (ne_id e) \<and> typed_payload entry_keys (ne_payload e)"

definition typed_record :: "new_record \<Rightarrow> bool" where
  "typed_record r \<longleftrightarrow>
     id_ok (nr_id r) \<and> id_ok (nr_lane r) \<and> opt_id_ok (nr_run_id r) \<and>
     typed_payload record_keys (nr_payload r)"

text \<open>Entries a rebuild passes over.\<close>

definition silent_entry :: "new_entry \<Rightarrow> bool" where
  "silent_entry e \<longleftrightarrow>
     ne_kind e \<notin> {EkMessage, EkCompaction} \<and>
     (ne_kind e = EkCustom \<longrightarrow>
        Option.bind (json_get ''extensionId'' (ne_payload e)) as_str \<noteq> Some SLUG \<or>
        Option.bind (json_get ''customType'' (ne_payload e)) as_str \<noteq> Some MODE_CUSTOM_TYPE)"

datatype transcript_op =
    TMessage write_outcome entry_id agent_message
  | TModeNote write_outcome entry_id mode_change
  | TStoreOnly write_outcome new_entry
  | TSetting write_outcome write_outcome new_entry
  | TConsumed write_outcome write_outcome entry_id agent_message new_record
  | TRecords write_outcome "(new_record \<times> write_outcome) list"
  | TCompaction write_outcome new_entry "agent_message list"
  | TName write_outcome "string option"
  | TSync write_outcome
  | TSeal

fun run_transcript_op :: "transcript_env \<Rightarrow> nat \<Rightarrow> transcript_op \<Rightarrow> transcript \<Rightarrow> transcript option" where
  "run_transcript_op env now (TMessage w i m) t = Some (fst (append_context_message env w now i m t))"
| "run_transcript_op env now (TModeNote w i c) t = Some (fst (append_mode_note env w now i c t))"
| "run_transcript_op env now (TStoreOnly w e) t = Some (fst (append_store_only_entry env w now e t))"
| "run_transcript_op env now (TSetting w ws e) t = Some (fst (commit_setting env w ws now e t))"
| "run_transcript_op env now (TConsumed w wr i m r) t = Some (fst (commit_consumed env w wr now i m r t))"
| "run_transcript_op env now (TRecords ws rs) t = Some (fst (commit_records env ws now rs t))"
| "run_transcript_op env now (TCompaction w e c) t = map_option fst (commit_compaction env w now e c t)"
| "run_transcript_op env now (TName w n) t = Some (fst (transcript_set_name env w n t))"
| "run_transcript_op env now (TSync w) t = Some (fst (transcript_sync w t))"
| "run_transcript_op env now TSeal t = Some (seal t)"

definition typed_message :: "transcript_env \<Rightarrow> entry_id \<Rightarrow> agent_message \<Rightarrow> bool" where
  "typed_message env i m \<longleftrightarrow> typed_entry (message_entry env i m) \<and>
     decode_message env (encode_message env m) = Some m"

fun typed_op :: "transcript_env \<Rightarrow> transcript_op \<Rightarrow> bool" where
  "typed_op env (TMessage w i m) \<longleftrightarrow> typed_message env i m"
| "typed_op env (TModeNote w i c) \<longleftrightarrow> id_ok i \<and> id_ok (mc_turn_id c)"
| "typed_op env (TStoreOnly w e) \<longleftrightarrow> typed_entry e \<and> silent_entry e"
| "typed_op env (TSetting w ws e) \<longleftrightarrow> typed_entry e \<and> silent_entry e"
| "typed_op env (TConsumed w wr i m r) \<longleftrightarrow> typed_message env i m \<and> typed_record r"
| "typed_op env (TRecords ws rs) \<longleftrightarrow> (\<forall>rw \<in> set rs. typed_record (fst rw))"
| "typed_op env (TCompaction w e c) \<longleftrightarrow> typed_entry e \<and> ne_kind e = EkCompaction \<and>
     (\<forall>p. as_object (ne_payload e) = Some p \<longrightarrow> compaction_context env (ne_id e) p = Ok c)"
| "typed_op env (TName w n) \<longleftrightarrow> True"
| "typed_op env (TSync w) \<longleftrightarrow> True"
| "typed_op env TSeal \<longleftrightarrow> True"

fun run_transcript ::
    "transcript_env \<Rightarrow> (nat \<times> transcript_op) list \<Rightarrow> transcript \<Rightarrow> transcript option" where
  "run_transcript env [] t = Some t"
| "run_transcript env ((now, operation) # ops) t =
     Option.bind (run_transcript_op env now operation t) (run_transcript env ops)"

definition store_inv :: "lane_id \<Rightarrow> jsonl_store \<Rightarrow> bool" where
  "store_inv lane st \<longleftrightarrow> wf_state (js_state st) \<and> id_ok lane \<and> opt_id_ok (lane_leaf st lane)"

definition synced :: "transcript_env \<Rightarrow> transcript \<Rightarrow> bool" where
  "synced env t \<longleftrightarrow>
     (\<exists>es mode. active_branch (ts_store t) (ts_lane t) = Some (Ok es) \<and>
        rebuild env (ts_delegated t) es = Ok (ts_context t, mode))"

definition transcript_inv :: "transcript_env \<Rightarrow> transcript \<Rightarrow> bool" where
  "transcript_inv env t \<longleftrightarrow> store_inv (ts_lane t) (ts_store t) \<and> synced env t"

text \<open>A transcript to try the operations on.\<close>

definition sample_message :: agent_message where
  "sample_message = \<lparr>msg_identity = \<lparr>mi_message_id = ''m1'', mi_turn_id = ''t1''\<rparr>,
     msg_timing = \<lparr>mt_timestamp_ms = 7, mt_started_at_ms = 7, mt_ended_at_ms = 7\<rparr>,
     msg_content = McUser [CbText ''hi'']\<rparr>"

definition sample_tenv :: transcript_env where
  "sample_tenv = \<lparr>senv = sample_env, encode_message = (\<lambda>m. JObject []),
     decode_message = (\<lambda>v. Some sample_message)\<rparr>"

definition sample_transcript :: transcript where
  "sample_transcript = \<lparr>ts_lane = ''main'', ts_delegated = False, ts_store = sample_store,
     ts_context = ([], []), ts_write_failed = False, ts_sealed = False\<rparr>"

section \<open>The store under typed arguments\<close>

lemma append_entry_accepted:
  assumes "append_entry env w now lane e st = (st', Ok stored)"
    and "typed_entry e" "id_ok lane" "opt_id_ok (lane_leaf st lane)" "now \<le> u64_max"
  shows "w = Written \<and> entry_accepted env now lane e st"
proof -
  from assms(1) obtain parent p n where p: "entries_by_id (js_state st) (ne_id e) = None"
      "lanes (js_state st) lane = Some parent" "as_object (ne_payload e) = Some p"
      "candidate_sequence (js_state st) = Ok n"
    and stored: "stored = \<lparr>se_id = ne_id e, se_sequence = n, se_parent_id = parent, se_timestamp_ms = now,
        se_kind = ne_kind e, se_payload = p\<rparr>"
    and ok: "snd (persist env w (encode_entry_mutation \<lparr>em_lane = lane, em_entry = stored\<rparr>) st) = Ok ()"
    by (auto simp: append_entry_def Let_def split: if_splits option.splits result.splits prod.splits)
  have n: "n = Suc (next_sequence (js_state st))" "next_sequence (js_state st) < MAX_SAFE_INTEGER"
    using p(4) by (simp_all add: candidate_sequence_iff)
  have leaf: "lane_leaf st lane = parent" using p(2) by (simp add: lane_leaf_def)
  have clear: "payload_clear entry_keys p"
    using assms(2) p(3) by (simp add: typed_entry_def typed_payload_def)
  have new: "new_session_entry st now lane e = stored"
    using p(3) n(1) leaf by (simp add: new_session_entry_def stored last_sequence_def)
  from ok obtain m where w: "w = Written"
    and m: "validate (codec env) (js_state st) (encode_entry_mutation \<lparr>em_lane = lane, em_entry = stored\<rparr>) = Ok m"
    by (auto simp: persist_Ok_iff)
  have "decode_entry_mutation (encode_entry_mutation \<lparr>em_lane = lane, em_entry = stored\<rparr>) =
      Some \<lparr>em_lane = lane, em_entry = stored\<rparr>"
    using clear n assms(2-5) leaf
    by (intro entry_mutation_roundtrip) (simp_all add: stored typed_entry_def seq_ok_def)
  moreover have "json_get_str ''kind'' (encode_entry_mutation \<lparr>em_lane = lane, em_entry = stored\<rparr>) = Some ''entry''"
    using map_of_insert_all_clear [OF clear]
    by (simp add: json_get_str_def encode_entry_mutation_def Let_def entry_keys_def stored)
  ultimately have "validate_compaction (codec env) stored = Ok ()"
    using m by (auto simp: validate_def validate_entry_def result_simps split: if_splits)
  with w p clear n assms leaf new show ?thesis
    by (simp add: entry_accepted_def typed_entry_def last_sequence_def get_entry_def)
qed

lemma append_record_accepted:
  assumes "append_record env w now r st = (st', Ok stored)" "typed_record r" "now \<le> u64_max"
  shows "w = Written \<and> record_accepted now r st"
proof -
  from assms(1) obtain p n v where p: "lanes (js_state st) (nr_lane r) \<noteq> None"
      "nr_id r \<notin> used_record_ids (js_state st)" "as_object (nr_payload r) = Some p"
      "candidate_sequence (js_state st) = Ok n"
    and "persist env w v st = (st', Ok ())"
    by (auto simp: append_record_def Let_def split: if_splits option.splits result.splits prod.splits)
  then have ok: "snd (persist env w v st) = Ok ()" by simp
  have "next_sequence (js_state st) < MAX_SAFE_INTEGER" using p(4) by (simp add: candidate_sequence_iff)
  with ok p assms(2,3) show ?thesis
    by (auto simp: persist_Ok_iff record_accepted_def typed_record_def typed_payload_def last_sequence_def)
qed

lemma append_entry_Err_state:
  "append_entry env w now lane e st = (st', Err x) \<Longrightarrow> js_state st' = js_state st"
  using via_persist_Err [OF run_op_via_persist, of env w "OpAppendEntry now lane e" st x] by simp

lemma append_record_Err_state:
  "append_record env w now r st = (st', Err x) \<Longrightarrow> js_state st' = js_state st"
  using via_persist_Err [OF run_op_via_persist, of env w "OpAppendRecord now r" st x] by simp

lemma set_name_Err_state:
  "set_name env w name st = (st', Err x) \<Longrightarrow> js_state st' = js_state st"
  using via_persist_Err [OF run_op_via_persist, of env w "OpSetName name" st x] by simp

lemma sync_state: "js_state (fst (sync w st)) = js_state st"
  by (cases w) simp_all

section \<open>Branches and rebuilt context\<close>

lemma rebuild_snoc:
  "rebuild env d (es @ [e]) = and_then (rebuild env d es) (\<lambda>s. rebuild_entry env d s e)"
  unfolding rebuild_def try_fold_append by (cases "try_fold (rebuild_entry env d) (([], []), ModeDefault) es")
    (simp_all add: result_simps split: result.split, metis and_then.simps result.exhaust)

lemma find_map_snoc_mode:
  "branch_mode (es @ [e]) = (case mode_change_from_entry e of None \<Rightarrow> branch_mode es | Some c \<Rightarrow> mc_mode c)"
  by (simp add: branch_mode_def split: option.split)

lemma mode_change_custom: "mode_change_from_entry e = Some c \<Longrightarrow> se_kind e = EkCustom"
  by (auto simp: mode_change_from_entry_def split: if_splits)

lemma rebuild_mode: "rebuild env d es = Ok (ctx, mode) \<Longrightarrow> mode = branch_mode es"
proof (induction es arbitrary: ctx mode rule: rev_induct)
  case Nil
  then show ?case by (simp add: rebuild_def branch_mode_def)
next
  case (snoc e es)
  then obtain ctx' mode' where "rebuild env d es = Ok (ctx', mode')"
    and step: "rebuild_entry env d (ctx', mode') e = Ok (ctx, mode)"
    by (auto simp: rebuild_snoc result_simps)
  with snoc.IH have mode': "mode' = branch_mode es" by blast
  show ?case
  proof (cases "mode_change_from_entry e")
    case None
    with step mode' show ?thesis
      by (auto simp: rebuild_entry_def find_map_snoc_mode result_simps split: entry_kind.splits option.splits)
  next
    case (Some c)
    with step mode_change_custom [OF Some] show ?thesis
      by (auto simp: rebuild_entry_def find_map_snoc_mode result_simps)
  qed
qed

lemma active_branch_cong:
  assumes "entries_by_id (js_state st') = entries_by_id (js_state st)" "lanes (js_state st') = lanes (js_state st)"
  shows "active_branch st' lane = active_branch st lane"
  using assms branch_walk_cong [of "js_state st'" "js_state st"]
  by (simp add: active_branch_def lane_leaf_def branch_def split: option.split)

lemma store_inv_cong:
  assumes "entries_by_id (js_state st') = entries_by_id (js_state st)" "lanes (js_state st') = lanes (js_state st)"
    and "wf_state (js_state st')" "store_inv lane st"
  shows "store_inv lane st'"
  using assms by (simp add: store_inv_def lane_leaf_def)

lemma append_entry_active_branch:
  assumes "append_entry env w now lane e st = (st', Ok stored)" "store_inv lane st" "typed_entry e" "now \<le> u64_max"
    and "active_branch st lane = Some (Ok es)"
  shows "active_branch st' lane = Some (Ok (es @ [stored])) \<and> store_inv lane st' \<and>
    stored = new_session_entry st now lane e"
proof -
  have acc: "w = Written" "entry_accepted env now lane e st"
    using append_entry_accepted [OF assms(1,3)] assms(2,4) by (auto simp: store_inv_def)
  have wf: "wf_state (js_state st)" using assms(2) by (simp add: store_inv_def)
  from append_entry_effect [OF wf acc(2)] assms(1) acc(1) have eff:
    "stored = new_session_entry st now lane e"
    "\<forall>other. lane_leaf st' other = (if other = lane then Some (ne_id e) else lane_leaf st other)"
    "branch st' (ne_id e) = (case lane_leaf st lane of None \<Rightarrow> Some (Ok [stored])
      | Some leaf \<Rightarrow> map_option (\<lambda>b. Ok (the_ok b @ [stored])) (branch st leaf))" by auto
  have "wf_state (js_state st')"
    using run_op_wf [OF wf, of env w "OpAppendEntry now lane e"] assms(1) by simp
  moreover have "active_branch st' lane = Some (Ok (es @ [stored]))"
    using eff(2,3) assms(5) by (auto simp: active_branch_def split: option.splits)
  ultimately show ?thesis using eff assms(2,3) by (simp add: store_inv_def typed_entry_def opt_id_ok_def)
qed

lemma new_session_entry_fields [simp]:
  "se_kind (new_session_entry st now lane e) = ne_kind e"
  "se_id (new_session_entry st now lane e) = ne_id e"
  "se_timestamp_ms (new_session_entry st now lane e) = now"
  "se_payload (new_session_entry st now lane e) = the (as_object (ne_payload e))"
  by (simp_all add: new_session_entry_def)

lemma append_entry_object:
  "append_entry env w now lane e st = (st', Ok stored) \<Longrightarrow>
    ne_payload e = JObject (the (as_object (ne_payload e)))"
  by (auto simp: append_entry_def json_simps split: if_splits option.splits)

lemma append_record_frame:
  assumes "typed_record r" "now \<le> u64_max"
  shows "entries_by_id (js_state (fst (append_record env w now r st))) = entries_by_id (js_state st) \<and>
    lanes (js_state (fst (append_record env w now r st))) = lanes (js_state st)"
proof (cases "append_record env w now r st")
  case (Pair st' res)
  show ?thesis
  proof (cases res)
    case (Ok stored)
    with Pair append_record_accepted [of env w now r st st' stored] assms
      append_record_Ok [of now r st env] show ?thesis by simp
  next
    case (Err x)
    with Pair append_record_Err_state [of env w now r st st' x] show ?thesis by simp
  qed
qed

lemma append_records_frame:
  "\<forall>rw \<in> set rs. typed_record (fst rw) \<Longrightarrow> now \<le> u64_max \<Longrightarrow>
    entries_by_id (js_state (fst (append_records env now rs st))) = entries_by_id (js_state st) \<and>
    lanes (js_state (fst (append_records env now rs st))) = lanes (js_state st)"
proof (induction env now rs st rule: append_records.induct)
  case (2 env now r w rs st)
  then show ?case
    using append_record_frame [of r now "senv env" w st]
    by (auto split: prod.splits result.splits)
qed simp

lemma append_record_wf: "wf_state (js_state st) \<Longrightarrow> wf_state (js_state (fst (append_record env w now r st)))"
  using run_op_wf [of st env w "OpAppendRecord now r"]
  by (cases "append_record env w now r st"; cases "snd (append_record env w now r st)") auto

lemma append_records_wf: "wf_state (js_state st) \<Longrightarrow> wf_state (js_state (fst (append_records env now rs st)))"
proof (induction env now rs st rule: append_records.induct)
  case (2 env now r w rs st)
  then show ?case
    using append_record_wf [of st "senv env" w now r] by (auto split: prod.splits result.splits)
qed simp

lemma set_name_frame:
  "entries_by_id (js_state (fst (set_name env w name st))) = entries_by_id (js_state st) \<and>
    lanes (js_state (fst (set_name env w name st))) = lanes (js_state st)"
proof (cases "set_name env w name st")
  case (Pair st' res)
  show ?thesis
  proof (cases res)
    case (Ok u)
    then obtain n where n: "candidate_sequence (js_state st) = Ok n"
      "persist env w (encode_name_fact n name) st = (st', Ok u)"
      using Pair by (auto simp: set_name_def split: result.splits)
    then have w: "w = Written" using persist_Ok_iff [of env w "encode_name_fact n name" st] by simp
    have "validate (codec env) (js_state st) (encode_name_fact n name) = Ok (VName n name)"
      using validate_encoded_name [of "js_state st" "codec env" name] n(1) by (simp add: candidate_sequence_iff)
    from persist_Written [OF this] n(2) w Pair show ?thesis by auto
  next
    case (Err x)
    with Pair set_name_Err_state [of env w name st st' x] show ?thesis by simp
  qed
qed

lemma set_name_wf: "wf_state (js_state st) \<Longrightarrow> wf_state (js_state (fst (set_name env w name st)))"
  using run_op_wf [of st env w "OpSetName name"] by simp

section \<open>Every operation keeps the context in step\<close>

text \<open>Replacing the store by one with the same entries and lanes.\<close>

lemma inv_frame:
  assumes "transcript_inv env t"
    and "entries_by_id (js_state st) = entries_by_id (js_state (ts_store t)) \<and>
      lanes (js_state st) = lanes (js_state (ts_store t))"
    and "wf_state (js_state st)"
  shows "transcript_inv env (t\<lparr>ts_store := st\<rparr>)" "transcript_inv env (t\<lparr>ts_store := st, ts_write_failed := b\<rparr>)"
  using assms active_branch_cong [of st "ts_store t" "ts_lane t"] store_inv_cong [of st "ts_store t" "ts_lane t"]
  by (auto simp: transcript_inv_def synced_def)

text \<open>Appending an entry and moving the context by what a rebuild does with it.\<close>

lemma inv_append:
  assumes "transcript_inv env t" "append_entry (senv env) w now (ts_lane t) e (ts_store t) = (st, Ok stored)"
    and "typed_entry e" "now \<le> u64_max"
    and "\<And>es. active_branch (ts_store t) (ts_lane t) = Some (Ok es) \<Longrightarrow> \<exists>mode.
      rebuild_entry env (ts_delegated t) (ts_context t, branch_mode es) (new_session_entry (ts_store t) now (ts_lane t) e)
        = Ok (ctx, mode)"
  shows "transcript_inv env (t\<lparr>ts_store := st, ts_context := ctx\<rparr>)"
proof -
  from assms(1) obtain es mode where es: "active_branch (ts_store t) (ts_lane t) = Some (Ok es)"
    "rebuild env (ts_delegated t) es = Ok (ts_context t, mode)" and inv: "store_inv (ts_lane t) (ts_store t)"
    by (auto simp: transcript_inv_def synced_def)
  note branch = append_entry_active_branch [OF assms(2) inv assms(3,4) es(1)]
  from assms(5) [OF es(1)] obtain mode' where
    "rebuild_entry env (ts_delegated t) (ts_context t, branch_mode es) stored = Ok (ctx, mode')"
    using branch by auto
  with es(2) rebuild_mode [OF es(2)] have "rebuild env (ts_delegated t) (es @ [stored]) = Ok (ctx, mode')"
    by (simp add: rebuild_snoc)
  with branch show ?thesis by (auto simp: transcript_inv_def synced_def)
qed

lemma inv_append_err:
  assumes "transcript_inv env t" "append_entry (senv env) w now (ts_lane t) e (ts_store t) = (st, Err x)"
  shows "transcript_inv env (t\<lparr>ts_store := st\<rparr>)" "transcript_inv env (t\<lparr>ts_store := st, ts_write_failed := b\<rparr>)"
  using inv_frame [OF assms(1), of st] append_entry_Err_state [OF assms(2)] assms(1)
  by (auto simp: transcript_inv_def store_inv_def)

lemma ts_context_same: "t\<lparr>ts_store := st, ts_context := ts_context t\<rparr> = t\<lparr>ts_store := st\<rparr>"
  by simp

lemma inv_append_silent:
  assumes "transcript_inv env t" "append_entry (senv env) w now (ts_lane t) e (ts_store t) = (st, Ok stored)"
    and "typed_entry e" "silent_entry e" "now \<le> u64_max"
  shows "transcript_inv env (t\<lparr>ts_store := st\<rparr>)"
proof -
  note obj = append_entry_object [OF assms(2)]
  have none: "mode_change_from_entry (new_session_entry (ts_store t) now (ts_lane t) e) = None"
    using assms(4) obj by (cases "ne_payload e") (auto simp: silent_entry_def mode_change_from_entry_def)
  have "transcript_inv env (t\<lparr>ts_store := st, ts_context := ts_context t\<rparr>)"
    by (rule inv_append [OF assms(1,2,3,5)])
      (use assms(4) none in \<open>auto simp: rebuild_entry_def silent_entry_def split: entry_kind.splits\<close>)
  then show ?thesis by simp
qed

lemma inv_message:
  assumes "transcript_inv env t"
    and "append_entry (senv env) w now (ts_lane t) (message_entry env i m) (ts_store t) = (st, Ok stored)"
    and "typed_message env i m" "now \<le> u64_max"
  shows "transcript_inv env (t\<lparr>ts_store := st, ts_context := notes_push m (ts_context t)\<rparr>)"
proof (rule inv_append [OF assms(1,2) _ assms(4)])
  show "typed_entry (message_entry env i m)" using assms(3) by (simp add: typed_message_def)
  have "decode_message env (JObject (the (as_object (encode_message env m)))) = Some m"
    using append_entry_object [OF assms(2)] assms(3) by (simp add: message_entry_def typed_message_def)
  then show "\<exists>mode. rebuild_entry env (ts_delegated t) (ts_context t, branch_mode es)
      (new_session_entry (ts_store t) now (ts_lane t) (message_entry env i m)) =
      Ok (notes_push m (ts_context t), mode)" for es
    by (simp add: rebuild_entry_def message_entry_def)
qed

lemma inv_sync: "transcript_inv env t \<Longrightarrow> transcript_inv env (t\<lparr>ts_store := fst (sync w (ts_store t))\<rparr>)"
  by (rule inv_frame) (auto simp: sync_state transcript_inv_def store_inv_def)

lemma inv_failed: "transcript_inv env t \<Longrightarrow> transcript_inv env (t\<lparr>ts_write_failed := b\<rparr>)"
  by (simp add: transcript_inv_def synced_def)

text \<open>The same with the outcome of \<open>sync\<close> taken apart.\<close>

lemma inv_synced_store:
  "transcript_inv env (t\<lparr>ts_store := st\<rparr>) \<Longrightarrow> sync w st = (st', r) \<Longrightarrow>
    transcript_inv env (t\<lparr>ts_store := st'\<rparr>) \<and> transcript_inv env (t\<lparr>ts_store := st', ts_write_failed := b\<rparr>)"
  using inv_sync [of env "t\<lparr>ts_store := st\<rparr>" w] inv_failed [of env "t\<lparr>ts_store := st'\<rparr>" b]
  by (simp add: transcript_inv_def synced_def)

lemma inv_context_message:
  assumes "transcript_inv env t" "typed_message env i m" "now \<le> u64_max"
  shows "transcript_inv env (fst (append_context_message env w now i m t))"
  using assms inv_message [OF assms(1) _ assms(2,3), of w] inv_append_err(1) [OF assms(1)]
  by (auto simp: append_context_message_def guarded_def split: prod.splits result.splits)

lemma inv_mode_note:
  assumes "transcript_inv env t" "id_ok i" "id_ok (mc_turn_id c)" "now \<le> u64_max"
  shows "transcript_inv env (fst (append_mode_note env w now i c t))"
proof -
  let ?e = "\<lparr>ne_id = i, ne_kind = EkCustom, ne_payload = mode_change_payload c\<rparr>"
  have typed: "typed_entry ?e"
    using assms(2) by (simp add: typed_entry_def typed_payload_def mode_change_payload_def payload_clear_def
        keys_def entry_keys_def)
  have change: "mode_change_from_entry (new_session_entry (ts_store t) now (ts_lane t) ?e) = Some c"
    using assms(3)
    by (cases c) (simp add: mode_change_from_entry_def mode_change_payload_def id_try_from_def id_ok_def
        decode_session_mode_name)
  have blank: "\<not> is_blank (''session-mode-'' @ i)"
    unfolding append_Cons by (rule not_blank_char) (simp_all add: ws1_def)
  then obtain mn where mn: "mode_note_message \<lparr>mn_mode = mc_mode c, mn_delegated = ts_delegated t\<rparr>
      (''session-mode-'' @ i) (mc_turn_id c) now = Ok mn"
    by (simp add: mode_note_message_def id_try_from_def message_timing_try_from_def)
  have placed: "transcript_inv env (t\<lparr>ts_store := st, ts_context := notes_place mn (ts_context t)\<rparr>)"
    if "append_entry (senv env) w now (ts_lane t) ?e (ts_store t) = (st, Ok stored)" for st stored
    by (rule inv_append [OF assms(1) that typed assms(4)]) (use mn in \<open>simp add: rebuild_entry_def change\<close>)
  have stored: "se_id stored = i \<and> se_timestamp_ms stored = now"
    if "append_entry (senv env) w now (ts_lane t) ?e (ts_store t) = (st, Ok stored)" for st stored
    using that by (auto simp: append_entry_def Let_def split: if_splits option.splits result.splits prod.splits)
  show ?thesis
    using assms(1) placed stored mn inv_append_err(1) [OF assms(1)]
    by (auto simp: append_mode_note_def guarded_def split: prod.splits result.splits)
qed

lemma inv_silent_entry:
  assumes "transcript_inv env t" "typed_entry e" "silent_entry e" "now \<le> u64_max"
  shows "transcript_inv env (fst (append_store_only_entry env w now e t))"
    and "transcript_inv env (fst (commit_setting env w ws now e t))"
proof -
  note ok = inv_append_silent [OF assms(1) _ assms(2,3,4), of w] and err = inv_append_err [OF assms(1)]
  show "transcript_inv env (fst (append_store_only_entry env w now e t))"
    using assms(1) ok err(1)
    by (auto simp: append_store_only_entry_def guarded_def split: prod.splits result.splits)
  show "transcript_inv env (fst (commit_setting env w ws now e t))"
    using assms(1) inv_synced_store [OF ok] err(2)
    by (auto simp: commit_setting_def split: prod.splits result.splits)
qed

lemma inv_consumed:
  assumes "transcript_inv env t" "typed_message env i m" "typed_record r" "now \<le> u64_max"
  shows "transcript_inv env (fst (commit_consumed env w wr now i m r t))"
proof -
  have after: "transcript_inv env (t\<lparr>ts_context := notes_push m (ts_context t), ts_store := st'\<rparr>)"
    if "append_entry (senv env) w now (ts_lane t) (message_entry env i m) (ts_store t) = (st, Ok stored)"
      and "append_record (senv env) wr now r st = (st', res)" for st stored st' res
  proof -
    note inv = inv_message [OF assms(1) that(1) assms(2,4)]
    have "transcript_inv env (t\<lparr>ts_store := st, ts_context := notes_push m (ts_context t)\<rparr>\<lparr>ts_store := st'\<rparr>)"
      using append_record_frame [OF assms(3,4), of "senv env" wr st] append_record_wf [of st "senv env" wr now r]
        that(2) inv
      by (intro inv_frame [OF inv]) (auto simp: transcript_inv_def store_inv_def)
    then show ?thesis by (simp add: transcript_inv_def synced_def)
  qed
  show ?thesis
    using assms(1) after inv_failed [OF after] inv_append_err(2) [OF assms(1)]
    by (auto simp: commit_consumed_def Let_def split: prod.splits result.splits)
qed

lemma inv_records:
  assumes "transcript_inv env t" "\<forall>rw \<in> set rs. typed_record (fst rw)" "now \<le> u64_max"
  shows "transcript_inv env (fst (commit_records env ws now rs t))"
proof -
  have inv: "transcript_inv env (t\<lparr>ts_store := fst (append_records env now rs (ts_store t))\<rparr>)"
    using append_records_frame [OF assms(2,3), of env "ts_store t"] append_records_wf [of "ts_store t" env now rs] assms(1)
    by (intro inv_frame [OF assms(1)]) (auto simp: transcript_inv_def store_inv_def)
  show ?thesis
    using assms(1) inv inv_failed [OF inv, of True] inv_synced_store [OF inv]
    by (auto simp: commit_records_def split: prod.splits result.splits)
qed

lemma inv_compaction:
  assumes "transcript_inv env t" "typed_op env (TCompaction w e c)" "now \<le> u64_max"
    and "commit_compaction env w now e c t = Some (t', r)"
  shows "transcript_inv env t'"
proof -
  from assms(2) have e: "typed_entry e" "ne_kind e = EkCompaction"
    and ctx: "\<And>p. as_object (ne_payload e) = Some p \<Longrightarrow> compaction_context env (ne_id e) p = Ok c" by auto
  have placed: "transcript_inv env (t\<lparr>ts_store := st, ts_context := ctx\<rparr>)"
    if "append_entry (senv env) w now (ts_lane t) e (ts_store t) = (st, Ok stored)"
      and "active_branch (ts_store t) (ts_lane t) = Some (Ok es)"
      and "after_compaction \<lparr>mn_mode = branch_mode es, mn_delegated = ts_delegated t\<rparr> (ne_id e) (c, []) = Ok ctx"
    for st stored es ctx
  proof (rule inv_append [OF assms(1) that(1) e(1) assms(3)])
    have "compaction_context env (ne_id e) (the (as_object (ne_payload e))) = Ok c"
      using append_entry_object [OF that(1)] ctx by (cases "ne_payload e") auto
    then show "\<exists>mode. rebuild_entry env (ts_delegated t) (ts_context t, branch_mode es')
        (new_session_entry (ts_store t) now (ts_lane t) e) = Ok (ctx, mode)"
      if "active_branch (ts_store t) (ts_lane t) = Some (Ok es')" for es'
      using that \<open>active_branch _ _ = Some (Ok es)\<close> \<open>after_compaction _ _ _ = Ok ctx\<close> e(2)
      by (simp add: rebuild_entry_def)
  qed
  show ?thesis
    using assms(1,4) placed inv_append_err(1) [OF assms(1)]
    by (auto simp: commit_compaction_def split: prod.splits result.splits option.splits)
qed

lemma inv_name: "transcript_inv env t \<Longrightarrow> transcript_inv env (fst (transcript_set_name env w name t))"
proof -
  assume inv: "transcript_inv env t"
  have "transcript_inv env (t\<lparr>ts_store := fst (set_name (senv env) w name (ts_store t))\<rparr>)"
    using set_name_frame [of "senv env" w name "ts_store t"] set_name_wf [of "ts_store t" "senv env" w name] inv
    by (intro inv_frame [OF inv]) (auto simp: transcript_inv_def store_inv_def)
  with inv show ?thesis
    by (auto simp: transcript_set_name_def guarded_def split: prod.splits result.splits)
qed

lemma inv_transcript_sync: "transcript_inv env t \<Longrightarrow> transcript_inv env (fst (transcript_sync w t))"
  using inv_sync [of env t w] by (auto simp: transcript_sync_def split: prod.splits result.splits)

lemma run_transcript_op_inv:
  assumes "transcript_inv env t" "typed_op env operation" "now \<le> u64_max"
    and "run_transcript_op env now operation t = Some t'"
  shows "transcript_inv env t'"
  using assms
proof (cases operation)
  case (TCompaction w e c)
  with assms inv_compaction [OF assms(1), of w e c now] show ?thesis by auto
next
  case TSeal
  with assms show ?thesis by (auto simp: seal_def transcript_inv_def synced_def)
qed (auto intro: inv_context_message inv_mode_note inv_silent_entry inv_consumed inv_records inv_name
    inv_transcript_sync)

lemma run_transcript_op_defined:
  assumes "transcript_inv env t"
  shows "\<exists>t'. run_transcript_op env now operation t = Some t'"
  using assms
  by (cases operation)
    (auto simp: commit_compaction_def transcript_inv_def synced_def split: result.splits)

lemma run_transcript_inv:
  assumes "transcript_inv env t" "\<forall>(now, operation) \<in> set ops. typed_op env operation \<and> now \<le> u64_max"
  shows "\<exists>t'. run_transcript env ops t = Some t' \<and> transcript_inv env t'"
  using assms
proof (induction env ops t rule: run_transcript.induct)
  case (2 env now operation ops t)
  from run_transcript_op_defined [OF "2.prems"(1)] obtain t1 where
    t1: "run_transcript_op env now operation t = Some t1" by blast
  with run_transcript_op_inv [OF "2.prems"(1) _ _ t1] "2.prems"(2) have "transcript_inv env t1" by auto
  with "2.IH" [of t1] "2.prems"(2) t1 show ?case by auto
qed simp

section \<open>Properties of the transcript\<close>





end
