(* ===== verification/Waiters.thy ===== *)
theory Waiters
  imports Messages
begin

text \<open>
  The one-shot waiters of \<^verbatim>\<open>crates/kernel/src/runtime/run/insertion.rs\<close>. A waiter holds the sending
  half of a one-shot channel until the first report takes it; the receiving half may have been
  dropped by then, in which case the report goes nowhere.
\<close>

section \<open>One-shot channels\<close>

record 'r one_shot_slot =
  sl_sender :: bool
  sl_listening :: bool
  sl_received :: "'r option"

definition new_slot :: "'r one_shot_slot" where
  "new_slot = \<lparr>sl_sender = True, sl_listening = True, sl_received = None\<rparr>"

text \<open>\<^verbatim>\<open>oneshot::Sender::send\<close> on a sender taken out of the slot.\<close>

definition send :: "'r \<Rightarrow> 'r one_shot_slot \<Rightarrow> 'r one_shot_slot" where
  "send r s = s\<lparr>sl_sender := False, sl_received := if sl_listening s then Some r else None\<rparr>"

definition drop_receiver :: "'r one_shot_slot \<Rightarrow> 'r one_shot_slot" where
  "drop_receiver s = s\<lparr>sl_listening := False\<rparr>"

section \<open>insertion.rs\<close>

type_synonym insertion_notice = "(message_id, kernel_error) result one_shot_slot"

definition is_listening :: "insertion_notice \<Rightarrow> bool" where
  "is_listening n \<longleftrightarrow> sl_sender n \<and> sl_listening n"

definition settle :: "(message_id, kernel_error) result \<Rightarrow> insertion_notice \<Rightarrow> insertion_notice \<times> bool" where
  "settle outcome n = (if sl_sender n then (send outcome n, True) else (n, False))"

definition inserted :: "message_id \<Rightarrow> insertion_notice \<Rightarrow> insertion_notice" where
  "inserted mid n = fst (settle (Ok mid) n)"

definition rejected :: "(kernel_error \<Rightarrow> string) \<Rightarrow> kernel_error \<Rightarrow> insertion_notice \<Rightarrow> insertion_notice" where
  "rejected describe e n = fst (settle (Err (for_insertion describe e)) n)"

datatype 't waiter_cancellation = WcReject | WcIgnore | WcCaptured 't

fun closing :: "'t waiter_cancellation \<Rightarrow> kernel_error" where
  "closing WcReject = PromptCancelled"
| "closing (WcCaptured token) = PromptCancelled"
| "closing WcIgnore = SessionClosing"

definition waiter_cancellation_from :: "insertion_notice option \<Rightarrow> 't waiter_cancellation" where
  "waiter_cancellation_from n = (case n of Some _ \<Rightarrow> WcReject | None \<Rightarrow> WcIgnore)"

datatype answer_outcome = AnswerCompleted | AnswerCancelled | AnswerFailed string

datatype agent_outcome = RunSucceeded | RunCancelled | RunFailed string

record submission_answer =
  sa_message_id :: "message_id option"
  sa_text :: string
  sa_outcome :: answer_outcome

type_synonym submission_receipt = "(submission_answer, kernel_error) result one_shot_slot"

definition resolve :: "submission_answer \<Rightarrow> submission_receipt \<Rightarrow> submission_receipt" where
  "resolve answer r = (if sl_sender r then send (Ok answer) r else r)"

definition reject_receipt ::
    "(kernel_error \<Rightarrow> string) \<Rightarrow> kernel_error \<Rightarrow> submission_receipt \<Rightarrow> submission_receipt" where
  "reject_receipt describe e r = (if sl_sender r then send (Err (for_insertion describe e)) r else r)"

definition cancelled_answer :: submission_answer where
  "cancelled_answer = \<lparr>sa_message_id = None, sa_text = [], sa_outcome = AnswerCancelled\<rparr>"

fun answer_outcome_from :: "agent_outcome \<Rightarrow> answer_outcome" where
  "answer_outcome_from RunSucceeded = AnswerCompleted"
| "answer_outcome_from RunCancelled = AnswerCancelled"
| "answer_outcome_from (RunFailed m) = AnswerFailed m"

definition submission_answer_from :: "agent_outcome \<Rightarrow> agent_message list \<Rightarrow> submission_answer" where
  "submission_answer_from outcome messages =
     (let message = find (\<lambda>m. is_assistant (msg_content m)) (rev messages) in
      \<lparr>sa_message_id = map_option (\<lambda>m. mi_message_id (msg_identity m)) message,
       sa_text = (case Option.bind message (\<lambda>m. text_content (msg_content m)) of None \<Rightarrow> [] | Some t \<Rightarrow> t),
       sa_outcome = answer_outcome_from outcome\<rparr>)"

text \<open>The two kinds of report to each waiter, as one operation.\<close>

definition report_insertion ::
    "(message_id, kernel_error) result \<Rightarrow> insertion_notice \<Rightarrow> insertion_notice" where
  "report_insertion outcome n = fst (settle outcome n)"

fun report_receipt ::
    "(submission_answer, kernel_error) result \<Rightarrow> submission_receipt \<Rightarrow> submission_receipt" where
  "report_receipt (Ok answer) r = resolve answer r"
| "report_receipt (Err e) r = (if sl_sender r then send (Err e) r else r)"

section \<open>The contract of a one-shot waiter\<close>

text \<open>
  Both kinds of waiter promise the same: the first report is what a receiver that still listens
  gets, and no later report changes anything.
\<close>

locale one_shot_waiter =
  fixes report :: "'o \<Rightarrow> 'w \<Rightarrow> 'w" and pending :: "'w \<Rightarrow> bool" and listening :: "'w \<Rightarrow> bool"
    and received :: "'w \<Rightarrow> 'o option"
  assumes report_settles: "\<not> pending (report x w)"
    and report_first: "pending w \<Longrightarrow> received (report x w) = (if listening w then Some x else None)"
    and report_later: "\<not> pending w \<Longrightarrow> report x w = w"
begin

lemma later_reports: "\<not> pending w \<Longrightarrow> fold report xs w = w"
  by (induction xs) (simp_all add: report_later)

lemma first_report_wins:
  assumes "pending w" "xs \<noteq> []"
  shows "received (fold report xs w) = (if listening w then Some (hd xs) else None)"
    and "\<not> pending (fold report xs w)"
  using assms by (cases xs; simp add: report_settles report_first later_reports)+

end

interpretation insertion: one_shot_waiter report_insertion sl_sender sl_listening sl_received
  by unfold_locales (auto simp: report_insertion_def settle_def send_def)

interpretation receipt: one_shot_waiter report_receipt sl_sender sl_listening sl_received
proof unfold_locales
  fix x and w :: submission_receipt
  show "\<not> sl_sender (report_receipt x w)" by (cases x) (simp_all add: resolve_def send_def)
  show "sl_sender w \<Longrightarrow> sl_received (report_receipt x w) = (if sl_listening w then Some x else None)"
    by (cases x) (simp_all add: resolve_def send_def)
  show "\<not> sl_sender w \<Longrightarrow> report_receipt x w = w" by (cases x) (simp_all add: resolve_def)
qed

text \<open>Of all the reports made to a waiter, in whatever order, the receiver gets the first and only
  that one, for insertion notices and for submission receipts alike; a receiver that has left
  gets none, and the later reports still change nothing.\<close>

lemma waiter_gets_first_report:
  assumes "outcomes \<noteq> []" "answers \<noteq> []"
  shows "sl_received (fold report_insertion outcomes new_slot) = Some (hd outcomes) \<and>
    sl_received (fold report_insertion outcomes (drop_receiver new_slot)) = None \<and>
    sl_received (fold report_receipt answers new_slot) = Some (hd answers) \<and>
    sl_received (fold report_receipt answers (drop_receiver new_slot)) = None"
  using insertion.first_report_wins(1) [of new_slot outcomes] receipt.first_report_wins(1) [of new_slot answers]
    insertion.first_report_wins(1) [of "drop_receiver new_slot" outcomes]
    receipt.first_report_wins(1) [of "drop_receiver new_slot" answers] assms
  by (simp add: new_slot_def drop_receiver_def)

end
