(* ===== verification/Pending_Queue.thy ===== *)
theory Pending_Queue
  imports Transcript_Props Waiters
begin

text \<open>
  The pending queue of \<^verbatim>\<open>crates/kernel/src/runtime/run/queue.rs\<close> and \<^verbatim>\<open>queue/operations.rs\<close>: messages that
  wait for a run, held in two lanes in memory and as enqueue and cancel records in the session
  log. Waiters are shared objects; an item names its waiter by number. The identifiers an
  operation draws from the generator and the outcomes of its writes are arguments.
\<close>

section \<open>queue.rs\<close>

datatype queue_waiter = QwInsertion nat | QwReceipt nat

record pending_item =
  pi_queued :: queued_message
  pi_entry_id :: entry_id
  pi_waiter :: "queue_waiter option"

abbreviation item_id :: "pending_item \<Rightarrow> queue_id" where
  "item_id i \<equiv> qm_queue_id (pi_queued i)"

abbreviation item_kind :: "pending_item \<Rightarrow> queue_kind" where
  "item_kind i \<equiv> qm_kind (pi_queued i)"

record pending_queue =
  pq_open :: bool
  pq_steering :: "pending_item list"
  pq_follow_up :: "pending_item list"

datatype queue_cancellation_reason = QcConsumed | QcRemoved | QcCleared | QcWithdrawn

fun queue_cancellation_name :: "queue_cancellation_reason \<Rightarrow> string" where
  "queue_cancellation_name QcConsumed = ''consumed''"
| "queue_cancellation_name QcRemoved = ''removed''"
| "queue_cancellation_name QcCleared = ''cleared''"
| "queue_cancellation_name QcWithdrawn = ''withdrawn''"

definition new_item :: "queued_message \<Rightarrow> entry_id \<Rightarrow> pending_item" where
  "new_item queued entry_id = \<lparr>pi_queued = queued, pi_entry_id = entry_id, pi_waiter = None\<rparr>"

definition empty_queue :: pending_queue where
  "empty_queue = \<lparr>pq_open = False, pq_steering = [], pq_follow_up = []\<rparr>"

definition push :: "pending_item \<Rightarrow> pending_queue \<Rightarrow> pending_queue" where
  "push item q =
     (case item_kind item of
        Steering \<Rightarrow> q\<lparr>pq_steering := pq_steering q @ [item]\<rparr>
      | FollowUp \<Rightarrow> q\<lparr>pq_follow_up := pq_follow_up q @ [item]\<rparr>)"

definition queue_is_empty :: "pending_queue \<Rightarrow> bool" where
  "queue_is_empty q \<longleftrightarrow> pq_steering q = [] \<and> pq_follow_up q = []"

text \<open>\<^verbatim>\<open>position\<close> and \<^verbatim>\<open>VecDeque::remove\<close>: the first item with the identifier leaves its lane.\<close>

fun remove_first :: "queue_id \<Rightarrow> pending_item list \<Rightarrow> pending_item list" where
  "remove_first qid [] = []"
| "remove_first qid (i # is) = (if item_id i = qid then is else i # remove_first qid is)"

definition remove_item :: "queue_id \<Rightarrow> pending_queue \<Rightarrow> pending_queue \<times> pending_item option" where
  "remove_item qid q =
     (case find (\<lambda>i. item_id i = qid) (pq_steering q) of
        Some item \<Rightarrow> (q\<lparr>pq_steering := remove_first qid (pq_steering q)\<rparr>, Some item)
      | None \<Rightarrow>
         (case find (\<lambda>i. item_id i = qid) (pq_follow_up q) of
            Some item \<Rightarrow> (q\<lparr>pq_follow_up := remove_first qid (pq_follow_up q)\<rparr>, Some item)
          | None \<Rightarrow> (q, None)))"

definition queue_ids :: "pending_queue \<Rightarrow> queue_id list" where
  "queue_ids q = map item_id (pq_steering q @ pq_follow_up q)"

definition queue_snapshot :: "pending_queue \<Rightarrow> pending_messages" where
  "queue_snapshot q =
     \<lparr>pm_steering = map pi_queued (pq_steering q), pm_follow_up = map pi_queued (pq_follow_up q)\<rparr>"

section \<open>queue.rs: records\<close>

definition encode_queued_message :: "transcript_env \<Rightarrow> queued_message \<Rightarrow> json" where
  "encode_queued_message env q = JObject
     ([(''queueId'', JString (qm_queue_id q)), (''kind'', JString (queue_kind_name (qm_kind q))),
       (''message'', encode_message env (qm_message q))] @ skip_none ''submissionId'' (qm_submission_id q))"

fun decode_queued_message :: "transcript_env \<Rightarrow> json \<Rightarrow> queued_message option" where
  "decode_queued_message env (JObject m) = do {
     qid \<leftarrow> field ''queueId'' decode_id m;
     kind \<leftarrow> field ''kind'' (decode_variant [Steering, FollowUp] queue_kind_name) m;
     message \<leftarrow> field ''message'' (decode_message env) m;
     submission \<leftarrow> opt_field ''submissionId'' as_str m;
     Some \<lparr>qm_queue_id = qid, qm_kind = kind, qm_message = message, qm_submission_id = submission\<rparr> }"
| "decode_queued_message env _ = None"

definition enqueued_payload :: "transcript_env \<Rightarrow> pending_item \<Rightarrow> json" where
  "enqueued_payload env item = JObject
     [(''queue'', encode_queued_message env (pi_queued item)), (''queueId'', JString (item_id item)),
      (''target'', JString (queue_kind_name (item_kind item))), (''entryId'', JString (pi_entry_id item))]"

record queue_enqueued_data =
  qe_queue :: queued_message
  qe_queue_id :: queue_id
  qe_target :: queue_kind
  qe_entry_id :: entry_id

definition decode_queue_enqueued :: "transcript_env \<Rightarrow> json_map \<Rightarrow> queue_enqueued_data option" where
  "decode_queue_enqueued env m = do {
     queue \<leftarrow> field ''queue'' (decode_queued_message env) m;
     qid \<leftarrow> field ''queueId'' decode_id m;
     target \<leftarrow> field ''target'' (decode_variant [Steering, FollowUp] queue_kind_name) m;
     eid \<leftarrow> field ''entryId'' decode_id m;
     Some \<lparr>qe_queue = queue, qe_queue_id = qid, qe_target = target, qe_entry_id = eid\<rparr> }"

definition cancelled_payload :: "queue_id \<Rightarrow> queue_cancellation_reason \<Rightarrow> json" where
  "cancelled_payload qid reason = JObject
     [(''queueId'', JString qid), (''reason'', JString (queue_cancellation_name reason))]"

definition decode_queue_cancelled :: "json_map \<Rightarrow> (queue_id \<times> queue_cancellation_reason) option" where
  "decode_queue_cancelled m = do {
     qid \<leftarrow> field ''queueId'' decode_id m;
     reason \<leftarrow> field ''reason''
       (decode_variant [QcConsumed, QcRemoved, QcCleared, QcWithdrawn] queue_cancellation_name) m;
     Some (qid, reason) }"

definition replay_record ::
    "transcript_env \<Rightarrow> pending_queue \<Rightarrow> record_kind \<times> json_map \<Rightarrow> (pending_queue, kernel_error) result" where
  "replay_record env q = (\<lambda>(kind, payload).
     if kind = QueueEnqueued then
       (case decode_queue_enqueued env payload of
          None \<Rightarrow> Err (OtherError ''json'')
        | Some data \<Rightarrow>
            if qm_queue_id (qe_queue data) \<noteq> qe_queue_id data \<or> qm_kind (qe_queue data) \<noteq> qe_target data
            then Err (ProtocolError ''queue record correlation fields disagree'')
            else Ok (push (new_item (qe_queue data) (qe_entry_id data)) (fst (remove_item (qe_queue_id data) q))))
     else if kind = QueueCancelled then
       (case decode_queue_cancelled payload of
          None \<Rightarrow> Err (OtherError ''json'')
        | Some (qid, reason) \<Rightarrow> Ok (fst (remove_item qid q)))
     else Ok q)"

definition record_view :: "session_record \<Rightarrow> record_kind \<times> json_map" where
  "record_view r = (sr_kind r, sr_payload r)"

definition from_records :: "transcript_env \<Rightarrow> session_record list \<Rightarrow> (pending_queue, kernel_error) result" where
  "from_records env rs = try_fold (replay_record env) empty_queue (map record_view rs)"

text \<open>One round over the identifiers: an item whose reserved entry exists is dropped, any other goes
  to the back of its lane.\<close>

fun restore_round :: "jsonl_store \<Rightarrow> queue_id list \<Rightarrow> pending_queue \<Rightarrow> pending_queue" where
  "restore_round st [] q = q"
| "restore_round st (qid # ids) q =
     (case remove_item qid q of
        (q', None) \<Rightarrow> restore_round st ids q'
      | (q', Some item) \<Rightarrow>
          restore_round st ids (if get_entry st (pi_entry_id item) \<noteq> None then q' else push item q'))"

definition restore :: "transcript_env \<Rightarrow> jsonl_store \<Rightarrow> (pending_queue, kernel_error) result" where
  "restore env st = and_then (from_records env (store_records st)) (\<lambda>q. Ok (restore_round st (queue_ids q) q))"

section \<open>queue.rs: claims\<close>

definition open_queue :: "bool \<Rightarrow> pending_queue \<Rightarrow> pending_queue" where
  "open_queue cancelled q = q\<lparr>pq_open := \<not> cancelled\<rparr>"

definition close_queue :: "pending_queue \<Rightarrow> pending_queue" where
  "close_queue q = q\<lparr>pq_open := False\<rparr>"

definition claim_next_or_close :: "bool \<Rightarrow> pending_queue \<Rightarrow> pending_queue \<times> pending_item option" where
  "claim_next_or_close allow_follow_up q =
     (case pq_steering q of
        item # rest \<Rightarrow> (q\<lparr>pq_steering := rest\<rparr>, Some item)
      | [] \<Rightarrow>
          if \<not> allow_follow_up then (q, None)
          else case pq_follow_up q of
              item # rest \<Rightarrow> (q\<lparr>pq_follow_up := rest\<rparr>, Some item)
            | [] \<Rightarrow> (q\<lparr>pq_open := False\<rparr>, None))"

text \<open>\<^verbatim>\<open>Drop for ClaimedItem\<close> on a claim that was not committed.\<close>

definition return_claim :: "pending_item \<Rightarrow> pending_queue \<Rightarrow> pending_queue" where
  "return_claim item q =
     (case item_kind item of
        Steering \<Rightarrow> q\<lparr>pq_steering := item # pq_steering q\<rparr>
      | FollowUp \<Rightarrow> q\<lparr>pq_follow_up := item # pq_follow_up q\<rparr>)"

section \<open>operations.rs\<close>

record queue_session =
  qs_queue :: pending_queue
  qs_transcript :: transcript
  qs_notices :: "nat \<Rightarrow> insertion_notice"
  qs_receipts :: "nat \<Rightarrow> submission_receipt"
  qs_accepted :: "nat list"
  qs_cancelled :: bool

definition reject_item ::
    "(kernel_error \<Rightarrow> string) \<Rightarrow> kernel_error \<Rightarrow> pending_item \<Rightarrow> queue_session \<Rightarrow> queue_session" where
  "reject_item describe e item s =
     (case pi_waiter item of
        None \<Rightarrow> s
      | Some (QwInsertion k) \<Rightarrow> s\<lparr>qs_notices := (qs_notices s)(k := rejected describe e (qs_notices s k))\<rparr>
      | Some (QwReceipt k) \<Rightarrow>
          s\<lparr>qs_receipts := (qs_receipts s)(k :=
             if e = PromptCancelled then resolve cancelled_answer (qs_receipts s k)
             else reject_receipt describe e (qs_receipts s k))\<rparr>)"

record queue_io =
  qi_env :: transcript_env
  qi_describe :: "kernel_error \<Rightarrow> string"
  qi_now :: nat
  qi_sync :: write_outcome
  qi_write :: "nat \<Rightarrow> write_outcome"
  qi_record_id :: "nat \<Rightarrow> string"

definition queue_record ::
    "queue_io \<Rightarrow> nat \<Rightarrow> transcript \<Rightarrow> run_id option \<Rightarrow> record_kind \<Rightarrow> json
      \<Rightarrow> (new_record \<times> write_outcome, kernel_error) result" where
  "queue_record io k t run kind payload =
     (case id_try_from ''record'' (qi_record_id io k) of
        Err e \<Rightarrow> Err (ProtocolError ''record id'')
      | Ok rid \<Rightarrow> Ok (\<lparr>nr_id = rid, nr_lane = ts_lane t, nr_run_id = run, nr_kind = kind, nr_payload = payload\<rparr>,
                     qi_write io k))"

fun cancellation_records ::
    "queue_io \<Rightarrow> nat \<Rightarrow> transcript \<Rightarrow> queue_cancellation_reason \<Rightarrow> queue_id list
      \<Rightarrow> ((new_record \<times> write_outcome) list, kernel_error) result" where
  "cancellation_records io k t reason [] = Ok []"
| "cancellation_records io k t reason (qid # qids) =
     and_then (queue_record io k t None QueueCancelled (cancelled_payload qid reason)) (\<lambda>r.
     and_then (cancellation_records io (Suc k) t reason qids) (\<lambda>rs. Ok (r # rs)))"

definition commit_queue_records ::
    "queue_io \<Rightarrow> (new_record \<times> write_outcome) list \<Rightarrow> queue_session \<Rightarrow> queue_session \<times> (unit, kernel_error) result" where
  "commit_queue_records io rs s =
     (case commit_records (qi_env io) (qi_sync io) (qi_now io) rs (qs_transcript s) of
        (t, r) \<Rightarrow> (s\<lparr>qs_transcript := t\<rparr>, r))"

definition enqueue_pending ::
    "queue_io \<Rightarrow> run_id \<Rightarrow> bool option \<Rightarrow> pending_item \<Rightarrow> queue_session
      \<Rightarrow> queue_session \<times> (unit, kernel_error) result" where
  "enqueue_pending io run cancellation item s =
     (case queue_record io 0 (qs_transcript s) (Some run) QueueEnqueued (enqueued_payload (qi_env io) item) of
        Err e \<Rightarrow> (s, Err e)
      | Ok r \<Rightarrow>
          if cancellation = Some True then (s, Err PromptCancelled)
          else if \<not> pq_open (qs_queue s)
          then (s, Err (SessionNotRunning (js_session_id (ts_store (qs_transcript s)))))
          else case commit_queue_records io [r] s of
              (s', Err e) \<Rightarrow> (s', Err e)
            | (s', Ok _) \<Rightarrow> (s'\<lparr>qs_queue := push item (qs_queue s')\<rparr>, Ok ()))"

definition remove_pending_message ::
    "queue_io \<Rightarrow> queue_id \<Rightarrow> queue_session \<Rightarrow> queue_session \<times> (unit, kernel_error) result" where
  "remove_pending_message io qid s =
     (if qid \<notin> set (queue_ids (qs_queue s)) then (s, Ok ())
      else case queue_record io 0 (qs_transcript s) None QueueCancelled (cancelled_payload qid QcRemoved) of
        Err e \<Rightarrow> (s, Err e)
      | Ok r \<Rightarrow>
         (case commit_queue_records io [r] s of
            (s', Err e) \<Rightarrow> (s', Err e)
          | (s', Ok _) \<Rightarrow>
             (case remove_item qid (qs_queue s') of
                (q, None) \<Rightarrow> (s'\<lparr>qs_queue := q\<rparr>, Ok ())
              | (q, Some item) \<Rightarrow> (reject_item (qi_describe io) PromptCancelled item (s'\<lparr>qs_queue := q\<rparr>), Ok ()))))"

definition clear_pending_messages ::
    "queue_io \<Rightarrow> queue_session \<Rightarrow> queue_session \<times> (unit, kernel_error) result" where
  "clear_pending_messages io s =
     (case cancellation_records io 0 (qs_transcript s) QcCleared (queue_ids (qs_queue s)) of
        Err e \<Rightarrow> (s, Err e)
      | Ok rs \<Rightarrow>
         (case commit_queue_records io rs s of
            (s', Err e) \<Rightarrow> (s', Err e)
          | (s', Ok _) \<Rightarrow>
              (fold (reject_item (qi_describe io) PromptCancelled)
                 (pq_steering (qs_queue s') @ pq_follow_up (qs_queue s'))
                 (s'\<lparr>qs_queue := (qs_queue s')\<lparr>pq_steering := [], pq_follow_up := []\<rparr>\<rparr>), Ok ())))"

definition promoted_item :: "pending_item \<Rightarrow> pending_item" where
  "promoted_item item = item\<lparr>pi_queued := (pi_queued item)\<lparr>qm_kind := Steering\<rparr>\<rparr>"

definition promote_pending_message ::
    "queue_io \<Rightarrow> queue_id \<Rightarrow> queue_session \<Rightarrow> queue_session \<times> (bool, kernel_error) result" where
  "promote_pending_message io qid s =
     (if qid \<in> item_id ` set (pq_steering (qs_queue s)) then (s, Ok True)
      else case find (\<lambda>i. item_id i = qid) (pq_follow_up (qs_queue s)) of
        None \<Rightarrow> (s, Ok False)
      | Some item \<Rightarrow>
         (case queue_record io 0 (qs_transcript s) None QueueEnqueued
             (enqueued_payload (qi_env io) (promoted_item item)) of
            Err e \<Rightarrow> (s, Err e)
          | Ok r \<Rightarrow>
             (case commit_queue_records io [r] s of
                (s', Err e) \<Rightarrow> (s', Err e)
              | (s', Ok _) \<Rightarrow>
                  (s'\<lparr>qs_queue := push (promoted_item item) (fst (remove_item qid (qs_queue s')))\<rparr>, Ok True))))"

definition withdrawable :: "queue_session \<Rightarrow> pending_item \<Rightarrow> bool" where
  "withdrawable s item \<longleftrightarrow>
     (case pi_waiter item of
        Some (QwInsertion k) \<Rightarrow> is_listening (qs_notices s k)
      | Some (QwReceipt k) \<Rightarrow> True
      | None \<Rightarrow> False)"

fun withdraw_items :: "queue_io \<Rightarrow> queue_id list \<Rightarrow> queue_session \<Rightarrow> queue_session" where
  "withdraw_items io [] s = s"
| "withdraw_items io (qid # qids) s =
     (case remove_item qid (qs_queue s) of
        (q, None) \<Rightarrow> withdraw_items io qids s
      | (q, Some item) \<Rightarrow>
          withdraw_items io qids (reject_item (qi_describe io) PromptCancelled item (s\<lparr>qs_queue := q\<rparr>)))"

definition withdraw_pending :: "queue_io \<Rightarrow> queue_session \<Rightarrow> queue_session \<times> (unit, kernel_error) result" where
  "withdraw_pending io s =
     (let s = s\<lparr>qs_queue := (qs_queue s)\<lparr>pq_open := False\<rparr>\<rparr>;
          all = pq_steering (qs_queue s) @ pq_follow_up (qs_queue s);
          ids = map item_id (filter (withdrawable s) all)
      in if ids = [] then (s, Ok ())
         else case cancellation_records io 0 (qs_transcript s) QcWithdrawn ids of
             Err e \<Rightarrow> (s, Err e)
           | Ok rs \<Rightarrow>
              (case commit_queue_records io rs s of
                 (s', Ok _) \<Rightarrow> (withdraw_items io ids s', Ok ())
               | (s', Err e) \<Rightarrow>
                   (fold (reject_item (qi_describe io) e) (filter (\<lambda>i. item_id i \<in> set ids) all) s', Err e)))"

text \<open>
  Consuming a claimed item. The claim goes back to the queue exactly when the run was cancelled
  before the first write.
\<close>

definition consume_claimed ::
    "queue_io \<Rightarrow> pending_item \<Rightarrow> agent_message \<Rightarrow> new_record \<Rightarrow> queue_session
      \<Rightarrow> queue_session \<times> (unit, kernel_error) result" where
  "consume_claimed io item message r s =
     (if qs_cancelled s then (s\<lparr>qs_queue := return_claim item (qs_queue s)\<rparr>, Err PromptCancelled)
      else case commit_consumed (qi_env io) (qi_write io 0) (qi_write io 1) (qi_now io) (pi_entry_id item)
          message r (qs_transcript s) of
        (t, Err e) \<Rightarrow> (reject_item (qi_describe io) e item (s\<lparr>qs_transcript := t\<rparr>), Err e)
      | (t, Ok _) \<Rightarrow>
         (let s' = s\<lparr>qs_transcript := t\<rparr> in
          (case pi_waiter item of
             Some (QwInsertion k) \<Rightarrow>
               s'\<lparr>qs_notices := (qs_notices s')(k := inserted (mi_message_id (msg_identity message)) (qs_notices s' k))\<rparr>
           | Some (QwReceipt k) \<Rightarrow> s'\<lparr>qs_accepted := qs_accepted s' @ [k]\<rparr>
           | None \<Rightarrow> s', Ok ())))"

end
