(* ===== verification/Queue_Props.thy ===== *)
theory Queue_Props
  imports Pending_Queue
begin

text \<open>
  The queue in memory and the queue that recovery rebuilds from the log stay the same: each
  operation commits to the log what it then does in memory. The log is used through the contract
  of a durable commit; the transcript's \<^verbatim>\<open>commit_records\<close> provides it.
\<close>

section \<open>Specification vocabulary\<close>

definition strip :: "pending_item \<Rightarrow> pending_item" where
  "strip i = i\<lparr>pi_waiter := None\<rparr>"

definition strip_queue :: "pending_queue \<Rightarrow> pending_queue" where
  "strip_queue q = \<lparr>pq_open = False, pq_steering = map strip (pq_steering q), pq_follow_up = map strip (pq_follow_up q)\<rparr>"

text \<open>The queue with an outstanding claim put back.\<close>

definition with_claim :: "pending_item option \<Rightarrow> pending_queue \<Rightarrow> pending_queue" where
  "with_claim claim q = (case claim of None \<Rightarrow> q | Some item \<Rightarrow> return_claim item q)"

definition wf_queue :: "pending_queue \<Rightarrow> bool" where
  "wf_queue q \<longleftrightarrow>
     (\<forall>i \<in> set (pq_steering q). item_kind i = Steering) \<and> (\<forall>i \<in> set (pq_follow_up q). item_kind i = FollowUp) \<and>
     distinct (queue_ids q)"

definition typed_item :: "transcript_env \<Rightarrow> pending_item \<Rightarrow> bool" where
  "typed_item env i \<longleftrightarrow>
     id_ok (item_id i) \<and> id_ok (pi_entry_id i) \<and>
     decode_message env (encode_message env (qm_message (pi_queued i))) = Some (qm_message (pi_queued i))"

text \<open>The entries reserved for the items are distinct.\<close>

definition entry_ids :: "pending_queue \<Rightarrow> entry_id list" where
  "entry_ids q = map pi_entry_id (pq_steering q @ pq_follow_up q)"

definition typed_queue :: "transcript_env \<Rightarrow> pending_queue \<Rightarrow> bool" where
  "typed_queue env q \<longleftrightarrow> (\<forall>i \<in> set (pq_steering q @ pq_follow_up q). typed_item env i) \<and> distinct (entry_ids q)"

text \<open>The items whose reserved entry is not in the store yet.\<close>

definition live :: "jsonl_store \<Rightarrow> pending_queue \<Rightarrow> pending_queue" where
  "live st q =
     q\<lparr>pq_steering := filter (\<lambda>i. get_entry st (pi_entry_id i) = None) (pq_steering q),
       pq_follow_up := filter (\<lambda>i. get_entry st (pi_entry_id i) = None) (pq_follow_up q)\<rparr>"

text \<open>The enqueue records among these reserve entries that are not in the store.\<close>

definition fresh_entries :: "transcript_env \<Rightarrow> jsonl_store \<Rightarrow> (record_kind \<times> json_map) list \<Rightarrow> bool" where
  "fresh_entries env st vs \<longleftrightarrow>
     (\<forall>(kind, payload) \<in> set vs. kind = QueueEnqueued \<longrightarrow>
        (\<forall>data. decode_queue_enqueued env payload = Some data \<longrightarrow> get_entry st (qe_entry_id data) = None))"

definition new_view :: "new_record \<times> write_outcome \<Rightarrow> record_kind \<times> json_map" where
  "new_view rw = (nr_kind (fst rw), the (as_object (nr_payload (fst rw))))"

definition transcript_view :: "transcript \<Rightarrow> (record_kind \<times> json_map) list" where
  "transcript_view t = map record_view (store_records (ts_store t))"

text \<open>Recovery would find the queue in memory, with the outstanding claim in its place.\<close>

definition recoverable :: "transcript_env \<Rightarrow> pending_item option \<Rightarrow> queue_session \<Rightarrow> bool" where
  "recoverable env claim s \<longleftrightarrow>
     wf_queue (with_claim claim (qs_queue s)) \<and> typed_queue env (with_claim claim (qs_queue s)) \<and>
     (\<exists>lq. wf_queue lq \<and>
        try_fold (replay_record env) empty_queue (transcript_view (qs_transcript s)) = Ok lq \<and>
        live (ts_store (qs_transcript s)) lq = strip_queue (with_claim claim (qs_queue s)))"

definition io_ok :: "queue_io \<Rightarrow> queue_session \<Rightarrow> bool" where
  "io_ok io s \<longleftrightarrow> qi_now io \<le> u64_max \<and> id_ok (ts_lane (qs_transcript s))"

section \<open>The contract of a durable commit\<close>

locale durable_commit =
  fixes commit_all :: "'r list \<Rightarrow> 's \<Rightarrow> 's \<times> (unit, 'e) result"
    and view :: "'s \<Rightarrow> 'v list" and image :: "'r \<Rightarrow> 'v" and good :: "'r \<Rightarrow> bool"
  assumes commit_Ok: "list_all good rs \<Longrightarrow> commit_all rs s = (s', Ok u) \<Longrightarrow> view s' = view s @ map image rs"
begin

lemma replay_commit:
  assumes "list_all good rs" "commit_all rs s = (s', Ok u)" "try_fold step q (view s) = Ok q1"
  shows "try_fold step q (view s') = try_fold step q1 (map image rs)"
  using commit_Ok [OF assms(1,2)] assms(3) by (simp add: try_fold_append)

end

lemma append_records_view:
  assumes "append_records env now rs st = (st', Ok u)" "list_all (\<lambda>rw. typed_record (fst rw) \<and> now \<le> u64_max) rs"
  shows "map record_view (store_records st') = map record_view (store_records st) @ map new_view rs"
  using assms
proof (induction env now rs st rule: append_records.induct)
  case (2 env now r w rs st)
  then obtain st1 stored where a: "append_record (senv env) w now r st = (st1, Ok stored)"
    "append_records env now rs st1 = (st', Ok u)"
    by (auto split: prod.splits result.splits)
  have acc: "w = Written" "record_accepted now r st"
    using append_record_accepted [OF a(1)] 2 by auto
  have "store_records st1 = store_records st @ [new_session_record st now r]"
    using append_record_Ok [OF acc(2), of "senv env"] a(1) acc(1) by (auto simp: store_records_def)
  moreover have "record_view (new_session_record st now r) = new_view (r, w)"
    by (simp add: record_view_def new_view_def new_session_record_def)
  moreover have "list_all (\<lambda>rw. typed_record (fst rw) \<and> now \<le> u64_max) rs"
    using "2.prems"(2) unfolding list.pred_inject(2) by (rule conjunct2)
  ultimately show ?case using "2.IH" [OF a(1) [symmetric] refl a(2)] by (simp del: list_all_append)
qed simp

lemma sync_records: "sync w st = (st', r) \<Longrightarrow> store_records st' = store_records st"
  using sync_state [of w st] by (auto simp: store_records_def)

lemma commit_records_view:
  assumes "list_all (\<lambda>rw. typed_record (fst rw) \<and> now \<le> u64_max) rs" "commit_records env ws now rs t = (t', Ok u)"
  shows "transcript_view t' = transcript_view t @ map new_view rs"
  using assms append_records_view [of env now rs "ts_store t"] sync_records
  by (auto simp: commit_records_def transcript_view_def split: result.splits prod.splits)

interpretation transcript_log: durable_commit
  "commit_records env ws now" transcript_view new_view "\<lambda>rw. typed_record (fst rw) \<and> now \<le> u64_max" for env ws now
  by unfold_locales (rule commit_records_view)

section \<open>Records round-trip\<close>

lemma cancellation_roundtrip:
  assumes "id_ok qid"
  shows "decode_queue_cancelled (the (as_object (cancelled_payload qid reason))) = Some (qid, reason)"
proof -
  have "decode_variant [QcConsumed, QcRemoved, QcCleared, QcWithdrawn] queue_cancellation_name
      (JString (queue_cancellation_name reason)) = Some reason"
    by (cases reason) (simp_all add: decode_variant.simps variant_of_def)
  with assms show ?thesis
    by (simp add: cancelled_payload_def decode_queue_cancelled_def field_def id_ok_def decode_id_string)
qed

lemma queued_message_roundtrip:
  assumes "typed_item env i"
  shows "decode_queued_message env (encode_queued_message env (pi_queued i)) = Some (pi_queued i)"
  using assms queue_kind_names.decode_name
  by (cases "qm_submission_id (pi_queued i)")
    (simp_all add: typed_item_def encode_queued_message_def field_def opt_field_def id_ok_def decode_id_string)

lemma enqueued_roundtrip:
  assumes "typed_item env i"
  shows "decode_queue_enqueued env (the (as_object (enqueued_payload env i))) =
    Some \<lparr>qe_queue = pi_queued i, qe_queue_id = item_id i, qe_target = item_kind i, qe_entry_id = pi_entry_id i\<rparr>"
  using assms queued_message_roundtrip [OF assms] queue_kind_names.decode_name
  by (simp add: typed_item_def enqueued_payload_def decode_queue_enqueued_def field_def id_ok_def decode_id_string)

lemma replay_enqueued:
  "typed_item env i \<Longrightarrow>
    replay_record env q (QueueEnqueued, the (as_object (enqueued_payload env i))) =
      Ok (push (strip i) (fst (remove_item (item_id i) q)))"
  by (cases i) (simp add: replay_record_def enqueued_roundtrip new_item_def strip_def)

lemma replay_cancelled:
  "id_ok qid \<Longrightarrow> replay_record env q (QueueCancelled, the (as_object (cancelled_payload qid reason))) =
    Ok (fst (remove_item qid q))"
  by (simp add: replay_record_def cancellation_roundtrip)

section \<open>Lanes\<close>

lemma strip_simps [simp]: "item_id (strip i) = item_id i" "item_kind (strip i) = item_kind i"
  "pi_entry_id (strip i) = pi_entry_id i"
  by (simp_all add: strip_def)

lemma remove_first_strip: "remove_first qid (map strip is) = map strip (remove_first qid is)"
  by (induction "is") simp_all

lemma find_strip: "find (\<lambda>i. item_id i = qid) (map strip is) = map_option strip (find (\<lambda>i. item_id i = qid) is)"
  by (induction "is") simp_all

lemma remove_item_strip: "fst (remove_item qid (strip_queue q)) = strip_queue (fst (remove_item qid q))"
  by (simp add: remove_item_def strip_queue_def find_strip remove_first_strip split: option.split)

lemma push_strip: "push (strip i) (strip_queue q) = strip_queue (push i q)"
  by (cases "item_kind i") (simp_all add: push_def strip_queue_def)

lemma find_none: "find (\<lambda>i. item_id i = qid) is = None \<longleftrightarrow> qid \<notin> item_id ` set is"
  by (auto simp: find_None_iff)

lemma remove_first_filter:
  "distinct (map item_id is) \<Longrightarrow> remove_first qid is = filter (\<lambda>i. item_id i \<noteq> qid) is"
proof (induction "is")
  case (Cons i "is")
  show ?case
  proof (cases "item_id i = qid")
    case True
    with Cons.prems have "filter (\<lambda>j. item_id j \<noteq> qid) is = is"
      by (auto simp: filter_id_conv) (metis imageI)
    with True show ?thesis by simp
  next
    case False
    with Cons show ?thesis by simp
  qed
qed simp

text \<open>On distinct identifiers, removal filters both lanes.\<close>

lemma remove_item_filter:
  assumes "distinct (queue_ids q)"
  shows "fst (remove_item qid q) =
    q\<lparr>pq_steering := filter (\<lambda>i. item_id i \<noteq> qid) (pq_steering q),
      pq_follow_up := filter (\<lambda>i. item_id i \<noteq> qid) (pq_follow_up q)\<rparr>"
proof -
  have d: "distinct (map item_id (pq_steering q))" "distinct (map item_id (pq_follow_up q))"
    "item_id ` set (pq_steering q) \<inter> item_id ` set (pq_follow_up q) = {}"
    using assms by (auto simp: queue_ids_def)
  have id: "qid \<notin> item_id ` set is \<Longrightarrow> filter (\<lambda>i. item_id i \<noteq> qid) is = is" for "is"
    by (auto simp: filter_id_conv)
  show ?thesis
  proof (cases "find (\<lambda>i. item_id i = qid) (pq_steering q)")
    case None
    then have s: "qid \<notin> item_id ` set (pq_steering q)" by (simp add: find_none)
    show ?thesis
    proof (cases "find (\<lambda>i. item_id i = qid) (pq_follow_up q)")
      case n: None
      then have "qid \<notin> item_id ` set (pq_follow_up q)" by (simp add: find_none)
      with None n id [OF s] id show ?thesis by (simp add: remove_item_def)
    next
      case (Some i)
      with None id [OF s] remove_first_filter [OF d(2)] show ?thesis by (simp add: remove_item_def)
    qed
  next
    case (Some i)
    then have "qid \<in> item_id ` set (pq_steering q)" by (auto simp: find_Some_iff)
    with d(3) have "qid \<notin> item_id ` set (pq_follow_up q)" by blast
    from id [OF this] Some remove_first_filter [OF d(1)] show ?thesis by (simp add: remove_item_def)
  qed
qed

lemma remove_item_absent: "qid \<notin> set (queue_ids q) \<Longrightarrow> fst (remove_item qid q) = q"
proof -
  assume "qid \<notin> set (queue_ids q)"
  then have "find (\<lambda>i. item_id i = qid) (pq_steering q) = None" "find (\<lambda>i. item_id i = qid) (pq_follow_up q) = None"
    unfolding find_none queue_ids_def by auto
  then show ?thesis by (simp add: remove_item_def)
qed

lemma with_claim_lanes:
  "pq_steering (with_claim claim q) = (case claim of Some i \<Rightarrow> (case item_kind i of Steering \<Rightarrow> [i] | FollowUp \<Rightarrow> []) | None \<Rightarrow> []) @ pq_steering q"
  "pq_follow_up (with_claim claim q) = (case claim of Some i \<Rightarrow> (case item_kind i of Steering \<Rightarrow> [] | FollowUp \<Rightarrow> [i]) | None \<Rightarrow> []) @ pq_follow_up q"
  by (simp_all add: with_claim_def return_claim_def split: option.split queue_kind.split)

lemma queue_eqI:
  "pq_open q = pq_open q' \<Longrightarrow> pq_steering q = pq_steering q' \<Longrightarrow> pq_follow_up q = pq_follow_up q' \<Longrightarrow> q = (q' :: pending_queue)"
  by (cases q; cases q') simp

lemma push_with_claim: "strip_queue (with_claim claim (push i q)) = strip_queue (push i (with_claim claim q))"
  by (cases "item_kind i"; rule queue_eqI) (simp_all add: strip_queue_def with_claim_lanes push_def)

lemma distinct_ids_with_claim: "wf_queue (with_claim claim q) \<Longrightarrow> distinct (queue_ids q)"
proof -
  assume "wf_queue (with_claim claim q)"
  then have "distinct (queue_ids (with_claim claim q))" by (simp add: wf_queue_def)
  then show ?thesis by (auto simp: queue_ids_def with_claim_lanes)
qed

text \<open>A removal of an identifier other than the claimed one commutes with the claim.\<close>

lemma remove_with_claim:
  assumes "wf_queue (with_claim claim q)" "qid \<in> set (queue_ids q)"
  shows "strip_queue (fst (remove_item qid (with_claim claim q))) =
    strip_queue (with_claim claim (fst (remove_item qid q)))"
proof -
  have d: "distinct (queue_ids (with_claim claim q))" using assms(1) by (simp add: wf_queue_def)
  have d': "distinct (queue_ids q)" by (rule distinct_ids_with_claim [OF assms(1)])
  have ne: "claim = Some i \<Longrightarrow> item_id i \<noteq> qid" for i
    using d assms(2) by (auto simp: queue_ids_def with_claim_lanes split: queue_kind.splits)
  show ?thesis
    unfolding remove_item_filter [OF d] remove_item_filter [OF d']
    by (rule queue_eqI) (auto simp: strip_queue_def with_claim_lanes ne split: option.split queue_kind.split)
qed

lemma wf_queue_push:
  assumes "wf_queue q" "item_id i \<notin> set (queue_ids q)"
  shows "wf_queue (push i q)"
  using assms by (cases "item_kind i") (auto simp: wf_queue_def push_def queue_ids_def)

lemma wf_queue_remove: "wf_queue q \<Longrightarrow> wf_queue (fst (remove_item qid q))"
  by (auto simp: remove_item_filter wf_queue_def queue_ids_def distinct_map_filter)

lemma wf_with_claim_cong:
  "strip_queue a = strip_queue b \<Longrightarrow> wf_queue a = wf_queue b"
proof -
  assume "strip_queue a = strip_queue b"
  then have "map strip (pq_steering a) = map strip (pq_steering b)" "map strip (pq_follow_up a) = map strip (pq_follow_up b)"
    by (simp_all add: strip_queue_def)
  then have eq: "map (item_id \<circ> strip) (pq_steering a) = map (item_id \<circ> strip) (pq_steering b)"
    "map (item_id \<circ> strip) (pq_follow_up a) = map (item_id \<circ> strip) (pq_follow_up b)"
    "(item_kind \<circ> strip) ` set (pq_steering a) = (item_kind \<circ> strip) ` set (pq_steering b)"
    "(item_kind \<circ> strip) ` set (pq_follow_up a) = (item_kind \<circ> strip) ` set (pq_follow_up b)"
    by (metis map_map, metis map_map, metis image_comp set_map, metis image_comp set_map)
  have wf: "wf_queue q \<longleftrightarrow> (item_kind \<circ> strip) ` set (pq_steering q) \<subseteq> {Steering} \<and>
      (item_kind \<circ> strip) ` set (pq_follow_up q) \<subseteq> {FollowUp} \<and>
      distinct (map (item_id \<circ> strip) (pq_steering q) @ map (item_id \<circ> strip) (pq_follow_up q))" for q
    by (auto simp: wf_queue_def queue_ids_def comp_def)
  show ?thesis unfolding wf eq ..
qed

lemma typed_item_strip: "typed_item env (strip i) = typed_item env i"
  by (simp add: typed_item_def strip_def)

lemma typed_with_claim_cong: "strip_queue a = strip_queue b \<Longrightarrow> typed_queue env a = typed_queue env b"
proof -
  assume eq: "strip_queue a = strip_queue b"
  have typed: "typed_queue env q \<longleftrightarrow>
      (\<forall>i \<in> set (pq_steering (strip_queue q) @ pq_follow_up (strip_queue q)). typed_item env i) \<and>
      distinct (entry_ids (strip_queue q))" for q
    by (simp add: typed_queue_def strip_queue_def typed_item_strip ball_Un entry_ids_def comp_def image_image)
  show ?thesis unfolding typed eq ..
qed

lemma typed_queue_push:
  "typed_queue env q \<Longrightarrow> typed_item env i \<Longrightarrow> pi_entry_id i \<notin> set (entry_ids q) \<Longrightarrow> typed_queue env (push i q)"
  by (cases "item_kind i") (auto simp: typed_queue_def push_def entry_ids_def)

lemma typed_queue_remove: "wf_queue q \<Longrightarrow> typed_queue env q \<Longrightarrow> typed_queue env (fst (remove_item qid q))"
  by (auto simp: remove_item_filter wf_queue_def typed_queue_def entry_ids_def distinct_map_filter)

section \<open>Items with a stored entry\<close>

text \<open>Replay on the whole log and replay on its live part go together.\<close>

lemma live_remove:
  "wf_queue q \<Longrightarrow> live st (fst (remove_item qid q)) = fst (remove_item qid (live st q)) \<and> wf_queue (live st q)"
proof -
  assume wf: "wf_queue q"
  then have wf': "wf_queue (live st q)" by (auto simp: wf_queue_def live_def queue_ids_def distinct_map_filter)
  from wf wf' have "distinct (queue_ids q)" "distinct (queue_ids (live st q))" by (simp_all add: wf_queue_def)
  from this [THEN remove_item_filter, of qid] wf' show ?thesis by (simp add: live_def filter_filter conj_commute)
qed

lemma live_push: "get_entry st (pi_entry_id i) = None \<Longrightarrow> live st (push i q) = push i (live st q)"
  by (cases "item_kind i") (simp_all add: live_def push_def)

lemma remove_item_gone: "wf_queue q \<Longrightarrow> qid \<notin> set (queue_ids (fst (remove_item qid q)))"
proof -
  assume "wf_queue q"
  then have "distinct (queue_ids q)" by (simp add: wf_queue_def)
  from remove_item_filter [OF this, of qid] show ?thesis by (auto simp: queue_ids_def)
qed

lemma live_replay_record:
  assumes "wf_queue q" "replay_record env (live st q) v = Ok q1" "fresh_entries env st [v]"
  shows "\<exists>q'. replay_record env q v = Ok q' \<and> wf_queue q' \<and> live st q' = q1"
proof -
  obtain kind payload where v: "v = (kind, payload)" by (cases v)
  consider (enq) data where "kind = QueueEnqueued" "decode_queue_enqueued env payload = Some data"
      "qm_queue_id (qe_queue data) = qe_queue_id data"
    | (cancel) qid reason where "kind = QueueCancelled" "decode_queue_cancelled payload = Some (qid, reason)"
    | (other) "kind \<noteq> QueueEnqueued" "kind \<noteq> QueueCancelled"
    using assms(2) by (fastforce simp: v replay_record_def split: if_splits option.splits)
  then show ?thesis
  proof cases
    case enq
    let ?item = "new_item (qe_queue data) (qe_entry_id data)"
    let ?q' = "push ?item (fst (remove_item (qe_queue_id data) q))"
    have r: "replay_record env q v = Ok ?q'" and "q1 = push ?item (fst (remove_item (qe_queue_id data) (live st q)))"
      using assms(2) enq by (auto simp: v replay_record_def split: if_splits)
    moreover have "get_entry st (pi_entry_id ?item) = None"
      using assms(3) enq by (simp add: fresh_entries_def v new_item_def)
    ultimately have "live st ?q' = q1" using live_remove [OF assms(1)] by (simp add: live_push)
    moreover have "wf_queue ?q'"
      using wf_queue_push [OF wf_queue_remove [OF assms(1)]] remove_item_gone [OF assms(1)] enq(3)
      by (simp add: new_item_def)
    ultimately show ?thesis using r by blast
  next
    case cancel
    with assms(1,2) live_remove [OF assms(1)] wf_queue_remove [OF assms(1)] show ?thesis
      by (simp add: v replay_record_def)
  next
    case other
    with assms(1,2) show ?thesis by (simp add: v replay_record_def)
  qed
qed

lemma live_replay:
  assumes "wf_queue q" "try_fold (replay_record env) (live st q) vs = Ok q1" "fresh_entries env st vs"
  shows "\<exists>q'. try_fold (replay_record env) q vs = Ok q' \<and> wf_queue q' \<and> live st q' = q1"
  using assms
proof (induction vs arbitrary: q)
  case (Cons v vs)
  from Cons.prems(2) obtain q2 where q2: "replay_record env (live st q) v = Ok q2"
    "try_fold (replay_record env) q2 vs = Ok q1"
    by (auto simp: result_simps split: result.splits)
  have fresh: "fresh_entries env st [v]" "fresh_entries env st vs"
    using Cons.prems(3) by (simp_all add: fresh_entries_def)
  from live_replay_record [OF Cons.prems(1) q2(1) fresh(1)] obtain q' where
    q': "replay_record env q v = Ok q'" "wf_queue q'" "live st q' = q2" by blast
  from Cons.IH [OF q'(2)] q2(2) q'(3) fresh(2) q'(1) show ?case by simp
qed simp

lemma live_cong:
  "(\<And>e. e \<in> set (entry_ids q) \<Longrightarrow> get_entry st e = None \<longleftrightarrow> get_entry st' e = None) \<Longrightarrow> live st q = live st' q"
  by (auto simp: live_def entry_ids_def intro!: queue_eqI filter_cong)

section \<open>Operations keep the queue recoverable\<close>

lemma reject_item_frame [simp]:
  "qs_queue (reject_item describe e item s) = qs_queue s"
  "qs_transcript (reject_item describe e item s) = qs_transcript s"
  by (simp_all add: reject_item_def split: option.split queue_waiter.split)

lemma fold_reject_frame [simp]:
  "qs_queue (fold (reject_item describe e) items s) = qs_queue s"
  "qs_transcript (fold (reject_item describe e) items s) = qs_transcript s"
  by (induction items arbitrary: s) simp_all

lemma recoverable_cong:
  "qs_queue s' = qs_queue s \<Longrightarrow> qs_transcript s' = qs_transcript s \<Longrightarrow> recoverable env claim s' = recoverable env claim s"
  by (simp add: recoverable_def)

lemma queue_record_typed:
  assumes "queue_record io k t run kind payload = Ok rw" "id_ok (ts_lane t)" "opt_id_ok run"
    "typed_payload record_keys payload"
  shows "typed_record (fst rw) \<and> new_view rw = (kind, the (as_object payload))"
  using assms
  by (auto simp: queue_record_def id_try_from_def typed_record_def new_view_def id_ok_def
      split: if_splits result.splits)

lemma typed_enqueued_payload: "typed_payload record_keys (enqueued_payload env i)"
  by (simp add: typed_payload_def enqueued_payload_def payload_clear_def keys_def record_keys_def)

lemma typed_cancelled_payload: "typed_payload record_keys (cancelled_payload qid reason)"
  by (simp add: typed_payload_def cancelled_payload_def payload_clear_def keys_def record_keys_def)

lemma commit_records_entries:
  assumes "commit_records env ws now rs t = (t', r)" "\<forall>rw \<in> set rs. typed_record (fst rw)" "now \<le> u64_max"
  shows "get_entry (ts_store t') = get_entry (ts_store t)"
  using assms append_records_frame [OF assms(2,3), of env "ts_store t"] sync_state
  by (auto simp: commit_records_def get_entry_def fun_eq_iff split: result.splits prod.splits)
    (metis fst_conv sync_state)+

lemma log_extend_recoverable:
  assumes "recoverable env claim s" "get_entry (ts_store t) = get_entry (ts_store (qs_transcript s))"
    and log: "\<And>q. try_fold (replay_record env) empty_queue (transcript_view (qs_transcript s)) = Ok q \<Longrightarrow>
      try_fold (replay_record env) empty_queue (transcript_view t) = try_fold (replay_record env) q vs"
    and "try_fold (replay_record env) (strip_queue (with_claim claim (qs_queue s))) vs = Ok (strip_queue (with_claim claim' q))"
    and "wf_queue (with_claim claim' q)" "typed_queue env (with_claim claim' q)"
    and "fresh_entries env (ts_store (qs_transcript s)) vs"
  shows "recoverable env claim' (s\<lparr>qs_transcript := t, qs_queue := q\<rparr>)"
proof -
  from assms(1) obtain lq where lq: "wf_queue lq"
    "try_fold (replay_record env) empty_queue (transcript_view (qs_transcript s)) = Ok lq"
    "live (ts_store (qs_transcript s)) lq = strip_queue (with_claim claim (qs_queue s))"
    by (auto simp: recoverable_def)
  from live_replay [OF lq(1) _ assms(7)] lq(3) assms(4) obtain lq' where
    "try_fold (replay_record env) lq vs = Ok lq'" "wf_queue lq'"
    "live (ts_store (qs_transcript s)) lq' = strip_queue (with_claim claim' q)" by auto
  with log [OF lq(2)] assms(2,5,6) show ?thesis by (auto simp: recoverable_def live_def)
qed

lemma commit_recoverable:
  assumes "recoverable env claim s" "commit_queue_records io rs s = (s', Ok u)" "qi_env io = env"
    and "list_all (\<lambda>rw. typed_record (fst rw)) rs" "qi_now io \<le> u64_max"
    and "try_fold (replay_record env) (strip_queue (with_claim claim (qs_queue s))) (map new_view rs) =
      Ok (strip_queue (with_claim claim' q))"
    and "wf_queue (with_claim claim' q)" "typed_queue env (with_claim claim' q)"
    and "fresh_entries env (ts_store (qs_transcript s)) (map new_view rs)"
  shows "recoverable env claim' (s'\<lparr>qs_queue := q\<rparr>) \<and> qs_queue s' = qs_queue s"
proof -
  from assms(2) obtain t where t: "commit_records env (qi_sync io) (qi_now io) rs (qs_transcript s) = (t, Ok u)"
    "s' = s\<lparr>qs_transcript := t\<rparr>"
    by (auto simp: commit_queue_records_def assms(3) split: prod.splits)
  have "list_all (\<lambda>rw. typed_record (fst rw) \<and> qi_now io \<le> u64_max) rs"
    using assms(4,5) by (simp add: list_all_iff)
  note log = transcript_log.replay_commit [OF this t(1), of "replay_record env"]
  have entries: "get_entry (ts_store t) = get_entry (ts_store (qs_transcript s))"
    using commit_records_entries [OF t(1)] assms(4,5) by (simp add: list_all_iff)
  have "recoverable env claim' (s\<lparr>qs_transcript := t, qs_queue := q\<rparr>)"
    using log_extend_recoverable [OF assms(1) entries log assms(6-9)] .
  with t(2) show ?thesis by simp
qed

lemma enqueue_recoverable:
  assumes rec: "recoverable env claim s" and env: "qi_env io = env" "io_ok io s"
    and item: "typed_item env item" "item_id item \<notin> set (queue_ids (with_claim claim (qs_queue s)))" "id_ok run"
    and entry: "pi_entry_id item \<notin> set (entry_ids (with_claim claim (qs_queue s)))"
      "get_entry (ts_store (qs_transcript s)) (pi_entry_id item) = None"
    and ok: "enqueue_pending io run cancellation item s = (s', Ok u)"
  shows "recoverable env claim s'"
proof -
  from ok obtain rw s1 where rw: "queue_record io 0 (qs_transcript s) (Some run) QueueEnqueued (enqueued_payload env item) = Ok rw"
    and c: "commit_queue_records io [rw] s = (s1, Ok ())" and s': "s' = s1\<lparr>qs_queue := push item (qs_queue s1)\<rparr>"
    by (auto simp: enqueue_pending_def env(1) split: result.splits if_splits prod.splits)
  have typed: "typed_record (fst rw)" "new_view rw = (QueueEnqueued, the (as_object (enqueued_payload env item)))"
    using queue_record_typed [OF rw] env(2) item(3) typed_enqueued_payload
    by (auto simp: io_ok_def opt_id_ok_def)
  let ?q = "with_claim claim (qs_queue s)"
  have wf: "wf_queue ?q" "typed_queue env ?q" using rec by (simp_all add: recoverable_def)
  have "fst (remove_item (item_id item) (strip_queue ?q)) = strip_queue ?q"
    using remove_item_absent [OF item(2)] by (simp add: remove_item_strip)
  then have replay: "try_fold (replay_record env) (strip_queue ?q) (map new_view [rw]) =
      Ok (strip_queue (with_claim claim (push item (qs_queue s))))"
    using item(1) by (simp add: typed(2) replay_enqueued push_strip push_with_claim)
  note eq = push_with_claim [of claim item "qs_queue s"]
  have "wf_queue (with_claim claim (push item (qs_queue s)))" "typed_queue env (with_claim claim (push item (qs_queue s)))"
    using wf_with_claim_cong [OF eq] typed_with_claim_cong [OF eq] wf_queue_push [OF wf(1) item(2)]
      typed_queue_push [OF wf(2) item(1) entry(1)] by simp_all
  moreover have "fresh_entries env (ts_store (qs_transcript s)) (map new_view [rw])"
    using entry(2) enqueued_roundtrip [OF item(1)] by (simp add: fresh_entries_def typed(2))
  ultimately show ?thesis
    using commit_recoverable [OF rec c env(1) _ _ replay] typed(1) env(2) s' by (auto simp: io_ok_def)
qed

lemma ids_filter: "item_id ` {i \<in> X. item_id i \<noteq> qid} = item_id ` X - {qid}"
  by blast

lemma removed_recoverable_step:
  assumes "wf_queue (with_claim claim q)" "typed_queue env (with_claim claim q)" "qid \<in> set (queue_ids q)"
  defines "q' \<equiv> fst (remove_item qid q)"
  shows "strip_queue (fst (remove_item qid (with_claim claim q))) = strip_queue (with_claim claim q') \<and>
    wf_queue (with_claim claim q') \<and> typed_queue env (with_claim claim q') \<and>
    set (queue_ids q') = set (queue_ids q) - {qid}"
proof -
  have eq: "strip_queue (fst (remove_item qid (with_claim claim q))) = strip_queue (with_claim claim q')"
    unfolding q'_def by (rule remove_with_claim [OF assms(1,3)])
  have d': "distinct (queue_ids q)"
    by (rule distinct_ids_with_claim [OF assms(1)])
  have "set (queue_ids q') = set (queue_ids q) - {qid}"
    unfolding q'_def remove_item_filter [OF d'] by (simp add: queue_ids_def ids_filter Un_Diff)
  with eq wf_with_claim_cong [OF eq] typed_with_claim_cong [OF eq] wf_queue_remove [OF assms(1), of qid]
    typed_queue_remove [OF assms(1,2), of qid] show ?thesis by simp
qed

lemma typed_queue_id:
  "typed_queue env (with_claim claim q) \<Longrightarrow> qid \<in> set (queue_ids q) \<Longrightarrow> id_ok qid"
  by (auto simp: typed_queue_def with_claim_lanes queue_ids_def typed_item_def)

lemma remove_recoverable:
  assumes rec: "recoverable env claim s" and env: "qi_env io = env" "io_ok io s"
    and ok: "remove_pending_message io qid s = (s', Ok u)"
  shows "recoverable env claim s'"
proof (cases "qid \<in> set (queue_ids (qs_queue s))")
  case False
  with ok rec show ?thesis by (simp add: remove_pending_message_def)
next
  case True
  let ?q' = "fst (remove_item qid (qs_queue s))"
  from ok True obtain rw s1 where rw: "queue_record io 0 (qs_transcript s) None QueueCancelled (cancelled_payload qid QcRemoved) = Ok rw"
    and c: "commit_queue_records io [rw] s = (s1, Ok ())"
    and s': "qs_queue s' = fst (remove_item qid (qs_queue s1))" "qs_transcript s' = qs_transcript s1"
    by (auto simp: remove_pending_message_def split: result.splits prod.splits option.splits)
  have typed: "typed_record (fst rw)" "new_view rw = (QueueCancelled, the (as_object (cancelled_payload qid QcRemoved)))"
    using queue_record_typed [OF rw] env(2) typed_cancelled_payload by (auto simp: io_ok_def opt_id_ok_def)
  have wf: "wf_queue (with_claim claim (qs_queue s))" "typed_queue env (with_claim claim (qs_queue s))"
    using rec by (simp_all add: recoverable_def)
  note step = removed_recoverable_step [OF wf True]
  have "try_fold (replay_record env) (strip_queue (with_claim claim (qs_queue s))) (map new_view [rw]) =
      Ok (strip_queue (with_claim claim ?q'))"
    using step typed_queue_id [OF wf(2) True] by (simp add: typed(2) replay_cancelled remove_item_strip)
  from commit_recoverable [OF rec c env(1) _ _ this] typed env(2) step
  have "recoverable env claim (s1\<lparr>qs_queue := ?q'\<rparr>)" "qs_queue s1 = qs_queue s"
    by (auto simp: io_ok_def fresh_entries_def)
  with s' recoverable_cong [of s' "s1\<lparr>qs_queue := ?q'\<rparr>"] show ?thesis by simp
qed

text \<open>Several removals in a row.\<close>

definition remove_all :: "queue_id list \<Rightarrow> pending_queue \<Rightarrow> pending_queue" where
  "remove_all qids q = fold (\<lambda>qid q. fst (remove_item qid q)) qids q"

lemma remove_all_simps [simp]:
  "remove_all [] q = q" "remove_all (qid # qids) q = remove_all qids (fst (remove_item qid q))"
  by (simp_all add: remove_all_def)

lemma cancellation_records_replay:
  assumes "cancellation_records io k t reason qids = Ok rs" "id_ok (ts_lane t)"
    and "wf_queue (with_claim claim q)" "typed_queue env (with_claim claim q)"
    and "set qids \<subseteq> set (queue_ids q)" "distinct qids"
  shows "list_all (\<lambda>rw. typed_record (fst rw) \<and> fst (new_view rw) = QueueCancelled) rs \<and>
    try_fold (replay_record env) (strip_queue (with_claim claim q)) (map new_view rs) =
      Ok (strip_queue (with_claim claim (remove_all qids q))) \<and>
    wf_queue (with_claim claim (remove_all qids q)) \<and> typed_queue env (with_claim claim (remove_all qids q))"
  using assms
proof (induction qids arbitrary: k rs q)
  case (Cons qid qids)
  from Cons.prems(1) obtain rw rs' where
    rw: "queue_record io k t None QueueCancelled (cancelled_payload qid reason) = Ok rw"
    and rs': "cancellation_records io (Suc k) t reason qids = Ok rs'" and rs: "rs = rw # rs'"
    by (auto simp: result_simps split: result.splits)
  have typed: "typed_record (fst rw)" "new_view rw = (QueueCancelled, the (as_object (cancelled_payload qid reason)))"
    using queue_record_typed [OF rw Cons.prems(2)] typed_cancelled_payload by (auto simp: opt_id_ok_def)
  have mem: "qid \<in> set (queue_ids q)" using Cons.prems(5) by simp
  note step = removed_recoverable_step [OF Cons.prems(3,4) mem]
  have "set qids \<subseteq> set (queue_ids (fst (remove_item qid q)))" using Cons.prems(5,6) step by auto
  with Cons.IH [OF rs' Cons.prems(2), of "fst (remove_item qid q)"] step Cons.prems(6)
  have IH: "list_all (\<lambda>rw. typed_record (fst rw) \<and> fst (new_view rw) = QueueCancelled) rs'"
    "try_fold (replay_record env) (strip_queue (with_claim claim (fst (remove_item qid q)))) (map new_view rs') =
      Ok (strip_queue (with_claim claim (remove_all (qid # qids) q)))"
    "wf_queue (with_claim claim (remove_all (qid # qids) q))"
    "typed_queue env (with_claim claim (remove_all (qid # qids) q))" by auto
  have "replay_record env (strip_queue (with_claim claim q)) (new_view rw) =
      Ok (strip_queue (with_claim claim (fst (remove_item qid q))))"
    using step typed_queue_id [OF Cons.prems(4) mem] by (simp add: typed(2) replay_cancelled remove_item_strip)
  with IH typed show ?case by (simp add: rs)
qed simp

lemma remove_all_lanes:
  assumes "wf_queue q"
  shows "remove_all qids q = q\<lparr>pq_steering := filter (\<lambda>i. item_id i \<notin> set qids) (pq_steering q),
    pq_follow_up := filter (\<lambda>i. item_id i \<notin> set qids) (pq_follow_up q)\<rparr>"
  using assms
proof (induction qids arbitrary: q)
  case (Cons qid qids)
  have "distinct (queue_ids q)" using Cons.prems by (simp add: wf_queue_def)
  from remove_item_filter [OF this, of qid] Cons.IH [OF wf_queue_remove [OF Cons.prems, of qid]]
  show ?case by (simp add: filter_filter conj_commute)
qed simp

text \<open>All cancellations of a clear or a withdrawal in one commit.\<close>

lemma cancel_recoverable:
  assumes rec: "recoverable env claim s" and env: "qi_env io = env" "io_ok io s"
    and ids: "set qids \<subseteq> set (queue_ids (qs_queue s))" "distinct qids"
    and rs: "cancellation_records io 0 (qs_transcript s) reason qids = Ok rs"
    and c: "commit_queue_records io rs s = (s', Ok u)"
  shows "recoverable env claim (s'\<lparr>qs_queue := remove_all qids (qs_queue s)\<rparr>) \<and> qs_queue s' = qs_queue s"
proof -
  have wf: "wf_queue (with_claim claim (qs_queue s))" "typed_queue env (with_claim claim (qs_queue s))"
    "id_ok (ts_lane (qs_transcript s))" "qi_now io \<le> u64_max"
    using rec env(2) by (simp_all add: recoverable_def io_ok_def)
  note replay = cancellation_records_replay [OF rs wf(3,1,2) ids]
  then have "fresh_entries env (ts_store (qs_transcript s)) (map new_view rs)"
    by (auto simp: fresh_entries_def list_all_iff)
  from commit_recoverable [OF rec c env(1) _ wf(4) _ _ _ this] replay show ?thesis
    by (auto simp: list_all_iff)
qed

lemma recoverable_open [simp]:
  "recoverable env claim (s\<lparr>qs_queue := (qs_queue s)\<lparr>pq_open := b\<rparr>\<rparr>) = recoverable env claim s"
proof -
  have "strip_queue (with_claim claim ((qs_queue s)\<lparr>pq_open := b\<rparr>)) = strip_queue (with_claim claim (qs_queue s))"
    by (simp add: strip_queue_def with_claim_lanes)
  from wf_with_claim_cong [OF this] typed_with_claim_cong [OF this] this show ?thesis
    by (simp add: recoverable_def)
qed

lemma wf_queue_without_claim: "wf_queue (with_claim claim q) \<Longrightarrow> wf_queue q"
proof -
  assume wf: "wf_queue (with_claim claim q)"
  have "set (pq_steering q) \<subseteq> set (pq_steering (with_claim claim q))"
    "set (pq_follow_up q) \<subseteq> set (pq_follow_up (with_claim claim q))" by (simp_all add: with_claim_lanes)
  with wf distinct_ids_with_claim [OF wf] show ?thesis unfolding wf_queue_def by blast
qed

lemma clear_recoverable:
  assumes rec: "recoverable env claim s" and env: "qi_env io = env" "io_ok io s"
    and ok: "clear_pending_messages io s = (s', Ok u)"
  shows "recoverable env claim s'"
proof -
  let ?ids = "queue_ids (qs_queue s)"
  from ok obtain rs s1 where rs: "cancellation_records io 0 (qs_transcript s) QcCleared ?ids = Ok rs"
    and c: "commit_queue_records io rs s = (s1, Ok ())"
    and s': "qs_queue s' = (qs_queue s1)\<lparr>pq_steering := [], pq_follow_up := []\<rparr>" "qs_transcript s' = qs_transcript s1"
    by (auto simp: clear_pending_messages_def split: result.splits prod.splits)
  have wf: "wf_queue (with_claim claim (qs_queue s))" using rec by (simp add: recoverable_def)
  have "distinct ?ids" by (rule distinct_ids_with_claim [OF wf])
  from cancel_recoverable [OF rec env _ this rs c]
  have r: "recoverable env claim (s1\<lparr>qs_queue := remove_all ?ids (qs_queue s)\<rparr>)" "qs_queue s1 = qs_queue s" by simp_all
  have "remove_all ?ids (qs_queue s) = (qs_queue s)\<lparr>pq_steering := [], pq_follow_up := []\<rparr>"
    unfolding remove_all_lanes [OF wf_queue_without_claim [OF wf]]
    by (simp add: queue_ids_def filter_empty_conv)
  with r s' recoverable_cong [of s' "s1\<lparr>qs_queue := remove_all ?ids (qs_queue s)\<rparr>"] show ?thesis by simp
qed

lemma withdraw_items_queue:
  "qs_queue (withdraw_items io qids s) = remove_all qids (qs_queue s) \<and>
    qs_transcript (withdraw_items io qids s) = qs_transcript s"
proof (induction io qids s rule: withdraw_items.induct)
  case (2 io qid qids s)
  show ?case
  proof (cases "remove_item qid (qs_queue s)")
    case (Pair q item)
    with 2 show ?thesis
      by (cases item) (auto simp: remove_item_def split: option.splits)
  qed
qed simp

lemma withdraw_recoverable:
  assumes rec: "recoverable env claim s" and env: "qi_env io = env" "io_ok io s"
    and ok: "withdraw_pending io s = (s', Ok u)"
  shows "recoverable env claim s'"
proof -
  define s0 where "s0 = s\<lparr>qs_queue := (qs_queue s)\<lparr>pq_open := False\<rparr>\<rparr>"
  define ids where "ids = map item_id (filter (withdrawable s0) (pq_steering (qs_queue s0) @ pq_follow_up (qs_queue s0)))"
  have rec0: "recoverable env claim s0" "io_ok io s0" using rec env(2) by (simp_all add: s0_def io_ok_def)
  show ?thesis
  proof (cases "ids = []")
    case True
    with ok have "s' = s0"
      unfolding withdraw_pending_def Let_def ids_def [symmetric] s0_def [symmetric] by simp
    with rec0 show ?thesis by simp
  next
    case False
    from ok obtain rs s1 where rs: "cancellation_records io 0 (qs_transcript s0) QcWithdrawn ids = Ok rs"
      and c: "commit_queue_records io rs s0 = (s1, Ok ())" and s': "s' = withdraw_items io ids s1"
      using False unfolding withdraw_pending_def Let_def ids_def [symmetric] s0_def [symmetric]
      by (auto split: result.splits prod.splits)
    have "distinct (queue_ids (qs_queue s0))"
      using rec0 by (auto simp: recoverable_def intro: distinct_ids_with_claim)
    then have "distinct ids" "set ids \<subseteq> set (queue_ids (qs_queue s0))"
      unfolding ids_def queue_ids_def by (simp_all add: distinct_map_filter) (auto)
    from cancel_recoverable [OF rec0(1) env(1) rec0(2) this(2,1) rs c]
      recoverable_cong [of s' "s1\<lparr>qs_queue := remove_all ids (qs_queue s0)\<rparr>"] withdraw_items_queue [of io ids s1]
    show ?thesis by (simp add: s')
  qed
qed

lemma live_member:
  assumes "recoverable env claim s" "i \<in> set (pq_steering (qs_queue s) @ pq_follow_up (qs_queue s))"
  shows "get_entry (ts_store (qs_transcript s)) (pi_entry_id i) = None"
proof -
  let ?q = "strip_queue (with_claim claim (qs_queue s))"
  from assms(1) obtain lq where "live (ts_store (qs_transcript s)) lq = ?q" by (auto simp: recoverable_def)
  moreover have "\<forall>j \<in> set (pq_steering (live st lq) @ pq_follow_up (live st lq)). get_entry st (pi_entry_id j) = None" for st
    by (auto simp: live_def)
  ultimately have "\<forall>j \<in> set (pq_steering ?q @ pq_follow_up ?q). get_entry (ts_store (qs_transcript s)) (pi_entry_id j) = None"
    by metis
  moreover have "strip i \<in> set (pq_steering ?q @ pq_follow_up ?q)"
    using assms(2) by (auto simp: strip_queue_def with_claim_lanes)
  ultimately show ?thesis by fastforce
qed

lemma removed_entry_gone:
  assumes "wf_queue q" "typed_queue env q" "i \<in> set (pq_steering q @ pq_follow_up q)"
  shows "pi_entry_id i \<notin> set (entry_ids (fst (remove_item (item_id i) q)))"
proof -
  have d: "distinct (queue_ids q)" "distinct (map pi_entry_id (pq_steering q @ pq_follow_up q))"
    using assms(1,2) by (simp_all add: wf_queue_def typed_queue_def entry_ids_def)
  have "inj_on pi_entry_id (set (pq_steering q @ pq_follow_up q))" using d(2) unfolding distinct_map by simp
  then have "pi_entry_id j \<noteq> pi_entry_id i" if "j \<in> set (pq_steering q) \<union> set (pq_follow_up q)" "item_id j \<noteq> item_id i" for j
    using that assms(3) by (auto dest: inj_onD)
  then show ?thesis
    by (fastforce simp: entry_ids_def remove_item_filter [OF d(1)])
qed

lemma promote_recoverable:
  assumes rec: "recoverable env claim s" and env: "qi_env io = env" "io_ok io s"
    and ok: "promote_pending_message io qid s = (s', Ok b)"
  shows "recoverable env claim s'"
proof (cases "s' = s")
  case False
  let ?q = "qs_queue s" and ?q' = "fst (remove_item qid (qs_queue s))"
  from ok False obtain item rw s1 where found: "find (\<lambda>i. item_id i = qid) (pq_follow_up ?q) = Some item"
    and rw: "queue_record io 0 (qs_transcript s) None QueueEnqueued (enqueued_payload env (promoted_item item)) = Ok rw"
    and c: "commit_queue_records io [rw] s = (s1, Ok ())"
    and s': "s' = s1\<lparr>qs_queue := push (promoted_item item) (fst (remove_item qid (qs_queue s1)))\<rparr>"
    unfolding promote_pending_message_def env(1)
    by (auto split: if_splits option.splits result.splits prod.splits)
  have item: "item \<in> set (pq_steering ?q @ pq_follow_up ?q)" "item_id item = qid" using found by (auto simp: find_Some_iff)
  then have mem: "qid \<in> set (queue_ids ?q)" by (auto simp: queue_ids_def)
  have typed: "typed_record (fst rw)" "new_view rw = (QueueEnqueued, the (as_object (enqueued_payload env (promoted_item item))))"
    using queue_record_typed [OF rw] env(2) typed_enqueued_payload by (auto simp: io_ok_def opt_id_ok_def)
  let ?c = "with_claim claim ?q" and ?p = "promoted_item item"
  let ?r = "fst (remove_item qid ?c)"
  have wf: "wf_queue ?c" "typed_queue env ?c" using rec by (simp_all add: recoverable_def)
  have item': "item \<in> set (pq_steering ?c @ pq_follow_up ?c)" using item(1) by (auto simp: with_claim_lanes)
  have ti: "typed_item env ?p" "item_id ?p = qid" "pi_entry_id ?p = pi_entry_id item"
    using wf(2) item' item(2) by (auto simp: typed_queue_def typed_item_def promoted_item_def)
  note step = removed_recoverable_step [OF wf mem]
  have lanes: "strip_queue (push ?p ?r) = strip_queue (with_claim claim (push ?p ?q'))"
    using step by (simp add: push_with_claim push_strip [symmetric])
  have replay: "try_fold (replay_record env) (strip_queue ?c) (map new_view [rw]) =
      Ok (strip_queue (with_claim claim (push ?p ?q')))"
    using ti by (simp add: typed(2) replay_enqueued remove_item_strip push_strip lanes)
  have "wf_queue (push ?p ?r)"
    using wf_queue_push [OF wf_queue_remove [OF wf(1), of qid]] remove_item_gone [OF wf(1), of qid] ti(2) by simp
  moreover have "typed_queue env (push ?p ?r)"
    using typed_queue_push [OF typed_queue_remove [OF wf, of qid] ti(1)] removed_entry_gone [OF wf item'] item(2) ti(3) by simp
  ultimately have "wf_queue (with_claim claim (push ?p ?q'))" "typed_queue env (with_claim claim (push ?p ?q'))"
    using wf_with_claim_cong [OF lanes] typed_with_claim_cong [OF lanes] by simp_all
  moreover have "fresh_entries env (ts_store (qs_transcript s)) (map new_view [rw])"
    using live_member [OF rec item(1)] enqueued_roundtrip [OF ti(1)] ti(3) by (simp add: fresh_entries_def typed(2))
  ultimately show ?thesis
    using commit_recoverable [OF rec c env(1) _ _ replay] typed(1) env(2) s' by (auto simp: io_ok_def)
qed (use rec in simp)

lemma claim_recoverable:
  "claim_next_or_close allow q = (q', claim) \<Longrightarrow> wf_queue q \<Longrightarrow>
    strip_queue (with_claim claim q') = strip_queue q"
  by (rule queue_eqI)
    (auto simp: claim_next_or_close_def strip_queue_def with_claim_lanes wf_queue_def split: list.splits if_splits)

lemma strip_queue_recoverable:
  assumes "strip_queue (with_claim claim' q) = strip_queue (with_claim claim (qs_queue s))" "recoverable env claim s"
  shows "recoverable env claim' (s\<lparr>qs_queue := q\<rparr>)"
  using assms wf_with_claim_cong [OF assms(1)] typed_with_claim_cong [OF assms(1), of env]
  by (simp add: recoverable_def)

lemma remove_claimed:
  assumes "wf_queue (with_claim (Some item) q)"
  shows "fst (remove_item (item_id item) (with_claim (Some item) q)) = q"
proof (cases "item_kind item")
  case Steering
  then show ?thesis by (simp add: with_claim_def return_claim_def remove_item_def)
next
  case FollowUp
  have "item_id item \<notin> item_id ` set (pq_steering q)"
    using assms FollowUp by (auto simp: wf_queue_def queue_ids_def with_claim_lanes)
  then have "find (\<lambda>i. item_id i = item_id item) (pq_steering q) = None" by (simp add: find_none)
  with FollowUp show ?thesis by (simp add: with_claim_def return_claim_def remove_item_def)
qed

end
