(* ===== verification/Queue_Recovery.thy ===== *)
theory Queue_Recovery
  imports Queue_Props
begin

text \<open>
  The pending queue over a whole session, as a state machine: clients and the run enqueue, remove,
  clear, promote, withdraw, claim and consume in any order, with writes that succeed or fail, and
  what recovery would rebuild from the log is always the queue in memory.
\<close>

section \<open>Restoring drops the items that were consumed\<close>

lemma restore_round_steering:
  assumes "distinct (map item_id (xs @ ys))" "\<forall>i \<in> set xs. item_kind i = Steering"
  shows "restore_round st (map item_id xs @ ids) \<lparr>pq_open = b, pq_steering = xs @ ys, pq_follow_up = f\<rparr> =
    restore_round st ids \<lparr>pq_open = b,
      pq_steering = ys @ filter (\<lambda>i. get_entry st (pi_entry_id i) = None) xs, pq_follow_up = f\<rparr>"
  using assms
proof (induction xs arbitrary: ys)
  case (Cons x xs)
  then show ?case
    using Cons.IH [of ys] Cons.IH [of "ys @ [x]"] by (auto simp: remove_item_def push_def)
qed simp

lemma restore_round_follow_up:
  assumes "distinct (map item_id (xs @ ys))" "\<forall>i \<in> set xs. item_kind i = FollowUp \<and> item_id i \<notin> item_id ` set g"
  shows "restore_round st (map item_id xs @ ids) \<lparr>pq_open = b, pq_steering = g, pq_follow_up = xs @ ys\<rparr> =
    restore_round st ids \<lparr>pq_open = b, pq_steering = g,
      pq_follow_up = ys @ filter (\<lambda>i. get_entry st (pi_entry_id i) = None) xs\<rparr>"
  using assms
proof (induction xs arbitrary: ys)
  case (Cons x xs)
  have "find (\<lambda>i. item_id i = item_id x) g = None" using Cons.prems(2) by (simp add: find_none)
  with Cons show ?case
    using Cons.IH [of ys] Cons.IH [of "ys @ [x]"] by (auto simp: remove_item_def push_def)
qed simp

lemma restore_round_live: "wf_queue q \<Longrightarrow> restore_round st (queue_ids q) q = live st q"
proof -
  assume wf: "wf_queue q"
  obtain b xs ys where q: "q = \<lparr>pq_open = b, pq_steering = xs, pq_follow_up = ys\<rparr>" by (cases q)
  have d: "distinct (map item_id (xs @ []))" "distinct (map item_id (ys @ []))" "\<forall>i \<in> set xs. item_kind i = Steering"
    and y: "\<forall>i \<in> set ys. item_kind i = FollowUp \<and> item_id i \<notin> item_id ` set (filter P xs)" for P
    using wf by (auto simp: q wf_queue_def queue_ids_def)
  show ?thesis
    using restore_round_steering [OF d(1,3), of st "map item_id ys" b ys] restore_round_follow_up [OF d(2) y, of st "[]" b]
    by (simp add: q queue_ids_def live_def)
qed

lemma recoverable_restore:
  assumes "recoverable env claim s"
  shows "restore env (ts_store (qs_transcript s)) = Ok (strip_queue (with_claim claim (qs_queue s)))"
  using assms restore_round_live
  by (auto simp: recoverable_def restore_def from_records_def transcript_view_def result_simps)

section \<open>Consuming a claim\<close>

lemma append_entry_records:
  assumes "append_entry env w now lane e st = (st', Ok stored)" "store_inv lane st" "typed_entry e" "now \<le> u64_max"
  shows "store_records st' = store_records st \<and> get_entry st' = (get_entry st)(ne_id e := Some stored)"
proof -
  have acc: "w = Written" "entry_accepted env now lane e st"
    using append_entry_accepted [OF assms(1,3)] assms(2,4) by (auto simp: store_inv_def)
  with append_entry_Ok [OF acc(2)] assms(1) show ?thesis
    by (auto simp: store_records_def get_entry_def fun_eq_iff new_session_entry_def)
qed

lemma live_one_more:
  assumes "\<And>e. get_entry st' e = None \<longleftrightarrow> get_entry st e = None \<and> e \<noteq> i"
  shows "live st' lq = (live st lq)\<lparr>
    pq_steering := filter (\<lambda>j. pi_entry_id j \<noteq> i) (pq_steering (live st lq)),
    pq_follow_up := filter (\<lambda>j. pi_entry_id j \<noteq> i) (pq_follow_up (live st lq))\<rparr>"
  by (simp add: live_def filter_filter assms conj_commute)

text \<open>Once its reserved entry is in the store, a claimed item is gone from what recovery finds.\<close>

lemma live_consumed:
  assumes "typed_queue env (with_claim (Some item) q)"
    and "live st lq = strip_queue (with_claim (Some item) q)"
    and "\<And>e. get_entry st' e = None \<longleftrightarrow> get_entry st e = None \<and> e \<noteq> pi_entry_id item"
  shows "live st' lq = strip_queue q"
proof -
  have d: "distinct (entry_ids (with_claim (Some item) q))" using assms(1) by (simp add: typed_queue_def)
  have ne: "pi_entry_id i \<noteq> pi_entry_id item" if "i \<in> set (pq_steering q @ pq_follow_up q)" for i
    using d that by (cases "item_kind item") (auto simp: entry_ids_def with_claim_lanes, (metis image_eqI)+)
  have "live st' lq = (live st lq)\<lparr>
      pq_steering := filter (\<lambda>i. pi_entry_id i \<noteq> pi_entry_id item) (pq_steering (live st lq)),
      pq_follow_up := filter (\<lambda>i. pi_entry_id i \<noteq> pi_entry_id item) (pq_follow_up (live st lq))\<rparr>"
    by (rule live_one_more [OF assms(3)])
  also have "\<dots> = strip_queue q"
    using ne unfolding assms(2)
    by (cases "item_kind item"; intro queue_eqI) (auto simp: strip_queue_def with_claim_lanes filter_map comp_def filter_id_conv)
  finally show ?thesis .
qed

lemma remove_absent_replay:
  assumes "id_ok qid" "qid \<notin> set (queue_ids q)"
  shows "try_fold (replay_record env) (strip_queue q) [(QueueCancelled, the (as_object (cancelled_payload qid reason)))] =
    Ok (strip_queue q)"
  using assms remove_item_absent [OF assms(2)] by (simp add: replay_cancelled remove_item_strip)

lemma claimed_absent: "wf_queue (with_claim (Some item) q) \<Longrightarrow> item_id item \<notin> set (queue_ids q)"
  by (cases "item_kind item") (auto simp: wf_queue_def queue_ids_def with_claim_lanes)

lemma recoverable_entry_written:
  assumes rec: "recoverable env (Some item) s"
    and append: "append_entry (senv env) w now (ts_lane t) e (ts_store t) = (st, Ok stored)"
    and ok: "store_inv (ts_lane t) (ts_store t)" "typed_entry e" "now \<le> u64_max" "ne_id e = pi_entry_id item"
    and t: "qs_transcript s = t" "ts_store t' = st"
  shows "recoverable env None (s\<lparr>qs_transcript := t'\<rparr>)"
proof -
  note eff = append_entry_records [OF append ok(1-3)]
  from rec obtain lq where lq: "wf_queue lq" "try_fold (replay_record env) empty_queue (transcript_view t) = Ok lq"
    "live (ts_store t) lq = strip_queue (with_claim (Some item) (qs_queue s))"
    and wf: "wf_queue (with_claim (Some item) (qs_queue s))" "typed_queue env (with_claim (Some item) (qs_queue s))"
    by (auto simp: recoverable_def t)
  have "live st lq = strip_queue (qs_queue s)"
    by (rule live_consumed [OF wf(2) lq(3)]) (use eff ok(4) in auto)
  moreover have "wf_queue (qs_queue s)" by (rule wf_queue_without_claim [OF wf(1)])
  moreover have "typed_queue env (qs_queue s)"
    using typed_queue_remove [OF wf, of "item_id item"] remove_claimed [OF wf(1)] by simp
  ultimately show ?thesis
    using lq(1,2) eff by (auto simp: recoverable_def with_claim_def transcript_view_def t)
qed

lemma append_record_view:
  assumes "append_record env w now r st = (st', Ok stored)" "typed_record r" "now \<le> u64_max"
  shows "store_records st' = store_records st @ [new_session_record st now r] \<and> get_entry st' = get_entry st"
  using append_record_accepted [OF assms] append_record_Ok [of now r st env] assms(1)
  by (auto simp: store_records_def get_entry_def fun_eq_iff)

text \<open>The cancellation record of a consumed item changes nothing that is still pending.\<close>

lemma recoverable_record_written:
  assumes rec: "recoverable env None s" and append: "append_record (senv env) w now r st = (st', Ok stored)"
    and ok: "typed_record r" "now \<le> u64_max" "nr_kind r = QueueCancelled" "nr_payload r = cancelled_payload qid QcConsumed"
      "id_ok qid" "qid \<notin> set (queue_ids (qs_queue s))"
    and t: "ts_store (qs_transcript s) = st" "ts_store t' = st'"
  shows "recoverable env None (s\<lparr>qs_transcript := t'\<rparr>)"
proof -
  let ?v = "(QueueCancelled, the (as_object (cancelled_payload qid QcConsumed)))"
  note eff = append_record_view [OF append ok(1,2)]
  have view: "transcript_view t' = transcript_view (qs_transcript s) @ [?v]"
    using eff by (simp add: transcript_view_def t record_view_def new_session_record_def ok)
  have "recoverable env None (s\<lparr>qs_transcript := t', qs_queue := qs_queue s\<rparr>)"
  proof (rule log_extend_recoverable [OF rec, where vs = "[?v]"])
    show "try_fold (replay_record env) (strip_queue (with_claim None (qs_queue s))) [?v] =
        Ok (strip_queue (with_claim None (qs_queue s)))"
      unfolding with_claim_def option.case by (rule remove_absent_replay [OF ok(5,6)])
  qed (use rec eff view in \<open>simp_all add: t try_fold_append recoverable_def fresh_entries_def\<close>)
  then show ?thesis by simp
qed

lemma transcript_of_reject [simp]:
  "recoverable env claim (reject_item describe e item s) = recoverable env claim s"
  by (rule recoverable_cong) simp_all

lemma recoverable_store_state:
  assumes "recoverable env claim s" "js_state (ts_store t) = js_state (ts_store (qs_transcript s))"
  shows "recoverable env claim (s\<lparr>qs_transcript := t\<rparr>)"
proof -
  have "get_entry (ts_store t) = get_entry (ts_store (qs_transcript s))" by (simp add: get_entry_def fun_eq_iff assms(2))
  moreover have "transcript_view t = transcript_view (qs_transcript s)"
    by (simp add: transcript_view_def store_records_def assms(2))
  ultimately show ?thesis using assms(1) by (auto simp: recoverable_def live_def)
qed

lemma claimed_live:
  assumes "recoverable env (Some item) s"
  shows "get_entry (ts_store (qs_transcript s)) (pi_entry_id item) = None"
proof -
  have "recoverable env None (s\<lparr>qs_queue := with_claim (Some item) (qs_queue s)\<rparr>)"
    by (rule strip_queue_recoverable [OF _ assms]) (simp add: with_claim_def)
  from live_member [OF this, of item] show ?thesis by (cases "item_kind item") (simp_all add: with_claim_lanes)
qed

text \<open>Whatever the outcome of its writes, consuming a claim leaves the item either pending or stored.\<close>

lemma commit_consumed_recoverable:
  assumes rec: "recoverable env (Some item) s" and inv: "transcript_inv env (qs_transcript s)"
    and msg: "typed_message env (pi_entry_id item) message" and now: "now \<le> u64_max"
    and r: "typed_record r" "nr_kind r = QueueCancelled" "nr_payload r = cancelled_payload (item_id item) QcConsumed"
    and c: "commit_consumed env w wr now (pi_entry_id item) message r (qs_transcript s) = (t, res)"
  shows "recoverable env (if get_entry (ts_store t) (pi_entry_id item) = None then Some item else None)
      (s\<lparr>qs_transcript := t\<rparr>) \<and>
    (res = Ok () \<longrightarrow> get_entry (ts_store t) (pi_entry_id item) \<noteq> None)"
proof -
  let ?t = "qs_transcript s" and ?e = "message_entry env (pi_entry_id item) message"
  have sinv: "store_inv (ts_lane ?t) (ts_store ?t)" "typed_entry ?e" "ne_id ?e = pi_entry_id item"
    using inv msg by (simp_all add: transcript_inv_def typed_message_def message_entry_def)
  have wf: "wf_queue (with_claim (Some item) (qs_queue s))" "typed_queue env (with_claim (Some item) (qs_queue s))"
    using rec by (simp_all add: recoverable_def)
  have iid: "id_ok (item_id item)"
    using wf(2) by (cases "item_kind item") (auto simp: typed_queue_def with_claim_lanes typed_item_def)
  have same: "recoverable env (Some item) (s\<lparr>qs_transcript := t\<rparr>) \<and> get_entry (ts_store t) (pi_entry_id item) = None"
    if "js_state (ts_store t) = js_state (ts_store ?t)" for t
    using recoverable_store_state [OF rec that] claimed_live [OF rec] that by (simp add: get_entry_def)
  show ?thesis
  proof (cases "writable ?t")
    case (Err x)
    with c same [of ?t] show ?thesis by (auto simp: commit_consumed_def)
  next
    case (Ok u)
    obtain st res1 where a: "append_entry (senv env) w now (ts_lane ?t) ?e (ts_store ?t) = (st, res1)" by force
    show ?thesis
    proof (cases res1)
      case (Err x)
      with a c Ok have "res \<noteq> Ok ()" "js_state (ts_store t) = js_state (ts_store ?t)"
        using append_entry_Err_state [of "senv env" w now "ts_lane ?t" ?e "ts_store ?t"]
        by (auto simp: commit_consumed_def)
      from this(1) same [OF this(2)] show ?thesis by simp
    next
      case o: (Ok stored)
      note rec1 = recoverable_entry_written [OF rec a [unfolded o] sinv(1,2) now sinv(3) refl]
      have stored: "get_entry st (pi_entry_id item) \<noteq> None"
        using append_entry_records [OF a [unfolded o] sinv(1,2) now] sinv(3) by simp
      obtain st' res2 where b: "append_record (senv env) wr now r st = (st', res2)" by force
      have t: "ts_store t = st'" using c Ok a o b by (auto simp: commit_consumed_def Let_def split: result.splits)
      have g: "get_entry st' = get_entry st"
        using append_record_frame [OF r(1) now, of "senv env" wr st] b by (simp add: get_entry_def fun_eq_iff)
      have "recoverable env None (s\<lparr>qs_transcript := t\<rparr>)"
      proof (cases res2)
        case (Err x)
        with b append_record_Err_state [of "senv env" wr now r st]
          recoverable_store_state [OF rec1 [of "?t\<lparr>ts_store := st\<rparr>"], of t] t show ?thesis by simp
      next
        case (Ok stored2)
        from recoverable_record_written [OF rec1 [of "?t\<lparr>ts_store := st\<rparr>"] b [unfolded Ok] r(1) now r(2,3) iid, of t]
          claimed_absent [OF wf(1)] t show ?thesis by simp
      qed
      with stored g t show ?thesis by auto
    qed
  qed
qed

section \<open>The state machine\<close>

text \<open>
  A configuration is the outstanding claim and the session. The side conditions of the rules are
  what the identifier generator and the message codec promise.
\<close>

type_synonym queue_config = "pending_item option \<times> queue_session"

inductive queue_step :: "transcript_env \<Rightarrow> queue_config \<Rightarrow> queue_config \<Rightarrow> bool" for env where
  enqueue: "queue_step env (claim, s) (claim, fst (enqueue_pending io run cancellation item s))"
    if "qi_env io = env" "qi_now io \<le> u64_max" "typed_item env item" "id_ok run"
      "item_id item \<notin> set (queue_ids (with_claim claim (qs_queue s)))"
      "pi_entry_id item \<notin> set (entry_ids (with_claim claim (qs_queue s)))"
      "get_entry (ts_store (qs_transcript s)) (pi_entry_id item) = None"
| remove: "queue_step env (claim, s) (claim, fst (remove_pending_message io qid s))"
    if "qi_env io = env" "qi_now io \<le> u64_max"
| clear: "queue_step env (claim, s) (claim, fst (clear_pending_messages io s))"
    if "qi_env io = env" "qi_now io \<le> u64_max"
| promote: "queue_step env (claim, s) (claim, fst (promote_pending_message io qid s))"
    if "qi_env io = env" "qi_now io \<le> u64_max"
| withdraw: "queue_step env (claim, s) (claim, fst (withdraw_pending io s))"
    if "qi_env io = env" "qi_now io \<le> u64_max"
| opened: "queue_step env (claim, s) (claim, s\<lparr>qs_queue := open_queue (qs_cancelled s) (qs_queue s)\<rparr>)"
| closed: "queue_step env (claim, s) (claim, s\<lparr>qs_queue := close_queue (qs_queue s)\<rparr>)"
| cancelled: "queue_step env (claim, s) (claim, s\<lparr>qs_cancelled := b\<rparr>)"
| claimed: "queue_step env (None, s) (claim, s\<lparr>qs_queue := q\<rparr>)"
    if "claim_next_or_close allow_follow_up (qs_queue s) = (q, claim)"
| returned: "queue_step env (Some item, s) (None, s\<lparr>qs_queue := return_claim item (qs_queue s)\<rparr>)"
| consumed: "queue_step env (Some item, s) (None, fst (consume_claimed io item message (fst rw) s))"
    if "qi_env io = env" "qi_now io \<le> u64_max" "typed_message env (pi_entry_id item) message" "id_ok run"
      "queue_record io 1 (qs_transcript s) (Some run) QueueCancelled (cancelled_payload (item_id item) QcConsumed) = Ok rw"
| message: "queue_step env (claim, s) (claim, s\<lparr>qs_transcript := fst (append_context_message env w now i m (qs_transcript s))\<rparr>)"
    if "typed_message env i m" "now \<le> u64_max" "i \<notin> set (entry_ids (with_claim claim (qs_queue s)))"
| sealed: "queue_step env (claim, s) (claim, s\<lparr>qs_transcript := seal (qs_transcript s)\<rparr>)"

inductive queue_reachable :: "transcript_env \<Rightarrow> queue_config \<Rightarrow> bool" for env where
  start: "queue_reachable env (None, s)"
    if "restored env st lane delegated = Some (Ok (qs_transcript s))" "store_inv lane st"
      "restore env st = Ok (qs_queue s)" "typed_queue env (qs_queue s)"
| step: "queue_reachable env c'" if "queue_reachable env c" "queue_step env c c'"

definition queue_inv :: "transcript_env \<Rightarrow> queue_config \<Rightarrow> bool" where
  "queue_inv env = (\<lambda>(claim, s). transcript_inv env (qs_transcript s) \<and>
     (writable (qs_transcript s) = Ok () \<longrightarrow> recoverable env claim s))"

section \<open>The invariant\<close>

text \<open>A queue operation either leaves the log alone, or commits its records in one go and succeeds
  exactly when the commit does.\<close>

definition commits :: "queue_io \<Rightarrow> queue_session \<Rightarrow> queue_session \<Rightarrow> bool \<Rightarrow> bool" where
  "commits io s s' ok \<longleftrightarrow>
     qs_transcript s' = qs_transcript s \<and> (\<forall>claim. recoverable (qi_env io) claim s \<longrightarrow> recoverable (qi_env io) claim s') \<or>
     (\<exists>rs r. commit_records (qi_env io) (qi_sync io) (qi_now io) rs (qs_transcript s) = (qs_transcript s', r) \<and>
        (\<forall>rw \<in> set rs. typed_record (fst rw)) \<and> (ok \<longleftrightarrow> r = Ok ()))"

lemma commit_records_writable:
  "commit_records env ws now rs t = (t', r) \<Longrightarrow> writable t' = Ok () \<Longrightarrow> writable t = Ok () \<and> r = Ok ()"
  by (auto simp: commit_records_def writable_def split: result.splits prod.splits if_splits)

lemma queue_inv_commits:
  assumes "queue_inv env (claim, s)" "qi_env io = env" "qi_now io \<le> u64_max" "commits io s s' ok"
    and "ok \<Longrightarrow> recoverable env claim s \<Longrightarrow> recoverable env claim s'"
  shows "queue_inv env (claim, s')"
  using assms(4) unfolding commits_def
proof (elim disjE exE conjE)
  fix rs r
  assume c: "commit_records (qi_env io) (qi_sync io) (qi_now io) rs (qs_transcript s) = (qs_transcript s', r)"
    "\<forall>rw \<in> set rs. typed_record (fst rw)" "ok \<longleftrightarrow> r = Ok ()"
  have "transcript_inv env (qs_transcript s')"
    using inv_records [OF _ c(2) assms(3), of env "qs_transcript s" "qi_sync io"] c(1) assms(1,2)
    by (simp add: queue_inv_def)
  moreover have "recoverable env claim s'" if "writable (qs_transcript s') = Ok ()"
    using commit_records_writable [OF c(1) that] c(3) assms(1,5) by (simp add: queue_inv_def)
  ultimately show ?thesis by (simp add: queue_inv_def)
qed (use assms(1,2) in \<open>simp add: queue_inv_def\<close>)

lemma commitsI:
  assumes "commit_queue_records io rs s = (s1, r)" "qs_transcript s' = qs_transcript s1"
    "\<forall>rw \<in> set rs. typed_record (fst rw)" "ok \<longleftrightarrow> r = Ok ()"
  shows "commits io s s' ok"
  unfolding commits_def
proof (intro disjI2 exI conjI)
  show "commit_records (qi_env io) (qi_sync io) (qi_now io) rs (qs_transcript s) = (qs_transcript s', r)"
    using assms(1,2) by (auto simp: commit_queue_records_def split: prod.splits)
qed (use assms(3,4) in simp_all)

lemma commits_same [simp]: "commits io s s ok"
  by (simp add: commits_def)

lemma cancellation_records_typed:
  "cancellation_records io k t reason qids = Ok rs \<Longrightarrow> id_ok (ts_lane t) \<Longrightarrow> \<forall>rw \<in> set rs. typed_record (fst rw)"
proof (induction qids arbitrary: k rs)
  case (Cons qid qids)
  from Cons.prems(1) obtain rw rs' where
    "queue_record io k t None QueueCancelled (cancelled_payload qid reason) = Ok rw"
    "cancellation_records io (Suc k) t reason qids = Ok rs'" "rs = rw # rs'"
    by (auto simp: result_simps split: result.splits)
  with Cons queue_record_typed [of io k t None QueueCancelled _ rw] typed_cancelled_payload
  show ?case by (auto simp: opt_id_ok_def)
qed simp

lemma enqueue_commits:
  assumes "id_ok (ts_lane (qs_transcript s))" "id_ok run"
  shows "commits io s (fst (enqueue_pending io run c item s)) (\<exists>x. snd (enqueue_pending io run c item s) = Ok x)"
proof (cases "queue_record io 0 (qs_transcript s) (Some run) QueueEnqueued (enqueued_payload (qi_env io) item)")
  case (Ok rw)
  have typed: "\<forall>rw \<in> set [rw]. typed_record (fst rw)"
    using queue_record_typed [OF Ok assms(1)] assms(2) typed_enqueued_payload by (simp add: opt_id_ok_def)
  obtain s1 r where c: "commit_queue_records io [rw] s = (s1, r)" by force
  show ?thesis
    by (cases r) (auto simp: enqueue_pending_def Ok c intro!: commitsI [OF c _ typed])
qed (simp add: enqueue_pending_def)

lemma remove_commits:
  assumes "id_ok (ts_lane (qs_transcript s))"
  shows "commits io s (fst (remove_pending_message io qid s)) (\<exists>x. snd (remove_pending_message io qid s) = Ok x)"
proof (cases "queue_record io 0 (qs_transcript s) None QueueCancelled (cancelled_payload qid QcRemoved)")
  case (Ok rw)
  have typed: "\<forall>rw \<in> set [rw]. typed_record (fst rw)"
    using queue_record_typed [OF Ok assms] typed_cancelled_payload by (simp add: opt_id_ok_def)
  obtain s1 r where c: "commit_queue_records io [rw] s = (s1, r)" by force
  show ?thesis
    by (cases r; cases "remove_item qid (qs_queue s1)"; cases "snd (remove_item qid (qs_queue s1))")
      (auto simp: remove_pending_message_def Ok c intro!: commitsI [OF c _ typed])
qed (simp add: remove_pending_message_def)

lemma clear_commits:
  assumes "id_ok (ts_lane (qs_transcript s))"
  shows "commits io s (fst (clear_pending_messages io s)) (\<exists>x. snd (clear_pending_messages io s) = Ok x)"
proof (cases "cancellation_records io 0 (qs_transcript s) QcCleared (queue_ids (qs_queue s))")
  case (Ok rs)
  note typed = cancellation_records_typed [OF Ok assms]
  obtain s1 r where c: "commit_queue_records io rs s = (s1, r)" by force
  show ?thesis
    by (cases r) (auto simp: clear_pending_messages_def Ok c intro!: commitsI [OF c _ typed])
qed (simp add: clear_pending_messages_def)

lemma promote_commits:
  assumes "id_ok (ts_lane (qs_transcript s))"
  shows "commits io s (fst (promote_pending_message io qid s)) (\<exists>x. snd (promote_pending_message io qid s) = Ok x)"
proof (cases "find (\<lambda>i. item_id i = qid) (pq_follow_up (qs_queue s))")
  case (Some item)
  show ?thesis
  proof (cases "queue_record io 0 (qs_transcript s) None QueueEnqueued (enqueued_payload (qi_env io) (promoted_item item))")
    case (Ok rw)
    have typed: "\<forall>rw \<in> set [rw]. typed_record (fst rw)"
      using queue_record_typed [OF Ok assms] typed_enqueued_payload by (simp add: opt_id_ok_def)
    obtain s1 r where c: "commit_queue_records io [rw] s = (s1, r)" by force
    show ?thesis
      by (cases r) (auto simp: promote_pending_message_def Some Ok c intro!: commitsI [OF c _ typed])
  qed (simp add: promote_pending_message_def Some)
qed (simp add: promote_pending_message_def)

lemma withdraw_commits:
  assumes "id_ok (ts_lane (qs_transcript s))"
  shows "commits io s (fst (withdraw_pending io s)) (\<exists>x. snd (withdraw_pending io s) = Ok x)"
proof -
  define s0 where "s0 = s\<lparr>qs_queue := (qs_queue s)\<lparr>pq_open := False\<rparr>\<rparr>"
  define ids where "ids = map item_id (filter (withdrawable s0) (pq_steering (qs_queue s0) @ pq_follow_up (qs_queue s0)))"
  note defs = withdraw_pending_def Let_def ids_def [symmetric] s0_def [symmetric]
  have t: "qs_transcript s0 = qs_transcript s" by (simp add: s0_def)
  have same: "commits io s s0 ok" for ok by (simp add: commits_def s0_def)
  show ?thesis
  proof (cases "cancellation_records io 0 (qs_transcript s0) QcWithdrawn ids")
    case (Ok rs)
    note typed = cancellation_records_typed [OF Ok [unfolded t] assms]
    obtain s1 r where c: "commit_queue_records io rs s0 = (s1, r)" by force
    have c': "commit_queue_records io rs s = (s\<lparr>qs_transcript := qs_transcript s1\<rparr>, r)"
      using c by (auto simp: commit_queue_records_def t split: prod.splits)
    show ?thesis
      using same unfolding defs
      by (cases r; cases "ids = []") (auto simp: Ok c withdraw_items_queue intro!: commitsI [OF c' _ typed])
  qed (use same in \<open>unfold defs, simp\<close>)
qed

text \<open>An entry that no pending item has reserved does not matter to the queue.\<close>

lemma recoverable_other_entry:
  assumes rec: "recoverable env claim s" and fresh: "i \<notin> set (entry_ids (with_claim claim (qs_queue s)))"
    and t: "store_records (ts_store t) = store_records (ts_store (qs_transcript s))"
      "get_entry (ts_store t) = (get_entry (ts_store (qs_transcript s)))(i := Some e)"
  shows "recoverable env claim (s\<lparr>qs_transcript := t\<rparr>)"
proof -
  let ?st = "ts_store (qs_transcript s)" and ?q = "strip_queue (with_claim claim (qs_queue s))"
  from rec obtain lq where lq: "wf_queue lq" "try_fold (replay_record env) empty_queue (transcript_view (qs_transcript s)) = Ok lq"
    "live ?st lq = ?q" by (auto simp: recoverable_def)
  have ne: "\<forall>j \<in> set (pq_steering ?q @ pq_follow_up ?q). pi_entry_id j \<noteq> i"
    using fresh by (auto simp: strip_queue_def entry_ids_def)
  have "live (ts_store t) lq = (live ?st lq)\<lparr>
      pq_steering := filter (\<lambda>j. pi_entry_id j \<noteq> i) (pq_steering (live ?st lq)),
      pq_follow_up := filter (\<lambda>j. pi_entry_id j \<noteq> i) (pq_follow_up (live ?st lq))\<rparr>"
    by (rule live_one_more) (simp add: t(2))
  also have "\<dots> = ?q"
    unfolding lq(3) using ne by (intro queue_eqI) (simp_all add: filter_id_conv)
  finally show ?thesis using rec lq t(1) by (auto simp: recoverable_def transcript_view_def)
qed

lemma message_inv:
  assumes inv: "queue_inv env (claim, s)" and m: "typed_message env i m" "now \<le> u64_max"
    and fresh: "i \<notin> set (entry_ids (with_claim claim (qs_queue s)))"
  shows "queue_inv env (claim, s\<lparr>qs_transcript := fst (append_context_message env w now i m (qs_transcript s))\<rparr>)"
proof -
  let ?t = "qs_transcript s" and ?e = "message_entry env i m"
  define t' where "t' = fst (append_context_message env w now i m ?t)"
  have tinv: "transcript_inv env ?t" using inv by (simp add: queue_inv_def)
  have "recoverable env claim (s\<lparr>qs_transcript := t'\<rparr>)" if "writable t' = Ok ()"
  proof -
    obtain st res where a: "append_entry (senv env) w now (ts_lane ?t) ?e (ts_store ?t) = (st, res)" by force
    have wr: "writable ?t = Ok ()"
      using that by (auto simp: t'_def append_context_message_def guarded_def writable_def split: result.splits prod.splits if_splits)
    then have t': "ts_store t' = st"
      using a by (cases res) (simp_all add: t'_def append_context_message_def guarded_def)
    have rec: "recoverable env claim s" using inv wr by (simp add: queue_inv_def)
    show ?thesis
    proof (cases res)
      case (Err x)
      with append_entry_Err_state [of "senv env" w now "ts_lane ?t" ?e "ts_store ?t"] a t'
      show ?thesis by (intro recoverable_store_state [OF rec]) simp
    next
      case (Ok stored)
      have "store_inv (ts_lane ?t) (ts_store ?t)" "typed_entry ?e" "ne_id ?e = i"
        using tinv m(1) by (simp_all add: transcript_inv_def typed_message_def message_entry_def)
      with append_entry_records [OF a [unfolded Ok] _ _ m(2)] t' show ?thesis
        by (intro recoverable_other_entry [OF rec fresh]) auto
    qed
  qed
  with inv_context_message [OF tinv m(1,2)] show ?thesis by (simp add: queue_inv_def t'_def)
qed

lemma consume_inv:
  assumes inv: "queue_inv env (Some item, s)" and io: "qi_env io = env" "qi_now io \<le> u64_max"
    and msg: "typed_message env (pi_entry_id item) message" and run: "id_ok run"
    and rw: "queue_record io 1 (qs_transcript s) (Some run) QueueCancelled (cancelled_payload (item_id item) QcConsumed) = Ok rw"
  shows "queue_inv env (None, fst (consume_claimed io item message (fst rw) s))"
proof (cases "qs_cancelled s")
  case True
  then show ?thesis
    using inv strip_queue_recoverable [of None "return_claim item (qs_queue s)" "Some item" s env]
    by (simp add: consume_claimed_def queue_inv_def with_claim_def)
next
  case False
  obtain t res where c: "commit_consumed env (qi_write io 0) (qi_write io 1) (qi_now io) (pi_entry_id item) message (fst rw)
      (qs_transcript s) = (t, res)" by force
  have tinv: "transcript_inv env (qs_transcript s)" using inv by (simp add: queue_inv_def)
  then have lane: "id_ok (ts_lane (qs_transcript s))" by (simp add: transcript_inv_def store_inv_def)
  have r: "typed_record (fst rw)" "nr_kind (fst rw) = QueueCancelled" "nr_payload (fst rw) = cancelled_payload (item_id item) QcConsumed"
    using queue_record_typed [OF rw lane] run typed_cancelled_payload rw
    by (auto simp: opt_id_ok_def queue_record_def split: result.splits)
  let ?s' = "fst (consume_claimed io item message (fst rw) s)"
  have s': "qs_transcript ?s' = t" "qs_queue ?s' = qs_queue s"
    using False c io(1) by (cases res; cases "pi_waiter item"; cases "the (pi_waiter item)"; simp add: consume_claimed_def Let_def)+
  have "transcript_inv env t"
    using inv_consumed [OF tinv msg r(1) io(2), of "qi_write io 0" "qi_write io 1"] c by simp
  moreover have "recoverable env None ?s'" if w: "writable t = Ok ()"
  proof -
    have "writable (qs_transcript s) = Ok ()" "res = Ok ()"
      using c w by (auto simp: commit_consumed_def writable_def Let_def split: result.splits prod.splits if_splits)
    with inv commit_consumed_recoverable [OF _ tinv msg io(2) r c] have "recoverable env None (s\<lparr>qs_transcript := t\<rparr>)"
      by (auto simp: queue_inv_def split: if_splits)
    with s' recoverable_cong [of ?s' "s\<lparr>qs_transcript := t\<rparr>"] show ?thesis by simp
  qed
  ultimately show ?thesis using s' by (simp add: queue_inv_def)
qed

lemma claim_inv:
  assumes "queue_inv env (None, s)" "claim_next_or_close allow (qs_queue s) = (q, claim)"
  shows "queue_inv env (claim, s\<lparr>qs_queue := q\<rparr>)"
proof -
  have "recoverable env claim (s\<lparr>qs_queue := q\<rparr>)" if "recoverable env None s"
  proof (rule strip_queue_recoverable [OF _ that])
    show "strip_queue (with_claim claim q) = strip_queue (with_claim None (qs_queue s))"
      using claim_recoverable [OF assms(2)] that by (simp add: recoverable_def with_claim_def)
  qed
  with assms(1) show ?thesis by (simp add: queue_inv_def)
qed

lemma queue_step_inv: "queue_step env c c' \<Longrightarrow> queue_inv env c \<Longrightarrow> queue_inv env c'"
proof (induction rule: queue_step.induct)
  case (enqueue io item run claim s cancellation)
  then have lane: "id_ok (ts_lane (qs_transcript s))" by (simp add: queue_inv_def transcript_inv_def store_inv_def)
  show ?case
    by (rule queue_inv_commits [OF enqueue.prems enqueue(1,2) enqueue_commits [OF lane enqueue(4)]])
      (metis enqueue(1-7) enqueue_recoverable io_ok_def lane prod.collapse)
next
  case (remove io claim s qid)
  then have lane: "id_ok (ts_lane (qs_transcript s))" by (simp add: queue_inv_def transcript_inv_def store_inv_def)
  show ?case
    by (rule queue_inv_commits [OF remove.prems remove(1,2) remove_commits [OF lane]])
      (metis remove(1,2) remove_recoverable io_ok_def lane prod.collapse)
next
  case (clear io claim s)
  then have lane: "id_ok (ts_lane (qs_transcript s))" by (simp add: queue_inv_def transcript_inv_def store_inv_def)
  show ?case
    by (rule queue_inv_commits [OF clear.prems clear(1,2) clear_commits [OF lane]])
      (metis clear(1,2) clear_recoverable io_ok_def lane prod.collapse)
next
  case (promote io claim s qid)
  then have lane: "id_ok (ts_lane (qs_transcript s))" by (simp add: queue_inv_def transcript_inv_def store_inv_def)
  show ?case
    by (rule queue_inv_commits [OF promote.prems promote(1,2) promote_commits [OF lane]])
      (metis promote(1,2) promote_recoverable io_ok_def lane prod.collapse)
next
  case (withdraw io claim s)
  then have lane: "id_ok (ts_lane (qs_transcript s))" by (simp add: queue_inv_def transcript_inv_def store_inv_def)
  show ?case
    by (rule queue_inv_commits [OF withdraw.prems withdraw(1,2) withdraw_commits [OF lane]])
      (metis withdraw(1,2) withdraw_recoverable io_ok_def lane prod.collapse)
next
  case (claimed allow_follow_up s q claim)
  then show ?case by (rule claim_inv [rotated])
next
  case (returned item s)
  then show ?case
    using strip_queue_recoverable [of None "return_claim item (qs_queue s)" "Some item" s env]
    by (simp add: queue_inv_def with_claim_def)
next
  case (consumed io item message run s rw)
  show ?case by (rule consume_inv [OF consumed.prems consumed(1-5)])
next
  case (message i m now claim s w)
  show ?case by (rule message_inv [OF message.prems message(1-3)])
next
  case (cancelled claim s b)
  then show ?case using recoverable_cong [of "s\<lparr>qs_cancelled := b\<rparr>" s env claim] by (simp add: queue_inv_def)
next
  case (sealed claim s)
  then show ?case by (simp add: queue_inv_def seal_def writable_def transcript_inv_def synced_def)
qed (simp_all add: queue_inv_def open_queue_def close_queue_def)

lemma replay_wf:
  assumes "replay_record env q v = Ok q'" "wf_queue q \<and> strip_queue q = q"
  shows "wf_queue q' \<and> strip_queue q' = q'"
proof -
  have push: "wf_queue (push (new_item a b) (fst (remove_item qid q))) \<and>
      strip_queue (push (new_item a b) (fst (remove_item qid q))) = push (new_item a b) (fst (remove_item qid q))"
    if "qm_queue_id a = qid" for a b qid
  proof -
    have "strip (new_item a b) = new_item a b" "item_id (new_item a b) = qid" using that by (simp_all add: strip_def new_item_def)
    then show ?thesis
      using wf_queue_push [OF wf_queue_remove, of q "new_item a b" qid] remove_item_gone [of q qid] assms(2)
        push_strip [of "new_item a b" "fst (remove_item qid q)"] remove_item_strip [of qid q] by simp
  qed
  from push assms wf_queue_remove [of q] remove_item_strip [of _ q] show ?thesis
    by (cases v) (auto simp: replay_record_def split: if_splits option.splits)
qed

lemma from_records_wf:
  "try_fold (replay_record env) q vs = Ok q' \<Longrightarrow> wf_queue q \<and> strip_queue q = q \<Longrightarrow> wf_queue q' \<and> strip_queue q' = q'"
proof (induction vs arbitrary: q)
  case (Cons v vs)
  from Cons.prems(1) obtain q1 where "replay_record env q v = Ok q1" "try_fold (replay_record env) q1 vs = Ok q'"
    by (auto simp: result_simps split: result.splits)
  with Cons.IH replay_wf [OF _ Cons.prems(2)] show ?case by blast
qed simp

lemma strip_filter: "map strip xs = xs \<Longrightarrow> map strip (filter P xs) = filter P xs"
  by (induction xs) auto

lemma strip_live: "strip_queue q = q \<Longrightarrow> strip_queue (live st q) = live st q"
proof -
  assume eq: "strip_queue q = q"
  have "\<not> pq_open (strip_queue q)" "map strip (pq_steering q) = pq_steering (strip_queue q)"
    "map strip (pq_follow_up q) = pq_follow_up (strip_queue q)" by (simp_all add: strip_queue_def)
  then have "\<not> pq_open q" "map strip (pq_steering q) = pq_steering q" "map strip (pq_follow_up q) = pq_follow_up q"
    unfolding eq by simp_all
  then show ?thesis by (intro queue_eqI) (simp_all add: strip_queue_def live_def strip_filter)
qed

lemma restored_inv:
  "restored env st lane delegated = Some (Ok t) \<Longrightarrow> store_inv lane st \<Longrightarrow> ts_store t = st \<and> transcript_inv env t"
  by (auto simp: restored_def history_from_store_def transcript_inv_def synced_def result_simps
      split: option.splits result.splits)

lemma empty_queue_wf: "wf_queue empty_queue \<and> strip_queue empty_queue = empty_queue"
  by (simp add: empty_queue_def wf_queue_def queue_ids_def strip_queue_def)

lemma queue_reachable_inv: "queue_reachable env c \<Longrightarrow> queue_inv env c"
proof (induction rule: queue_reachable.induct)
  case (start st lane delegated s)
  have t: "ts_store (qs_transcript s) = st" and tinv: "transcript_inv env (qs_transcript s)"
    using restored_inv [OF start(1,2)] by simp_all
  from start(3) obtain lq where lq: "try_fold (replay_record env) empty_queue (map record_view (store_records st)) = Ok lq"
    "qs_queue s = restore_round st (queue_ids lq) lq"
    by (auto simp: restore_def from_records_def result_simps split: result.splits)
  from from_records_wf [OF lq(1) empty_queue_wf] have wf: "wf_queue lq" "strip_queue lq = lq" by simp_all
  have q: "qs_queue s = live st lq" using lq(2) restore_round_live [OF wf(1)] by simp
  have strip: "strip_queue (live st lq) = live st lq"
    by (rule strip_live [OF wf(2)])
  have "recoverable env None s"
    using wf lq(1) start(4) q strip live_remove [OF wf(1)]
    by (auto simp: recoverable_def with_claim_def transcript_view_def t)
  with tinv show ?case by (simp add: queue_inv_def)
qed (rule queue_step_inv)

section \<open>Properties of the pending queue\<close>

text \<open>A session to try the queue on.\<close>

definition sample_item :: "queue_kind \<Rightarrow> pending_item" where
  "sample_item kind = \<lparr>pi_queued = \<lparr>qm_queue_id = ''q1'', qm_kind = kind, qm_message = sample_message,
     qm_submission_id = None\<rparr>, pi_entry_id = ''e1'', pi_waiter = None\<rparr>"

definition sample_queue_session :: queue_session where
  "sample_queue_session = \<lparr>qs_queue = empty_queue, qs_transcript = sample_transcript,
     qs_notices = (\<lambda>_. new_slot), qs_receipts = (\<lambda>_. new_slot), qs_accepted = [], qs_cancelled = False\<rparr>"

definition sample_io :: queue_io where
  "sample_io = \<lparr>qi_env = sample_tenv, qi_describe = (\<lambda>e. ''failed''), qi_now = 7, qi_sync = Written,
     qi_write = (\<lambda>k. Written), qi_record_id = (\<lambda>k. if k = 0 then ''r1'' else ''r2'')\<rparr>"

definition sample_enqueued :: queue_session where
  "sample_enqueued = fst (enqueue_pending sample_io ''run'' None (sample_item FollowUp)
     (sample_queue_session\<lparr>qs_queue := open_queue False empty_queue\<rparr>))"

lemma sample_not_blank: "\<not> is_blank ''main''" "\<not> is_blank ''q1''" "\<not> is_blank ''e1''" "\<not> is_blank ''run''"
  "\<not> is_blank ''r1''" "\<not> is_blank ''r2''"
  by (rule not_blank_char; simp add: ws1_def)+

lemma sample_item_typed: "typed_item sample_tenv (sample_item k)" "typed_message sample_tenv ''e1'' sample_message"
  using sample_not_blank
  by (simp_all add: typed_item_def sample_item_def id_ok_def sample_tenv_def typed_message_def typed_entry_def
      message_entry_def typed_payload_def payload_clear_def keys_def)

lemma sample_reachable: "queue_reachable sample_tenv (None, sample_enqueued)"
proof -
  have "restored sample_tenv sample_store ''main'' False = Some (Ok (qs_transcript sample_queue_session))"
    by (simp add: restored_def history_from_store_def active_branch_def lane_leaf_def sample_store_def
        SessionState_new_def rebuild_def sample_transcript_def sample_queue_session_def)
  moreover have "store_inv ''main'' sample_store"
    using wf_state_new sample_not_blank
    by (simp add: store_inv_def sample_store_def id_ok_def opt_id_ok_def lane_leaf_def) (simp add: SessionState_new_def)
  moreover have "restore sample_tenv sample_store = Ok (qs_queue sample_queue_session)"
    by (simp add: restore_def from_records_def store_records_def sample_store_def SessionState_new_def
        sample_queue_session_def queue_ids_def empty_queue_def)
  ultimately have "queue_reachable sample_tenv (None, sample_queue_session)"
    by (rule queue_reachable.start) (simp add: sample_queue_session_def typed_queue_def empty_queue_def entry_ids_def)
  from queue_reachable.step [OF this queue_step.opened]
  have "queue_reachable sample_tenv (None, sample_queue_session\<lparr>qs_queue := open_queue False empty_queue\<rparr>)"
    by (simp add: sample_queue_session_def)
  then show ?thesis
    unfolding sample_enqueued_def
    by (rule queue_reachable.step, intro queue_step.enqueue sample_item_typed)
      (simp_all add: sample_io_def u64_max_def id_ok_def sample_not_blank with_claim_def queue_ids_def entry_ids_def
        open_queue_def empty_queue_def sample_queue_session_def sample_transcript_def get_entry_def sample_store_def
        SessionState_new_def)
qed

lemma sample_enqueued_eq:
  "writable (qs_transcript sample_enqueued) = Ok () \<and>
    qs_queue sample_enqueued = \<lparr>pq_open = True, pq_steering = [], pq_follow_up = [sample_item FollowUp]\<rparr>"
proof -
  let ?r = "\<lparr>nr_id = ''r1'', nr_lane = ''main'', nr_run_id = Some ''run'', nr_kind = QueueEnqueued,
    nr_payload = enqueued_payload sample_tenv (sample_item FollowUp)\<rparr>"
  have "record_accepted 7 ?r sample_store"
    using sample_not_blank by (simp add: record_accepted_def sample_store_def SessionState_new_def id_ok_def opt_id_ok_def
        last_sequence_def u64_max_def MAX_SAFE_INTEGER_def payload_clear_def keys_def record_keys_def enqueued_payload_def)
  from append_record_Ok [OF this, of "senv sample_tenv"] show ?thesis
    by (simp add: sample_enqueued_def enqueue_pending_def queue_record_def id_try_from_def sample_io_def sample_not_blank
        sample_queue_session_def sample_transcript_def open_queue_def empty_queue_def commit_queue_records_def
        commit_records_def writable_def push_def sample_item_def)
qed



text \<open>C9: however the writes of a consumption turn out, the item is delivered exactly once: either its
  message is in the store and recovery does not offer the item again, or it is not and recovery
  still finds the item at the head of its lane. A consumption that reports success stored it.\<close>

theorem consumed_exactly_once:
  assumes "queue_reachable env (Some item, s)" "writable (qs_transcript s) = Ok ()"
    and "qi_env io = env" "qi_now io \<le> u64_max" "typed_message env (pi_entry_id item) message" "id_ok run"
    and "queue_record io 1 (qs_transcript s) (Some run) QueueCancelled (cancelled_payload (item_id item) QcConsumed) = Ok rw"
    and "consume_claimed io item message (fst rw) s = (s', res)"
  shows "restore env (ts_store (qs_transcript s')) =
      Ok (strip_queue (if get_entry (ts_store (qs_transcript s')) (pi_entry_id item) = None
        then return_claim item (qs_queue s) else qs_queue s)) \<and>
    (res = Ok () \<longrightarrow> get_entry (ts_store (qs_transcript s')) (pi_entry_id item) \<noteq> None)"
proof -
  have rec: "recoverable env (Some item) s" and tinv: "transcript_inv env (qs_transcript s)"
    using queue_reachable_inv [OF assms(1)] assms(2) by (simp_all add: queue_inv_def)
  show ?thesis
  proof (cases "qs_cancelled s")
    case True
    with assms(8) recoverable_restore [OF rec] claimed_live [OF rec] show ?thesis
      by (auto simp: consume_claimed_def with_claim_def)
  next
    case False
    obtain t r where c: "commit_consumed env (qi_write io 0) (qi_write io 1) (qi_now io) (pi_entry_id item) message (fst rw)
        (qs_transcript s) = (t, r)" by force
    have t: "qs_transcript s' = t" "res = Ok () \<longleftrightarrow> r = Ok ()"
      using assms(3,8) False c
      by (cases r; cases "pi_waiter item"; cases "the (pi_waiter item)"; auto simp: consume_claimed_def Let_def)+
    have "id_ok (ts_lane (qs_transcript s))" using tinv by (simp add: transcript_inv_def store_inv_def)
    then have "typed_record (fst rw)" "nr_kind (fst rw) = QueueCancelled" "nr_payload (fst rw) = cancelled_payload (item_id item) QcConsumed"
      using queue_record_typed [OF assms(7)] assms(6,7) typed_cancelled_payload
      by (auto simp: opt_id_ok_def queue_record_def split: result.splits)
    from commit_consumed_recoverable [OF rec tinv assms(5,4) this c] recoverable_restore [of env _ "s\<lparr>qs_transcript := t\<rparr>"]
    show ?thesis by (auto simp: t with_claim_def split: if_splits)
  qed
qed

theorem consumed_exactly_once_witness:
  "\<exists>r s' res. consume_claimed sample_io (sample_item FollowUp) sample_message r
      (sample_enqueued\<lparr>qs_queue := \<lparr>pq_open = True, pq_steering = [], pq_follow_up = []\<rparr>\<rparr>) = (s', res) \<and>
    (res = Ok () \<longrightarrow> get_entry (ts_store (qs_transcript s')) ''e1'' \<noteq> None)"
proof -
  let ?s = "sample_enqueued\<lparr>qs_queue := \<lparr>pq_open = True, pq_steering = [], pq_follow_up = []\<rparr>\<rparr>"
  have "queue_step sample_tenv (None, sample_enqueued) (Some (sample_item FollowUp), ?s)"
    by (rule queue_step.claimed [where allow_follow_up = True]) (simp add: claim_next_or_close_def sample_enqueued_eq)
  from queue_reachable.step [OF sample_reachable this]
  have reach: "queue_reachable sample_tenv (Some (sample_item FollowUp), ?s)" .
  obtain rw where rw: "queue_record sample_io 1 (qs_transcript ?s) (Some ''run'') QueueCancelled
      (cancelled_payload (item_id (sample_item FollowUp)) QcConsumed) = Ok rw"
    by (simp add: queue_record_def sample_io_def id_try_from_def sample_not_blank)
  obtain s' res where c: "consume_claimed sample_io (sample_item FollowUp) sample_message (fst rw) ?s = (s', res)" by force
  have "pi_entry_id (sample_item FollowUp) = ''e1''" by (simp add: sample_item_def)
  with consumed_exactly_once [OF reach _ _ _ _ _ rw c] sample_item_typed(2) sample_enqueued_eq
  have "res = Ok () \<longrightarrow> get_entry (ts_store (qs_transcript s')) ''e1'' \<noteq> None"
    by (simp add: sample_io_def u64_max_def id_ok_def sample_not_blank)
  with c show ?thesis by blast
qed

text \<open>A claim takes steering messages before follow-ups and each lane in order, takes a
  follow-up only where one is allowed, and closes the queue only when both lanes are empty; a claim
  that is dropped puts the queue back as it was.\<close>

lemma claim_order_and_return:
  assumes "wf_queue q" "claim_next_or_close allow q = (q', claim)"
  shows "(case claim of
      Some item \<Rightarrow> return_claim item q' = q \<and> pq_open q' = pq_open q \<and>
        (if pq_steering q \<noteq> [] then pq_steering q = item # pq_steering q'
         else allow \<and> pq_follow_up q = item # pq_follow_up q')
    | None \<Rightarrow> pq_steering q = [] \<and> (allow \<longrightarrow> queue_is_empty q \<and> \<not> pq_open q') \<and> (\<not> allow \<longrightarrow> q' = q))"
  using assms by (auto simp: claim_next_or_close_def return_claim_def queue_is_empty_def wf_queue_def
      intro: queue_eqI split: list.splits if_splits queue_kind.splits)

end
