(* ===== verification/Mcp_Identity.thy ===== *)
theory Mcp_Identity
  imports Scalars "HOL-Library.Monad_Syntax"
begin

text \<open>
  Identities of remote capabilities, \<^verbatim>\<open>crates/protocol/src/mcp/identity.rs\<close>: protocol revisions,
  server identifiers and the model-facing names of remote tools, with the resource descriptions of
  \<^verbatim>\<open>catalog.rs\<close>. The SHA-256 digest is third-party code and an argument.
\<close>

section \<open>identity.rs: protocol revisions\<close>

datatype mcp_protocol_version = V2025_11_25 | V2025_06_18 | V2025_03_26 | V2024_11_05

fun mcp_version_name :: "mcp_protocol_version \<Rightarrow> string" where
  "mcp_version_name V2025_11_25 = ''2025-11-25''"
| "mcp_version_name V2025_06_18 = ''2025-06-18''"
| "mcp_version_name V2025_03_26 = ''2025-03-26''"
| "mcp_version_name V2024_11_05 = ''2024-11-05''"

definition mcp_supported :: "mcp_protocol_version list" where
  "mcp_supported = [V2025_11_25, V2025_06_18, V2025_03_26, V2024_11_05]"

definition mcp_version_from_str :: "string \<Rightarrow> (mcp_protocol_version, string) result" where
  "mcp_version_from_str v =
     (if v = ''2025-11-25'' then Ok V2025_11_25
      else if v = ''2025-06-18'' then Ok V2025_06_18
      else if v = ''2025-03-26'' then Ok V2025_03_26
      else if v = ''2024-11-05'' then Ok V2024_11_05
      else Err v)"

fun supports_elicitation :: "mcp_protocol_version \<Rightarrow> bool" where
  "supports_elicitation V2025_11_25 \<longleftrightarrow> True"
| "supports_elicitation V2025_06_18 \<longleftrightarrow> True"
| "supports_elicitation V2025_03_26 \<longleftrightarrow> False"
| "supports_elicitation V2024_11_05 \<longleftrightarrow> False"

datatype mcp_protocol_policy = PolicyAuto | PolicyPreferred mcp_protocol_version

fun requested_version :: "mcp_protocol_policy \<Rightarrow> mcp_protocol_version" where
  "requested_version PolicyAuto = V2025_11_25"
| "requested_version (PolicyPreferred v) = v"

definition mcp_policy_from_str :: "string \<Rightarrow> (mcp_protocol_policy, string) result" where
  "mcp_policy_from_str v =
     (if v = ''auto'' then Ok PolicyAuto
      else and_then (mcp_version_from_str v) (\<lambda>w. Ok (PolicyPreferred w)))"

fun mcp_policy_to_string :: "mcp_protocol_policy \<Rightarrow> string" where
  "mcp_policy_to_string PolicyAuto = ''auto''"
| "mcp_policy_to_string (PolicyPreferred v) = mcp_version_name v"

section \<open>identity.rs: servers and tools\<close>

definition is_ascii_alphanumeric :: "char \<Rightarrow> bool" where
  "is_ascii_alphanumeric c \<longleftrightarrow>
     is_ascii_digit c \<or> (65 \<le> byte c \<and> byte c \<le> 90) \<or> (97 \<le> byte c \<and> byte c \<le> 122)"

definition name_safe :: "char \<Rightarrow> bool" where
  "name_safe c \<longleftrightarrow> is_ascii_alphanumeric c \<or> c = CHR ''_'' \<or> c = CHR ''-''"

text \<open>\<^verbatim>\<open>str::contains\<close>\<close>

fun contains_str :: "string \<Rightarrow> string \<Rightarrow> bool" where
  "contains_str p [] \<longleftrightarrow> p = []"
| "contains_str p (c # s) \<longleftrightarrow> starts_with p (c # s) \<or> contains_str p s"

definition continues_char :: "char \<Rightarrow> bool" where
  "continues_char c \<longleftrightarrow> 128 \<le> byte c \<and> byte c < 192"

text \<open>The first character of a string, as its bytes.\<close>

definition first_char :: "string \<Rightarrow> string" where
  "first_char s = take 1 s @ takeWhile continues_char (drop 1 s)"

datatype mcp_identity_error = McpEmpty | McpInvalidCharacter string | McpReservedSeparator

definition mcp_server_id_try_from :: "string \<Rightarrow> (string, mcp_identity_error) result" where
  "mcp_server_id_try_from v =
     (if is_blank v then Err McpEmpty
      else if contains_str ''__'' v then Err McpReservedSeparator
      else case dropWhile name_safe v of
          [] \<Rightarrow> Ok v
        | bad \<Rightarrow> Err (McpInvalidCharacter (first_char bad)))"

record mcp_tool_ref =
  mtr_server_id :: string
  mtr_remote_name :: string

text \<open>\<^verbatim>\<open>u64::to_be_bytes\<close> and the lower-case hexadecimal form of a byte.\<close>

definition to_be_bytes :: "nat \<Rightarrow> string" where
  "to_be_bytes n = map (\<lambda>i. char_of (n div 256 ^ i mod 256)) (rev [0..<8])"

definition hex_digit :: "nat \<Rightarrow> char" where
  "hex_digit d = (if d < 10 then char_of (48 + d) else char_of (87 + d))"

definition hex_byte :: "char \<Rightarrow> string" where
  "hex_byte c = [hex_digit (byte c div 16), hex_digit (byte c mod 16)]"

definition digest_input :: "mcp_tool_ref \<Rightarrow> string" where
  "digest_input r =
     ''clawcode-mcp-tool-v1'' @ [CHR 0x00] @
     to_be_bytes (length (mtr_server_id r)) @ mtr_server_id r @
     to_be_bytes (length (mtr_remote_name r)) @ mtr_remote_name r"

definition plain_tool_name :: "mcp_tool_ref \<Rightarrow> string" where
  "plain_tool_name r = ''mcp__'' @ mtr_server_id r @ ''__'' @ mtr_remote_name r"

text \<open>One character of the prefix for each character of the base name.\<close>

definition sanitized :: "string \<Rightarrow> string" where
  "sanitized s = map (\<lambda>c. if name_safe c then c else CHR ''_'') (filter (\<lambda>c. \<not> continues_char c) s)"

definition public_name :: "(string \<Rightarrow> string) \<Rightarrow> mcp_tool_ref \<Rightarrow> string" where
  "public_name sha256 r =
     (let base = plain_tool_name r
      in if length base \<le> 64 \<and> list_all name_safe base then base
         else take 47 (sanitized base) @ ''_'' @ concat (map hex_byte (take 8 (sha256 (digest_input r)))))"

section \<open>catalog.rs: resource descriptions\<close>

record mcp_resource_info =
  mri_server_id :: string
  mri_remote_uri :: string
  mri_name :: string
  mri_title :: "string option"
  mri_description :: "string option"
  mri_mime_type :: "string option"
  mri_size :: "nat option"

record mcp_resource_template_info =
  mrt_server_id :: string
  mrt_uri_template :: string
  mrt_name :: string
  mrt_title :: "string option"
  mrt_description :: "string option"
  mrt_mime_type :: "string option"

definition decode_server_id :: "json \<Rightarrow> string option" where
  "decode_server_id v = Option.bind (as_str v) (\<lambda>s. result_ok (mcp_server_id_try_from s))"

text \<open>
  A derived \<^verbatim>\<open>Deserialize\<close> also reads a structure from an array that lists its fields in order;
  pages come from extensions, so both forms matter here.
\<close>

fun struct_fields :: "string list \<Rightarrow> json \<Rightarrow> json_map option" where
  "struct_fields names (JObject m) = Some m"
| "struct_fields names (JArray vs) = (if length vs \<le> length names then Some (zip names vs) else None)"
| "struct_fields names _ = None"

definition decode_resource_info :: "json \<Rightarrow> mcp_resource_info option" where
  "decode_resource_info v = do {
     m \<leftarrow> struct_fields [''reference'', ''name'', ''title'', ''description'', ''mimeType'', ''size''] v;
     reference \<leftarrow> field ''reference'' (struct_fields [''serverId'', ''remoteUri'']) m;
     server \<leftarrow> field ''serverId'' decode_server_id reference;
     uri \<leftarrow> field ''remoteUri'' as_str reference;
     name \<leftarrow> field ''name'' as_str m;
     title \<leftarrow> opt_field ''title'' as_str m;
     description \<leftarrow> opt_field ''description'' as_str m;
     mime \<leftarrow> opt_field ''mimeType'' as_str m;
     size \<leftarrow> opt_field ''size'' as_u64 m;
     Some \<lparr>mri_server_id = server, mri_remote_uri = uri, mri_name = name, mri_title = title,
           mri_description = description, mri_mime_type = mime, mri_size = size\<rparr> }"

definition decode_resource_template_info :: "json \<Rightarrow> mcp_resource_template_info option" where
  "decode_resource_template_info v = do {
     m \<leftarrow> struct_fields [''serverId'', ''uriTemplate'', ''name'', ''title'', ''description'', ''mimeType''] v;
     server \<leftarrow> field ''serverId'' decode_server_id m;
     uri \<leftarrow> field ''uriTemplate'' as_str m;
     name \<leftarrow> field ''name'' as_str m;
     title \<leftarrow> opt_field ''title'' as_str m;
     description \<leftarrow> opt_field ''description'' as_str m;
     mime \<leftarrow> opt_field ''mimeType'' as_str m;
     Some \<lparr>mrt_server_id = server, mrt_uri_template = uri, mrt_name = name, mrt_title = title,
           mrt_description = description, mrt_mime_type = mime\<rparr> }"

section \<open>Protocol revisions\<close>

interpretation mcp_version_names: wire_names mcp_supported mcp_version_name
proof
  show "x \<in> set mcp_supported" for x by (cases x) (simp_all add: mcp_supported_def)
  show "distinct (map mcp_version_name mcp_supported)" by (simp add: mcp_supported_def)
qed

lemma mcp_version_from_str_variant: "result_ok (mcp_version_from_str v) = variant_of mcp_supported mcp_version_name v"
  by (simp add: mcp_version_from_str_def variant_of_def mcp_supported_def)

lemma mcp_version_from_str_iff: "mcp_version_from_str v = Ok w \<longleftrightarrow> v = mcp_version_name w"
  using mcp_version_from_str_variant [of v] mcp_version_names.variant_of_iff [of v w]
  by (cases "mcp_version_from_str v") auto

lemma mcp_version_not_auto: "mcp_version_name v \<noteq> ''auto''"
  by (cases v) simp_all

text \<open>A protocol preference printed into the configuration is read back as the same preference, and
  every text that is read at all prints back to itself, so no other spelling is accepted.\<close>

lemma mcp_policy_roundtrip:
  "mcp_policy_from_str (mcp_policy_to_string p) = Ok p \<and>
    (mcp_policy_from_str v = Ok q \<longrightarrow> mcp_policy_to_string q = v)"
  using mcp_version_not_auto
  by (cases p) (auto simp: mcp_policy_from_str_def mcp_version_from_str_iff result_simps split: if_splits)

section \<open>Server identifiers\<close>

lemma starts_with_Cons_iff: "starts_with [a, b] (x # s) \<longleftrightarrow> x = a \<and> s \<noteq> [] \<and> hd s = b"
  by (cases s) (auto simp: starts_with_def)

lemma contains_str_iff: "contains_str p s \<longleftrightarrow> (\<exists>a b. s = a @ p @ b)"
proof (induction s)
  case (Cons c s)
  show ?case
  proof
    assume "contains_str p (c # s)"
    then consider t where "c # s = p @ t" | a b where "s = a @ p @ b"
      using Cons by (auto simp: starts_with_iff)
    then show "\<exists>a b. c # s = a @ p @ b"
    proof cases
      case 1
      then show ?thesis by (intro exI [of _ "[]"] exI [of _ t]) simp
    next
      case 2
      then show ?thesis by (intro exI [of _ "c # a"] exI [of _ b]) simp
    qed
  next
    assume "\<exists>a b. c # s = a @ p @ b"
    then obtain a b where eq: "c # s = a @ p @ b" by blast
    then show "contains_str p (c # s)"
    proof (cases a)
      case Nil
      with eq have "starts_with p (c # s)" by (simp add: starts_with_iff)
      then show ?thesis by simp
    next
      case (Cons x a')
      with eq have "\<exists>a b. s = a @ p @ b" by auto
      with Cons.IH show ?thesis by simp
    qed
  qed
qed auto

lemma name_safe_not_blank: "list_all name_safe v \<Longrightarrow> v \<noteq> [] \<Longrightarrow> \<not> is_blank v"
proof -
  assume "list_all name_safe v" "v \<noteq> []"
  then obtain a s where v: "v = a # s" and "name_safe a" by (cases v) auto
  then have "\<not> ws1 (byte a)" "byte a < 128"
    by (auto simp: name_safe_def is_ascii_alphanumeric_def is_ascii_digit_def ws1_def)
  then show ?thesis unfolding v by (rule not_blank_char)
qed

text \<open>C39: exactly the non-empty texts of letters, digits, dashes and single underscores are server
  identifiers, and they are kept unchanged.\<close>

theorem mcp_server_id_accepts:
  "mcp_server_id_try_from v = Ok w \<longleftrightarrow>
    w = v \<and> v \<noteq> [] \<and> list_all name_safe v \<and> \<not> (\<exists>a b. v = a @ ''__'' @ b)"
proof -
  have "list_all name_safe v \<longleftrightarrow> dropWhile name_safe v = []" by (simp add: list_all_iff)
  moreover have "\<not> is_blank v" if "list_all name_safe v" "v \<noteq> []" using name_safe_not_blank that by blast
  moreover have "is_blank []" by (simp add: is_blank_def trim_def trim_end_def)
  ultimately show ?thesis
    by (cases "dropWhile name_safe v") (auto simp: mcp_server_id_try_from_def contains_str_iff simp del: dropWhile_eq_Nil_conv)
qed

section \<open>Tool names\<close>

lemma name_safe_base: "name_safe (CHR ''_'')" "list_all name_safe ''mcp__''"
  by (simp_all add: name_safe_def is_ascii_alphanumeric_def is_ascii_digit_def)

lemma hex_digit_safe: "d < 16 \<Longrightarrow> name_safe (hex_digit d)"
  by (auto simp: hex_digit_def name_safe_def is_ascii_alphanumeric_def is_ascii_digit_def)

lemma hex_byte_safe: "list_all name_safe (hex_byte c) \<and> length (hex_byte c) = 2"
proof -
  have "byte c < 256" using nat_of_char_less_256 [of c] by simp
  then have "byte c div 16 < 16" "byte c mod 16 < 16" by (simp_all add: less_mult_imp_div_less)
  then show ?thesis by (simp add: hex_byte_def hex_digit_safe)
qed

lemma hex_bytes_safe: "list_all name_safe (concat (map hex_byte cs)) \<and> length (concat (map hex_byte cs)) = 2 * length cs"
  using hex_byte_safe by (induction cs) auto

lemma sanitized_safe: "list_all name_safe (sanitized s)"
  using name_safe_base(1) by (auto simp: sanitized_def list_all_iff)

lemma safe_not_continuation: "name_safe c \<Longrightarrow> \<not> continues_char c"
  by (auto simp: name_safe_def continues_char_def is_ascii_alphanumeric_def is_ascii_digit_def)

lemma sanitized_prefix: "list_all name_safe p \<Longrightarrow> sanitized (p @ s) = p @ sanitized s"
  by (induction p) (auto simp: sanitized_def safe_not_continuation)

text \<open>Whatever a server calls its tool, the model-facing name is at most 64 bytes of letters,
  digits, dashes and underscores and starts with the MCP prefix.\<close>

lemma public_name_well_formed:
  assumes "\<And>x. length (sha256 x) = 32"
  shows "length (public_name sha256 r) \<le> 64 \<and> list_all name_safe (public_name sha256 r) \<and>
    starts_with ''mcp__'' (public_name sha256 r)"
proof (cases "length (plain_tool_name r) \<le> 64 \<and> list_all name_safe (plain_tool_name r)")
  case True
  then show ?thesis by (simp add: public_name_def Let_def) (simp add: plain_tool_name_def starts_with_def)
next
  case False
  let ?s = "mtr_server_id r @ ''__'' @ mtr_remote_name r"
  let ?hex = "concat (map hex_byte (take 8 (sha256 (digest_input r))))"
  have base: "sanitized (plain_tool_name r) = ''mcp__'' @ sanitized ?s"
    unfolding plain_tool_name_def by (rule sanitized_prefix [OF name_safe_base(2)])
  have name: "public_name sha256 r = (''mcp__'' @ take 42 (sanitized ?s)) @ ''_'' @ ?hex"
    using False unfolding public_name_def Let_def base if_not_P [OF False] by simp
  have "list_all name_safe (take 42 (sanitized ?s))"
    using sanitized_safe [of ?s] by (auto simp: list_all_iff dest: in_set_takeD)
  moreover have "length ?hex = 16" using hex_bytes_safe assms by simp
  ultimately show ?thesis
    unfolding name using hex_bytes_safe name_safe_base by (auto simp: starts_with_def)
qed

text \<open>The name of a server ends where the first separator starts, when the identifier does not end in
  an underscore.\<close>

lemma separator_unique:
  assumes "s @ ''__'' @ r = s' @ ''__'' @ r'"
    and "\<not> contains_str ''__'' s" "\<not> contains_str ''__'' s'" "s \<noteq> []" "s' \<noteq> []"
    and "last s \<noteq> CHR ''_''" "last s' \<noteq> CHR ''_''"
  shows "s = s' \<and> r = r'"
proof -
  have aux: "u = []" if eq: "u @ ''__'' @ a = ''__'' @ b" and nc: "\<not> contains_str ''__'' (t @ u)"
    and l: "u \<noteq> [] \<Longrightarrow> last u \<noteq> CHR ''_''" for t u a b :: string
  proof (cases u)
    case (Cons x v)
    show ?thesis
    proof (cases v)
      case Nil
      with Cons eq l show ?thesis by simp
    next
      case v: (Cons y w)
      with Cons eq have "u = ''__'' @ w" by simp
      then have "t @ u = t @ ''__'' @ w" by simp
      with nc show ?thesis by (auto simp: contains_str_iff)
    qed
  qed simp
  from assms(1) consider u where "s = s' @ u" "u @ ''__'' @ r = ''__'' @ r'"
    | u where "s @ u = s'" "''__'' @ r = u @ ''__'' @ r'"
    unfolding append_eq_append_conv2 by blast
  then have "s = s'"
  proof cases
    case 1
    with aux [of u r r' s'] assms(2,6) show ?thesis by (cases u) auto
  next
    case 2
    with aux [of u r' r s] assms(3,7) show ?thesis by (cases u) auto
  qed
  with assms(1) show ?thesis by simp
qed

text \<open>Two different tools whose names need no hashing get different model-facing names, as long as
  no server identifier ends in an underscore.\<close>

lemma plain_names_distinct:
  assumes "mcp_server_id_try_from (mtr_server_id a) = Ok (mtr_server_id a)"
    and "mcp_server_id_try_from (mtr_server_id b) = Ok (mtr_server_id b)"
    and "last (mtr_server_id a) \<noteq> CHR ''_''" "last (mtr_server_id b) \<noteq> CHR ''_''"
    and "public_name sha256 a = plain_tool_name a" "public_name sha256 b = plain_tool_name b"
    and "public_name sha256 a = public_name sha256 b"
  shows "a = (b :: mcp_tool_ref)"
proof -
  have id: "v \<noteq> [] \<and> \<not> contains_str ''__'' v" if "mcp_server_id_try_from v = Ok v" for v
    using that by (auto simp: mcp_server_id_try_from_def is_blank_def trim_def trim_end_def split: if_splits)
  have "mtr_server_id a @ ''__'' @ mtr_remote_name a = mtr_server_id b @ ''__'' @ mtr_remote_name b"
    using assms(5-7) by (simp add: plain_tool_name_def)
  from separator_unique [OF this] id [OF assms(1)] id [OF assms(2)] assms(3,4)
  have "mtr_server_id a = mtr_server_id b \<and> mtr_remote_name a = mtr_remote_name b" by blast
  then show ?thesis by simp
qed

text \<open>A server identifier that ends in an underscore shares tool names with the identifier
  without it: two different tools of two valid servers are shown to the model under one name.\<close>

lemma public_name_collision:
  assumes "mcp_server_id_try_from s = Ok s" "mcp_server_id_try_from (s @ ''_'') = Ok (s @ ''_'')"
    and "list_all name_safe r" "length s + length r \<le> 56"
  shows "public_name sha256 \<lparr>mtr_server_id = s @ ''_'', mtr_remote_name = r\<rparr> =
    public_name sha256 \<lparr>mtr_server_id = s, mtr_remote_name = ''_'' @ r\<rparr>"
proof -
  let ?a = "\<lparr>mtr_server_id = s @ ''_'', mtr_remote_name = r\<rparr>" and ?b = "\<lparr>mtr_server_id = s, mtr_remote_name = ''_'' @ r\<rparr>"
  have eq: "plain_tool_name ?a = plain_tool_name ?b" by (simp add: plain_tool_name_def)
  have "list_all name_safe s"
    using assms(1) by (auto simp: mcp_server_id_try_from_def list_all_iff split: if_splits list.splits)
  then have "length (plain_tool_name ?b) \<le> 64 \<and> list_all name_safe (plain_tool_name ?b)"
    using assms(3,4) name_safe_base by (simp add: plain_tool_name_def)
  with eq show ?thesis by (simp add: public_name_def Let_def)
qed

end
