(* ===== verification/Truncation.thy ===== *)
theory Truncation
  imports Claw_Prelude
begin

text \<open>
  Line and byte limits on tool output, \<^verbatim>\<open>crates/tools/src/truncation.rs\<close>: keeping whole lines from
  the head, or whole lines from the tail with a part of one oversized line.
\<close>

section \<open>truncation.rs\<close>

datatype truncation_limit = LimitLines | LimitBytes

record truncation_details =
  td_content :: string
  td_truncated :: bool
  td_truncated_by :: "truncation_limit option"
  td_total_lines :: nat
  td_total_bytes :: nat
  td_output_lines :: nat
  td_output_bytes :: nat
  td_last_line_partial :: bool
  td_first_line_exceeds_limit :: bool
  td_max_lines :: nat
  td_max_bytes :: nat

definition DEFAULT_MAX_LINES :: nat where
  "DEFAULT_MAX_LINES = 2000"

definition DEFAULT_MAX_BYTES :: nat where
  "DEFAULT_MAX_BYTES = 50 * 1024"

definition counted_lines :: "string \<Rightarrow> string list" where
  "counted_lines content =
     (if content = [] then []
      else let pieces = split_on newline content
           in if last content = newline then butlast pieces else pieces)"

text \<open>\<^verbatim>\<open>str::is_char_boundary\<close>: an end of the string, or a byte that does not continue a character.\<close>

definition continuation_byte :: "char \<Rightarrow> bool" where
  "continuation_byte c \<longleftrightarrow> 128 \<le> byte c \<and> byte c < 192"

definition is_char_boundary :: "string \<Rightarrow> nat \<Rightarrow> bool" where
  "is_char_boundary s i \<longleftrightarrow> i = 0 \<or> i = length s \<or> (i < length s \<and> \<not> continuation_byte (s ! i))"

function next_boundary :: "string \<Rightarrow> nat \<Rightarrow> nat" where
  "next_boundary s start =
     (if start < length s \<and> \<not> is_char_boundary s start then next_boundary s (start + 1) else start)"
  by pat_completeness auto
termination
  by (relation "measure (\<lambda>(s, start). length s - start)") auto

declare next_boundary.simps [simp del]

definition utf8_suffix :: "string \<Rightarrow> nat \<Rightarrow> string" where
  "utf8_suffix content max_bytes =
     (if length content \<le> max_bytes then content
      else drop (next_boundary content (length content - max_bytes)) content)"

definition unchanged_details :: "string \<Rightarrow> nat \<Rightarrow> nat \<Rightarrow> nat \<Rightarrow> truncation_details" where
  "unchanged_details content total_lines max_lines max_bytes =
     \<lparr>td_content = content, td_truncated = False, td_truncated_by = None, td_total_lines = total_lines,
      td_total_bytes = length content, td_output_lines = total_lines, td_output_bytes = length content,
      td_last_line_partial = False, td_first_line_exceeds_limit = False, td_max_lines = max_lines,
      td_max_bytes = max_bytes\<rparr>"

text \<open>The selection loop: the lines kept so far, their bytes, and whether the byte limit ended it.\<close>

fun select_lines :: "nat \<Rightarrow> string list \<Rightarrow> string list \<Rightarrow> nat \<Rightarrow> string list \<times> nat \<times> truncation_limit" where
  "select_lines max_bytes [] selected selected_bytes = (selected, selected_bytes, LimitLines)"
| "select_lines max_bytes (line # lines) selected selected_bytes =
     (let line_bytes = length line + (if selected \<noteq> [] then 1 else 0)
      in if saturating_add_u64 selected_bytes line_bytes > max_bytes then (selected, selected_bytes, LimitBytes)
         else select_lines max_bytes lines (selected @ [line]) (selected_bytes + line_bytes))"

definition truncate_head :: "string \<Rightarrow> nat \<Rightarrow> nat \<Rightarrow> truncation_details" where
  "truncate_head content max_lines max_bytes =
     (let lines = counted_lines content; total_lines = length lines; total_bytes = length content
      in if total_lines \<le> max_lines \<and> total_bytes \<le> max_bytes
         then unchanged_details content total_lines max_lines max_bytes
         else if lines \<noteq> [] \<and> length (hd lines) > max_bytes then
           \<lparr>td_content = [], td_truncated = True, td_truncated_by = Some LimitBytes, td_total_lines = total_lines,
            td_total_bytes = total_bytes, td_output_lines = 0, td_output_bytes = 0, td_last_line_partial = False,
            td_first_line_exceeds_limit = True, td_max_lines = max_lines, td_max_bytes = max_bytes\<rparr>
         else
           (case select_lines max_bytes (take max_lines lines) [] 0 of
              (selected, selected_bytes, truncated_by) \<Rightarrow>
                let truncated_by = (if length selected \<ge> max_lines \<and> selected_bytes \<le> max_bytes
                                    then LimitLines else truncated_by);
                    text = join_with [newline] selected
                in \<lparr>td_content = text, td_truncated = True, td_truncated_by = Some truncated_by,
                    td_total_lines = total_lines, td_total_bytes = total_bytes,
                    td_output_lines = length selected, td_output_bytes = length text,
                    td_last_line_partial = False, td_first_line_exceeds_limit = False,
                    td_max_lines = max_lines, td_max_bytes = max_bytes\<rparr>))"

text \<open>The tail loop sees the lines from the last one. The loop of the head serves, except that an
  oversized last line is kept in part.\<close>

definition select_tail ::
    "nat \<Rightarrow> string list \<Rightarrow> string list \<times> nat \<times> truncation_limit \<times> bool" where
  "select_tail max_bytes lines =
     (case select_lines max_bytes lines [] 0 of
        (selected, selected_bytes, truncated_by) \<Rightarrow>
          if truncated_by = LimitBytes \<and> selected = []
          then (let part = utf8_suffix (hd lines) max_bytes in ([part], length part, LimitBytes, True))
          else (selected, selected_bytes, truncated_by, False))"

definition truncate_tail :: "string \<Rightarrow> nat \<Rightarrow> nat \<Rightarrow> truncation_details" where
  "truncate_tail content max_lines max_bytes =
     (let lines = counted_lines content; total_lines = length lines; total_bytes = length content
      in if total_lines \<le> max_lines \<and> total_bytes \<le> max_bytes
         then unchanged_details content total_lines max_lines max_bytes
         else
           (case select_tail max_bytes (take max_lines (rev lines)) of
              (selected, selected_bytes, truncated_by, last_line_partial) \<Rightarrow>
                let truncated_by = (if length selected \<ge> max_lines \<and> selected_bytes \<le> max_bytes
                                    then LimitLines else truncated_by);
                    text = join_with [newline] (rev selected)
                in \<lparr>td_content = text, td_truncated = True, td_truncated_by = Some truncated_by,
                    td_total_lines = total_lines, td_total_bytes = total_bytes,
                    td_output_lines = length selected, td_output_bytes = length text,
                    td_last_line_partial = last_line_partial, td_first_line_exceeds_limit = False,
                    td_max_lines = max_lines, td_max_bytes = max_bytes\<rparr>))"

section \<open>Boundaries\<close>

lemma next_boundary_spec:
  assumes "start \<le> length s"
  shows "start \<le> next_boundary s start \<and> next_boundary s start \<le> length s \<and>
    is_char_boundary s (next_boundary s start) \<and>
    (\<forall>i. start \<le> i \<and> i < next_boundary s start \<longrightarrow> \<not> is_char_boundary s i)"
  using assms
proof (induction s start rule: next_boundary.induct)
  case (1 s start)
  show ?case
  proof (cases "start < length s \<and> \<not> is_char_boundary s start")
    case True
    then have eq: "next_boundary s start = next_boundary s (start + 1)" by (subst next_boundary.simps) simp
    from 1(1) [OF True] True have IH: "start + 1 \<le> next_boundary s (start + 1)" "next_boundary s (start + 1) \<le> length s"
      "is_char_boundary s (next_boundary s (start + 1))"
      "\<And>i. start + 1 \<le> i \<Longrightarrow> i < next_boundary s (start + 1) \<Longrightarrow> \<not> is_char_boundary s i" by auto
    have "\<not> is_char_boundary s i" if "start \<le> i" "i < next_boundary s (start + 1)" for i
      using IH(4) [of i] True that by (cases "i = start") auto
    with IH eq show ?thesis by auto
  next
    case False
    then have "next_boundary s start = start" by (subst next_boundary.simps) (simp only: if_False)
    with False 1(2) show ?thesis by (auto simp: is_char_boundary_def)
  qed
qed

text \<open>The suffix is the longest that fits and starts at a character.\<close>

lemma utf8_suffix_spec:
  "\<exists>start \<le> length s. utf8_suffix s n = drop start s \<and> is_char_boundary s start \<and> length s - start \<le> n \<and>
    (\<forall>i < start. is_char_boundary s i \<longrightarrow> n < length s - i)"
proof (cases "length s \<le> n")
  case True
  then show ?thesis by (intro exI [of _ 0]) (simp add: utf8_suffix_def is_char_boundary_def)
next
  case False
  let ?b = "next_boundary s (length s - n)"
  have spec: "length s - n \<le> ?b" "?b \<le> length s" "is_char_boundary s ?b"
    "\<And>i. length s - n \<le> i \<Longrightarrow> i < ?b \<Longrightarrow> \<not> is_char_boundary s i"
    using next_boundary_spec [of "length s - n" s] by auto
  have "n < length s - i" if "i < ?b" "is_char_boundary s i" for i
  proof -
    have "\<not> length s - n \<le> i" using spec(4) [of i] that by blast
    then show ?thesis by simp
  qed
  with False spec show ?thesis by (intro exI [of _ ?b]) (auto simp: utf8_suffix_def)
qed

section \<open>The selection loop\<close>

text \<open>The bytes of lines joined by newlines.\<close>

definition joined_length :: "string list \<Rightarrow> nat" where
  "joined_length lines = length (join_with [newline] lines)"

lemma joined_length_snoc:
  "joined_length (ls @ [l]) = joined_length ls + length l + (if ls \<noteq> [] then 1 else 0)"
proof (induction ls)
  case (Cons x ls)
  then show ?case by (cases ls) (auto simp: joined_length_def join_with_Cons)
qed (simp add: joined_length_def)

lemma joined_length_Cons: "joined_length (l # ls) = length l + joined_length ls + (if ls \<noteq> [] then 1 else 0)"
  by (cases ls) (simp_all add: joined_length_def)

lemma joined_length_rev: "joined_length (rev ls) = joined_length ls"
  by (induction ls) (simp_all add: joined_length_snoc joined_length_Cons)

lemma joined_length_Nil: "0 = joined_length []"
  by (simp add: joined_length_def)

text \<open>The loop keeps the longest prefix that fits, and names the byte limit exactly when a line was
  left over.\<close>

lemma select_lines_spec:
  assumes "select_lines n lines sel b = (sel', b', by)" "b = joined_length sel" "b \<le> n" "n < u64_max"
  shows "\<exists>k \<le> length lines. sel' = sel @ take k lines \<and> b' = joined_length sel' \<and> b' \<le> n \<and>
    (by = LimitLines \<longleftrightarrow> k = length lines) \<and>
    (k < length lines \<longrightarrow> n < joined_length (sel @ take (Suc k) lines))"
  using assms
proof (induction lines arbitrary: sel b)
  case (Cons l lines)
  let ?b = "length l + (if sel \<noteq> [] then 1 else 0)"
  have step: "joined_length (sel @ [l]) = b + ?b" using Cons.prems(2) by (simp add: joined_length_snoc)
  show ?case
  proof (cases "n < b + ?b")
    case True
    then have "n < saturating_add_u64 b ?b" using Cons.prems(4) by (simp add: saturating_add_u64_def)
    with Cons.prems True step show ?thesis by (intro exI [of _ 0]) (auto simp: Let_def)
  next
    case False
    then have "\<not> n < saturating_add_u64 b ?b" by (auto simp: saturating_add_u64_def)
    with Cons.prems(1) have "select_lines n lines (sel @ [l]) (b + ?b) = (sel', b', by)"
      by (auto simp: Let_def split: if_splits)
    from Cons.IH [OF this] step False Cons.prems(4) obtain k where k: "k \<le> length lines"
      "sel' = (sel @ [l]) @ take k lines" "b' = joined_length sel'" "b' \<le> n" "by = LimitLines \<longleftrightarrow> k = length lines"
      "k < length lines \<Longrightarrow> n < joined_length ((sel @ [l]) @ take (Suc k) lines)" by auto
    from k show ?thesis by (intro exI [of _ "Suc k"]) auto
  qed
qed auto

section \<open>Properties of truncation\<close>

text \<open>Head truncation returns the content unchanged exactly when it is within both limits, and
  otherwise the longest run of whole lines from the head that respects the line limit and the
  byte limit; it keeps nothing exactly when no line is allowed or the first line alone is too
  long.\<close>

lemma truncate_head_longest_prefix:
  fixes content :: string and max_lines max_bytes :: nat
  assumes "max_bytes < u64_max"
  defines "d \<equiv> truncate_head content max_lines max_bytes" and "ls \<equiv> counted_lines content"
  shows "if length ls \<le> max_lines \<and> length content \<le> max_bytes
    then \<not> td_truncated d \<and> td_content d = content
    else td_truncated d \<and> td_content d = join_with [newline] (take (td_output_lines d) ls) \<and>
      td_output_lines d \<le> max_lines \<and> td_output_lines d \<le> length ls \<and>
      td_output_bytes d = length (td_content d) \<and> td_output_bytes d \<le> max_bytes \<and>
      (td_output_lines d < max_lines \<and> td_output_lines d < length ls \<longrightarrow>
        max_bytes < length (join_with [newline] (take (Suc (td_output_lines d)) ls))) \<and>
      (td_first_line_exceeds_limit d \<longleftrightarrow> ls \<noteq> [] \<and> max_bytes < length (hd ls))"
proof (cases "length ls \<le> max_lines \<and> length content \<le> max_bytes")
  case True
  then show ?thesis by (simp add: d_def ls_def truncate_head_def Let_def unchanged_details_def)
next
  case out: False
  show ?thesis
  proof (cases "ls \<noteq> [] \<and> max_bytes < length (hd ls)")
    case True
    then have "take (Suc 0) ls = [hd ls]" by (cases ls) auto
    with True out show ?thesis by (auto simp: d_def ls_def truncate_head_def Let_def)
  next
    case False
    obtain sel b limit where s: "select_lines max_bytes (take max_lines ls) [] 0 = (sel, b, limit)"
      by (cases "select_lines max_bytes (take max_lines ls) [] 0") auto
    from select_lines_spec [OF s joined_length_Nil le0 assms(1)] obtain k where k: "k \<le> length (take max_lines ls)"
      "sel = take k (take max_lines ls)" "b = joined_length sel" "b \<le> max_bytes"
      "k < length (take max_lines ls) \<Longrightarrow> max_bytes < joined_length (take (Suc k) (take max_lines ls))"
      unfolding append_Nil by blast
    have sel: "sel = take k ls" "length sel = k" using k(1,2) by (simp_all add: min_absorb1 min_absorb2)
    have d: "td_content d = join_with [newline] sel" "td_truncated d" "td_output_lines d = k"
      "td_output_bytes d = joined_length sel" "\<not> td_first_line_exceeds_limit d"
      using s sel(2)
      unfolding d_def truncate_head_def Let_def ls_def [symmetric] if_not_P [OF out] if_not_P [OF False]
      by (simp_all add: joined_length_def)
    from k out False d sel show ?thesis by (auto simp: joined_length_def)
  qed
qed

text \<open>What the selection from the back returns: a suffix of one oversized last line, or as many whole
  lines as fit.\<close>

lemma select_tail_cases:
  assumes "max_bytes < u64_max"
  obtains (partial) "ls \<noteq> []" "0 < max_lines" "max_bytes < length (last ls)"
      "select_tail max_bytes (take max_lines (rev ls)) =
        ([utf8_suffix (last ls) max_bytes], length (utf8_suffix (last ls) max_bytes), LimitBytes, True)"
    | (whole) k limit where "k \<le> length ls" "k \<le> max_lines"
      "length (join_with [newline] (drop (length ls - k) ls)) \<le> max_bytes"
      "k < max_lines \<Longrightarrow> k < length ls \<Longrightarrow> max_bytes < length (join_with [newline] (drop (length ls - Suc k) ls))"
      "select_tail max_bytes (take max_lines (rev ls)) =
        (take k (rev ls), length (join_with [newline] (drop (length ls - k) ls)), limit, False)"
proof -
  let ?rs = "take max_lines (rev ls)"
  obtain sel b limit where s: "select_lines max_bytes ?rs [] 0 = (sel, b, limit)"
    by (cases "select_lines max_bytes ?rs [] 0") auto
  from select_lines_spec [OF s joined_length_Nil le0 assms] obtain k where k: "k \<le> length ?rs"
    "sel = take k ?rs" "b = joined_length sel" "b \<le> max_bytes" "limit = LimitLines \<longleftrightarrow> k = length ?rs"
    "k < length ?rs \<Longrightarrow> max_bytes < joined_length (take (Suc k) ?rs)"
    unfolding append_Nil by blast
  have sel: "sel = take k (rev ls)" "length sel = k" using k(1,2) by (simp_all add: min_absorb1 min_absorb2)
  have joined: "joined_length (take n (rev ls)) = length (join_with [newline] (drop (length ls - n) ls))" for n
    using joined_length_rev [of "take n (rev ls)"] by (simp add: joined_length_def rev_take)
  show thesis
  proof (cases "limit = LimitBytes \<and> sel = []")
    case True
    then have "k = 0" "?rs \<noteq> []" using sel(2) k(5) by auto
    then have ne: "ls \<noteq> []" "0 < max_lines" by auto
    then have hd: "hd ?rs = last ls" by (simp add: hd_rev)
    then have "take (Suc 0) ?rs = [last ls]" using \<open>?rs \<noteq> []\<close> by (cases ?rs) auto
    with k(6) \<open>k = 0\<close> ne have "max_bytes < length (last ls)" by (simp add: joined_length_def)
    with ne True s hd show thesis by (intro partial) (simp_all add: select_tail_def Let_def)
  next
    case False
    then have "select_tail max_bytes ?rs = (sel, b, limit, False)" using s by (auto simp: select_tail_def)
    moreover have "k \<le> length ls" "k \<le> max_lines" using k(1) by simp_all
    ultimately show thesis
      using k(3,4,6) sel joined by (intro whole [of k limit]) (simp_all add: min_absorb1)
  qed
qed

text \<open>Tail truncation returns the content unchanged exactly when it is within both limits, and
  otherwise the longest run of whole lines from the tail that respects both limits; only when the
  last line alone is too long does it return a part of it, the longest suffix that fits and
  starts at a character.\<close>

lemma truncate_tail_longest_suffix:
  fixes content :: string and max_lines max_bytes :: nat
  assumes "max_bytes < u64_max"
  defines "d \<equiv> truncate_tail content max_lines max_bytes" and "ls \<equiv> counted_lines content"
  shows "if length ls \<le> max_lines \<and> length content \<le> max_bytes
    then \<not> td_truncated d \<and> td_content d = content
    else td_truncated d \<and> td_output_bytes d = length (td_content d) \<and> td_output_bytes d \<le> max_bytes \<and>
      td_output_lines d \<le> max_lines \<and> td_output_lines d \<le> length ls \<and>
      (if td_last_line_partial d
       then td_output_lines d = 1 \<and> max_bytes < length (last ls) \<and>
         (\<exists>start. td_content d = drop start (last ls) \<and> is_char_boundary (last ls) start \<and>
           (\<forall>i < start. is_char_boundary (last ls) i \<longrightarrow> max_bytes < length (drop i (last ls))))
       else td_content d = join_with [newline] (drop (length ls - td_output_lines d) ls) \<and>
         (td_output_lines d < max_lines \<and> td_output_lines d < length ls \<longrightarrow>
           max_bytes < length (join_with [newline] (drop (length ls - Suc (td_output_lines d)) ls))))"
proof (cases "length ls \<le> max_lines \<and> length content \<le> max_bytes")
  case True
  then show ?thesis by (simp add: d_def ls_def truncate_tail_def Let_def unchanged_details_def)
next
  case out: False
  show ?thesis
  proof (cases rule: select_tail_cases [OF assms(1), of ls max_lines])
    case 1
    have "td_content d = utf8_suffix (last ls) max_bytes" "td_truncated d" "td_output_lines d = 1"
      "td_output_bytes d = length (td_content d)" "td_last_line_partial d"
      using 1(4) unfolding d_def truncate_tail_def Let_def ls_def [symmetric] if_not_P [OF out] by simp_all
    moreover obtain start where "start \<le> length (last ls)"
      "utf8_suffix (last ls) max_bytes = drop start (last ls)" "is_char_boundary (last ls) start"
      "length (last ls) - start \<le> max_bytes" "\<forall>i < start. is_char_boundary (last ls) i \<longrightarrow> max_bytes < length (last ls) - i"
      using utf8_suffix_spec [of "last ls" max_bytes] by blast
    ultimately show ?thesis using 1(1-3) out by (auto simp: Suc_le_eq)
  next
    case (2 k limit)
    have "td_content d = join_with [newline] (drop (length ls - k) ls)" "td_truncated d" "td_output_lines d = k"
      "td_output_bytes d = length (td_content d)" "\<not> td_last_line_partial d"
      using 2(1,5) unfolding d_def truncate_tail_def Let_def ls_def [symmetric] if_not_P [OF out]
      by (simp_all add: rev_take min_def)
    then show ?thesis using 2(1-4) out by auto
  qed
qed

text \<open>Content whose lines all fit but whose final newline passes the byte limit is reported as cut
  by the line limit, although every line is kept and the line limit was never reached.\<close>

lemma final_newline_blamed_on_lines:
  fixes l :: string and max_lines :: nat
  assumes "newline \<notin> set l" "l \<noteq> []" "1 < max_lines" "length l < u64_max"
  defines "d \<equiv> truncate_head (l @ [newline]) max_lines (length l)"
  shows "td_truncated d \<and> td_truncated_by d = Some LimitLines \<and> td_output_lines d = td_total_lines d \<and>
    td_output_lines d < td_max_lines d"
proof -
  have "counted_lines (l @ [newline]) = [l]"
    using assms(1) by (simp add: counted_lines_def Let_def str_simps)
  with assms(2-4) show ?thesis
    by (auto simp: d_def truncate_head_def Let_def saturating_add_u64_def)
qed

end
