(* ===== verification/Tool_Output.thy ===== *)
theory Tool_Output
  imports Messages Mcp_Identity Truncation
begin

text \<open>
  The budget on tool results, \<^verbatim>\<open>crates/tools/src/output.rs\<close>: a streaming preview that keeps a bounded
  head and tail of unbounded text, the limits on media, and the projection that replaces an
  oversized result by a labelled preview. Saving the complete result goes through the file system;
  the fragments that the serializer hands to the spool and the outcomes of its writes are
  arguments.
\<close>

section \<open>output.rs: constants\<close>

definition TOOL_TEXT_BYTES :: nat where
  "TOOL_TEXT_BYTES = 20 * 1024"

definition MEDIA_BLOCKS :: nat where
  "MEDIA_BLOCKS = 4"

definition MEDIA_BYTES :: nat where
  "MEDIA_BYTES = 8 * 1024 * 1024"

definition SPOOL_BYTES :: nat where
  "SPOOL_BYTES = 64 * 1024 * 1024"

section \<open>output.rs: text of a block\<close>

text \<open>\<open>pretty\<close> is \<^verbatim>\<open>serde_json\<close>'s indented text form. Images and tool calls have no text view.\<close>

fun tool_content_text :: "(json \<Rightarrow> string) \<Rightarrow> content_block \<Rightarrow> string option" where
  "tool_content_text pretty (CbText text) = Some text"
| "tool_content_text pretty (CbReasoning text) = Some text"
| "tool_content_text pretty (CbAudio data mime_type) = Some (''[Audio content: '' @ mime_type @ '']'')"
| "tool_content_text pretty (CbEmbeddedResource uri mime_type content) = Some
     (''[Embedded '' @ (case content of ErcBlob d \<Rightarrow> ''binary '' | ErcText t \<Rightarrow> []) @ ''resource: '' @ uri @
      (case mime_type of None \<Rightarrow> [] | Some m \<Rightarrow> '' ('' @ m @ '')'') @ '']'' @
      (case content of ErcText t \<Rightarrow> newline # t | ErcBlob d \<Rightarrow> []))"
| "tool_content_text pretty (CbResourceLink server_id uri name title description mime_type sz) = Some
     (''[Resource link: '' @ name @ '' '' @ [CHR 0xE2, CHR 0x80, CHR 0x94] @ '' '' @ uri @
      (case mime_type of None \<Rightarrow> [] | Some m \<Rightarrow> '' ('' @ m @ '')'') @ '']'' @
      (case description of None \<Rightarrow> [] | Some d \<Rightarrow> newline # d) @
      (case server_id of
         None \<Rightarrow> []
       | Some server \<Rightarrow> newline # ''Read with read_mcp_resource using server='' @ server @ '' and uri='' @ uri @ ''.''))"
| "tool_content_text pretty (CbStructured v) = Some (''[Structured content]'' @ [newline] @ pretty v)"
| "tool_content_text pretty (CbImage data mime_type) = None"
| "tool_content_text pretty (CbToolCall i n a x) = None"

section \<open>output.rs: the preview\<close>

record text_preview =
  tp_bytes :: nat
  tp_head :: string
  tp_tail :: string
  tp_segments :: nat

definition empty_preview :: text_preview where
  "empty_preview = \<lparr>tp_bytes = 0, tp_head = [], tp_tail = [], tp_segments = 0\<rparr>"

definition preview_write :: "string \<Rightarrow> text_preview \<Rightarrow> text_preview" where
  "preview_write chunk p =
     (let half = TOOL_TEXT_BYTES div 2;
          tail = drop (length chunk - half) chunk;
          overflow = saturating_add_u64 (length (tp_tail p)) (length tail) - half
      in p\<lparr>tp_bytes := saturating_add_u64 (tp_bytes p) (length chunk),
           tp_head := tp_head p @ take (half - length (tp_head p)) chunk,
           tp_tail := drop (min overflow (length (tp_tail p))) (tp_tail p) @ tail\<rparr>)"

definition preview_push :: "string \<Rightarrow> text_preview \<Rightarrow> text_preview" where
  "preview_push text p =
     (let p = (if tp_segments p > 0 then preview_write [newline] p else p)
      in preview_write text (p\<lparr>tp_segments := tp_segments p + 1\<rparr>))"

text \<open>\<^verbatim>\<open>std::str::from_utf8\<close>: the well-formed byte sequences of Unicode.\<close>

definition cont :: "char \<Rightarrow> bool" where
  "cont c \<longleftrightarrow> 128 \<le> byte c \<and> byte c \<le> 191"

definition utf8_two :: "nat \<Rightarrow> bool" where
  "utf8_two a \<longleftrightarrow> 194 \<le> a \<and> a \<le> 223"

definition utf8_three :: "nat \<Rightarrow> nat \<Rightarrow> bool" where
  "utf8_three a b \<longleftrightarrow>
     (a = 224 \<and> 160 \<le> b \<and> b \<le> 191) \<or> (a = 237 \<and> 128 \<le> b \<and> b \<le> 159) \<or>
     (((225 \<le> a \<and> a \<le> 236) \<or> a = 238 \<or> a = 239) \<and> 128 \<le> b \<and> b \<le> 191)"

definition utf8_four :: "nat \<Rightarrow> nat \<Rightarrow> bool" where
  "utf8_four a b \<longleftrightarrow>
     (a = 240 \<and> 144 \<le> b \<and> b \<le> 191) \<or> (a = 244 \<and> 128 \<le> b \<and> b \<le> 143) \<or>
     (241 \<le> a \<and> a \<le> 243 \<and> 128 \<le> b \<and> b \<le> 191)"

fun is_utf8 :: "string \<Rightarrow> bool" where
  "is_utf8 [] \<longleftrightarrow> True"
| "is_utf8 (a # s) \<longleftrightarrow>
     (if byte a < 128 then is_utf8 s
      else if utf8_two (byte a) then (case s of b # s' \<Rightarrow> cont b \<and> is_utf8 s' | _ \<Rightarrow> False)
      else (case s of
          b # c # s' \<Rightarrow>
            if utf8_three (byte a) (byte b) then cont c \<and> is_utf8 s'
            else if utf8_four (byte a) (byte b) then (case s' of d # s'' \<Rightarrow> cont c \<and> cont d \<and> is_utf8 s'' | _ \<Rightarrow> False)
            else False
        | _ \<Rightarrow> False))"

declare is_utf8.simps(2) [simp del]

function pop_to_utf8 :: "string \<Rightarrow> string" where
  "pop_to_utf8 s = (if is_utf8 s then s else pop_to_utf8 (butlast s))"
  by pat_completeness auto
termination
proof (relation "measure length")
  show "\<not> is_utf8 s \<Longrightarrow> (butlast s, s) \<in> measure length" for s by (cases s) auto
qed simp

function skip_to_utf8 :: "string \<Rightarrow> string" where
  "skip_to_utf8 s = (if s \<noteq> [] \<and> \<not> is_utf8 s then skip_to_utf8 (tl s) else s)"
  by pat_completeness auto
termination
  by (relation "measure length") auto

declare pop_to_utf8.simps [simp del] skip_to_utf8.simps [simp del]

text \<open>Rendering; \<open>None\<close> stands for the panic of an \<^verbatim>\<open>expect\<close> that meets bytes that are not UTF-8.\<close>

definition omission_marker :: "nat \<Rightarrow> string" where
  "omission_marker omitted =
     [newline] @ ''[... omitted '' @ decimal omitted @ '' text bytes ...]'' @ [newline]"

definition preview_render :: "nat \<Rightarrow> text_preview \<Rightarrow> string option" where
  "preview_render limit p =
     (if limit < 80 then Some (take limit ''[text omitted]'')
      else if tp_bytes p \<le> limit then
        (let overlap = saturating_add_u64 (length (tp_head p)) (length (tp_tail p)) - tp_bytes p;
             text = tp_head p @ drop overlap (tp_tail p)
         in if is_utf8 text then Some text else None)
      else
        (let each = (limit - 80) div 2;
             head = pop_to_utf8 (take each (tp_head p));
             tail = skip_to_utf8 (drop (length (tp_tail p) - each) (tp_tail p));
             omitted = tp_bytes p - (length head + length tail)
         in if is_utf8 tail \<and> is_utf8 head then Some (head @ omission_marker omitted @ tail) else None))"

section \<open>output.rs: the spool\<close>

datatype save_failure = SaveIo | SaveTooLarge | SaveCancelled

text \<open>One call of \<^verbatim>\<open>SpoolWriter::write\<close>: the length offered, whether the token is cancelled, and what
  the file accepts.\<close>

record spool_call =
  sc_length :: nat
  sc_cancelled :: bool
  sc_accepted :: "nat option"

definition spool_write :: "spool_call \<Rightarrow> nat \<Rightarrow> nat \<times> bool" where
  "spool_write c bytes =
     (if sc_cancelled c then (bytes, False)
      else if sc_length c > SPOOL_BYTES - bytes then (SPOOL_BYTES + 1, False)
      else case sc_accepted c of None \<Rightarrow> (bytes, False) | Some written \<Rightarrow> (bytes + written, True))"

fun spool_run :: "spool_call list \<Rightarrow> nat \<Rightarrow> nat \<times> bool" where
  "spool_run [] bytes = (bytes, True)"
| "spool_run (c # cs) bytes =
     (case spool_write c bytes of (bytes', ok) \<Rightarrow> if ok then spool_run cs bytes' else (bytes', False))"

definition write_result :: "spool_call list \<Rightarrow> bool \<Rightarrow> bool \<Rightarrow> (unit, save_failure) result" where
  "write_result calls flushed cancelled =
     (case spool_run calls 0 of (bytes, ok) \<Rightarrow>
        if \<not> ok \<or> \<not> flushed
        then Err (if cancelled then SaveCancelled else if bytes > SPOOL_BYTES then SaveTooLarge else SaveIo)
        else if cancelled then Err SaveCancelled else Ok ())"

record save_io =
  sv_cancelled :: bool
  sv_created :: bool
  sv_calls :: "spool_call list"
  sv_flushed :: bool
  sv_cancelled_after :: bool
  sv_kept :: "string option"

definition save_result :: "save_io \<Rightarrow> (string, save_failure) result" where
  "save_result io =
     (if sv_cancelled io then Err SaveCancelled
      else if \<not> sv_created io then Err SaveIo
      else and_then (write_result (sv_calls io) (sv_flushed io) (sv_cancelled_after io)) (\<lambda>_.
        ok_or SaveIo (sv_kept io)))"

section \<open>output.rs: the projection\<close>

datatype resource_page_kind = PageResources | PageTemplates

fun array_key :: "resource_page_kind \<Rightarrow> string" where
  "array_key PageResources = ''resources''"
| "array_key PageTemplates = ''resourceTemplates''"

datatype output_policy = PolicyPreserve | PolicyBounded | PolicyResourcePage resource_page_kind

record tool_output_info =
  oi_original_text_bytes :: nat
  oi_visible_text_bytes :: nat
  oi_omitted_media :: nat
  oi_full_output_path :: "string option"
  oi_save_failure :: "save_failure option"

record tool_result =
  tr_tool_call_id :: string
  tr_blocks :: "content_block list"
  tr_is_error :: bool
  tr_details :: "json option"
  tr_output :: "tool_output_info option"
  tr_cancelled :: bool

fun media_data :: "content_block \<Rightarrow> string option" where
  "media_data (CbImage data m) = Some data"
| "media_data (CbAudio data m) = Some data"
| "media_data (CbEmbeddedResource u m (ErcBlob data)) = Some data"
| "media_data _ = None"

record output_scan =
  os_preview :: text_preview
  os_media_count :: nat
  os_media_bytes :: nat
  os_media_text_bytes :: nat
  os_media_text_count :: nat
  os_original_count :: nat
  os_original_bytes :: nat
  os_omitted :: nat
  os_retained :: "(bool \<times> bool) list"

definition scan_start :: output_scan where
  "scan_start = \<lparr>os_preview = empty_preview, os_media_count = 0, os_media_bytes = 0, os_media_text_bytes = 0,
     os_media_text_count = 0, os_original_count = 0, os_original_bytes = 0, os_omitted = 0, os_retained = []\<rparr>"

definition scan_block :: "(json \<Rightarrow> string) \<Rightarrow> content_block \<Rightarrow> output_scan \<Rightarrow> output_scan" where
  "scan_block pretty block s =
     (case media_data block of
        None \<Rightarrow>
          s\<lparr>os_preview := (case tool_content_text pretty block of
                None \<Rightarrow> os_preview s | Some text \<Rightarrow> preview_push text (os_preview s)),
            os_retained := os_retained s @ [(True, False)]\<rparr>
      | Some data \<Rightarrow>
         (let media_text = (case tool_content_text pretty block of
                None \<Rightarrow> empty_preview | Some text \<Rightarrow> preview_push text empty_preview);
              s = s\<lparr>os_original_bytes := os_original_bytes s + tp_bytes media_text,
                    os_original_count := os_original_count s + tp_segments media_text\<rparr>;
              keep = (os_media_count s < MEDIA_BLOCKS \<and> length data \<le> MEDIA_BYTES - os_media_bytes s \<and>
                tp_bytes media_text \<le> TOOL_TEXT_BYTES - 2048 - MEDIA_BLOCKS - os_media_text_bytes s);
              s = (if keep
                   then s\<lparr>os_media_count := os_media_count s + 1, os_media_bytes := os_media_bytes s + length data,
                          os_media_text_bytes := os_media_text_bytes s + tp_bytes media_text,
                          os_media_text_count := os_media_text_count s + tp_segments media_text\<rparr>
                   else s\<lparr>os_omitted := os_omitted s + 1\<rparr>)
          in s\<lparr>os_retained := os_retained s @ [(keep, True)]\<rparr>))"

fun save_failure_debug :: "save_failure \<Rightarrow> string" where
  "save_failure_debug SaveIo = ''Io''"
| "save_failure_debug SaveTooLarge = ''TooLarge''"
| "save_failure_debug SaveCancelled = ''Cancelled''"

definition output_note :: "nat \<Rightarrow> (string, save_failure) result \<Rightarrow> string" where
  "output_note omitted saved =
     (let note = [newline] @ ''[Output limited; omitted media: '' @ decimal omitted @
            (case saved of
               Ok path \<Rightarrow> ''. Complete normalized result: '' @ path @ '']''
             | Err e \<Rightarrow> ''. Complete output was not saved: Some('' @ save_failure_debug e @ '')]'')
      in if length note \<le> 2048 then note
         else [newline] @ ''[Output limited; see output diagnostics for the complete file location.]'')"

definition measure_blocks :: "(json \<Rightarrow> string) \<Rightarrow> content_block list \<Rightarrow> text_preview" where
  "measure_blocks pretty blocks = fold preview_push (List.map_filter (tool_content_text pretty) blocks) empty_preview"

definition valid_page :: "(string \<Rightarrow> json option) \<Rightarrow> resource_page_kind \<Rightarrow> content_block list \<Rightarrow> bool" where
  "valid_page parse kind blocks =
     (case blocks of
        [CbText text] \<Rightarrow> length text \<le> TOOL_TEXT_BYTES \<and>
         (case parse text of
            Some (JObject m) \<Rightarrow>
             (case map_of m (array_key kind) of
                Some (JArray items) \<Rightarrow>
                  list_all (\<lambda>k. k = array_key kind \<or> k = ''nextCursor'') (keys m) \<and> length items \<le> 200 \<and>
                  (case map_of m ''nextCursor'' of
                     None \<Rightarrow> True
                   | Some cursor \<Rightarrow> items \<noteq> [] \<and>
                      (case as_str cursor of None \<Rightarrow> False
                       | Some c \<Rightarrow> c \<noteq> [] \<and> length c \<le> TOOL_TEXT_BYTES)) \<and>
                  list_all (\<lambda>item. case kind of
                      PageResources \<Rightarrow> decode_resource_info item \<noteq> None
                    | PageTemplates \<Rightarrow> decode_resource_template_info item \<noteq> None) items
              | _ \<Rightarrow> False)
          | _ \<Rightarrow> False)
      | _ \<Rightarrow> False)"

definition invalid_page_text :: string where
  "invalid_page_text = ''Invalid or oversized MCP resource page after result hooks; restart resource listing.''"

definition media_separators :: "output_scan \<Rightarrow> nat \<Rightarrow> nat" where
  "media_separators s count = count - (if tp_segments (os_preview s) = 0 then 1 else 0)"

text \<open>\<^verbatim>\<open>ToolResultProjection::apply\<close> for results that are bounded.\<close>

definition bound_result ::
    "(json \<Rightarrow> string) \<Rightarrow> (string, save_failure) result \<Rightarrow> tool_result \<Rightarrow> tool_result option" where
  "bound_result pretty saved r =
     (let s = fold (scan_block pretty) (tr_blocks r) scan_start;
          p = os_preview s
      in if tp_bytes p + os_media_text_bytes s + media_separators s (os_media_text_count s) \<le> TOOL_TEXT_BYTES \<and>
            os_omitted s = 0
         then Some r
         else
          (let original = tp_bytes p + os_original_bytes s + media_separators s (os_original_count s);
               note = output_note (os_omitted s) saved;
               budget = TOOL_TEXT_BYTES - (length note + os_media_text_bytes s + os_media_text_count s);
               collapse = (tp_bytes p + (if tp_segments p > 0 then 1 else 0) > budget)
           in Option.bind (if collapse then preview_render budget p else Some []) (\<lambda>text.
              let blocks = List.map_filter
                    (\<lambda>(block, keep, media). if keep \<and> (\<not> collapse \<or> media) then Some block else None)
                    (zip (tr_blocks r) (os_retained s)) @ [CbText (text @ note)]
              in Some (r\<lparr>tr_blocks := blocks,
                   tr_output := Some \<lparr>oi_original_text_bytes = original,
                     oi_visible_text_bytes = tp_bytes (measure_blocks pretty blocks),
                     oi_omitted_media = os_omitted s, oi_full_output_path = result_ok saved,
                     oi_save_failure = (case saved of Ok _ \<Rightarrow> None | Err e \<Rightarrow> Some e)\<rparr>\<rparr>))))"

definition apply_projection ::
    "(json \<Rightarrow> string) \<Rightarrow> (string \<Rightarrow> json option) \<Rightarrow> (string, save_failure) result \<Rightarrow> output_policy \<Rightarrow> tool_result
      \<Rightarrow> tool_result option" where
  "apply_projection pretty parse saved policy r =
     (case policy of
        PolicyPreserve \<Rightarrow> Some r
      | PolicyBounded \<Rightarrow> bound_result pretty saved r
      | PolicyResourcePage kind \<Rightarrow>
          if tr_is_error r then bound_result pretty saved r
          else if valid_page parse kind (tr_blocks r) then Some r
          else Some (r\<lparr>tr_blocks := [CbText invalid_page_text], tr_is_error := True, tr_output := None\<rparr>))"

end
