(* ===== verification/Output_Props.thy ===== *)
theory Output_Props
  imports Tool_Output
begin

text \<open>
  What the streaming preview shows, whatever the text and however it arrives in pieces, and that a
  projected tool result never exceeds its text and media budgets.
\<close>

section \<open>The preview describes the text written so far\<close>

definition preview_of :: "string \<Rightarrow> nat \<Rightarrow> text_preview" where
  "preview_of s n = \<lparr>tp_bytes = min (length s) u64_max, tp_head = take (TOOL_TEXT_BYTES div 2) s,
     tp_tail = drop (length s - TOOL_TEXT_BYTES div 2) s, tp_segments = n\<rparr>"

definition preview_texts :: "string list \<Rightarrow> text_preview" where
  "preview_texts ts = preview_of (join_with [newline] ts) (length ts)"

lemma tail_window:
  "drop (min (length (drop (length s - h) s) + length (drop (length b - h) b) - h) (length (drop (length s - h) s)))
      (drop (length s - h) s) @ drop (length b - h) b = drop (length (s @ b) - h) (s @ b)"
proof (cases "h \<le> length b")
  case True
  then have "length s + length b - h - length s = length b - h" by simp
  with True show ?thesis by simp
next
  case False
  then have "length b - h = 0" "length b + length s - h \<le> length s" by simp_all
  with False show ?thesis by (cases "h \<le> length s") (simp_all add: add.commute min_def)
qed

lemma saturating_length: "saturating_add_u64 (min m u64_max) n = min (m + n) u64_max"
  by (simp add: saturating_add_u64_def min_def)

lemma preview_write_of: "preview_write b (preview_of s n) = preview_of (s @ b) n"
proof -
  define h where "h = TOOL_TEXT_BYTES div 2"
  let ?T = "drop (length s - h) s" and ?B = "drop (length b - h) b"
  have "length ?T + length ?B \<le> h + h" by simp
  also have "h + h \<le> u64_max" by (simp add: h_def TOOL_TEXT_BYTES_def u64_max_def)
  finally have sat: "saturating_add_u64 (length ?T) (length ?B) = length ?T + length ?B"
    by (simp add: saturating_add_u64_def)
  have head: "take h s @ take (h - length (take h s)) b = take h (s @ b)"
    by (cases "h \<le> length s") (simp_all add: min_def)
  show ?thesis
    unfolding preview_write_def preview_of_def Let_def h_def [symmetric] text_preview.simps sat head
      tail_window saturating_length by (simp only: length_append simp_thms)
qed

lemma join_with_snoc: "join_with [newline] (ts @ [t]) = (if ts = [] then t else join_with [newline] ts @ newline # t)"
proof (induction ts)
  case (Cons x ts)
  then show ?case by (cases ts) simp_all
qed simp

lemma preview_push_texts: "preview_push t (preview_texts ts) = preview_texts (ts @ [t])"
proof -
  have seg: "preview_of s n\<lparr>tp_segments := m\<rparr> = preview_of s m" for s n m by (simp add: preview_of_def)
  have "tp_segments (preview_of s n) = n" for s n by (simp add: preview_of_def)
  then show ?thesis
    by (simp add: preview_push_def preview_texts_def Let_def preview_write_of seg join_with_snoc)
qed

lemma empty_preview_texts: "empty_preview = preview_texts []"
  by (simp add: empty_preview_def preview_texts_def preview_of_def)

lemma fold_push_texts: "fold preview_push ts (preview_texts us) = preview_texts (us @ ts)"
  by (induction ts arbitrary: us) (simp_all add: preview_push_texts)

lemma preview_bytes: "tp_bytes (preview_texts ts) = min (joined_length ts) u64_max"
  "tp_segments (preview_texts ts) = length ts"
  by (simp_all add: preview_texts_def preview_of_def joined_length_def)

text \<open>How the serializer cuts the text of a block into writes does not matter.\<close>

lemma preview_chunks: "fold preview_write chunks (preview_of s n) = preview_of (s @ concat chunks) n"
  by (induction chunks arbitrary: s) (simp_all add: preview_write_of)

section \<open>UTF-8\<close>

lemma is_utf8_append: "is_utf8 a \<Longrightarrow> is_utf8 b \<Longrightarrow> is_utf8 (a @ b)"
proof (induction a rule: is_utf8.induct)
  case (2 x s)
  note valid = "2.prems"(1) [unfolded is_utf8.simps(2)]
  consider (one) "byte x < 128"
    | (two) y t where "\<not> byte x < 128" "utf8_two (byte x)" "s = y # t"
    | (more) y z t where "\<not> byte x < 128" "\<not> utf8_two (byte x)" "s = y # z # t"
    using valid by (cases s rule: remdups_adj.cases) (auto split: if_splits)
  then show ?case
  proof cases
    case one
    with "2.IH"(1) "2.prems" valid show ?thesis by (simp add: is_utf8.simps(2))
  next
    case two
    with "2.IH"(2) [OF two] "2.prems" valid show ?thesis by (simp add: is_utf8.simps(2))
  next
    case more
    show ?thesis
    proof (cases "utf8_three (byte x) (byte y)")
      case True
      with more "2.IH"(3) [OF more(1,2,3) refl True] "2.prems" valid show ?thesis by (simp add: is_utf8.simps(2))
    next
      case False
      with valid more obtain d u where t: "t = d # u" and four: "utf8_four (byte x) (byte y)"
        by (cases t) (auto split: if_splits)
      with more False "2.IH"(4) [OF more(1,2,3) refl False four t] "2.prems" valid show ?thesis
        by (simp add: is_utf8.simps(2))
    qed
  qed
qed simp

lemma is_utf8_ascii: "\<forall>c \<in> set s. byte c < 128 \<Longrightarrow> is_utf8 s"
  by (induction s) (simp_all add: is_utf8.simps(2))

lemma is_utf8_concat: "\<forall>s \<in> set ss. is_utf8 s \<Longrightarrow> is_utf8 (join_with [newline] ss)"
proof (induction "[newline]" ss rule: join_with.induct)
  case (3 x y ys)
  have "is_utf8 [newline]" by (rule is_utf8_ascii) simp
  with 3 show ?case by (auto intro!: is_utf8_append simp: is_utf8.simps(2))
qed simp_all

lemma pop_to_utf8_spec: "is_utf8 (pop_to_utf8 s) \<and> (\<exists>n \<le> length s. pop_to_utf8 s = take n s)"
proof (induction s rule: pop_to_utf8.induct)
  case (1 s)
  show ?case
  proof (cases "is_utf8 s")
    case True
    then show ?thesis by (simp add: pop_to_utf8.simps [of s]) (intro exI [of _ "length s"], simp)
  next
    case False
    then have eq: "pop_to_utf8 s = pop_to_utf8 (butlast s)" by (simp add: pop_to_utf8.simps [of s])
    from 1 [OF False] obtain n where n: "n \<le> length (butlast s)" "pop_to_utf8 (butlast s) = take n (butlast s)"
      "is_utf8 (pop_to_utf8 (butlast s))" by blast
    then have "take n (butlast s) = take n s" by (simp add: butlast_conv_take)
    with n eq show ?thesis by (auto intro!: exI [of _ n])
  qed
qed

lemma skip_to_utf8_spec: "is_utf8 (skip_to_utf8 s) \<and> (\<exists>n \<le> length s. skip_to_utf8 s = drop n s)"
proof (induction s rule: skip_to_utf8.induct)
  case (1 s)
  show ?case
  proof (cases "s \<noteq> [] \<and> \<not> is_utf8 s")
    case True
    then have eq: "skip_to_utf8 s = skip_to_utf8 (tl s)" by (subst skip_to_utf8.simps) simp
    from 1 [OF True] obtain n where n: "n \<le> length (tl s)" "skip_to_utf8 (tl s) = drop n (tl s)"
      "is_utf8 (skip_to_utf8 (tl s))" by blast
    then have "drop n (tl s) = drop (Suc n) s" by (simp add: drop_Suc)
    moreover have "Suc n \<le> length s" using n(1) True by (cases s) auto
    ultimately show ?thesis using n(2,3) eq by auto
  next
    case False
    then have "skip_to_utf8 s = s" by (subst skip_to_utf8.simps) (simp only: if_False)
    with False show ?thesis by (auto intro!: exI [of _ 0])
  qed
qed

section \<open>Rendering\<close>

lemma decimal_length: "n < 10 ^ k \<Longrightarrow> 0 < k \<Longrightarrow> length (decimal n) \<le> k"
proof (induction n arbitrary: k rule: decimal.induct)
  case (1 n)
  show ?case
  proof (cases "n < 10")
    case False
    with "1.prems" obtain j where k: "k = Suc j" "0 < j" by (cases k; cases "k = 1") auto
    with "1.prems" have "n div 10 < 10 ^ j" by simp
    from "1.IH" [OF False this k(2)] False k(1) show ?thesis by (subst decimal.simps) simp
  qed (use "1.prems" in \<open>simp add: decimal.simps [of n]\<close>)
qed

lemma omission_marker_length: "n \<le> u64_max \<Longrightarrow> length (omission_marker n) \<le> 80"
  using decimal_length [of n 20] by (simp add: omission_marker_def u64_max_def)

lemma decimal_ascii: "\<forall>c \<in> set (decimal n). byte c < 128"
  using decimal_digits [of n] by (auto simp: list_all_iff is_ascii_digit_def)

lemma omission_marker_utf8: "is_utf8 (omission_marker n)"
  using decimal_ascii [of n] by (intro is_utf8_ascii) (auto simp: omission_marker_def)

lemma render_whole:
  assumes "length s \<le> TOOL_TEXT_BYTES"
  shows "take (TOOL_TEXT_BYTES div 2) s @
      drop (saturating_add_u64 (length (take (TOOL_TEXT_BYTES div 2) s))
        (length (drop (length s - TOOL_TEXT_BYTES div 2) s)) - min (length s) u64_max)
        (drop (length s - TOOL_TEXT_BYTES div 2) s) = s"
proof -
  define h where "h = TOOL_TEXT_BYTES div 2"
  have h: "length s \<le> 2 * h" "2 * h \<le> u64_max" using assms by (simp_all add: h_def TOOL_TEXT_BYTES_def u64_max_def)
  then have sat: "saturating_add_u64 (length (take h s)) (length (drop (length s - h) s)) =
      length (take h s) + length (drop (length s - h) s)" "min (length s) u64_max = length s"
    by (simp_all add: saturating_add_u64_def min_def)
  show ?thesis unfolding h_def [symmetric] sat
  proof (cases "length s \<le> h")
    case False
    then have "min (length s) h + (length s - (length s - h)) - length s + (length s - h) = h" using h by simp
    then show "take h s @ drop (length (take h s) + length (drop (length s - h) s) - length s) (drop (length s - h) s) = s"
      by (simp add: min_def)
  qed simp
qed

lemma preview_render_spec:
  assumes "is_utf8 s" "limit \<le> TOOL_TEXT_BYTES" "length s \<le> u64_max"
  shows "\<exists>t. preview_render limit (preview_of s n) = Some t \<and> length t \<le> limit \<and> is_utf8 t \<and>
    (80 \<le> limit \<longrightarrow> (if length s \<le> limit then t = s
      else \<exists>i j. i + j \<le> length s \<and> t = take i s @ omission_marker (length s - (i + j)) @ drop (length s - j) s))"
proof -
  define h where "h = TOOL_TEXT_BYTES div 2"
  have bytes: "tp_bytes (preview_of s n) = length s" "tp_head (preview_of s n) = take h s"
    "tp_tail (preview_of s n) = drop (length s - h) s"
    using assms(3) by (simp_all add: preview_of_def h_def)
  consider (tiny) "limit < 80" | (whole) "80 \<le> limit" "length s \<le> limit" | (cut) "80 \<le> limit" "limit < length s" by linarith
  then show ?thesis
  proof cases
    case tiny
    have "is_utf8 (take limit ''[text omitted]'')" by (rule is_utf8_ascii) (auto dest!: in_set_takeD)
    with tiny show ?thesis by (simp add: preview_render_def)
  next
    case whole
    then have "preview_render limit (preview_of s n) = Some s"
      using render_whole [of s] assms by (simp add: preview_render_def bytes Let_def h_def min_def)
    with whole assms(1) show ?thesis by simp
  next
    case cut
    define each where "each = (limit - 80) div 2"
    have each: "each \<le> h" "each + each + 80 \<le> limit" using assms(2) cut by (simp_all add: each_def h_def)
    from pop_to_utf8_spec [of "take each (take h s)"] obtain i where
      i0: "i \<le> length (take each (take h s))" "pop_to_utf8 (take each (take h s)) = take i (take each (take h s))"
        "is_utf8 (pop_to_utf8 (take each (take h s)))" by blast
    then have "i \<le> each" "take i (take each (take h s)) = take i s" using each(1) by (simp_all add: min_absorb1)
    with i0 have i: "i \<le> each" "pop_to_utf8 (take each (take h s)) = take i s" "is_utf8 (take i s)" by simp_all
    let ?tail = "drop (length (drop (length s - h) s) - each) (drop (length s - h) s)"
    have tail: "?tail = drop (length s - each) s" using each cut(2) by simp
    from skip_to_utf8_spec [of ?tail] obtain m where m: "m \<le> length (drop (length s - each) s)"
      "skip_to_utf8 ?tail = drop m (drop (length s - each) s)" "is_utf8 (skip_to_utf8 ?tail)"
      unfolding tail by blast
    define j where "j = each - m"
    have j: "j \<le> each" "skip_to_utf8 ?tail = drop (length s - j) s" using m(1,2) each cut(2) by (simp_all add: j_def add.commute)
    have len: "length (take i s) = i" "length (drop (length s - j) s) = j" using i(1) j(1) each(2) cut(2) by simp_all
    have "preview_render limit (preview_of s n) =
        Some (take i s @ omission_marker (length s - (i + j)) @ drop (length s - j) s)"
      using cut i(2,3) j(2) m(3) len unfolding preview_render_def bytes Let_def each_def [symmetric] by simp
    moreover have "length (take i s @ omission_marker (length s - (i + j)) @ drop (length s - j) s) \<le> limit"
    proof -
      have "length s - (i + j) \<le> u64_max" using assms(3) by simp
      from omission_marker_length [OF this] each(2) i(1) j(1) show ?thesis unfolding length_append len by simp
    qed
    moreover have "is_utf8 (take i s @ omission_marker (length s - (i + j)) @ drop (length s - j) s)"
      using i(3) m(3) j(2) omission_marker_utf8 by (auto intro!: is_utf8_append)
    moreover have "if length s \<le> limit then take i s @ omission_marker (length s - (i + j)) @ drop (length s - j) s = s
      else \<exists>i' j'. i' + j' \<le> length s \<and> take i s @ omission_marker (length s - (i + j)) @ drop (length s - j) s =
        take i' s @ omission_marker (length s - (i' + j')) @ drop (length s - j') s"
    proof -
      have ij: "i + j \<le> length s" and no: "\<not> length s \<le> limit" using cut i(1) j(1) each(2) by simp_all
      show ?thesis unfolding if_not_P [OF no] by (intro exI conjI) (rule ij, rule refl)
    qed
    ultimately show ?thesis by blast
  qed
qed

text \<open>The bound needs nothing of the text.\<close>

lemma preview_render_length:
  assumes "preview_render limit (preview_of s n) = Some t" "limit \<le> TOOL_TEXT_BYTES"
  shows "length t \<le> limit"
proof -
  have small: "TOOL_TEXT_BYTES < u64_max" by (simp add: TOOL_TEXT_BYTES_def u64_max_def)
  let ?p = "preview_of s n"
  consider (tiny) "limit < 80" | (whole) "80 \<le> limit" "tp_bytes ?p \<le> limit" | (cut) "80 \<le> limit" "limit < tp_bytes ?p" by linarith
  then show ?thesis
  proof cases
    case tiny
    with assms(1) show ?thesis by (auto simp: preview_render_def)
  next
    case whole
    then have s: "length s \<le> limit" using assms(2) small by (auto simp: preview_of_def min_def split: if_splits)
    with assms(2) have "t = s"
      using assms(1) whole render_whole [of s]
      by (auto simp: preview_render_def Let_def preview_of_def split: if_splits)
    with s show ?thesis by simp
  next
    case cut
    define each where "each = (limit - 80) div 2"
    define hd' where "hd' = pop_to_utf8 (take each (tp_head ?p))"
    define tl' where "tl' = skip_to_utf8 (drop (length (tp_tail ?p) - each) (tp_tail ?p))"
    have t: "t = hd' @ omission_marker (tp_bytes ?p - (length hd' + length tl')) @ tl'"
      using assms(1) cut unfolding preview_render_def Let_def each_def [symmetric] hd'_def [symmetric] tl'_def [symmetric]
      by (auto split: if_splits)
    have "length hd' \<le> each" "length tl' \<le> each"
      using pop_to_utf8_spec [of "take each (tp_head ?p)"] skip_to_utf8_spec [of "drop (length (tp_tail ?p) - each) (tp_tail ?p)"]
      by (auto simp: hd'_def tl'_def)
    moreover have "length (omission_marker (tp_bytes ?p - (length hd' + length tl'))) \<le> 80"
      by (rule omission_marker_length) (simp add: preview_of_def)
    moreover have "each + each + 80 \<le> limit" using cut by (simp add: each_def)
    ultimately show ?thesis unfolding t length_append by simp
  qed
qed

section \<open>The scan over the blocks\<close>

definition text_views :: "(json \<Rightarrow> string) \<Rightarrow> content_block list \<Rightarrow> string list" where
  "text_views pretty bs = List.map_filter (tool_content_text pretty) bs"

definition text_size :: "string list \<Rightarrow> nat" where
  "text_size ts = sum_list (map length ts)"

definition media_size :: "content_block list \<Rightarrow> nat" where
  "media_size bs = sum_list (map length (List.map_filter media_data bs))"

definition is_media :: "content_block \<Rightarrow> bool" where
  "is_media b \<longleftrightarrow> media_data b \<noteq> None"

lemma text_views_simps [simp]:
  "text_views pretty [] = []"
  "text_views pretty (b # bs) = (case tool_content_text pretty b of None \<Rightarrow> text_views pretty bs | Some t \<Rightarrow> t # text_views pretty bs)"
  "text_views pretty (bs @ cs) = text_views pretty bs @ text_views pretty cs"
  by (simp_all add: text_views_def List.map_filter_def split: option.split)

lemma text_size_simps [simp]:
  "text_size [] = 0" "text_size (t # ts) = length t + text_size ts" "text_size (ts @ us) = text_size ts + text_size us"
  by (simp_all add: text_size_def)

lemma media_size_simps [simp]:
  "media_size [] = 0" "media_size (bs @ cs) = media_size bs + media_size cs"
  "media_size [b] = (case media_data b of None \<Rightarrow> 0 | Some d \<Rightarrow> length d)"
  by (simp_all add: media_size_def List.map_filter_def split: option.split)

lemma joined_length_size: "joined_length ts = text_size ts + (length ts - 1)"
proof (induction ts)
  case (Cons t ts)
  then show ?case by (cases ts) (simp_all add: joined_length_Cons)
qed (simp add: joined_length_def)

text \<open>The blocks kept by the scan, and the media among them.\<close>

definition kept :: "(content_block \<times> bool \<times> bool) list \<Rightarrow> content_block list" where
  "kept zs = map fst (filter (\<lambda>(b, keep, media). keep) zs)"

definition kept_media :: "(content_block \<times> bool \<times> bool) list \<Rightarrow> content_block list" where
  "kept_media zs = map fst (filter (\<lambda>(b, keep, media). keep \<and> media) zs)"

definition scan_inv :: "(json \<Rightarrow> string) \<Rightarrow> content_block list \<Rightarrow> output_scan \<Rightarrow> bool" where
  "scan_inv pretty bs s \<longleftrightarrow>
     length (os_retained s) = length bs \<and>
     os_preview s = preview_texts (text_views pretty (filter (\<lambda>b. \<not> is_media b) bs)) \<and>
     (let zs = zip bs (os_retained s); ms = kept_media zs in
        os_media_count s = length ms \<and> length ms \<le> MEDIA_BLOCKS \<and>
        os_media_bytes s = media_size ms \<and> media_size ms \<le> MEDIA_BYTES \<and>
        os_media_text_bytes s = text_size (text_views pretty ms) \<and>
        text_size (text_views pretty ms) \<le> TOOL_TEXT_BYTES - 2048 - MEDIA_BLOCKS \<and>
        os_media_text_count s = length (text_views pretty ms) \<and>
        (\<forall>(b, keep, media) \<in> set zs. media = is_media b \<and> (\<not> media \<longrightarrow> keep)) \<and>
        (os_omitted s = 0 \<longrightarrow> (\<forall>(b, keep, media) \<in> set zs. keep)))"

lemma empty_preview_fields: "tp_bytes empty_preview = 0" "tp_segments empty_preview = 0"
  by (simp_all add: empty_preview_def)

lemma push_empty: "preview_push t empty_preview = preview_texts [t]"
  unfolding empty_preview_texts by (simp add: preview_push_texts)

lemma kept_media_snoc:
  "kept_media (zs @ [(b, k, m)]) = (if k \<and> m then kept_media zs @ [b] else kept_media zs)"
  by (simp add: kept_media_def)

lemma scan_block_inv:
  assumes "scan_inv pretty bs s"
  shows "scan_inv pretty (bs @ [b]) (scan_block pretty b s)"
proof (cases "media_data b")
  case None
  have z: "zip (bs @ [b]) (os_retained s @ [x]) = zip bs (os_retained s) @ [(b, x)]" for x
    using assms by (simp add: scan_inv_def)
  from None assms show ?thesis
    by (cases "tool_content_text pretty b")
      (simp_all add: scan_inv_def scan_block_def z Let_def is_media_def kept_media_snoc preview_push_texts)
next
  case (Some d)
  let ?ts = "text_views pretty [b]"
  define mt where "mt = (case tool_content_text pretty b of None \<Rightarrow> empty_preview | Some t \<Rightarrow> preview_push t empty_preview)"
  have mt: "tp_bytes mt = min (text_size ?ts) u64_max" "tp_segments mt = length ?ts"
    by (simp_all add: mt_def empty_preview_fields push_empty preview_bytes joined_length_def split: option.split)
  have z: "zip (bs @ [b]) (os_retained s @ [x]) = zip bs (os_retained s) @ [(b, x)]" for x
    using assms by (simp add: scan_inv_def)
  define keep where "keep \<longleftrightarrow> os_media_count s < MEDIA_BLOCKS \<and> length d \<le> MEDIA_BYTES - os_media_bytes s \<and>
    tp_bytes mt \<le> TOOL_TEXT_BYTES - 2048 - MEDIA_BLOCKS - os_media_text_bytes s"
  have fit: "tp_bytes mt = text_size ?ts" if keep
  proof -
    have "tp_bytes mt \<le> TOOL_TEXT_BYTES" using that unfolding keep_def by linarith
    also have "TOOL_TEXT_BYTES < u64_max" by (simp add: TOOL_TEXT_BYTES_def u64_max_def)
    finally show ?thesis using mt(1) by simp
  qed
  have step: "scan_block pretty b s = (let s = s\<lparr>os_original_bytes := os_original_bytes s + tp_bytes mt,
      os_original_count := os_original_count s + tp_segments mt\<rparr> in
    (if keep then s\<lparr>os_media_count := os_media_count s + 1, os_media_bytes := os_media_bytes s + length d,
        os_media_text_bytes := os_media_text_bytes s + tp_bytes mt,
        os_media_text_count := os_media_text_count s + tp_segments mt, os_retained := os_retained s @ [(keep, True)]\<rparr>
     else s\<lparr>os_omitted := os_omitted s + 1, os_retained := os_retained s @ [(keep, True)]\<rparr>))"
    using Some by (simp add: scan_block_def Let_def mt_def [symmetric] keep_def)
  show ?thesis
  proof (cases keep)
    case True
    have "os_media_count s < MEDIA_BLOCKS" "length d \<le> MEDIA_BYTES - os_media_bytes s"
      "text_size ?ts \<le> TOOL_TEXT_BYTES - 2048 - MEDIA_BLOCKS - os_media_text_bytes s"
      using True fit [OF True] by (simp_all add: keep_def)
    with True assms Some fit [OF True] mt(2) show ?thesis
      unfolding step
      by (simp add: scan_inv_def Let_def z kept_media_snoc is_media_def del: text_views_simps(2))
        (elim conjE, intro conjI; linarith)
  next
    case False
    with assms Some show ?thesis
      unfolding step by (simp add: scan_inv_def Let_def z kept_media_snoc is_media_def)
  qed
qed

lemma scan_all_inv: "scan_inv pretty bs (fold (scan_block pretty) bs scan_start)"
proof (induction bs rule: rev_induct)
  case Nil
  show ?case by (simp add: scan_inv_def scan_start_def empty_preview_texts kept_media_def)
next
  case (snoc b bs)
  then show ?case by (simp add: scan_block_inv)
qed

section \<open>The budget\<close>

lemma kept_split:
  fixes pretty :: "json \<Rightarrow> string" and zs :: "(content_block \<times> bool \<times> bool) list"
  assumes "\<forall>(b, keep, media) \<in> set zs. media = is_media b \<and> (\<not> media \<longrightarrow> keep)"
  defines "ts \<equiv> text_views pretty (kept zs)" and "ns \<equiv> text_views pretty (filter (\<lambda>b. \<not> is_media b) (map fst zs))"
    and "ms \<equiv> text_views pretty (kept_media zs)"
  shows "text_size ts = text_size ns + text_size ms \<and> length ts = length ns + length ms"
  unfolding ts_def ns_def ms_def using assms(1)
  by (induction zs) (auto simp: kept_def kept_media_def split: option.split)

lemma kept_media_of_kept:
  "\<forall>(b, keep, media) \<in> set zs. media = is_media b \<Longrightarrow> List.map_filter media_data (kept zs) = List.map_filter media_data (kept_media zs)"
  by (induction zs) (auto simp: kept_def kept_media_def List.map_filter_def is_media_def)

lemma output_note_length: "length (output_note omitted saved) \<le> 2048"
  by (simp add: output_note_def Let_def)

lemma map_filter_kept:
  "List.map_filter (\<lambda>(b, keep, media). if keep \<and> (\<not> collapse \<or> media) then Some b else None) zs =
    (if collapse then kept_media zs else kept zs)"
  by (induction zs) (auto simp: kept_def kept_media_def List.map_filter_def)

text \<open>The media of a projected result respect the limits on their number and size.\<close>

definition media_within :: "content_block list \<Rightarrow> bool" where
  "media_within bs \<longleftrightarrow> length (List.map_filter media_data bs) \<le> MEDIA_BLOCKS \<and> media_size bs \<le> MEDIA_BYTES"

lemma kept_media_all: "\<forall>(b, keep, media) \<in> set zs. media = is_media b \<Longrightarrow> length (List.map_filter media_data (kept_media zs)) = length (kept_media zs)"
  by (induction zs) (auto simp: kept_media_def List.map_filter_def is_media_def)

lemma bound_result_within:
  assumes "bound_result pretty saved r = Some r'"
  shows "joined_length (text_views pretty (tr_blocks r')) \<le> TOOL_TEXT_BYTES \<and> media_within (tr_blocks r')"
proof -
  define s where "s = fold (scan_block pretty) (tr_blocks r) scan_start"
  define zs where "zs = zip (tr_blocks r) (os_retained s)"
  define ns where "ns = text_views pretty (filter (\<lambda>b. \<not> is_media b) (tr_blocks r))"
  define ms where "ms = text_views pretty (kept_media zs)"
  have inv: "scan_inv pretty (tr_blocks r) s" unfolding s_def by (rule scan_all_inv)
  then have len: "length (os_retained s) = length (tr_blocks r)" and p: "os_preview s = preview_texts ns"
    and count: "length (kept_media zs) \<le> MEDIA_BLOCKS" "media_size (kept_media zs) \<le> MEDIA_BYTES"
    and mtext: "os_media_text_bytes s = text_size ms" "text_size ms \<le> TOOL_TEXT_BYTES - 2048 - MEDIA_BLOCKS"
      "os_media_text_count s = length ms"
    and z: "\<forall>(b, keep, media) \<in> set zs. media = is_media b \<and> (\<not> media \<longrightarrow> keep)"
    and all: "os_omitted s = 0 \<Longrightarrow> \<forall>(b, keep, media) \<in> set zs. keep"
    by (simp_all add: scan_inv_def Let_def zs_def ns_def ms_def)
  have fst: "map fst zs = tr_blocks r" using len by (simp add: zs_def)
  have split: "text_size (text_views pretty (kept zs)) = text_size ns + text_size ms"
    "length (text_views pretty (kept zs)) = length ns + length ms"
    using kept_split [OF z, of pretty] by (simp_all add: ns_def ms_def fst)
  have zm: "\<forall>(b, keep, media) \<in> set zs. media = is_media b" using z by auto
  have media: "media_within (kept_media zs)" "media_within (kept zs)"
    using count kept_media_all [OF zm] kept_media_of_kept [OF zm] by (simp_all add: media_within_def media_size_def)
  have "length ms \<le> length (kept_media zs)" by (simp add: ms_def text_views_def List.map_filter_def)
  then have few: "length ms \<le> MEDIA_BLOCKS" using count(1) by simp
  have small: "TOOL_TEXT_BYTES < u64_max" by (simp add: TOOL_TEXT_BYTES_def u64_max_def)
  show ?thesis
  proof (cases "tp_bytes (os_preview s) + os_media_text_bytes s + media_separators s (os_media_text_count s) \<le> TOOL_TEXT_BYTES \<and>
      os_omitted s = 0")
    case True
    then have r': "r' = r" using assms by (simp add: bound_result_def Let_def s_def)
    have "kept zs = tr_blocks r" using all True fst by (auto simp: kept_def filter_id_conv)
    moreover have "joined_length ns \<le> TOOL_TEXT_BYTES"
      using True small by (simp add: p preview_bytes min_def split: if_splits)
    ultimately show ?thesis
      using True media(2) split mtext(1,3) small
      by (auto simp: r' joined_length_size p preview_bytes media_separators_def split: if_splits)
  next
    case False
    let ?note = "output_note (os_omitted s) saved"
    define budget where "budget = TOOL_TEXT_BYTES - (length ?note + text_size ms + length ms)"
    define collapse where "collapse \<longleftrightarrow> budget < tp_bytes (os_preview s) + (if tp_segments (os_preview s) > 0 then 1 else 0)"
    have room: "length ?note + text_size ms + length ms + budget = TOOL_TEXT_BYTES"
      using output_note_length [of "os_omitted s" saved] mtext(2) few
      by (simp add: budget_def TOOL_TEXT_BYTES_def MEDIA_BLOCKS_def)
    from assms False obtain t where t: "(if collapse then preview_render budget (os_preview s) else Some []) = Some t"
      and r': "tr_blocks r' = (if collapse then kept_media zs else kept zs) @ [CbText (t @ ?note)]"
      unfolding bound_result_def Let_def s_def [symmetric] if_not_P [OF False] mtext(1,3) budget_def [symmetric]
        collapse_def [symmetric] zs_def [symmetric] map_filter_kept
      by (auto simp: bind_eq_Some_conv)
    have mw: "media_within (tr_blocks r')" using media by (simp add: r' media_within_def List.map_filter_def)
    show ?thesis
    proof (cases collapse)
      case True
      have "length t \<le> budget"
        using t True room preview_render_length [of budget "join_with [newline] ns" "length ns" t]
        by (simp add: p preview_texts_def)
      with True mw room show ?thesis by (simp add: r' joined_length_size ms_def)
    next
      case no: False
      then have "tp_bytes (os_preview s) \<le> budget" by (simp add: collapse_def)
      then have "joined_length ns \<le> budget" "tp_bytes (os_preview s) = joined_length ns"
        using room small by (auto simp: p preview_bytes min_def split: if_splits)
      with no t mw room split show ?thesis
        by (cases ns) (auto simp: r' joined_length_size p preview_bytes collapse_def)
    qed
  qed
qed

section \<open>Properties of tool output\<close>

text \<open>The preview of any texts, however large, renders to valid UTF-8 within its limit and without a
  panic: texts that fit are shown whole, and otherwise a prefix and a suffix are shown around a
  marker that states exactly how many bytes were left out.\<close>

lemma preview_shows_head_and_tail:
  fixes ts :: "string list"
  assumes "\<forall>t \<in> set ts. is_utf8 t" "limit \<le> TOOL_TEXT_BYTES" "length (join_with [newline] ts) \<le> u64_max"
  defines "s \<equiv> join_with [newline] ts"
  shows "\<exists>t. preview_render limit (fold preview_push ts empty_preview) = Some t \<and> length t \<le> limit \<and> is_utf8 t \<and>
    (80 \<le> limit \<longrightarrow> (if length s \<le> limit then t = s
      else \<exists>i j. i + j \<le> length s \<and> t = take i s @ omission_marker (length s - (i + j)) @ drop (length s - j) s))"
proof -
  have p: "fold preview_push ts empty_preview = preview_of s (length ts)"
    using fold_push_texts [of ts "[]"] by (simp add: empty_preview_texts) (simp add: preview_texts_def s_def)
  show ?thesis
    unfolding p by (rule preview_render_spec) (use is_utf8_concat [OF assms(1)] assms(2,3) in \<open>simp_all add: s_def\<close>)
qed

lemma bound_result_total:
  assumes "\<forall>t \<in> set (text_views pretty (tr_blocks r)). is_utf8 t"
    and "joined_length (text_views pretty (filter (\<lambda>b. \<not> is_media b) (tr_blocks r))) \<le> u64_max"
  shows "\<exists>r'. bound_result pretty saved r = Some r'"
proof -
  define s where "s = fold (scan_block pretty) (tr_blocks r) scan_start"
  define ns where "ns = text_views pretty (filter (\<lambda>b. \<not> is_media b) (tr_blocks r))"
  have "scan_inv pretty (tr_blocks r) s" unfolding s_def by (rule scan_all_inv)
  then have p: "os_preview s = preview_texts ns" by (simp add: scan_inv_def ns_def)
  have "set ns \<subseteq> set (text_views pretty (tr_blocks r))" by (auto simp: ns_def text_views_def List.map_filter_def)
  with assms(1) have utf8: "is_utf8 (join_with [newline] ns)" by (intro is_utf8_concat) auto
  have "\<exists>t. preview_render limit (os_preview s) = Some t" if "limit \<le> TOOL_TEXT_BYTES" for limit
    using preview_render_spec [OF utf8 that, of "length ns"] assms(2)
    by (auto simp: p preview_texts_def ns_def joined_length_def)
  then have "preview_render (TOOL_TEXT_BYTES - x) (os_preview s) \<noteq> None" for x by (metis diff_le_self option.discI)
  then show ?thesis unfolding bound_result_def Let_def s_def [symmetric] by (auto simp: bind_eq_Some_conv)
qed

text \<open>C38: whatever a tool returns, the projection of its result ends without a panic in a result whose
  visible text stays within the text budget and whose media stay within their number and size.\<close>

theorem tool_output_within_budget:
  assumes "policy \<noteq> PolicyPreserve" "\<forall>t \<in> set (text_views pretty (tr_blocks r)). is_utf8 t"
    and "joined_length (text_views pretty (filter (\<lambda>b. \<not> is_media b) (tr_blocks r))) \<le> u64_max"
  shows "\<exists>r'. apply_projection pretty parse saved policy r = Some r' \<and>
    joined_length (text_views pretty (tr_blocks r')) \<le> TOOL_TEXT_BYTES \<and> media_within (tr_blocks r')"
proof -
  obtain b where b: "bound_result pretty saved r = Some b" using bound_result_total [OF assms(2,3)] by blast
  note within = bound_result_within [OF b]
  have page: "joined_length (text_views pretty (tr_blocks r)) \<le> TOOL_TEXT_BYTES \<and> media_within (tr_blocks r)"
    if v: "valid_page parse kind (tr_blocks r)" for kind
  proof -
    obtain t where "tr_blocks r = [CbText t]" "length t \<le> TOOL_TEXT_BYTES"
      using v unfolding valid_page_def by (cases "tr_blocks r" rule: remdups_adj.cases)
        (auto split: content_block.splits)
    then show ?thesis by (simp add: joined_length_def media_within_def media_size_def List.map_filter_def MEDIA_BLOCKS_def)
  qed
  have bad: "joined_length (text_views pretty [CbText invalid_page_text]) \<le> TOOL_TEXT_BYTES \<and> media_within [CbText invalid_page_text]"
    by (simp add: joined_length_def media_within_def media_size_def List.map_filter_def invalid_page_text_def TOOL_TEXT_BYTES_def)
  show ?thesis
  proof (cases policy)
    case (PolicyResourcePage kind)
    with b within page bad show ?thesis by (auto simp: apply_projection_def)
  qed (use assms(1) b within in \<open>simp_all add: apply_projection_def\<close>)
qed

theorem tool_output_within_budget_witness:
  "\<exists>r'. apply_projection (\<lambda>v. []) (\<lambda>s. None) (Err SaveIo) PolicyBounded
      \<lparr>tr_tool_call_id = ''c'', tr_blocks = [CbText (replicate 30000 (CHR ''x''))], tr_is_error = False,
        tr_details = None, tr_output = None, tr_cancelled = False\<rparr> = Some r' \<and>
    joined_length (text_views (\<lambda>v. []) (tr_blocks r')) \<le> TOOL_TEXT_BYTES \<and> media_within (tr_blocks r')"
proof -
  have "is_utf8 (replicate 30000 (CHR ''x''))" by (rule is_utf8_ascii) simp
  then show ?thesis
    by (intro tool_output_within_budget) (simp_all add: is_media_def joined_length_def u64_max_def)
qed

end
