(* ===== verification/Command_Line.thy ===== *)
theory Command_Line
  imports Mcp_Identity
begin

text \<open>
  Shell commands as plan mode judges them, \<^verbatim>\<open>crates/tools/src/command_line.rs\<close>: one quote-aware pass
  that splits a command into segments and looks for substitutions and redirections, and the
  allowlist of programs and options. Splitting a segment into words is done by the \<^verbatim>\<open>shlex\<close> crate
  and is an argument. A position in the command is the list of characters from there on.
\<close>

section \<open>command_line.rs: tables\<close>

definition PLAIN_READERS :: "string list" where
  "PLAIN_READERS =
     [''cat'', ''cd'', ''cut'', ''date'', ''df'', ''diff'', ''du'', ''echo'', ''grep'', ''head'', ''jq'', ''ls'', ''nl'',
      ''ps'', ''pwd'', ''realpath'', ''stat'', ''tail'', ''tr'', ''uname'', ''wc'', ''which'', ''whoami'']"

definition GIT_READERS :: "string list" where
  "GIT_READERS =
     [''blame'', ''branch'', ''describe'', ''diff'', ''grep'', ''log'', ''ls-files'', ''remote'', ''rev-parse'',
      ''shortlog'', ''show'', ''status'']"

definition GIT_BRANCH_LISTING :: "string list" where
  "GIT_BRANCH_LISTING = [''-a'', ''-r'', ''-v'', ''-vv'', ''--list'', ''--show-current'']"

definition GIT_WRITERS :: "string list" where
  "GIT_WRITERS = [''--output'', ''--ext-diff'', ''--open-files-in-pager'']"

definition FIND_WRITERS :: "string list" where
  "FIND_WRITERS =
     [''-delete'', ''-exec'', ''-execdir'', ''-ok'', ''-okdir'', ''-fprint'', ''-fprint0'', ''-fprintf'', ''-fls'']"

datatype read_only_violation =
    Unparsable
  | Substitution
  | Redirect
  | Program string
  | Argument string string
  | GitGlobalOption string

section \<open>command_line.rs: the scan\<close>

abbreviation backslash :: char where
  "backslash \<equiv> CHR 0x5C"

abbreviation single_quote :: char where
  "single_quote \<equiv> CHR 0x27"

abbreviation double_quote :: char where
  "double_quote \<equiv> CHR 0x22"

record shell_scan =
  ss_segments :: "string list"
  ss_violation :: "read_only_violation option"

definition breach :: "read_only_violation \<Rightarrow> shell_scan \<Rightarrow> shell_scan" where
  "breach v s = (if ss_violation s = None then s\<lparr>ss_violation := Some v\<rparr> else s)"

text \<open>The target of a redirection ends at a blank or an operator.\<close>

fun redirection_target :: "string \<Rightarrow> string \<times> string" where
  "redirection_target [] = ([], [])"
| "redirection_target (c # s) =
     (if ws_len (c # s) \<noteq> 0 \<or> c \<in> set '';|&<>'' then ([], c # s)
      else let (target, rest) = redirection_target s in (c # target, rest))"

definition consume_redirection :: "string \<Rightarrow> shell_scan \<Rightarrow> string \<times> shell_scan" where
  "consume_redirection rest s =
     (let rest = (case rest of c # r \<Rightarrow> if c = CHR ''>'' then r else rest | [] \<Rightarrow> rest)
      in case rest of
           c # r \<Rightarrow>
             if c = CHR ''&'' then
               (let after = dropWhile is_ascii_digit r
                in (after, if length after = length r then breach Redirect s else s))
             else
               (let (target, after) = redirection_target (dropWhile (\<lambda>c. c = CHR '' '' \<or> c = CHR 0x09) rest)
                in (after, if target \<noteq> ''/dev/null'' then breach Redirect s else s))
         | [] \<Rightarrow> ([], breach Redirect s))"

definition dollar :: "string \<Rightarrow> bool \<Rightarrow> shell_scan \<Rightarrow> shell_scan" where
  "dollar rest double_quoted s =
     (case rest of
        [] \<Rightarrow> s
      | c # _ \<Rightarrow>
          if c = CHR ''{'' \<or> c = CHR ''['' then breach Substitution s
          else if c = single_quote \<and> \<not> double_quoted then breach Unparsable s
          else s)"

definition split_segment :: "string \<Rightarrow> shell_scan \<Rightarrow> shell_scan" where
  "split_segment current s =
     (if \<not> is_blank current then s\<lparr>ss_segments := ss_segments s @ [current]\<rparr> else s)"

text \<open>Whether a reversed string is empty or starts with a white-space character.\<close>

definition blank_behind :: "string \<Rightarrow> bool" where
  "blank_behind r \<longleftrightarrow> r = [] \<or> ws_len_back r \<noteq> 0"

definition strip_descriptor :: "string \<Rightarrow> string" where
  "strip_descriptor current =
     (let digits = takeWhile is_ascii_digit (rev current)
      in if digits \<noteq> [] \<and> blank_behind (drop (length digits) (rev current))
         then take (length current - length digits) current else current)"

lemma redirection_target_length: "length (snd (redirection_target s)) \<le> length s"
  by (induction s) (auto simp: Let_def split: prod.splits)

lemma consume_redirection_length: "length (fst (consume_redirection rest s)) \<le> length rest"
proof -
  define r0 where "r0 = (case rest of c # r \<Rightarrow> if c = CHR ''>'' then r else rest | [] \<Rightarrow> rest)"
  have r0: "length r0 \<le> length rest" by (simp add: r0_def split: list.split)
  have target: "length (snd (redirection_target (dropWhile P xs))) \<le> length xs" for P xs
    using redirection_target_length [of "dropWhile P xs"] length_dropWhile_le [of P xs] by (rule le_trans)
  have "length (fst (consume_redirection rest s)) \<le> length r0"
  proof (cases r0)
    case (Cons c r)
    then have eq: "fst (consume_redirection rest s) = (if c = CHR ''&'' then dropWhile is_ascii_digit r
        else snd (redirection_target (dropWhile (\<lambda>c. c = CHR '' '' \<or> c = CHR 0x09) r0)))"
      unfolding consume_redirection_def Let_def r0_def [symmetric] by (simp add: case_prod_unfold)
    show ?thesis
    proof (cases "c = CHR ''&''")
      case True
      with eq Cons show ?thesis by (simp add: le_SucI length_dropWhile_le)
    next
      case False
      with eq target show ?thesis by (simp only: if_False)
    qed
  qed (simp add: consume_redirection_def Let_def r0_def [symmetric])
  with r0 show ?thesis by simp
qed

function scan_loop :: "string \<Rightarrow> char option \<Rightarrow> string \<Rightarrow> shell_scan \<Rightarrow> shell_scan" where
  "scan_loop [] quote current s = split_segment current s"
| "scan_loop (c # rest) (Some active) current s =
     (if c = backslash \<and> active = double_quote then
        (case rest of
           [] \<Rightarrow> scan_loop [] (Some active) (current @ [c]) s
         | n # rest' \<Rightarrow> scan_loop rest' (Some active) (current @ [c, n]) s)
      else if c = CHR ''$'' \<and> active = double_quote then
        scan_loop rest (Some active) (current @ [c]) (dollar rest True s)
      else if c = active then scan_loop rest None (current @ [c]) s
      else scan_loop rest (Some active) (current @ [c]) s)"
| "scan_loop (c # rest) None current s =
     (if c = backslash then
        (case rest of
           [] \<Rightarrow> scan_loop [] None (current @ [c]) s
         | n # rest' \<Rightarrow> scan_loop rest' None (current @ [c, n]) s)
      else if c = single_quote \<or> c = double_quote then scan_loop rest (Some c) (current @ [c]) s
      else if c = CHR ''$'' then scan_loop rest None (current @ [c]) (dollar rest False s)
      else if c = CHR ''#'' \<and> blank_behind (rev current) then
        scan_loop (dropWhile (\<lambda>c. c \<noteq> newline) rest) None current s
      else if c = CHR ''&'' \<and> rest \<noteq> [] \<and> hd rest = CHR ''>'' then
        (let consumed = consume_redirection (tl rest) s in scan_loop (fst consumed) None current (snd consumed))
      else if c \<in> {CHR '';'', CHR ''|'', CHR ''&'', newline} then scan_loop rest None [] (split_segment current s)
      else if c = CHR ''>'' then
        (let consumed = consume_redirection rest s
         in scan_loop (fst consumed) None (strip_descriptor current) (snd consumed))
      else scan_loop rest None (current @ [c]) s)"
  by pat_completeness auto
termination
  by (relation "measure (\<lambda>(rest, quote, current, s). length rest)")
    (auto simp: le_imp_less_Suc length_dropWhile_le consume_redirection_length
      intro: le_less_trans [OF consume_redirection_length])

declare scan_loop.simps(2,3) [simp del]

definition shell_scan_from :: "string \<Rightarrow> shell_scan" where
  "shell_scan_from command =
     (let s = \<lparr>ss_segments = [], ss_violation = None\<rparr>;
          s = (if list_ex (\<lambda>marker. contains_str marker command) [''$('', ''`'', ''<('', ''>('']
               then breach Substitution s else s)
      in scan_loop command None [] s)"

section \<open>command_line.rs: invocations\<close>

record command_invocation =
  ci_executable :: string
  ci_arguments :: "string list"

definition invocation_try_from :: "(string \<Rightarrow> string list option) \<Rightarrow> string \<Rightarrow> command_invocation option" where
  "invocation_try_from shlex segment =
     (case shlex segment of
        Some (executable # arguments) \<Rightarrow> Some \<lparr>ci_executable = executable, ci_arguments = arguments\<rparr>
      | _ \<Rightarrow> None)"

text \<open>\<^verbatim>\<open>Path::file_name\<close>: the last component that is neither empty nor \<^verbatim>\<open>.\<close>, unless it is \<^verbatim>\<open>..\<close>.\<close>

definition invocation_program :: "command_invocation \<Rightarrow> string" where
  "invocation_program i =
     (case rev (filter (\<lambda>c. c \<noteq> [] \<and> c \<noteq> ''.'') (split_on (CHR ''/'') (ci_executable i))) of
        [] \<Rightarrow> ci_executable i
      | c # _ \<Rightarrow> if c = ''..'' then ci_executable i else c)"

definition before_equals :: "string \<Rightarrow> string" where
  "before_equals s = takeWhile (\<lambda>c. c \<noteq> CHR ''='') s"

definition option_name :: "string \<Rightarrow> string" where
  "option_name argument =
     (if starts_with ''--'' argument then before_equals argument
      else case strip_prefix ''-'' argument of
          Some (c # cluster) \<Rightarrow> ''-'' @ first_char (c # cluster)
        | _ \<Rightarrow> argument)"

text \<open>The option an argument is refused for, if any.\<close>

definition refused_option :: "char list \<Rightarrow> string list \<Rightarrow> string \<Rightarrow> string option" where
  "refused_option short long argument =
     (case strip_prefix ''--'' argument of
        Some name \<Rightarrow>
          (let name = before_equals name
           in if name \<noteq> [] \<and> list_ex (\<lambda>opt. starts_with name (dropWhile (\<lambda>c. c = CHR ''-'') opt)) long
              then Some argument else None)
      | None \<Rightarrow>
         (case strip_prefix ''-'' argument of
            Some cluster \<Rightarrow> map_option (\<lambda>flag. ''-'' @ [flag]) (find (\<lambda>flag. flag \<in> set short) cluster)
          | None \<Rightarrow> None))"

fun refuse_options ::
    "char list \<Rightarrow> string list \<Rightarrow> string \<Rightarrow> string list \<Rightarrow> (unit, read_only_violation) result" where
  "refuse_options short long program [] = Ok ()"
| "refuse_options short long program (argument # arguments) =
     (case refused_option short long argument of
        Some opt \<Rightarrow> Err (Argument program (option_name opt))
      | None \<Rightarrow> refuse_options short long program arguments)"

definition refuse_first ::
    "string \<Rightarrow> string option \<Rightarrow> (unit, read_only_violation) result" where
  "refuse_first program found =
     (case found of None \<Rightarrow> Ok () | Some argument \<Rightarrow> Err (Argument program (option_name argument)))"

definition git_read_only :: "command_invocation \<Rightarrow> (unit, read_only_violation) result" where
  "git_read_only i =
     (case ci_arguments i of
        [] \<Rightarrow> Err (Program ''git'')
      | subcommand # arguments \<Rightarrow>
          if starts_with ''-'' subcommand then Err (GitGlobalOption (option_name subcommand))
          else
           (let program = ''git '' @ subcommand
            in if subcommand \<notin> set GIT_READERS then Err (Program program)
               else if subcommand = ''branch'' then
                 refuse_first program (find (\<lambda>a. a \<notin> set GIT_BRANCH_LISTING) arguments)
               else if subcommand = ''remote'' then refuse_first program (find (\<lambda>a. a \<noteq> ''-v'') arguments)
               else if subcommand = ''grep'' then refuse_options [CHR ''O''] GIT_WRITERS program (ci_arguments i)
               else refuse_options [] GIT_WRITERS program (ci_arguments i)))"

definition invocation_read_only :: "command_invocation \<Rightarrow> (unit, read_only_violation) result" where
  "invocation_read_only i =
     (let program = invocation_program i; arguments = ci_arguments i
      in if program = ''git'' then git_read_only i
         else if program = ''file'' then refuse_options [CHR ''C''] [''--compile''] program arguments
         else if program = ''rg'' then refuse_options [] [''--pre'', ''--pre-glob''] program arguments
         else if program = ''fd'' then refuse_options [CHR ''x'', CHR ''X''] [''--exec'', ''--exec-batch''] program arguments
         else if program = ''sort'' then refuse_options [CHR ''o''] [''--output'', ''--compress-program''] program arguments
         else if program = ''printf'' then refuse_options [CHR ''v''] [] program arguments
         else if program = ''tree'' then refuse_options [CHR ''o''] [] program arguments
         else if program = ''find'' then refuse_first program (find (\<lambda>a. a \<in> set FIND_WRITERS) arguments)
         else if program = ''uniq'' then
           (if length (filter (\<lambda>a. \<not> starts_with ''-'' a) arguments) > 1
            then Err (Argument program (option_name ''OUTPUT'')) else Ok ())
         else if program \<in> set PLAIN_READERS then Ok ()
         else Err (Program program))"

fun segments_read_only ::
    "(string \<Rightarrow> string list option) \<Rightarrow> string list \<Rightarrow> (unit, read_only_violation) result" where
  "segments_read_only shlex [] = Ok ()"
| "segments_read_only shlex (segment # segments) =
     and_then (ok_or Unparsable (invocation_try_from shlex segment)) (\<lambda>i.
     and_then (invocation_read_only i) (\<lambda>_. segments_read_only shlex segments))"

definition read_only :: "(string \<Rightarrow> string list option) \<Rightarrow> string \<Rightarrow> (unit, read_only_violation) result" where
  "read_only shlex command =
     (let scan = shell_scan_from command
      in case ss_violation scan of
           Some v \<Rightarrow> Err v
         | None \<Rightarrow> segments_read_only shlex (ss_segments scan))"

text \<open>The lenient parse keeps every segment that parses.\<close>

definition invocations :: "(string \<Rightarrow> string list option) \<Rightarrow> string \<Rightarrow> command_invocation list" where
  "invocations shlex command = List.map_filter (invocation_try_from shlex) (ss_segments (shell_scan_from command))"

section \<open>Specification vocabulary\<close>

definition ALLOWED_PROGRAMS :: "string list" where
  "ALLOWED_PROGRAMS =
     [''git'', ''file'', ''rg'', ''fd'', ''sort'', ''printf'', ''tree'', ''find'', ''uniq''] @ PLAIN_READERS"

text \<open>What may follow an output redirection: a descriptor to duplicate, or \<^verbatim>\<open>/dev/null\<close> as a whole word.\<close>

definition permitted_redirection :: "string \<Rightarrow> bool" where
  "permitted_redirection rest \<longleftrightarrow>
     (let r = (case rest of c # t \<Rightarrow> if c = CHR ''>'' then t else rest | [] \<Rightarrow> rest)
      in (\<exists>d t. r = CHR ''&'' # d # t \<and> is_ascii_digit d) \<or>
         (\<exists>blanks t. r = blanks @ ''/dev/null'' @ t \<and> set blanks \<subseteq> {CHR '' '', CHR 0x09} \<and>
            (t = [] \<or> ws_len t \<noteq> 0 \<or> hd t \<in> set '';|&<>'')))"

text \<open>A long option is given by any of its abbreviations, with or without a value; a short one by any
  cluster it occurs in.\<close>

definition gives_option :: "char list \<Rightarrow> string list \<Rightarrow> string \<Rightarrow> bool" where
  "gives_option short long argument \<longleftrightarrow>
     (\<exists>name rest opt more. argument = ''--'' @ name @ rest \<and> name \<noteq> [] \<and> CHR ''='' \<notin> set name \<and>
        (rest = [] \<or> hd rest = CHR ''='') \<and> opt \<in> set long \<and>
        dropWhile (\<lambda>c. c = CHR ''-'') opt = name @ more) \<or>
     (\<not> starts_with ''--'' argument \<and> (\<exists>cluster flag. argument = CHR ''-'' # cluster \<and> flag \<in> set cluster \<and> flag \<in> set short))"

section \<open>The scan\<close>

lemma breach_violation [simp]: "ss_violation (breach v s) \<noteq> None" "ss_violation s = Some w \<Longrightarrow> breach v s = s"
  by (simp_all add: breach_def)

lemma breach_None [simp]: "ss_violation (breach v s) = None \<longleftrightarrow> False"
  using breach_violation(1) [of v s] by blast

lemma split_segment_violation [simp]: "ss_violation (split_segment current s) = ss_violation s"
  by (simp add: split_segment_def)

lemma dollar_violation: "ss_violation s = Some v \<Longrightarrow> dollar rest q s = s"
  by (simp add: dollar_def split: list.split)

lemma consume_violation: "ss_violation s = Some v \<Longrightarrow> snd (consume_redirection rest s) = s"
  by (simp add: consume_redirection_def Let_def split: list.split prod.split)

text \<open>A breach stays.\<close>

lemma scan_loop_violation: "ss_violation s = Some v \<Longrightarrow> ss_violation (scan_loop rest quote current s) = Some v"
proof (induction rest quote current s rule: scan_loop.induct)
  case (2 c rest active current s)
  then show ?case by (subst scan_loop.simps) (auto simp: dollar_violation split: list.split)
next
  case (3 c rest current s)
  then show ?case by (subst scan_loop.simps) (auto simp: dollar_violation consume_violation Let_def split: list.split)
qed simp

lemma redirection_target_spec:
  "redirection_target s = (target, rest) \<Longrightarrow>
    s = target @ rest \<and> CHR ''>'' \<notin> set target \<and> (rest = [] \<or> ws_len rest \<noteq> 0 \<or> hd rest \<in> set '';|&<>'')"
  by (induction s arbitrary: target) (auto simp: Let_def split: if_splits prod.splits)

text \<open>A redirection that is consumed without a breach is permitted, and a further redirection can only
  start after it.\<close>

lemma consume_redirection_ok:
  assumes "consume_redirection rest s = (after, s')" "ss_violation s' = None"
  shows "permitted_redirection rest \<and> (\<exists>p. rest = p @ after \<and> (\<forall>x y. p = x @ CHR ''>'' # y \<longrightarrow> x = []))"
proof -
  define r where "r = (case rest of c # t \<Rightarrow> if c = CHR ''>'' then t else rest | [] \<Rightarrow> rest)"
  define pre where "pre = (case rest of c # t \<Rightarrow> if c = CHR ''>'' then ''>'' else [] | [] \<Rightarrow> [])"
  have pre: "rest = pre @ r" "pre = [] \<or> pre = ''>''" by (simp_all add: pre_def r_def split: list.split)
  have again: "\<exists>p. rest = p @ after \<and> (\<forall>x y. p = x @ CHR ''>'' # y \<longrightarrow> x = [])"
    if "r = q @ after" "CHR ''>'' \<notin> set q" for q
    using pre that by (intro exI [of _ "pre @ q"]) (auto simp: Cons_eq_append_conv append_eq_Cons_conv append_eq_append_conv2)
  from assms obtain c t where r: "r = c # t"
    by (cases r) (auto simp: consume_redirection_def Let_def r_def [symmetric])
  show ?thesis
  proof (cases "c = CHR ''&''")
    case True
    with assms r have after: "after = dropWhile is_ascii_digit t" and "length after \<noteq> length t"
      by (auto simp: consume_redirection_def Let_def r_def [symmetric] split: if_splits)
    then obtain d u where t: "t = d # u" "is_ascii_digit d" by (cases t) (auto split: if_splits)
    have "r = (CHR ''&'' # takeWhile is_ascii_digit t) @ after" using r True after by simp
    moreover have "CHR ''>'' \<notin> set (CHR ''&'' # takeWhile is_ascii_digit t)"
      by (auto dest: set_takeWhileD simp: is_ascii_digit_def)
    ultimately have "\<exists>p. rest = p @ after \<and> (\<forall>x y. p = x @ CHR ''>'' # y \<longrightarrow> x = [])" by (rule again)
    moreover have "permitted_redirection rest"
      unfolding permitted_redirection_def Let_def r_def [symmetric] using r True t by blast
    ultimately show ?thesis by blast
  next
    case False
    let ?blank = "\<lambda>c. c = CHR '' '' \<or> c = CHR 0x09"
    obtain target where tg: "redirection_target (dropWhile ?blank r) = (target, after)" and dev: "target = ''/dev/null''"
      using assms r False
      by (cases "redirection_target (dropWhile ?blank r)")
        (auto simp: consume_redirection_def Let_def r_def [symmetric] simp del: dropWhile.simps redirection_target.simps split: if_splits)
    note spec = redirection_target_spec [OF tg]
    have eq: "r = takeWhile ?blank r @ ''/dev/null'' @ after"
      using spec dev takeWhile_dropWhile_id [of ?blank r] by (metis append.assoc)
    have blanks: "set (takeWhile ?blank r) \<subseteq> {CHR '' '', CHR 0x09}" by (auto dest: set_takeWhileD)
    then have "CHR ''>'' \<notin> set (takeWhile ?blank r @ ''/dev/null'')" by auto
    from again [OF _ this] eq have "\<exists>p. rest = p @ after \<and> (\<forall>x y. p = x @ CHR ''>'' # y \<longrightarrow> x = [])" by simp
    moreover have "permitted_redirection rest"
      unfolding permitted_redirection_def Let_def r_def [symmetric] using eq blanks spec by blast
    ultimately show ?thesis by blast
  qed
qed

section \<open>Redirections\<close>

abbreviation plain_character :: "char \<Rightarrow> bool" where
  "plain_character c \<equiv> c \<notin> {backslash, single_quote, double_quote, CHR ''#''}"

text \<open>What is left of a run of redirections after the first of them has been consumed.\<close>

lemma later_redirection:
  assumes "rest = p @ after" "\<forall>x y. p = x @ CHR ''>'' # y \<longrightarrow> x = []" "rest = a @ CHR ''>'' # b" "a \<noteq> []"
  obtains a' where "after = a' @ CHR ''>'' # b" "a = p @ a'"
proof -
  from assms(1,3) consider (inside) x where "p = a @ CHR ''>'' # x"
    | (behind) a' where "a = p @ a'" "after = a' @ CHR ''>'' # b"
    by (auto simp: append_eq_append_conv2 Cons_eq_append_conv)
  then show ?thesis
  proof cases
    case inside
    with assms(2,4) show ?thesis by blast
  qed (use that in blast)
qed

lemma scan_loop_redirections:
  assumes "ss_violation (scan_loop rest quote current s) = None" "quote = None" "list_all plain_character rest"
    "rest = a @ CHR ''>'' # b" "a = [] \<or> last a \<noteq> CHR ''>''"
  shows "permitted_redirection b"
  using assms
proof (induction rest quote current s arbitrary: a rule: scan_loop.induct)
  case (3 c rest current s)
  have step: "ss_violation s' = None" if "ss_violation (scan_loop r q cur s') = None" for r q cur s'
    using scan_loop_violation [of s' _ r q cur] that by (cases "ss_violation s'") auto
  have further: "permitted_redirection b"
    if "consume_redirection r s = (after, s')" and "r = a' @ CHR ''>'' # b" and "last a' \<noteq> CHR ''>''" and "a' \<noteq> []"
      and "ss_violation (scan_loop after None cur s') = None" and plain: "list_all plain_character r"
      and "\<And>a'. list_all plain_character after \<Longrightarrow> after = a' @ CHR ''>'' # b \<Longrightarrow> a' = [] \<or> last a' \<noteq> CHR ''>'' \<Longrightarrow>
        permitted_redirection b" for r after s' a' cur
  proof -
    from consume_redirection_ok [OF that(1) step [OF that(5)]] obtain p
      where p: "r = p @ after" "\<forall>x y. p = x @ CHR ''>'' # y \<longrightarrow> x = []" by blast
    from later_redirection [OF p that(2,4)] obtain a'' where "after = a'' @ CHR ''>'' # b" "a' = p @ a''" .
    moreover have "a'' = [] \<or> last a'' \<noteq> CHR ''>''" using that(3) \<open>a' = p @ a''\<close> by auto
    ultimately show ?thesis using that(7) plain p(1) by auto
  qed
  show ?case
  proof (cases "c = CHR ''>''")
    case gt: True
    obtain after s' where c: "consume_redirection rest s = (after, s')" by fastforce
    have run: "ss_violation (scan_loop after None (strip_descriptor current) s') = None"
      using "3.prems"(1) gt c by (simp add: scan_loop.simps Let_def)
    show ?thesis
    proof (cases a)
      case Nil
      then show ?thesis using consume_redirection_ok [OF c step [OF run]] "3.prems"(4) gt by simp
    next
      case (Cons x a')
      with "3.prems"(4,5) gt have a': "rest = a' @ CHR ''>'' # b" "a' \<noteq> []" "last a' \<noteq> CHR ''>''"
        by (auto split: if_splits)
      show ?thesis
      proof (rule further [OF c a'(1,3,2) run])
        show "list_all plain_character rest" using "3.prems"(3) by simp
      next
        fix a''
        assume "list_all plain_character after" "after = a'' @ CHR ''>'' # b" "a'' = [] \<or> last a'' \<noteq> CHR ''>''"
        then show "permitted_redirection b" using "3.IH"(8) gt c run by simp
      qed
    qed
  next
    case ngt: False
    then obtain a' where a: "a = c # a'" and rest: "rest = a' @ CHR ''>'' # b" using "3.prems"(4) by (cases a) auto
    show ?thesis
    proof (cases "c = CHR ''&'' \<and> rest \<noteq> [] \<and> hd rest = CHR ''>''")
      case amp: True
      then obtain r where r: "rest = CHR ''>'' # r" by (cases rest) auto
      obtain after s' where c: "consume_redirection r s = (after, s')" by fastforce
      have run: "ss_violation (scan_loop after None current s') = None"
        using "3.prems"(1) amp r c by (simp add: scan_loop.simps Let_def)
      show ?thesis
      proof (cases a')
        case Nil
        then show ?thesis using consume_redirection_ok [OF c step [OF run]] rest r by simp
      next
        case (Cons x a2)
        with rest r "3.prems"(5) a have a2: "r = a2 @ CHR ''>'' # b" "a2 \<noteq> []" "last a2 \<noteq> CHR ''>''"
          by (auto split: if_splits)
        show ?thesis
        proof (rule further [OF c a2(1,3,2) run])
          show "list_all plain_character r" using "3.prems"(3) r by simp
        next
          fix a''
          assume "list_all plain_character after" "after = a'' @ CHR ''>'' # b" "a'' = [] \<or> last a'' \<noteq> CHR ''>''"
          then show "permitted_redirection b" using "3.IH"(6) amp r c run by simp
        qed
      qed
    next
      case False
      have "list_all plain_character rest" "a' = [] \<or> last a' \<noteq> CHR ''>''"
        using "3.prems"(3,5) a by (auto split: if_splits)
      then show ?thesis using "3.prems"(1,3) "3.IH"(4,7,9) ngt False rest
        by (subst (asm) scan_loop.simps) (auto split: if_splits)
    qed
  qed
qed simp_all

section \<open>Options and programs\<close>

lemma before_equals_spec:
  "before_equals s = name \<longleftrightarrow> (\<exists>rest. s = name @ rest \<and> CHR ''='' \<notin> set name \<and> (rest = [] \<or> hd rest = CHR ''=''))"
proof
  assume "before_equals s = name"
  then have "s = name @ dropWhile (\<lambda>c. c \<noteq> CHR ''='') s \<and> CHR ''='' \<notin> set name"
    by (auto simp: before_equals_def dest: set_takeWhileD)
  moreover have "dropWhile (\<lambda>c. c \<noteq> CHR ''='') s = [] \<or> hd (dropWhile (\<lambda>c. c \<noteq> CHR ''='') s) = CHR ''=''"
    using hd_dropWhile [of "\<lambda>c. c \<noteq> CHR ''=''" s] by blast
  ultimately show "\<exists>rest. s = name @ rest \<and> CHR ''='' \<notin> set name \<and> (rest = [] \<or> hd rest = CHR ''='')" by blast
next
  assume "\<exists>rest. s = name @ rest \<and> CHR ''='' \<notin> set name \<and> (rest = [] \<or> hd rest = CHR ''='')"
  then obtain rest where "s = name @ rest" "CHR ''='' \<notin> set name" "rest = [] \<or> hd rest = CHR ''=''" by blast
  then show "before_equals s = name"
    by (cases rest) (auto simp: before_equals_def takeWhile_eq_all_conv takeWhile_tail intro: trans [OF takeWhile_append2])
qed

lemma refused_option_iff: "refused_option short long argument \<noteq> None \<longleftrightarrow> gives_option short long argument"
proof (cases "starts_with ''--'' argument")
  case True
  then obtain t where t: "argument = ''--'' @ t" by (auto simp: starts_with_iff)
  then have "strip_prefix ''--'' argument = Some t" by (simp add: strip_prefix_Some_iff)
  then have "refused_option short long argument \<noteq> None \<longleftrightarrow>
      (before_equals t \<noteq> [] \<and> (\<exists>opt\<in>set long. \<exists>more. dropWhile (\<lambda>c. c = CHR ''-'') opt = before_equals t @ more))"
    by (auto simp: refused_option_def Let_def list_ex_iff starts_with_iff)
  also have "\<dots> \<longleftrightarrow> gives_option short long argument"
  proof
    assume "before_equals t \<noteq> [] \<and> (\<exists>opt\<in>set long. \<exists>more. dropWhile (\<lambda>c. c = CHR ''-'') opt = before_equals t @ more)"
    then obtain opt more where opt: "before_equals t \<noteq> []" "opt \<in> set long"
      "dropWhile (\<lambda>c. c = CHR ''-'') opt = before_equals t @ more" by blast
    from before_equals_spec [of t] obtain rest
      where "t = before_equals t @ rest" "CHR ''='' \<notin> set (before_equals t)" "rest = [] \<or> hd rest = CHR ''=''" by blast
    then show "gives_option short long argument"
      unfolding gives_option_def t using opt
      by (rule_tac disjI1, rule_tac x = "before_equals t" in exI, rule_tac x = rest in exI,
          rule_tac x = opt in exI, rule_tac x = more in exI) simp
  next
    assume "gives_option short long argument"
    then obtain name rest opt more where *: "t = name @ rest" "name \<noteq> []" "CHR ''='' \<notin> set name"
        "rest = [] \<or> hd rest = CHR ''=''" "opt \<in> set long" "dropWhile (\<lambda>c. c = CHR ''-'') opt = name @ more"
      unfolding gives_option_def t using True t by auto
    then have "before_equals t = name" using before_equals_spec by blast
    with * show "before_equals t \<noteq> [] \<and> (\<exists>opt\<in>set long. \<exists>more. dropWhile (\<lambda>c. c = CHR ''-'') opt = before_equals t @ more)"
      by auto
  qed
  finally show ?thesis .
next
  case False
  then have "\<not> (\<exists>name rest. argument = ''--'' @ name @ rest)" "strip_prefix ''--'' argument = None"
    by (auto simp: starts_with_iff strip_prefix_def)
  moreover have "find P xs \<noteq> None \<longleftrightarrow> (\<exists>x\<in>set xs. P x)" for P and xs :: string
    by (auto simp: find_None_iff)
  ultimately show ?thesis
    using False
    by (cases argument) (auto simp: refused_option_def gives_option_def strip_prefix_def starts_with_def simp del: not_None_eq)
qed

lemma refuse_options_iff:
  "refuse_options short long program arguments = Ok () \<longleftrightarrow> (\<forall>a\<in>set arguments. \<not> gives_option short long a)"
  by (induction arguments) (auto simp: refused_option_iff [symmetric] split: option.split)

lemma refuse_first_iff: "refuse_first program (find P arguments) = Ok () \<longleftrightarrow> (\<forall>a\<in>set arguments. \<not> P a)"
  by (auto simp: refuse_first_def find_None_iff find_Some_iff dest: sym split: option.split)

text \<open>What the allowlist means for one invocation.\<close>

definition options_of :: "string \<Rightarrow> char list \<times> string list" where
  "options_of program =
     (if program = ''file'' then ([CHR ''C''], [''--compile''])
      else if program = ''rg'' then ([], [''--pre'', ''--pre-glob''])
      else if program = ''fd'' then ([CHR ''x'', CHR ''X''], [''--exec'', ''--exec-batch''])
      else if program = ''sort'' then ([CHR ''o''], [''--output'', ''--compress-program''])
      else if program = ''printf'' then ([CHR ''v''], [])
      else ([CHR ''o''], []))"

definition harmless_git :: "string list \<Rightarrow> bool" where
  "harmless_git words \<longleftrightarrow>
     (\<exists>subcommand arguments. words = subcommand # arguments \<and> subcommand \<in> set GIT_READERS \<and>
        (if subcommand = ''branch'' then set arguments \<subseteq> set GIT_BRANCH_LISTING
         else if subcommand = ''remote'' then set arguments \<subseteq> {''-v''}
         else \<not> (\<exists>a\<in>set arguments. gives_option (if subcommand = ''grep'' then [CHR ''O''] else []) GIT_WRITERS a)))"

definition harmless :: "command_invocation \<Rightarrow> bool" where
  "harmless i \<longleftrightarrow>
     (let program = invocation_program i; arguments = ci_arguments i
      in program \<in> set PLAIN_READERS \<or> program = ''git'' \<and> harmless_git arguments \<or>
         program = ''find'' \<and> set arguments \<inter> set FIND_WRITERS = {} \<or>
         program = ''uniq'' \<and> length (filter (\<lambda>a. \<not> starts_with ''-'' a) arguments) \<le> 1 \<or>
         program \<in> {''file'', ''rg'', ''fd'', ''sort'', ''printf'', ''tree''} \<and>
           (\<forall>a\<in>set arguments. \<not> gives_option (fst (options_of program)) (snd (options_of program)) a))"

lemma git_readers_plain: "s \<in> set GIT_READERS \<Longrightarrow> \<not> starts_with ''-'' s \<and> \<not> gives_option short long s"
  by (auto simp: GIT_READERS_def starts_with_def gives_option_def)

lemma git_read_only_iff: "git_read_only i = Ok () \<longleftrightarrow> harmless_git (ci_arguments i)"
proof (cases "ci_arguments i")
  case (Cons subcommand arguments)
  show ?thesis
  proof (cases "subcommand \<in> set GIT_READERS")
    case True
    note plain = git_readers_plain [OF True]
    from True plain Cons have "git_read_only i =
        (if subcommand = ''branch'' then refuse_first (''git '' @ subcommand) (find (\<lambda>a. a \<notin> set GIT_BRANCH_LISTING) arguments)
         else if subcommand = ''remote'' then refuse_first (''git '' @ subcommand) (find (\<lambda>a. a \<noteq> ''-v'') arguments)
         else refuse_options (if subcommand = ''grep'' then [CHR ''O''] else []) GIT_WRITERS (''git '' @ subcommand) (subcommand # arguments))"
      by (auto simp: git_read_only_def Let_def)
    moreover from True Cons have "harmless_git (ci_arguments i) \<longleftrightarrow>
        (if subcommand = ''branch'' then set arguments \<subseteq> set GIT_BRANCH_LISTING
         else if subcommand = ''remote'' then set arguments \<subseteq> {''-v''}
         else \<not> (\<exists>a\<in>set arguments. gives_option (if subcommand = ''grep'' then [CHR ''O''] else []) GIT_WRITERS a))"
      by (simp add: harmless_git_def)
    moreover have "set xs \<subseteq> A \<longleftrightarrow> (\<forall>a\<in>set xs. \<not> a \<notin> A)" for xs and A :: "string set" by blast
    ultimately show ?thesis
      using plain by (simp only: refuse_first_iff refuse_options_iff list.set ball_simps split: if_split) simp
  next
    case False
    with Cons show ?thesis by (simp add: git_read_only_def harmless_git_def Let_def)
  qed
qed (simp add: git_read_only_def harmless_git_def)

lemma special_not_plain:
  "''git'' \<notin> set PLAIN_READERS" "''file'' \<notin> set PLAIN_READERS" "''rg'' \<notin> set PLAIN_READERS"
  "''fd'' \<notin> set PLAIN_READERS" "''sort'' \<notin> set PLAIN_READERS" "''printf'' \<notin> set PLAIN_READERS"
  "''tree'' \<notin> set PLAIN_READERS" "''find'' \<notin> set PLAIN_READERS" "''uniq'' \<notin> set PLAIN_READERS"
  by (simp_all add: PLAIN_READERS_def)

lemma invocation_read_only_iff: "invocation_read_only i = Ok () \<longleftrightarrow> harmless i"
proof -
  let ?p = "invocation_program i"
  consider "?p = ''git''" | "?p = ''file''" | "?p = ''rg''" | "?p = ''fd''" | "?p = ''sort''" | "?p = ''printf''"
    | "?p = ''tree''" | "?p = ''find''" | "?p = ''uniq''"
    | "?p \<notin> {''git'', ''file'', ''rg'', ''fd'', ''sort'', ''printf'', ''tree'', ''find'', ''uniq''}" by blast
  then show ?thesis
    by cases (auto simp: special_not_plain invocation_read_only_def harmless_def Let_def options_of_def git_read_only_iff
        refuse_options_iff refuse_first_iff disjoint_iff not_less)
qed

lemma segments_read_only_iff:
  "segments_read_only shlex segments = Ok () \<longleftrightarrow>
     (\<forall>segment\<in>set segments. \<exists>i. invocation_try_from shlex segment = Some i \<and> harmless i)"
proof (induction segments)
  case (Cons segment segments)
  then show ?case
    by (cases "invocation_try_from shlex segment"; cases "invocation_read_only (the (invocation_try_from shlex segment))")
      (auto simp: invocation_read_only_iff [symmetric])
qed simp

section \<open>Properties\<close>


text \<open>In a command without quotes, escapes and comments that is accepted in plan mode, every output
  redirection duplicates a descriptor or goes to \<^verbatim>\<open>/dev/null\<close>.\<close>

lemma accepted_redirections_permitted:
  assumes "read_only shlex command = Ok ()" and "list_all plain_character command"
    and "command = a @ CHR ''>'' # b" and "a = [] \<or> last a \<noteq> CHR ''>''"
  shows "permitted_redirection b"
proof -
  from assms(1) have "ss_violation (shell_scan_from command) = None"
    by (simp add: read_only_def Let_def split: option.splits)
  then obtain s where "ss_violation (scan_loop command None [] s) = None"
    unfolding shell_scan_from_def Let_def by blast
  then show ?thesis using scan_loop_redirections assms(2,3,4) by blast
qed

text \<open>C40: The scan does not tell an escaped blank from a blank: after \<^verbatim>\<open>echo \\ \<close> it takes a \<^verbatim>\<open>#\<close> for the
  start of a comment, although a shell reads it as part of the word. Whatever follows on that line is
  accepted unseen, also a control operator and any program.\<close>

theorem escaped_blank_hides_commands:
  assumes "shlex (''echo '' @ [backslash, CHR '' '']) = Some [''echo'', '' '']" and "newline \<notin> set hidden"
    and "\<forall>marker\<in>{''$('', ''`'', ''<('', ''>(''}. \<not> contains_str marker hidden"
  shows "read_only shlex (''echo '' @ [backslash, CHR '' ''] @ ''#'' @ hidden) = Ok ()"
proof -
  let ?s = "\<lparr>ss_segments = [], ss_violation = None\<rparr>"
  let ?command = "''echo '' @ [backslash, CHR '' ''] @ ''#'' @ hidden"
  have "\<not> contains_str m ?command" if "m \<in> {''$('', ''`'', ''<('', ''>(''}" for m
    using that assms(3) by (auto simp: starts_with_def)
  moreover have "dropWhile (\<lambda>c. c \<noteq> newline) hidden = []" using assms(2) by (auto simp: dropWhile_eq_Nil_conv)
  ultimately have "shell_scan_from ?command = split_segment (''echo '' @ [backslash, CHR '' '']) ?s"
    by (simp add: shell_scan_from_def Let_def scan_loop.simps blank_behind_def ws1_def del: dropWhile_eq_Nil_conv)
  moreover have "\<not> is_blank (''echo '' @ [backslash, CHR '' ''])" by code_simp
  ultimately show ?thesis
    using assms(1)
    by (simp add: read_only_def split_segment_def invocation_try_from_def invocation_read_only_def
        invocation_program_def PLAIN_READERS_def Let_def)
qed

text \<open>Two more ways past the check. A descriptor to duplicate is only judged up to its last digit, so a
  file name that starts with a digit passes for one; and a second operand of \<^verbatim>\<open>uniq\<close>, the file it
  writes, is not counted when it follows \<^verbatim>\<open>--\<close> and starts with a dash.\<close>

lemma digit_file_redirection_accepted:
  assumes "shlex ''echo hi foo'' = Some [''echo'', ''hi'', ''foo'']"
  shows "read_only shlex ''echo hi >&1foo'' = Ok ()"
proof -
  have "shell_scan_from ''echo hi >&1foo'' = \<lparr>ss_segments = [''echo hi foo''], ss_violation = None\<rparr>" by code_simp
  then show ?thesis
    using assms by (simp add: read_only_def invocation_try_from_def invocation_read_only_def
        invocation_program_def PLAIN_READERS_def Let_def)
qed

lemma uniq_dash_output_accepted:
  assumes "shlex ''uniq -- in -out'' = Some [''uniq'', ''--'', ''in'', ''-out'']"
  shows "read_only shlex ''uniq -- in -out'' = Ok ()"
proof -
  have "shell_scan_from ''uniq -- in -out'' = \<lparr>ss_segments = [''uniq -- in -out''], ss_violation = None\<rparr>" by code_simp
  then show ?thesis
    using assms by (simp add: read_only_def invocation_try_from_def invocation_read_only_def
        invocation_program_def starts_with_def Let_def)
qed

section \<open>Witnesses\<close>

text \<open>A word splitter for the segments of the examples: it splits at single blanks.\<close>

definition blank_words :: "string \<Rightarrow> string list option" where
  "blank_words s = Some (filter (\<lambda>w. w \<noteq> []) (split_on (CHR '' '') s))"


theorem escaped_blank_hides_commands_witness:
  "read_only (\<lambda>_. Some [''echo'', '' '']) (''echo '' @ [backslash, CHR '' ''] @ ''#'' @ ''x;rm -rf src'') = Ok ()"
  by (rule escaped_blank_hides_commands) (simp_all add: starts_with_def)

end
