(* ===== verification/Acp_Coalescing.thy ===== *)
theory Acp_Coalescing
  imports Json "HOL-Library.Monad_Syntax"
begin

text \<open>
  Merging of streaming chunks before they leave the ACP adapter, \<^verbatim>\<open>crates/acp/src/coalescing.rs\<close>.
  The JSON-RPC messages come from the \<^verbatim>\<open>agent_client_protocol\<close> crate; the adapter only looks at the
  method and the parameters of requests and notifications, everything else in a message is opaque
  and of a type of its own. A branch the code marks \<^verbatim>\<open>unreachable!\<close> is the value \<open>None\<close>.
\<close>

section \<open>Messages\<close>

datatype raw_params = ParamsObject json_map | ParamsArray "json list"

datatype 'o raw_message =
    RawNotification string "raw_params option" 'o
  | RawRequest string "raw_params option" 'o
  | RawOther 'o

fun params_value :: "raw_params \<Rightarrow> json" where
  "params_value (ParamsObject m) = JObject m"
| "params_value (ParamsArray vs) = JArray vs"

definition ACP_NAMESPACE :: string where
  "ACP_NAMESPACE = ''clawcode''"

definition LAST_SEQUENCE_FIELD :: string where
  "LAST_SEQUENCE_FIELD = ''lastSequence''"

text \<open>Equality of JSON values does not depend on the order of the keys of an object.\<close>

function json_eq :: "json \<Rightarrow> json \<Rightarrow> bool" where
  "json_eq (JObject m) w =
     (case w of
        JObject m' \<Rightarrow> length m = length m' \<and>
          list_all (\<lambda>kv. case map_of m' (fst kv) of None \<Rightarrow> False | Some v' \<Rightarrow> json_eq (snd kv) v') m
      | _ \<Rightarrow> False)"
| "json_eq (JArray vs) w =
     (case w of JArray ws \<Rightarrow> length vs = length ws \<and> list_all (\<lambda>vw. json_eq (fst vw) (snd vw)) (zip vs ws) | _ \<Rightarrow> False)"
| "json_eq JNull w \<longleftrightarrow> w = JNull"
| "json_eq (JBool b) w \<longleftrightarrow> w = JBool b"
| "json_eq (JNumber n) w \<longleftrightarrow> w = JNumber n"
| "json_eq (JString s) w \<longleftrightarrow> w = JString s"
  by pat_completeness auto

lemma size_member_object: "(k, v) \<in> set m \<Longrightarrow> size v < size (JObject m)"
  by (induction m) auto

lemma size_member_array: "v \<in> set vs \<Longrightarrow> size v < size (JArray vs)"
  by (induction vs) auto

termination json_eq
  by (relation "measure (\<lambda>(v, w). size v)")
    (auto dest: size_member_object size_member_array simp del: json.size dest!: set_zip_leftD)

section \<open>coalescing.rs: eligible chunks\<close>

datatype chunk_kind = ChunkMessage | ChunkThought

record chunk_key =
  ck_kind :: chunk_kind
  ck_session_id :: string
  ck_message_id :: string
  ck_annotations :: "json option"
  ck_run_id :: string
  ck_turn_id :: string

record stream_chunk =
  sc_key :: chunk_key
  sc_first :: nat
  sc_last :: nat
  sc_text :: string

definition key_eq :: "chunk_key \<Rightarrow> chunk_key \<Rightarrow> bool" where
  "key_eq a b \<longleftrightarrow>
     ck_kind a = ck_kind b \<and> ck_session_id a = ck_session_id b \<and> ck_message_id a = ck_message_id b \<and>
     rel_option json_eq (ck_annotations a) (ck_annotations b) \<and>
     ck_run_id a = ck_run_id b \<and> ck_turn_id a = ck_turn_id b"

definition chunk_kind_of :: "string \<Rightarrow> chunk_kind option" where
  "chunk_kind_of s =
     (if s = ''agent_message_chunk'' then Some ChunkMessage
      else if s = ''agent_thought_chunk'' then Some ChunkThought else None)"

fun notification_params :: "'o raw_message \<Rightarrow> json_map option" where
  "notification_params (RawNotification m (Some (ParamsObject p)) x) = (if m = ''session/update'' then Some p else None)"
| "notification_params _ = None"

definition guard :: "bool \<Rightarrow> unit option" where
  "guard b = (if b then Some () else None)"

definition chunk_from_params :: "json_map \<Rightarrow> stream_chunk option" where
  "chunk_from_params params = do {
     session_id \<leftarrow> field ''sessionId'' as_str params;
     update \<leftarrow> field ''update'' as_object params;
     kind \<leftarrow> field ''sessionUpdate'' (\<lambda>v. Option.bind (as_str v) chunk_kind_of) update;
     message_id \<leftarrow> field ''messageId'' as_str update;
     content \<leftarrow> field ''content'' as_object update;
     type_name \<leftarrow> field ''type'' as_str content;
     guard (type_name = ''text'');
     chunk_text \<leftarrow> field ''text'' as_str content;
     meta \<leftarrow> field ''_meta'' as_object params;
     product \<leftarrow> field ACP_NAMESPACE as_object meta;
     turn_id \<leftarrow> field ''turnId'' as_str product;
     first \<leftarrow> field ''sequence'' as_u64 product;
     group \<leftarrow> field ''sessionRecovery'' as_object product;
     index \<leftarrow> field ''projectionIndex'' as_u64 group;
     guard (index = 0);
     count \<leftarrow> field ''projectionCount'' as_u64 group;
     guard (count = 1);
     guard (map_of group ''operationPhase'' = None);
     run_id \<leftarrow> field ''runId'' as_str group;
     last \<leftarrow> (case map_of group LAST_SEQUENCE_FIELD of Some v \<Rightarrow> as_u64 v | None \<Rightarrow> Some first);
     guard (first \<noteq> 0 \<and> first \<le> last);
     Some \<lparr>sc_key = \<lparr>ck_kind = kind, ck_session_id = session_id, ck_message_id = message_id,
             ck_annotations = map_of content ''annotations'', ck_run_id = run_id, ck_turn_id = turn_id\<rparr>,
           sc_first = first, sc_last = last, sc_text = chunk_text\<rparr> }"

definition chunk_from_message :: "'o raw_message \<Rightarrow> stream_chunk option" where
  "chunk_from_message message = Option.bind (notification_params message) chunk_from_params"

section \<open>coalescing.rs: merging\<close>

text \<open>\<^verbatim>\<open>get_mut(k).and_then(as_object_mut)\<close> and what is done to the object found there.\<close>

definition object_mut :: "string \<Rightarrow> (json_map \<Rightarrow> json_map option) \<Rightarrow> json_map \<Rightarrow> json_map option" where
  "object_mut k f m =
     Option.bind (field k as_object m) (\<lambda>inner.
     map_option (\<lambda>inner'. AList.update k (JObject inner') m) (f inner))"

definition push_text :: "string \<Rightarrow> json_map \<Rightarrow> json_map option" where
  "push_text t content = map_option (\<lambda>s. AList.update ''text'' (JString (s @ t)) content) (field ''text'' as_str content)"

definition append_params :: "string \<Rightarrow> nat \<Rightarrow> json_map \<Rightarrow> json_map option" where
  "append_params t last_sequence params =
     Option.bind
       (object_mut ''_meta'' (object_mut ACP_NAMESPACE (object_mut ''sessionRecovery''
          (\<lambda>recovery. Some (AList.update LAST_SEQUENCE_FIELD (json_u64 last_sequence) recovery)))) params)
       (object_mut ''update'' (object_mut ''content'' (push_text t)))"

fun append_chunk :: "string \<Rightarrow> nat \<Rightarrow> 'o raw_message \<Rightarrow> 'o raw_message option" where
  "append_chunk t last_sequence (RawNotification m (Some (ParamsObject params)) x) =
     map_option (\<lambda>params'. RawNotification m (Some (ParamsObject params')) x) (append_params t last_sequence params)"
| "append_chunk t last_sequence _ = None"

text \<open>The target afterwards and whether the source went into it.\<close>

definition merge_adjacent :: "'o raw_message \<Rightarrow> 'o raw_message \<Rightarrow> ('o raw_message \<times> bool) option" where
  "merge_adjacent target source =
     (case (chunk_from_message target, chunk_from_message source) of
        (Some t, Some s) \<Rightarrow>
          if \<not> key_eq (sc_key t) (sc_key s) \<or> sc_first s \<le> sc_last t then Some (target, False)
          else map_option (\<lambda>target'. (target', True)) (append_chunk (sc_text s) (sc_last s) target)
      | _ \<Rightarrow> Some (target, False))"

fun coalesce_loop :: "'o raw_message list \<Rightarrow> 'o raw_message list \<Rightarrow> 'o raw_message list option" where
  "coalesce_loop output [] = Some output"
| "coalesce_loop output (message # messages) =
     (if output = [] then coalesce_loop [message] messages
      else case merge_adjacent (last output) message of
          None \<Rightarrow> None
        | Some (target, merged) \<Rightarrow>
            coalesce_loop (if merged then butlast output @ [target] else output @ [message]) messages)"

definition coalesce_updates :: "'o raw_message list \<Rightarrow> 'o raw_message list option" where
  "coalesce_updates messages = coalesce_loop [] messages"

section \<open>Merging two chunks\<close>

lemma guard_Some_iff [simp]: "guard b = Some u \<longleftrightarrow> b"
  by (simp add: guard_def)

lemma field_update: "field k d (AList.update k' v m) = (if k = k' then d v else field k d m)"
  by (simp add: field_def update_conv')

lemma object_mut_Some_iff:
  "object_mut k f m = Some m' \<longleftrightarrow>
     (\<exists>inner inner'. map_of m k = Some (JObject inner) \<and> f inner = Some inner' \<and> m' = AList.update k (JObject inner') m)"
  by (auto simp: object_mut_def field_def bind_eq_Some_conv json_simps)

lemmas chunk_simps = field_def bind_eq_Some_conv json_simps update_conv' ACP_NAMESPACE_def LAST_SEQUENCE_FIELD_def

text \<open>Appending to an eligible chunk cannot fail, and the result is the chunk with the longer text and the
  later end.\<close>

lemma append_params_chunk:
  assumes "chunk_from_params params = Some c" "n \<le> u64_max" "sc_first c \<le> n"
  shows "\<exists>params'. append_params t n params = Some params' \<and>
    chunk_from_params params' = Some (c\<lparr>sc_last := n, sc_text := sc_text c @ t\<rparr>)"
proof -
  obtain update content meta product group s where
    *: "map_of params ''update'' = Some (JObject update)" "map_of update ''content'' = Some (JObject content)"
      "map_of content ''text'' = Some (JString s)" "map_of params ''_meta'' = Some (JObject meta)"
      "map_of meta ''clawcode'' = Some (JObject product)" "map_of product ''sessionRecovery'' = Some (JObject group)"
    using assms(1) by (auto simp: chunk_from_params_def chunk_simps)
  let ?group = "AList.update ''lastSequence'' (json_u64 n) group"
  let ?product = "AList.update ''sessionRecovery'' (JObject ?group) product"
  let ?meta = "AList.update ''clawcode'' (JObject ?product) meta"
  let ?content = "AList.update ''text'' (JString (s @ t)) content"
  let ?update = "AList.update ''content'' (JObject ?content) update"
  let ?params = "AList.update ''update'' (JObject ?update) (AList.update ''_meta'' (JObject ?meta) params)"
  have "append_params t n params = Some ?params"
    using * by (simp add: append_params_def object_mut_def push_text_def chunk_simps)
  moreover have "chunk_from_params ?params = Some (c\<lparr>sc_last := n, sc_text := sc_text c @ t\<rparr>)"
    using assms * by (auto simp: chunk_from_params_def chunk_simps json_u64_def split: option.splits)
  ultimately show ?thesis by blast
qed

text \<open>Appending twice is appending both texts at once.\<close>

lemma update_commute:
  "k \<noteq> k' \<Longrightarrow> k \<in> fst ` set m \<Longrightarrow> k' \<in> fst ` set m \<Longrightarrow>
    AList.update k v (AList.update k' w m) = AList.update k' w (AList.update k v m)"
proof (induction m)
  case (Cons x m)
  have present: "AList.update k (a :: 'b) (AList.update j b m) = AList.update j b (AList.update k a m)"
    if "k \<in> fst ` set m" "j \<in> fst ` set m" "k \<noteq> j" for k j :: 'a and a b
    using that by (induction m) auto
  from Cons show ?case by (cases x) (auto intro: present)
qed simp

lemma map_of_Some_in_keys: "map_of m k = Some v \<Longrightarrow> k \<in> fst ` set m"
  by (force dest: map_of_SomeD)

lemma append_params_twice:
  assumes "append_params t n params = Some params'"
  shows "append_params u k params' = append_params (t @ u) k params"
proof -
  obtain update content meta product group s where
    *: "map_of params ''update'' = Some (JObject update)" "map_of update ''content'' = Some (JObject content)"
      "map_of content ''text'' = Some (JString s)" "map_of params ''_meta'' = Some (JObject meta)"
      "map_of meta ''clawcode'' = Some (JObject product)" "map_of product ''sessionRecovery'' = Some (JObject group)"
    and params': "params' = AList.update ''update'' (JObject (AList.update ''content''
          (JObject (AList.update ''text'' (JString (s @ t)) content)) update))
        (AList.update ''_meta'' (JObject (AList.update ''clawcode'' (JObject (AList.update ''sessionRecovery''
          (JObject (AList.update ''lastSequence'' (json_u64 n) group)) product)) meta)) params)"
    using assms by (auto simp: append_params_def object_mut_Some_iff push_text_def chunk_simps)
  have "''update'' \<in> fst ` set params" "''_meta'' \<in> fst ` set params"
    using *(1,4) by (auto dest: map_of_Some_in_keys)
  then show ?thesis
    using * unfolding params'
    by (simp add: append_params_def object_mut_def push_text_def chunk_simps update_commute [of "''_meta''" "''update''"] dom_update)
qed

lemma append_chunk_twice: "append_chunk t n m = Some m' \<Longrightarrow> append_chunk u k m' = append_chunk (t @ u) k m"
  by (cases "(t, n, m)" rule: append_chunk.cases) (auto simp: append_params_twice)

lemma chunk_from_message_Some:
  "chunk_from_message m = Some c \<Longrightarrow>
    \<exists>params x. m = RawNotification ''session/update'' (Some (ParamsObject params)) x \<and> chunk_from_params params = Some c"
  by (cases m rule: notification_params.cases) (auto simp: chunk_from_message_def split: if_splits)

lemma chunk_bounds: "chunk_from_message m = Some c \<Longrightarrow> sc_first c \<le> sc_last c \<and> sc_last c \<le> u64_max"
  by (auto dest!: chunk_from_message_Some simp: chunk_from_params_def chunk_simps split: option.splits)

lemma append_chunk_chunk:
  assumes "chunk_from_message m = Some c" "n \<le> u64_max" "sc_first c \<le> n"
  shows "\<exists>m'. append_chunk t n m = Some m' \<and> chunk_from_message m' = Some (c\<lparr>sc_last := n, sc_text := sc_text c @ t\<rparr>)"
proof -
  from chunk_from_message_Some [OF assms(1)] obtain params x
    where m: "m = RawNotification ''session/update'' (Some (ParamsObject params)) x" "chunk_from_params params = Some c" by blast
  from append_params_chunk [OF m(2) assms(2,3), of t] obtain params'
    where "append_params t n params = Some params'" "chunk_from_params params' = Some (c\<lparr>sc_last := n, sc_text := sc_text c @ t\<rparr>)" by blast
  then show ?thesis by (simp add: m(1) chunk_from_message_def)
qed

section \<open>Merging a run\<close>

abbreviation unmergeable :: "'o raw_message \<Rightarrow> 'o raw_message \<Rightarrow> bool" where
  "unmergeable a b \<equiv> merge_adjacent a b = Some (a, False)"

text \<open>A message that stands for a run of chunks: the first of them with the later texts appended and the
  end of the last one. All of them belong to one message of one turn, and their sequences ascend.\<close>

definition merged_from :: "'o raw_message list \<Rightarrow> 'o raw_message \<Rightarrow> bool" where
  "merged_from run m \<longleftrightarrow> run = [m] \<or>
     (\<exists>c cs. map chunk_from_message run = map Some (c # cs) \<and> cs \<noteq> [] \<and>
        append_chunk (concat (map sc_text cs)) (sc_last (last cs)) (hd run) = Some m \<and>
        chunk_from_message m = Some (c\<lparr>sc_last := sc_last (last cs), sc_text := concat (map sc_text (c # cs))\<rparr>) \<and>
        list_all (\<lambda>c'. key_eq (sc_key c) (sc_key c')) cs \<and> sorted_wrt (\<lambda>a b. sc_last a < sc_first b) (c # cs))"

lemma merged_from_single [simp]: "merged_from [m] m"
  by (simp add: merged_from_def)

lemma merge_adjacent_total: "merge_adjacent a b \<noteq> None"
proof (cases "chunk_from_message a")
  case (Some t)
  show ?thesis
  proof (cases "chunk_from_message b")
    case s: (Some s)
    have "\<exists>m'. append_chunk (sc_text s) (sc_last s) a = Some m'" if "\<not> sc_first s \<le> sc_last t"
      using append_chunk_chunk [OF Some, of "sc_last s"] chunk_bounds [OF s] chunk_bounds [OF Some] that by fastforce
    then show ?thesis using Some s by (auto simp: merge_adjacent_def)
  qed (auto simp: merge_adjacent_def split: option.split)
qed (auto simp: merge_adjacent_def split: option.split)

lemma merge_adjacent_True:
  assumes "merge_adjacent a b = Some (a', True)"
  obtains t s where "chunk_from_message a = Some t" "chunk_from_message b = Some s" "key_eq (sc_key t) (sc_key s)"
    "sc_last t < sc_first s" "append_chunk (sc_text s) (sc_last s) a = Some a'"
    "chunk_from_message a' = Some (t\<lparr>sc_last := sc_last s, sc_text := sc_text t @ sc_text s\<rparr>)"
proof -
  from assms obtain t s where ts: "chunk_from_message a = Some t" "chunk_from_message b = Some s"
      "key_eq (sc_key t) (sc_key s)" "sc_last t < sc_first s" and a': "append_chunk (sc_text s) (sc_last s) a = Some a'"
    by (auto simp: merge_adjacent_def not_le split: option.splits if_splits)
  have "sc_last s \<le> u64_max" "sc_first t \<le> sc_last s" using chunk_bounds [OF ts(1)] chunk_bounds [OF ts(2)] ts(4) by auto
  from append_chunk_chunk [OF ts(1) this, of "sc_text s"] a'
  have "chunk_from_message a' = Some (t\<lparr>sc_last := sc_last s, sc_text := sc_text t @ sc_text s\<rparr>)" by simp
  with ts a' show ?thesis by (rule that)
qed

lemma merge_adjacent_False: "merge_adjacent a b = Some (a', False) \<Longrightarrow> a' = a"
  by (auto simp: merge_adjacent_def split: option.splits if_splits)

text \<open>Whether a source can be merged depends only on its key and its start.\<close>

lemma unmergeable_extended:
  assumes "unmergeable a b" "merge_adjacent b c = Some (b', True)"
  shows "unmergeable a b'"
  using assms(2)
proof (rule merge_adjacent_True)
  fix t s
  assume "chunk_from_message b = Some t"
    and "chunk_from_message b' = Some (t\<lparr>sc_last := sc_last s, sc_text := sc_text t @ sc_text s\<rparr>)"
  then show ?thesis using assms(1) by (auto simp: merge_adjacent_def split: option.splits if_splits)
qed

lemma merged_from_extend:
  assumes "merged_from run a" "merge_adjacent a b = Some (a', True)"
  shows "merged_from (run @ [b]) a'"
  using assms(2)
proof (rule merge_adjacent_True)
  fix t s
  assume ts: "chunk_from_message a = Some t" "chunk_from_message b = Some s" "key_eq (sc_key t) (sc_key s)"
    "sc_last t < sc_first s" "append_chunk (sc_text s) (sc_last s) a = Some a'"
    "chunk_from_message a' = Some (t\<lparr>sc_last := sc_last s, sc_text := sc_text t @ sc_text s\<rparr>)"
  from assms(1) consider (single) "run = [a]"
    | (several) c cs where "map chunk_from_message run = map Some (c # cs)" "cs \<noteq> []"
        "append_chunk (concat (map sc_text cs)) (sc_last (last cs)) (hd run) = Some a"
        "chunk_from_message a = Some (c\<lparr>sc_last := sc_last (last cs), sc_text := concat (map sc_text (c # cs))\<rparr>)"
        "list_all (\<lambda>c'. key_eq (sc_key c) (sc_key c')) cs" "sorted_wrt (\<lambda>a b. sc_last a < sc_first b) (c # cs)"
    unfolding merged_from_def by blast
  then show ?thesis
  proof cases
    case single
    show ?thesis
      unfolding merged_from_def single by (intro disjI2 exI [of _ t] exI [of _ "[s]"]) (simp add: ts)
  next
    case several
    have t: "t = c\<lparr>sc_last := sc_last (last cs), sc_text := concat (map sc_text (c # cs))\<rparr>" using several(4) ts(1) by simp
    have bounds: "sc_first d \<le> sc_last d" if "d \<in> set (c # cs)" for d
    proof -
      have "Some d \<in> set (map chunk_from_message run)" unfolding several(1) using that by auto
      then show ?thesis using chunk_bounds by force
    qed
    have lt: "sc_last d < sc_first s" if "d \<in> set (c # cs)" for d
    proof (cases "d = last cs")
      case False
      from several(2) obtain ds where ds: "cs = ds @ [last cs]" by (metis append_butlast_last_id)
      have "d \<in> set (c # ds)" using that False by (metis append_Cons insert_iff rotate1.simps(2) set_ConsD set_append set_rotate1 list.set(2) ds)
      moreover have "sorted_wrt (\<lambda>a b. sc_last a < sc_first b) ((c # ds) @ [last cs])" using several(6) ds by (metis append_Cons)
      ultimately have "sc_last d < sc_first (last cs)" by (auto simp: sorted_wrt_append)
      also have "\<dots> \<le> sc_last (last cs)" using bounds several(2) by simp
      finally show ?thesis using ts(4) t by simp
    qed (use ts(4) t in simp)
    have "hd (run @ [b]) = hd run" using several(1) by (cases run) auto
    moreover have "append_chunk (concat (map sc_text (cs @ [s]))) (sc_last s) (hd run) = Some a'"
      using append_chunk_twice [OF several(3)] ts(5) by simp
    moreover have "sorted_wrt (\<lambda>a b. sc_last a < sc_first b) ((c # cs) @ [s])"
      using several(6) lt by (subst sorted_wrt_append) auto
    ultimately show ?thesis
      unfolding merged_from_def using several(1,5) ts
      by (intro disjI2 exI [of _ c] exI [of _ "cs @ [s]"]) (simp add: t)
  qed
qed

lemma coalesce_loop_spec:
  assumes "list_all2 merged_from runs out" "successively unmergeable out"
  shows "\<exists>runs' out'. coalesce_loop out messages = Some out' \<and> concat runs' = concat runs @ messages \<and>
    list_all2 merged_from runs' out' \<and> successively unmergeable out'"
  using assms
proof (induction messages arbitrary: runs out)
  case (Cons message messages)
  show ?case
  proof (cases out rule: rev_cases)
    case Nil
    from Cons.prems(1) Nil have "runs = []" by simp
    then show ?thesis using Cons.IH [of "[[message]]" "[message]"] Nil by simp
  next
    case (snoc front target)
    obtain runs0 run where runs: "runs = runs0 @ [run]" "list_all2 merged_from runs0 front" "merged_from run target"
      using Cons.prems(1) unfolding snoc by (auto simp: list_all2_append2)
        (metis list_all2_Cons2 list_all2_Nil2)
    obtain target' merged where m: "merge_adjacent target message = Some (target', merged)"
      using merge_adjacent_total [of target message] by fastforce
    show ?thesis
    proof (cases merged)
      case True
      have "successively unmergeable (front @ [target'])"
        using Cons.prems(2) m True unmergeable_extended unfolding snoc
        by (auto simp: successively_append_iff)
      moreover have "list_all2 merged_from (runs0 @ [run @ [message]]) (front @ [target'])"
        using runs merged_from_extend [OF runs(3)] m True by (intro list_all2_appendI) auto
      ultimately show ?thesis
        using Cons.IH [of "runs0 @ [run @ [message]]" "front @ [target']"] m True snoc runs(1) by simp
    next
      case False
      then have "successively unmergeable (out @ [message])"
        using Cons.prems(2) m merge_adjacent_False unfolding snoc by (fastforce simp: successively_append_iff)
      moreover have "list_all2 merged_from (runs @ [[message]]) (out @ [message])"
        using Cons.prems(1) by (intro list_all2_appendI) simp_all
      ultimately show ?thesis
        using Cons.IH [of "runs @ [[message]]" "out @ [message]"] m False snoc by simp
    qed
  qed
qed (auto intro: exI [of _ runs])

section \<open>Properties\<close>

text \<open>Coalescing never fails and only joins neighbours: the messages it returns stand, in order, for
  consecutive runs that together are the input. A run of one is returned as it was; a longer run
  consists of text chunks of one message in one turn with ascending sequences and becomes its first
  message with the texts appended and the end of the last chunk. No two neighbours of the result
  could still be merged.\<close>

lemma coalescing_joins_runs:
  "\<exists>runs out. coalesce_updates messages = Some out \<and> concat runs = messages \<and>
    list_all2 merged_from runs out \<and> successively unmergeable out"
  using coalesce_loop_spec [of "[]" "[]" messages] by (simp add: coalesce_updates_def)

end
