(* ===== verification/Acp_Batching.thy ===== *)
theory Acp_Batching
  imports Acp_Coalescing
begin

text \<open>
  The outbound and inbound relays of the ACP adapter, \<^verbatim>\<open>crates/acp/src/batching.rs\<close>: queued updates of
  one session are drained up to a limit, coalesced and, when the client asked for it, packed into
  the metadata of the first of them. The source channel is the list of what it delivers: a frame,
  or a \<open>Gap\<close> at which a poll finds nothing queued; its end is the closed channel. The flag
  \<^verbatim>\<open>accepts_batches\<close> is shared with the inbound relay; an argument gives the value each load of it
  reads. A send fails only when the receiver is gone, which ends the relay; the model gives the
  frames sent while it is there.
\<close>

section \<open>batching.rs: metadata\<close>

definition BATCH_KEY :: string where
  "BATCH_KEY = ''sessionUpdateBatch''"

definition BATCH_VERSION :: nat where
  "BATCH_VERSION = 1"

datatype 'o transport_frame = Single "'o raw_message" | OtherFrame 'o

definition session_update_id :: "'o raw_message \<Rightarrow> string option" where
  "session_update_id message = Option.bind (notification_params message) (field ''sessionId'' as_str)"

text \<open>\<^verbatim>\<open>entry(k).or_insert(Null)\<close> with a null turned into an empty object, and the object found there.\<close>

definition object_entry :: "string \<Rightarrow> json_map \<Rightarrow> json_map option" where
  "object_entry k m =
     (case map_of m k of
        None \<Rightarrow> Some []
      | Some JNull \<Rightarrow> Some []
      | Some v \<Rightarrow> as_object v)"

text \<open>What \<^verbatim>\<open>product_meta\<close> returns, with the change its caller makes to it.\<close>

definition product_meta_params :: "(json_map \<Rightarrow> json_map) \<Rightarrow> json_map \<Rightarrow> json_map option" where
  "product_meta_params f params = do {
     meta \<leftarrow> object_entry ''_meta'' params;
     product \<leftarrow> object_entry ACP_NAMESPACE meta;
     Some (AList.update ''_meta'' (JObject (AList.update ACP_NAMESPACE (JObject (f product)) meta)) params) }"

fun product_meta :: "(json_map \<Rightarrow> json_map) \<Rightarrow> 'o raw_message \<Rightarrow> 'o raw_message option" where
  "product_meta f (RawNotification m (Some (ParamsObject params)) x) =
     map_option (\<lambda>params'. RawNotification m (Some (ParamsObject params')) x) (product_meta_params f params)"
| "product_meta f _ = None"

section \<open>batching.rs: inbound\<close>

definition declares_batches :: "json_map \<Rightarrow> bool" where
  "declares_batches params \<longleftrightarrow>
     do { meta \<leftarrow> map_of params ''_meta''; product \<leftarrow> json_get ACP_NAMESPACE meta;
          capability \<leftarrow> json_get BATCH_KEY product; version \<leftarrow> json_get ''version'' capability;
          as_u64 version } = Some BATCH_VERSION"

fun observe :: "'o transport_frame \<Rightarrow> bool \<Rightarrow> bool" where
  "observe (Single (RawRequest m params x)) accepts =
     (if m \<noteq> ''initialize'' then accepts
      else case params of Some (ParamsObject p) \<Rightarrow> declares_batches p | _ \<Rightarrow> False)"
| "observe _ accepts = accepts"

fun inbound_forward :: "'o transport_frame list \<Rightarrow> bool \<Rightarrow> 'o transport_frame list \<times> bool" where
  "inbound_forward [] accepts = ([], accepts)"
| "inbound_forward (frame # source) accepts =
     (let accepts = observe frame accepts; (sent, final) = inbound_forward source accepts in (frame # sent, final))"

section \<open>batching.rs: outbound\<close>

fun nested_params :: "'o raw_message \<Rightarrow> json option" where
  "nested_params (RawNotification m params x) = Some (case params of None \<Rightarrow> JNull | Some p \<Rightarrow> params_value p)"
| "nested_params _ = None"

definition batch_frames :: "bool \<Rightarrow> 'o raw_message list \<Rightarrow> 'o transport_frame list option" where
  "batch_frames accepts messages =
     Option.bind (coalesce_updates messages) (\<lambda>messages.
     if length messages < 2 \<or> \<not> accepts then Some (map Single messages)
     else case messages of
         [] \<Rightarrow> None
       | outer # rest \<Rightarrow>
           if product_meta (\<lambda>p. p) outer = None then Some (map Single (outer # rest))
           else Option.bind (those (map nested_params rest)) (\<lambda>nested.
                map_option (\<lambda>outer'. [Single outer'])
                  (product_meta (AList.update BATCH_KEY (JArray nested)) outer)))"

datatype 'o arrival = Gap | Frame "'o transport_frame"

fun drain :: "string \<Rightarrow> nat \<Rightarrow> 'o raw_message list \<Rightarrow> 'o arrival list
    \<Rightarrow> 'o raw_message list \<times> 'o transport_frame option \<times> bool \<times> 'o arrival list" where
  "drain session_id max_batch_size messages [] =
     (messages, None, length messages < max_batch_size, [])"
| "drain session_id max_batch_size messages (arrival # source) =
     (if length messages < max_batch_size then
        (case arrival of
           Gap \<Rightarrow> (messages, None, False, source)
         | Frame (Single message) \<Rightarrow>
             if session_update_id message = Some session_id
             then drain session_id max_batch_size (messages @ [message]) source
             else (messages, Some (Single message), False, source)
         | Frame frame \<Rightarrow> (messages, Some frame, False, source))
      else (messages, None, False, arrival # source))"

lemma drain_shorter:
  "drain sid mx messages source = (messages', pending, closed, rest) \<Longrightarrow>
    length rest + (if pending = None then 0 else 1) \<le> length source"
  by (induction sid mx messages source rule: drain.induct)
    (auto split: if_splits arrival.splits transport_frame.splits)

function outbound_forward ::
    "(nat \<Rightarrow> bool) \<Rightarrow> nat \<Rightarrow> nat \<Rightarrow> 'o transport_frame option \<Rightarrow> 'o arrival list \<Rightarrow> 'o transport_frame list option" where
  "outbound_forward accepts max_batch_size n (Some frame) source =
     (case frame of
        OtherFrame x \<Rightarrow> map_option (\<lambda>sent. frame # sent) (outbound_forward accepts max_batch_size n None source)
      | Single message \<Rightarrow>
         (case session_update_id message of
            None \<Rightarrow> map_option (\<lambda>sent. frame # sent) (outbound_forward accepts max_batch_size n None source)
          | Some session_id \<Rightarrow>
             (case drain session_id max_batch_size [message] source of
                (messages, pending, source_closed, rest) \<Rightarrow>
                  Option.bind (batch_frames (accepts n) messages) (\<lambda>sent.
                  if source_closed then Some sent
                  else map_option (\<lambda>later. sent @ later)
                         (outbound_forward accepts max_batch_size (Suc n) pending rest)))))"
| "outbound_forward accepts max_batch_size n None [] = Some []"
| "outbound_forward accepts max_batch_size n None (Gap # source) = outbound_forward accepts max_batch_size n None source"
| "outbound_forward accepts max_batch_size n None (Frame frame # source) =
     outbound_forward accepts max_batch_size n (Some frame) source"
  by pat_completeness auto
termination
  by (relation "measure (\<lambda>(accepts, mx, n, pending, source). 2 * length source + (if pending = None then 0 else 1))")
    (auto dest!: drain_shorter [OF sym] split: if_splits)

declare outbound_forward.simps(1) [simp del]

section \<open>What a client receives\<close>

text \<open>The product metadata of an update, the updates carried in it, and the parts of an update a client
  acts on: its session, the update itself and the metadata without the carried updates.\<close>

definition product_of :: "json_map \<Rightarrow> json_map" where
  "product_of params =
     (case Option.bind (field ''_meta'' as_object params) (field ACP_NAMESPACE as_object) of None \<Rightarrow> [] | Some p \<Rightarrow> p)"

definition carried :: "json_map \<Rightarrow> json list" where
  "carried params = (case map_of (product_of params) BATCH_KEY of Some (JArray items) \<Rightarrow> items | _ \<Rightarrow> [])"

type_synonym update_view = "string option \<times> json option \<times> json_map"

definition update_view :: "json_map \<Rightarrow> update_view" where
  "update_view params =
     (field ''sessionId'' as_str params, map_of params ''update'', AList.delete BATCH_KEY (product_of params))"

definition item_view :: "json \<Rightarrow> update_view" where
  "item_view v = update_view (case v of JObject m \<Rightarrow> m | _ \<Rightarrow> [])"

datatype 'o delivery = Passed "'o transport_frame" | Updated update_view

abbreviation message_params :: "'o raw_message \<Rightarrow> json_map" where
  "message_params m \<equiv> the (notification_params m)"

fun frame_session :: "'o transport_frame \<Rightarrow> string option" where
  "frame_session (Single m) = session_update_id m"
| "frame_session (OtherFrame x) = None"

fun deliveries :: "'o transport_frame \<Rightarrow> 'o delivery list" where
  "deliveries (Single m) =
     (if session_update_id m = None then [Passed (Single m)]
      else Updated (update_view (message_params m)) # map (\<lambda>v. Updated (item_view v)) (carried (message_params m)))"
| "deliveries (OtherFrame x) = [Passed (OtherFrame x)]"

fun delivery_session :: "'o delivery \<Rightarrow> string option" where
  "delivery_session (Passed f) = None"
| "delivery_session (Updated v) = fst v"

text \<open>The source cut into frames that pass and runs of updates of one session.\<close>

type_synonym 'o source_run = "'o transport_frame + 'o raw_message list"

fun run_frames :: "'o source_run \<Rightarrow> 'o transport_frame list" where
  "run_frames (Inl f) = [f]"
| "run_frames (Inr ms) = map Single ms"

fun run_ok :: "nat \<Rightarrow> 'o source_run \<Rightarrow> bool" where
  "run_ok mx (Inl f) \<longleftrightarrow> frame_session f = None"
| "run_ok mx (Inr ms) \<longleftrightarrow> ms \<noteq> [] \<and> length ms \<le> mx \<and>
     (\<exists>sid. list_all (\<lambda>m. session_update_id m = Some sid) ms)"

fun run_deliveries :: "'o source_run \<Rightarrow> 'o delivery list" where
  "run_deliveries (Inl f) = [Passed f]"
| "run_deliveries (Inr ms) = map (\<lambda>m. Updated (update_view (message_params m))) (the (coalesce_updates ms))"

fun arrived :: "'o arrival list \<Rightarrow> 'o transport_frame list" where
  "arrived [] = []"
| "arrived (Gap # source) = arrived source"
| "arrived (Frame f # source) = f # arrived source"

text \<open>An update as the kernel sends it does not carry others.\<close>

definition plain_update :: "'o raw_message \<Rightarrow> bool" where
  "plain_update m \<longleftrightarrow> (\<forall>p. notification_params m = Some p \<longrightarrow> map_of (product_of p) BATCH_KEY = None)"

fun plain_frame :: "'o transport_frame \<Rightarrow> bool" where
  "plain_frame (Single m) = plain_update m"
| "plain_frame (OtherFrame x) = True"

section \<open>Packing\<close>

lemma session_update_id_Some:
  "session_update_id m = Some sid \<Longrightarrow>
    \<exists>p x. m = RawNotification ''session/update'' (Some (ParamsObject p)) x \<and> map_of p ''sessionId'' = Some (JString sid)"
  by (cases m rule: notification_params.cases) (auto simp: session_update_id_def chunk_simps split: if_splits)

lemma append_params_keeps:
  assumes "append_params t n p = Some p'"
  shows "map_of p' ''sessionId'' = map_of p ''sessionId''" "map_of (product_of p') BATCH_KEY = map_of (product_of p) BATCH_KEY"
  using assms by (auto simp: append_params_def object_mut_Some_iff push_text_def product_of_def chunk_simps BATCH_KEY_def)

lemma append_chunk_keeps:
  assumes "append_chunk t n m = Some m'"
  shows "session_update_id m' = session_update_id m" "plain_update m \<Longrightarrow> plain_update m'"
  using assms append_params_keeps
  by (cases "(t, n, m)" rule: append_chunk.cases;
      fastforce simp: session_update_id_def plain_update_def field_def split: if_splits)+

lemma merged_from_keeps:
  assumes "merged_from run m" "list_all (\<lambda>m. session_update_id m = Some sid \<and> plain_update m) run"
  shows "session_update_id m = Some sid \<and> plain_update m"
proof -
  have "hd run \<in> set run" using assms(1) by (cases run) (auto simp: merged_from_def)
  then have "session_update_id (hd run) = Some sid \<and> plain_update (hd run)" using assms(2) by (auto simp: list_all_iff)
  with assms show ?thesis unfolding merged_from_def by (auto simp: append_chunk_keeps)
qed

lemma length_le_concat: "(\<And>x. x \<in> set xss \<Longrightarrow> x \<noteq> []) \<Longrightarrow> length xss \<le> length (concat xss)"
proof (induction xss)
  case (Cons x xss)
  then have "1 \<le> length x" "length xss \<le> length (concat xss)" by (simp_all add: Suc_le_eq)
  then have "1 + length xss \<le> length x + length (concat xss)" by (rule add_mono)
  then show ?case by simp
qed simp

lemma coalesced_updates:
  assumes "list_all (\<lambda>m. session_update_id m = Some sid \<and> plain_update m) ms" "ms \<noteq> []"
  obtains out where "coalesce_updates ms = Some out" "out \<noteq> []" "length out \<le> length ms"
    "list_all (\<lambda>m. session_update_id m = Some sid \<and> plain_update m) out"
proof -
  obtain runs out where *: "coalesce_updates ms = Some out" "concat runs = ms" "list_all2 merged_from runs out"
    using coalesce_loop_spec [of "[]" "[]" ms] by (auto simp: coalesce_updates_def)
  have "run \<noteq> []" if "run \<in> set runs" for run
    using *(3) that by (auto simp: list_all2_conv_all_nth in_set_conv_nth merged_from_def)
  then have "length runs \<le> length (concat runs)" by (rule length_le_concat)
  then have "length out \<le> length ms" using * list_all2_lengthD by fastforce
  moreover have "out \<noteq> []" using * assms(2) by auto
  moreover have "list_all (\<lambda>m. session_update_id m = Some sid \<and> plain_update m) out"
    unfolding list_all_length
  proof (intro allI impI)
    fix i
    assume i: "i < length out"
    with *(3) have "merged_from (runs ! i) (out ! i)" "runs ! i \<in> set runs" by (auto simp: list_all2_conv_all_nth)
    moreover have "list_all (\<lambda>m. session_update_id m = Some sid \<and> plain_update m) (runs ! i)"
      using assms(1) *(2) \<open>runs ! i \<in> set runs\<close> by (auto simp: list_all_iff)
    ultimately show "session_update_id (out ! i) = Some sid \<and> plain_update (out ! i)" using merged_from_keeps by blast
  qed
  ultimately show ?thesis using that *(1) by blast
qed

lemma object_entry_Some: "object_entry k m = Some o' \<Longrightarrow> o' = (case field k as_object m of None \<Rightarrow> [] | Some x \<Rightarrow> x)"
  by (auto simp: object_entry_def field_def split: option.splits json.splits)

lemma product_meta_params_keeps:
  assumes "product_meta_params f p = Some p'"
  shows "map_of p' ''sessionId'' = map_of p ''sessionId''" "map_of p' ''update'' = map_of p ''update''"
    "product_of p' = f (product_of p)"
  using assms
  by (auto simp: product_meta_params_def product_of_def chunk_simps dest!: object_entry_Some split: option.splits)

lemma product_meta_independent: "product_meta f m = None \<longleftrightarrow> product_meta g m = None"
  by (cases "(f, m)" rule: product_meta.cases)
    (auto simp: product_meta_params_def bind_eq_None_conv split: option.splits)

lemma carried_plain: "plain_update m \<Longrightarrow> session_update_id m = Some sid \<Longrightarrow> carried (message_params m) = []"
  by (auto dest!: session_update_id_Some simp: plain_update_def carried_def)

lemma deliveries_plain:
  "session_update_id m = Some sid \<Longrightarrow> plain_update m \<Longrightarrow> deliveries (Single m) = [Updated (update_view (message_params m))]"
  by (simp add: carried_plain)

lemma view_session: "session_update_id m = Some sid \<Longrightarrow> fst (update_view (message_params m)) = Some sid"
  by (auto dest!: session_update_id_Some simp: update_view_def field_def)

lemma nested_view:
  assumes "session_update_id m = Some sid"
  shows "\<exists>v. nested_params m = Some v \<and> item_view v = update_view (message_params m)"
  using session_update_id_Some [OF assms] by (auto simp: item_view_def)

lemma nested_views:
  assumes "list_all (\<lambda>m. session_update_id m = Some sid) ms"
  shows "\<exists>vs. those (map nested_params ms) = Some vs \<and> map item_view vs = map (\<lambda>m. update_view (message_params m)) ms"
  using assms
proof (induction ms)
  case (Cons m ms)
  with nested_view [of m sid] show ?case by auto
qed simp

lemma delete_update_same: "AList.delete k (AList.update k v m) = AList.delete k m"
  by (induction m) (auto simp: AList.delete_eq)

text \<open>A carrier delivers the updates packed into it.\<close>

lemma carrier_deliveries:
  assumes "session_update_id m = Some sid" "plain_update m"
    and "product_meta (AList.update BATCH_KEY (JArray vs)) m = Some m'"
  shows "session_update_id m' = Some sid"
    "deliveries (Single m') = Updated (update_view (message_params m)) # map (\<lambda>v. Updated (item_view v)) vs"
proof -
  from session_update_id_Some [OF assms(1)] obtain p x
    where m: "m = RawNotification ''session/update'' (Some (ParamsObject p)) x" "map_of p ''sessionId'' = Some (JString sid)" by blast
  from assms(3) obtain p' where p': "product_meta_params (AList.update BATCH_KEY (JArray vs)) p = Some p'"
    and m': "m' = RawNotification ''session/update'' (Some (ParamsObject p')) x" by (auto simp: m(1))
  note keeps = product_meta_params_keeps [OF p']
  show sid: "session_update_id m' = Some sid" using keeps(1) m(2) by (simp add: m' session_update_id_def field_def)
  have "AList.delete BATCH_KEY (AList.update BATCH_KEY (JArray vs) (product_of p)) = AList.delete BATCH_KEY (product_of p)"
    by (rule delete_update_same)
  then have "update_view p' = update_view p" using keeps by (simp add: update_view_def field_def)
  moreover have "carried p' = vs" using keeps(3) by (simp add: carried_def update_conv')
  ultimately show "deliveries (Single m') = Updated (update_view (message_params m)) # map (\<lambda>v. Updated (item_view v)) vs"
    using sid by (simp add: m m')
qed

lemma batch_frames_spec:
  assumes ms: "list_all (\<lambda>m. session_update_id m = Some sid \<and> plain_update m) ms" "ms \<noteq> []"
  obtains frames where "batch_frames accepts ms = Some frames"
    "concat (map deliveries frames) = run_deliveries (Inr ms)"
    "list_all (\<lambda>f. frame_session f = Some sid \<and> length (deliveries f) \<le> length ms \<and>
       list_all (\<lambda>d. delivery_session d = Some sid) (deliveries f)) frames"
proof -
  from coalesced_updates [OF ms] obtain out where out: "coalesce_updates ms = Some out" "out \<noteq> []" "length out \<le> length ms"
    "list_all (\<lambda>m. session_update_id m = Some sid \<and> plain_update m) out" .
  obtain outer rest where cons: "out = outer # rest" using out(2) by (cases out) auto
  with out(4) have outer: "session_update_id outer = Some sid" "plain_update outer"
    and rest: "list_all (\<lambda>m. session_update_id m = Some sid) rest" by (auto simp: list_all_iff)
  have single: "deliveries (Single m) = [Updated (update_view (message_params m))]" if "m \<in> set out" for m
    using out(4) that by (intro deliveries_plain) (auto simp: list_all_iff)
  have "1 \<le> length ms" using ms(2) by (simp add: Suc_le_eq)
  have singles: "concat (map deliveries (map Single out)) = run_deliveries (Inr ms)"
    "list_all (\<lambda>f. frame_session f = Some sid \<and> length (deliveries f) \<le> length ms \<and>
       list_all (\<lambda>d. delivery_session d = Some sid) (deliveries f)) (map Single out)"
  proof -
    have "concat (map deliveries (map Single out)) = map (\<lambda>m. Updated (update_view (message_params m))) out"
      using single by (induction out) (simp_all del: deliveries.simps)
    then show "concat (map deliveries (map Single out)) = run_deliveries (Inr ms)" by (simp add: out(1))
    show "list_all (\<lambda>f. frame_session f = Some sid \<and> length (deliveries f) \<le> length ms \<and>
       list_all (\<lambda>d. delivery_session d = Some sid) (deliveries f)) (map Single out)"
      using single out(4) \<open>1 \<le> length ms\<close>
      by (auto simp: list_all_iff view_session simp del: deliveries.simps)
  qed
  from nested_views [OF rest] obtain vs where vs: "those (map nested_params rest) = Some vs"
    "map item_view vs = map (\<lambda>m. update_view (message_params m)) rest" by blast
  show ?thesis
  proof (cases "length out < 2 \<or> \<not> accepts \<or> product_meta (\<lambda>p. p) outer = None")
    case True
    then have "batch_frames accepts ms = Some (map Single out)"
      by (auto simp: batch_frames_def out(1) cons)
    then show ?thesis using singles that by blast
  next
    case False
    then obtain outer' where outer': "product_meta (AList.update BATCH_KEY (JArray vs)) outer = Some outer'"
      using product_meta_independent [of "AList.update BATCH_KEY (JArray vs)" outer "\<lambda>p. p"] by auto
    have packed: "batch_frames accepts ms = Some [Single outer']"
      using False outer' vs(1) by (auto simp: batch_frames_def out(1) cons)
    note carrier = carrier_deliveries [OF outer outer']
    have views: "map (\<lambda>v. Updated (item_view v)) vs = map (\<lambda>m. Updated (update_view (message_params m))) rest"
      using arg_cong [OF vs(2), of "map Updated"] by (simp add: comp_def)
    have all: "deliveries (Single outer') = map (\<lambda>m. Updated (update_view (message_params m))) out"
      unfolding carrier(2) views by (simp add: cons)
    then have "concat (map deliveries [Single outer']) = run_deliveries (Inr ms)"
      by (simp add: out(1) del: deliveries.simps)
    moreover have "frame_session (Single outer') = Some sid \<and> length (deliveries (Single outer')) \<le> length ms \<and>
        list_all (\<lambda>d. delivery_session d = Some sid) (deliveries (Single outer'))"
      using carrier(1) out(3,4) by (auto simp: all list_all_iff view_session simp del: deliveries.simps)
    ultimately show ?thesis using packed that by simp
  qed
qed

lemma drain_spec:
  assumes "drain sid mx ms source = (ms', pending, closed, rest)"
  shows "\<exists>new. ms' = ms @ new \<and> list_all (\<lambda>m. session_update_id m = Some sid) new \<and>
    arrived source = map Single new @ (case pending of None \<Rightarrow> [] | Some f \<Rightarrow> [f]) @ arrived rest \<and>
    (length ms \<le> mx \<longrightarrow> length ms' \<le> mx) \<and> (closed \<longrightarrow> pending = None \<and> rest = [])"
  using assms
proof (induction sid mx ms source rule: drain.induct)
  case (2 sid mx ms arrival source)
  show ?case
  proof (cases "\<exists>m. length ms < mx \<and> arrival = Frame (Single m) \<and> session_update_id m = Some sid")
    case True
    then obtain m where m: "length ms < mx" "arrival = Frame (Single m)" "session_update_id m = Some sid" by blast
    with "2.IH" "2.prems" obtain new where "ms' = (ms @ [m]) @ new" "list_all (\<lambda>m. session_update_id m = Some sid) new"
      "arrived source = map Single new @ (case pending of None \<Rightarrow> [] | Some f \<Rightarrow> [f]) @ arrived rest"
      "length (ms @ [m]) \<le> mx \<longrightarrow> length ms' \<le> mx" "closed \<longrightarrow> pending = None \<and> rest = []" by fastforce
    with m show ?thesis by (intro exI [of _ "m # new"]) simp
  next
    case False
    with "2.prems" show ?thesis
      by (intro exI [of _ "[]"]) (auto split: if_splits arrival.splits transport_frame.splits)
  qed
qed simp

section \<open>The relay\<close>

abbreviation frame_within :: "nat \<Rightarrow> 'o transport_frame \<Rightarrow> bool" where
  "frame_within mx f \<equiv> length (deliveries f) \<le> mx \<and>
     list_all (\<lambda>d. delivery_session d = frame_session f) (deliveries f)"

definition relays :: "nat \<Rightarrow> 'o transport_frame list \<Rightarrow> 'o transport_frame list \<Rightarrow> bool" where
  "relays mx source sent \<longleftrightarrow>
     (\<exists>runs. concat (map run_frames runs) = source \<and> list_all (run_ok mx) runs \<and>
        concat (map deliveries sent) = concat (map run_deliveries runs)) \<and> list_all (frame_within mx) sent"

lemma relays_Nil [simp]: "relays mx [] []"
  by (auto simp: relays_def intro: exI [of _ "[]"])

lemma relays_pass:
  assumes "relays mx source sent" "frame_session f = None" "1 \<le> mx"
  shows "relays mx (f # source) (f # sent)"
proof -
  have "deliveries f = [Passed f]" using assms(2) by (cases f) auto
  moreover from assms(1) obtain runs where "concat (map run_frames runs) = source" "list_all (run_ok mx) runs"
    "concat (map deliveries sent) = concat (map run_deliveries runs)" by (auto simp: relays_def)
  ultimately show ?thesis
    using assms unfolding relays_def by (intro conjI exI [of _ "Inl f # runs"]) (auto simp del: deliveries.simps)
qed

lemma relays_run:
  assumes "relays mx source sent" "run_ok mx (Inr ms)" "concat (map deliveries frames) = run_deliveries (Inr ms)"
    and "list_all (frame_within mx) frames"
  shows "relays mx (map Single ms @ source) (frames @ sent)"
proof -
  from assms(1) obtain runs where "concat (map run_frames runs) = source" "list_all (run_ok mx) runs"
    "concat (map deliveries sent) = concat (map run_deliveries runs)" by (auto simp: relays_def)
  then show ?thesis
    using assms unfolding relays_def
    by (intro conjI exI [of _ "Inr ms # runs"]) (auto simp del: deliveries.simps run_ok.simps)
qed

lemma outbound_forward_relays:
  assumes "1 \<le> mx" "list_all plain_frame ((case pending of None \<Rightarrow> [] | Some f \<Rightarrow> [f]) @ arrived source)"
  shows "\<exists>sent. outbound_forward accepts mx n pending source = Some sent \<and>
    relays mx ((case pending of None \<Rightarrow> [] | Some f \<Rightarrow> [f]) @ arrived source) sent"
  using assms
proof (induction accepts mx n pending source rule: outbound_forward.induct)
  case (1 accepts mx n frame source)
  have plain: "plain_frame frame" "list_all plain_frame (arrived source)" using "1.prems"(2) by auto
  show ?case
  proof (cases "frame_session frame")
    case None
    have "\<exists>sent. outbound_forward accepts mx n None source = Some sent \<and> relays mx (arrived source) sent"
    proof (cases frame)
      case (Single m)
      then have "session_update_id m = None" using None by simp
      then show ?thesis using "1.IH"(1) [OF Single _ "1.prems"(1)] plain(2) by simp
    next
      case (OtherFrame x)
      then show ?thesis using "1.IH"(3) [OF OtherFrame "1.prems"(1)] "1.prems"(1) plain(2) by simp
    qed
    then obtain sent where "outbound_forward accepts mx n None source = Some sent" "relays mx (arrived source) sent" by blast
    then show ?thesis
      using None "1.prems"(1) relays_pass [OF _ None] by (cases frame) (auto simp: outbound_forward.simps(1))
  next
    case (Some sid)
    then obtain m where m: "frame = Single m" "session_update_id m = Some sid" by (cases frame) auto
    obtain ms pending rest closed where d: "drain sid mx [m] source = (ms, pending, closed, rest)"
      by (metis prod_cases4)
    from drain_spec [OF d] "1.prems"(1) obtain new where new: "ms = m # new" "list_all (\<lambda>m. session_update_id m = Some sid) new"
      "arrived source = map Single new @ (case pending of None \<Rightarrow> [] | Some f \<Rightarrow> [f]) @ arrived rest"
      "length ms \<le> mx" "closed \<longrightarrow> pending = None \<and> rest = []" by auto
    have "list_all plain_frame (map Single new)" using plain(2) new(3) by simp
    then have ms: "list_all (\<lambda>m. session_update_id m = Some sid \<and> plain_update m) ms" "ms \<noteq> []"
      using new(1,2) plain(1) m by (auto simp: list_all_iff)
    from batch_frames_spec [OF ms] obtain frames where fr: "batch_frames (accepts n) ms = Some frames"
      "concat (map deliveries frames) = run_deliveries (Inr ms)"
      "list_all (\<lambda>f. frame_session f = Some sid \<and> length (deliveries f) \<le> length ms \<and>
         list_all (\<lambda>d. delivery_session d = Some sid) (deliveries f)) frames" .
    have within: "list_all (frame_within mx) frames" using fr(3) new(4) by (auto simp: list_all_iff)
    have ok: "run_ok mx (Inr ms)" using ms new(4) by (auto simp: list_all_iff)
    have all: "frame # arrived source = map Single ms @ (case pending of None \<Rightarrow> [] | Some f \<Rightarrow> [f]) @ arrived rest"
      using new(1,3) m(1) by simp
    have eq: "outbound_forward accepts mx n (Some frame) source =
        (if closed then Some frames else map_option (\<lambda>later. frames @ later) (outbound_forward accepts mx (Suc n) pending rest))"
      by (simp add: outbound_forward.simps(1) m d fr(1))
    show ?thesis
    proof (cases closed)
      case True
      then show ?thesis using relays_run [OF relays_Nil ok fr(2) within] eq all new(5) by simp
    next
      case False
      have "list_all plain_frame ((case pending of None \<Rightarrow> [] | Some f \<Rightarrow> [f]) @ arrived rest)" using plain(2) new(3) by simp
      with "1.IH"(2) [OF m d [symmetric] refl refl fr(1) False "1.prems"(1)]
      obtain sent where "outbound_forward accepts mx (Suc n) pending rest = Some sent"
        "relays mx ((case pending of None \<Rightarrow> [] | Some f \<Rightarrow> [f]) @ arrived rest) sent" by blast
      then show ?thesis using relays_run [OF _ ok fr(2) within] eq all False by simp
    qed
  qed
qed auto

text \<open>Inbound frames pass unchanged; the flag is what the last \<^verbatim>\<open>initialize\<close> declared.\<close>

lemma inbound_forward_unchanged: "inbound_forward source accepts = (source, fold observe source accepts)"
  by (induction source arbitrary: accepts) (simp_all add: Let_def)

section \<open>Properties\<close>


section \<open>Witnesses\<close>

definition example_chunk :: "nat \<Rightarrow> string \<Rightarrow> unit raw_message" where
  "example_chunk n t = RawNotification ''session/update'' (Some (ParamsObject
     [(''sessionId'', JString ''s1''),
      (''update'', JObject [(''sessionUpdate'', JString ''agent_message_chunk''), (''messageId'', JString ''m1''),
         (''content'', JObject [(''type'', JString ''text''), (''text'', JString t)])]),
      (''_meta'', JObject [(''clawcode'', JObject [(''turnId'', JString ''t1''), (''sequence'', json_u64 n),
         (''sessionRecovery'', JObject [(''runId'', JString ''r1''), (''projectionIndex'', json_u64 0),
            (''projectionCount'', json_u64 1)])])])])) ()"


end
