(* ===== verification/Model_Policy.thy ===== *)
theory Model_Policy
  imports Claw_Prelude
begin

text \<open>
  The settings of models and runs (\<^verbatim>\<open>crates/protocol/src/capability.rs\<close>,
  \<^verbatim>\<open>crates/config/src/retry.rs\<close>) and the retry budget of one generation
  (\<^verbatim>\<open>crates/kernel/src/runtime/run/retry.rs\<close>). The main result relates the check of the
  configuration to the delays the budget later hands out.
\<close>

section \<open>capability.rs: model input\<close>

datatype model_input_modality = ModalityText | ModalityImage

datatype modalities_error = MissingText | TextNotFirst | DuplicateModality model_input_modality

fun first_duplicate :: "model_input_modality set \<Rightarrow> model_input_modality list \<Rightarrow> model_input_modality option" where
  "first_duplicate seen [] = None"
| "first_duplicate seen (m # ms) = (if m \<in> seen then Some m else first_duplicate (insert m seen) ms)"

definition modalities_try_from ::
    "model_input_modality list \<Rightarrow> (model_input_modality list, modalities_error) result" where
  "modalities_try_from ms =
     (case first_duplicate {} ms of
        Some m \<Rightarrow> Err (DuplicateModality m)
      | None \<Rightarrow>
          if ModalityText \<notin> set ms then Err MissingText
          else if hd ms \<noteq> ModalityText then Err TextNotFirst
          else Ok ms)"

definition supports :: "model_input_modality list \<Rightarrow> model_input_modality \<Rightarrow> bool" where
  "supports ms m = List.member ms m"

definition default_modalities :: "model_input_modality list" where
  "default_modalities = [ModalityText]"

datatype prompt_cache_retention = CacheShort | CacheLong

section \<open>capability.rs: policies and profiles\<close>

record compaction_policy =
  cpo_enabled :: bool
  cpo_reserve_tokens :: nat
  cpo_keep_recent_tokens :: nat

definition default_compaction_policy :: compaction_policy where
  "default_compaction_policy =
     \<lparr>cpo_enabled = True, cpo_reserve_tokens = 16384, cpo_keep_recent_tokens = 20000\<rparr>"

record retry_policy =
  rp_enabled :: bool
  rp_max_retries :: nat
  rp_base_delay_ms :: nat
  rp_max_retry_delay_ms :: nat

definition default_retry_policy :: retry_policy where
  "default_retry_policy =
     \<lparr>rp_enabled = True, rp_max_retries = 3, rp_base_delay_ms = 2000, rp_max_retry_delay_ms = 60000\<rparr>"

record model_profile =
  mp_provider_id :: string
  mp_model_id :: string
  mp_display_name :: string
  mp_context_tokens :: nat
  mp_max_output_tokens :: nat
  mp_request_max_tokens :: nat
  mp_input :: "model_input_modality list"
  mp_prompt_cache :: "prompt_cache_retention option"

section \<open>config/retry.rs\<close>

record provider_retry_config =
  prc_timeout_ms :: "nat option"
  prc_max_retries :: "nat option"
  prc_max_retry_delay_ms :: nat

record retry_config =
  rc_agent :: retry_policy
  rc_provider :: provider_retry_config

definition default_retry_config :: retry_config where
  "default_retry_config = \<lparr>rc_agent = default_retry_policy,
     rc_provider = \<lparr>prc_timeout_ms = None, prc_max_retries = None, prc_max_retry_delay_ms = 60000\<rparr>\<rparr>"

definition model_policy :: "retry_config \<Rightarrow> retry_policy" where
  "model_policy c =
     (case prc_max_retries (rc_provider c) of
        Some n \<Rightarrow> (rc_agent c)\<lparr>rp_max_retries := n\<rparr>
      | None \<Rightarrow> rc_agent c)"

text \<open>\<^verbatim>\<open>u64::checked_shl\<close> fails on a shift by 64 or more and otherwise drops the bits shifted out.\<close>

definition checked_shl_u64 :: "nat \<Rightarrow> nat \<Rightarrow> nat option" where
  "checked_shl_u64 x n = (if n < 64 then Some ((x * 2 ^ n) mod 2 ^ 64) else None)"

definition checked_mul_u64 :: "nat \<Rightarrow> nat \<Rightarrow> nat option" where
  "checked_mul_u64 a b = (if a * b \<le> u64_max then Some (a * b) else None)"

definition has_valid_backoff :: "retry_config \<Rightarrow> bool" where
  "has_valid_backoff c =
     (let policy = model_policy c in
      if \<not> rp_enabled policy \<or> rp_max_retries policy = 0 \<or> rp_base_delay_ms policy = 0 then True
      else if rp_max_retry_delay_ms policy > 0 then True
      else Option.bind (checked_shl_u64 1 (rp_max_retries policy - 1))
             (checked_mul_u64 (rp_base_delay_ms policy)) \<noteq> None)"

section \<open>model.rs: failures\<close>

datatype model_retry_disposition = Retryable | NonRetryable

record 'u model_failure =
  mf_summary :: string
  mf_status :: "nat option"
  mf_retry_disposition :: model_retry_disposition
  mf_retry_after_ms :: "nat option"
  mf_context_overflow :: bool
  mf_usage :: "'u option"

definition is_retryable :: "'u model_failure \<Rightarrow> bool" where
  "is_retryable f = (\<not> mf_context_overflow f \<and> mf_retry_disposition f = Retryable)"

section \<open>run/retry.rs\<close>

record retry_schedule =
  rs_attempt :: nat
  rs_max_attempts :: nat
  rs_delay_ms :: nat

record retry_state =
  rt_attempts :: nat
  rt_policy :: retry_policy
  rt_provider_delay_limit_ms :: nat

definition new_retry_state :: "retry_policy \<Rightarrow> nat \<Rightarrow> retry_state" where
  "new_retry_state policy limit =
     \<lparr>rt_attempts = 0, rt_policy = policy, rt_provider_delay_limit_ms = limit\<rparr>"

definition u32_max :: nat where
  "u32_max = 4294967295"

definition checked_add_u32 :: "nat \<Rightarrow> nat \<Rightarrow> nat option" where
  "checked_add_u32 a b = (if a + b \<le> u32_max then Some (a + b) else None)"

definition checked_sub :: "nat \<Rightarrow> nat \<Rightarrow> nat option" where
  "checked_sub a b = (if b \<le> a then Some (a - b) else None)"

definition local_delay :: "retry_policy \<Rightarrow> nat \<Rightarrow> nat option" where
  "local_delay policy attempt =
     map_option (\<lambda>shift.
       let factor = (case checked_shl_u64 1 shift of Some x \<Rightarrow> x | None \<Rightarrow> u64_max);
           delay = saturating_mul_u64 (rp_base_delay_ms policy) factor
       in if rp_max_retry_delay_ms policy > 0 then min delay (rp_max_retry_delay_ms policy) else delay)
       (checked_sub attempt 1)"

definition schedule :: "'u model_failure \<Rightarrow> retry_state \<Rightarrow> retry_state \<times> retry_schedule option" where
  "schedule failure s =
     (if \<not> is_retryable failure \<or> \<not> rp_enabled (rt_policy s) \<or>
         rt_attempts s \<ge> rp_max_retries (rt_policy s) then (s, None)
      else case checked_add_u32 (rt_attempts s) 1 of
        None \<Rightarrow> (s, None)
      | Some attempt \<Rightarrow>
          (case (case mf_retry_after_ms failure of
                   Some delay \<Rightarrow>
                     if rt_provider_delay_limit_ms s > 0 \<and> delay > rt_provider_delay_limit_ms s then None
                     else Some delay
                 | None \<Rightarrow> local_delay (rt_policy s) attempt) of
             None \<Rightarrow> (s, None)
           | Some delay \<Rightarrow>
               (s\<lparr>rt_attempts := attempt\<rparr>,
                Some \<lparr>rs_attempt = attempt, rs_max_attempts = rp_max_retries (rt_policy s),
                      rs_delay_ms = delay\<rparr>)))"

definition reset_retries :: "retry_state \<Rightarrow> retry_state" where
  "reset_retries s = s\<lparr>rt_attempts := 0\<rparr>"

fun schedules :: "'u model_failure list \<Rightarrow> retry_state \<Rightarrow> retry_schedule option list" where
  "schedules [] s = []"
| "schedules (f # fs) s = (let (s', g) = schedule f s in g # schedules fs s')"

section \<open>The retry budget\<close>

text \<open>The exact exponential backoff: no arithmetic limit, only the configured cap.\<close>

definition backoff :: "retry_policy \<Rightarrow> nat \<Rightarrow> nat" where
  "backoff policy k =
     (let delay = rp_base_delay_ms policy * 2 ^ k in
      if rp_max_retry_delay_ms policy > 0 then min delay (rp_max_retry_delay_ms policy) else delay)"

lemma u64_max_Suc: "Suc u64_max = 2 ^ 64"
  by (simp add: u64_max_def)

lemma checked_shl_one: "n < 64 \<Longrightarrow> checked_shl_u64 1 n = Some (2 ^ n)"
  using power_strict_increasing [of n 64 "2 :: nat"] unfolding checked_shl_u64_def by simp

lemma pow_overflows: "\<not> n < 64 \<Longrightarrow> u64_max < 2 ^ n"
  using power_increasing [of 64 n "2 :: nat"] u64_max_Suc by simp

text \<open>A capped delay never shows that the product saturated.\<close>

lemma capped_saturation:
  assumes "cap \<le> u64_max"
  shows "min (saturating_mul_u64 base (if k < 64 then 2 ^ k else u64_max)) cap = min (base * 2 ^ k) cap"
proof (cases "k < 64 \<or> base = 0")
  case True
  then show ?thesis using assms by (auto simp: saturating_mul_u64_def)
next
  case False
  then have "u64_max \<le> base * u64_max" "u64_max < base * 2 ^ k"
    using pow_overflows [of k] less_le_trans [of u64_max "2 ^ k" "base * 2 ^ k"] by auto
  with False assms show ?thesis by (simp add: saturating_mul_u64_def)
qed

lemma local_delay_backoff:
  assumes "has_valid_backoff c" "rp_enabled (model_policy c)" "k < rp_max_retries (model_policy c)"
    and "rp_max_retry_delay_ms (model_policy c) \<le> u64_max"
  shows "local_delay (model_policy c) (Suc k) = Some (backoff (model_policy c) k)"
proof -
  let ?p = "model_policy c"
  have factor: "(case checked_shl_u64 1 k of Some x \<Rightarrow> x | None \<Rightarrow> u64_max) = (if k < 64 then 2 ^ k else u64_max)"
    using checked_shl_one [of k] checked_shl_u64_def [of 1 k] by (cases "k < 64") simp_all
  have uncapped: "saturating_mul_u64 (rp_base_delay_ms ?p) (if k < 64 then 2 ^ k else u64_max) = rp_base_delay_ms ?p * 2 ^ k"
    if cap: "rp_max_retry_delay_ms ?p = 0"
  proof (cases "rp_base_delay_ms ?p = 0")
    case False
    let ?n = "rp_max_retries ?p - 1"
    have "Option.bind (checked_shl_u64 1 ?n) (checked_mul_u64 (rp_base_delay_ms ?p)) \<noteq> None"
      using assms(1-3) False cap unfolding has_valid_backoff_def Let_def by simp
    then have n: "?n < 64" "rp_base_delay_ms ?p * 2 ^ ?n \<le> u64_max"
      using checked_shl_one [of ?n] checked_shl_u64_def [of 1 ?n]
      by (cases "?n < 64"; simp add: checked_mul_u64_def split: if_splits)+
    have "k \<le> ?n" using assms(3) by simp
    then have "(2 :: nat) ^ k \<le> 2 ^ ?n" by (intro power_increasing) simp_all
    then have "rp_base_delay_ms ?p * 2 ^ k \<le> u64_max" using n(2) by (meson le_trans mult_le_mono2)
    with \<open>k \<le> ?n\<close> n(1) show ?thesis by (simp add: saturating_mul_u64_def)
  qed (simp add: saturating_mul_u64_def)
  show ?thesis
    using uncapped capped_saturation [OF assms(4)]
    by (simp add: local_delay_def checked_sub_def factor [unfolded One_nat_def] backoff_def Let_def)
qed

text \<open>The schedule granted for the \<open>k\<close>-th failure of a generation.\<close>

definition granted :: "retry_policy \<Rightarrow> 'u model_failure \<Rightarrow> nat \<Rightarrow> retry_schedule" where
  "granted policy f k = \<lparr>rs_attempt = Suc k, rs_max_attempts = rp_max_retries policy,
     rs_delay_ms = (case mf_retry_after_ms f of Some d \<Rightarrow> d | None \<Rightarrow> backoff policy k)\<rparr>"

definition admissible :: "nat \<Rightarrow> 'u model_failure \<Rightarrow> bool" where
  "admissible limit f =
     (is_retryable f \<and> (limit = 0 \<or> (case mf_retry_after_ms f of Some d \<Rightarrow> d \<le> limit | None \<Rightarrow> True)))"

lemma schedule_exhausted:
  "rp_max_retries (rt_policy s) \<le> rt_attempts s \<Longrightarrow> schedules fs s = replicate (length fs) None"
  by (induction fs) (simp_all add: schedule_def)

lemma schedule_granted:
  assumes "has_valid_backoff c" "rp_enabled (model_policy c)" "rp_max_retries (model_policy c) \<le> u32_max"
    and "rp_max_retry_delay_ms (model_policy c) \<le> u64_max"
    and "rt_policy s = model_policy c" "rt_attempts s < rp_max_retries (model_policy c)"
    and "admissible (rt_provider_delay_limit_ms s) f"
  shows "schedule f s = (s\<lparr>rt_attempts := Suc (rt_attempts s)\<rparr>, Some (granted (model_policy c) f (rt_attempts s)))"
proof -
  have "checked_add_u32 (rt_attempts s) 1 = Some (Suc (rt_attempts s))"
    using assms(3,6) by (simp add: checked_add_u32_def)
  with assms(2,5-7) local_delay_backoff [OF assms(1,2,6,4)] show ?thesis
    by (auto simp: schedule_def granted_def admissible_def split: option.split)
qed

lemma schedules_from:
  assumes "has_valid_backoff c" "rp_enabled (model_policy c)" "rp_max_retries (model_policy c) \<le> u32_max"
    and "rp_max_retry_delay_ms (model_policy c) \<le> u64_max"
    and "rt_policy s = model_policy c" "list_all (admissible (rt_provider_delay_limit_ms s)) fs"
  shows "schedules fs s = map (\<lambda>k. if rt_attempts s + k < rp_max_retries (model_policy c)
    then Some (granted (model_policy c) (fs ! k) (rt_attempts s + k)) else None) [0..<length fs]"
  using assms(5,6)
proof (induction fs arbitrary: s)
  case (Cons f fs)
  show ?case
  proof (cases "rt_attempts s < rp_max_retries (model_policy c)")
    case True
    have "schedule f s = (s\<lparr>rt_attempts := Suc (rt_attempts s)\<rparr>, Some (granted (model_policy c) f (rt_attempts s)))"
      using Cons.prems True by (intro schedule_granted [OF assms(1-4)]) simp_all
    moreover have "schedules fs (s\<lparr>rt_attempts := Suc (rt_attempts s)\<rparr>) =
      map (\<lambda>k. if Suc (rt_attempts s) + k < rp_max_retries (model_policy c)
        then Some (granted (model_policy c) (fs ! k) (Suc (rt_attempts s) + k)) else None) [0..<length fs]"
      using Cons.IH [of "s\<lparr>rt_attempts := Suc (rt_attempts s)\<rparr>"] Cons.prems by simp
    ultimately show ?thesis
      using True by (simp add: upt_conv_Cons map_Suc_upt [symmetric] comp_def del: upt_Suc)
  next
    case False
    then have "schedules (f # fs) s = replicate (length (f # fs)) None"
      using Cons.prems(1) by (intro schedule_exhausted) simp
    also have "\<dots> = map (\<lambda>k. None) [0..<length (f # fs)]" by (simp add: map_replicate_const)
    finally show ?thesis using False by (simp del: schedules.simps)
  qed
qed simp

text \<open>C33: with a configuration whose backoff was accepted, a generation that meets only transient failures
  (whose server waits are within the limit) is granted a retry for each of the first \<^verbatim>\<open>max_retries\<close>
  failures and for none after them; the wait is what the server asked for, otherwise exactly the base
  delay doubled per attempt and cut at the cap, so no 64-bit arithmetic limit is ever visible.\<close>

theorem retry_budget_spent_exactly:
  assumes "has_valid_backoff c" "rp_enabled (model_policy c)"
    and "rp_max_retries (model_policy c) \<le> u32_max" "rp_max_retry_delay_ms (model_policy c) \<le> u64_max"
    and "list_all (admissible limit) fs"
  shows "schedules fs (new_retry_state (model_policy c) limit) =
    map (\<lambda>k. if k < rp_max_retries (model_policy c) then Some (granted (model_policy c) (fs ! k) k) else None)
      [0..<length fs]"
  using schedules_from [OF assms(1-4), of "new_retry_state (model_policy c) limit" fs] assms(5)
  by (simp add: new_retry_state_def)

text \<open>A failure that is refused leaves the budget as it was.\<close>

lemma schedule_refused: "snd (schedule f s) = None \<Longrightarrow> fst (schedule f s) = s"
  by (auto simp: schedule_def split: if_splits option.splits)

lemma schedule_bound:
  "snd (schedule f s) = Some g \<Longrightarrow> rs_attempt g \<le> rp_max_retries (rt_policy s)"
  by (auto simp: schedule_def checked_add_u32_def split: if_splits option.splits)

text \<open>The modalities accepted are exactly the two useful lists.\<close>

lemma modalities_accepts:
  "modalities_try_from ms = Ok ms' \<longleftrightarrow>
    ms' = ms \<and> (ms = [ModalityText] \<or> ms = [ModalityText, ModalityImage])"
proof -
  have no_three: "first_duplicate {ModalityText, ModalityImage} xs \<noteq> None" if "xs \<noteq> []" for xs
    using that by (cases xs) (auto intro: model_input_modality.exhaust)
  show ?thesis
  proof (cases ms)
    case (Cons a as)
    then show ?thesis
      using no_three
      by (cases a; cases as; cases "hd as"; cases "tl as"; cases "hd (tl as)")
        (auto simp: modalities_try_from_def insert_commute split: option.splits)
  qed (simp add: modalities_try_from_def)
qed

definition transient_failure :: "unit model_failure" where
  "transient_failure = \<lparr>mf_summary = ''rate limit'', mf_status = Some 429, mf_retry_disposition = Retryable,
     mf_retry_after_ms = None, mf_context_overflow = False, mf_usage = None\<rparr>"

theorem retry_budget_spent_exactly_witness:
  "map (map_option rs_delay_ms) (schedules (replicate 4 transient_failure)
     (new_retry_state (model_policy default_retry_config) 60000)) = [Some 2000, Some 4000, Some 8000, None]"
proof -
  let ?c = default_retry_config
  have p: "model_policy ?c = default_retry_policy"
    by (simp add: model_policy_def default_retry_config_def)
  have four: "[0..<4] = [0, 1, 2, 3 :: nat]" by (simp add: upt_rec)
  have "list_all (admissible 60000) (replicate 4 transient_failure)"
    by (simp add: list_all_iff admissible_def is_retryable_def transient_failure_def)
  then have "schedules (replicate 4 transient_failure) (new_retry_state (model_policy ?c) 60000) =
    map (\<lambda>k. if k < rp_max_retries (model_policy ?c)
      then Some (granted (model_policy ?c) (replicate 4 transient_failure ! k) k) else None) [0..<length (replicate 4 transient_failure)]"
    by (intro retry_budget_spent_exactly)
      (simp_all add: p default_retry_policy_def u32_max_def u64_max_def has_valid_backoff_def)
  then show ?thesis
    unfolding p by (simp add: default_retry_policy_def granted_def backoff_def transient_failure_def four)
qed

end
