(* ===== verification/Compaction.thy ===== *)
theory Compaction
  imports Messages Model_Policy "HOL-Library.Char_ord" "HOL-Library.List_Lexorder"
begin

text \<open>
  How a context is measured and cut before it is summarized,
  \<^verbatim>\<open>crates/kernel/src/runtime/compaction/context.rs\<close> and the parts of \<^verbatim>\<open>compaction.rs\<close> around the
  model call. The token counts of a provider and the JSON text of a value are third-party code and
  come as arguments.
\<close>

text \<open>The counters of the provider's usage block and the serializer of \<^verbatim>\<open>serde_json\<close>.\<close>

record measure_env =
  input_tokens :: "json \<Rightarrow> nat option"
  output_tokens :: "json \<Rightarrow> nat option"
  context_tokens :: "json \<Rightarrow> nat option"
  json_string :: "json \<Rightarrow> string"
  extension_string :: "extension_message \<Rightarrow> string"

section \<open>context.rs: overflow\<close>

datatype overflow_action = CompactOnly | CompactAndRetry

definition overflow_recovery ::
    "measure_env \<Rightarrow> compaction_policy \<Rightarrow> assistant_metadata \<Rightarrow> model_profile \<Rightarrow> overflow_action option" where
  "overflow_recovery env policy metadata profile =
     (let input = input_tokens env (am_usage metadata); out = output_tokens env (am_usage metadata) in
      if \<not> cpo_enabled policy \<or> am_provider_id metadata \<noteq> mp_provider_id profile \<or>
         am_model_id metadata \<noteq> mp_model_id profile then None
      else if am_stop_reason metadata = EndTurn \<and>
         (case input of None \<Rightarrow> False | Some i \<Rightarrow> i > mp_context_tokens profile) then Some CompactOnly
      else if am_stop_reason metadata = MaxTokens \<and>
         ((case out of None \<Rightarrow> False | Some o' \<Rightarrow> o' < mp_request_max_tokens profile) \<or>
          (case input of None \<Rightarrow> False
           | Some i \<Rightarrow> saturating_mul_u64 i 100 \<ge> saturating_mul_u64 (mp_context_tokens profile) 99))
         then Some CompactAndRetry
      else if am_stop_reason metadata = StopError \<and> am_context_overflow metadata then Some CompactAndRetry
      else None)"

section \<open>context.rs: estimated tokens\<close>

definition div_ceil4 :: "nat \<Rightarrow> nat" where
  "div_ceil4 n = (n + 3) div 4"

fun opt_chars :: "string option \<Rightarrow> nat" where
  "opt_chars None = 0"
| "opt_chars (Some s) = chars_count s"

definition saturating_sum :: "nat list \<Rightarrow> nat" where
  "saturating_sum ns = fold (\<lambda>n total. saturating_add_u64 total n) ns 0"

fun block_characters :: "measure_env \<Rightarrow> content_block \<Rightarrow> nat" where
  "block_characters env (CbText t) = chars_count t"
| "block_characters env (CbReasoning t) = chars_count t"
| "block_characters env (CbImage d m) = 4800"
| "block_characters env (CbAudio d m) = 4800"
| "block_characters env (CbEmbeddedResource uri mime content) =
     saturating_add_u64 (saturating_add_u64 (chars_count uri) (opt_chars mime))
       (case content of ErcText t \<Rightarrow> chars_count t | ErcBlob d \<Rightarrow> 4800)"
| "block_characters env (CbResourceLink server uri name title description mime bytes) =
     saturating_sum (map opt_chars [Some uri, Some name, title, description, mime])"
| "block_characters env (CbStructured v) = chars_count (json_string env v)"
| "block_characters env (CbToolCall i name arguments x) =
     saturating_add_u64 (chars_count name) (chars_count (json_string env arguments))"

definition blocks_tokens :: "measure_env \<Rightarrow> content_block list \<Rightarrow> nat" where
  "blocks_tokens env blocks = div_ceil4 (saturating_sum (map (block_characters env) blocks))"

fun content_tokens :: "measure_env \<Rightarrow> message_content \<Rightarrow> nat" where
  "content_tokens env (McSystem blocks) = blocks_tokens env blocks"
| "content_tokens env (McUser blocks) = blocks_tokens env blocks"
| "content_tokens env (McAssistant blocks metadata native) = blocks_tokens env blocks"
| "content_tokens env (McToolResult i blocks e d out c) = blocks_tokens env blocks"
| "content_tokens env (McExpandedUser expansion) = blocks_tokens env (sce_model_blocks expansion)"
| "content_tokens env (McBashExecution bash) =
     (if be_exclude_from_context bash then 0 else div_ceil4 (chars_count (bash_model_text bash)))"
| "content_tokens env (McExtension extension) =
     (if em_include_in_context extension then div_ceil4 (chars_count (extension_string env extension)) else 0)"
| "content_tokens env (McSlashCommand m) = 0"
| "content_tokens env (McCompactionSummary compaction) = div_ceil4 (chars_count (csm_summary compaction))"

definition estimated_tokens :: "measure_env \<Rightarrow> agent_message \<Rightarrow> nat" where
  "estimated_tokens env m = content_tokens env (msg_content m)"

definition total_tokens :: "measure_env \<Rightarrow> agent_message list \<Rightarrow> nat" where
  "total_tokens env history = saturating_sum (map (estimated_tokens env) history)"

section \<open>context.rs: the estimate of a context\<close>

record context_usage_estimate =
  cu_tokens :: nat
  cu_usage_tokens :: nat
  cu_trailing_tokens :: nat
  cu_last_usage_index :: "nat option"

fun is_compaction_summary :: "message_content \<Rightarrow> bool" where
  "is_compaction_summary (McCompactionSummary c) = True"
| "is_compaction_summary _ = False"

text \<open>The first index from the end, with the value found there.\<close>

fun rfind_map :: "('a \<Rightarrow> 'b option) \<Rightarrow> 'a list \<Rightarrow> (nat \<times> 'b) option" where
  "rfind_map f [] = None"
| "rfind_map f (x # xs) =
     (case rfind_map f xs of
        Some (i, y) \<Rightarrow> Some (Suc i, y)
      | None \<Rightarrow> map_option (\<lambda>y. (0, y)) (f x))"

definition compaction_timestamp :: "agent_message list \<Rightarrow> nat option" where
  "compaction_timestamp history =
     map_option snd (rfind_map (\<lambda>m. if is_compaction_summary (msg_content m)
       then Some (mt_timestamp_ms (msg_timing m)) else None) history)"

definition reported_tokens :: "measure_env \<Rightarrow> nat option \<Rightarrow> agent_message \<Rightarrow> nat option" where
  "reported_tokens env boundary m =
     (case msg_content m of
        McAssistant blocks metadata native \<Rightarrow>
          if am_stop_reason metadata \<notin> {StopError, StopCancelled} \<and>
             (case boundary of None \<Rightarrow> True | Some b \<Rightarrow> mt_timestamp_ms (msg_timing m) > b)
          then context_tokens env (am_usage metadata) else None
      | _ \<Rightarrow> None)"

definition usage_estimate :: "measure_env \<Rightarrow> agent_message list \<Rightarrow> context_usage_estimate" where
  "usage_estimate env history =
     (case rfind_map (reported_tokens env (compaction_timestamp history)) history of
        Some (index, usage) \<Rightarrow>
          (let trailing = total_tokens env (drop (index + 1) history)
           in \<lparr>cu_tokens = saturating_add_u64 usage trailing, cu_usage_tokens = usage,
               cu_trailing_tokens = trailing, cu_last_usage_index = Some index\<rparr>)
      | None \<Rightarrow>
          (let estimated = total_tokens env history
           in \<lparr>cu_tokens = estimated, cu_usage_tokens = 0, cu_trailing_tokens = estimated, cu_last_usage_index = None\<rparr>))"

definition should_compact :: "nat \<Rightarrow> compaction_policy \<Rightarrow> context_usage_estimate \<Rightarrow> bool" where
  "should_compact context_window policy estimate \<longleftrightarrow>
     cpo_enabled policy \<and> cu_tokens estimate > context_window - cpo_reserve_tokens policy"

section \<open>context.rs: file operations\<close>

record file_operations =
  fo_read :: "string set"
  fo_modified :: "string set"

fun block_file :: "content_block \<Rightarrow> file_operations \<Rightarrow> file_operations" where
  "block_file (CbToolCall i name arguments x) ops =
     (case Option.bind (json_get ''path'' arguments) as_str of
        None \<Rightarrow> ops
      | Some path \<Rightarrow>
          if name = ''read'' then ops\<lparr>fo_read := insert path (fo_read ops)\<rparr>
          else if name = ''write'' \<or> name = ''edit'' then ops\<lparr>fo_modified := insert path (fo_modified ops)\<rparr>
          else ops)"
| "block_file _ ops = ops"

fun assistant_content :: "message_content \<Rightarrow> content_block list" where
  "assistant_content (McAssistant blocks metadata native) = blocks"
| "assistant_content _ = []"

definition extend_operations :: "agent_message list \<Rightarrow> file_operations \<Rightarrow> file_operations" where
  "extend_operations messages ops = fold block_file (concat (map (\<lambda>m. assistant_content (msg_content m)) messages)) ops"

definition read_files :: "file_operations \<Rightarrow> string list" where
  "read_files ops = sorted_list_of_set (fo_read ops - fo_modified ops)"

definition modified_files :: "file_operations \<Rightarrow> string list" where
  "modified_files ops = sorted_list_of_set (fo_modified ops)"

definition operations_from :: "agent_message \<Rightarrow> file_operations" where
  "operations_from m =
     (case msg_content m of
        McCompactionSummary c \<Rightarrow> \<lparr>fo_read = set (csm_read_files c), fo_modified = set (csm_modified_files c)\<rparr>
      | _ \<Rightarrow> \<lparr>fo_read = {}, fo_modified = {}\<rparr>)"

section \<open>context.rs: the cut\<close>

record compaction_preparation =
  cpr_summarized :: "agent_message list"
  cpr_turn_prefix :: "agent_message list"
  cpr_retained_tail :: "agent_message list"
  cpr_tokens_before :: nat
  cpr_previous_summary :: "string option"
  cpr_file_operations :: file_operations

fun valid_cut :: "message_content \<Rightarrow> bool" where
  "valid_cut (McUser b) = True"
| "valid_cut (McExpandedUser e) = True"
| "valid_cut (McAssistant b m n) = True"
| "valid_cut (McBashExecution b) = True"
| "valid_cut (McExtension e) = em_include_in_context e"
| "valid_cut (McSystem b) = False"
| "valid_cut (McToolResult i b e d out c) = False"
| "valid_cut (McSlashCommand m) = False"
| "valid_cut (McCompactionSummary c) = False"

fun starts_turn :: "message_content \<Rightarrow> bool" where
  "starts_turn (McUser b) = True"
| "starts_turn (McExpandedUser e) = True"
| "starts_turn (McBashExecution b) = True"
| "starts_turn (McAssistant b m n) = False"
| "starts_turn (McExtension e) = False"
| "starts_turn (McSystem b) = False"
| "starts_turn (McToolResult i b e d out c) = False"
| "starts_turn (McSlashCommand m) = False"
| "starts_turn (McCompactionSummary c) = False"

definition valid_cut_points :: "agent_message list \<Rightarrow> nat list" where
  "valid_cut_points compactable = filter (\<lambda>i. valid_cut (msg_content (compactable ! i))) [0..<length compactable]"

text \<open>The loop from the end that stops at the message with which the recent tokens are reached.\<close>

fun recent_index :: "measure_env \<Rightarrow> nat \<Rightarrow> nat \<Rightarrow> agent_message list \<Rightarrow> nat option" where
  "recent_index env keep retained [] = None"
| "recent_index env keep retained (m # earlier) =
     (let retained = saturating_add_u64 retained (estimated_tokens env m)
      in if retained \<ge> keep then Some (length earlier) else recent_index env keep retained earlier)"

definition first_kept :: "measure_env \<Rightarrow> compaction_policy \<Rightarrow> agent_message list \<Rightarrow> nat" where
  "first_kept env policy compactable =
     (if cpo_keep_recent_tokens policy = 0 then length compactable
      else
       (let cuts = valid_cut_points compactable;
            selected = (case cuts of [] \<Rightarrow> 0 | c # _ \<Rightarrow> c)
        in case recent_index env (cpo_keep_recent_tokens policy) 0 (rev compactable) of
             None \<Rightarrow> selected
           | Some index \<Rightarrow> (case find (\<lambda>c. c \<ge> index) cuts of None \<Rightarrow> selected | Some c \<Rightarrow> c)))"

definition rposition :: "('a \<Rightarrow> bool) \<Rightarrow> 'a list \<Rightarrow> nat option" where
  "rposition P xs = map_option fst (rfind_map (\<lambda>x. if P x then Some () else None) xs)"

definition turn_start :: "agent_message list \<Rightarrow> nat \<Rightarrow> nat option" where
  "turn_start compactable k =
     (if k < length compactable \<and> \<not> starts_turn (msg_content (compactable ! k))
      then rposition (\<lambda>m. starts_turn (msg_content m)) (take (k + 1) compactable) else None)"

definition preparation_from_history ::
    "measure_env \<Rightarrow> compaction_policy \<Rightarrow> agent_message list \<Rightarrow> compaction_preparation" where
  "preparation_from_history env policy history =
     (let boundary = rposition (\<lambda>m. is_compaction_summary (msg_content m)) history;
          previous_summary = Option.bind boundary (\<lambda>i.
            case msg_content (history ! i) of McCompactionSummary c \<Rightarrow> Some (csm_summary c) | _ \<Rightarrow> None);
          operations = (case boundary of None \<Rightarrow> \<lparr>fo_read = {}, fo_modified = {}\<rparr> | Some i \<Rightarrow> operations_from (history ! i));
          compactable = (case boundary of None \<Rightarrow> history | Some i \<Rightarrow> drop (i + 1) history);
          k = first_kept env policy compactable;
          start = turn_start compactable k;
          summarized = take (case start of None \<Rightarrow> k | Some s \<Rightarrow> s) compactable;
          turn_prefix = (case start of None \<Rightarrow> [] | Some s \<Rightarrow> drop s (take k compactable))
      in \<lparr>cpr_summarized = summarized, cpr_turn_prefix = turn_prefix,
          cpr_retained_tail = filter (\<lambda>m. estimated_tokens env m > 0) (drop k compactable),
          cpr_tokens_before = cu_tokens (usage_estimate env history),
          cpr_previous_summary = previous_summary,
          cpr_file_operations = extend_operations turn_prefix (extend_operations summarized operations)\<rparr>)"

section \<open>compaction.rs: around the model call\<close>

definition pre_prompt_compaction ::
    "measure_env \<Rightarrow> compaction_policy \<Rightarrow> model_profile \<Rightarrow> agent_message list
      \<Rightarrow> (compaction_reason \<times> message_id option) option" where
  "pre_prompt_compaction env policy profile history =
     (let boundary = map_option snd (rfind_map (\<lambda>m. if is_compaction_summary (msg_content m)
            then Some (mt_started_at_ms (msg_timing m)) else None) history);
          latest_assistant = map_option snd (rfind_map (\<lambda>m. case msg_content m of
              McAssistant blocks metadata native \<Rightarrow>
                if (case boundary of None \<Rightarrow> True | Some b \<Rightarrow> mt_ended_at_ms (msg_timing m) > b)
                then Some (m, metadata) else None
            | _ \<Rightarrow> None) history);
          overflow = Option.bind latest_assistant (\<lambda>(m, metadata).
            map_option (\<lambda>recovery. (CrOverflow,
                if recovery = CompactAndRetry then Some (mi_message_id (msg_identity m)) else None))
              (overflow_recovery env policy metadata profile))
      in case overflow of
           Some r \<Rightarrow> Some r
         | None \<Rightarrow>
             if should_compact (mp_context_tokens profile) policy (usage_estimate env history)
             then Some (CrThreshold, None) else None)"

definition compacted_history :: "message_id option \<Rightarrow> agent_message list \<Rightarrow> agent_message list" where
  "compacted_history excluded history =
     filter (\<lambda>m. case msg_content m of
         McAssistant blocks metadata native \<Rightarrow>
           \<not> (am_error metadata \<noteq> None \<or> excluded = Some (mi_message_id (msg_identity m)))
       | _ \<Rightarrow> True) history"

text \<open>\<open>None\<close> is the error \<^verbatim>\<open>NoContextToCompact\<close>.\<close>

definition prepare_compaction ::
    "measure_env \<Rightarrow> compaction_policy \<Rightarrow> message_id option \<Rightarrow> agent_message list \<Rightarrow> compaction_preparation option" where
  "prepare_compaction env policy excluded history =
     (let preparation = preparation_from_history env policy (compacted_history excluded history)
      in if list_ex (\<lambda>m. estimated_tokens env m > 0) (cpr_summarized preparation @ cpr_turn_prefix preparation)
         then Some preparation else None)"

text \<open>The two summaries of a split turn, and the file lists every summary ends with.\<close>

definition split_turn_summary :: "string option \<Rightarrow> string \<Rightarrow> string" where
  "split_turn_summary history_summary prefix_summary =
     (case history_summary of None \<Rightarrow> ''No prior history.'' | Some t \<Rightarrow> t) @
     [newline, newline] @ ''---'' @ [newline, newline] @ ''**Turn Context (split turn):**'' @ [newline, newline] @ prefix_summary"

definition summary_with_files :: "file_operations \<Rightarrow> string \<Rightarrow> string" where
  "summary_with_files ops summary =
     (let reads = read_files ops; modified = modified_files ops
      in summary @
         (if reads = [] then []
          else [newline, newline] @ ''<read-files>'' @ [newline] @ join_with [newline] reads @ [newline] @ ''</read-files>'') @
         (if modified = [] then []
          else [newline, newline] @ ''<modified-files>'' @ [newline] @ join_with [newline] modified @ [newline] @
            ''</modified-files>''))"

section \<open>Searching from the end\<close>

lemma rfind_map_None: "rfind_map f xs = None \<longleftrightarrow> (\<forall>x\<in>set xs. f x = None)"
  by (induction xs) (auto split: option.splits)

lemma rfind_map_Some:
  "rfind_map f xs = Some (i, y) \<longleftrightarrow>
    i < length xs \<and> f (xs ! i) = Some y \<and> (\<forall>x\<in>set (drop (Suc i) xs). f x = None)"
proof (induction xs arbitrary: i y)
  case (Cons x xs)
  show ?case
  proof (cases "rfind_map f xs")
    case None
    then have "\<forall>x\<in>set xs. f x = None" by (simp add: rfind_map_None)
    with None show ?thesis by (cases i) auto
  next
    case (Some r)
    then obtain j z where j: "rfind_map f xs = Some (j, z)" by (cases r) auto
    with Cons.IH [of j z] have "xs ! j \<in> set xs" "f (xs ! j) \<noteq> None" by auto
    then show ?thesis using Cons.IH j by (cases i) auto
  qed
qed simp

lemma rposition_Some:
  "rposition P xs = Some i \<longleftrightarrow> i < length xs \<and> P (xs ! i) \<and> (\<forall>x\<in>set (drop (Suc i) xs). \<not> P x)"
  by (auto simp: rposition_def rfind_map_Some split: if_splits)

lemma rposition_None: "rposition P xs = None \<longleftrightarrow> (\<forall>x\<in>set xs. \<not> P x)"
  by (auto simp: rposition_def rfind_map_None split: if_splits)

section \<open>Saturating sums\<close>

lemma fold_saturating: "r \<le> u64_max \<Longrightarrow> fold (\<lambda>n total. saturating_add_u64 total n) ns r = min (r + sum_list ns) u64_max"
proof (induction ns arbitrary: r)
  case (Cons n ns)
  have "fold (\<lambda>n total. saturating_add_u64 total n) (n # ns) r = min (min (r + n) u64_max + sum_list ns) u64_max"
    using Cons.IH [of "saturating_add_u64 r n"] by (simp add: saturating_add_u64_def)
  then show ?case by (simp add: min_def)
qed simp

lemma saturating_sum_min: "saturating_sum ns = min (sum_list ns) u64_max"
  unfolding saturating_sum_def using fold_saturating [of 0] by simp

lemma total_tokens_mono: "i \<le> j \<Longrightarrow> total_tokens env (drop j xs) \<le> total_tokens env (drop i xs)"
proof -
  assume "i \<le> j"
  then have "drop j xs = drop (j - i) (drop i xs)" by simp
  moreover have "sum_list (map f (drop n ys)) \<le> sum_list (map f ys)" for f :: "agent_message \<Rightarrow> nat" and n ys
    by (subst (2) append_take_drop_id [of n ys, symmetric]) (simp del: append_take_drop_id)
  ultimately have "sum_list (map (estimated_tokens env) (drop j xs)) \<le> sum_list (map (estimated_tokens env) (drop i xs))"
    by metis
  then show ?thesis unfolding total_tokens_def saturating_sum_min by (rule min.mono) simp
qed

text \<open>The loop from the end stops at the last message with which the rest reaches the tokens to keep.\<close>

lemma recent_index_spec:
  assumes "r \<le> u64_max" "r < keep"
  shows "case recent_index env keep r ms of
      Some j \<Rightarrow> j < length ms \<and> keep \<le> min (r + sum_list (map (estimated_tokens env) (take (length ms - j) ms))) u64_max \<and>
        min (r + sum_list (map (estimated_tokens env) (take (length ms - Suc j) ms))) u64_max < keep
    | None \<Rightarrow> min (r + sum_list (map (estimated_tokens env) ms)) u64_max < keep"
  using assms
proof (induction ms arbitrary: r)
  case (Cons m ms)
  let ?r = "saturating_add_u64 r (estimated_tokens env m)"
  have r: "?r = min (r + estimated_tokens env m) u64_max" by (simp add: saturating_add_u64_def)
  show ?case
  proof (cases "keep \<le> ?r")
    case True
    with Cons.prems r show ?thesis by (simp add: Let_def)
  next
    case False
    then have IH: "case recent_index env keep ?r ms of
        Some j \<Rightarrow> j < length ms \<and> keep \<le> min (?r + sum_list (map (estimated_tokens env) (take (length ms - j) ms))) u64_max \<and>
          min (?r + sum_list (map (estimated_tokens env) (take (length ms - Suc j) ms))) u64_max < keep
      | None \<Rightarrow> min (?r + sum_list (map (estimated_tokens env) ms)) u64_max < keep"
      by (intro Cons.IH) (auto simp: r)
    have eq: "min (?r + x) u64_max = min (r + (estimated_tokens env m + x)) u64_max" for x
      using Cons.prems(1) by (simp add: r min_def)
    show ?thesis
    proof (cases "recent_index env keep ?r ms")
      case None
      with IH False show ?thesis by (simp add: Let_def eq)
    next
      case (Some j)
      with IH have j: "j < length ms" by simp
      then have "Suc (length ms) - j = Suc (length ms - j)" "length ms - j = Suc (length ms - Suc j)" by simp_all
      with IH Some False j show ?thesis by (simp add: Let_def eq del: Suc_diff_le)
    qed
  qed
qed simp

section \<open>The cut\<close>

text \<open>A cut point after which, apart from the message at the cut, less than the tokens to keep is left.\<close>

definition fitting_cut :: "measure_env \<Rightarrow> nat \<Rightarrow> agent_message list \<Rightarrow> nat \<Rightarrow> bool" where
  "fitting_cut env keep xs c \<longleftrightarrow>
     c < length xs \<and> valid_cut (msg_content (xs ! c)) \<and> total_tokens env (drop (Suc c) xs) < keep"

definition first_cut :: "agent_message list \<Rightarrow> nat" where
  "first_cut xs = (case valid_cut_points xs of [] \<Rightarrow> 0 | c # _ \<Rightarrow> c)"

lemma recent_index_total:
  assumes "0 < keep"
  shows "recent_index env keep 0 (rev xs) = Some j \<Longrightarrow>
      j < length xs \<and> keep \<le> total_tokens env (drop j xs) \<and> total_tokens env (drop (Suc j) xs) < keep"
    "recent_index env keep 0 (rev xs) = None \<Longrightarrow> total_tokens env xs < keep"
proof -
  have suffix: "sum_list (map (estimated_tokens env) (take (length xs - j) (rev xs))) = sum_list (map (estimated_tokens env) (drop j xs))"
    if "j \<le> length xs" for j
    using that by (simp add: take_rev rev_map [symmetric] sum_list_rev)
  show "j < length xs \<and> keep \<le> total_tokens env (drop j xs) \<and> total_tokens env (drop (Suc j) xs) < keep"
    if "recent_index env keep 0 (rev xs) = Some j"
    using recent_index_spec [of 0 keep env "rev xs"] assms that suffix [of j] suffix [of "Suc j"]
    by (simp add: total_tokens_def saturating_sum_min)
  show "total_tokens env xs < keep" if "recent_index env keep 0 (rev xs) = None"
    using recent_index_spec [of 0 keep env "rev xs"] assms that
    by (simp add: total_tokens_def saturating_sum_min rev_map [symmetric] sum_list_rev)
qed

lemma fitting_cut_iff:
  assumes "0 < keep"
  shows "fitting_cut env keep xs c \<longleftrightarrow> c \<in> set (valid_cut_points xs) \<and>
    (case recent_index env keep 0 (rev xs) of None \<Rightarrow> True | Some j \<Rightarrow> j \<le> c)"
proof (cases "recent_index env keep 0 (rev xs)")
  case None
  then have "total_tokens env (drop (Suc c) xs) < keep"
    using recent_index_total(2) [OF assms None] total_tokens_mono [of 0 "Suc c" env xs] by simp
  with None show ?thesis by (auto simp: fitting_cut_def valid_cut_points_def)
next
  case (Some j)
  note j = recent_index_total(1) [OF assms Some]
  have "total_tokens env (drop (Suc c) xs) < keep \<longleftrightarrow> j \<le> c"
  proof
    assume "total_tokens env (drop (Suc c) xs) < keep"
    with j have "\<not> Suc c \<le> j" using total_tokens_mono [of "Suc c" j env xs] by linarith
    then show "j \<le> c" by simp
  next
    assume "j \<le> c"
    then show "total_tokens env (drop (Suc c) xs) < keep" using total_tokens_mono [of "Suc j" "Suc c" env xs] j by linarith
  qed
  with Some show ?thesis by (auto simp: fitting_cut_def valid_cut_points_def)
qed

lemma sorted_find_Least:
  assumes "sorted xs" "find P xs = Some (x :: nat)"
  shows "x = (LEAST y. y \<in> set xs \<and> P y)"
proof (rule Least_equality [symmetric])
  from assms(2) obtain i where i: "i < length xs" "P (xs ! i)" "x = xs ! i" "\<forall>j<i. \<not> P (xs ! j)"
    by (auto simp: find_Some_iff)
  then show "x \<in> set xs \<and> P x" by simp
  fix y
  assume "y \<in> set xs \<and> P y"
  then obtain j where "j < length xs" "y = xs ! j" "\<not> j < i" using i by (auto simp: in_set_conv_nth)
  then show "x \<le> y" using assms(1) i by (simp add: sorted_nth_mono)
qed

lemma first_kept_cases:
  assumes "0 < cpo_keep_recent_tokens policy"
  shows "first_kept env policy xs =
    (if \<exists>c. fitting_cut env (cpo_keep_recent_tokens policy) xs c
     then LEAST c. fitting_cut env (cpo_keep_recent_tokens policy) xs c else first_cut xs)"
proof (cases "recent_index env (cpo_keep_recent_tokens policy) 0 (rev xs)")
  case None
  show ?thesis
  proof (cases "valid_cut_points xs")
    case Nil
    with assms None show ?thesis
      by (simp add: first_kept_def first_cut_def fitting_cut_iff [OF assms] Let_def)
  next
    case (Cons c cs)
    have "sorted (valid_cut_points xs)" by (simp add: valid_cut_points_def sorted_wrt_filter)
    then have "(LEAST y. y \<in> set (valid_cut_points xs)) = c" unfolding Cons by (auto intro: Least_equality)
    with assms None Cons show ?thesis
      by (auto simp: first_kept_def fitting_cut_iff [OF assms] Let_def)
  qed
next
  case (Some j)
  have sorted: "sorted (valid_cut_points xs)" by (simp add: valid_cut_points_def sorted_wrt_filter)
  show ?thesis
  proof (cases "find (\<lambda>c. j \<le> c) (valid_cut_points xs)")
    case None
    with assms Some show ?thesis
      by (simp add: first_kept_def first_cut_def Let_def fitting_cut_iff [OF assms]) (auto simp: find_None_iff)
  next
    case (Some c)
    note recent = \<open>recent_index env (cpo_keep_recent_tokens policy) 0 (rev xs) = Some j\<close>
    have "c \<in> set (valid_cut_points xs) \<and> j \<le> c" using Some by (auto simp: find_Some_iff)
    then have "\<exists>c. fitting_cut env (cpo_keep_recent_tokens policy) xs c" using recent by (auto simp: fitting_cut_iff [OF assms])
    moreover have "first_kept env policy xs = c" using assms recent Some by (simp add: first_kept_def Let_def)
    moreover have "c = (LEAST c. fitting_cut env (cpo_keep_recent_tokens policy) xs c)"
      using sorted_find_Least [OF sorted Some] recent by (simp add: fitting_cut_iff [OF assms])
    ultimately show ?thesis by simp
  qed
qed

lemma first_cut_cases: "first_cut xs = 0 \<or> first_cut xs < length xs \<and> valid_cut (msg_content (xs ! first_cut xs))"
proof (cases "valid_cut_points xs")
  case (Cons c cs)
  then have "c \<in> set (valid_cut_points xs)" by simp
  then have "c < length xs \<and> valid_cut (msg_content (xs ! c))" by (simp add: valid_cut_points_def)
  with Cons show ?thesis by (simp add: first_cut_def)
qed (simp add: first_cut_def)

text \<open>The cut is at the end, at a message where it may be, or in front of everything.\<close>

lemma first_kept_valid:
  "first_kept env policy xs \<le> length xs \<and>
    (first_kept env policy xs = length xs \<or> first_kept env policy xs = 0 \<or>
     valid_cut (msg_content (xs ! first_kept env policy xs)))"
proof (cases "cpo_keep_recent_tokens policy = 0")
  case True
  then show ?thesis by (simp add: first_kept_def)
next
  case False
  let ?fit = "fitting_cut env (cpo_keep_recent_tokens policy) xs"
  show ?thesis
  proof (cases "\<exists>c. ?fit c")
    case True
    then have "?fit (LEAST c. ?fit c)" by (rule LeastI_ex)
    then have "?fit (first_kept env policy xs)" using True False first_kept_cases [of policy env xs] by simp
    then show ?thesis by (simp add: fitting_cut_def)
  next
    case none: False
    then show ?thesis using first_cut_cases [of xs] False first_kept_cases [of policy env xs] by auto
  qed
qed

lemma turn_start_Some:
  assumes "turn_start xs k = Some s"
  shows "s < k" "starts_turn (msg_content (xs ! s))" "\<forall>m\<in>set (drop (Suc s) (take (Suc k) xs)). \<not> starts_turn (msg_content m)"
proof -
  from assms have k: "k < length xs" "\<not> starts_turn (msg_content (xs ! k))"
    and r: "rposition (\<lambda>m. starts_turn (msg_content m)) (take (Suc k) xs) = Some s"
    by (auto simp: turn_start_def split: if_splits)
  then have "s < Suc k" "starts_turn (msg_content (take (Suc k) xs ! s))" by (auto simp: rposition_Some)
  with k show "s < k" "starts_turn (msg_content (xs ! s))" by (auto simp: less_Suc_eq)
  show "\<forall>m\<in>set (drop (Suc s) (take (Suc k) xs)). \<not> starts_turn (msg_content m)" using r by (simp add: rposition_Some)
qed

text \<open>What a compaction leaves alone: everything up to the last summary.\<close>

definition last_summary :: "agent_message list \<Rightarrow> nat option" where
  "last_summary history = rposition (\<lambda>m. is_compaction_summary (msg_content m)) history"

definition checkpoint :: "agent_message list \<Rightarrow> agent_message list" where
  "checkpoint history = (case last_summary history of None \<Rightarrow> [] | Some i \<Rightarrow> take (i + 1) history)"

definition compactable :: "agent_message list \<Rightarrow> agent_message list" where
  "compactable history = (case last_summary history of None \<Rightarrow> history | Some i \<Rightarrow> drop (i + 1) history)"

lemma checkpoint_compactable: "history = checkpoint history @ compactable history"
  by (simp add: checkpoint_def compactable_def split: option.split)

lemma compactable_no_summary: "list_all (\<lambda>m. \<not> is_compaction_summary (msg_content m)) (compactable history)"
proof (cases "last_summary history")
  case None
  then have "\<forall>m \<in> set history. \<not> is_compaction_summary (msg_content m)"
    unfolding last_summary_def rposition_None .
  then show ?thesis unfolding compactable_def None option.case list_all_iff .
next
  case (Some i)
  then have "\<forall>m \<in> set (drop (Suc i) history). \<not> is_compaction_summary (msg_content m)"
    unfolding last_summary_def rposition_Some by simp
  then show ?thesis unfolding compactable_def Some option.case list_all_iff by simp
qed

lemma preparation_fields:
  fixes env policy history
  defines "p \<equiv> preparation_from_history env policy history" and "xs \<equiv> compactable history"
  shows "cpr_summarized p = take (case turn_start xs (first_kept env policy xs) of None \<Rightarrow> first_kept env policy xs | Some s \<Rightarrow> s) xs"
    "cpr_turn_prefix p = (case turn_start xs (first_kept env policy xs) of None \<Rightarrow> []
      | Some s \<Rightarrow> drop s (take (first_kept env policy xs) xs))"
    "cpr_retained_tail p = filter (\<lambda>m. estimated_tokens env m > 0) (drop (first_kept env policy xs) xs)"
    "cpr_previous_summary p = Option.bind (last_summary history) (\<lambda>i.
      case msg_content (history ! i) of McCompactionSummary c \<Rightarrow> Some (csm_summary c) | _ \<Rightarrow> None)"
  unfolding p_def xs_def preparation_from_history_def Let_def last_summary_def [symmetric] compactable_def [symmetric]
  by simp_all

lemma turn_start_before: "turn_start xs k = Some s \<Longrightarrow> s < k \<and> k < length xs"
  using turn_start_Some(1) [of xs k s] by (auto simp: turn_start_def split: if_splits)

lemma summarized_prefix:
  fixes env policy history
  defines "p \<equiv> preparation_from_history env policy history" and "xs \<equiv> compactable history"
  shows "cpr_summarized p @ cpr_turn_prefix p = take (first_kept env policy xs) xs"
proof (cases "turn_start xs (first_kept env policy xs)")
  case (Some s)
  then have "take s xs = take s (take (first_kept env policy xs) xs)"
    using turn_start_before [OF Some] by (simp add: min_absorb1)
  with Some show ?thesis by (simp only: preparation_fields p_def xs_def option.case append_take_drop_id)
qed (simp add: preparation_fields p_def xs_def)

lemma previous_summary_spec:
  fixes env policy history
  defines "p \<equiv> preparation_from_history env policy history"
  shows "checkpoint history = [] \<and> cpr_previous_summary p = None \<or>
     (\<exists>earlier m c. checkpoint history = earlier @ [m] \<and> msg_content m = McCompactionSummary c \<and>
        cpr_previous_summary p = Some (csm_summary c))"
proof (cases "last_summary history")
  case (Some i)
  then have i: "i < length history" "is_compaction_summary (msg_content (history ! i))"
    by (auto simp: last_summary_def rposition_Some)
  then obtain c where "msg_content (history ! i) = McCompactionSummary c" by (cases "msg_content (history ! i)") auto
  with i(1) Some show ?thesis by (auto simp: checkpoint_def p_def preparation_fields take_Suc_conv_app_nth)
qed (simp add: checkpoint_def p_def preparation_fields)

lemma turn_prefix_spec:
  fixes env policy history
  defines "p \<equiv> preparation_from_history env policy history" and "xs \<equiv> compactable history"
  defines "k \<equiv> first_kept env policy xs"
  shows "cpr_turn_prefix p = [] \<or> starts_turn (msg_content (hd (cpr_turn_prefix p))) \<and>
     list_all (\<lambda>m. \<not> starts_turn (msg_content m)) (tl (cpr_turn_prefix p) @ take 1 (drop k xs)) \<and> drop k xs \<noteq> []"
proof (cases "turn_start xs k")
  case (Some s)
  note ts = turn_start_Some [OF Some]
  have sk: "s < k" "k < length xs" using turn_start_before [OF Some] by auto
  have "hd (drop s (take k xs)) = xs ! s" using sk by (simp add: hd_drop_conv_nth)
  moreover have "tl (drop s (take k xs)) @ take 1 (drop k xs) = drop (Suc s) (take (Suc k) xs)"
    using sk by (simp add: tl_drop take_Suc_conv_app_nth drop_Suc [symmetric])
  moreover have "cpr_turn_prefix p = drop s (take k xs)"
    using Some by (simp add: p_def preparation_fields xs_def k_def)
  ultimately show ?thesis using ts sk by (simp add: list_all_iff)
qed (simp add: p_def preparation_fields xs_def k_def)

section \<open>Properties\<close>

text \<open>Compaction cuts the context behind the last summary into what is summarized, the start of a split
  turn and a tail of which only messages without model text are dropped. The tail is empty, starts
  at a message where a cut may be, or is everything; a split turn is non-empty, starts with user
  input and goes on into the tail.\<close>

lemma compaction_partitions_context:
  "\<exists>before tail. history = before @ cpr_summarized (preparation_from_history env policy history) @
        cpr_turn_prefix (preparation_from_history env policy history) @ tail \<and>
    cpr_retained_tail (preparation_from_history env policy history) = filter (\<lambda>m. estimated_tokens env m > 0) tail \<and>
    (before = [] \<and> cpr_previous_summary (preparation_from_history env policy history) = None \<or>
     (\<exists>earlier m c. before = earlier @ [m] \<and> msg_content m = McCompactionSummary c \<and>
        cpr_previous_summary (preparation_from_history env policy history) = Some (csm_summary c))) \<and>
    list_all (\<lambda>m. \<not> is_compaction_summary (msg_content m)) (drop (length before) history) \<and>
    (tail = [] \<or> valid_cut (msg_content (hd tail)) \<or>
     cpr_summarized (preparation_from_history env policy history) @ cpr_turn_prefix (preparation_from_history env policy history) = []) \<and>
    (cpr_turn_prefix (preparation_from_history env policy history) = [] \<or>
     starts_turn (msg_content (hd (cpr_turn_prefix (preparation_from_history env policy history)))) \<and>
     list_all (\<lambda>m. \<not> starts_turn (msg_content m)) (tl (cpr_turn_prefix (preparation_from_history env policy history)) @ take 1 tail) \<and>
     tail \<noteq> [])"
proof -
  let ?p = "preparation_from_history env policy history" and ?xs = "compactable history"
  let ?k = "first_kept env policy ?xs"
  have h: "history = checkpoint history @ cpr_summarized ?p @ cpr_turn_prefix ?p @ drop ?k ?xs"
    using checkpoint_compactable [of history] summarized_prefix [of env policy history]
    by (metis append.assoc append_take_drop_id)
  have d: "drop (length (checkpoint history)) history = ?xs"
    using checkpoint_compactable [of history] by (metis append_eq_conv_conj)
  have cut_ok: "drop ?k ?xs = [] \<or> valid_cut (msg_content (hd (drop ?k ?xs))) \<or> take ?k ?xs = []"
    using first_kept_valid [of env policy ?xs] by (cases "?k < length ?xs") (auto simp: hd_drop_conv_nth)
  have none: "list_all (\<lambda>m. \<not> is_compaction_summary (msg_content m)) (drop (length (checkpoint history)) history)"
    unfolding d by (rule compactable_no_summary)
  show ?thesis
    by (rule exI [of _ "checkpoint history"], rule exI [of _ "drop ?k ?xs"])
      (intro conjI h preparation_fields(3) previous_summary_spec none cut_ok [folded summarized_prefix] turn_prefix_spec)
qed

text \<open>The kept tail starts at the first message at which a cut may be and behind which fewer than the tokens
  to keep follow, so the tail is over the budget by one message at most. Only when no message
  qualifies does everything from the first possible cut on stay.\<close>

lemma cut_keeps_recent_tokens:
  assumes "0 < cpo_keep_recent_tokens policy"
  shows "first_kept env policy xs =
    (if \<exists>c. fitting_cut env (cpo_keep_recent_tokens policy) xs c
     then LEAST c. fitting_cut env (cpo_keep_recent_tokens policy) xs c else first_cut xs)"
  using assms by (rule first_kept_cases)


section \<open>Witnesses\<close>

definition example_env :: measure_env where
  "example_env = \<lparr>input_tokens = (\<lambda>_. None), output_tokens = (\<lambda>_. None), context_tokens = (\<lambda>_. None),
     json_string = (\<lambda>_. []), extension_string = (\<lambda>_. [])\<rparr>"

definition example_message :: "message_content \<Rightarrow> agent_message" where
  "example_message c = \<lparr>msg_identity = \<lparr>mi_message_id = ''m'', mi_turn_id = ''t''\<rparr>,
     msg_timing = \<lparr>mt_timestamp_ms = 1, mt_started_at_ms = 1, mt_ended_at_ms = 1\<rparr>, msg_content = c\<rparr>"

definition example_history :: "agent_message list" where
  "example_history = map example_message
     [McUser [CbText ''one two three''], McAssistant [CbToolCall ''c'' ''read'' JNull None] 
        \<lparr>am_provider_id = ''p'', am_model_id = ''m'', am_stop_reason = ToolUse, am_raw_stop_reason = None,
          am_usage = JNull, am_error = None, am_context_overflow = False\<rparr> None,
      McToolResult ''c'' [CbText ''four five six''] False None None False]"

definition example_policy :: compaction_policy where
  "example_policy = \<lparr>cpo_enabled = True, cpo_reserve_tokens = 0, cpo_keep_recent_tokens = 5\<rparr>"

lemmas example_measure = example_history_def example_message_def example_env_def estimated_tokens_def blocks_tokens_def
  saturating_sum_def saturating_add_u64_def u64_max_def div_ceil4_def chars_count_def

lemma example_cut: "first_kept example_env example_policy example_history = 1"
  by (simp add: first_kept_def valid_cut_points_def example_policy_def example_measure Let_def upt_rec)


end
