(* ===== verification/Edit_Tool.thy ===== *)
theory Edit_Tool
  imports Output_Props
begin

text \<open>
  The multi-edit file tool, \<^verbatim>\<open>crates/tools/src/builtin/edit.rs\<close>: the arguments it accepts, the search
  for the texts to replace, the check that they are unique and do not overlap, and the replacement
  itself, exact or line by line after a fuzzy match. Unicode normalization (NFKC) and the JSON
  parser are third-party code and come as arguments. \<open>None\<close> is the panic of
  \<^verbatim>\<open>String::replace_range\<close> on a range that is out of bounds or splits a character. The diff of the
  result is computed by the \<^verbatim>\<open>similar\<close> crate and left out.
\<close>

section \<open>edit.rs: arguments\<close>

record edit_replacement =
  er_old_text :: string
  er_new_text :: string

record edit_arguments =
  ea_path :: string
  ea_edits :: "edit_replacement list"

definition decode_replacement :: "json \<Rightarrow> edit_replacement option" where
  "decode_replacement v = do {
     m \<leftarrow> struct_fields [''oldText'', ''newText''] v;
     old \<leftarrow> field ''oldText'' as_str m;
     new \<leftarrow> field ''newText'' as_str m;
     Some \<lparr>er_old_text = old, er_new_text = new\<rparr> }"

fun decode_replacements :: "json \<Rightarrow> edit_replacement list option" where
  "decode_replacements (JArray vs) = those (map decode_replacement vs)"
| "decode_replacements _ = None"

text \<open>Edits given as a string of JSON are parsed; the legacy fields become one more edit.\<close>

definition parse_edits :: "(string \<Rightarrow> json option) \<Rightarrow> json_map \<Rightarrow> json_map" where
  "parse_edits from_text m =
     (case Option.bind (Option.bind (map_of m ''edits'') as_str) from_text of
        None \<Rightarrow> m
      | Some parsed \<Rightarrow> AList.update ''edits'' parsed m)"

definition legacy_edit :: "json_map \<Rightarrow> json_map" where
  "legacy_edit m =
     (let m' = AList.delete ''newText'' (AList.delete ''oldText'' m)
      in case (map_of m ''oldText'', map_of m ''newText'') of
           (Some old, Some new) \<Rightarrow>
             (case map_of m' ''edits'' of
                None \<Rightarrow> AList.update ''edits'' (JArray [JObject [(''oldText'', old), (''newText'', new)]]) m'
              | Some (JArray vs) \<Rightarrow>
                  AList.update ''edits'' (JArray (vs @ [JObject [(''oldText'', old), (''newText'', new)]])) m'
              | Some _ \<Rightarrow> m')
         | _ \<Rightarrow> m')"

definition edit_arguments_try_from :: "(string \<Rightarrow> json option) \<Rightarrow> json \<Rightarrow> edit_arguments option" where
  "edit_arguments_try_from from_text v = do {
     m \<leftarrow> (case v of
         JObject m \<Rightarrow> Some (legacy_edit (parse_edits from_text m))
       | _ \<Rightarrow> struct_fields [''path'', ''edits''] v);
     path \<leftarrow> field ''path'' as_str m;
     edits \<leftarrow> field ''edits'' decode_replacements m;
     Some \<lparr>ea_path = path, ea_edits = edits\<rparr> }"

definition edit_arguments_validate :: "edit_arguments \<Rightarrow> bool" where
  "edit_arguments_validate a \<longleftrightarrow> ea_edits a \<noteq> []"

section \<open>edit.rs: normalization\<close>

abbreviation carriage_return :: char where
  "carriage_return \<equiv> CHR 0x0D"

fun replace_crlf :: "string \<Rightarrow> string" where
  "replace_crlf (c # d # s) =
     (if c = carriage_return \<and> d = newline then newline # replace_crlf s else c # replace_crlf (d # s))"
| "replace_crlf s = s"

definition normalize_newlines :: "string \<Rightarrow> string" where
  "normalize_newlines s = map (\<lambda>c. if c = carriage_return then newline else c) (replace_crlf s)"

text \<open>The characters that \<^verbatim>\<open>normalize_fuzzy\<close> maps to ASCII, over their encodings.\<close>

definition fuzzy3 :: "nat \<Rightarrow> nat \<Rightarrow> nat \<Rightarrow> char option" where
  "fuzzy3 x y z =
     (if x = 226 \<and> y = 128 \<and> 152 \<le> z \<and> z \<le> 155 then Some (CHR 0x27)
      else if x = 226 \<and> y = 128 \<and> 156 \<le> z \<and> z \<le> 159 then Some (CHR 0x22)
      else if x = 226 \<and> y = 128 \<and> 144 \<le> z \<and> z \<le> 149 \<or> x = 226 \<and> y = 136 \<and> z = 146 then Some (CHR ''-'')
      else if x = 226 \<and> y = 128 \<and> (130 \<le> z \<and> z \<le> 138 \<or> z = 175) \<or> x = 226 \<and> y = 129 \<and> z = 159 \<or>
              x = 227 \<and> y = 128 \<and> z = 128 then Some (CHR '' '')
      else None)"

fun fuzzy_chars :: "string \<Rightarrow> string" where
  "fuzzy_chars [] = []"
| "fuzzy_chars (a # s) =
     (case s of
        b # s' \<Rightarrow>
          if byte a = 194 \<and> byte b = 160 then CHR '' '' # fuzzy_chars s'
          else (case s' of
              c # s'' \<Rightarrow>
                (case fuzzy3 (byte a) (byte b) (byte c) of
                   Some r \<Rightarrow> r # fuzzy_chars s''
                 | None \<Rightarrow> a # fuzzy_chars s)
            | [] \<Rightarrow> a # fuzzy_chars s)
      | [] \<Rightarrow> [a])"

definition normalize_fuzzy :: "(string \<Rightarrow> string) \<Rightarrow> string \<Rightarrow> string" where
  "normalize_fuzzy nfkc content = fuzzy_chars (join_with [newline] (map trim_end (split_on newline (nfkc content))))"

section \<open>edit.rs: matching\<close>

record matched_edit =
  me_edit_index :: nat
  me_match_index :: nat
  me_match_length :: nat
  me_new_text :: string

datatype edit_error =
    EmptyOldText nat
  | OldTextNotFound nat
  | OldTextNotUnique nat nat
  | EditsOverlap nat nat
  | NoChange
  | LineCountDiffers
  | OutsideBase

text \<open>\<^verbatim>\<open>str::match_indices\<close>: disjoint matches from the left; the empty text matches at every boundary.\<close>

function matches_from :: "string \<Rightarrow> nat \<Rightarrow> string \<Rightarrow> nat list" where
  "matches_from p i s =
     (if p = [] \<or> s = [] then []
      else if starts_with p s then i # matches_from p (i + length p) (drop (length p) s)
      else matches_from p (i + 1) (tl s))"
  by pat_completeness auto
termination
  by (relation "measure (\<lambda>(p, i, s). length s)") (auto simp: Suc_le_eq)

declare matches_from.simps [simp del]

definition match_indices :: "string \<Rightarrow> string \<Rightarrow> nat list" where
  "match_indices target s =
     (if target = [] then filter (is_char_boundary s) [0..<length s + 1] else matches_from target 0 s)"

definition match_edit :: "string \<Rightarrow> (string \<Rightarrow> string) \<Rightarrow> nat \<Rightarrow> edit_replacement \<Rightarrow> (matched_edit, edit_error) result" where
  "match_edit base target_of index edit =
     (let target = target_of (er_old_text edit)
      in case match_indices target base of
           [] \<Rightarrow> Err (OldTextNotFound index)
         | [i] \<Rightarrow> Ok \<lparr>me_edit_index = index, me_match_index = i, me_match_length = length target, me_new_text = er_new_text edit\<rparr>
         | found \<Rightarrow> Err (OldTextNotUnique index (length found)))"

fun match_edits ::
    "string \<Rightarrow> (string \<Rightarrow> string) \<Rightarrow> nat \<Rightarrow> edit_replacement list \<Rightarrow> (matched_edit list, edit_error) result" where
  "match_edits base target_of index [] = Ok []"
| "match_edits base target_of index (edit # edits) =
     and_then (match_edit base target_of index edit) (\<lambda>m.
     and_then (match_edits base target_of (Suc index) edits) (\<lambda>ms. Ok (m # ms)))"

fun check_overlap :: "matched_edit list \<Rightarrow> (unit, edit_error) result" where
  "check_overlap (previous # current # rest) =
     (if me_match_index previous + me_match_length previous > me_match_index current
      then Err (EditsOverlap (me_edit_index previous) (me_edit_index current))
      else check_overlap (current # rest))"
| "check_overlap _ = Ok ()"

section \<open>edit.rs: replacing\<close>

definition replace_range :: "nat \<Rightarrow> nat \<Rightarrow> string \<Rightarrow> string \<Rightarrow> string option" where
  "replace_range start stop new_text s =
     (if start \<le> stop \<and> is_char_boundary s start \<and> is_char_boundary s stop
      then Some (take start s @ new_text @ drop stop s) else None)"

fun apply_reversed :: "nat \<Rightarrow> matched_edit list \<Rightarrow> string \<Rightarrow> string option" where
  "apply_reversed offset [] s = Some s"
| "apply_reversed offset (r # rs) s =
     (let start = me_match_index r - offset
      in Option.bind (replace_range start (start + me_match_length r) (me_new_text r) s) (apply_reversed offset rs))"

definition apply_replacements :: "string \<Rightarrow> matched_edit list \<Rightarrow> nat \<Rightarrow> string option" where
  "apply_replacements content replacements offset = apply_reversed offset (rev replacements) content"

text \<open>\<^verbatim>\<open>split_inclusive('\n')\<close>: the lines with their newlines, without an empty last one.\<close>

definition split_inclusive :: "string \<Rightarrow> string list" where
  "split_inclusive s =
     (let pieces = split_on newline s
      in map (\<lambda>l. l @ [newline]) (butlast pieces) @ (if last pieces = [] then [] else [last pieces]))"

fun line_spans :: "nat \<Rightarrow> string list \<Rightarrow> (nat \<times> nat) list" where
  "line_spans offset [] = []"
| "line_spans offset (l # ls) = (offset, offset + length l) # line_spans (offset + length l) ls"

record replacement_group =
  rg_start_line :: nat
  rg_end_line :: nat
  rg_replacements :: "matched_edit list"

fun position :: "('a \<Rightarrow> bool) \<Rightarrow> 'a list \<Rightarrow> nat option" where
  "position P [] = None"
| "position P (x # xs) = (if P x then Some 0 else map_option Suc (position P xs))"

text \<open>The first line from \<open>i\<close> on that reaches the end of the replacement.\<close>

definition end_line_from :: "(nat \<times> nat) list \<Rightarrow> nat \<Rightarrow> nat \<Rightarrow> nat" where
  "end_line_from spans replacement_end i = i + length (takeWhile (\<lambda>l. snd l < replacement_end) (drop i spans))"

definition add_to_groups ::
    "(nat \<times> nat) list \<Rightarrow> replacement_group list \<Rightarrow> matched_edit \<Rightarrow> (replacement_group list, edit_error) result" where
  "add_to_groups spans groups r =
     (let replacement_end = me_match_index r + me_match_length r
      in case position (\<lambda>(start, stop). start \<le> me_match_index r \<and> me_match_index r < stop) spans of
           None \<Rightarrow> Err OutsideBase
         | Some start_line \<Rightarrow>
             (let end_line = end_line_from spans replacement_end start_line
              in if end_line \<ge> length spans then Err OutsideBase
                 else if groups \<noteq> [] \<and> start_line < rg_end_line (last groups)
                 then Ok (butlast groups @ [(last groups)\<lparr>rg_end_line := max (rg_end_line (last groups)) (end_line + 1),
                        rg_replacements := rg_replacements (last groups) @ [r]\<rparr>])
                 else Ok (groups @ [\<lparr>rg_start_line = start_line, rg_end_line = end_line + 1, rg_replacements = [r]\<rparr>])))"

fun rewrite_groups ::
    "string list \<Rightarrow> string \<Rightarrow> (nat \<times> nat) list \<Rightarrow> nat \<Rightarrow> replacement_group list \<Rightarrow> string option" where
  "rewrite_groups original base spans line [] = Some (concat (drop line original))"
| "rewrite_groups original base spans line (g # gs) =
     (let group_start = fst (spans ! rg_start_line g); group_end = snd (spans ! (rg_end_line g - 1))
      in Option.bind (apply_replacements (drop group_start (take group_end base)) (rg_replacements g) group_start) (\<lambda>replaced.
         map_option (\<lambda>rest. concat (drop line (take (rg_start_line g) original)) @ replaced @ rest)
           (rewrite_groups original base spans (rg_end_line g) gs)))"

definition replace_preserving_lines ::
    "string \<Rightarrow> string \<Rightarrow> matched_edit list \<Rightarrow> (string, edit_error) result option" where
  "replace_preserving_lines original base replacements =
     (let original_lines = split_inclusive original; spans = line_spans 0 (split_inclusive base)
      in if length original_lines \<noteq> length spans then Some (Err LineCountDiffers)
         else case try_fold (add_to_groups spans) [] replacements of
             Err e \<Rightarrow> Some (Err e)
           | Ok groups \<Rightarrow> map_option Ok (rewrite_groups original_lines base spans 0 groups))"

definition normalized_edits :: "edit_replacement list \<Rightarrow> edit_replacement list" where
  "normalized_edits edits =
     map (\<lambda>e. \<lparr>er_old_text = normalize_newlines (er_old_text e), er_new_text = normalize_newlines (er_new_text e)\<rparr>) edits"

definition uses_fuzzy :: "string \<Rightarrow> edit_replacement list \<Rightarrow> bool" where
  "uses_fuzzy content edits \<longleftrightarrow> list_ex (\<lambda>e. \<not> contains_str (er_old_text e) content) edits"

definition apply_edits ::
    "(string \<Rightarrow> string) \<Rightarrow> string \<Rightarrow> edit_replacement list \<Rightarrow> (string \<times> string, edit_error) result option" where
  "apply_edits nfkc content edits =
     (let edits = normalized_edits edits
      in case position (\<lambda>e. er_old_text e = []) edits of
           Some index \<Rightarrow> Some (Err (EmptyOldText index))
         | None \<Rightarrow>
             (let fuzzy = uses_fuzzy content edits;
                  base = (if fuzzy then normalize_fuzzy nfkc content else content);
                  target_of = (if fuzzy then normalize_fuzzy nfkc else (\<lambda>t. t))
              in case match_edits base target_of 0 edits of
                   Err e \<Rightarrow> Some (Err e)
                 | Ok matched \<Rightarrow>
                     (let matched = sort_key me_match_index matched
                      in case check_overlap matched of
                           Err e \<Rightarrow> Some (Err e)
                         | Ok _ \<Rightarrow>
                             Option.bind (if fuzzy then replace_preserving_lines content base matched
                                 else map_option Ok (apply_replacements base matched 0)) (\<lambda>r.
                             case r of
                               Err e \<Rightarrow> Some (Err e)
                             | Ok edited \<Rightarrow>
                                 if edited = content then Some (Err NoChange) else Some (Ok (content, edited))))))"

section \<open>edit.rs: the file\<close>

definition byte_order_mark :: string where
  "byte_order_mark = [CHR 0xEF, CHR 0xBB, CHR 0xBF]"

fun find_str :: "string \<Rightarrow> string \<Rightarrow> nat option" where
  "find_str p [] = (if p = [] then Some 0 else None)"
| "find_str p (c # s) = (if starts_with p (c # s) then Some 0 else map_option Suc (find_str p s))"

definition crlf_first :: "string \<Rightarrow> bool" where
  "crlf_first content \<longleftrightarrow>
     (case (find_str [carriage_return, newline] content, find_str [newline] content) of
        (Some crlf, Some lf) \<Rightarrow> crlf < lf
      | _ \<Rightarrow> False)"

definition to_crlf :: "string \<Rightarrow> string" where
  "to_crlf s = concat (map (\<lambda>c. if c = newline then [carriage_return, newline] else [c]) s)"

text \<open>The text written back for the decoded text of a file.\<close>

definition edit_text ::
    "(string \<Rightarrow> string) \<Rightarrow> edit_replacement list \<Rightarrow> string \<Rightarrow> (string, edit_error) result option" where
  "edit_text nfkc edits raw =
     (let (bom, content) = (case strip_prefix byte_order_mark raw of None \<Rightarrow> ([], raw) | Some c \<Rightarrow> (byte_order_mark, c))
      in map_option (\<lambda>r. and_then r (\<lambda>(base, edited).
           Ok (bom @ (if crlf_first content then to_crlf edited else edited))))
         (apply_edits nfkc (normalize_newlines content) edits))"

end
