(* ===== verification/Edit_Props.thy ===== *)
theory Edit_Props
  imports Edit_Tool "HOL-Library.Multiset"
begin

text \<open>
  What the edit tool does to a text: the proofs about UTF-8 boundaries, disjoint replacement ranges
  and line groups, and the properties of exact and fuzzy edits.
\<close>

section \<open>Boundaries of UTF-8 texts\<close>

text \<open>The first character of a text and what follows it.\<close>

lemma utf8_step:
  assumes "is_utf8 s" "s \<noteq> []"
  obtains c r where "s = c @ r" "c \<noteq> []" "\<not> continuation_byte (hd c)" "list_all continuation_byte (tl c)" "is_utf8 r"
    "\<forall>t. is_utf8 (c @ t) \<longrightarrow> is_utf8 t"
proof -
  obtain a r where s: "s = a # r" using assms(2) by (cases s) auto
  have tail: "continuation_byte b" if "cont b" for b using that by (simp add: continuation_byte_def cont_def)
  show ?thesis
  proof (cases "byte a < 128")
    case True
    show ?thesis
      by (rule that [of "[a]" r]) (use True assms(1) in \<open>simp_all add: s is_utf8.simps(2) continuation_byte_def\<close>)
  next
    case big: False
    show ?thesis
    proof (cases "utf8_two (byte a)")
      case True
      with big assms(1) obtain b r' where r: "r = b # r'" "cont b" "is_utf8 r'"
        by (cases r) (simp_all add: s is_utf8.simps(2))
      show ?thesis
        by (rule that [of "[a, b]" r'])
          (use big True r tail in \<open>simp_all add: s is_utf8.simps(2) continuation_byte_def [of a] utf8_two_def\<close>)
    next
      case no2: False
      with big assms(1) obtain b c r' where r: "r = b # c # r'"
        by (cases r rule: remdups_adj.cases) (simp_all add: s is_utf8.simps(2))
      show ?thesis
      proof (cases "utf8_three (byte a) (byte b)")
        case True
        with big no2 assms(1) r have r': "cont c" "is_utf8 r'" by (simp_all add: s is_utf8.simps(2))
        have "continuation_byte b" "\<not> continuation_byte a"
          using True by (auto simp: utf8_three_def continuation_byte_def)
        then show ?thesis
          by (intro that [of "[a, b, c]" r'])
            (use big no2 True r r' tail in \<open>simp_all add: s is_utf8.simps(2)\<close>)
      next
        case no3: False
        with big no2 assms(1) r obtain d r'' where r': "r' = d # r''" "utf8_four (byte a) (byte b)" "cont c" "cont d" "is_utf8 r''"
          by (cases r') (simp_all add: s is_utf8.simps(2) split: if_splits)
        have "continuation_byte b" "\<not> continuation_byte a"
          using r'(2) by (auto simp: utf8_four_def continuation_byte_def)
        then show ?thesis
          by (intro that [of "[a, b, c, d]" r''])
            (use big no2 no3 r r' tail in \<open>simp_all add: s is_utf8.simps(2)\<close>)
      qed
    qed
  qed
qed

lemma utf8_head: "is_utf8 (a # s) \<Longrightarrow> \<not> continuation_byte a"
  by (erule utf8_step, simp) (metis append_is_Nil_conv hd_append2 list.sel(1))

lemma utf8_drop:
  assumes "is_utf8 (a @ r)" "r = [] \<or> \<not> continuation_byte (hd r)"
  shows "is_utf8 r"
  using assms
proof (induction "length a" arbitrary: a rule: less_induct)
  case less
  show ?case
  proof (cases "a = [] \<or> r = []")
    case False
    then have "a @ r \<noteq> []" by simp
    with less.prems(1) obtain c u where c: "a @ r = c @ u" "c \<noteq> []" "list_all continuation_byte (tl c)" "is_utf8 u"
      by (rule utf8_step)
    from c(1) consider x where "a = c @ x" "u = x @ r" | x where "c = a @ x" "r = x @ u"
      by (auto simp: append_eq_append_conv2)
    then show ?thesis
    proof cases
      case 1
      then show ?thesis using less.hyps [of x] c(2,4) less.prems(2) by simp
    next
      case 2
      show ?thesis
      proof (cases x)
        case Nil
        with 2 c(4) show ?thesis by simp
      next
        case (Cons y z)
        then have "continuation_byte y" using 2 c(3) False by (simp add: list_all_iff)
        with 2 Cons less.prems(2) False show ?thesis by simp
      qed
    qed
  qed (use less.prems in auto)
qed

lemma utf8_prefix_iff:
  assumes "is_utf8 t"
  shows "is_utf8 (t @ b) \<longleftrightarrow> is_utf8 b"
  using assms
proof (induction "length t" arbitrary: t rule: less_induct)
  case less
  show ?case
  proof (cases "t = []")
    case False
    with less.prems obtain c u where c: "t = c @ u" "c \<noteq> []" "is_utf8 u" "\<forall>v. is_utf8 (c @ v) \<longrightarrow> is_utf8 v"
      by (rule utf8_step)
    then have "is_utf8 (t @ b) \<Longrightarrow> is_utf8 (u @ b)" by simp
    moreover have "is_utf8 (u @ b) \<longleftrightarrow> is_utf8 b" using less.hyps [of u] c(1,2,3) by simp
    ultimately show ?thesis using less.prems is_utf8_append by blast
  qed simp
qed

text \<open>A text found in another lies between two boundaries of it.\<close>

lemma match_boundaries:
  assumes "is_utf8 (a @ t @ b)" "is_utf8 t" "t \<noteq> []"
  shows "is_char_boundary (a @ t @ b) (length a)" "is_char_boundary (a @ t @ b) (length a + length t)"
proof -
  obtain c t' where t: "t = c # t'" using assms(3) by (cases t) auto
  have head: "\<not> continuation_byte c" using utf8_head assms(2) t by blast
  then show "is_char_boundary (a @ t @ b) (length a)" by (simp add: is_char_boundary_def t)
  have "is_utf8 (t @ b)" using utf8_drop [OF assms(1)] head t by simp
  then have "is_utf8 b" using utf8_prefix_iff [OF assms(2)] by simp
  then have "b = [] \<or> \<not> continuation_byte (hd b)" using utf8_head by (cases b) auto
  then show "is_char_boundary (a @ t @ b) (length a + length t)"
    by (cases b) (auto simp: is_char_boundary_def nth_append)
qed

section \<open>Occurrences\<close>

lemma matches_from_sound:
  assumes "j \<in> set (matches_from p i s)"
  shows "\<exists>a b. s = a @ p @ b \<and> j = i + length a"
  using assms
proof (induction p i s rule: matches_from.induct)
  case (1 p i s)
  have step: "s \<noteq> []" "p \<noteq> []" using "1.prems" by (auto simp: matches_from.simps [of p i s] split: if_splits)
  show ?case
  proof (cases "starts_with p s")
    case True
    then obtain b where b: "s = p @ b" by (auto simp: starts_with_iff)
    show ?thesis
    proof (cases "j = i")
      case False
      with "1.prems" step True have "j \<in> set (matches_from p (i + length p) (drop (length p) s))"
        by (simp add: matches_from.simps [of p i s])
      with "1.IH"(1) step True obtain a' b' where "drop (length p) s = a' @ p @ b'" "j = i + length p + length a'" by auto
      with b show ?thesis by (intro exI [of _ "p @ a'"] exI [of _ b']) simp
    qed (use b in \<open>auto intro: exI [of _ "[]"]\<close>)
  next
    case False
    with "1.prems" step have "j \<in> set (matches_from p (i + 1) (tl s))" by (simp add: matches_from.simps [of p i s])
    with "1.IH"(2) step False obtain a' b' where "tl s = a' @ p @ b'" "j = i + 1 + length a'" by auto
    with step(1) show ?thesis by (intro exI [of _ "hd s # a'"] exI [of _ b']) (cases s; simp)
  qed
qed

lemma match_indices_sound:
  assumes "j \<in> set (match_indices p s)" "p \<noteq> []"
  shows "\<exists>a b. s = a @ p @ b \<and> j = length a"
  using matches_from_sound [of j p 0 s] assms by (auto simp: match_indices_def)

section \<open>Replacing disjoint ranges\<close>

text \<open>A text with the ranges of some matches replaced, from a position on.\<close>

fun spliced :: "nat \<Rightarrow> matched_edit list \<Rightarrow> string \<Rightarrow> string" where
  "spliced pos [] s = drop pos s"
| "spliced pos (m # ms) s =
     drop pos (take (me_match_index m) s) @ me_new_text m @ spliced (me_match_index m + me_match_length m) ms s"

fun disjoint_from :: "nat \<Rightarrow> matched_edit list \<Rightarrow> bool" where
  "disjoint_from pos [] \<longleftrightarrow> True"
| "disjoint_from pos (m # ms) \<longleftrightarrow> pos \<le> me_match_index m \<and> disjoint_from (me_match_index m + me_match_length m) ms"

text \<open>The end of the last range, or the position where there is none.\<close>

fun ranges_end :: "nat \<Rightarrow> matched_edit list \<Rightarrow> nat" where
  "ranges_end pos [] = pos"
| "ranges_end pos (m # ms) = ranges_end (me_match_index m + me_match_length m) ms"

lemma ranges_end_mono: "disjoint_from pos ms \<Longrightarrow> pos \<le> ranges_end pos ms"
proof (induction ms arbitrary: pos)
  case (Cons m ms)
  then have "pos \<le> me_match_index m + me_match_length m" by simp
  also have "\<dots> \<le> ranges_end pos (m # ms)" using Cons by simp
  finally show ?case .
qed simp

lemma disjoint_from_append:
  "disjoint_from pos (ms @ ms') \<longleftrightarrow> disjoint_from pos ms \<and> disjoint_from (ranges_end pos ms) ms'"
  by (induction ms arbitrary: pos) auto

lemma ranges_end_append [simp]: "ranges_end pos (ms @ ms') = ranges_end (ranges_end pos ms) ms'"
  by (induction ms arbitrary: pos) auto

text \<open>What lies behind the ranges can be changed before or after they are replaced.\<close>

lemma spliced_behind:
  assumes "disjoint_from pos ms" "ranges_end pos ms \<le> n" "n \<le> length s"
  shows "spliced pos ms (take n s @ t) = spliced pos ms (take n s) @ t"
  using assms
proof (induction ms arbitrary: pos)
  case (Cons m ms)
  have "me_match_index m \<le> n" using Cons.prems ranges_end_mono [of "me_match_index m + me_match_length m" ms] by simp
  with Cons show ?case by (simp add: min_absorb1)
qed simp

lemma spliced_snoc:
  assumes "disjoint_from pos (ms @ [m])" "me_match_index m \<le> length s"
  shows "spliced pos (ms @ [m]) s =
    spliced pos ms (take (me_match_index m) s) @ me_new_text m @ drop (me_match_index m + me_match_length m) s"
  using assms
proof (induction ms arbitrary: pos)
  case (Cons x ms)
  have "me_match_index x \<le> me_match_index m"
    using Cons.prems(1) ranges_end_mono [of "me_match_index x + me_match_length x" ms] by (simp add: disjoint_from_append)
  with Cons show ?case by (simp add: min_absorb1)
qed simp

text \<open>A boundary in front of a replaced range stays one.\<close>

lemma boundary_le: "is_char_boundary s p \<Longrightarrow> p \<le> length s"
  by (auto simp: is_char_boundary_def)

lemma boundary_before_replacement:
  assumes "p \<le> i" "is_char_boundary s p" "is_char_boundary s i" "is_char_boundary s (i + l)"
    and "t = [] \<or> \<not> continuation_byte (hd t)"
  shows "is_char_boundary (take i s @ t @ drop (i + l) s) p"
proof (cases "p < i")
  case True
  then have "p < length s" using boundary_le [OF assms(3)] by simp
  with True assms(2) show ?thesis by (auto simp: is_char_boundary_def nth_append min_def)
next
  case False
  with assms(1) have p: "p = i" by simp
  have i: "i \<le> length s" "i + l \<le> length s" using boundary_le assms(3,4) by blast+
  show ?thesis
  proof (cases t)
    case (Cons c t')
    then have "i < length (take i s @ t @ drop (i + l) s)" using i by simp
    with Cons assms(5) i p show ?thesis by (simp add: is_char_boundary_def nth_append)
  next
    case Nil
    show ?thesis
    proof (cases "i + l = length s")
      case True
      with Nil i p show ?thesis by (simp add: is_char_boundary_def)
    next
      case False
      with assms(4) i have "i = 0 \<or> \<not> continuation_byte (s ! (i + l))" by (auto simp: is_char_boundary_def)
      with Nil i p False show ?thesis by (auto simp: is_char_boundary_def nth_append)
    qed
  qed
qed

abbreviation replaceable :: "string \<Rightarrow> matched_edit \<Rightarrow> bool" where
  "replaceable s m \<equiv> is_char_boundary s (me_match_index m) \<and> is_char_boundary s (me_match_index m + me_match_length m) \<and>
     (me_new_text m = [] \<or> \<not> continuation_byte (hd (me_new_text m)))"

lemma disjoint_before:
  "disjoint_from pos (ms @ [m]) \<Longrightarrow> x \<in> set ms \<Longrightarrow> me_match_index x + me_match_length x \<le> me_match_index m"
proof (induction ms arbitrary: pos)
  case (Cons y ms)
  then show ?case
    using ranges_end_mono [of "me_match_index y + me_match_length y" ms] by (auto simp: disjoint_from_append)
qed simp

lemma apply_reversed_spliced:
  assumes "disjoint_from 0 ms" "list_all (replaceable s) ms"
  shows "apply_reversed 0 (rev ms) s = Some (spliced 0 ms s)"
  using assms
proof (induction ms arbitrary: s rule: rev_induct)
  case (snoc m ms)
  let ?i = "me_match_index m" and ?l = "me_match_length m"
  let ?s = "take ?i s @ me_new_text m @ drop (?i + ?l) s"
  have m: "replaceable s m" using snoc.prems(2) by simp
  have dis: "disjoint_from 0 ms" "ranges_end 0 ms \<le> ?i" using snoc.prems(1) by (simp_all add: disjoint_from_append)
  have "list_all (replaceable ?s) ms"
    unfolding list_all_iff
  proof
    fix x
    assume x: "x \<in> set ms"
    have le: "me_match_index x + me_match_length x \<le> ?i" using disjoint_before [OF snoc.prems(1) x] .
    have "replaceable s x" using snoc.prems(2) x by (simp add: list_all_iff)
    with m le show "replaceable ?s x"
      using boundary_before_replacement [of "me_match_index x" ?i s ?l "me_new_text m"]
        boundary_before_replacement [of "me_match_index x + me_match_length x" ?i s ?l "me_new_text m"] by simp
  qed
  with snoc.IH dis(1) have "apply_reversed 0 (rev ms) ?s = Some (spliced 0 ms ?s)" by blast
  moreover have "spliced 0 ms ?s = spliced 0 (ms @ [m]) s"
    using spliced_behind [OF dis, of s "me_new_text m @ drop (?i + ?l) s"] spliced_snoc [OF snoc.prems(1)] m boundary_le by simp
  moreover have "replace_range ?i (?i + ?l) (me_new_text m) s = Some ?s" using m by (simp add: replace_range_def)
  ultimately show ?case by simp
qed simp

text \<open>Two texts that agree between the replaced ranges.\<close>

fun weave :: "string list \<Rightarrow> string list \<Rightarrow> string" where
  "weave (g # gs) (t # ts) = g @ t @ weave gs ts"
| "weave gs [] = concat gs"
| "weave [] ts = concat ts"

abbreviation range_text :: "string \<Rightarrow> matched_edit \<Rightarrow> string" where
  "range_text s m \<equiv> take (me_match_length m) (drop (me_match_index m) s)"

lemma spliced_weave:
  assumes "disjoint_from pos ms"
  shows "\<exists>gaps. length gaps = Suc (length ms) \<and> drop pos s = weave gaps (map (range_text s) ms) \<and>
    spliced pos ms s = weave gaps (map me_new_text ms)"
  using assms
proof (induction ms arbitrary: pos)
  case (Cons m ms)
  let ?i = "me_match_index m" and ?l = "me_match_length m"
  from Cons obtain gaps where gaps: "length gaps = Suc (length ms)" "drop (?i + ?l) s = weave gaps (map (range_text s) ms)"
    "spliced (?i + ?l) ms s = weave gaps (map me_new_text ms)" by auto
  have "drop pos s = drop pos (take ?i s) @ drop ?i s"
    using Cons.prems by (metis append_take_drop_id drop_append disjoint_from.simps(2) diff_is_0_eq drop_0 drop_take length_drop drop_drop le_add_diff_inverse2 take_drop)
  also have "drop ?i s = range_text s m @ drop (?i + ?l) s"
    by (metis append_take_drop_id drop_drop add.commute)
  finally show ?case using gaps by (intro exI [of _ "drop pos (take ?i s) # gaps"]) simp
next
  case Nil
  show ?case by (rule exI [of _ "[drop pos s]"]) simp
qed

section \<open>Exact edits\<close>

lemma check_overlap_disjoint:
  "check_overlap ms = Ok () \<Longrightarrow> ms = [] \<or> pos \<le> me_match_index (hd ms) \<Longrightarrow> disjoint_from pos ms"
proof (induction ms arbitrary: pos rule: check_overlap.induct)
  case (1 previous current rest)
  then show ?case by (auto split: if_splits)
qed simp_all

lemma match_edit_Ok:
  assumes "match_edit base target_of index e = Ok m" "target_of (er_old_text e) \<noteq> []"
  shows "\<exists>a b. base = a @ target_of (er_old_text e) @ b \<and> me_match_index m = length a \<and>
    me_match_length m = length (target_of (er_old_text e)) \<and> me_new_text m = er_new_text e"
proof -
  from assms(1) obtain i where i: "match_indices (target_of (er_old_text e)) base = [i]"
    and m: "m = \<lparr>me_edit_index = index, me_match_index = i, me_match_length = length (target_of (er_old_text e)),
      me_new_text = er_new_text e\<rparr>"
    by (auto simp: match_edit_def Let_def split: list.splits)
  from match_indices_sound [of i "target_of (er_old_text e)" base] i assms(2)
  obtain a b where "base = a @ target_of (er_old_text e) @ b" "i = length a" by auto
  with m show ?thesis by auto
qed

lemma match_edits_Ok:
  assumes "match_edits base target_of index edits = Ok ms"
  shows "list_all2 (\<lambda>e m. \<exists>index. match_edit base target_of index e = Ok m) edits ms"
  using assms
proof (induction edits arbitrary: index ms)
  case (Cons e edits)
  then show ?case by (auto simp: and_then_Ok_iff)
qed simp

lemma matched_spec:
  assumes utf8: "is_utf8 base" "list_all (\<lambda>e. target_of (er_old_text e) \<noteq> [] \<and> is_utf8 (target_of (er_old_text e)) \<and>
      is_utf8 (er_new_text e)) edits"
    and matched: "match_edits base target_of 0 edits = Ok ms"
    and overlap: "check_overlap (sort_key me_match_index ms) = Ok ()"
  defines "ms' \<equiv> sort_key me_match_index ms"
  shows "list_all (replaceable base) ms'" "disjoint_from 0 ms'" "list_all (\<lambda>m. 0 < me_match_length m) ms'"
    "mset (map (\<lambda>m. (range_text base m, me_new_text m)) ms') = mset (map (\<lambda>e. (target_of (er_old_text e), er_new_text e)) edits)"
proof -
  note all2 = match_edits_Ok [OF matched]
  have one: "replaceable base m \<and> 0 < me_match_length m \<and> range_text base m = target_of (er_old_text e) \<and>
      me_new_text m = er_new_text e" if "(e, m) \<in> set (zip edits ms)" for e m
  proof -
    let ?t = "target_of (er_old_text e)"
    have e: "?t \<noteq> []" "is_utf8 ?t" "is_utf8 (er_new_text e)"
      using utf8(2) set_zip_leftD [OF that] by (auto simp: list_all_iff)
    from all2 that obtain index where "match_edit base target_of index e = Ok m" by (auto simp: list_all2_iff)
    from match_edit_Ok [OF this e(1)] obtain a b where ab: "base = a @ ?t @ b"
      "me_match_index m = length a" "me_match_length m = length ?t" "me_new_text m = er_new_text e" by auto
    have "me_new_text m = [] \<or> \<not> continuation_byte (hd (me_new_text m))"
      using ab(4) e(3) utf8_head by (cases "er_new_text e") auto
    with ab match_boundaries [of a ?t b] utf8(1) e show ?thesis by simp
  qed
  have len: "length edits = length ms" using all2 by (simp add: list_all2_lengthD)
  have "list_all (\<lambda>m. replaceable base m \<and> 0 < me_match_length m) ms"
    unfolding list_all_iff by (metis one len in_set_impl_in_set_zip2)
  then show "list_all (replaceable base) ms'" "list_all (\<lambda>m. 0 < me_match_length m) ms'"
    by (auto simp: ms'_def list_all_iff)
  show "disjoint_from 0 ms'" using check_overlap_disjoint [OF overlap] by (simp add: ms'_def)
  have "map (\<lambda>m. (range_text base m, me_new_text m)) ms = map (\<lambda>e. (target_of (er_old_text e), er_new_text e)) edits"
    by (rule nth_equalityI) (use len one in \<open>auto simp: set_zip\<close>)
  then show "mset (map (\<lambda>m. (range_text base m, me_new_text m)) ms') = mset (map (\<lambda>e. (target_of (er_old_text e), er_new_text e)) edits)"
    by (simp only: mset_map ms'_def mset_sort) (simp only: mset_map [symmetric])
qed

text \<open>A text cut into gaps and the ranges of matches, and the text with the ranges replaced.\<close>

definition exact_edit :: "string \<Rightarrow> matched_edit list \<Rightarrow> string \<Rightarrow> bool" where
  "exact_edit base ms edited \<longleftrightarrow>
     (\<exists>gaps. length gaps = Suc (length ms) \<and> base = weave gaps (map (range_text base) ms) \<and>
        edited = weave gaps (map me_new_text ms))"

lemma exact_edit_spliced: "disjoint_from 0 ms \<Longrightarrow> exact_edit base ms (spliced 0 ms base)"
  using spliced_weave [of 0 ms base] by (auto simp: exact_edit_def)

abbreviation edit_pairs :: "string \<Rightarrow> matched_edit list \<Rightarrow> (string \<times> string) list" where
  "edit_pairs base ms \<equiv> map (\<lambda>m. (range_text base m, me_new_text m)) ms"

lemma position_None: "position P xs = None \<longleftrightarrow> list_all (\<lambda>x. \<not> P x) xs"
  by (induction xs) auto

lemma position_Some: "position P xs = Some i \<longleftrightarrow> i < length xs \<and> P (xs ! i) \<and> (\<forall>j<i. \<not> P (xs ! j))"
proof (induction xs arbitrary: i)
  case (Cons x xs)
  then show ?case by (cases i) (auto simp: nth_Cons split: nat.splits)
qed simp

section \<open>Lines and their spans\<close>

lemma join_terminated: "join_with [c] (xs @ [x]) = concat (map (\<lambda>l. l @ [c]) xs) @ x"
proof (induction xs)
  case (Cons y xs)
  then show ?case by (simp add: join_with_Cons)
qed simp

lemma concat_split_inclusive [simp]: "concat (split_inclusive s) = s"
proof -
  let ?ps = "split_on newline s"
  have "s = join_with [newline] (butlast ?ps @ [last ?ps])" by (simp add: join_split)
  also have "\<dots> = concat (map (\<lambda>l. l @ [newline]) (butlast ?ps)) @ last ?ps"
    by (rule join_terminated)
  finally have "concat (map (\<lambda>l. l @ [newline]) (butlast ?ps)) @ last ?ps = s" by (rule sym)
  then show ?thesis by (cases "last ?ps = []") (simp_all add: split_inclusive_def Let_def)
qed

lemma length_line_spans [simp]: "length (line_spans offset ls) = length ls"
  by (induction ls arbitrary: offset) auto

text \<open>The start of a line is the length of the lines in front of it.\<close>

definition line_start :: "string list \<Rightarrow> nat \<Rightarrow> nat" where
  "line_start ls j = length (concat (take j ls))"

lemma line_spans_nth: "j < length ls \<Longrightarrow> line_spans offset ls ! j = (offset + line_start ls j, offset + line_start ls (Suc j))"
proof (induction ls arbitrary: offset j)
  case (Cons l ls)
  then show ?case by (cases j) (auto simp: line_start_def)
qed simp

lemma line_start_mono: "i \<le> j \<Longrightarrow> line_start ls i \<le> line_start ls j"
  unfolding line_start_def by (metis concat_append le_add1 length_append take_add le_add_diff_inverse)

lemma line_start_all [simp]: "line_start ls (length ls) = length (concat ls)"
  by (simp add: line_start_def)

lemma take_line_start: "take (line_start ls j) (concat ls) = concat (take j ls)"
  by (metis append_eq_conv_conj append_take_drop_id concat_append line_start_def)

lemma drop_line_start: "drop (line_start ls j) (concat ls) = concat (drop j ls)"
  by (metis append_eq_conv_conj append_take_drop_id concat_append line_start_def)

lemma lines_between: "i \<le> j \<Longrightarrow> drop (line_start ls i) (take (line_start ls j) (concat ls)) = concat (drop i (take j ls))"
proof -
  assume "i \<le> j"
  then have "line_start ls i = line_start (take j ls) i" by (simp add: line_start_def min_absorb1)
  then show ?thesis by (simp add: take_line_start drop_line_start)
qed

section \<open>Windows of a spliced text\<close>

lemma spliced_skip:
  assumes "pos \<le> n" "ms = [] \<or> n \<le> me_match_index (hd ms)"
  shows "spliced pos ms s = drop pos (take n s) @ spliced n ms s"
proof -
  have cut: "drop pos t = drop pos (take n t) @ drop n t" for t :: string
    using assms(1) by (metis append_take_drop_id drop_append drop_take diff_is_0_eq length_drop drop_drop take_drop le_add_diff_inverse2)
  show ?thesis
  proof (cases ms)
    case (Cons m ms')
    then have "n \<le> me_match_index m" using assms(2) by simp
    then have "take n (take (me_match_index m) s) = take n s" by (simp add: min_absorb1)
    then show ?thesis using cut [of "take (me_match_index m) s"] Cons by simp
  qed (use cut [of s] in simp)
qed

lemma spliced_append:
  assumes "disjoint_from pos ms" "ranges_end pos ms \<le> n" "ms' = [] \<or> n \<le> me_match_index (hd ms')"
  shows "spliced pos (ms @ ms') s = spliced pos ms (take n s) @ spliced n ms' s"
  using assms
proof (induction ms arbitrary: pos)
  case Nil
  then show ?case using spliced_skip [of pos n ms' s] by simp
next
  case (Cons m ms)
  then have "me_match_index m \<le> n" using ranges_end_mono [of "me_match_index m + me_match_length m" ms] by simp
  with Cons show ?case by (simp add: min_absorb1)
qed

definition shift :: "nat \<Rightarrow> matched_edit \<Rightarrow> matched_edit" where
  "shift n m = m\<lparr>me_match_index := me_match_index m - n\<rparr>"

lemma apply_reversed_shift: "apply_reversed n ms s = apply_reversed 0 (map (shift n) ms) s"
proof (induction ms arbitrary: s)
  case (Cons m ms)
  then have "apply_reversed n ms = apply_reversed 0 (map (shift n) ms)" by blast
  then show ?case by (simp add: Let_def shift_def [of n m])
qed simp

lemma spliced_shift: "disjoint_from pos ms \<Longrightarrow> n \<le> pos \<Longrightarrow> spliced pos ms s = spliced (pos - n) (map (shift n) ms) (drop n s)"
proof (induction ms arbitrary: pos)
  case (Cons m ms)
  then have "me_match_index m - n + me_match_length m = me_match_index m + me_match_length m - n" by simp
  moreover have "drop pos (take (me_match_index m) s) = drop (pos - n) (take (me_match_index m - n) (drop n s))"
    using Cons.prems by (simp add: take_drop)
  ultimately show ?case using Cons by (simp add: shift_def)
qed simp

lemma disjoint_shift: "disjoint_from pos ms \<Longrightarrow> n \<le> pos \<Longrightarrow> disjoint_from (pos - n) (map (shift n) ms)"
proof (induction ms arbitrary: pos)
  case (Cons m ms)
  then have "me_match_index m - n + me_match_length m = me_match_index m + me_match_length m - n" by simp
  with Cons show ?case by (simp add: shift_def diff_le_mono)
qed simp

lemma boundary_window:
  assumes "is_char_boundary s p" "a \<le> p" "p \<le> b" "b \<le> length s"
  shows "is_char_boundary (drop a (take b s)) (p - a)"
proof (cases "p = a \<or> p = b")
  case True
  with assms show ?thesis by (auto simp: is_char_boundary_def min_absorb2)
next
  case False
  with assms show ?thesis by (auto simp: is_char_boundary_def min_absorb2)
qed

section \<open>Groups of lines\<close>

abbreviation range_end :: "matched_edit \<Rightarrow> nat" where
  "range_end m \<equiv> me_match_index m + me_match_length m"

text \<open>A line is touched when a match covers a byte of it.\<close>

definition touched :: "string list \<Rightarrow> matched_edit list \<Rightarrow> nat \<Rightarrow> bool" where
  "touched lines ms j \<longleftrightarrow> (\<exists>m\<in>set ms. line_start lines j < range_end m \<and> me_match_index m < line_start lines (Suc j))"

text \<open>The groups stand in order, hold touched lines only and the matches that lie in them.\<close>

fun groups_from :: "string list \<Rightarrow> nat \<Rightarrow> replacement_group list \<Rightarrow> bool" where
  "groups_from lines line [] \<longleftrightarrow> line \<le> length lines"
| "groups_from lines line (g # gs) \<longleftrightarrow>
     line \<le> rg_start_line g \<and> rg_start_line g < rg_end_line g \<and> rg_replacements g \<noteq> [] \<and>
     disjoint_from (line_start lines (rg_start_line g)) (rg_replacements g) \<and>
     ranges_end 0 (rg_replacements g) \<le> line_start lines (rg_end_line g) \<and>
     (\<forall>j. rg_start_line g \<le> j \<and> j < rg_end_line g \<longrightarrow> touched lines (rg_replacements g) j) \<and>
     groups_from lines (rg_end_line g) gs"

definition groups_end :: "nat \<Rightarrow> replacement_group list \<Rightarrow> nat" where
  "groups_end line gs = (if gs = [] then line else rg_end_line (last gs))"

lemma groups_from_le: "groups_from lines line gs \<Longrightarrow> line \<le> length lines"
proof (induction gs arbitrary: line)
  case (Cons g gs)
  then have "rg_end_line g \<le> length lines" by simp
  with Cons.prems show ?case by simp
qed simp

lemma groups_from_append:
  "groups_from lines line (gs @ gs') \<longleftrightarrow>
    groups_from lines line gs \<and> groups_from lines (groups_end line gs) gs'"
proof (induction gs arbitrary: line)
  case Nil
  then show ?case using groups_from_le by (auto simp: groups_end_def)
qed (auto simp: groups_end_def)

lemma touched_mono: "touched lines ms j \<Longrightarrow> set ms \<subseteq> set ms' \<Longrightarrow> touched lines ms' j"
  by (auto simp: touched_def)

lemma ranges_end_start: "ms \<noteq> [] \<Longrightarrow> ranges_end pos ms = ranges_end pos' ms"
  by (cases ms) auto

text \<open>The lines a match covers.\<close>

lemma match_lines:
  assumes "position (\<lambda>(start, stop). start \<le> me_match_index r \<and> me_match_index r < stop) (line_spans 0 lines) = Some i"
    and "k = end_line_from (line_spans 0 lines) (range_end r) i" "k < length lines" "0 < me_match_length r"
  shows "i \<le> k" "line_start lines i \<le> me_match_index r" "range_end r \<le> line_start lines (Suc k)"
    "\<forall>j. i \<le> j \<and> j \<le> k \<longrightarrow> touched lines [r] j"
proof -
  from assms(1) have i: "i < length lines" "line_start lines i \<le> me_match_index r" "me_match_index r < line_start lines (Suc i)"
    by (auto simp: position_Some line_spans_nth)
  let ?P = "\<lambda>l. snd l < range_end r" and ?ls = "drop i (line_spans 0 lines)"
  show ik: "i \<le> k" by (simp add: assms(2) end_line_from_def)
  show "line_start lines i \<le> me_match_index r" by (rule i(2))
  have k: "k - i = length (takeWhile ?P ?ls)" by (simp add: assms(2) end_line_from_def)
  have "k - i < length ?ls" using ik assms(3) by simp
  then have "\<not> ?P (?ls ! (k - i))" unfolding k by (rule nth_length_takeWhile)
  then show "range_end r \<le> line_start lines (Suc k)" using ik assms(3) by (simp add: line_spans_nth)
  have before: "line_start lines (Suc j) < range_end r" if "i \<le> j" "j < k" for j
  proof -
    have "j - i < length (takeWhile ?P ?ls)" using that k by simp
    then have "takeWhile ?P ?ls ! (j - i) \<in> set (takeWhile ?P ?ls)" by (rule nth_mem)
    then have "?P (takeWhile ?P ?ls ! (j - i))" by (auto dest: set_takeWhileD)
    moreover have "takeWhile ?P ?ls ! (j - i) = ?ls ! (j - i)"
      using \<open>j - i < length (takeWhile ?P ?ls)\<close> by (rule takeWhile_nth)
    ultimately show ?thesis using that assms(3) by (simp add: line_spans_nth)
  qed
  show "\<forall>j. i \<le> j \<and> j \<le> k \<longrightarrow> touched lines [r] j"
  proof (intro allI impI)
    fix j
    assume j: "i \<le> j \<and> j \<le> k"
    have "line_start lines j < range_end r"
    proof (cases "j = i")
      case True
      then show ?thesis using i(2) assms(4) by simp
    next
      case False
      with j obtain j' where "j = Suc j'" "i \<le> j'" "j' < k" by (cases j) auto
      then show ?thesis using before by simp
    qed
    moreover have "me_match_index r < line_start lines (Suc j)"
      using i(3) line_start_mono [of "Suc i" "Suc j" lines] j by simp
    ultimately show "touched lines [r] j" by (simp add: touched_def)
  qed
qed

abbreviation group_matches :: "replacement_group list \<Rightarrow> matched_edit list" where
  "group_matches gs \<equiv> concat (map rg_replacements gs)"

lemma add_to_groups_Ok:
  assumes "groups_from lines 0 gs" "add_to_groups (line_spans 0 lines) gs r = Ok gs'" "0 < me_match_length r"
    and "ranges_end 0 (group_matches gs) \<le> me_match_index r"
  shows "groups_from lines 0 gs' \<and> group_matches gs' = group_matches gs @ [r]"
proof -
  from assms(2) obtain i where
    i: "position (\<lambda>(start, stop). start \<le> me_match_index r \<and> me_match_index r < stop) (line_spans 0 lines) = Some i"
    by (auto simp: add_to_groups_def Let_def split: option.splits)
  define k where "k = end_line_from (line_spans 0 lines) (range_end r) i"
  have k: "k < length lines"
    using assms(2) i by (auto simp: add_to_groups_def Let_def k_def split: if_splits)
  note m = match_lines [OF i k_def k assms(3)]
  show ?thesis
  proof (cases "gs \<noteq> [] \<and> i < rg_end_line (last gs)")
    case True
    then obtain gs0 g where gs: "gs = gs0 @ [g]" by (metis append_butlast_last_id)
    let ?g = "g\<lparr>rg_end_line := max (rg_end_line g) (Suc k), rg_replacements := rg_replacements g @ [r]\<rparr>"
    have gs': "gs' = gs0 @ [?g]" using assms(2) i k True gs by (simp add: add_to_groups_def Let_def k_def)
    have g: "groups_from lines 0 gs0" "groups_from lines (groups_end 0 gs0) [g]" using assms(1) gs by (simp_all add: groups_from_append)
    have reps: "rg_replacements g \<noteq> []" using g(2) by simp
    have "ranges_end pos (rg_replacements g) \<le> me_match_index r" for pos
      using assms(4) gs ranges_end_start [OF reps] by simp metis
    then have "disjoint_from (line_start lines (rg_start_line g)) (rg_replacements g @ [r])"
      using g(2) by (simp add: disjoint_from_append)
    moreover have "range_end r \<le> line_start lines (max (rg_end_line g) (Suc k))"
      using m(3) line_start_mono [of "Suc k" "max (rg_end_line g) (Suc k)" lines] by simp
    moreover have "touched lines (rg_replacements g @ [r]) j" if "rg_start_line g \<le> j" "j < max (rg_end_line g) (Suc k)" for j
    proof (cases "j < rg_end_line g")
      case True
      then have "touched lines (rg_replacements g) j" using g(2) that(1) by simp
      then show ?thesis by (rule touched_mono) auto
    next
      case False
      then have "touched lines [r] j" using m(4) that(2) True gs by simp
      then show ?thesis by (rule touched_mono) simp
    qed
    ultimately have "groups_from lines (groups_end 0 gs0) [?g]" using g(2) k by auto
    with g(1) gs gs' show ?thesis by (simp add: groups_from_append)
  next
    case False
    let ?g = "\<lparr>rg_start_line = i, rg_end_line = Suc k, rg_replacements = [r]\<rparr>"
    have gs': "gs' = gs @ [?g]" using assms(2) i k False by (auto simp: add_to_groups_def Let_def k_def)
    have "groups_end 0 gs \<le> i" using False by (auto simp: groups_end_def)
    then have "groups_from lines (groups_end 0 gs) [?g]" using m k by auto
    with assms(1) gs' show ?thesis by (simp add: groups_from_append)
  qed
qed

lemma groups_of_matches:
  assumes "try_fold (add_to_groups (line_spans 0 lines)) gs ms = Ok gs'" "groups_from lines 0 gs"
    and "disjoint_from 0 (group_matches gs @ ms)" "list_all (\<lambda>m. 0 < me_match_length m) ms"
  shows "groups_from lines 0 gs' \<and> group_matches gs' = group_matches gs @ ms"
  using assms
proof (induction ms arbitrary: gs)
  case (Cons m ms)
  from Cons.prems(1) obtain gs1 where gs1: "add_to_groups (line_spans 0 lines) gs m = Ok gs1"
    "try_fold (add_to_groups (line_spans 0 lines)) gs1 ms = Ok gs'" by (auto simp: and_then_Ok_iff)
  have "ranges_end 0 (group_matches gs) \<le> me_match_index m" using Cons.prems(3) by (simp add: disjoint_from_append)
  with add_to_groups_Ok [OF Cons.prems(2) gs1(1)] Cons.prems(4)
  have "groups_from lines 0 gs1" "group_matches gs1 = group_matches gs @ [m]" by simp_all
  with Cons.IH [OF gs1(2)] Cons.prems(3,4) show ?case by simp
qed simp

section \<open>Rewriting the groups\<close>

text \<open>A line of the result and of the exact edit of the normalized text: both rewritten, in a touched line,
  or each as it was.\<close>

definition line_kept :: "string list \<Rightarrow> string list \<Rightarrow> matched_edit list \<Rightarrow> nat \<times> string \<times> string \<Rightarrow> bool" where
  "line_kept olines blines ms = (\<lambda>(j, out, exact).
     out = exact \<and> touched blines ms j \<or> out = olines ! j \<and> exact = blines ! j)"

lemma groups_first_match:
  assumes "groups_from lines line gs"
  shows "group_matches gs = [] \<or> line_start lines line \<le> me_match_index (hd (group_matches gs))"
proof (cases gs)
  case (Cons g gs')
  then obtain m ms where m: "rg_replacements g = m # ms" using assms by (cases "rg_replacements g") auto
  have "line_start lines line \<le> line_start lines (rg_start_line g)" using assms Cons by (intro line_start_mono) simp
  also have "\<dots> \<le> me_match_index m" using assms Cons m by simp
  finally show ?thesis using Cons m by simp
qed simp

lemma line_kept_gap:
  assumes "line \<le> k" "k \<le> length blines" "length olines = length blines"
  shows "list_all (line_kept olines blines ms) (zip [line..<k] (zip (drop line (take k olines)) (drop line (take k blines))))"
  using assms by (auto simp: list_all_length line_kept_def)

lemma line_kept_group:
  assumes "\<forall>j. a \<le> j \<and> j < b \<longrightarrow> touched blines ms j" "list_all (\<lambda>p. fst p = snd p) ps"
  shows "list_all (line_kept olines blines ms) (zip [a..<b] ps)"
  unfolding list_all_iff
proof
  fix x
  assume "x \<in> set (zip [a..<b] ps)"
  then obtain j p where "x = (j, p)" "j \<in> set [a..<b]" "p \<in> set ps"
    by (metis set_zip_leftD set_zip_rightD surj_pair)
  with assms show "line_kept olines blines ms x" by (auto simp: line_kept_def list_all_iff)
qed

lemma disjoint_bounds:
  "disjoint_from pos ms \<Longrightarrow> m \<in> set ms \<Longrightarrow> pos \<le> me_match_index m \<and> range_end m \<le> ranges_end pos ms"
proof (induction ms arbitrary: pos)
  case (Cons x ms)
  show ?case
  proof (cases "m = x")
    case True
    then show ?thesis using Cons.prems(1) ranges_end_mono [of "range_end x" ms] by simp
  next
    case False
    then have "range_end x \<le> me_match_index m \<and> range_end m \<le> ranges_end (range_end x) ms" using Cons by simp
    then show ?thesis using Cons.prems(1) by simp
  qed
qed simp

lemma window_replaced:
  assumes "disjoint_from a ms" "ranges_end a ms \<le> b" "b \<le> length s" "list_all (replaceable s) ms"
  shows "apply_replacements (drop a (take b s)) ms a = Some (spliced a ms (take b s))"
proof -
  have "list_all (replaceable (drop a (take b s))) (map (shift a) ms)"
    unfolding list_all_iff
  proof
    fix m'
    assume "m' \<in> set (map (shift a) ms)"
    then obtain m where m: "m \<in> set ms" "m' = shift a m" by auto
    then have r: "replaceable s m" using assms(4) by (simp add: list_all_iff)
    have bounds: "a \<le> me_match_index m" "range_end m \<le> b" using disjoint_bounds [OF assms(1) m(1)] assms(2) by auto
    have "range_end m - a = me_match_index m - a + me_match_length m" using bounds by simp
    moreover have "is_char_boundary (drop a (take b s)) (me_match_index m - a)"
      by (rule boundary_window) (use r bounds assms(3) in auto)
    moreover have "is_char_boundary (drop a (take b s)) (range_end m - a)"
      by (rule boundary_window) (use r bounds assms(3) in auto)
    ultimately show "replaceable (drop a (take b s)) m'" using r unfolding m(2) shift_def by simp
  qed
  moreover have "disjoint_from 0 (map (shift a) ms)" using disjoint_shift [OF assms(1), of a] by simp
  ultimately have "apply_reversed 0 (rev (map (shift a) ms)) (drop a (take b s)) =
      Some (spliced 0 (map (shift a) ms) (drop a (take b s)))" by (intro apply_reversed_spliced)
  then show ?thesis
    using spliced_shift [OF assms(1), of a "take b s"] by (simp add: apply_replacements_def apply_reversed_shift [of a] rev_map)
qed

lemma zip_three:
  "length xs = length ps \<Longrightarrow> length ys = length qs \<Longrightarrow>
    zip (xs @ ys @ zs) (ps @ qs @ rs) = zip xs ps @ zip ys qs @ zip zs rs"
  by simp

lemma rewrite_groups_spec:
  assumes "groups_from blines line gs" "list_all (replaceable (concat blines)) (group_matches gs)"
    and "length olines = length blines" "set (group_matches gs) \<subseteq> set ms"
  shows "\<exists>ps. rewrite_groups olines (concat blines) (line_spans 0 blines) line gs = Some (concat (map fst ps)) \<and>
    concat (map snd ps) = spliced (line_start blines line) (group_matches gs) (concat blines) \<and>
    length ps = length blines - line \<and> list_all (line_kept olines blines ms) (zip [line..<length blines] ps)"
  using assms
proof (induction gs arbitrary: line)
  case Nil
  let ?ps = "zip (drop line olines) (drop line blines)"
  have "line \<le> length blines" using Nil.prems(1) by simp
  then have "list_all (line_kept olines blines ms) (zip [line..<length blines] ?ps)"
    using line_kept_gap [of line "length blines" blines olines ms] Nil.prems(3) by simp
  then show ?case using Nil.prems(3) by (intro exI [of _ ?ps]) (simp add: drop_line_start)
next
  case (Cons g gs)
  define a where "a = rg_start_line g"
  define b where "b = rg_end_line g"
  note g = Cons.prems(1) [unfolded groups_from.simps, folded a_def b_def]
  have ab: "line \<le> a" "a < b" "b \<le> length blines" using g groups_from_le by auto
  let ?base = "concat blines" and ?reps = "rg_replacements g"
  obtain ps where ps: "rewrite_groups olines ?base (line_spans 0 blines) b gs = Some (concat (map fst ps))"
    "concat (map snd ps) = spliced (line_start blines b) (group_matches gs) ?base"
    "length ps = length blines - b" "list_all (line_kept olines blines ms) (zip [b..<length blines] ps)"
    using Cons.IH [of b] g Cons.prems(2,3,4) by auto
  have ends: "ranges_end pos ?reps \<le> line_start blines b" for pos using g ranges_end_start [of ?reps pos 0] by simp
  have len: "line_start blines b \<le> length ?base" using line_start_mono [OF ab(3), of blines] by simp
  have rep: "apply_replacements (drop (line_start blines a) (take (line_start blines b) ?base)) ?reps (line_start blines a) =
      Some (spliced (line_start blines a) ?reps (take (line_start blines b) ?base))"
    by (rule window_replaced) (use g ends len Cons.prems(2) in auto)
  let ?new = "spliced (line_start blines a) ?reps (take (line_start blines b) ?base)"
  let ?gap = "zip (drop line (take a olines)) (drop line (take a blines))"
  let ?mid = "(?new, ?new) # replicate (b - a - 1) ([], [])"
  have spans: "fst (line_spans 0 blines ! a) = line_start blines a" "snd (line_spans 0 blines ! (b - 1)) = line_start blines b"
    using ab by (simp_all add: line_spans_nth)
  have lens: "length ?gap = a - line" "length ?mid = b - a" using ab Cons.prems(3) by simp_all
  have "rewrite_groups olines ?base (line_spans 0 blines) line (g # gs) = Some (concat (map fst (?gap @ ?mid @ ps)))"
    using rep ps(1) spans Cons.prems(3) by (simp add: a_def [symmetric] b_def [symmetric] Let_def)
  moreover have "concat (map snd (?gap @ ?mid @ ps)) = spliced (line_start blines line) (group_matches (g # gs)) ?base"
  proof -
    have "spliced (line_start blines line) (?reps @ group_matches gs) ?base =
        spliced (line_start blines line) ?reps (take (line_start blines b) ?base) @ spliced (line_start blines b) (group_matches gs) ?base"
    proof (rule spliced_append)
      show "disjoint_from (line_start blines line) ?reps"
        using g line_start_mono [OF ab(1), of blines] by (cases ?reps) auto
    qed (use ends groups_first_match g in auto)
    also have "spliced (line_start blines line) ?reps (take (line_start blines b) ?base) =
        drop (line_start blines line) (take (line_start blines a) (take (line_start blines b) ?base)) @ ?new"
      by (rule spliced_skip) (use g line_start_mono [OF ab(1), of blines] in \<open>cases ?reps; auto\<close>)+
    also have "take (line_start blines a) (take (line_start blines b) ?base) = take (line_start blines a) ?base"
      using line_start_mono [of a b blines] ab(2) by (simp add: min_absorb1)
    finally show ?thesis using ps(2) Cons.prems(3) by (simp add: lines_between [OF ab(1)])
  qed
  moreover have "list_all (line_kept olines blines ms) (zip [line..<length blines] (?gap @ ?mid @ ps))"
  proof -
    have upt: "[line..<length blines] = [line..<a] @ [a..<b] @ [b..<length blines]"
      using ab upt_add_eq_append [of line a "b - a"] upt_add_eq_append [of line b "length blines - b"] by simp
    have "zip [line..<length blines] (?gap @ ?mid @ ps) = zip [line..<a] ?gap @ zip [a..<b] ?mid @ zip [b..<length blines] ps"
      unfolding upt by (rule zip_three) (simp_all only: lens length_upt)
    moreover have "list_all (line_kept olines blines ms) (zip [a..<b] ?mid)"
      by (rule line_kept_group) (use g touched_mono [of blines ?reps _ ms] Cons.prems(4) in \<open>auto simp: list_all_iff\<close>)
    ultimately show ?thesis
      using ps(4) line_kept_gap [OF ab(1) _ Cons.prems(3), of ms] ab by (simp only: list_all_append)
  qed
  moreover have "length (?gap @ ?mid @ ps) = length blines - line" using lens ps(3) ab by simp
  ultimately show ?case by blast
qed

section \<open>Properties\<close>


lemma empty_target_not_unique: "base \<noteq> [] \<Longrightarrow> match_indices [] base \<noteq> [i]"
proof
  assume "base \<noteq> []" "match_indices [] base = [i]"
  moreover have "0 \<in> set (match_indices [] base)" "length base \<in> set (match_indices [] base)"
    by (auto simp: match_indices_def is_char_boundary_def)
  ultimately show False by simp
qed

lemma matched_targets:
  assumes "match_edits base target_of 0 edits = Ok ms" "base \<noteq> []"
  shows "list_all (\<lambda>e. target_of (er_old_text e) \<noteq> []) edits"
  unfolding list_all_iff
proof
  fix e
  assume "e \<in> set edits"
  with match_edits_Ok [OF assms(1)] obtain m index where "match_edit base target_of index e = Ok m"
    by (auto simp: list_all2_conv_all_nth in_set_conv_nth)
  then show "target_of (er_old_text e) \<noteq> []"
    using empty_target_not_unique [OF assms(2)] by (auto simp: match_edit_def Let_def split: list.splits)
qed

text \<open>Rewriting line groups is the exact edit of the normalized text, with the lines no match touches taken
  from the original.\<close>

lemma replace_preserving_lines_spec:
  assumes "list_all (replaceable base) ms" "disjoint_from 0 ms" "list_all (\<lambda>m. 0 < me_match_length m) ms"
    and "replace_preserving_lines original base ms = r"
  shows "case r of
      None \<Rightarrow> False
    | Some (Err e) \<Rightarrow> True
    | Some (Ok edited) \<Rightarrow>
        (\<exists>ps. edited = concat (map fst ps) \<and> exact_edit base ms (concat (map snd ps)) \<and>
          length ps = length (split_inclusive original) \<and> length ps = length (split_inclusive base) \<and>
          list_all (line_kept (split_inclusive original) (split_inclusive base) ms) (zip [0..<length ps] ps))"
proof (cases "length (split_inclusive original) = length (split_inclusive base)")
  case False
  then show ?thesis using assms(4) by (auto simp: replace_preserving_lines_def Let_def)
next
  case len: True
  let ?o = "split_inclusive original" and ?b = "split_inclusive base"
  show ?thesis
  proof (cases "try_fold (add_to_groups (line_spans 0 ?b)) [] ms")
    case (Err e)
    with len show ?thesis using assms(4) by (auto simp: replace_preserving_lines_def Let_def)
  next
    case (Ok gs)
    have gs: "groups_from ?b 0 gs" "group_matches gs = ms" using groups_of_matches [OF Ok] assms(2,3) by simp_all
    have "\<exists>ps. rewrite_groups ?o (concat ?b) (line_spans 0 ?b) 0 gs = Some (concat (map fst ps)) \<and>
        concat (map snd ps) = spliced (line_start ?b 0) (group_matches gs) (concat ?b) \<and>
        length ps = length ?b - 0 \<and> list_all (line_kept ?o ?b ms) (zip [0..<length ?b] ps)"
      by (rule rewrite_groups_spec) (use gs assms(1) len in auto)
    then obtain ps where ps: "rewrite_groups ?o base (line_spans 0 ?b) 0 gs = Some (concat (map fst ps))"
      "concat (map snd ps) = spliced 0 ms base" "length ps = length ?b"
      "list_all (line_kept ?o ?b ms) (zip [0..<length ?b] ps)" by (auto simp: gs(2) line_start_def)
    have "r = Some (Ok (concat (map fst ps)))"
      using assms(4) len Ok ps(1) by (simp add: replace_preserving_lines_def Let_def)
    then show ?thesis using ps len exact_edit_spliced [OF assms(2), of base] by auto
  qed
qed

text \<open>A fuzzy edit is refused while it is matched, or it rewrites the lines of its matches.\<close>

lemma fuzzy_outcome:
  assumes "uses_fuzzy content (normalized_edits edits)"
  obtains (refused) e where "apply_edits nfkc content edits = Some (Err e)"
    | (rewritten) ms where "match_edits (normalize_fuzzy nfkc content) (normalize_fuzzy nfkc) 0 (normalized_edits edits) = Ok ms"
      "check_overlap (sort_key me_match_index ms) = Ok ()"
      "apply_edits nfkc content edits =
        Option.bind (replace_preserving_lines content (normalize_fuzzy nfkc content) (sort_key me_match_index ms)) (\<lambda>r.
          case r of Err e \<Rightarrow> Some (Err e)
          | Ok edited \<Rightarrow> if edited = content then Some (Err NoChange) else Some (Ok (content, edited)))"
proof (cases "position (\<lambda>e. er_old_text e = []) (normalized_edits edits)")
  case (Some index)
  then show thesis by (intro refused) (simp add: apply_edits_def Let_def)
next
  case None
  let ?matched = "match_edits (normalize_fuzzy nfkc content) (normalize_fuzzy nfkc) 0 (normalized_edits edits)"
  show thesis
  proof (cases ?matched)
    case (Err e)
    with None assms show thesis by (intro refused) (simp add: apply_edits_def Let_def)
  next
    case (Ok ms)
    show thesis
    proof (cases "check_overlap (sort_key me_match_index ms)")
      case (Err e)
      with Ok None assms show thesis by (intro refused) (simp add: apply_edits_def Let_def)
    next
      case (Ok u)
      with \<open>?matched = Ok ms\<close> None assms show thesis by (intro rewritten) (simp_all add: apply_edits_def Let_def)
    qed
  qed
qed

text \<open>C31: when some text to replace only matches after normalization, the edit never panics on UTF-8 texts,
  and when it succeeds the result is, line by line, the exact edit of the normalized file where a
  match touches the line and the original line, byte for byte, where none does.\<close>

theorem fuzzy_edit_keeps_untouched_lines:
  assumes "uses_fuzzy content (normalized_edits edits)" "is_utf8 (normalize_fuzzy nfkc content)"
    and "list_all (\<lambda>e. is_utf8 (normalize_fuzzy nfkc (er_old_text e)) \<and> is_utf8 (er_new_text e)) (normalized_edits edits)"
  shows "case apply_edits nfkc content edits of
      None \<Rightarrow> False
    | Some (Err e) \<Rightarrow> True
    | Some (Ok (base, edited)) \<Rightarrow> base = content \<and> edited \<noteq> content \<and>
        (\<exists>ms ps. edited = concat (map fst ps) \<and> exact_edit (normalize_fuzzy nfkc content) ms (concat (map snd ps)) \<and>
          length ps = length (split_inclusive content) \<and> length ps = length (split_inclusive (normalize_fuzzy nfkc content)) \<and>
          list_all (line_kept (split_inclusive content) (split_inclusive (normalize_fuzzy nfkc content)) ms) (zip [0..<length ps] ps) \<and>
          mset (edit_pairs (normalize_fuzzy nfkc content) ms) =
            mset (map (\<lambda>e. (normalize_fuzzy nfkc (er_old_text e), er_new_text e)) (normalized_edits edits)))"
proof (cases rule: fuzzy_outcome [OF assms(1), of nfkc])
  case (1 e)
  then show ?thesis by simp
next
  case (2 ms)
  let ?base = "normalize_fuzzy nfkc content" and ?edits = "normalized_edits edits" and ?ms = "sort_key me_match_index ms"
  show ?thesis
  proof (cases "?base = []")
    case True
    have "ms \<noteq> []" using match_edits_Ok [OF 2(1)] assms(1) by (cases ?edits) (auto simp: uses_fuzzy_def)
    then obtain m ms' where "?ms = m # ms'" by (metis length_greater_0_conv length_sort list.exhaust)
    then have "\<exists>e. replace_preserving_lines content ?base ?ms = Some (Err e)"
      by (auto simp: replace_preserving_lines_def Let_def True split_inclusive_def add_to_groups_def)
    with 2(3) show ?thesis by auto
  next
    case False
    have targets: "list_all (\<lambda>e. normalize_fuzzy nfkc (er_old_text e) \<noteq> [] \<and> is_utf8 (normalize_fuzzy nfkc (er_old_text e)) \<and>
        is_utf8 (er_new_text e)) ?edits"
      using matched_targets [OF 2(1) False] assms(3) by (auto simp: list_all_iff)
    note spec = matched_spec [OF assms(2) targets 2(1,2)]
    from replace_preserving_lines_spec [OF spec(1,2,3) refl, of content] 2(3) spec(4) show ?thesis
      by (fastforce split: option.splits result.splits)
  qed
qed

section \<open>Witnesses\<close>


text \<open>The blank at the end of the first line is not part of any match and stays.\<close>

theorem fuzzy_edit_keeps_untouched_lines_witness:
  "apply_edits (\<lambda>s. s) (''k '' @ [newline] @ ''a '' @ [newline] @ ''b'')
     [\<lparr>er_old_text = ''a'' @ [newline] @ ''b'', er_new_text = ''z''\<rparr>] =
     Some (Ok (''k '' @ [newline] @ ''a '' @ [newline] @ ''b'', ''k '' @ [newline] @ ''z'')) \<and>
   (\<exists>ms ps. ''k '' @ [newline] @ ''z'' = concat (map fst ps) \<and>
      list_all (line_kept [''k '' @ [newline], ''a '' @ [newline], ''b''] [''k'' @ [newline], ''a'' @ [newline], ''b''] ms)
        (zip [0..<length ps] ps))"
proof -
  let ?content = "''k '' @ [newline] @ ''a '' @ [newline] @ ''b''"
  let ?edits = "[\<lparr>er_old_text = ''a'' @ [newline] @ ''b'', er_new_text = ''z''\<rparr>]"
  have result: "apply_edits (\<lambda>s. s) ?content ?edits = Some (Ok (?content, ''k '' @ [newline] @ ''z''))" by code_simp
  have normalized: "normalized_edits ?edits = ?edits" by code_simp
  have fuzzy: "uses_fuzzy ?content ?edits" by code_simp
  have base: "normalize_fuzzy (\<lambda>s. s) ?content = ''k'' @ [newline] @ ''a'' @ [newline] @ ''b''"
    "normalize_fuzzy (\<lambda>s. s) (''a'' @ [newline] @ ''b'') = ''a'' @ [newline] @ ''b''" by code_simp+
  have lines: "split_inclusive ?content = [''k '' @ [newline], ''a '' @ [newline], ''b'']"
    "split_inclusive (''k'' @ [newline] @ ''a'' @ [newline] @ ''b'') = [''k'' @ [newline], ''a'' @ [newline], ''b'']" by code_simp+
  have utf8: "is_utf8 (''k'' @ [newline] @ ''a'' @ [newline] @ ''b'')" "is_utf8 (''a'' @ [newline] @ ''b'')" "is_utf8 ''z''"
    by (rule is_utf8_ascii; simp)+
  have "case apply_edits (\<lambda>s. s) ?content ?edits of
      None \<Rightarrow> False
    | Some (Err e) \<Rightarrow> True
    | Some (Ok (base, edited)) \<Rightarrow> base = ?content \<and> edited \<noteq> ?content \<and>
        (\<exists>ms ps. edited = concat (map fst ps) \<and> exact_edit (normalize_fuzzy (\<lambda>s. s) ?content) ms (concat (map snd ps)) \<and>
          length ps = length (split_inclusive ?content) \<and> length ps = length (split_inclusive (normalize_fuzzy (\<lambda>s. s) ?content)) \<and>
          list_all (line_kept (split_inclusive ?content) (split_inclusive (normalize_fuzzy (\<lambda>s. s) ?content)) ms) (zip [0..<length ps] ps) \<and>
          mset (edit_pairs (normalize_fuzzy (\<lambda>s. s) ?content) ms) =
            mset (map (\<lambda>e. (normalize_fuzzy (\<lambda>s. s) (er_old_text e), er_new_text e)) (normalized_edits ?edits)))"
    by (rule fuzzy_edit_keeps_untouched_lines) (use fuzzy normalized base utf8 in \<open>simp_all only: list.pred_inject edit_replacement.simps\<close>)
  then show ?thesis
    unfolding result base(1) lines by (simp only: option.case result.case prod.case) blast
qed

end
