(* ===== verification/Admission.thy ===== *)
theory Admission
  imports Messages
begin

text \<open>
  The order in which prompts enter a session, \<^verbatim>\<open>crates/kernel/src/runtime/run/admission.rs\<close>: numbered
  tickets, the position that may proceed, and the positions given up before their turn came. Tickets
  are issued and released by concurrent tasks; each operation runs under the lock of the admission
  state, so an execution is a sequence of them. The \<^verbatim>\<open>watch\<close> channel is the value it holds.
\<close>

section \<open>admission.rs\<close>

record admission_state =
  ad_issued :: nat
  ad_next :: nat
  ad_released :: "nat list"

definition admission_default :: admission_state where
  "admission_default = \<lparr>ad_issued = 0, ad_next = 0, ad_released = []\<rparr>"

record admission_ticket =
  at_number :: nat
  at_released :: bool

definition issue_ticket :: "admission_state \<Rightarrow> admission_state \<times> (admission_ticket, kernel_error) result" where
  "issue_ticket s =
     (case checked_add_u64 (ad_issued s) 1 of
        None \<Rightarrow> (s, Err (ProtocolError ''admission sequence overflow''))
      | Some issued \<Rightarrow> (s\<lparr>ad_issued := issued\<rparr>, Ok \<lparr>at_number = ad_issued s, at_released = False\<rparr>))"

text \<open>The loop that passes every position already given up.\<close>

function advance :: "nat list \<Rightarrow> nat \<Rightarrow> nat list \<times> nat" where
  "advance released next =
     (if next \<in> set released then advance (removeAll next released) (next + 1) else (released, next))"
  by pat_completeness auto
termination
  by (relation "measure (length \<circ> fst)") (auto intro: length_removeAll_less)

definition release :: "admission_state \<Rightarrow> admission_ticket \<Rightarrow> admission_state \<times> admission_ticket" where
  "release s t =
     (if at_released t then (s, t)
      else let (released, next) = advance (List.insert (at_number t) (ad_released s)) (ad_next s)
           in (s\<lparr>ad_released := released, ad_next := next\<rparr>, t\<lparr>at_released := True\<rparr>))"

text \<open>One round of the waiting loop: \<open>None\<close> means it goes on waiting for the next change. The channel
  cannot close under it, since the ticket keeps the execution that owns the sender alive.\<close>

definition wait_poll :: "bool \<Rightarrow> admission_state \<Rightarrow> admission_ticket \<Rightarrow> (unit, kernel_error) result option" where
  "wait_poll cancelled s t =
     (if cancelled then Some (Err PromptCancelled)
      else if ad_next s = at_number t then Some (Ok ())
      else None)"

section \<open>Executions\<close>

text \<open>The tickets issued so far stand at their positions; a ticket is released at most once by its
  holder and once more when it is dropped.\<close>

datatype admission_action = Issue | Release nat

type_synonym admission_system = "admission_state \<times> admission_ticket list"

fun admission_act :: "admission_action \<Rightarrow> admission_system \<Rightarrow> admission_system" where
  "admission_act Issue (s, ts) =
     (case issue_ticket s of (s', Ok t) \<Rightarrow> (s', ts @ [t]) | (s', Err e) \<Rightarrow> (s', ts))"
| "admission_act (Release i) (s, ts) =
     (if i < length ts then let (s', t) = release s (ts ! i) in (s', ts[i := t]) else (s, ts))"

inductive admission_reachable :: "admission_system \<Rightarrow> bool" where
  start: "admission_reachable (admission_default, [])"
| act: "admission_reachable sys \<Longrightarrow> admission_reachable (admission_act a sys)"

lemma reachable_run: "admission_reachable sys \<Longrightarrow> admission_reachable (fold admission_act acts sys)"
  by (induction acts arbitrary: sys) (simp_all add: act)

section \<open>Invariant\<close>

declare advance.simps [simp del]

lemma advance_spec:
  "advance released next = (released', next') \<Longrightarrow>
    next \<le> next' \<and> {next..<next'} \<subseteq> set released \<and> next' \<notin> set released \<and>
    set released' = set released - {next..<next'}"
proof (induction released "next" arbitrary: released' next' rule: advance.induct)
  case (1 released "next")
  show ?case
  proof (cases "next \<in> set released")
    case True
    with "1.prems" have "advance (removeAll next released) (next + 1) = (released', next')"
      by (subst (asm) advance.simps) simp
    from "1.IH" [OF True this] have ih: "next < next'" "{next + 1..<next'} \<subseteq> set released - {next}"
      "next' \<notin> set released - {next}" "set released' = set released - {next} - {next + 1..<next'}" by auto
    moreover have "{next..<next'} = insert next {next + 1..<next'}" using ih(1) by auto
    ultimately show ?thesis using True by auto
  next
    case False
    with "1.prems" have "released' = released" "next' = next" by (simp_all add: advance.simps)
    with False show ?thesis by simp
  qed
qed

text \<open>The positions given up, passed or not.\<close>

definition gone :: "admission_ticket list \<Rightarrow> nat set" where
  "gone ts = {i. i < length ts \<and> at_released (ts ! i)}"

lemma gone_iff: "i \<in> gone ts \<longleftrightarrow> i < length ts \<and> at_released (ts ! i)"
  by (simp add: gone_def)

lemma gone_snoc: "\<not> at_released t \<Longrightarrow> gone (ts @ [t]) = gone ts"
  by (auto simp: gone_def nth_append less_Suc_eq)

lemma gone_update: "i < length ts \<Longrightarrow> at_released t \<Longrightarrow> gone (ts[i := t]) = insert i (gone ts)"
  by (auto simp: gone_def nth_list_update)

definition admission_inv :: "admission_system \<Rightarrow> bool" where
  "admission_inv sys =
     (let (s, ts) = sys in
      map at_number ts = [0..<length ts] \<and> ad_issued s = length ts \<and> length ts \<le> u64_max \<and>
      {0..<ad_next s} \<subseteq> gone ts \<and> ad_next s \<notin> gone ts \<and> set (ad_released s) = gone ts - {0..<ad_next s})"

lemma issue_inv: "admission_inv (s, ts) \<Longrightarrow> admission_inv (admission_act Issue (s, ts))"
proof -
  assume inv: "admission_inv (s, ts)"
  show ?thesis
  proof (cases "checked_add_u64 (ad_issued s) 1")
    case None
    with inv show ?thesis by (simp add: issue_ticket_def)
  next
    case (Some n)
    with inv show ?thesis
      by (simp add: issue_ticket_def admission_inv_def checked_add_u64_def Let_def gone_snoc split: if_splits)
  qed
qed

lemma release_inv:
  assumes inv: "admission_inv (s, ts)"
  shows "admission_inv (admission_act (Release i) (s, ts))"
proof (cases "i < length ts \<and> \<not> at_released (ts ! i)")
  case True
  from inv have g: "map at_number ts = [0..<length ts]" "ad_issued s = length ts" "length ts \<le> u64_max"
    "{0..<ad_next s} \<subseteq> gone ts" "ad_next s \<notin> gone ts" "set (ad_released s) = gone ts - {0..<ad_next s}"
    by (simp_all add: admission_inv_def Let_def)
  have num: "at_number (ts ! i) = i" using g(1) True by (metis add_0 length_map nth_map nth_upt)
  have i: "i \<notin> gone ts" using True by (simp add: gone_iff)
  then have after: "ad_next s \<le> i" using g(4) by (auto simp: not_less [symmetric])
  obtain released "next" where a: "advance (List.insert i (ad_released s)) (ad_next s) = (released, next)"
    by (rule prod.exhaust)
  from advance_spec [OF a] have adv: "ad_next s \<le> next" "{ad_next s..<next} \<subseteq> insert i (set (ad_released s))"
    "next \<notin> insert i (set (ad_released s))" "set released = insert i (set (ad_released s)) - {ad_next s..<next}"
    by simp_all
  let ?ts = "ts[i := (ts ! i)\<lparr>at_released := True\<rparr>]"
  have gone': "gone ?ts = insert i (gone ts)" using True by (simp add: gone_update)
  have nums: "map at_number ?ts = [0..<length ts]"
    using g(1) num True by (simp add: map_update list_update_same_conv)
  have upto: "{0..<next} = {0..<ad_next s} \<union> {ad_next s..<next}" using adv(1) by auto
  have "{0..<next} \<subseteq> insert i (gone ts)" unfolding upto using adv(2) g(4,6) by auto
  moreover have "next \<notin> insert i (gone ts)" using adv(1,3) g(6) by auto
  moreover have "set released = insert i (gone ts) - {0..<next}" using adv(4) g(6) after upto by auto
  ultimately have "admission_inv (s\<lparr>ad_released := released, ad_next := next\<rparr>, ?ts)"
    using g(2,3) nums gone' by (simp add: admission_inv_def Let_def)
  with True num a show ?thesis by (simp add: release_def)
next
  case False
  with inv show ?thesis by (auto simp: release_def)
qed

lemma reachable_inv: "admission_reachable sys \<Longrightarrow> admission_inv sys"
proof (induction rule: admission_reachable.induct)
  case start
  show ?case by (simp add: admission_inv_def admission_default_def u64_max_def gone_def)
next
  case (act sys a)
  obtain s ts where "sys = (s, ts)" by (rule prod.exhaust)
  with act.IH show ?case by (cases a) (simp_all only: issue_inv release_inv)
qed

section \<open>Arrival order and progress\<close>

lemma next_position:
  assumes "admission_inv (s, ts)" "i < length ts" "\<not> at_released (ts ! i)"
  shows "at_number (ts ! i) = i" "ad_next s = i \<longleftrightarrow> (\<forall>j<i. at_released (ts ! j))"
proof -
  from assms(1) have g: "map at_number ts = [0..<length ts]" "{0..<ad_next s} \<subseteq> gone ts" "ad_next s \<notin> gone ts"
    by (simp_all add: admission_inv_def Let_def)
  show "at_number (ts ! i) = i" using g(1) assms(2) by (metis add_0 length_map nth_map nth_upt)
  have le: "ad_next s \<le> i" using g(2) assms(3) by (auto simp: not_less [symmetric] gone_iff)
  show "ad_next s = i \<longleftrightarrow> (\<forall>j<i. at_released (ts ! j))"
  proof
    assume "ad_next s = i"
    with g(2) show "\<forall>j<i. at_released (ts ! j)" by (auto simp: subset_iff gone_iff)
  next
    assume "\<forall>j<i. at_released (ts ! j)"
    with g(3) assms(2) have "\<not> ad_next s < i" by (auto simp: gone_iff)
    with le show "ad_next s = i" by simp
  qed
qed

text \<open>However tickets are issued, released and dropped, a prompt that still holds its ticket may
  proceed exactly when every prompt that arrived before it has released its own, is told at once that
  it was cancelled, and waits otherwise; positions never pass the number of tickets issued, so the
  64-bit counters do not overflow.\<close>

lemma admission_in_arrival_order:
  assumes "admission_reachable (s, ts)" "i < length ts" "\<not> at_released (ts ! i)"
  shows "wait_poll cancelled s (ts ! i) =
      (if cancelled then Some (Err PromptCancelled)
       else if \<forall>j<i. at_released (ts ! j) then Some (Ok ()) else None) \<and>
    ad_next s \<le> ad_issued s \<and> ad_issued s \<le> u64_max"
proof -
  have inv: "admission_inv (s, ts)" using assms(1) by (rule reachable_inv)
  then have "{0..<ad_next s} \<subseteq> gone ts" "gone ts \<subseteq> {0..<ad_issued s}" "ad_issued s \<le> u64_max"
    by (simp_all add: admission_inv_def Let_def gone_def subset_iff)
  then have "{0..<ad_next s} \<subseteq> {0..<ad_issued s}" "ad_issued s \<le> u64_max" by (simp_all only: subset_trans)
  then have "ad_next s \<le> ad_issued s" "ad_issued s \<le> u64_max" by auto
  with next_position [OF inv assms(2,3)] show ?thesis by (simp add: wait_poll_def)
qed

text \<open>What later actions leave of the tickets.\<close>

lemma act_keeps_tickets:
  assumes "admission_act a (s, ts) = (s', ts')" "i < length ts"
  shows "i < length ts' \<and> at_released (ts' ! i) = (at_released (ts ! i) \<or> a = Release i)"
proof (cases a)
  case Issue
  then show ?thesis using assms by (auto simp: nth_append split: result.splits prod.splits)
next
  case (Release j)
  have "at_released (snd (release s (ts ! j)))" by (simp add: release_def Let_def split: prod.split)
  with Release show ?thesis using assms
    by (auto simp: nth_list_update split: prod.splits if_splits)
qed

lemma run_keeps_tickets:
  "i < length (snd sys) \<Longrightarrow>
    i < length (snd (fold admission_act acts sys)) \<and>
    at_released (snd (fold admission_act acts sys) ! i) = (at_released (snd sys ! i) \<or> Release i \<in> set acts)"
proof (induction acts arbitrary: sys)
  case (Cons a acts)
  obtain s ts s' ts' where sys: "sys = (s, ts)" "admission_act a (s, ts) = (s', ts')" by (metis prod.exhaust)
  from act_keeps_tickets [OF sys(2)] Cons.prems have "i < length ts'"
    "at_released (ts' ! i) = (at_released (ts ! i) \<or> a = Release i)" by (simp_all add: sys(1))
  with Cons.IH [of "(s', ts')"] show ?case by (auto simp: sys)
qed simp

text \<open>C28: no prompt waits forever: once every earlier prompt has released its ticket or dropped it, in
  whatever order and however many prompts arrive meanwhile, the next round of the wait succeeds.\<close>

theorem every_prompt_gets_its_turn:
  assumes "admission_reachable (s, ts)" "i < length ts" "\<not> at_released (ts ! i)"
    and "\<forall>j<i. at_released (ts ! j) \<or> Release j \<in> set acts" "Release i \<notin> set acts"
  shows "wait_poll False (fst (fold admission_act acts (s, ts))) (snd (fold admission_act acts (s, ts)) ! i) = Some (Ok ())"
proof -
  obtain s' ts' where run: "fold admission_act acts (s, ts) = (s', ts')" by (rule prod.exhaust)
  have inv: "admission_inv (s', ts')"
    using reachable_inv [OF reachable_run [OF assms(1)]] run by metis
  have keeps: "k < length ts' \<and> at_released (ts' ! k) = (at_released (ts ! k) \<or> Release k \<in> set acts)" if "k < length ts" for k
    using run_keeps_tickets [of k "(s, ts)" acts] that by (simp add: run)
  have "i < length ts'" "\<not> at_released (ts' ! i)" "\<forall>j<i. at_released (ts' ! j)"
    using keeps assms(2-5) by (simp_all add: less_trans [of _ i])
  with next_position [OF inv] show ?thesis by (simp add: run wait_poll_def)
qed

theorem every_prompt_gets_its_turn_witness:
  "\<exists>s ts. fold admission_act [Issue, Issue, Issue, Release 1, Release 0] (admission_default, []) = (s, ts) \<and>
    wait_poll False s (ts ! 2) = Some (Ok ())"
proof -
  let ?sys = "fold admission_act [Issue, Issue, Issue] (admission_default, [])"
  let ?last = "fold admission_act [Release 1, Release 0] ?sys"
  have len: "length (snd ?sys) = 3" "\<not> at_released (snd ?sys ! 2)"
    by (simp_all add: issue_ticket_def admission_default_def checked_add_u64_def u64_max_def)
  have reach: "admission_reachable ?sys" by (intro reachable_run start)
  have "wait_poll False (fst ?last) (snd ?last ! 2) = Some (Ok ())"
    using every_prompt_gets_its_turn [of "fst ?sys" "snd ?sys" 2 "[Release 1, Release 0]"] reach len
    by (simp add: less_2_cases_iff del: fold_simps)
  moreover have "fold admission_act [Issue, Issue, Issue, Release 1, Release 0] (admission_default, []) = ?last"
    by simp
  ultimately show ?thesis by (metis prod.collapse)
qed

end
