(* ===== verification/Execution.thy ===== *)
theory Execution
  imports Pending_Queue Admission
begin

text \<open>
  The execution of one session, \<^verbatim>\<open>crates/kernel/src/runtime/run/lifecycle.rs\<close>: its lifecycle, the gate
  that serializes operations, the cancellation tokens, the active run and the event sequence. The
  asynchronous operations that wait for the gate are split at the points where another task can run:
  capturing the tokens, one poll of the \<^verbatim>\<open>select!\<close>, the check after the gate was taken, and the section
  under the cancellation lock. Lock poisoning, which follows a panic, is left out.

  Cancellation tokens are those of the \<^verbatim>\<open>tokio_util\<close> crate and come as an argument, with what its
  documentation promises and the code relies on as a hypothesis.
\<close>

section \<open>Cancellation tokens\<close>

record ('h, 't) token_ops =
  token_new :: "'h \<Rightarrow> 't \<times> 'h"
  token_child :: "'t \<Rightarrow> 'h \<Rightarrow> 't \<times> 'h"
  token_cancel :: "'t \<Rightarrow> 'h \<Rightarrow> 'h"
  token_cancelled :: "'t \<Rightarrow> 'h \<Rightarrow> bool"

text \<open>A token that was cancelled stays cancelled, whatever is done to other tokens.\<close>

definition token_laws :: "('h, 't) token_ops \<Rightarrow> bool" where
  "token_laws ops \<longleftrightarrow>
     (\<forall>t h. token_cancelled ops t (token_cancel ops t h)) \<and>
     (\<forall>t u h. token_cancelled ops u h \<longrightarrow> token_cancelled ops u (token_cancel ops t h)) \<and>
     (\<forall>u h. token_cancelled ops u h \<longrightarrow> token_cancelled ops u (snd (token_new ops h))) \<and>
     (\<forall>p u h. token_cancelled ops u h \<longrightarrow> token_cancelled ops u (snd (token_child ops p h)))"

section \<open>lifecycle.rs: state\<close>

datatype session_lifecycle = Starting | Active | Closing | Closed

record active_run =
  ar_run_id :: string
  ar_turn_id :: turn_id

text \<open>The gate names its holder; receipts are found by their number.\<close>

record ('h, 't) session_execution =
  sx_submissions :: "nat list"
  sx_receipts :: "nat \<Rightarrow> submission_receipt"
  sx_admission :: admission_state
  sx_lifecycle :: session_lifecycle
  sx_closing :: bool
  sx_gate :: "nat option"
  sx_close_requested :: 't
  sx_waiters :: 't
  sx_active_run :: "active_run option"
  sx_user_waits :: nat
  sx_cancellation :: 't
  sx_queue :: pending_queue
  sx_sequence :: nat
  sx_tokens :: 'h

section \<open>lifecycle.rs: lifecycle\<close>

definition ensure_active :: "('h, 't) session_execution \<Rightarrow> (unit, kernel_error) result" where
  "ensure_active s =
     (case sx_lifecycle s of
        Starting \<Rightarrow> Err SessionStarting
      | Active \<Rightarrow> Ok ()
      | Closing \<Rightarrow> Err SessionClosing
      | Closed \<Rightarrow> Err SessionClosing)"

definition finish_starting ::
    "('h, 't) session_execution \<Rightarrow> ('h, 't) session_execution \<times> (unit, kernel_error) result" where
  "finish_starting s =
     (case sx_lifecycle s of
        Starting \<Rightarrow> (s\<lparr>sx_lifecycle := Active\<rparr>, Ok ())
      | _ \<Rightarrow> (s, Err (ProtocolError ''only a starting Session can finish startup'')))"

definition begin_closing ::
    "('h, 't) session_execution \<Rightarrow> ('h, 't) session_execution \<times> (unit, kernel_error) result" where
  "begin_closing s =
     (case sx_lifecycle s of
        Starting \<Rightarrow> (s, Err SessionStarting)
      | Active \<Rightarrow> (s\<lparr>sx_lifecycle := Closing, sx_closing := True\<rparr>, Ok ())
      | Closing \<Rightarrow> (s, Err SessionClosing)
      | Closed \<Rightarrow> (s, Err SessionClosing))"

definition drop_closing_guard :: "('h, 't) session_execution \<Rightarrow> ('h, 't) session_execution" where
  "drop_closing_guard s = s\<lparr>sx_closing := False\<rparr>"

definition abort_closing ::
    "('h, 't) token_ops \<Rightarrow> ('h, 't) session_execution \<Rightarrow> ('h, 't) session_execution \<times> (unit, kernel_error) result" where
  "abort_closing ops s =
     (case sx_lifecycle s of
        Closing \<Rightarrow>
          (let (t, h) = token_new ops (sx_tokens s)
           in (s\<lparr>sx_lifecycle := Active, sx_close_requested := t, sx_tokens := h\<rparr>, Ok ()))
      | _ \<Rightarrow> (s, Err (ProtocolError ''only a closing Session can abort shutdown'')))"

definition finish_closing :: "('h, 't) session_execution \<Rightarrow> ('h, 't) session_execution" where
  "finish_closing s = s\<lparr>sx_lifecycle := Closed\<rparr>"

definition is_closed :: "('h, 't) session_execution \<Rightarrow> bool" where
  "is_closed s \<longleftrightarrow> sx_lifecycle s = Closed"

section \<open>lifecycle.rs: cancellation\<close>

definition is_cancelled :: "('h, 't) token_ops \<Rightarrow> ('h, 't) session_execution \<Rightarrow> 't \<Rightarrow> bool" where
  "is_cancelled ops s t = token_cancelled ops t (sx_tokens s)"

definition cancel_token :: "('h, 't) token_ops \<Rightarrow> 't \<Rightarrow> ('h, 't) session_execution \<Rightarrow> ('h, 't) session_execution" where
  "cancel_token ops t s = s\<lparr>sx_tokens := token_cancel ops t (sx_tokens s)\<rparr>"

definition cancel :: "('h, 't) token_ops \<Rightarrow> ('h, 't) session_execution \<Rightarrow> ('h, 't) session_execution" where
  "cancel ops s =
     (let s1 = cancel_token ops (sx_waiters s) (cancel_token ops (sx_cancellation s) s);
          (t, h) = token_new ops (sx_tokens s1)
      in s1\<lparr>sx_waiters := t, sx_tokens := h, sx_queue := close_queue (sx_queue s1)\<rparr>)"

definition request_close :: "('h, 't) token_ops \<Rightarrow> ('h, 't) session_execution \<Rightarrow> ('h, 't) session_execution" where
  "request_close ops s = cancel ops (cancel_token ops (sx_close_requested s) s)"

definition waiter_token :: "('h, 't) session_execution \<Rightarrow> 't" where
  "waiter_token s = sx_waiters s"

definition fresh_token ::
    "('h, 't) token_ops \<Rightarrow> 't option \<Rightarrow> ('h, 't) session_execution \<Rightarrow> 't \<times> ('h, 't) session_execution" where
  "fresh_token ops parent s =
     (let (t, h) = (case parent of None \<Rightarrow> token_new ops (sx_tokens s) | Some p \<Rightarrow> token_child ops p (sx_tokens s))
      in (t, s\<lparr>sx_tokens := h\<rparr>))"

definition install_cancellation ::
    "('h, 't) token_ops \<Rightarrow> 't option \<Rightarrow> ('h, 't) session_execution \<Rightarrow> 't \<times> ('h, 't) session_execution" where
  "install_cancellation ops parent s =
     (let (t, s1) = fresh_token ops parent s;
          s2 = (if is_cancelled ops s1 (sx_close_requested s1) then cancel_token ops t s1 else s1)
      in (t, s2\<lparr>sx_cancellation := t\<rparr>))"

section \<open>lifecycle.rs: the gate\<close>

definition release_gate :: "nat \<Rightarrow> ('h, 't) session_execution \<Rightarrow> ('h, 't) session_execution" where
  "release_gate who s = (if sx_gate s = Some who then s\<lparr>sx_gate := None\<rparr> else s)"

text \<open>\<^verbatim>\<open>acquire_operation\<close>: the captured close token, a poll, and the check once the gate is held.\<close>

definition begin_operation :: "('h, 't) session_execution \<Rightarrow> ('t, kernel_error) result" where
  "begin_operation s = and_then (ensure_active s) (\<lambda>_. Ok (sx_close_requested s))"

definition poll_operation ::
    "('h, 't) token_ops \<Rightarrow> nat \<Rightarrow> 't \<Rightarrow> ('h, 't) session_execution \<Rightarrow>
     ('h, 't) session_execution \<times> (unit, kernel_error) result option" where
  "poll_operation ops who closing_token s =
     (if is_cancelled ops s closing_token then (s, Some (Err SessionClosing))
      else if sx_gate s = None then (s\<lparr>sx_gate := Some who\<rparr>, Some (Ok ()))
      else (s, None))"

definition recheck_operation ::
    "nat \<Rightarrow> ('h, 't) session_execution \<Rightarrow> ('h, 't) session_execution \<times> (unit, kernel_error) result" where
  "recheck_operation who s =
     (case ensure_active s of Ok _ \<Rightarrow> (s, Ok ()) | Err e \<Rightarrow> (release_gate who s, Err e))"

definition try_acquire_operation ::
    "('h, 't) token_ops \<Rightarrow> nat \<Rightarrow> ('h, 't) session_execution \<Rightarrow> ('h, 't) session_execution \<times> (bool, kernel_error) result" where
  "try_acquire_operation ops who s =
     (case ensure_active s of
        Err e \<Rightarrow> (s, Err e)
      | Ok _ \<Rightarrow>
          if is_cancelled ops s (sx_close_requested s) then (s, Err SessionClosing)
          else if sx_gate s \<noteq> None then (s, Ok False)
          else case recheck_operation who (s\<lparr>sx_gate := Some who\<rparr>) of
              (s', Ok _) \<Rightarrow> (s', Ok True)
            | (s', Err e) \<Rightarrow> (s', Err e))"

text \<open>\<^verbatim>\<open>acquire_close\<close> requests the close first and then waits for the gate alone.\<close>

definition poll_close :: "nat \<Rightarrow> ('h, 't) session_execution \<Rightarrow> ('h, 't) session_execution \<times> bool" where
  "poll_close who s = (if sx_gate s = None then (s\<lparr>sx_gate := Some who\<rparr>, True) else (s, False))"

text \<open>\<^verbatim>\<open>acquire_operation_for_prompt\<close>. An absent parent is a default token nobody else holds, so it is
  never cancelled.\<close>

record 't prompt_wait =
  pw_closing :: 't
  pw_waiting :: "'t option"
  pw_parent :: "'t option"
  pw_waiters :: "'t waiter_cancellation"

definition begin_prompt ::
    "'t option \<Rightarrow> 't waiter_cancellation \<Rightarrow> ('h, 't) session_execution \<Rightarrow> ('t prompt_wait, kernel_error) result" where
  "begin_prompt parent waiters s =
     and_then (ensure_active s) (\<lambda>_. Ok
       \<lparr>pw_closing = sx_close_requested s,
        pw_waiting = (case waiters of WcReject \<Rightarrow> Some (sx_waiters s) | WcIgnore \<Rightarrow> None | WcCaptured t \<Rightarrow> Some t),
        pw_parent = parent, pw_waiters = waiters\<rparr>)"

definition opt_cancelled :: "('h, 't) token_ops \<Rightarrow> ('h, 't) session_execution \<Rightarrow> 't option \<Rightarrow> bool" where
  "opt_cancelled ops s t = (case t of None \<Rightarrow> False | Some t' \<Rightarrow> is_cancelled ops s t')"

definition poll_prompt ::
    "('h, 't) token_ops \<Rightarrow> nat \<Rightarrow> 't prompt_wait \<Rightarrow> ('h, 't) session_execution \<Rightarrow>
     ('h, 't) session_execution \<times> (unit, kernel_error) result option" where
  "poll_prompt ops who w s =
     (if is_cancelled ops s (pw_closing w) then (s, Some (Err (closing (pw_waiters w))))
      else if opt_cancelled ops s (pw_parent w) then (s, Some (Err PromptCancelled))
      else if opt_cancelled ops s (pw_waiting w) then (s, Some (Err PromptCancelled))
      else if sx_gate s = None then (s\<lparr>sx_gate := Some who\<rparr>, Some (Ok ()))
      else (s, None))"

definition recheck_prompt ::
    "nat \<Rightarrow> 't prompt_wait \<Rightarrow> ('h, 't) session_execution \<Rightarrow> ('h, 't) session_execution \<times> (unit, kernel_error) result" where
  "recheck_prompt who w s =
     (case ensure_active s of
        Ok _ \<Rightarrow> (s, Ok ())
      | Err e \<Rightarrow> (release_gate who s, Err (if e = SessionClosing then closing (pw_waiters w) else e)))"

definition install_prompt ::
    "('h, 't) token_ops \<Rightarrow> nat \<Rightarrow> 't prompt_wait \<Rightarrow> ('h, 't) session_execution \<Rightarrow>
     ('h, 't) session_execution \<times> ('t, kernel_error) result" where
  "install_prompt ops who w s =
     (if opt_cancelled ops s (pw_waiting w) \<or> opt_cancelled ops s (pw_parent w)
      then (release_gate who s, Err PromptCancelled)
      else
        let (t, s1) = fresh_token ops (pw_parent w) s in
        if is_cancelled ops s1 (pw_closing w) then
          (case pw_waiters w of
             WcIgnore \<Rightarrow> ((cancel_token ops t s1)\<lparr>sx_cancellation := t\<rparr>, Ok t)
           | _ \<Rightarrow> (release_gate who s1, Err PromptCancelled))
        else (s1\<lparr>sx_cancellation := t\<rparr>, Ok t))"

section \<open>lifecycle.rs: runs, waits and events\<close>

definition accept_receipt :: "nat \<Rightarrow> ('h, 't) session_execution \<Rightarrow> ('h, 't) session_execution" where
  "accept_receipt k s = s\<lparr>sx_submissions := sx_submissions s @ [k]\<rparr>"

definition settle_submissions :: "submission_answer \<Rightarrow> ('h, 't) session_execution \<Rightarrow> ('h, 't) session_execution" where
  "settle_submissions answer s =
     s\<lparr>sx_submissions := [],
       sx_receipts := fold (\<lambda>k r. r(k := resolve answer (r k))) (sx_submissions s) (sx_receipts s)\<rparr>"

definition install_run ::
    "active_run \<Rightarrow> ('h, 't) session_execution \<Rightarrow> ('h, 't) session_execution \<times> (unit, kernel_error) result" where
  "install_run context s =
     (if sx_active_run s \<noteq> None then (s, Err (ProtocolError ''session already has an active run''))
      else (s\<lparr>sx_active_run := Some context, sx_user_waits := 0\<rparr>, Ok ()))"

definition drop_run_lease :: "string \<Rightarrow> ('h, 't) session_execution \<Rightarrow> ('h, 't) session_execution" where
  "drop_run_lease run_id s =
     (let s1 = settle_submissions
            \<lparr>sa_message_id = None, sa_text = [], sa_outcome = AnswerFailed ''run ended before settlement''\<rparr>
            (s\<lparr>sx_queue := close_queue (sx_queue s)\<rparr>)
      in if map_option ar_run_id (sx_active_run s1) = Some run_id then s1\<lparr>sx_active_run := None\<rparr> else s1)"

definition set_active_turn ::
    "string \<Rightarrow> turn_id \<Rightarrow> ('h, 't) session_execution \<Rightarrow> ('h, 't) session_execution \<times> (unit, kernel_error) result" where
  "set_active_turn run_id turn s =
     (case sx_active_run s of
        None \<Rightarrow> (s, Err (ProtocolError ''session has no active run''))
      | Some context \<Rightarrow>
          if ar_run_id context \<noteq> run_id
          then (s, Err (ProtocolError ''active run changed while updating its Turn''))
          else (s\<lparr>sx_active_run := Some (context\<lparr>ar_turn_id := turn\<rparr>)\<rparr>, Ok ()))"

definition is_idle :: "('h, 't) session_execution \<Rightarrow> bool" where
  "is_idle s \<longleftrightarrow> sx_active_run s = None"

definition begin_user_wait :: "('h, 't) session_execution \<Rightarrow> ('h, 't) session_execution \<times> bool" where
  "begin_user_wait s = (s\<lparr>sx_user_waits := (sx_user_waits s + 1) mod 2 ^ 64\<rparr>, sx_user_waits s = 0)"

definition end_user_wait :: "('h, 't) session_execution \<Rightarrow> ('h, 't) session_execution \<times> bool" where
  "end_user_wait s =
     (if sx_user_waits s = 0 then (s, False)
      else (s\<lparr>sx_user_waits := sx_user_waits s - 1\<rparr>, sx_user_waits s = 1))"

definition next_event_sequence ::
    "('h, 't) session_execution \<Rightarrow> ('h, 't) session_execution \<times> (nat, kernel_error) result" where
  "next_event_sequence s =
     (s\<lparr>sx_sequence := (sx_sequence s + 1) mod 2 ^ 64\<rparr>,
      and_then (ok_or (ProtocolError ''event sequence overflow'') (checked_add_u64 (sx_sequence s) 1))
        (\<lambda>n. case sequence_try_from n of
               Ok q \<Rightarrow> Ok q
             | Err e \<Rightarrow> Err (ProtocolError (''sequence must be between 1 and '' @ decimal MAX_SAFE_INTEGER))))"

definition pending_snapshot :: "('h, 't) session_execution \<Rightarrow> pending_messages" where
  "pending_snapshot s = queue_snapshot (sx_queue s)"

definition pending_ids :: "('h, 't) session_execution \<Rightarrow> string list" where
  "pending_ids s = queue_ids (sx_queue s)"

definition has_pending :: "('h, 't) session_execution \<Rightarrow> bool" where
  "has_pending s \<longleftrightarrow> \<not> queue_is_empty (sx_queue s)"

end
