(* ===== verification/Execution_Props.thy ===== *)
theory Execution_Props
  imports Execution
begin

text \<open>
  What the gate and the cancellation tokens of a session guarantee. One prompt (holder 0 of the gate)
  waits for the gate and runs, interleaved with any operations of other tasks on the same session.
\<close>

section \<open>A prompt among other tasks\<close>

datatype 't prompt_phase =
    Waiting "'t prompt_wait"
  | Held "'t prompt_wait"
  | Checked "'t prompt_wait"
  | Running 't
  | Finished 't
  | Refused kernel_error

datatype 't execution_action =
    PromptStep
  | PromptFinish
  | OtherTakes nat
  | OtherReleases nat
  | OtherInstalls nat "'t option"
  | CancelSession
  | CancelCloseToken
  | CancelOther 't
  | BeginClosing
  | AbortClosing
  | FinishClosing
  | DropClosingGuard

type_synonym ('h, 't) prompt_system = "('h, 't) session_execution \<times> 't prompt_phase"

fun prompt_step :: "('h, 't) token_ops \<Rightarrow> ('h, 't) prompt_system \<Rightarrow> ('h, 't) prompt_system" where
  "prompt_step ops (s, Waiting w) =
     (case poll_prompt ops 0 w s of
        (s', None) \<Rightarrow> (s', Waiting w)
      | (s', Some (Ok _)) \<Rightarrow> (s', Held w)
      | (s', Some (Err e)) \<Rightarrow> (s', Refused e))"
| "prompt_step ops (s, Held w) =
     (case recheck_prompt 0 w s of (s', Ok _) \<Rightarrow> (s', Checked w) | (s', Err e) \<Rightarrow> (s', Refused e))"
| "prompt_step ops (s, Checked w) =
     (case install_prompt ops 0 w s of (s', Ok t) \<Rightarrow> (s', Running t) | (s', Err e) \<Rightarrow> (s', Refused e))"
| "prompt_step ops (s, p) = (s, p)"

text \<open>The request of a close cancels its token and then the session; both may be separated by other
  steps, so they are two actions. A token is installed only by the holder of the gate.\<close>

fun other_step :: "('h, 't) token_ops \<Rightarrow> 't execution_action \<Rightarrow> ('h, 't) session_execution \<Rightarrow> ('h, 't) session_execution" where
  "other_step ops (OtherTakes n) s = (if sx_gate s = None then s\<lparr>sx_gate := Some (Suc n)\<rparr> else s)"
| "other_step ops (OtherReleases n) s = release_gate (Suc n) s"
| "other_step ops (OtherInstalls n parent) s =
     (if sx_gate s = Some (Suc n) then snd (install_cancellation ops parent s) else s)"
| "other_step ops CancelSession s = cancel ops s"
| "other_step ops CancelCloseToken s = cancel_token ops (sx_close_requested s) s"
| "other_step ops (CancelOther t) s = cancel_token ops t s"
| "other_step ops BeginClosing s = fst (begin_closing s)"
| "other_step ops AbortClosing s = fst (abort_closing ops s)"
| "other_step ops FinishClosing s = finish_closing s"
| "other_step ops DropClosingGuard s = drop_closing_guard s"
| "other_step ops a s = s"

fun execution_act :: "('h, 't) token_ops \<Rightarrow> 't execution_action \<Rightarrow> ('h, 't) prompt_system \<Rightarrow> ('h, 't) prompt_system" where
  "execution_act ops PromptStep sys = prompt_step ops sys"
| "execution_act ops PromptFinish (s, Running t) = (release_gate 0 s, Finished t)"
| "execution_act ops PromptFinish (s, p) = (s, p)"
| "execution_act ops a (s, p) = (other_step ops a s, p)"

section \<open>Invariant\<close>

lemma token_simps:
  assumes "token_laws ops"
  shows "token_cancelled ops t (token_cancel ops t h)"
    "token_cancelled ops u h \<Longrightarrow> token_cancelled ops u (token_cancel ops t h)"
    "token_cancelled ops u h \<Longrightarrow> token_cancelled ops u (snd (token_new ops h))"
    "token_cancelled ops u h \<Longrightarrow> token_cancelled ops u (snd (token_child ops p h))"
  using assms by (simp_all add: token_laws_def)

lemmas execution_defs = is_cancelled_def cancel_token_def cancel_def fresh_token_def install_cancellation_def
  release_gate_def begin_closing_def abort_closing_def finish_closing_def drop_closing_guard_def Let_def

text \<open>No step of another task revokes a cancellation, takes the gate from the prompt, or replaces its token.\<close>

lemma other_step_keeps:
  assumes "token_laws ops"
  shows "is_cancelled ops s u \<Longrightarrow> is_cancelled ops (other_step ops a s) u"
    and "sx_gate s = Some 0 \<Longrightarrow> sx_gate (other_step ops a s) = Some 0 \<and>
           sx_cancellation (other_step ops a s) = sx_cancellation s"
    and "sx_gate s \<noteq> Some 0 \<Longrightarrow> sx_gate (other_step ops a s) \<noteq> Some 0"
    and "sx_lifecycle s \<noteq> Starting \<Longrightarrow> sx_lifecycle (other_step ops a s) \<noteq> Starting"
    and "sx_waiters (other_step ops a s) = sx_waiters s \<or> is_cancelled ops (other_step ops a s) (sx_waiters s)"
  using token_simps [OF assms]
  by (cases a; auto simp: execution_defs split: prod.splits option.splits session_lifecycle.splits if_splits; metis snd_conv)+

text \<open>A prompt of a client waits under the token of its arrival, which a cancellation of the session
  cancels before it puts a new one in its place. \<open>seen\<close> says that the session was cancelled meanwhile.\<close>

definition wait_inv :: "('h, 't) token_ops \<Rightarrow> bool \<Rightarrow> ('h, 't) session_execution \<Rightarrow> 't prompt_wait \<Rightarrow> bool" where
  "wait_inv ops seen s w \<longleftrightarrow> pw_waiters w \<noteq> WcIgnore \<and>
     (\<exists>x. pw_waiting w = Some x \<and> (is_cancelled ops s x \<or> \<not> seen \<and> x = sx_waiters s))"

fun prompt_inv :: "('h, 't) token_ops \<Rightarrow> bool \<Rightarrow> ('h, 't) prompt_system \<Rightarrow> bool" where
  "prompt_inv ops seen (s, p) \<longleftrightarrow> sx_lifecycle s \<noteq> Starting \<and>
     (case p of
        Waiting w \<Rightarrow> sx_gate s \<noteq> Some 0 \<and> wait_inv ops seen s w
      | Held w \<Rightarrow> sx_gate s = Some 0 \<and> wait_inv ops seen s w
      | Checked w \<Rightarrow> sx_gate s = Some 0 \<and> wait_inv ops seen s w
      | Running t \<Rightarrow> sx_gate s = Some 0 \<and> sx_cancellation s = t \<and> (seen \<longrightarrow> is_cancelled ops s t)
      | Finished t \<Rightarrow> sx_gate s \<noteq> Some 0 \<and> (seen \<longrightarrow> is_cancelled ops s t)
      | Refused e \<Rightarrow> sx_gate s \<noteq> Some 0 \<and> e = PromptCancelled)"

fun ended :: "'t prompt_phase \<Rightarrow> bool" where
  "ended (Finished t) \<longleftrightarrow> True"
| "ended (Refused e) \<longleftrightarrow> True"
| "ended _ \<longleftrightarrow> False"

lemma wait_inv_other:
  assumes "token_laws ops" "wait_inv ops seen s w"
  shows "wait_inv ops seen (other_step ops a s) w"
  using assms other_step_keeps(1,5) [OF assms(1)] unfolding wait_inv_def by metis

lemma other_inv:
  assumes "token_laws ops" "prompt_inv ops seen (s, p)"
  shows "prompt_inv ops seen (other_step ops a s, p)"
  using assms(2) other_step_keeps [OF assms(1), where s = s and a = a] wait_inv_other [OF assms(1), where seen = seen and s = s and a = a]
  by (cases p) simp_all

lemma cancel_seen:
  assumes "token_laws ops" "prompt_inv ops seen (s, p)" "\<not> ended p"
  shows "prompt_inv ops True (cancel ops s, p)"
proof -
  have c: "is_cancelled ops (cancel ops s) (sx_waiters s)" "is_cancelled ops (cancel ops s) (sx_cancellation s)"
    using token_simps [OF assms(1)] by (auto simp: execution_defs split: prod.split) (metis snd_conv)+
  have k: "sx_gate (cancel ops s) = sx_gate s" "sx_lifecycle (cancel ops s) = sx_lifecycle s"
    "sx_cancellation (cancel ops s) = sx_cancellation s"
    by (simp_all add: execution_defs split: prod.split)
  have "wait_inv ops True (cancel ops s) w" if "wait_inv ops seen s w" for w
    using that c(1) other_step_keeps(1) [OF assms(1), of s _ CancelSession] by (auto simp: wait_inv_def)
  with c k assms(2,3) show ?thesis by (cases p) simp_all
qed

lemma prompt_step_inv:
  assumes "token_laws ops" "prompt_inv ops seen (s, p)"
  shows "prompt_inv ops seen (prompt_step ops (s, p))"
proof (cases p)
  case (Waiting w)
  then show ?thesis using assms(2)
    by (cases "pw_waiters w") (auto simp: poll_prompt_def wait_inv_def is_cancelled_def)
next
  case (Held w)
  then show ?thesis using assms(2)
    by (cases "pw_waiters w"; cases "sx_lifecycle s")
      (auto simp: recheck_prompt_def ensure_active_def release_gate_def wait_inv_def)
next
  case (Checked w)
  obtain x where x: "pw_waiting w = Some x" "is_cancelled ops s x \<or> \<not> seen \<and> x = sx_waiters s"
    "pw_waiters w \<noteq> WcIgnore" "sx_gate s = Some 0" "sx_lifecycle s \<noteq> Starting"
    using assms(2) by (auto simp: Checked wait_inv_def)
  show ?thesis
  proof (cases "opt_cancelled ops s (pw_waiting w) \<or> opt_cancelled ops s (pw_parent w)")
    case False
    with x have "\<not> seen" by (auto simp: opt_cancelled_def)
    moreover obtain t s1 where new: "fresh_token ops (pw_parent w) s = (t, s1)" by (rule prod.exhaust)
    moreover from new have "sx_gate s1 = sx_gate s" "sx_lifecycle s1 = sx_lifecycle s"
      by (auto simp: fresh_token_def Let_def split: prod.splits)
    ultimately show ?thesis using False x
      by (cases "pw_waiters w") (simp_all add: Checked install_prompt_def release_gate_def)
  qed (use x in \<open>simp add: Checked install_prompt_def release_gate_def\<close>)
qed (use assms(2) in simp_all)

lemma act_inv:
  assumes "token_laws ops" "prompt_inv ops seen sys"
  shows "prompt_inv ops seen (execution_act ops a sys)"
proof -
  obtain s p where sys: "sys = (s, p)" by (rule prod.exhaust)
  show ?thesis
  proof (cases a)
    case PromptStep
    with assms prompt_step_inv [OF assms(1)] show ?thesis by (simp add: sys)
  next
    case PromptFinish
    with assms(2) show ?thesis by (cases p) (auto simp: sys release_gate_def is_cancelled_def)
  qed (use other_inv [OF assms(1), of seen s p a] assms(2) in \<open>simp_all add: sys\<close>)
qed

lemma run_inv:
  "token_laws ops \<Longrightarrow> prompt_inv ops seen sys \<Longrightarrow> prompt_inv ops seen (fold (execution_act ops) acts sys)"
  by (induction acts arbitrary: sys) (simp_all add: act_inv)

section \<open>A cancellation reaches every prompt it meets\<close>

text \<open>What a client's prompt can no longer escape.\<close>

fun stopped :: "('h, 't) token_ops \<Rightarrow> ('h, 't) prompt_system \<Rightarrow> bool" where
  "stopped ops (s, Running t) \<longleftrightarrow> is_cancelled ops s t"
| "stopped ops (s, Finished t) \<longleftrightarrow> is_cancelled ops s t"
| "stopped ops (s, Refused e) \<longleftrightarrow> e = PromptCancelled"
| "stopped ops (s, Waiting w) \<longleftrightarrow> snd (prompt_step ops (s, Waiting w)) = Refused PromptCancelled"
| "stopped ops (s, Checked w) \<longleftrightarrow> snd (prompt_step ops (s, Checked w)) = Refused PromptCancelled"
| "stopped ops (s, Held w) \<longleftrightarrow>
     (let (s', p) = prompt_step ops (s, Held w)
      in p = Refused PromptCancelled \<or> snd (prompt_step ops (s', p)) = Refused PromptCancelled)"

lemma stopped_inv: "prompt_inv ops True (s, p) \<Longrightarrow> stopped ops (s, p)"
proof (cases p)
  case (Waiting w)
  assume "prompt_inv ops True (s, p)"
  with Waiting show ?thesis
    by (cases "pw_waiters w") (auto simp: poll_prompt_def wait_inv_def opt_cancelled_def)
next
  case (Held w)
  assume "prompt_inv ops True (s, p)"
  with Held show ?thesis
    by (cases "pw_waiters w"; cases "sx_lifecycle s")
      (auto simp: recheck_prompt_def ensure_active_def wait_inv_def install_prompt_def opt_cancelled_def)
next
  case (Checked w)
  assume "prompt_inv ops True (s, p)"
  with Checked show ?thesis by (auto simp: install_prompt_def wait_inv_def opt_cancelled_def)
qed simp_all

lemma begin_prompt_inv:
  assumes "begin_prompt parent waiters s = Ok w" "waiters \<noteq> WcIgnore" "sx_gate s \<noteq> Some 0"
    and "\<And>t. waiters = WcCaptured t \<Longrightarrow> t = sx_waiters s \<or> is_cancelled ops s t"
  shows "prompt_inv ops False (s, Waiting w)"
  using assms
  by (cases waiters; cases "sx_lifecycle s") (auto simp: begin_prompt_def ensure_active_def wait_inv_def)

text \<open>C27: a client's prompt that waits for the gate of a session, interleaved in any way with other
  operations, cannot escape a cancellation: if the session is cancelled after the prompt captured its
  token and before it ended, then the prompt has been refused as cancelled, or it will be when it goes
  on, or it runs under a token that is cancelled. When it has ended it does not hold the gate.\<close>

theorem cancellation_reaches_prompt:
  fixes after :: "'t execution_action list" and s :: "('h, 't) session_execution"
  assumes "token_laws ops" "begin_prompt parent waiters s = Ok w" "waiters \<noteq> WcIgnore"
    and "\<forall>t. waiters = WcCaptured t \<longrightarrow> t = sx_waiters s \<or> is_cancelled ops s t" "sx_gate s \<noteq> Some 0"
    and "\<not> ended (snd (fold (execution_act ops) before (s, Waiting w)))"
  defines "final \<equiv> fold (execution_act ops) (before @ CancelSession # after) (s, Waiting w)"
  shows "stopped ops final \<and> (ended (snd final) \<longrightarrow> sx_gate (fst final) \<noteq> Some 0)"
proof -
  obtain s1 p1 where mid: "fold (execution_act ops) before (s, Waiting w) = (s1, p1)" by (rule prod.exhaust)
  have "prompt_inv ops False (s, Waiting w)" using assms(2-5) by (intro begin_prompt_inv) auto
  from run_inv [OF assms(1) this, of before] have "prompt_inv ops False (s1, p1)" by (simp only: mid)
  from cancel_seen [OF assms(1) this] assms(6) have "prompt_inv ops True (cancel ops s1, p1)" by (simp add: mid)
  from run_inv [OF assms(1) this, of after] have "prompt_inv ops True final" by (simp add: final_def mid)
  moreover obtain s2 p2 where "final = (s2, p2)" by (rule prod.exhaust)
  ultimately show ?thesis using stopped_inv [of ops s2 p2] by (cases p2) simp_all
qed

text \<open>Tokens as paths from their root, with the tokens cancelled so far: a token is cancelled with any of
  its ancestors.\<close>

definition path_tokens :: "(nat \<times> nat list list, nat list) token_ops" where
  "path_tokens = \<lparr>
     token_new = (\<lambda>(n, cs). ([n], (Suc n, cs))),
     token_child = (\<lambda>p (n, cs). (p @ [n], (Suc n, cs))),
     token_cancel = (\<lambda>t (n, cs). (n, t # cs)),
     token_cancelled = (\<lambda>t (n, cs). list_ex (\<lambda>c. take (length c) t = c) cs)\<rparr>"

lemma path_token_laws: "token_laws path_tokens"
  by (auto simp: token_laws_def path_tokens_def)

definition idle_execution :: "(nat \<times> nat list list, nat list) session_execution" where
  "idle_execution = \<lparr>sx_submissions = [], sx_receipts = (\<lambda>k. new_slot), sx_admission = admission_default,
     sx_lifecycle = Active, sx_closing = False, sx_gate = Some 1, sx_close_requested = [0], sx_waiters = [1],
     sx_active_run = None, sx_user_waits = 0, sx_cancellation = [2], sx_queue = empty_queue, sx_sequence = 0,
     sx_tokens = (3, [])\<rparr>"

theorem cancellation_reaches_prompt_witness:
  "\<exists>w. begin_prompt None WcReject idle_execution = Ok w \<and>
    (let final = fold (execution_act path_tokens)
       [PromptStep, CancelSession, OtherReleases 0, PromptStep] (idle_execution, Waiting w)
     in snd final = Refused PromptCancelled \<and> stopped path_tokens final)"
proof -
  obtain w where w: "begin_prompt None WcReject idle_execution = Ok w"
    by (simp add: begin_prompt_def ensure_active_def idle_execution_def)
  then have eq: "w = \<lparr>pw_closing = [0], pw_waiting = Some [1], pw_parent = None, pw_waiters = WcReject\<rparr>"
    by (simp add: begin_prompt_def ensure_active_def idle_execution_def)
  have before: "\<not> ended (snd (fold (execution_act path_tokens) [PromptStep] (idle_execution, Waiting w)))"
    by (simp add: eq poll_prompt_def opt_cancelled_def is_cancelled_def idle_execution_def path_tokens_def)
  have "stopped path_tokens (fold (execution_act path_tokens)
      ([PromptStep] @ CancelSession # [OtherReleases 0, PromptStep]) (idle_execution, Waiting w))"
    using cancellation_reaches_prompt [OF path_token_laws w, of "[PromptStep]" "[OtherReleases 0, PromptStep]"] before
    by (simp add: idle_execution_def)
  moreover have "snd (fold (execution_act path_tokens)
      [PromptStep, CancelSession, OtherReleases 0, PromptStep] (idle_execution, Waiting w)) = Refused PromptCancelled"
    by (simp add: eq poll_prompt_def opt_cancelled_def execution_defs idle_execution_def path_tokens_def)
  ultimately show ?thesis using w by (auto simp: Let_def)
qed

section \<open>Closing, waits and events\<close>

text \<open>Once a close was requested, no operation is admitted until the close is aborted.\<close>

lemma closing_refuses_operations:
  assumes "token_laws ops" "is_cancelled ops s (sx_close_requested s)"
  shows "\<exists>e. snd (try_acquire_operation ops who s) = Err e"
    and "begin_operation s = Ok t \<Longrightarrow> poll_operation ops who t s = (s, Some (Err SessionClosing))"
  using assms(2)
  by (auto simp: try_acquire_operation_def begin_operation_def poll_operation_def result_simps split: result.split)

text \<open>What a client is told about pending questions: begun by the first wait, ended by the last.\<close>

fun user_wait_report :: "bool \<Rightarrow> ('h, 't) session_execution \<times> bool \<Rightarrow> ('h, 't) session_execution \<times> bool" where
  "user_wait_report True (s, told) = (let (s', first) = begin_user_wait s in (s', told \<or> first))"
| "user_wait_report False (s, told) = (let (s', last) = end_user_wait s in (s', told \<and> \<not> last))"

lemma user_waits_told:
  "sx_user_waits s + length evs < 2 ^ 64 \<Longrightarrow> told = (sx_user_waits s > 0) \<Longrightarrow>
    fold user_wait_report evs (s, told) = (s', told') \<Longrightarrow> told' = (sx_user_waits s' > 0)"
proof (induction evs arbitrary: s told)
  case (Cons ev evs)
  obtain s1 told1 where 1: "user_wait_report ev (s, told) = (s1, told1)" by (rule prod.exhaust)
  then have "sx_user_waits s1 + length evs < 2 ^ 64" "told1 = (sx_user_waits s1 > 0)"
    using Cons.prems(1,2) by (cases ev; auto simp: begin_user_wait_def end_user_wait_def split: if_splits)+
  with Cons.IH [of s1 told1] Cons.prems(3) 1 show ?case by simp
qed simp

text \<open>Event sequences are consecutive; past the JSON-safe range every call fails.\<close>

lemma next_event_sequence_result:
  assumes "sx_sequence s < u64_max"
  shows "sx_sequence (fst (next_event_sequence s)) = Suc (sx_sequence s)"
    and "snd (next_event_sequence s) = (if Suc (sx_sequence s) \<le> MAX_SAFE_INTEGER then Ok (Suc (sx_sequence s))
      else Err (ProtocolError (''sequence must be between 1 and '' @ decimal MAX_SAFE_INTEGER)))"
  using assms by (simp_all add: next_event_sequence_def checked_add_u64_def sequence_try_from_def u64_max_def)

end
