(* ===== verification/Template.thy ===== *)
theory Template
  imports Claw_Prelude
begin

text \<open>
  Prompt templates, \<^verbatim>\<open>crates/prompt/src/template/expansion.rs\<close>: splitting the arguments of a command,
  resolving one placeholder, and the scan that expands a template. The main results give the meaning
  of a template piece by piece and read quoted arguments back.
\<close>

section \<open>expansion.rs: arguments\<close>

definition push_argument :: "string \<Rightarrow> string list" where
  "push_argument current = (if current = [] then [] else [current])"

abbreviation is_quote :: "char \<Rightarrow> bool" where
  "is_quote c \<equiv> c = CHR 0x27 \<or> c = CHR 0x22"

function split_arguments :: "char option \<Rightarrow> string \<Rightarrow> string \<Rightarrow> string list" where
  "split_arguments quote current [] = push_argument current"
| "split_arguments (Some d) current (c # cs) =
     (if c = d then split_arguments None current cs else split_arguments (Some d) (current @ [c]) cs)"
| "split_arguments None current (c # cs) =
     (if is_quote c then split_arguments (Some c) current cs
      else if ws_len (c # cs) > 0
        then push_argument current @ split_arguments None [] (drop (ws_len (c # cs)) (c # cs))
      else split_arguments None (current @ [c]) cs)"
  by pat_completeness auto
termination
  by (relation "measure (\<lambda>(q, cur, s). length s)") auto

definition command_arguments :: "string \<Rightarrow> string list" where
  "command_arguments v = split_arguments None [] v"

section \<open>expansion.rs: placeholders\<close>

text \<open>\<^verbatim>\<open>str::parse::<usize>\<close>, which takes a leading plus sign.\<close>

definition parse_usize :: "string \<Rightarrow> nat option" where
  "parse_usize s =
     (let digits = (case s of c # cs \<Rightarrow> if c = CHR ''+'' then cs else s | [] \<Rightarrow> [])
      in if digits \<noteq> [] \<and> list_all is_ascii_digit digits then parse_u64 digits else None)"

fun split_once :: "string \<Rightarrow> string \<Rightarrow> (string \<times> string) option" where
  "split_once sep s =
     (if starts_with sep s then Some ([], drop (length sep) s)
      else case s of [] \<Rightarrow> None | c # cs \<Rightarrow> map_option (\<lambda>(a, b). (c # a, b)) (split_once sep cs))"

declare split_once.simps [simp del]

text \<open>The argument at a one-based position, empty when there is none.\<close>

definition positional :: "string list \<Rightarrow> string \<Rightarrow> string" where
  "positional args digits =
     (case parse_usize digits of
        Some (Suc i) \<Rightarrow> if i < length args then args ! i else []
      | _ \<Rightarrow> [])"

definition all_arguments :: "string list \<Rightarrow> string" where
  "all_arguments args = join_with '' '' args"

definition default_replacement :: "string list \<Rightarrow> string \<Rightarrow> string option" where
  "default_replacement args body =
     (case split_once '':-'' body of
        Some (target, default_value) \<Rightarrow>
          if (target = ''@'' \<or> target = ''ARGUMENTS'' \<or> list_all is_ascii_digit target) \<and> target \<noteq> [] then
            (let v = (if target = ''@'' \<or> target = ''ARGUMENTS'' then all_arguments args else positional args target)
             in Some (if v = [] then default_value else v))
          else None
      | None \<Rightarrow> None)"

text \<open>The outcome of reading \<^verbatim>\<open>@:start:length\<close>: a replacement, no placeholder at all, or another form.\<close>

definition slice_replacement :: "string list \<Rightarrow> string \<Rightarrow> string option option" where
  "slice_replacement args slice =
     (case map parse_usize (split_on CHR '':'' slice) of
        [Some start] \<Rightarrow> Some (Some (all_arguments (drop (start - 1) args)))
      | [Some start, Some n] \<Rightarrow> Some (Some (all_arguments (take n (drop (start - 1) args))))
      | Some start # Some n # more \<Rightarrow> None
      | _ \<Rightarrow> Some None)"

definition plain_replacement :: "string list \<Rightarrow> string \<Rightarrow> (nat \<times> string) option" where
  "plain_replacement args candidate =
     (if starts_with ''$ARGUMENTS'' candidate then Some (10, all_arguments args)
      else if starts_with ''$@'' candidate then Some (2, all_arguments args)
      else case strip_prefix ''$'' candidate of
          None \<Rightarrow> None
        | Some rest \<Rightarrow>
            (let digits = takeWhile is_ascii_digit rest
             in if digits = [] then None else Some (length digits + 1, positional args digits)))"

definition placeholder_replacement :: "string list \<Rightarrow> string \<Rightarrow> (nat \<times> string) option" where
  "placeholder_replacement args candidate =
     (case strip_prefix ''${'' candidate of
        Some expression \<Rightarrow>
          if CHR ''}'' \<in> set expression then
            (let body = takeWhile (\<lambda>c. c \<noteq> CHR ''}'') expression; consumed = length body + 3 in
             case default_replacement args body of
               Some v \<Rightarrow> Some (consumed, v)
             | None \<Rightarrow>
                 (case strip_prefix ''@:'' body of
                    Some slice \<Rightarrow>
                      (case slice_replacement args slice of
                         Some (Some v) \<Rightarrow> Some (consumed, v)
                       | Some None \<Rightarrow> None
                       | None \<Rightarrow> plain_replacement args candidate)
                  | None \<Rightarrow> plain_replacement args candidate))
          else plain_replacement args candidate
      | None \<Rightarrow> plain_replacement args candidate)"

section \<open>expansion.rs: the scan\<close>

abbreviation dollar_sign :: char where
  "dollar_sign \<equiv> CHR 0x24"

lemma plain_replacement_consumes: "plain_replacement args s = Some (n, v) \<Longrightarrow> 0 < n"
  by (auto simp: plain_replacement_def Let_def split: if_splits option.splits)

lemma placeholder_consumes: "placeholder_replacement args s = Some (n, v) \<Longrightarrow> 0 < n"
  by (auto simp: placeholder_replacement_def Let_def dest: plain_replacement_consumes split: if_splits option.splits)

function expand :: "string list \<Rightarrow> string \<Rightarrow> string" where
  "expand args template =
     (let literal = takeWhile (\<lambda>c. c \<noteq> dollar_sign) template;
          candidate = dropWhile (\<lambda>c. c \<noteq> dollar_sign) template
      in if candidate = [] then literal
         else case placeholder_replacement args candidate of
             Some (consumed, replacement) \<Rightarrow> literal @ replacement @ expand args (drop consumed candidate)
           | None \<Rightarrow> literal @ [dollar_sign] @ expand args (drop 1 candidate))"
  by pat_completeness auto
termination
proof (relation "measure (length \<circ> snd)")
  fix args :: "string list" and template candidate replacement :: string and consumed :: nat and p :: "nat \<times> string"
  assume c: "candidate = dropWhile (\<lambda>c. c \<noteq> dollar_sign) template" "candidate \<noteq> []"
  have le: "length candidate \<le> length template" by (simp add: c(1) length_dropWhile_le)
  show "((args, drop 1 candidate), (args, template)) \<in> measure (length \<circ> snd)"
    using le c(2) by (cases candidate) auto
  assume "placeholder_replacement args candidate = Some p" "(consumed, replacement) = p"
  then have "0 < consumed" by (auto dest: placeholder_consumes)
  with le c(2) show "((args, drop consumed candidate), (args, template)) \<in> measure (length \<circ> snd)"
    by (cases candidate) auto
qed simp

declare expand.simps [simp del]

section \<open>expansion.rs: invocations\<close>

record template_invocation =
  ti_name :: string
  ti_arguments :: "string list"

function split_name :: "string \<Rightarrow> string \<times> string" where
  "split_name [] = ([], [])"
| "split_name (c # cs) =
     (if ws_len (c # cs) > 0 then ([], c # cs) else let (a, b) = split_name cs in (c # a, b))"
  by pat_completeness auto
termination
  by (relation "measure length") auto

definition template_invocation_try_from :: "string \<Rightarrow> template_invocation option" where
  "template_invocation_try_from v =
     (case strip_prefix ''/'' v of
        None \<Rightarrow> None
      | Some command \<Rightarrow>
          if command = [] then None
          else let (name, arguments) = split_name command
               in if name = [] then None
                  else Some \<lparr>ti_name = name, ti_arguments = command_arguments arguments\<rparr>)"

section \<open>The meaning of a template\<close>

datatype template_piece =
    Literal string
  | Position nat
  | AllNamed
  | AllAt
  | DefaultPosition nat string
  | DefaultAll bool string
  | Slice nat "nat option"

definition braces :: "string \<Rightarrow> string" where
  "braces body = ''${'' @ body @ ''}''"

fun piece_text :: "template_piece \<Rightarrow> string" where
  "piece_text (Literal s) = s"
| "piece_text (Position n) = ''$'' @ decimal n"
| "piece_text AllNamed = ''$ARGUMENTS''"
| "piece_text AllAt = ''$@''"
| "piece_text (DefaultPosition n d) = braces (decimal n @ '':-'' @ d)"
| "piece_text (DefaultAll named d) = braces ((if named then ''ARGUMENTS'' else ''@'') @ '':-'' @ d)"
| "piece_text (Slice a None) = braces (''@:'' @ decimal a)"
| "piece_text (Slice a (Some n)) = braces (''@:'' @ decimal a @ '':'' @ decimal n)"

definition nth_argument :: "string list \<Rightarrow> nat \<Rightarrow> string" where
  "nth_argument args n = (if 0 < n \<and> n \<le> length args then args ! (n - 1) else [])"

definition or_default :: "string \<Rightarrow> string \<Rightarrow> string" where
  "or_default v d = (if v = [] then d else v)"

fun piece_value :: "string list \<Rightarrow> template_piece \<Rightarrow> string" where
  "piece_value args (Literal s) = s"
| "piece_value args (Position n) = nth_argument args n"
| "piece_value args AllNamed = join_with '' '' args"
| "piece_value args AllAt = join_with '' '' args"
| "piece_value args (DefaultPosition n d) = or_default (nth_argument args n) d"
| "piece_value args (DefaultAll named d) = or_default (join_with '' '' args) d"
| "piece_value args (Slice a None) = join_with '' '' (drop (a - 1) args)"
| "piece_value args (Slice a (Some n)) = join_with '' '' (take n (drop (a - 1) args))"

fun wf_piece :: "string \<Rightarrow> template_piece \<Rightarrow> bool" where
  "wf_piece next (Literal s) \<longleftrightarrow> dollar_sign \<notin> set s"
| "wf_piece next (Position n) \<longleftrightarrow> n \<le> u64_max \<and> (next = [] \<or> \<not> is_ascii_digit (hd next))"
| "wf_piece next (DefaultPosition n d) \<longleftrightarrow> n \<le> u64_max \<and> CHR ''}'' \<notin> set d"
| "wf_piece next (DefaultAll named d) \<longleftrightarrow> CHR ''}'' \<notin> set d"
| "wf_piece next (Slice a n) \<longleftrightarrow> a \<le> u64_max \<and> (case n of None \<Rightarrow> True | Some n' \<Rightarrow> n' \<le> u64_max)"
| "wf_piece next p \<longleftrightarrow> True"

abbreviation template_text :: "template_piece list \<Rightarrow> string" where
  "template_text ps \<equiv> concat (map piece_text ps)"

fun wf_pieces :: "template_piece list \<Rightarrow> bool" where
  "wf_pieces [] \<longleftrightarrow> True"
| "wf_pieces (p # ps) \<longleftrightarrow> wf_piece (template_text ps) p \<and> wf_pieces ps"

subsection \<open>Reading numbers and separators\<close>

lemma decimal_digit_set: "c \<in> set (decimal n) \<Longrightarrow> is_ascii_digit c"
  using decimal_digits [of n] by (simp add: list_all_iff)

lemma not_in_decimal: "\<not> is_ascii_digit c \<Longrightarrow> c \<notin> set (decimal n)"
  using decimal_digit_set by blast

lemma parse_usize_decimal [simp]: "n \<le> u64_max \<Longrightarrow> parse_usize (decimal n) = Some n"
  using decimal_digits [of n] not_in_decimal [of "CHR ''+''" n] parse_decimal [of n]
  by (cases "decimal n") (auto simp: parse_usize_def is_ascii_digit_def)

lemma positional_decimal: "n \<le> u64_max \<Longrightarrow> positional args (decimal n) = nth_argument args n"
  by (cases n) (auto simp: positional_def nth_argument_def)

lemma split_once_first: "CHR '':'' \<notin> set target \<Longrightarrow> split_once '':-'' (target @ '':-'' @ d) = Some (target, d)"
  by (induction target) (auto simp: split_once.simps [of _ "_ # _"] starts_with_def)

lemma split_once_absent: "CHR ''-'' \<notin> set s \<Longrightarrow> split_once '':-'' s = None"
proof (induction s)
  case (Cons c cs)
  then show ?case by (cases cs) (auto simp: split_once.simps [of _ "_ # _"] starts_with_def)
qed (simp add: split_once.simps starts_with_def)

lemma digits_stop:
  assumes "list_all is_ascii_digit ds" "t = [] \<or> \<not> is_ascii_digit (hd t)"
  shows "takeWhile is_ascii_digit (ds @ t) = ds"
  using assms by (cases t) (auto simp: list_all_iff takeWhile_append2 takeWhile_append)

subsection \<open>One placeholder at a time\<close>

lemma braces_body:
  assumes "CHR ''}'' \<notin> set body"
  shows "strip_prefix ''${'' (braces body @ t) = Some (body @ ''}'' @ t)"
    and "takeWhile (\<lambda>c. c \<noteq> CHR ''}'') (body @ ''}'' @ t) = body"
  using assms by (auto simp: braces_def strip_prefix_def starts_with_def takeWhile_append)

lemma braces_default:
  assumes "CHR ''}'' \<notin> set body" "default_replacement args body = Some v"
  shows "placeholder_replacement args (braces body @ t) = Some (length (braces body), v)"
  using assms(2) braces_body [OF assms(1), of t]
  by (simp add: placeholder_replacement_def Let_def) (simp add: braces_def)

lemma braces_slice:
  assumes "CHR ''}'' \<notin> set slice" "CHR ''-'' \<notin> set slice" "slice_replacement args slice = Some (Some v)"
  shows "placeholder_replacement args (braces (''@:'' @ slice) @ t) = Some (length (braces (''@:'' @ slice)), v)"
proof -
  have "default_replacement args (''@:'' @ slice) = None"
    using assms(2) by (simp add: default_replacement_def split_once_absent)
  moreover have "strip_prefix ''@:'' (''@:'' @ slice) = Some slice" by (simp add: strip_prefix_def starts_with_def)
  ultimately show ?thesis
    using assms(3) braces_body [of "''@:'' @ slice" t] assms(1)
    by (simp add: placeholder_replacement_def Let_def) (simp add: braces_def)
qed

lemma plain_placeholder:
  "\<not> starts_with ''${'' s \<Longrightarrow> placeholder_replacement args s = plain_replacement args s"
  by (simp add: placeholder_replacement_def strip_prefix_def)

fun is_literal :: "template_piece \<Rightarrow> bool" where
  "is_literal (Literal s) \<longleftrightarrow> True"
| "is_literal _ \<longleftrightarrow> False"

lemma placeholder_position:
  assumes "n \<le> u64_max" "t = [] \<or> \<not> is_ascii_digit (hd t)"
  shows "placeholder_replacement args (dollar_sign # decimal n @ t) = Some (Suc (length (decimal n)), nth_argument args n)"
proof -
  have "hd (decimal n @ t) = hd (decimal n)" "is_ascii_digit (hd (decimal n))"
    using decimal_digits [of n] by (cases "decimal n"; simp)+
  then obtain c cs where c: "decimal n @ t = c # cs" "is_ascii_digit c" by (cases "decimal n @ t") auto
  have "plain_replacement args (dollar_sign # decimal n @ t) = Some (Suc (length (decimal n)), positional args (decimal n))"
    using c digits_stop [OF decimal_digits assms(2), of n]
    by (auto simp: plain_replacement_def starts_with_def strip_prefix_def is_ascii_digit_def Let_def)
  moreover have "\<not> starts_with ''${'' (dollar_sign # decimal n @ t)"
    using c by (auto simp: starts_with_def is_ascii_digit_def)
  ultimately show ?thesis using assms(1) by (simp add: plain_placeholder positional_decimal)
qed

lemma placeholder_piece:
  assumes "wf_piece t p" "\<not> is_literal p"
  shows "placeholder_replacement args (piece_text p @ t) = Some (length (piece_text p), piece_value args p)"
proof -
  have digits: "list_all is_ascii_digit (decimal n)" "decimal n \<noteq> []" "CHR '':'' \<notin> set (decimal n)" "CHR ''-'' \<notin> set (decimal n)"
    "CHR ''}'' \<notin> set (decimal n)" "decimal n \<noteq> ''@''" "decimal n \<noteq> ''ARGUMENTS''" for n
    using decimal_digits [of n] not_in_decimal [of _ n]
    by (auto simp: is_ascii_digit_def)
  show ?thesis
  proof (cases p)
    case (Position n)
    with assms(1) show ?thesis by (simp add: placeholder_position)
  next
    case (DefaultPosition n d)
    have "default_replacement args (decimal n @ '':-'' @ d) = Some (or_default (nth_argument args n) d)"
      unfolding default_replacement_def split_once_first [OF digits(3)] option.case prod.case
      using digits assms(1) DefaultPosition by (simp add: positional_decimal or_default_def Let_def)
    from braces_default [OF _ this] show ?thesis using digits(5) assms(1) DefaultPosition by simp
  next
    case (DefaultAll named d)
    have "default_replacement args ((if named then ''ARGUMENTS'' else ''@'') @ '':-'' @ d) = Some (or_default (join_with '' '' args) d)"
      unfolding default_replacement_def using split_once_first [of "if named then ''ARGUMENTS'' else ''@''" d]
      by (auto simp: all_arguments_def or_default_def Let_def)
    from braces_default [OF _ this] show ?thesis using assms(1) DefaultAll by (cases named) simp_all
  next
    case (Slice a len)
    show ?thesis
    proof (cases len)
      case None
      have "slice_replacement args (decimal a) = Some (Some (join_with '' '' (drop (a - 1) args)))"
        using assms(1) digits(3) [of a] by (simp add: Slice None slice_replacement_def str_simps all_arguments_def)
      from braces_slice [OF digits(5,4) this] show ?thesis by (simp add: Slice None)
    next
      case (Some n)
      have "split_on CHR '':'' (decimal a @ '':'' @ decimal n) = [decimal a, decimal n]"
        using digits(3) by (simp add: str_simps)
      then have "slice_replacement args (decimal a @ '':'' @ decimal n) = Some (Some (join_with '' '' (take n (drop (a - 1) args))))"
        using assms(1) by (simp add: Slice Some slice_replacement_def all_arguments_def)
      from braces_slice [OF _ _ this] show ?thesis using digits(4,5) by (simp add: Slice Some)
    qed
  qed (use assms in \<open>auto simp: plain_placeholder plain_replacement_def starts_with_def all_arguments_def\<close>)
qed

subsection \<open>The whole scan\<close>

lemma expand_Nil [simp]: "expand args [] = []"
  by (simp add: expand.simps)

lemma expand_literal:
  assumes "dollar_sign \<notin> set s"
  shows "expand args (s @ t) = s @ expand args t"
proof -
  have "takeWhile (\<lambda>c. c \<noteq> dollar_sign) (s @ t) = s @ takeWhile (\<lambda>c. c \<noteq> dollar_sign) t"
    "dropWhile (\<lambda>c. c \<noteq> dollar_sign) (s @ t) = dropWhile (\<lambda>c. c \<noteq> dollar_sign) t"
    using assms by (auto simp: takeWhile_append dropWhile_append)
  then show ?thesis
    unfolding expand.simps [of args "s @ t"] expand.simps [of args t] by (auto simp: Let_def split: option.split)
qed

lemma expand_placeholder:
  assumes "placeholder_replacement args (p @ t) = Some (length p, v)" "p \<noteq> []" "hd p = dollar_sign"
  shows "expand args (p @ t) = v @ expand args t"
proof -
  obtain p' where "p = dollar_sign # p'" using assms(2,3) by (cases p) auto
  with assms(1) show ?thesis unfolding expand.simps [of args "p @ t"] by (simp add: Let_def)
qed

lemma placeholder_text: "\<not> is_literal p \<Longrightarrow> piece_text p \<noteq> [] \<and> hd (piece_text p) = dollar_sign"
  by (cases p rule: piece_text.cases) (auto simp: braces_def)

text \<open>C35: a template means the concatenation of what its pieces mean: literal text stands for itself, a
  placeholder for the arguments it selects or its default. The scan goes over the template once, so
  text that arguments or defaults bring in is never taken for a placeholder.\<close>

theorem template_expansion_meaning:
  "wf_pieces ps \<Longrightarrow> expand args (template_text ps) = concat (map (piece_value args) ps)"
proof (induction ps)
  case (Cons p ps)
  show ?case
  proof (cases "is_literal p")
    case True
    then obtain s where "p = Literal s" by (cases p) auto
    with Cons show ?thesis by (simp add: expand_literal)
  next
    case False
    from Cons.prems have "placeholder_replacement args (piece_text p @ template_text ps) = Some (length (piece_text p), piece_value args p)"
      by (intro placeholder_piece) (simp_all add: False)
    from expand_placeholder [OF this] placeholder_text [OF False] Cons show ?thesis by simp
  qed
qed simp

theorem template_expansion_meaning_witness:
  "expand [''$2'', ''b''] ''say $1 and ${3:-no} to ${@:2}'' = ''say $2 and no to b''"
proof -
  let ?ps = "[Literal ''say '', Position 1, Literal '' and '', DefaultPosition 3 ''no'', Literal '' to '', Slice 2 None]"
  have d: "decimal 1 = ''1''" "decimal 2 = ''2''" "decimal 3 = ''3''" by code_simp+
  have "wf_pieces ?ps" by (simp add: u64_max_def is_ascii_digit_def)
  from template_expansion_meaning [OF this, of "[''$2'', ''b'']"] show ?thesis
    by (simp add: d d(1) [unfolded One_nat_def] braces_def nth_argument_def or_default_def)
qed

section \<open>Arguments\<close>

definition quoted :: "string \<Rightarrow> string" where
  "quoted a = CHR 0x22 # a @ [CHR 0x22]"

lemma split_in_quotes:
  "d \<notin> set a \<Longrightarrow> split_arguments (Some d) current (a @ d # t) = split_arguments None (current @ a) t"
  by (induction a arbitrary: current) auto

lemma split_quoted:
  "CHR 0x22 \<notin> set a \<Longrightarrow> split_arguments None [] (quoted a @ t) = split_arguments None a t"
  using split_in_quotes [of "CHR 0x22" a "[]" t] by (simp add: quoted_def)

text \<open>Arguments written in double quotes and separated by blanks are read back as they were, white
  space and single quotes included, as long as none is empty or holds a double quote.\<close>

lemma quoted_arguments_roundtrip:
  "list_all (\<lambda>a. a \<noteq> [] \<and> CHR 0x22 \<notin> set a) args \<Longrightarrow>
    command_arguments (join_with '' '' (map quoted args)) = args"
  unfolding command_arguments_def
proof (induction args)
  case (Cons a args)
  then have a: "a \<noteq> []" "CHR 0x22 \<notin> set a" by simp_all
  have blank: "split_arguments None a ('' '' @ t) = a # split_arguments None [] t" for t
    using a(1) by (cases t rule: remdups_adj.cases) (simp_all add: ws1_def push_argument_def)
  show ?case
  proof (cases args)
    case Nil
    with a split_quoted [OF a(2), of "[]"] show ?thesis by (simp add: push_argument_def)
  next
    case (Cons b bs)
    then have "join_with '' '' (map quoted (a # args)) = quoted a @ '' '' @ join_with '' '' (map quoted args)" by simp
    with a Cons.IH Cons.prems split_quoted [OF a(2)] blank show ?thesis by simp
  qed
qed (simp add: push_argument_def)

text \<open>An accepted invocation starts with a slash and a name without white space at its start.\<close>

lemma split_name_append: "split_name s = (a, b) \<Longrightarrow> s = a @ b"
  by (induction s arbitrary: a b rule: split_name.induct) (auto split: if_splits prod.splits)

lemma template_invocation_name:
  "template_invocation_try_from v = Some i \<Longrightarrow> \<exists>rest. v = ''/'' @ ti_name i @ rest \<and> ti_name i \<noteq> [] \<and> ti_arguments i = command_arguments rest"
  by (auto simp: template_invocation_try_from_def str_simps Let_def dest: split_name_append split: option.splits if_splits prod.splits)

end
