(* ===== verification/Navigation.thy ===== *)
theory Navigation
  imports Transcript_Props
begin

text \<open>
  Moving a session to another entry of its tree: the topology captured before
  (\<^verbatim>\<open>crates/kernel/src/runtime/session/tree.rs\<close>) and the commit with its compensation
  (\<^verbatim>\<open>crates/kernel/src/runtime/session/transcript.rs\<close>). Every write may fail; the outcomes of the
  writes of one navigation come as an argument.
\<close>

section \<open>transcript.rs: snapshot\<close>

record navigation_snapshot =
  ns_old_leaf_id :: "entry_id option"
  ns_target :: session_entry
  ns_old_branch :: "session_entry list"
  ns_target_branch :: "session_entry list"

text \<open>\<open>None\<close> would be a branch walk that never ends.\<close>

definition capture_snapshot ::
    "entry_id \<Rightarrow> transcript \<Rightarrow> (navigation_snapshot, kernel_error) result option" where
  "capture_snapshot target_id t =
     (case get_entry (ts_store t) target_id of
        None \<Rightarrow> Some (Err (StoreFailed (EntryNotFound target_id)))
      | Some target \<Rightarrow>
         (case active_branch (ts_store t) (ts_lane t) of
            None \<Rightarrow> None
          | Some (Err e) \<Rightarrow> Some (Err (StoreFailed e))
          | Some (Ok old_branch) \<Rightarrow>
             (case branch (ts_store t) target_id of
                None \<Rightarrow> None
              | Some (Err e) \<Rightarrow> Some (Err (StoreFailed e))
              | Some (Ok target_branch) \<Rightarrow> Some (Ok
                  \<lparr>ns_old_leaf_id = lane_leaf (ts_store t) (ts_lane t), ns_target = target,
                   ns_old_branch = old_branch, ns_target_branch = target_branch\<rparr>))))"

section \<open>tree.rs: plan\<close>

record tree_navigation_plan =
  tp_old_leaf_id :: "entry_id option"
  tp_target_id :: entry_id
  tp_new_leaf_id :: "entry_id option"
  tp_common_ancestor_id :: "entry_id option"
  tp_entries_to_summarize :: "session_entry list"

fun reopens_input :: "message_content \<Rightarrow> bool" where
  "reopens_input (McUser blocks) \<longleftrightarrow> True"
| "reopens_input (McExpandedUser expansion) \<longleftrightarrow> True"
| "reopens_input _ \<longleftrightarrow> False"

definition common_length :: "session_entry list \<Rightarrow> session_entry list \<Rightarrow> nat" where
  "common_length old target = length (takeWhile (\<lambda>(o', t). se_id o' = se_id t) (zip old target))"

definition capture_plan :: "transcript_env \<Rightarrow> navigation_snapshot \<Rightarrow> tree_navigation_plan" where
  "capture_plan env s =
     (let n = common_length (ns_old_branch s) (ns_target_branch s); target = ns_target s in
      \<lparr>tp_old_leaf_id = ns_old_leaf_id s, tp_target_id = se_id target,
       tp_new_leaf_id =
         (if se_kind target = EkMessage \<and>
             (case decode_message env (JObject (se_payload target)) of
                Some m \<Rightarrow> reopens_input (msg_content m) | None \<Rightarrow> False)
          then se_parent_id target else Some (se_id target)),
       tp_common_ancestor_id = (case n of 0 \<Rightarrow> None | Suc i \<Rightarrow> Some (se_id (ns_old_branch s ! i))),
       tp_entries_to_summarize = drop n (ns_old_branch s)\<rparr>)"

record session_tree_entry =
  te_entry_id :: entry_id
  te_parent_id :: "entry_id option"
  te_kind :: string
  te_timestamp_ms :: nat
  te_payload :: json

definition tree_entry :: "session_entry \<Rightarrow> session_tree_entry" where
  "tree_entry e = \<lparr>te_entry_id = se_id e, te_parent_id = se_parent_id e, te_kind = entry_kind_as_str (se_kind e),
     te_timestamp_ms = se_timestamp_ms e, te_payload = JObject (se_payload e)\<rparr>"

definition protocol_entries :: "tree_navigation_plan \<Rightarrow> session_tree_entry list" where
  "protocol_entries p = map tree_entry (tp_entries_to_summarize p)"

text \<open>\<open>None\<close> is the error of a payload that is not a message.\<close>

definition plan_messages :: "transcript_env \<Rightarrow> tree_navigation_plan \<Rightarrow> agent_message list option" where
  "plan_messages env p =
     those (map (\<lambda>e. decode_message env (JObject (se_payload e)))
       (filter (\<lambda>e. se_kind e = EkMessage) (tp_entries_to_summarize p)))"

section \<open>transcript.rs: commit\<close>

text \<open>The outcomes of the writes, in the order in which they happen: the lane, the summary, the label,
  the checkpoint, then the compensating writes.\<close>

record navigation_io =
  nio_now :: nat
  nio_move :: write_outcome
  nio_append :: write_outcome
  nio_label :: write_outcome
  nio_sync :: write_outcome
  nio_unlabel :: write_outcome
  nio_back :: write_outcome
  nio_resync :: write_outcome

record navigation_commit =
  nc_new_leaf_id :: "entry_id option"
  nc_target_id :: entry_id
  nc_summary :: "new_entry option"
  nc_label :: "string option"

record navigation_result =
  nr_summary_entry :: "session_entry option"
  nr_new_leaf_id :: "entry_id option"

text \<open>Rebuild the context from whatever the store holds; a failure is only logged.\<close>

definition reconcile :: "transcript_env \<Rightarrow> transcript \<Rightarrow> (transcript \<times> bool) option" where
  "reconcile env t =
     (case history_from_store env (ts_store t) (ts_lane t) (ts_delegated t) of
        None \<Rightarrow> None
      | Some (Ok ctx) \<Rightarrow> Some (t\<lparr>ts_context := ctx\<rparr>, True)
      | Some (Err e) \<Rightarrow> Some (t, False))"

text \<open>Move the lane back; when that fails too, follow the lane the store retained.\<close>

definition restore_lane ::
    "transcript_env \<Rightarrow> navigation_io \<Rightarrow> entry_id option \<Rightarrow> transcript \<Rightarrow> model_context \<Rightarrow> transcript option" where
  "restore_lane env io old t old_context =
     (case move_lane (senv env) (nio_back io) (ts_lane t) old (ts_store t) of
        (st, Ok _) \<Rightarrow> Some (t\<lparr>ts_store := fst (sync (nio_resync io) st), ts_context := old_context\<rparr>)
      | (st, Err e) \<Rightarrow> map_option fst (reconcile env (t\<lparr>ts_store := st\<rparr>)))"

definition clear_navigation ::
    "transcript_env \<Rightarrow> navigation_io \<Rightarrow> transcript
      \<Rightarrow> (transcript \<times> (entry_id option, kernel_error) result) option" where
  "clear_navigation env io t =
     (case writable t of
        Err e \<Rightarrow> Some (t, Err e)
      | Ok _ \<Rightarrow>
         (let old = lane_leaf (ts_store t) (ts_lane t) in
          case move_lane (senv env) (nio_move io) (ts_lane t) None (ts_store t) of
            (st, Err e) \<Rightarrow> Some (t\<lparr>ts_store := st\<rparr>, Err (StoreFailed e))
          | (st, Ok _) \<Rightarrow>
             (let t1 = t\<lparr>ts_store := st, ts_context := ([], [])\<rparr> in
              case sync (nio_sync io) st of
                (st', Ok _) \<Rightarrow> Some (t1\<lparr>ts_store := st'\<rparr>, Ok old)
              | (st', Err e) \<Rightarrow>
                  map_option (\<lambda>t2. (t2, Err (StoreFailed e)))
                    (restore_lane env io old (t1\<lparr>ts_store := st'\<rparr>) (ts_context t)))))"

text \<open>What a navigation has done when it ends or fails.\<close>

record navigation_progress =
  np_store :: jsonl_store
  np_summary :: "session_entry option"
  np_label :: "(entry_id \<times> string option) option"
  np_reached_sync :: bool

definition append_summary ::
    "transcript_env \<Rightarrow> navigation_io \<Rightarrow> lane_id \<Rightarrow> new_entry option \<Rightarrow> jsonl_store
      \<Rightarrow> jsonl_store \<times> (session_entry option, store_error) result" where
  "append_summary env io lane summary st =
     (case summary of
        None \<Rightarrow> (st, Ok None)
      | Some entry \<Rightarrow>
         (case append_entry (senv env) (nio_append io) (nio_now io) lane entry st of
            (st', Ok e) \<Rightarrow> (st', Ok (Some e))
          | (st', Err e) \<Rightarrow> (st', Err e)))"

definition apply_label ::
    "transcript_env \<Rightarrow> navigation_io \<Rightarrow> entry_id \<Rightarrow> string option \<Rightarrow> jsonl_store
      \<Rightarrow> jsonl_store \<times> (entry_id \<times> string option) option \<times> (unit, store_error) result" where
  "apply_label env io target label st =
     (case label of
        None \<Rightarrow> (st, None, Ok ())
      | Some l \<Rightarrow>
         (let (st', r) = set_label (senv env) (nio_label io) target (Some l) st
          in (st', Some (target, store_label st target), r)))"

text \<open>The steps behind the summary: label, rebuilt context, checkpoint.\<close>

definition finish_navigation ::
    "transcript_env \<Rightarrow> navigation_io \<Rightarrow> navigation_commit \<Rightarrow> lane_id \<Rightarrow> bool \<Rightarrow> session_entry option \<Rightarrow> jsonl_store
      \<Rightarrow> (navigation_progress \<times> (entry_id option \<times> model_context, kernel_error) result) option" where
  "finish_navigation env io c lane delegated summary st =
     (let target = (case summary of Some e \<Rightarrow> se_id e | None \<Rightarrow> nc_target_id c) in
      case apply_label env io target (nc_label c) st of
        (st1, rollback, Err e) \<Rightarrow>
          Some (\<lparr>np_store = st1, np_summary = summary, np_label = rollback, np_reached_sync = False\<rparr>, Err (StoreFailed e))
      | (st1, rollback, Ok _) \<Rightarrow>
         (case history_from_store env st1 lane delegated of
            None \<Rightarrow> None
          | Some (Err e) \<Rightarrow>
              Some (\<lparr>np_store = st1, np_summary = summary, np_label = rollback, np_reached_sync = False\<rparr>, Err e)
          | Some (Ok ctx) \<Rightarrow>
             (case sync (nio_sync io) st1 of
                (st2, Err e) \<Rightarrow>
                  Some (\<lparr>np_store = st2, np_summary = summary, np_label = rollback, np_reached_sync = True\<rparr>, Err (StoreFailed e))
              | (st2, Ok _) \<Rightarrow>
                  Some (\<lparr>np_store = st2, np_summary = summary, np_label = rollback, np_reached_sync = True\<rparr>,
                        Ok (lane_leaf st2 lane, ctx)))))"

definition navigate_mutation ::
    "transcript_env \<Rightarrow> navigation_io \<Rightarrow> navigation_commit \<Rightarrow> lane_id \<Rightarrow> bool \<Rightarrow> jsonl_store
      \<Rightarrow> (navigation_progress \<times> (entry_id option \<times> model_context, kernel_error) result) option" where
  "navigate_mutation env io c lane delegated st =
     (case move_lane (senv env) (nio_move io) lane (nc_new_leaf_id c) st of
        (st1, Err e) \<Rightarrow>
          Some (\<lparr>np_store = st1, np_summary = None, np_label = None, np_reached_sync = False\<rparr>, Err (StoreFailed e))
      | (st1, Ok _) \<Rightarrow>
         (case append_summary env io lane (nc_summary c) st1 of
            (st2, Err e) \<Rightarrow>
              Some (\<lparr>np_store = st2, np_summary = None, np_label = None, np_reached_sync = False\<rparr>, Err (StoreFailed e))
          | (st2, Ok summary) \<Rightarrow> finish_navigation env io c lane delegated summary st2))"

definition commit_navigation ::
    "transcript_env \<Rightarrow> navigation_io \<Rightarrow> navigation_commit \<Rightarrow> transcript
      \<Rightarrow> (transcript \<times> (navigation_result, kernel_error) result) option" where
  "commit_navigation env io c t =
     (case writable t of
        Err e \<Rightarrow> Some (t, Err e)
      | Ok _ \<Rightarrow>
         (let old = lane_leaf (ts_store t) (ts_lane t) in
          case navigate_mutation env io c (ts_lane t) (ts_delegated t) (ts_store t) of
            None \<Rightarrow> None
          | Some (p, Ok (leaf, ctx)) \<Rightarrow>
              Some (t\<lparr>ts_store := np_store p, ts_context := ctx\<rparr>,
                    Ok \<lparr>nr_summary_entry = np_summary p, nr_new_leaf_id = leaf\<rparr>)
          | Some (p, Err e) \<Rightarrow>
             (let t1 = t\<lparr>ts_store := np_store p\<rparr> in
              if np_summary p \<noteq> None then
                (case reconcile env t1 of
                   None \<Rightarrow> None
                 | Some (t2, reconciled) \<Rightarrow>
                    (let (st, synced) = sync (nio_resync io) (ts_store t2); t3 = t2\<lparr>ts_store := st\<rparr> in
                     Some (t3,
                       if np_reached_sync p \<and> reconciled \<and> is_ok synced
                       then Ok \<lparr>nr_summary_entry = np_summary p, nr_new_leaf_id = lane_leaf st (ts_lane t3)\<rparr>
                       else Err e)))
              else
                let t2 = (case np_label p of
                     None \<Rightarrow> t1
                   | Some (eid, previous) \<Rightarrow>
                       t1\<lparr>ts_store := fst (set_label (senv env) (nio_unlabel io) eid previous (ts_store t1))\<rparr>)
                in map_option (\<lambda>t3. (t3, Err e)) (restore_lane env io old t2 (ts_context t)))))"

end
