(* ===== verification/Navigation_Props.thy ===== *)
theory Navigation_Props
  imports Navigation
begin

text \<open>
  What a navigation leaves behind, whichever of its writes fail: a well-formed store, a lane at one of
  the places the navigation names, and a model context that is the one rebuilt from that place.
\<close>

section \<open>Effects of the writes\<close>

lemma move_lane_Err_state: "move_lane env w lane to st = (st', Err x) \<Longrightarrow> js_state st' = js_state st"
  using via_persist_Err [OF run_op_via_persist, of env w "OpMoveLane lane to" st x] by simp

lemma set_label_Err_state: "set_label env w target label st = (st', Err x) \<Longrightarrow> js_state st' = js_state st"
  using via_persist_Err [OF run_op_via_persist, of env w "OpSetLabel target label" st x] by simp

lemma move_lane_wf:
  "wf_state (js_state st) \<Longrightarrow> wf_state (js_state (fst (move_lane env w lane to st)))"
  using run_op_wf [of st env w "OpMoveLane lane to"] by simp

lemma set_label_wf:
  "wf_state (js_state st) \<Longrightarrow> wf_state (js_state (fst (set_label env w target label st)))"
  using run_op_wf [of st env w "OpSetLabel target label"] by simp

lemma persist_committed:
  assumes "persist env w v st = (st', Ok u)" "validate (codec env) (js_state st) v = Ok m"
  shows "js_state st' = commit (js_state st) m"
  using persist_Ok_state [of env w v st] assms by auto

lemma move_lane_Ok:
  assumes "move_lane env w lane to st = (st', Ok u)" "id_ok lane" "opt_id_ok to"
  shows "entries_by_id (js_state st') = entries_by_id (js_state st)" "lane_leaf st' lane = to"
proof -
  from assms(1) obtain n where n: "candidate_sequence (js_state st) = Ok n"
      "persist env w (encode_lane_mutation \<lparr>lm_sequence = n, lm_lane = lane, lm_leaf_id = to\<rparr>) st = (st', Ok u)"
    and to: "\<And>t. to = Some t \<Longrightarrow> entries_by_id (js_state st) t \<noteq> None"
    by (auto simp: move_lane_def split: if_splits option.splits result.splits)
  have "validate (codec env) (js_state st) (encode_lane_mutation \<lparr>lm_sequence = n, lm_lane = lane, lm_leaf_id = to\<rparr>) =
      Ok (VLane \<lparr>lm_sequence = n, lm_lane = lane, lm_leaf_id = to\<rparr>)"
    using n(1) assms(2,3) to by (intro validate_encoded_lane) (simp_all add: candidate_sequence_iff)
  from persist_committed [OF n(2) this] show "entries_by_id (js_state st') = entries_by_id (js_state st)" "lane_leaf st' lane = to"
    by (simp_all add: lane_leaf_def)
qed

lemma set_label_frame:
  assumes "id_ok target"
  shows "entries_by_id (js_state (fst (set_label env w target label st))) = entries_by_id (js_state st)"
    and "lanes (js_state (fst (set_label env w target label st))) = lanes (js_state st)"
proof -
  obtain st' r where eq: "set_label env w target label st = (st', r)" by (rule prod.exhaust)
  have "entries_by_id (js_state st') = entries_by_id (js_state st) \<and> lanes (js_state st') = lanes (js_state st)"
  proof (cases r)
    case (Err e)
    with set_label_Err_state eq show ?thesis by metis
  next
    case (Ok u)
    with eq obtain n where n: "candidate_sequence (js_state st) = Ok n" "entries_by_id (js_state st) target \<noteq> None"
        "persist env w (encode_label_fact n target label) st = (st', Ok u)"
      by (auto simp: set_label_def split: if_splits result.splits)
    then have "validate (codec env) (js_state st) (encode_label_fact n target label) = Ok (VLabel n target label)"
      using validate_encoded_label [OF _ assms] by (simp add: candidate_sequence_iff)
    from persist_committed [OF n(3) this] show ?thesis by simp
  qed
  then show "entries_by_id (js_state (fst (set_label env w target label st))) = entries_by_id (js_state st)"
    "lanes (js_state (fst (set_label env w target label st))) = lanes (js_state st)" by (simp_all add: eq)
qed

section \<open>The place of a lane\<close>

text \<open>A well-formed store whose lane stands at the given leaf.\<close>

definition at_leaf :: "lane_id \<Rightarrow> entry_id option \<Rightarrow> jsonl_store \<Rightarrow> bool" where
  "at_leaf lane leaf st \<longleftrightarrow> wf_state (js_state st) \<and> id_ok lane \<and> opt_id_ok leaf \<and> lane_leaf st lane = leaf"

abbreviation same_entries :: "jsonl_store \<Rightarrow> jsonl_store \<Rightarrow> bool" where
  "same_entries st st' \<equiv> entries_by_id (js_state st') = entries_by_id (js_state st)"

lemma store_inv_at_leaf: "store_inv lane st \<longleftrightarrow> at_leaf lane (lane_leaf st lane) st"
  by (auto simp: store_inv_def at_leaf_def)

lemma at_leaf_inv: "at_leaf lane leaf st \<Longrightarrow> store_inv lane st"
  by (auto simp: store_inv_def at_leaf_def)

lemma at_leaf_state: "js_state st' = js_state st \<Longrightarrow> at_leaf lane leaf st \<Longrightarrow> at_leaf lane leaf st'"
  by (simp add: at_leaf_def lane_leaf_def)

lemma move_lane_at:
  assumes "move_lane env w lane to st = (st', r)" "at_leaf lane leaf st" "opt_id_ok to"
  shows "same_entries st st' \<and> at_leaf lane (if is_ok r then to else leaf) st'"
proof (cases r)
  case (Ok u)
  then show ?thesis
    using move_lane_Ok [of env w lane to st st' u] move_lane_wf [of st env w lane to] assms by (simp add: at_leaf_def)
next
  case (Err e)
  then have "js_state st' = js_state st" using assms(1) move_lane_Err_state by metis
  with Err assms(2) show ?thesis by (simp add: at_leaf_state)
qed

lemma set_label_at:
  "at_leaf lane leaf st \<Longrightarrow> id_ok target \<Longrightarrow>
    same_entries st (fst (set_label env w target label st)) \<and> at_leaf lane leaf (fst (set_label env w target label st))"
  using set_label_frame [of target env w label st] set_label_wf [of st env w target label]
  by (simp add: at_leaf_def lane_leaf_def)

lemma sync_at: "at_leaf lane leaf st \<Longrightarrow> at_leaf lane leaf (fst (sync w st))"
  by (rule at_leaf_state [OF sync_state])

lemma sync_entries: "same_entries st (fst (sync w st))"
  by (simp add: sync_state)

lemma append_summary_at:
  assumes "append_summary env io lane summary st = (st', r)" "at_leaf lane leaf st"
    and "\<forall>e. summary = Some e \<longrightarrow> typed_entry e" "nio_now io \<le> u64_max"
  shows "case r of
      Err x \<Rightarrow> same_entries st st' \<and> at_leaf lane leaf st'
    | Ok None \<Rightarrow> summary = None \<and> same_entries st st' \<and> at_leaf lane leaf st'
    | Ok (Some e) \<Rightarrow> map_option ne_id summary = Some (se_id e) \<and> se_parent_id e = leaf \<and> at_leaf lane (Some (se_id e)) st'"
proof (cases summary)
  case None
  with assms(1,2) show ?thesis by (auto simp: append_summary_def)
next
  case (Some entry)
  obtain st1 r1 where a: "append_entry (senv env) (nio_append io) (nio_now io) lane entry st = (st1, r1)" by (rule prod.exhaust)
  show ?thesis
  proof (cases r1)
    case (Err e)
    with a assms(1) Some have "js_state st' = js_state st" "r = Err e"
      by (auto simp: append_summary_def dest: append_entry_Err_state)
    with assms(2) show ?thesis by (simp add: at_leaf_state)
  next
    case (Ok e)
    have acc: "nio_append io = Written" "entry_accepted (senv env) (nio_now io) lane entry st"
      using append_entry_accepted [of "senv env" "nio_append io" "nio_now io" lane entry st st1 e] a Ok assms(2-4) Some
      by (auto simp: at_leaf_def)
    have "wf_state (js_state st)" using assms(2) by (simp add: at_leaf_def)
    from append_entry_effect [OF this acc(2)] a Ok acc(1)
    have eff: "e = new_session_entry st (nio_now io) lane entry" "lane_leaf st1 lane = Some (ne_id entry)" by auto
    have "wf_state (js_state st1)"
      using run_op_wf [of st "senv env" "nio_append io" "OpAppendEntry (nio_now io) lane entry"] a Ok assms(2) by (simp add: at_leaf_def)
    with a Ok assms Some eff show ?thesis
      by (auto simp: append_summary_def at_leaf_def typed_entry_def opt_id_ok_def new_session_entry_def)
  qed
qed

lemma apply_label_at:
  assumes "apply_label env io target label st = (st', rollback, r)" "at_leaf lane leaf st" "id_ok target"
  shows "same_entries st st' \<and> at_leaf lane leaf st' \<and> (\<forall>eid l. rollback = Some (eid, l) \<longrightarrow> id_ok eid)"
  using assms set_label_at [OF assms(2,3), of "senv env" "nio_label io" label]
  by (cases label) (auto simp: apply_label_def Let_def split: prod.splits)

section \<open>The rebuilt context\<close>

lemma active_branch_place:
  assumes "same_entries st st'" "lane_leaf st' lane = lane_leaf st lane"
  shows "active_branch st' lane = active_branch st lane"
  using assms branch_walk_cong [of "js_state st'" "js_state st"]
  by (simp add: active_branch_def branch_def split: option.split)

lemma history_place:
  assumes "same_entries st st'" "lane_leaf st' lane = lane_leaf st lane"
  shows "history_from_store env st' lane d = history_from_store env st lane d"
  unfolding history_from_store_def active_branch_place [OF assms] ..

lemma history_total:
  assumes "wf_state (js_state st)"
  shows "\<exists>r. history_from_store env st lane d = Some r"
proof -
  have "set (entry_order (js_state st)) = dom (entries_by_id (js_state st))"
    using assms by (simp add: wf_state_def wf_entries_def)
  then have "finite (dom (entries_by_id (js_state st)))" by (metis List.finite_set)
  from branch_walk_total [OF this] have "\<exists>r. active_branch st lane = Some r"
    by (auto simp: active_branch_def branch_def split: option.split)
  then show ?thesis by (auto simp: history_from_store_def split: result.split)
qed

definition live :: "transcript_env \<Rightarrow> transcript \<Rightarrow> bool" where
  "live env t \<longleftrightarrow> history_from_store env (ts_store t) (ts_lane t) (ts_delegated t) = Some (Ok (ts_context t))"

text \<open>The context follows the store wherever the store can be rebuilt at all.\<close>

definition aligned :: "transcript_env \<Rightarrow> transcript \<Rightarrow> bool" where
  "aligned env t \<longleftrightarrow>
     (\<forall>ctx. history_from_store env (ts_store t) (ts_lane t) (ts_delegated t) = Some (Ok ctx) \<longrightarrow> ts_context t = ctx)"

lemma live_synced: "synced env t \<Longrightarrow> live env t"
  by (auto simp: synced_def live_def history_from_store_def)

lemma live_aligned: "live env t \<Longrightarrow> aligned env t"
  by (simp add: live_def aligned_def)

text \<open>The settled state of a transcript: its lane stands at a place and its context follows it.\<close>

definition settled :: "transcript_env \<Rightarrow> transcript \<Rightarrow> entry_id option \<Rightarrow> transcript \<Rightarrow> bool" where
  "settled env t leaf t' \<longleftrightarrow>
     ts_lane t' = ts_lane t \<and> ts_delegated t' = ts_delegated t \<and>
     at_leaf (ts_lane t) leaf (ts_store t') \<and> aligned env t'"

text \<open>What a store says of a transcript depends only on the state it holds in memory.\<close>

lemma history_state:
  "js_state st' = js_state st \<Longrightarrow> history_from_store env st' lane d = history_from_store env st lane d"
  by (rule history_place) (simp_all add: lane_leaf_def)

lemma live_state:
  "js_state st = js_state (ts_store t) \<Longrightarrow> live env (t\<lparr>ts_store := st\<rparr>) = live env t"
  using history_state [of st "ts_store t"] by (simp add: live_def)

lemma aligned_state:
  "js_state st = js_state (ts_store t) \<Longrightarrow> aligned env (t\<lparr>ts_store := st\<rparr>) = aligned env t"
  using history_state [of st "ts_store t"] by (simp add: aligned_def)

lemma settled_state:
  "js_state st = js_state (ts_store t') \<Longrightarrow> settled env t leaf t' \<Longrightarrow> settled env t leaf (t'\<lparr>ts_store := st\<rparr>)"
  using at_leaf_state [of st "ts_store t'"] by (simp add: settled_def aligned_state)

lemma reconcile_spec:
  assumes "at_leaf (ts_lane t) leaf (ts_store t)"
  shows "\<exists>t' b. reconcile env t = Some (t', b) \<and> settled env t leaf t' \<and> ts_store t' = ts_store t \<and> (b \<longrightarrow> live env t')"
proof -
  have "wf_state (js_state (ts_store t))" using assms by (simp add: at_leaf_def)
  from history_total [OF this, of env "ts_lane t" "ts_delegated t"]
  obtain r where "history_from_store env (ts_store t) (ts_lane t) (ts_delegated t) = Some r" by blast
  with assms show ?thesis by (cases r) (auto simp: reconcile_def settled_def aligned_def live_def)
qed

lemma restore_lane_spec:
  assumes "at_leaf (ts_lane t) leaf (ts_store t)" "same_entries st (ts_store t)" "at_leaf (ts_lane t) old st"
    and "history_from_store env st (ts_lane t) (ts_delegated t) = Some (Ok context)"
  shows "\<exists>t'. restore_lane env io old t context = Some t' \<and>
    (settled env t old t' \<and> ts_context t' = context \<or> settled env t leaf t' \<and> leaf \<noteq> old)"
proof -
  obtain st1 r where m: "move_lane (senv env) (nio_back io) (ts_lane t) old (ts_store t) = (st1, r)" by (rule prod.exhaust)
  have "opt_id_ok old" using assms(3) by (simp add: at_leaf_def)
  from move_lane_at [OF m assms(1) this] have moved: "same_entries st st1" "at_leaf (ts_lane t) (if is_ok r then old else leaf) st1"
    using assms(2) by simp_all
  show ?thesis
  proof (cases r)
    case (Ok u)
    let ?st = "fst (sync (nio_resync io) st1)"
    have place: "at_leaf (ts_lane t) old ?st" using moved(2) Ok by (simp add: sync_at)
    have "history_from_store env ?st (ts_lane t) (ts_delegated t) = Some (Ok context)"
      using history_place [of st ?st "ts_lane t" env "ts_delegated t"] moved(1) place assms(3,4)
      by (simp add: sync_state at_leaf_def)
    with m Ok place show ?thesis by (simp add: restore_lane_def settled_def aligned_def)
  next
    case (Err e)
    let ?t = "t\<lparr>ts_store := st1\<rparr>"
    from moved(2) Err have "at_leaf (ts_lane ?t) leaf (ts_store ?t)" by simp
    from reconcile_spec [OF this, of env] obtain t' b where rec: "reconcile env ?t = Some (t', b)"
      "settled env ?t leaf t'" "ts_store t' = st1" by auto
    have "ts_context t' = context" if "leaf = old"
    proof -
      have "lane_leaf st1 (ts_lane t) = lane_leaf st (ts_lane t)" using moved(2) Err assms(3) that by (simp add: at_leaf_def)
      from history_place [OF moved(1) this] assms(4) rec(2,3) show ?thesis
        by (simp add: settled_def aligned_def del: split_paired_All)
    qed
    then show ?thesis using m Err rec(1,2) by (auto simp: restore_lane_def settled_def)
  qed
qed

section \<open>One navigation\<close>

definition typed_commit :: "navigation_io \<Rightarrow> navigation_commit \<Rightarrow> bool" where
  "typed_commit io c \<longleftrightarrow> opt_id_ok (nc_new_leaf_id c) \<and> id_ok (nc_target_id c) \<and>
     (\<forall>e. nc_summary c = Some e \<longrightarrow> typed_entry e) \<and> nio_now io \<le> u64_max"

text \<open>Where the steps of a navigation leave the lane: at its old leaf or the new one, or at the summary.\<close>

definition progress_ok :: "navigation_commit \<Rightarrow> lane_id \<Rightarrow> entry_id option \<Rightarrow> jsonl_store \<Rightarrow> navigation_progress \<Rightarrow> bool" where
  "progress_ok c lane old st p \<longleftrightarrow>
     (case np_summary p of
        None \<Rightarrow> same_entries st (np_store p) \<and>
          (at_leaf lane old (np_store p) \<or> at_leaf lane (nc_new_leaf_id c) (np_store p))
      | Some e \<Rightarrow> map_option ne_id (nc_summary c) = Some (se_id e) \<and> se_parent_id e = nc_new_leaf_id c \<and>
          at_leaf lane (Some (se_id e)) (np_store p)) \<and>
     (\<forall>eid l. np_label p = Some (eid, l) \<longrightarrow> id_ok eid)"

text \<open>The leaf a navigation that succeeds ends at.\<close>

definition reached :: "navigation_commit \<Rightarrow> session_entry option \<Rightarrow> entry_id option" where
  "reached c summary = (case summary of None \<Rightarrow> nc_new_leaf_id c | Some e \<Rightarrow> Some (se_id e))"

definition outcome_ok ::
    "transcript_env \<Rightarrow> navigation_commit \<Rightarrow> lane_id \<Rightarrow> bool \<Rightarrow> entry_id option \<Rightarrow> jsonl_store
      \<Rightarrow> navigation_progress \<times> (entry_id option \<times> model_context, kernel_error) result \<Rightarrow> bool" where
  "outcome_ok env c lane d old st pr \<longleftrightarrow>
     (let (p, r) = pr in
      progress_ok c lane old st p \<and>
      (np_reached_sync p \<longrightarrow> map_option ne_id (nc_summary c) = map_option se_id (np_summary p) \<and>
         at_leaf lane (reached c (np_summary p)) (np_store p)) \<and>
      (\<forall>leaf ctx. r = Ok (leaf, ctx) \<longrightarrow> np_reached_sync p \<and> leaf = lane_leaf (np_store p) lane \<and>
         history_from_store env (np_store p) lane d = Some (Ok ctx)))"

lemma finish_navigation_spec:
  assumes leaf: "at_leaf lane (reached c summary) st2" "map_option ne_id (nc_summary c) = map_option se_id summary"
    "summary = None \<Longrightarrow> same_entries st st2" "\<And>e. summary = Some e \<Longrightarrow> se_parent_id e = nc_new_leaf_id c"
    and typed: "typed_commit io c"
  shows "\<exists>pr. finish_navigation env io c lane d summary st2 = Some pr \<and> outcome_ok env c lane d old st pr"
proof -
  define target where "target = (case summary of Some e \<Rightarrow> se_id e | None \<Rightarrow> nc_target_id c)"
  have "id_ok target"
    using leaf(1) typed by (auto simp: target_def reached_def typed_commit_def at_leaf_def opt_id_ok_def split: option.splits)
  obtain st3 rb r3 where l: "apply_label env io target (nc_label c) st2 = (st3, rb, r3)" by (metis prod.exhaust)
  from apply_label_at [OF l leaf(1) \<open>id_ok target\<close>] leaf(3)
  have at3: "at_leaf lane (reached c summary) st3" "summary = None \<Longrightarrow> same_entries st st3"
    "\<forall>eid p. rb = Some (eid, p) \<longrightarrow> id_ok eid" by auto
  have ok: "progress_ok c lane old st \<lparr>np_store = s, np_summary = summary, np_label = rb, np_reached_sync = b\<rparr>"
    if "js_state s = js_state st3" for s b
    using at_leaf_state [OF that at3(1)] at3(2,3) leaf(2,4) that by (auto simp: progress_ok_def reached_def split: option.splits)
  have "wf_state (js_state st3)" using at3(1) by (simp add: at_leaf_def)
  then obtain h where h: "history_from_store env st3 lane d = Some h" using history_total by blast
  obtain st4 r4 where s4: "sync (nio_sync io) st3 = (st4, r4)" by (rule prod.exhaust)
  then have state4: "js_state st4 = js_state st3" using sync_state [of "nio_sync io" st3] by simp
  then have h4: "history_from_store env st4 lane d = Some h"
    using history_place [of st3 st4 lane env d] h by (simp add: lane_leaf_def)
  note fin = finish_navigation_def [of env io c lane d summary st2, folded target_def]
  show ?thesis
    using l h s4 h4 ok [of st3 False] ok [OF state4, of True] leaf(2) at_leaf_state [OF state4 at3(1)]
    by (cases r3; cases h; cases r4) (simp_all add: fin outcome_ok_def)
qed

lemma navigate_mutation_spec:
  assumes place: "at_leaf lane old st" and typed: "typed_commit io c"
  shows "\<exists>pr. navigate_mutation env io c lane d st = Some pr \<and> outcome_ok env c lane d old st pr"
proof -
  obtain st1 r1 where m: "move_lane (senv env) (nio_move io) lane (nc_new_leaf_id c) st = (st1, r1)" by (rule prod.exhaust)
  have "opt_id_ok (nc_new_leaf_id c)" using typed by (simp add: typed_commit_def)
  from move_lane_at [OF m place this]
  have at1: "same_entries st st1" "at_leaf lane (if is_ok r1 then nc_new_leaf_id c else old) st1" by auto
  show ?thesis
  proof (cases r1)
    case (Err e)
    with m at1 show ?thesis by (simp add: navigate_mutation_def outcome_ok_def progress_ok_def)
  next
    case (Ok u)
    obtain st2 r2 where a: "append_summary env io lane (nc_summary c) st1 = (st2, r2)" by (rule prod.exhaust)
    have at1': "at_leaf lane (nc_new_leaf_id c) st1" using at1 Ok by simp
    have now: "\<forall>e. nc_summary c = Some e \<longrightarrow> typed_entry e" "nio_now io \<le> u64_max" using typed by (simp_all add: typed_commit_def)
    note at2 = append_summary_at [OF a at1' now]
    show ?thesis
    proof (cases r2)
      case (Err e)
      with m Ok a at1 at2 show ?thesis by (simp add: navigate_mutation_def outcome_ok_def progress_ok_def)
    next
      case summary: (Ok summary)
      have "at_leaf lane (reached c summary) st2" "map_option ne_id (nc_summary c) = map_option se_id summary"
        "summary = None \<Longrightarrow> same_entries st st2" "\<And>e. summary = Some e \<Longrightarrow> se_parent_id e = nc_new_leaf_id c"
        using at2 summary at1(1) by (auto simp: reached_def split: option.splits)
      from finish_navigation_spec [OF this typed, of env d old] m Ok a summary show ?thesis
        by (simp add: navigate_mutation_def)
    qed
  qed
qed

text \<open>A failure behind a stored summary: the lane stays at the summary.\<close>

lemma summary_kept:
  assumes "writable t = Ok u"
    and nav: "navigate_mutation env io c (ts_lane t) (ts_delegated t) (ts_store t) = Some (p, Err e)"
    and s: "np_summary p = Some s"
    and out: "outcome_ok env c (ts_lane t) (ts_delegated t) old (ts_store t) (p, Err e)"
  shows "\<exists>t' r leaf. commit_navigation env io c t = Some (t', r) \<and> settled env t leaf t' \<and>
    (case r of
       Ok n \<Rightarrow> live env t' \<and> leaf = nr_new_leaf_id n \<and> leaf = reached c (nr_summary_entry n) \<and>
         map_option se_id (nr_summary_entry n) = map_option ne_id (nc_summary c) \<and>
         (\<forall>e. nr_summary_entry n = Some e \<longrightarrow> se_parent_id e = nc_new_leaf_id c)
     | Err e \<Rightarrow> leaf = old \<and> ts_context t' = ts_context t \<or> leaf = nc_new_leaf_id c \<or>
         leaf = map_option ne_id (nc_summary c) \<and> nc_summary c \<noteq> None)"
proof -
  let ?t1 = "t\<lparr>ts_store := np_store p\<rparr>"
  have prog: "map_option ne_id (nc_summary c) = Some (se_id s)" "se_parent_id s = nc_new_leaf_id c"
    "at_leaf (ts_lane ?t1) (Some (se_id s)) (ts_store ?t1)"
    using out s by (simp_all add: outcome_ok_def progress_ok_def)
  from reconcile_spec [OF prog(3), of env] obtain t2 b where rec: "reconcile env ?t1 = Some (t2, b)"
    "settled env ?t1 (Some (se_id s)) t2" "b \<longrightarrow> live env t2" by blast
  obtain st synced where sync: "sync (nio_resync io) (ts_store t2) = (st, synced)" by (rule prod.exhaust)
  then have state: "js_state st = js_state (ts_store t2)" using sync_state [of "nio_resync io" "ts_store t2"] by simp
  let ?t3 = "t2\<lparr>ts_store := st\<rparr>"
  have "settled env t (Some (se_id s)) t2" using rec(2) by (simp add: settled_def)
  then have set: "settled env t (Some (se_id s)) ?t3" "b \<longrightarrow> live env ?t3"
    using rec(3) settled_state [OF state] live_state [OF state] by auto
  then have leaf: "lane_leaf st (ts_lane t2) = Some (se_id s)" by (simp add: settled_def at_leaf_def)
  let ?ok = "np_reached_sync p \<and> b \<and> is_ok synced"
  have run: "commit_navigation env io c t =
      Some (?t3, if ?ok then Ok \<lparr>nr_summary_entry = Some s, nr_new_leaf_id = Some (se_id s)\<rparr> else Err e)"
    by (simp add: commit_navigation_def assms(1) nav s rec(1) sync leaf Let_def)
  show ?thesis
  proof (cases ?ok)
    case True
    have "map_option se_id (Some s) = map_option ne_id (nc_summary c)" using prog(1) by auto
    with True run set prog(2) show ?thesis
      by (intro exI [of _ ?t3] exI [of _ "Ok \<lparr>nr_summary_entry = Some s, nr_new_leaf_id = Some (se_id s)\<rparr>"]
          exI [of _ "Some (se_id s)"]) (simp add: reached_def)
  next
    case False
    obtain entry where "nc_summary c = Some entry" "ne_id entry = se_id s" using prog(1) by auto
    with False run set(1) show ?thesis
      by (intro exI [of _ ?t3] exI [of _ "Err e"] exI [of _ "Some (se_id s)"]) simp
  qed
qed

text \<open>A failure before that: label and lane are put back where they were.\<close>

lemma rolled_back:
  assumes "writable t = Ok u"
    and nav: "navigate_mutation env io c (ts_lane t) (ts_delegated t) (ts_store t) = Some (p, Err e)"
    and s: "np_summary p = None"
    and out: "outcome_ok env c (ts_lane t) (ts_delegated t) old (ts_store t) (p, Err e)"
    and place: "at_leaf (ts_lane t) old (ts_store t)" and live: "live env t"
    and old: "old \<equiv> lane_leaf (ts_store t) (ts_lane t)"
  shows "\<exists>t' leaf. commit_navigation env io c t = Some (t', Err e) \<and> settled env t leaf t' \<and>
    (leaf = old \<and> ts_context t' = ts_context t \<or> leaf = nc_new_leaf_id c)"
proof -
  let ?t1 = "t\<lparr>ts_store := np_store p\<rparr>"
  define t2 where "t2 = (case np_label p of None \<Rightarrow> ?t1
    | Some (eid, previous) \<Rightarrow> ?t1\<lparr>ts_store := fst (set_label (senv env) (nio_unlabel io) eid previous (ts_store ?t1))\<rparr>)"
  obtain leaf where leaf: "leaf = old \<or> leaf = nc_new_leaf_id c" "at_leaf (ts_lane t) leaf (np_store p)"
    "same_entries (ts_store t) (np_store p)" and ids: "\<And>eid l. np_label p = Some (eid, l) \<Longrightarrow> id_ok eid"
    using out s by (auto simp: outcome_ok_def progress_ok_def)
  have t2: "at_leaf (ts_lane t) leaf (ts_store t2)" "same_entries (ts_store t) (ts_store t2)"
    "ts_lane t2 = ts_lane t" "ts_delegated t2 = ts_delegated t"
    using leaf(2,3) ids set_label_at [OF leaf(2)] by (auto simp: t2_def split: option.split)
  from restore_lane_spec [of t2 leaf "ts_store t" old env "ts_context t" io] t2 place live
  obtain t' where "restore_lane env io old t2 (ts_context t) = Some t'"
    "settled env t2 old t' \<and> ts_context t' = ts_context t \<or> settled env t2 leaf t' \<and> leaf \<noteq> old" by (auto simp: live_def)
  moreover from this(1) have "commit_navigation env io c t = Some (t', Err e)"
    by (simp add: commit_navigation_def assms(1) nav s t2_def [symmetric] old [symmetric])
  ultimately show ?thesis using leaf(1) t2(3,4) by (auto simp: settled_def)
qed

section \<open>Properties\<close>

text \<open>C7: whichever writes of a navigation fail, the session ends in a well-formed store whose lane stands
  at its old leaf, at the new one or at the branch summary, and the model context is the one rebuilt
  from there whenever it can be rebuilt. A navigation that reports success stands where it was asked
  to, below its summary if there is one; a navigation that fails without a stored summary either
  restored the old leaf and context or stands at the new leaf.\<close>

theorem navigation_keeps_context:
  assumes "store_inv (ts_lane t) (ts_store t)" "synced env t" "typed_commit io c"
  defines "old \<equiv> lane_leaf (ts_store t) (ts_lane t)"
  shows "\<exists>t' r leaf. commit_navigation env io c t = Some (t', r) \<and> settled env t leaf t' \<and>
    (case r of
       Ok n \<Rightarrow> live env t' \<and> leaf = nr_new_leaf_id n \<and> leaf = reached c (nr_summary_entry n) \<and>
         map_option se_id (nr_summary_entry n) = map_option ne_id (nc_summary c) \<and>
         (\<forall>e. nr_summary_entry n = Some e \<longrightarrow> se_parent_id e = nc_new_leaf_id c)
     | Err e \<Rightarrow> leaf = old \<and> ts_context t' = ts_context t \<or> leaf = nc_new_leaf_id c \<or>
         leaf = map_option ne_id (nc_summary c) \<and> nc_summary c \<noteq> None)"
proof (cases "writable t")
  case (Err e)
  then show ?thesis
    using assms(1) live_aligned [OF live_synced [OF assms(2)]]
    by (intro exI [of _ t] exI [of _ "Err e"] exI [of _ old])
      (simp add: commit_navigation_def settled_def store_inv_at_leaf old_def)
next
  case (Ok u)
  have place: "at_leaf (ts_lane t) old (ts_store t)" using assms(1) by (simp add: store_inv_at_leaf old_def)
  from navigate_mutation_spec [OF place assms(3), of env "ts_delegated t"] obtain p r
    where nav: "navigate_mutation env io c (ts_lane t) (ts_delegated t) (ts_store t) = Some (p, r)"
      and out: "outcome_ok env c (ts_lane t) (ts_delegated t) old (ts_store t) (p, r)" by auto
  have prog: "progress_ok c (ts_lane t) old (ts_store t) p" using out by (simp add: outcome_ok_def)
  show ?thesis
  proof (cases r)
    case (Ok res)
    then obtain leaf ctx where r: "r = Ok (leaf, ctx)" by (cases res) simp
    let ?t = "t\<lparr>ts_store := np_store p, ts_context := ctx\<rparr>"
    have run: "commit_navigation env io c t = Some (?t, Ok \<lparr>nr_summary_entry = np_summary p, nr_new_leaf_id = leaf\<rparr>)"
      using \<open>writable t = Ok u\<close> nav r by (simp add: commit_navigation_def)
    have facts: "np_reached_sync p" "leaf = lane_leaf (np_store p) (ts_lane t)"
      "history_from_store env (np_store p) (ts_lane t) (ts_delegated t) = Some (Ok ctx)"
      "map_option ne_id (nc_summary c) = map_option se_id (np_summary p)"
      "at_leaf (ts_lane t) (reached c (np_summary p)) (np_store p)"
      using out r by (simp_all add: outcome_ok_def del: split_paired_All)
    then have leaf: "leaf = reached c (np_summary p)" by (simp add: at_leaf_def)
    have "live env ?t" using facts(3) by (simp add: live_def)
    moreover from this leaf facts(5) have "settled env t leaf ?t" by (simp add: settled_def live_aligned)
    moreover have "\<forall>e. np_summary p = Some e \<longrightarrow> se_parent_id e = nc_new_leaf_id c"
      using prog by (auto simp: progress_ok_def)
    ultimately show ?thesis using run leaf facts(4)
      by (intro exI [of _ ?t] exI [of _ "Ok \<lparr>nr_summary_entry = np_summary p, nr_new_leaf_id = leaf\<rparr>"] exI [of _ leaf]) simp
  next
    case failed: (Err e)
    show ?thesis
    proof (cases "np_summary p")
      case (Some s)
      from summary_kept [OF \<open>writable t = Ok u\<close> nav [unfolded failed] Some out [unfolded failed]]
      show ?thesis by blast
    next
      case None
      from rolled_back [OF \<open>writable t = Ok u\<close> nav [unfolded failed] None out [unfolded failed] place _ old_def]
        live_synced [OF assms(2)]
      obtain t' leaf where "commit_navigation env io c t = Some (t', Err e)" "settled env t leaf t'"
        "leaf = old \<and> ts_context t' = ts_context t \<or> leaf = nc_new_leaf_id c" by (auto simp: live_def)
      then show ?thesis by auto
    qed
  qed
qed

definition sample_io :: navigation_io where
  "sample_io = \<lparr>nio_now = 7, nio_move = Written, nio_append = Written, nio_label = Written,
     nio_sync = WriteFailed 0 0, nio_unlabel = Written, nio_back = Written, nio_resync = Written\<rparr>"

definition sample_navigation :: navigation_commit where
  "sample_navigation = \<lparr>nc_new_leaf_id = None, nc_target_id = ''e1'', nc_summary = Some (sample_entry ''e2''),
     nc_label = None\<rparr>"

theorem navigation_keeps_context_witness:
  "\<exists>t' r leaf. commit_navigation sample_tenv sample_io sample_navigation sample_transcript = Some (t', r) \<and>
    settled sample_tenv sample_transcript leaf t'"
proof -
  have nb: "\<not> is_blank ''main''" "\<not> is_blank ''e1''" "\<not> is_blank ''e2''"
    by (rule not_blank_char; simp add: ws1_def)+
  have "store_inv (ts_lane sample_transcript) (ts_store sample_transcript)"
    using nb wf_state_new
    by (simp add: store_inv_def sample_transcript_def sample_store_def id_ok_def opt_id_ok_def lane_leaf_def)
      (simp add: SessionState_new_def)
  moreover have "synced sample_tenv sample_transcript"
    by (simp add: synced_def active_branch_def lane_leaf_def sample_store_def SessionState_new_def rebuild_def sample_transcript_def)
  moreover have "typed_commit sample_io sample_navigation"
    using nb by (simp add: typed_commit_def sample_io_def sample_navigation_def opt_id_ok_def id_ok_def typed_entry_def
        sample_entry_def typed_payload_def payload_clear_def keys_def entry_keys_def u64_max_def)
  ultimately show ?thesis
    using navigation_keeps_context [of sample_transcript sample_tenv sample_io sample_navigation] by blast
qed

end
