(* ===== verification/Native_Message.thy ===== *)
theory Native_Message
  imports Messages Model_Policy
begin

text \<open>
  The view the kernel has of a provider-native assistant message,
  \<^verbatim>\<open>crates/kernel/src/provider/content.rs\<close>: the parts a transcript can display, their projection to
  content blocks, and the comparison that decides whether a message edited by extensions still is
  the one the provider sent. The native message is a value of the provider library; the model keeps
  the fields this file reads.
\<close>

section \<open>Values\<close>

text \<open>A reasoning part with its redaction mark; an image with its Base64 data and MIME type, where it
  has them.\<close>

datatype native_part =
    NpText string
  | NpReasoning string bool
  | NpToolCall string string json_map "string option"
  | NpImage "string option" "string option"
  | NpOther

datatype native_stop = NsStop | NsLength | NsToolUse | NsAborted | NsOther

record native_message =
  nm_content :: "native_part list"
  nm_stop :: "native_stop option"

type_synonym failure = "json model_failure"

datatype model_error =
    MeUnavailable string
  | MePreflight failure
  | MeRequest failure
  | MeStream failure
  | MeProtocol string
  | MeCancelled
  | MeAuthRequired string

text \<open>The \<^verbatim>\<open>Display\<close> text of a scalar error, as conversion to a protocol error prints it.\<close>

fun scalar_text :: "scalar_error \<Rightarrow> string" where
  "scalar_text (EmptyIdentifier kind) = kind @ '' must not be empty''"
| "scalar_text InvalidTimestamp = ''timestamp must be an unsigned decimal millisecond string''"
| "scalar_text InvalidSequence = ''sequence must be between 1 and '' @ decimal MAX_SAFE_INTEGER"
| "scalar_text EmptySessionTitle = ''session title must not be empty''"
| "scalar_text (SessionTitleTooLong n) = ''session title must not exceed '' @ decimal n @ '' characters''"

record tool_call =
  tc_tool_call_id :: string
  tc_name :: string
  tc_arguments :: json
  tc_invalid_arguments :: "string option"

definition tool_call_try_from ::
    "string \<Rightarrow> string \<Rightarrow> json_map \<Rightarrow> string option \<Rightarrow> (tool_call, scalar_error) result" where
  "tool_call_try_from wire name arguments invalid =
     and_then (id_try_from ''tool call'' wire) (\<lambda>i.
       Ok \<lparr>tc_tool_call_id = i, tc_name = name, tc_arguments = JObject arguments, tc_invalid_arguments = invalid\<rparr>)"

section \<open>The projection\<close>

definition native_stop_reason :: "native_message \<Rightarrow> stop_reason" where
  "native_stop_reason m =
     (case nm_stop m of
        None \<Rightarrow> EndTurn
      | Some NsStop \<Rightarrow> EndTurn
      | Some NsLength \<Rightarrow> MaxTokens
      | Some NsToolUse \<Rightarrow> ToolUse
      | Some NsAborted \<Rightarrow> StopCancelled
      | Some NsOther \<Rightarrow> StopError)"

fun part_visible :: "native_part \<Rightarrow> bool" where
  "part_visible (NpText t) \<longleftrightarrow> True"
| "part_visible (NpToolCall i n a x) \<longleftrightarrow> True"
| "part_visible (NpReasoning t redacted) \<longleftrightarrow> \<not> redacted \<and> t \<noteq> []"
| "part_visible (NpImage base64 mime) \<longleftrightarrow> base64 \<noteq> None \<and> mime \<noteq> None"
| "part_visible NpOther \<longleftrightarrow> False"

definition visible :: "native_message \<Rightarrow> native_part list" where
  "visible m = filter part_visible (nm_content m)"

text \<open>Text joins a text block that stands last, and reasoning a reasoning block.\<close>

definition push_text :: "string \<Rightarrow> content_block list \<Rightarrow> content_block list" where
  "push_text t blocks =
     (case rev blocks of CbText s # front \<Rightarrow> rev (CbText (s @ t) # front) | _ \<Rightarrow> blocks @ [CbText t])"

definition push_reasoning :: "string \<Rightarrow> content_block list \<Rightarrow> content_block list" where
  "push_reasoning t blocks =
     (case rev blocks of CbReasoning s # front \<Rightarrow> rev (CbReasoning (s @ t) # front) | _ \<Rightarrow> blocks @ [CbReasoning t])"

fun project_parts :: "content_block list \<Rightarrow> native_part list \<Rightarrow> (content_block list, model_error) result" where
  "project_parts blocks [] = Ok blocks"
| "project_parts blocks (NpText t # ps) = project_parts (push_text t blocks) ps"
| "project_parts blocks (NpReasoning t redacted # ps) = project_parts (push_reasoning t blocks) ps"
| "project_parts blocks (NpToolCall i n a x # ps) =
     (case tool_call_try_from i n a x of
        Err e \<Rightarrow> Err (MeProtocol (scalar_text e))
      | Ok c \<Rightarrow> project_parts (blocks @ [CbToolCall (tc_tool_call_id c) (tc_name c) (tc_arguments c)
                                       (tc_invalid_arguments c)]) ps)"
| "project_parts blocks (NpImage (Some data) (Some mime) # ps) = project_parts (blocks @ [CbImage data mime]) ps"
| "project_parts blocks (_ # ps) = project_parts blocks ps"

definition native_blocks :: "native_message \<Rightarrow> (content_block list, model_error) result" where
  "native_blocks m = project_parts [] (visible m)"

section \<open>The comparison\<close>

text \<open>The next chunk with text in it, when the current one is used up.\<close>

definition refill :: "string \<Rightarrow> string list \<Rightarrow> string \<times> string list" where
  "refill chunk chunks =
     (if chunk = [] then (case dropWhile (\<lambda>c. c = []) chunks of [] \<Rightarrow> ([], []) | c # cs \<Rightarrow> (c, cs))
      else (chunk, chunks))"

lemma concat_dropWhile_empty: "concat (dropWhile (\<lambda>c. c = []) cs) = concat cs"
  by (induction cs) auto

lemma dropWhile_empty_hd: "dropWhile (\<lambda>c. c = []) cs = d # ds \<Longrightarrow> d \<noteq> []"
  by (induction cs) (auto split: if_splits)

lemma refill_text: "refill c cs = (d, ds) \<Longrightarrow> d @ concat ds = c @ concat cs"
  using concat_dropWhile_empty [of cs] by (auto simp: refill_def split: list.splits if_splits)

lemma refill_empty: "refill c cs = ([], ds) \<Longrightarrow> ds = []"
  by (auto simp: refill_def dest: dropWhile_empty_hd split: list.splits if_splits)

function same_text_loop :: "string \<Rightarrow> string list \<Rightarrow> string \<Rightarrow> string list \<Rightarrow> bool" where
  "same_text_loop lhs left rhs right =
     (let (l, left') = refill lhs left; (r, right') = refill rhs right in
      if l = [] \<or> r = [] then l = [] \<and> r = []
      else
        let n = min (length l) (length r) in
        if take n l \<noteq> take n r then False
        else same_text_loop (drop n l) left' (drop n r) right')"
  by pat_completeness auto
termination
proof (relation "measure (\<lambda>(lhs, left, rhs, right). length (lhs @ concat left))", goal_cases)
  case 1
  then show ?case by simp
next
  case (2 lhs left rhs right p l left' q r right' n)
  have "refill lhs left = (l, left')" using 2(1,2) by simp
  from arg_cong [OF refill_text [OF this], of length] 2(5-7) show ?case by (cases l; cases r) auto
qed

declare same_text_loop.simps [simp del]

definition same_text :: "string list \<Rightarrow> string list \<Rightarrow> bool" where
  "same_text left right = same_text_loop [] left [] right"

fun part_text :: "native_part \<Rightarrow> string" where
  "part_text (NpText t) = t"
| "part_text (NpReasoning t redacted) = t"
| "part_text _ = []"

fun display_text :: "content_block \<Rightarrow> string" where
  "display_text (CbText t) = t"
| "display_text (CbReasoning t) = t"
| "display_text _ = []"

fun part_runs :: "bool \<Rightarrow> native_part \<Rightarrow> bool" where
  "part_runs reasoning (NpText t) \<longleftrightarrow> \<not> reasoning"
| "part_runs reasoning (NpReasoning t redacted) \<longleftrightarrow> reasoning"
| "part_runs reasoning _ \<longleftrightarrow> False"

fun block_runs :: "bool \<Rightarrow> content_block \<Rightarrow> bool" where
  "block_runs reasoning (CbText t) \<longleftrightarrow> \<not> reasoning"
| "block_runs reasoning (CbReasoning t) \<longleftrightarrow> reasoning"
| "block_runs reasoning _ \<longleftrightarrow> False"

text \<open>The kind of text run both sides stand at.\<close>

fun both_run :: "native_part \<Rightarrow> content_block \<Rightarrow> bool option" where
  "both_run (NpText t) (CbText s) = Some False"
| "both_run (NpReasoning t redacted) (CbReasoning s) = Some True"
| "both_run _ _ = None"

fun same_item :: "native_part \<Rightarrow> content_block \<Rightarrow> bool" where
  "same_item (NpToolCall i n a x) (CbToolCall i' n' a' x') \<longleftrightarrow> i = i' \<and> n = n' \<and> as_object a' = Some a \<and> x = x'"
| "same_item (NpImage (Some d) (Some m)) (CbImage d' m') \<longleftrightarrow> d = d' \<and> m = m'"
| "same_item _ _ \<longleftrightarrow> False"

lemma both_run_Some: "both_run p b = Some r \<Longrightarrow> part_runs r p \<and> block_runs r b"
  by (cases p; cases b) auto

function matches_loop :: "native_part list \<Rightarrow> content_block list \<Rightarrow> bool" where
  "matches_loop [] [] \<longleftrightarrow> True"
| "matches_loop (p # ps) [] \<longleftrightarrow> False"
| "matches_loop [] (b # bs) \<longleftrightarrow> False"
| "matches_loop (p # ps) (b # bs) \<longleftrightarrow>
     (case both_run p b of
        Some reasoning \<Rightarrow>
          same_text (map part_text (takeWhile (part_runs reasoning) (p # ps)))
                    (map display_text (takeWhile (block_runs reasoning) (b # bs))) \<and>
          matches_loop (dropWhile (part_runs reasoning) (p # ps)) (dropWhile (block_runs reasoning) (b # bs))
      | None \<Rightarrow> same_item p b \<and> matches_loop ps bs)"
  by pat_completeness auto
termination
  by (relation "measure (\<lambda>(ps, bs). length ps)")
    (auto dest!: both_run_Some simp: le_imp_less_Suc length_dropWhile_le)

definition projection_matches :: "native_message \<Rightarrow> content_block list \<Rightarrow> stop_reason \<Rightarrow> bool" where
  "projection_matches m blocks stop =
     (native_stop_reason m = stop \<and> matches_loop (visible m) blocks)"

section \<open>What the comparison decides\<close>

text \<open>A block for every part, and adjacent blocks of text or reasoning joined.\<close>

fun part_block :: "native_part \<Rightarrow> content_block" where
  "part_block (NpText t) = CbText t"
| "part_block (NpReasoning t redacted) = CbReasoning t"
| "part_block (NpToolCall i n a x) = CbToolCall i n (JObject a) x"
| "part_block (NpImage (Some d) (Some m)) = CbImage d m"
| "part_block _ = CbStructured JNull"

fun merge_text :: "content_block list \<Rightarrow> content_block list" where
  "merge_text (CbText a # CbText b # bs) = merge_text (CbText (a @ b) # bs)"
| "merge_text (CbReasoning a # CbReasoning b # bs) = merge_text (CbReasoning (a @ b) # bs)"
| "merge_text (b # bs) = b # merge_text bs"
| "merge_text [] = []"

lemma same_text_loop_iff: "same_text_loop lhs left rhs right \<longleftrightarrow> lhs @ concat left = rhs @ concat right"
proof (induction lhs left rhs right rule: same_text_loop.induct)
  case (1 lhs left rhs right)
  obtain l left' where l: "refill lhs left = (l, left')" by (rule prod.exhaust)
  obtain r right' where r: "refill rhs right = (r, right')" by (rule prod.exhaust)
  let ?n = "min (length l) (length r)"
  note parts = refill_text [OF l, symmetric] refill_text [OF r, symmetric]
  show ?case
  proof (cases "l = [] \<or> r = []")
    case True
    then show ?thesis
      using l r refill_empty [of lhs left left'] refill_empty [of rhs right right']
      by (subst same_text_loop.simps) (auto simp: parts)
  next
    case False
    have split: "x @ xs = y @ ys \<longleftrightarrow> take ?n x = take ?n y \<and> drop ?n x @ xs = drop ?n y @ ys"
      if "x = l" "y = r" for x y :: string and xs ys
    proof -
      have "x = take ?n x @ drop ?n x" "y = take ?n y @ drop ?n y" by simp_all
      then have "x @ xs = y @ ys \<longleftrightarrow> take ?n x @ (drop ?n x @ xs) = take ?n y @ (drop ?n y @ ys)" by (metis append_assoc)
      then show ?thesis using that by (simp add: append_eq_append_conv)
    qed
    show ?thesis
      using False 1 [OF l [symmetric] _ r [symmetric] _ _ refl]
      by (subst same_text_loop.simps) (auto simp: l r parts split Let_def)
  qed
qed

lemma same_text_iff: "same_text left right \<longleftrightarrow> concat left = concat right"
  by (simp add: same_text_def same_text_loop_iff)

text \<open>The first joined block is the whole run of text or reasoning at the front.\<close>

fun run_block :: "bool \<Rightarrow> string \<Rightarrow> content_block" where
  "run_block False t = CbText t"
| "run_block True t = CbReasoning t"

lemma block_runs_iff: "block_runs r b \<longleftrightarrow> b = run_block r (display_text b)"
  by (cases b; cases r) auto

lemma merge_run:
  "merge_text (run_block r t # bs) =
     run_block r (t @ concat (map display_text (takeWhile (block_runs r) bs))) # merge_text (dropWhile (block_runs r) bs)"
proof (induction bs arbitrary: t)
  case (Cons b bs)
  show ?case
  proof (cases "block_runs r b")
    case True
    then have "b = run_block r (display_text b)" by (simp add: block_runs_iff)
    then have "merge_text (run_block r t # b # bs) = merge_text (run_block r (t @ display_text b) # bs)"
      by (cases r) (metis run_block.simps merge_text.simps(1,2))+
    with True Cons.IH show ?thesis by simp
  next
    case False
    then show ?thesis by (cases r; cases b) auto
  qed
qed (cases r; simp)

lemma merge_other: "\<not> block_runs False b \<Longrightarrow> \<not> block_runs True b \<Longrightarrow> merge_text (b # bs) = b # merge_text bs"
  by (cases b) auto

lemma merge_nonempty: "merge_text (b # bs) \<noteq> []"
  by (induction "b # bs" arbitrary: b bs rule: merge_text.induct) auto

lemma part_runs_block: "part_runs r p = block_runs r (part_block p)"
  by (cases p rule: part_block.cases) auto

lemma part_text_block: "part_runs r p \<Longrightarrow> part_text p = display_text (part_block p)"
  by (cases p) auto

lemma merge_run_front:
  assumes "block_runs r b"
  shows "merge_text (b # bs) = run_block r (concat (map display_text (takeWhile (block_runs r) (b # bs)))) #
    merge_text (dropWhile (block_runs r) (b # bs))"
proof -
  have "b = run_block r (display_text b)" using assms by (simp add: block_runs_iff)
  with merge_run [of r "display_text b" bs] assms show ?thesis by simp
qed

lemma part_run_text:
  "concat (map part_text (takeWhile (part_runs r) ps)) =
    concat (map display_text (takeWhile (block_runs r) (map part_block ps)))"
  by (induction ps) (auto simp: part_runs_block part_text_block)

lemma part_run_rest: "map part_block (dropWhile (part_runs r) ps) = dropWhile (block_runs r) (map part_block ps)"
  by (induction ps) (auto simp: part_runs_block)

lemma run_block_inject: "run_block r a = run_block r b \<longleftrightarrow> a = b"
  by (cases r) auto

lemma merge_head_kind:
  assumes "merge_text (b # bs) = merge_text (c # cs)"
  shows "block_runs r b = block_runs r c"
proof -
  have "block_runs r b = block_runs r (hd (merge_text (b # bs)))" for b bs
  proof (cases "block_runs False b \<or> block_runs True b")
    case True
    then obtain r' where "block_runs r' b" by auto
    with merge_run_front [OF this, of bs] show ?thesis by (cases r; cases r'; cases b) auto
  qed (auto simp: merge_other)
  with assms show ?thesis by metis
qed

lemma both_run_iff: "both_run p b = Some r \<longleftrightarrow> part_runs r p \<and> block_runs r b"
  by (cases p; cases b; cases r) auto

lemma same_item_iff:
  assumes "part_visible p" "both_run p b = None"
  shows "same_item p b \<longleftrightarrow> part_block p = b"
proof -
  have obj: "as_object v = Some m \<longleftrightarrow> JObject m = v" for v m by (cases v) auto
  from assms show ?thesis by (cases p rule: part_block.cases; cases b) (auto simp: obj)
qed

lemma matches_loop_iff:
  assumes "list_all part_visible ps"
  shows "matches_loop ps bs \<longleftrightarrow> merge_text (map part_block ps) = merge_text bs"
  using assms
proof (induction ps bs rule: matches_loop.induct)
  case (2 p ps)
  show ?case using merge_nonempty [of "part_block p" "map part_block ps"] by simp
next
  case (3 b bs)
  show ?case using merge_nonempty [of b bs] by simp
next
  case (4 p ps b bs)
  show ?case
  proof (cases "both_run p b")
    case (Some r)
    then have "part_runs r p" "block_runs r b" by (simp_all add: both_run_iff)
    have "list_all part_visible (dropWhile (part_runs r) (p # ps))"
      using "4.prems" by (metis list_all_iff set_dropWhileD)
    from "4.IH"(2) [OF Some this]
    have "matches_loop (p # ps) (b # bs) \<longleftrightarrow>
        concat (map part_text (takeWhile (part_runs r) (p # ps))) = concat (map display_text (takeWhile (block_runs r) (b # bs))) \<and>
        merge_text (map part_block (dropWhile (part_runs r) (p # ps))) = merge_text (dropWhile (block_runs r) (b # bs))"
      using Some by (simp add: same_text_iff)
    also have "\<dots> \<longleftrightarrow> merge_text (part_block p # map part_block ps) = merge_text (b # bs)"
      unfolding part_run_text part_run_rest
      using merge_run_front [OF \<open>block_runs r b\<close>, of bs] merge_run_front [of r "part_block p" "map part_block ps"]
        \<open>part_runs r p\<close> by (simp add: part_runs_block run_block_inject)
    finally show ?thesis by simp
  next
    case None
    have IH: "matches_loop ps bs \<longleftrightarrow> merge_text (map part_block ps) = merge_text bs" using "4.IH"(1) [OF None] "4.prems" by simp
    have item: "same_item p b \<longleftrightarrow> part_block p = b" using same_item_iff None "4.prems" by simp
    have "merge_text (part_block p # map part_block ps) = merge_text (b # bs) \<longleftrightarrow>
        part_block p = b \<and> merge_text (map part_block ps) = merge_text bs"
      (is "?L \<longleftrightarrow> ?R")
    proof (cases "\<exists>r. part_runs r p \<or> block_runs r b")
      case True
      with None have "\<exists>r. part_runs r p \<noteq> block_runs r b" by (metis both_run_iff option.distinct(1))
      then have "\<not> ?L" "\<not> ?R" using merge_head_kind part_runs_block by metis+
      then show ?thesis by blast
    next
      case False
      then show ?thesis by (simp add: merge_other part_runs_block)
    qed
    with None IH item show ?thesis by simp
  qed
qed simp

lemma merge_join_behind:
  "merge_text (c # CbText a # CbText b # ys) = merge_text (c # CbText (a @ b) # ys)"
  "merge_text (c # CbReasoning a # CbReasoning b # ys) = merge_text (c # CbReasoning (a @ b) # ys)"
  by (cases c; simp)+

lemma merge_join_text: "merge_text (xs @ CbText a # CbText b # ys) = merge_text (xs @ CbText (a @ b) # ys)"
  by (induction xs rule: merge_text.induct) (auto simp: merge_join_behind)

lemma merge_join_reasoning:
  "merge_text (xs @ CbReasoning a # CbReasoning b # ys) = merge_text (xs @ CbReasoning (a @ b) # ys)"
  by (induction xs rule: merge_text.induct) (auto simp: merge_join_behind)

lemma merge_push_text: "merge_text (push_text t blocks @ ys) = merge_text (blocks @ CbText t # ys)"
  by (cases blocks rule: rev_cases)
    (auto simp: push_text_def merge_join_text split: content_block.split)

lemma merge_push_reasoning: "merge_text (push_reasoning t blocks @ ys) = merge_text (blocks @ CbReasoning t # ys)"
  by (cases blocks rule: rev_cases)
    (auto simp: push_reasoning_def merge_join_reasoning split: content_block.split)

lemma project_parts_merge:
  "project_parts blocks ps = Ok bs \<Longrightarrow> list_all part_visible ps \<Longrightarrow>
    merge_text bs = merge_text (blocks @ map part_block ps)"
  by (induction blocks ps rule: project_parts.induct)
    (auto simp: merge_push_text merge_push_reasoning tool_call_try_from_def id_try_from_def split: if_splits)

section \<open>Properties\<close>

text \<open>After the extensions have seen a message, its native form is kept exactly when the stop reason
  is still the native one and the displayed blocks are the projection of the native parts, up to how
  adjacent text or reasoning is divided into blocks.\<close>

lemma native_kept_iff_unedited:
  assumes "native_blocks m = Ok projected"
  shows "projection_matches m blocks stop \<longleftrightarrow>
    stop = native_stop_reason m \<and> merge_text blocks = merge_text projected"
proof -
  have "list_all part_visible (visible m)" by (simp add: visible_def list_all_iff)
  from matches_loop_iff [OF this, of blocks] project_parts_merge [OF assms [unfolded native_blocks_def] this]
  show ?thesis unfolding projection_matches_def by (simp, metis)
qed

end
