(* ===== verification/Attempt.thy ===== *)
theory Attempt
  imports Native_Message Compaction
begin

text \<open>
  One call of the model: the accumulation of its stream into an assistant message
  (\<^verbatim>\<open>crates/kernel/src/runtime/run/attempt.rs\<close>) and the streaming and settling phases of a turn
  (\<^verbatim>\<open>stream_assistant\<close> and \<^verbatim>\<open>settle_assistant\<close> of \<^verbatim>\<open>crates/kernel/src/runtime/run/turn.rs\<close>). What the
  provider, the clock, the event sink and the extensions answer comes in as arguments.
\<close>

section \<open>model.rs: stream events\<close>

record model_final =
  fin_stop_reason :: stop_reason
  fin_raw_stop_reason :: "string option"
  fin_usage :: json
  fin_model_message :: "json option"

datatype model_stream_event =
    TextDelta string
  | ReasoningDelta string
  | StreamToolCall tool_call
  | Finished model_final

text \<open>The provider library: how a native message reads, the empty usage and the sum of two, and the
  printed form of the errors that are formatted with \<^verbatim>\<open>Debug\<close>.\<close>

record model_env =
  native_view :: "json \<Rightarrow> native_message"
  default_usage :: json
  add_usage :: "json \<Rightarrow> json \<Rightarrow> json"
  model_error_text :: "model_error \<Rightarrow> string"

section \<open>attempt.rs\<close>

record assistant_attempt =
  at_identity :: message_identity
  at_profile :: model_profile
  at_timestamp_ms :: nat
  at_started_at_ms :: "nat option"
  at_ended_at_ms :: "nat option"
  at_blocks :: "content_block list"
  at_final :: "model_final option"

datatype attempt_settlement =
    AsCompleted nat
  | AsFailed model_error nat
  | AsCancelled nat

datatype attempt_result =
    ArCompleted agent_message
  | ArFailed agent_message failure
  | ArCancelled agent_message

definition attempt_new :: "message_id \<Rightarrow> turn_id \<Rightarrow> model_profile \<Rightarrow> nat \<Rightarrow> assistant_attempt" where
  "attempt_new message_id turn_id profile timestamp =
     \<lparr>at_identity = \<lparr>mi_message_id = message_id, mi_turn_id = turn_id\<rparr>, at_profile = profile,
      at_timestamp_ms = timestamp, at_started_at_ms = None, at_ended_at_ms = None, at_blocks = [], at_final = None\<rparr>"

definition touched :: "nat \<Rightarrow> assistant_attempt \<Rightarrow> assistant_attempt" where
  "touched now a = a\<lparr>at_started_at_ms := Some (case at_started_at_ms a of None \<Rightarrow> now | Some t \<Rightarrow> t),
     at_ended_at_ms := Some now\<rparr>"

definition tool_call_block :: "tool_call \<Rightarrow> content_block" where
  "tool_call_block c = CbToolCall (tc_tool_call_id c) (tc_name c) (tc_arguments c) (tc_invalid_arguments c)"

definition attempt_apply ::
    "model_stream_event \<Rightarrow> nat \<Rightarrow> assistant_attempt \<Rightarrow> assistant_attempt \<times> (unit, model_error) result" where
  "attempt_apply event now a =
     (if at_final a \<noteq> None then (a, Err (MeProtocol ''model emitted data after terminal metadata''))
      else (case event of
          TextDelta d \<Rightarrow> (touched now a)\<lparr>at_blocks := push_text d (at_blocks a)\<rparr>
        | ReasoningDelta d \<Rightarrow> (touched now a)\<lparr>at_blocks := push_reasoning d (at_blocks a)\<rparr>
        | StreamToolCall c \<Rightarrow> (touched now a)\<lparr>at_blocks := at_blocks a @ [tool_call_block c]\<rparr>
        | Finished f \<Rightarrow> a\<lparr>at_final := Some f\<rparr>, Ok ()))"

definition terminal_final :: "model_env \<Rightarrow> stop_reason \<Rightarrow> model_final" where
  "terminal_final env stop =
     \<lparr>fin_stop_reason = stop, fin_raw_stop_reason = None, fin_usage = default_usage env, fin_model_message = None\<rparr>"

definition or_else :: "'a option \<Rightarrow> 'a \<Rightarrow> 'a" where
  "or_else x d = (case x of None \<Rightarrow> d | Some y \<Rightarrow> y)"

text \<open>The timing of the message, with the error as the model boundary prints it.\<close>

definition attempt_timing :: "nat \<Rightarrow> assistant_attempt \<Rightarrow> (message_timing, model_error) result" where
  "attempt_timing observed a =
     (case message_timing_try_from (at_timestamp_ms a) (or_else (at_started_at_ms a) (at_timestamp_ms a))
             (or_else (at_ended_at_ms a) observed) of
        Ok t \<Rightarrow> Ok t
      | Err (started, ended) \<Rightarrow>
          Err (MeProtocol (''message ended at '' @ decimal ended @ '' before it started at '' @ decimal started)))"

definition attempt_snapshot ::
    "model_env \<Rightarrow> nat \<Rightarrow> assistant_attempt \<Rightarrow> (agent_message, model_error) result" where
  "attempt_snapshot env observed a =
     (let f = or_else (at_final a) (terminal_final env EndTurn) in
      and_then (attempt_timing observed a) (\<lambda>timing.
        Ok \<lparr>msg_identity = at_identity a, msg_timing = timing,
            msg_content = McAssistant (at_blocks a)
              \<lparr>am_provider_id = mp_provider_id (at_profile a), am_model_id = mp_model_id (at_profile a),
               am_stop_reason = fin_stop_reason f, am_raw_stop_reason = fin_raw_stop_reason f,
               am_usage = fin_usage f, am_error = None, am_context_overflow = False\<rparr> None\<rparr>))"

definition plain_failure :: "string \<Rightarrow> model_retry_disposition \<Rightarrow> failure" where
  "plain_failure summary disposition =
     \<lparr>mf_summary = summary, mf_status = None, mf_retry_disposition = disposition, mf_retry_after_ms = None,
      mf_context_overflow = False, mf_usage = None\<rparr>"

fun error_failure :: "model_error \<Rightarrow> failure" where
  "error_failure (MePreflight f) = f"
| "error_failure (MeRequest f) = f"
| "error_failure (MeStream f) = f"
| "error_failure (MeUnavailable summary) = plain_failure summary NonRetryable"
| "error_failure (MeProtocol summary) = plain_failure summary NonRetryable"
| "error_failure (MeAuthRequired m) = plain_failure (''sign-in required for provider '' @ m) NonRetryable"
| "error_failure MeCancelled = plain_failure ''model request cancelled'' NonRetryable"

text \<open>Final metadata, failure, cancellation and time of a settlement.\<close>

fun settlement_parts ::
    "model_env \<Rightarrow> model_final option \<Rightarrow> attempt_settlement \<Rightarrow> model_final \<times> failure option \<times> bool \<times> nat" where
  "settlement_parts env final (AsCompleted now) =
     (case final of
        Some f \<Rightarrow> (f, None, False, now)
      | None \<Rightarrow> (terminal_final env StopError,
                 Some (plain_failure ''model stream ended without terminal metadata'' Retryable), False, now))"
| "settlement_parts env final (AsFailed e now) =
     (if e = MeCancelled then (terminal_final env StopCancelled, None, True, now)
      else (terminal_final env StopError, Some (error_failure e), False, now))"
| "settlement_parts env final (AsCancelled now) = (terminal_final env StopCancelled, None, True, now)"

text \<open>Usage already reported survives a failure or a cancellation.\<close>

definition settled_usage ::
    "model_final option \<Rightarrow> model_final \<times> failure option \<times> bool \<times> nat \<Rightarrow> json" where
  "settled_usage reported parts =
     (let (f, failure, cancelled, now) = parts in
      if cancelled \<or> failure \<noteq> None then
        (case Option.bind failure mf_usage of
           Some u \<Rightarrow> u
         | None \<Rightarrow> (case reported of Some r \<Rightarrow> fin_usage r | None \<Rightarrow> fin_usage f))
      else fin_usage f)"

definition attempt_settle ::
    "model_env \<Rightarrow> attempt_settlement \<Rightarrow> assistant_attempt \<Rightarrow> (attempt_result, model_error) result" where
  "attempt_settle env settlement a =
     (let parts = settlement_parts env (at_final a) settlement; (f, failure, cancelled, now) = parts in
      and_then (case fin_model_message f of
                  Some native \<Rightarrow> native_blocks (native_view env native)
                | None \<Rightarrow> Ok (if at_blocks a = [] then [CbText []] else at_blocks a)) (\<lambda>blocks.
      and_then (attempt_timing now a) (\<lambda>timing.
        let message = \<lparr>msg_identity = at_identity a, msg_timing = timing,
            msg_content = McAssistant blocks
              \<lparr>am_provider_id = mp_provider_id (at_profile a), am_model_id = mp_model_id (at_profile a),
               am_stop_reason = fin_stop_reason f, am_raw_stop_reason = fin_raw_stop_reason f,
               am_usage = settled_usage (at_final a) parts, am_error = map_option mf_summary failure,
               am_context_overflow = (case failure of None \<Rightarrow> False | Some x \<Rightarrow> mf_context_overflow x)\<rparr>
              (fin_model_message f)\<rparr>
        in Ok (if cancelled then ArCancelled message
               else case failure of Some x \<Rightarrow> ArFailed message x | None \<Rightarrow> ArCompleted message))))"

section \<open>turn.rs: streaming\<close>

text \<open>\<^verbatim>\<open>KernelError::from(ModelError)\<close>.\<close>

fun kernel_model_error :: "model_env \<Rightarrow> model_error \<Rightarrow> kernel_error" where
  "kernel_model_error env MeCancelled = ModelCancelled"
| "kernel_model_error env (MeAuthRequired m) = ModelAuthRequired m"
| "kernel_model_error env e = OtherError (model_error_text env e)"

text \<open>What the loop meets in turn: a cancellation, the end of the stream, an error, or an event, each with
  the clock readings the loop takes and, for an event, how publishing its delta turns out.\<close>

datatype stream_item =
    SiCancelled nat
  | SiClosed nat
  | SiError model_error nat
  | SiEvent model_stream_event nat nat "(unit, kernel_error) result"

datatype message_delta = PublishedText string | PublishedReasoning string

fun published :: "model_stream_event \<Rightarrow> message_delta option" where
  "published (TextDelta d) = Some (PublishedText d)"
| "published (ReasoningDelta d) = Some (PublishedReasoning d)"
| "published (StreamToolCall c) = None"
| "published (Finished f) = None"

definition publish_result :: "model_stream_event \<Rightarrow> (unit, kernel_error) result \<Rightarrow> (unit, kernel_error) result" where
  "publish_result event outcome = (case published event of None \<Rightarrow> Ok () | Some d \<Rightarrow> outcome)"

text \<open>The snapshot extensions that observe updates are shown.\<close>

definition observed_snapshot ::
    "model_env \<Rightarrow> bool \<Rightarrow> model_stream_event \<Rightarrow> nat \<Rightarrow> assistant_attempt \<Rightarrow> (unit, kernel_error) result" where
  "observed_snapshot env observes event now a =
     (case event of
        Finished f \<Rightarrow> Ok ()
      | _ \<Rightarrow> if observes then (case attempt_snapshot env now a of
            Ok m \<Rightarrow> Ok () | Err e \<Rightarrow> Err (kernel_model_error env e)) else Ok ())"

text \<open>\<open>None\<close> is a stream that neither yields nor ends nor is cancelled.\<close>

fun stream_loop ::
    "model_env \<Rightarrow> bool \<Rightarrow> stream_item list \<Rightarrow> assistant_attempt
      \<Rightarrow> message_delta list \<times> (assistant_attempt \<times> attempt_settlement, kernel_error) result option" where
  "stream_loop env observes [] a = ([], None)"
| "stream_loop env observes (SiCancelled now # items) a = ([], Some (Ok (a, AsCancelled now)))"
| "stream_loop env observes (SiClosed now # items) a = ([], Some (Ok (a, AsCompleted now)))"
| "stream_loop env observes (SiError e now # items) a = ([], Some (Ok (a, AsFailed e now)))"
| "stream_loop env observes (SiEvent event now later outcome # items) a =
     (case attempt_apply event now a of
        (a', Err e) \<Rightarrow> ([], Some (Ok (a', AsFailed e later)))
      | (a', Ok _) \<Rightarrow>
         (case publish_result event outcome of
            Err e \<Rightarrow> ([], Some (Err e))
          | Ok _ \<Rightarrow>
             (let deltas = (case published event of None \<Rightarrow> [] | Some d \<Rightarrow> [d]) in
              case observed_snapshot env observes event now a' of
                Err e \<Rightarrow> (deltas, Some (Err e))
              | Ok _ \<Rightarrow> (let (more, r) = stream_loop env observes items a' in (deltas @ more, r)))))"

text \<open>The whole phase: \<open>opened\<close> is the answer to the request, \<open>started\<close> the publication of the message start.\<close>

definition stream_assistant ::
    "model_env \<Rightarrow> bool \<Rightarrow> assistant_attempt \<Rightarrow> (unit, kernel_error) result \<Rightarrow> (unit, model_error) result \<Rightarrow> nat
      \<Rightarrow> stream_item list \<Rightarrow> message_delta list \<times> (attempt_result, kernel_error) result option" where
  "stream_assistant env observes a started opened now items =
     (case started of
        Err e \<Rightarrow> ([], Some (Err e))
      | Ok _ \<Rightarrow>
         (case attempt_snapshot env (at_timestamp_ms a) a of
            Err e \<Rightarrow> ([], Some (Err (kernel_model_error env e)))
          | Ok _ \<Rightarrow>
             (let (deltas, run) =
                (case opened of
                   Ok _ \<Rightarrow> stream_loop env observes items a
                 | Err MeCancelled \<Rightarrow> ([], Some (Ok (a, AsCancelled now)))
                 | Err e \<Rightarrow> ([], Some (Ok (a, AsFailed e now))))
              in (deltas,
                  case run of
                    None \<Rightarrow> None
                  | Some (Err e) \<Rightarrow> Some (Err e)
                  | Some (Ok (a', settlement)) \<Rightarrow>
                      (case attempt_settle env settlement a' of
                         Ok r \<Rightarrow> Some (Ok r)
                       | Err e \<Rightarrow> Some (Err (kernel_model_error env e)))))))"

section \<open>turn.rs: settling\<close>

record settled_assistant =
  sa_assistant_id :: message_id
  sa_usage :: json
  sa_failure :: "failure option"
  sa_cancelled :: bool
  sa_overflow_recovery :: "overflow_action option"
  sa_stop_reason :: stop_reason
  sa_tool_calls :: "tool_call list"

fun block_tool_call :: "content_block \<Rightarrow> tool_call option" where
  "block_tool_call (CbToolCall i n a x) =
     Some \<lparr>tc_tool_call_id = i, tc_name = n, tc_arguments = a, tc_invalid_arguments = x\<rparr>"
| "block_tool_call _ = None"

fun result_parts :: "attempt_result \<Rightarrow> agent_message \<times> failure option \<times> bool" where
  "result_parts (ArCompleted m) = (m, None, False)"
| "result_parts (ArFailed m f) = (m, Some f, False)"
| "result_parts (ArCancelled m) = (m, None, True)"

text \<open>The metadata an extension may have changed, brought back in line with what really happened.\<close>

definition settle_metadata ::
    "failure option \<Rightarrow> bool \<Rightarrow> assistant_metadata \<Rightarrow> assistant_metadata \<times> failure option \<times> bool" where
  "settle_metadata failure cancelled0 metadata =
     (let cancelled = cancelled0 \<or> am_stop_reason metadata = StopCancelled in
      if cancelled then (metadata\<lparr>am_stop_reason := StopCancelled\<rparr>, failure, cancelled)
      else case failure of
        Some f \<Rightarrow> (metadata\<lparr>am_stop_reason := StopError, am_error := Some (mf_summary f),
                           am_context_overflow := mf_context_overflow f\<rparr>, failure, cancelled)
      | None \<Rightarrow>
          if am_stop_reason metadata \<in> {StopError, Refusal} then
            (metadata, Some ((plain_failure (or_else (am_error metadata) ''MessageEnd ended the turn with an error'')
               NonRetryable)\<lparr>mf_context_overflow := am_context_overflow metadata\<rparr>), cancelled)
          else (metadata, None, cancelled))"

definition settle_assistant ::
    "model_env \<Rightarrow> measure_env \<Rightarrow> compaction_policy \<Rightarrow> model_profile \<Rightarrow> (agent_message \<Rightarrow> agent_message)
      \<Rightarrow> message_id \<Rightarrow> attempt_result \<Rightarrow> json
      \<Rightarrow> json \<times> (agent_message \<times> settled_assistant, kernel_error) result" where
  "settle_assistant env counters policy profile message_end assistant_id attempt run_usage =
     (let (message, failure, cancelled) = result_parts attempt;
          usage = (case msg_content message of McAssistant b metadata n \<Rightarrow> add_usage env run_usage (am_usage metadata)
                   | _ \<Rightarrow> run_usage);
          assistant = message_end message in
      (usage,
       case msg_content assistant of
         McAssistant blocks metadata0 native \<Rightarrow>
           (let (metadata, failure', cancelled') = settle_metadata failure cancelled metadata0;
                native' = (case native of
                    None \<Rightarrow> None
                  | Some n \<Rightarrow> if projection_matches (native_view env n) blocks (am_stop_reason metadata) then Some n else None);
                calls = (if failure' = None \<and> \<not> cancelled' \<and> am_stop_reason metadata \<in> {ToolUse, MaxTokens}
                         then List.map_filter block_tool_call blocks else [])
            in Ok (assistant\<lparr>msg_content := McAssistant blocks metadata native'\<rparr>,
              \<lparr>sa_assistant_id = assistant_id, sa_usage = am_usage metadata, sa_failure = failure',
               sa_cancelled = cancelled', sa_overflow_recovery = overflow_recovery counters policy metadata profile,
               sa_stop_reason = am_stop_reason metadata, sa_tool_calls = calls\<rparr>))
       | _ \<Rightarrow> Err (ProtocolError ''settled Assistant message lost its role'')))"

end
