(* ===== verification/Attempt_Props.thy ===== *)
theory Attempt_Props
  imports Attempt
begin

text \<open>
  The message of a model call is its stream: what was published, what is stored and what the kernel
  acts on come from the same events, and extensions cannot turn a failed call into a successful one.
\<close>

section \<open>Accumulated blocks\<close>

definition joinable :: "content_block \<Rightarrow> content_block list \<Rightarrow> bool" where
  "joinable b bs \<longleftrightarrow> (\<exists>r. block_runs r b \<and> bs \<noteq> [] \<and> block_runs r (hd bs))"

lemma merge_joined: "merge_text (run_block r a # run_block r b # bs) = merge_text (run_block r (a @ b) # bs)"
  by (cases r) simp_all

lemma merge_apart: "\<not> joinable b bs \<Longrightarrow> merge_text (b # bs) = b # merge_text bs"
proof (cases "\<exists>r. block_runs r b")
  case True
  assume "\<not> joinable b bs"
  with True obtain r where r: "block_runs r b" "bs = [] \<or> \<not> block_runs r (hd bs)" by (auto simp: joinable_def)
  then have "takeWhile (block_runs r) bs = []" "dropWhile (block_runs r) bs = bs" by (cases bs; auto)+
  moreover have "run_block r (display_text b) = b" using r(1) block_runs_iff by metis
  ultimately show ?thesis using merge_run_front [OF r(1), of bs] r(1) by simp
qed (simp add: merge_other)

lemma merge_cases:
  obtains (Nil) "xs = []" | (Join) r a b bs where "xs = run_block r a # run_block r b # bs"
  | (Apart) b bs where "xs = b # bs" "\<not> joinable b bs"
proof (cases xs)
  case Nil
  then show thesis by (rule that(1))
next
  case (Cons b bs)
  show thesis
  proof (cases "joinable b bs")
    case False
    with Cons that(3) show thesis by blast
  next
    case True
    then obtain r c cs where "block_runs r b" "bs = c # cs" "block_runs r c"
      by (auto simp: joinable_def neq_Nil_conv)
    with Cons that(2) block_runs_iff show thesis by metis
  qed
qed

lemma merge_induct [case_names Nil Join Apart]:
  assumes "P []" and "\<And>r a b bs. P (run_block r (a @ b) # bs) \<Longrightarrow> P (run_block r a # run_block r b # bs)"
    and "\<And>b bs. \<not> joinable b bs \<Longrightarrow> P bs \<Longrightarrow> P (b # bs)"
  shows "P xs"
proof (induction "length xs" arbitrary: xs rule: less_induct)
  case less
  show ?case by (cases xs rule: merge_cases) (use less assms in auto)
qed

text \<open>A delta joins the last block exactly when it is of the same kind.\<close>

definition push_run :: "bool \<Rightarrow> string \<Rightarrow> content_block list \<Rightarrow> content_block list" where
  "push_run r t bs =
     (if bs \<noteq> [] \<and> block_runs r (last bs)
      then butlast bs @ [run_block r (display_text (last bs) @ t)] else bs @ [run_block r t])"

lemma push_text_run: "push_text t bs = push_run False t bs"
  by (cases bs rule: rev_cases) (auto simp: push_text_def push_run_def split: content_block.split)

lemma push_reasoning_run: "push_reasoning t bs = push_run True t bs"
  by (cases bs rule: rev_cases) (auto simp: push_reasoning_def push_run_def split: content_block.split)

lemma push_run_Cons: "bs \<noteq> [] \<Longrightarrow> push_run r t (b # bs) = b # push_run r t bs"
  by (simp add: push_run_def)

lemma push_run_single: "merge_text [b, run_block r t] = push_run r t [b]"
proof (cases "block_runs r b")
  case True
  then have "b = run_block r (display_text b)" by (simp add: block_runs_iff)
  then have "merge_text [b, run_block r t] = merge_text [run_block r (display_text b @ t)]"
    using merge_joined [of r "display_text b" t "[]"] by simp
  with True show ?thesis by (cases r) (simp_all add: push_run_def)
next
  case False
  then have "\<not> joinable b [run_block r t]" by (cases b; cases r) (auto simp: joinable_def elim: block_runs.elims)
  with False show ?thesis by (cases r) (simp_all add: merge_apart push_run_def)
qed

lemma push_run_merge: "push_run r t (merge_text xs) = merge_text (xs @ [run_block r t])"
proof (induction xs rule: merge_induct)
  case Nil
  show ?case by (cases r) (simp_all add: push_run_def)
next
  case (Join r' a b bs)
  then show ?case by (simp add: merge_joined)
next
  case (Apart b bs)
  show ?case
  proof (cases bs)
    case Nil
    then show ?thesis using Apart(1) by (simp add: merge_apart push_run_single)
  next
    case (Cons c cs)
    then have "\<not> joinable b (bs @ [run_block r t])" "merge_text bs \<noteq> []"
      using Apart(1) merge_nonempty by (auto simp: joinable_def)
    with Apart show ?thesis by (simp add: merge_apart push_run_Cons)
  qed
qed

lemma push_item_merge:
  assumes "\<And>r. \<not> block_runs r c"
  shows "merge_text xs @ [c] = merge_text (xs @ [c])"
proof (induction xs rule: merge_induct)
  case (Apart b bs)
  then have "\<not> joinable b (bs @ [c])" using assms by (cases bs) (auto simp: joinable_def)
  with Apart show ?case by (simp add: merge_apart)
qed (use assms in \<open>auto simp: merge_joined merge_other\<close>)

section \<open>The stream\<close>

fun stream_events :: "stream_item list \<Rightarrow> model_stream_event list" where
  "stream_events (SiEvent event now later outcome # items) = event # stream_events items"
| "stream_events _ = []"

fun event_final :: "model_stream_event \<Rightarrow> model_final option" where
  "event_final (Finished f) = Some f"
| "event_final _ = None"

fun event_block :: "model_stream_event \<Rightarrow> content_block" where
  "event_block (TextDelta d) = CbText d"
| "event_block (ReasoningDelta d) = CbReasoning d"
| "event_block (StreamToolCall c) = tool_call_block c"
| "event_block (Finished f) = CbText []"

text \<open>The events in front of the terminal metadata.\<close>

definition content_events :: "stream_item list \<Rightarrow> model_stream_event list" where
  "content_events items = takeWhile (\<lambda>e. event_final e = None) (stream_events items)"

lemma apply_blocks:
  assumes "at_final a = None" "at_blocks a = merge_text xs" "event_final e = None"
  shows "at_blocks (fst (attempt_apply e now a)) = merge_text (xs @ [event_block e])"
    and "at_final (fst (attempt_apply e now a)) = None" "snd (attempt_apply e now a) = Ok ()"
proof -
  have call: "\<not> block_runs r (tool_call_block c)" for r c by (simp add: tool_call_block_def)
  show "at_blocks (fst (attempt_apply e now a)) = merge_text (xs @ [event_block e])"
    using assms push_run_merge [of False _ xs] push_run_merge [of True _ xs] push_item_merge [OF call, of xs]
    by (cases e) (auto simp: attempt_apply_def push_text_run push_reasoning_run)
  show "at_final (fst (attempt_apply e now a)) = None" "snd (attempt_apply e now a) = Ok ()"
    using assms by (cases e; simp add: attempt_apply_def touched_def)+
qed

lemma apply_frame:
  "at_identity (fst (attempt_apply e now a)) = at_identity a"
  "at_profile (fst (attempt_apply e now a)) = at_profile a"
  "at_timestamp_ms (fst (attempt_apply e now a)) = at_timestamp_ms a"
  by (cases e; simp add: attempt_apply_def touched_def)+

lemma stream_after_final:
  assumes "at_final a \<noteq> None" "stream_loop env observes items a = (ds, Some (Ok (a', s)))"
  shows "a' = a \<and> ds = [] \<and> (stream_events items \<noteq> [] \<longrightarrow>
    (\<exists>t. s = AsFailed (MeProtocol ''model emitted data after terminal metadata'') t))"
  using assms by (cases items rule: stream_events.cases) (auto simp: attempt_apply_def)

lemma stream_loop_frame:
  assumes "stream_loop env observes items a = (ds, Some (Ok (a', s)))"
  shows "at_identity a' = at_identity a"
  using assms
proof (induction items arbitrary: a ds rule: stream_events.induct)
  case (1 event now later outcome items)
  obtain a1 r where step: "attempt_apply event now a = (a1, r)" by (rule prod.exhaust)
  have a1: "at_identity a1 = at_identity a" using apply_frame(1) [of event now a] step by simp
  show ?case
  proof (cases r)
    case (Err e)
    with "1.prems" step a1 show ?thesis by simp
  next
    case (Ok u)
    with "1.prems" step obtain more where "stream_loop env observes items a1 = (more, Some (Ok (a', s)))"
      by (auto simp: Let_def split: result.splits prod.splits)
    with "1.IH" a1 show ?thesis by metis
  qed
qed auto

lemma stream_loop_spec:
  assumes "stream_loop env observes items a = (ds, Some (Ok (a', s)))" "at_final a = None" "at_blocks a = merge_text xs"
  shows "at_blocks a' = merge_text (xs @ map event_block (content_events items)) \<and>
    ds = List.map_filter published (content_events items) \<and> at_final a' = find_map event_final (stream_events items)"
  using assms
proof (induction items arbitrary: a xs ds rule: stream_events.induct)
  case (1 event now later outcome items)
  obtain a1 r where step: "attempt_apply event now a = (a1, r)" by (rule prod.exhaust)
  show ?case
  proof (cases "event_final event")
    case None
    note eff = apply_blocks [OF "1.prems"(2,3) None, of now, unfolded step]
    from "1.prems"(1) step eff(3) obtain more where more: "stream_loop env observes items a1 = (more, Some (Ok (a', s)))"
        "ds = (case published event of None \<Rightarrow> [] | Some d \<Rightarrow> [d]) @ more"
      by (auto simp: Let_def split: result.splits prod.splits)
    from "1.IH" [OF more(1), of "xs @ [event_block event]"] eff(1,2) None more(2) show ?thesis
      by (auto simp: content_events_def List.map_filter_simps split: option.splits)
  next
    case (Some f)
    then have event: "event = Finished f" by (cases event) simp_all
    with step "1.prems"(2) have a1: "a1 = a\<lparr>at_final := Some f\<rparr>" "r = Ok ()" by (simp_all add: attempt_apply_def)
    from "1.prems"(1) step a1 event obtain more where more: "stream_loop env observes items a1 = (more, Some (Ok (a', s)))" "ds = more"
      by (auto simp: Let_def publish_result_def observed_snapshot_def split: result.splits prod.splits)
    from stream_after_final [OF _ more(1)] a1 more(2) event "1.prems"(3) show ?thesis
      by (simp add: content_events_def List.map_filter_simps)
  qed
qed (auto simp: content_events_def List.map_filter_simps)

section \<open>The settled message\<close>

text \<open>What the message of a settled attempt holds, given the blocks and metadata of the attempt.\<close>

definition settled_content ::
    "model_env \<Rightarrow> content_block list \<Rightarrow> model_final option \<Rightarrow> attempt_result \<Rightarrow> bool" where
  "settled_content env streamed final r \<longleftrightarrow>
     (\<exists>blocks metadata native. msg_content (fst (result_parts r)) = McAssistant blocks metadata native \<and>
        (case native of
           None \<Rightarrow> blocks = (if streamed = [] then [CbText []] else streamed)
         | Some n \<Rightarrow> native_blocks (native_view env n) = Ok blocks \<and> Option.bind final fin_model_message = Some n) \<and>
        (\<forall>m. r = ArCompleted m \<longrightarrow>
           (\<exists>f. final = Some f \<and> am_stop_reason metadata = fin_stop_reason f \<and> am_usage metadata = fin_usage f)) \<and>
        (\<forall>f. final = Some f \<and> Option.bind (fst (snd (result_parts r))) mf_usage = None \<longrightarrow> am_usage metadata = fin_usage f) \<and>
        am_error metadata = map_option mf_summary (fst (snd (result_parts r))))"

lemma settlement_parts_cases:
  obtains (Completed) f now where "at_final a = Some f" "settlement_parts env (at_final a) s = (f, None, False, now)"
  | (Failed) f now where "settlement_parts env (at_final a) s = (terminal_final env StopError, Some f, False, now)"
  | (Cancelled) now where "settlement_parts env (at_final a) s = (terminal_final env StopCancelled, None, True, now)"
proof (cases s)
  case (AsCompleted now)
  with that show thesis by (cases "at_final a") auto
next
  case (AsFailed e now)
  with that show thesis by (cases "e = MeCancelled") auto
next
  case (AsCancelled now)
  with that show thesis by simp
qed

lemma attempt_settle_content:
  assumes "attempt_settle env s a = Ok r"
  shows "settled_content env (at_blocks a) (at_final a) r"
proof -
  note unfolded = attempt_settle_def settled_content_def Let_def and_then_Ok_iff settled_usage_def
  show ?thesis
  proof (cases rule: settlement_parts_cases [of a env s])
    case (Completed f now)
    with assms show ?thesis by (cases "fin_model_message f") (auto simp: unfolded split: result.splits)
  next
    case (Failed f now)
    with assms show ?thesis
      by (auto simp: unfolded terminal_final_def split: result.splits option.splits)
  next
    case (Cancelled now)
    with assms show ?thesis
      by (auto simp: unfolded terminal_final_def split: result.splits option.splits)
  qed
qed

lemma merge_empty_iff: "merge_text bs = [] \<longleftrightarrow> bs = []"
  using merge_nonempty by (cases bs) auto

text \<open>With a clock that does not run backwards, settling fails only on a native message whose tool calls
  carry no identifier.\<close>

lemma attempt_settle_total:
  assumes "or_else (at_started_at_ms a) (at_timestamp_ms a) \<le> or_else (at_ended_at_ms a) now"
    and "s = AsCompleted now \<or> s = AsCancelled now \<or> (\<exists>e. s = AsFailed e now)"
    and "\<And>f n. at_final a = Some f \<Longrightarrow> fin_model_message f = Some n \<Longrightarrow> is_ok (native_blocks (native_view env n))"
  shows "is_ok (attempt_settle env s a)"
proof -
  have time: "snd (snd (snd (settlement_parts env (at_final a) s))) = now"
    using assms(2) by (auto split: option.split)
  have ok: "is_ok (case fin_model_message (fst (settlement_parts env (at_final a) s)) of
      Some native \<Rightarrow> native_blocks (native_view env native) | None \<Rightarrow> Ok bs)" for bs :: "content_block list"
    using assms(3) by (cases rule: settlement_parts_cases [of a env s]) (auto simp: terminal_final_def split: option.split)
  obtain f failure cancelled where parts: "settlement_parts env (at_final a) s = (f, failure, cancelled, now)"
    using time by (metis prod.collapse)
  obtain timing where "attempt_timing now a = Ok timing"
    using assms(1) by (simp add: attempt_timing_def message_timing_try_from_def)
  moreover obtain blocks where "(case fin_model_message f of
      Some native \<Rightarrow> native_blocks (native_view env native)
    | None \<Rightarrow> Ok (if at_blocks a = [] then [CbText []] else at_blocks a)) = Ok blocks"
    using ok [of "if at_blocks a = [] then [CbText []] else at_blocks a"] by (auto simp: parts is_ok_iff)
  ultimately show ?thesis by (simp add: attempt_settle_def parts Let_def)
qed

section \<open>Properties\<close>

text \<open>C20: the message a model call leaves is its stream. The deltas published are those in front of the
  terminal metadata, in order; the stored blocks are these deltas and tool calls with adjacent text
  joined, or the projection of the native message the metadata carries; a call counts as completed
  only with terminal metadata, whose stop reason and usage it keeps; usage already reported survives
  a later failure or cancellation.\<close>

theorem stored_message_is_stream:
  assumes "stream_assistant env observes (attempt_new mid tid profile start) (Ok ()) (Ok ()) now items = (deltas, Some (Ok r))"
  shows "deltas = List.map_filter published (content_events items) \<and>
    msg_identity (fst (result_parts r)) = \<lparr>mi_message_id = mid, mi_turn_id = tid\<rparr> \<and>
    settled_content env (merge_text (map event_block (content_events items)))
      (find_map event_final (stream_events items)) r"
proof -
  let ?a = "attempt_new mid tid profile start"
  from assms obtain a' s where run: "stream_loop env observes items ?a = (deltas, Some (Ok (a', s)))"
    and settle: "attempt_settle env s a' = Ok r"
    by (auto simp: stream_assistant_def Let_def split: result.splits option.splits prod.splits)
  have "at_final ?a = None" "at_blocks ?a = merge_text []" by (simp_all add: attempt_new_def)
  note spec = stream_loop_spec [OF run this]
  have "msg_identity (fst (result_parts r)) = at_identity a'"
    using settle by (auto simp: attempt_settle_def Let_def and_then_Ok_iff split: prod.splits option.splits if_splits)
  also have "\<dots> = at_identity ?a" by (rule stream_loop_frame [OF run])
  finally show ?thesis using spec attempt_settle_content [OF settle] by (simp add: attempt_new_def)
qed

definition sample_model_env :: model_env where
  "sample_model_env = \<lparr>native_view = (\<lambda>v. \<lparr>nm_content = [], nm_stop = None\<rparr>), default_usage = JNull,
     add_usage = (\<lambda>a b. b), model_error_text = (\<lambda>e. ''model'')\<rparr>"

definition sample_profile :: model_profile where
  "sample_profile = \<lparr>mp_provider_id = ''p'', mp_model_id = ''m'', mp_display_name = ''M'', mp_context_tokens = 1000,
     mp_max_output_tokens = 100, mp_request_max_tokens = 100, mp_input = [ModalityText], mp_prompt_cache = None\<rparr>"

definition sample_stream :: "stream_item list" where
  "sample_stream = [SiEvent (TextDelta ''a'') 2 2 (Ok ()), SiEvent (TextDelta ''b'') 3 3 (Ok ()),
     SiEvent (Finished \<lparr>fin_stop_reason = EndTurn, fin_raw_stop_reason = None, fin_usage = JBool True,
       fin_model_message = None\<rparr>) 4 4 (Ok ()), SiClosed 5]"

theorem stored_message_is_stream_witness:
  "\<exists>deltas r. stream_assistant sample_model_env False (attempt_new ''m1'' ''t1'' sample_profile 1) (Ok ()) (Ok ()) 1 sample_stream =
      (deltas, Some (Ok r)) \<and>
    deltas = [PublishedText ''a'', PublishedText ''b''] \<and> settled_content sample_model_env [CbText ''ab'']
      (find_map event_final (stream_events sample_stream)) r"
proof -
  have "\<exists>r. snd (stream_assistant sample_model_env False (attempt_new ''m1'' ''t1'' sample_profile 1)
      (Ok ()) (Ok ()) 1 sample_stream) = Some (Ok r)"
    by (simp add: Let_def stream_assistant_def sample_stream_def attempt_snapshot_def attempt_timing_def message_timing_try_from_def
        attempt_new_def or_else_def attempt_apply_def touched_def push_text_def publish_result_def observed_snapshot_def
        attempt_settle_def settled_usage_def)
  then obtain deltas r where run: "stream_assistant sample_model_env False (attempt_new ''m1'' ''t1'' sample_profile 1)
      (Ok ()) (Ok ()) 1 sample_stream = (deltas, Some (Ok r))" by (metis prod.collapse)
  have "content_events sample_stream = [TextDelta ''a'', TextDelta ''b'']"
    by (simp add: content_events_def sample_stream_def)
  with run stored_message_is_stream [OF run] show ?thesis by (auto simp: List.map_filter_simps)
qed


definition sample_counters :: measure_env where
  "sample_counters = \<lparr>input_tokens = (\<lambda>u. None), output_tokens = (\<lambda>u. None), context_tokens = (\<lambda>u. None),
     json_string = (\<lambda>v. []), extension_string = (\<lambda>e. [])\<rparr>"

definition sample_assistant :: "stop_reason \<Rightarrow> agent_message" where
  "sample_assistant stop = \<lparr>msg_identity = \<lparr>mi_message_id = ''m1'', mi_turn_id = ''t1''\<rparr>,
     msg_timing = \<lparr>mt_timestamp_ms = 1, mt_started_at_ms = 1, mt_ended_at_ms = 1\<rparr>,
     msg_content = McAssistant [CbToolCall ''c1'' ''bash'' (JObject []) None]
       \<lparr>am_provider_id = ''p'', am_model_id = ''m'', am_stop_reason = stop, am_raw_stop_reason = None,
        am_usage = JNull, am_error = None, am_context_overflow = False\<rparr> None\<rparr>"


end
