(* ===== verification/Tool_Catalog.thy ===== *)
theory Tool_Catalog
  imports Transcript_Props Mcp_Identity Native_Message Tool_Output
    "HOL-Library.Char_ord" "HOL-Library.List_Lexorder"
begin

text \<open>
  The tools of a session: the registry (\<^verbatim>\<open>crates/tools/src/contract.rs\<close>), the catalog of three
  partitions with the user's selection (\<^verbatim>\<open>crates/kernel/src/runtime/tools/state.rs\<close>) and the
  operations that change and persist the selection
  (\<^verbatim>\<open>crates/kernel/src/runtime/tools/selection.rs\<close>). A tool is its definition, its metadata, its
  argument check and an identity \<open>'i\<close> for its implementation, which the model never runs.
\<close>

section \<open>contract.rs and tool.rs: tools\<close>

datatype tool_error =
    TeCancelled
  | TeNotFound string
  | TeInvalidArguments string string
  | TeDuplicate string
  | TeReservedName string
  | TeRegistryPoisoned
  | TeExecution string string

fun tool_error_text :: "tool_error \<Rightarrow> string" where
  "tool_error_text TeCancelled = ''Operation aborted''"
| "tool_error_text (TeNotFound n) = ''tool not found: '' @ n"
| "tool_error_text (TeInvalidArguments t m) = ''invalid arguments for '' @ t @ '': '' @ m"
| "tool_error_text (TeDuplicate n) = ''tool already registered: '' @ n"
| "tool_error_text (TeReservedName n) = ''tool name is reserved: '' @ n"
| "tool_error_text TeRegistryPoisoned = ''tool registry lock poisoned''"
| "tool_error_text (TeExecution t m) = m"

fun kernel_tool_error :: "tool_error \<Rightarrow> kernel_error" where
  "kernel_tool_error TeCancelled = ToolCancelled"
| "kernel_tool_error e = OtherError (''tool subsystem failed: '' @ tool_error_text e)"

datatype tool_exposure = Direct | Deferred | Hidden

record tool_metadata =
  tm_exposure :: tool_exposure
  tm_read_only_hint :: "bool option"
  tm_output_policy :: output_policy
  tm_mcp_ref :: "mcp_tool_ref option"

record tool_definition =
  td_name :: string
  td_description :: string
  td_parameters :: json

record 'i agent_tool =
  ag_definition :: tool_definition
  ag_metadata :: tool_metadata
  ag_validate :: "tool_call \<Rightarrow> (unit, tool_error) result"
  ag_implementation :: 'i

text \<open>The argument check a tool has unless it defines its own.\<close>

definition default_validate :: "tool_definition \<Rightarrow> tool_call \<Rightarrow> (unit, tool_error) result" where
  "default_validate d call = (if td_name d = tc_name call then Ok () else Err (TeNotFound (tc_name call)))"

section \<open>contract.rs: the registry\<close>

text \<open>A \<^verbatim>\<open>BTreeMap\<close> is the list of its entries in key order.\<close>

type_synonym 'i tool_registry = "(string \<times> 'i agent_tool) list"

fun btree_insert :: "string \<Rightarrow> 'v \<Rightarrow> (string \<times> 'v) list \<Rightarrow> (string \<times> 'v) list" where
  "btree_insert k v [] = [(k, v)]"
| "btree_insert k v ((k', v') # m) =
     (if k < k' then (k, v) # (k', v') # m
      else if k = k' then (k, v) # m
      else (k', v') # btree_insert k v m)"

definition tool_name :: "'i agent_tool \<Rightarrow> string" where
  "tool_name tool = td_name (ag_definition tool)"

definition registry_register :: "'i agent_tool \<Rightarrow> 'i tool_registry \<Rightarrow> ('i tool_registry, tool_error) result" where
  "registry_register tool r =
     (if map_of r (tool_name tool) \<noteq> None then Err (TeDuplicate (tool_name tool))
      else Ok (btree_insert (tool_name tool) tool r))"

definition upsert :: "'i agent_tool \<Rightarrow> 'i tool_registry \<Rightarrow> 'i tool_registry" where
  "upsert tool r = btree_insert (tool_name tool) tool r"

fun registry_merge :: "'i tool_registry \<Rightarrow> 'i tool_registry \<Rightarrow> ('i tool_registry, tool_error) result" where
  "registry_merge [] r = Ok r"
| "registry_merge ((name, tool) # others) r =
     (if map_of r name \<noteq> None then Err (TeDuplicate name)
      else registry_merge others (btree_insert name tool r))"

definition overlay :: "'i tool_registry \<Rightarrow> 'i tool_registry \<Rightarrow> 'i tool_registry" where
  "overlay other r = fold (\<lambda>(name, tool). btree_insert name tool) other r"

definition registry_names :: "'i tool_registry \<Rightarrow> string list" where
  "registry_names r = map fst r"

definition definitions :: "'i tool_registry \<Rightarrow> tool_definition list" where
  "definitions r = map (\<lambda>(n, tool). ag_definition tool) r"

fun subset_loop ::
    "'i tool_registry \<Rightarrow> string list \<Rightarrow> 'i tool_registry \<Rightarrow> ('i tool_registry, tool_error) result" where
  "subset_loop r [] acc = Ok acc"
| "subset_loop r (name # names) acc =
     (case map_of r name of
        None \<Rightarrow> Err (TeNotFound name)
      | Some tool \<Rightarrow>
          if map_of acc name \<noteq> None then Err (TeDuplicate name)
          else subset_loop r names (btree_insert name tool acc))"

definition registry_subset :: "string list \<Rightarrow> 'i tool_registry \<Rightarrow> ('i tool_registry, tool_error) result" where
  "registry_subset names r = subset_loop r names []"

definition registry_tool :: "string \<Rightarrow> 'i tool_registry \<Rightarrow> 'i agent_tool option" where
  "registry_tool name r = map_of r name"

definition registry_validate :: "tool_call \<Rightarrow> 'i tool_registry \<Rightarrow> (unit, tool_error) result" where
  "registry_validate call r =
     (case registry_tool (tc_name call) r of
        None \<Rightarrow> Err (TeNotFound (tc_name call))
      | Some tool \<Rightarrow> ag_validate tool call)"

section \<open>tool.rs and state.rs: the catalog\<close>

record tool_selection =
  sel_version :: nat
  sel_loaded :: "string set"
  sel_disabled :: "string set"

definition default_selection :: tool_selection where
  "default_selection = \<lparr>sel_version = 1, sel_loaded = {}, sel_disabled = {}\<rparr>"

definition selection_from :: "string list \<Rightarrow> tool_selection" where
  "selection_from names = default_selection\<lparr>sel_loaded := set names\<rparr>"

definition RESERVED_TOOL_NAMES :: "string list" where
  "RESERVED_TOOL_NAMES = [''exit_plan_mode'', ''todo_write'']"

text \<open>Of the search index only the names of its documents matter here.\<close>

record 'i tool_snapshot =
  sn_builtins :: "'i tool_registry"
  sn_extensions :: "'i tool_registry"
  sn_mcp :: "'i tool_registry"
  sn_selection :: tool_selection
  sn_revision :: nat
  sn_search_index :: "string list"
  sn_kernel_owned :: "string set"

definition has_extension :: "string \<Rightarrow> 'i tool_snapshot \<Rightarrow> bool" where
  "has_extension name s = (registry_tool name (sn_extensions s) \<noteq> None)"

definition declares :: "string \<Rightarrow> tool_exposure \<Rightarrow> 'i tool_snapshot \<Rightarrow> bool" where
  "declares name exposure s \<longleftrightarrow> exposure \<noteq> Hidden \<and> name \<notin> sel_disabled (sn_selection s) \<and>
     (exposure = Direct \<or> name \<in> sel_loaded (sn_selection s))"

definition available_registry :: "'i tool_snapshot \<Rightarrow> 'i tool_registry" where
  "available_registry s = overlay (sn_mcp s) (overlay (sn_extensions s) (sn_builtins s))"

definition exposure_of :: "'i tool_registry \<Rightarrow> string \<Rightarrow> tool_exposure option" where
  "exposure_of r name = map_option (\<lambda>tool. tm_exposure (ag_metadata tool)) (registry_tool name r)"

definition rebuild_search_index :: "'i tool_snapshot \<Rightarrow> 'i tool_snapshot" where
  "rebuild_search_index s =
     (let available = available_registry s in
      s\<lparr>sn_search_index := filter (\<lambda>n. exposure_of available n = Some Deferred) (registry_names available)\<rparr>)"

definition search_available :: "'i tool_snapshot \<Rightarrow> bool" where
  "search_available s = list_ex (\<lambda>n. n \<notin> sel_disabled (sn_selection s)) (sn_search_index s)"

definition active_names_in :: "'i tool_snapshot \<Rightarrow> 'i tool_registry \<Rightarrow> string list" where
  "active_names_in s available =
     filter (\<lambda>name. \<not> (name = ''tool_search'' \<and> \<not> search_available s) \<and>
       (case exposure_of available name of None \<Rightarrow> False | Some x \<Rightarrow> declares name x s)) (registry_names available)"

definition active_registry :: "'i tool_snapshot \<Rightarrow> ('i tool_registry, tool_error) result" where
  "active_registry s =
     (let available = available_registry s in registry_subset (active_names_in s available) available)"

definition active_names :: "'i tool_snapshot \<Rightarrow> string list" where
  "active_names s = active_names_in s (available_registry s)"

definition available_names :: "'i tool_snapshot \<Rightarrow> string list" where
  "available_names s =
     (let available = available_registry s in
      filter (\<lambda>n. exposure_of available n \<notin> {None, Some Hidden}) (registry_names available))"

fun validate_active :: "'i tool_snapshot \<Rightarrow> string list \<Rightarrow> (unit, tool_error) result" where
  "validate_active s [] = Ok ()"
| "validate_active s (name # names) =
     (if exposure_of (available_registry s) name \<in> {None, Some Hidden} then Err (TeNotFound name)
      else validate_active s names)"

definition set_preference :: "string set \<Rightarrow> string \<Rightarrow> tool_selection \<Rightarrow> tool_selection" where
  "set_preference selected name sel =
     (if name \<in> selected then sel\<lparr>sel_disabled := sel_disabled sel - {name}, sel_loaded := insert name (sel_loaded sel)\<rparr>
      else sel\<lparr>sel_loaded := sel_loaded sel - {name}, sel_disabled := insert name (sel_disabled sel)\<rparr>)"

text \<open>The first of the selected names, in order, that has become hidden.\<close>

definition hidden_now :: "'i tool_snapshot \<Rightarrow> string set \<Rightarrow> string option" where
  "hidden_now s selected =
     find (\<lambda>n. exposure_of (available_registry s) n = Some Hidden) (sorted_list_of_set selected)"

definition replace_selection ::
    "'i tool_snapshot \<Rightarrow> string list \<Rightarrow> 'i tool_snapshot \<Rightarrow> ('i tool_snapshot, tool_error) result" where
  "replace_selection observed names s =
     and_then (validate_active observed names) (\<lambda>_.
       case hidden_now s (set names) of
         Some n \<Rightarrow> Err (TeNotFound n)
       | None \<Rightarrow> Ok (s\<lparr>sn_selection := fold (set_preference (set names)) (available_names observed) (sn_selection s)\<rparr>))"

text \<open>An old name \<^verbatim>\<open>mcp__server__tool\<close> stands for the tool that now has it, if only one has.\<close>

definition alias_of :: "'i agent_tool \<Rightarrow> string option" where
  "alias_of tool = map_option plain_tool_name (tm_mcp_ref (ag_metadata tool))"

fun aliases :: "'i tool_registry \<Rightarrow> (string \<times> string option) list \<Rightarrow> (string \<times> string option) list" where
  "aliases [] m = m"
| "aliases ((name, tool) # r) m =
     (case alias_of tool of
        None \<Rightarrow> aliases r m
      | Some old \<Rightarrow> aliases r (btree_insert old (if map_of m old = None then Some name else None) m))"

definition migrate_name :: "'i tool_registry \<Rightarrow> string \<Rightarrow> string" where
  "migrate_name catalog name =
     (if registry_tool name catalog = None then
        (case map_of (aliases catalog []) name of Some (Some new) \<Rightarrow> new | _ \<Rightarrow> name)
      else name)"

definition migrate_selection :: "'i tool_snapshot \<Rightarrow> tool_selection \<Rightarrow> tool_selection" where
  "migrate_selection s sel =
     (let catalog = available_registry s; disabled = migrate_name catalog ` sel_disabled sel in
      sel\<lparr>sel_loaded := migrate_name catalog ` sel_loaded sel - disabled, sel_disabled := disabled\<rparr>)"

definition next_revision :: "'i tool_snapshot \<Rightarrow> 'i tool_snapshot" where
  "next_revision s = s\<lparr>sn_revision := saturating_add_u64 (sn_revision s) 1\<rparr>"

definition tool_state_new ::
    "'i tool_registry \<Rightarrow> 'i tool_registry \<Rightarrow> 'i tool_registry \<Rightarrow> tool_selection \<Rightarrow> 'i tool_snapshot" where
  "tool_state_new builtins extensions mcp selection =
     rebuild_search_index \<lparr>sn_builtins = builtins, sn_extensions = extensions, sn_mcp = mcp, sn_selection = selection,
       sn_revision = 1, sn_search_index = [], sn_kernel_owned = {}\<rparr>"

definition tool_publish :: "'i agent_tool \<Rightarrow> bool \<Rightarrow> 'i tool_snapshot \<Rightarrow> 'i tool_snapshot" where
  "tool_publish tool kernel_owned s =
     (let name = tool_name tool;
          owned = (if kernel_owned then insert name (sn_kernel_owned s) else sn_kernel_owned s - {name})
      in next_revision (rebuild_search_index
           (s\<lparr>sn_kernel_owned := owned, sn_extensions := upsert tool (sn_extensions s)\<rparr>)))"

definition tool_register :: "'i agent_tool \<Rightarrow> 'i tool_snapshot \<Rightarrow> 'i tool_snapshot \<times> (unit, tool_error) result" where
  "tool_register tool s =
     (if tool_name tool \<in> set RESERVED_TOOL_NAMES then (s, Err (TeReservedName (tool_name tool)))
      else (tool_publish tool False s, Ok ()))"

definition tool_register_kernel :: "'i agent_tool \<Rightarrow> 'i tool_snapshot \<Rightarrow> 'i tool_snapshot \<times> (unit, tool_error) result" where
  "tool_register_kernel tool s = (tool_publish tool True s, Ok ())"

definition replace_mcp_partition :: "'i tool_registry \<Rightarrow> 'i tool_snapshot \<Rightarrow> 'i tool_snapshot" where
  "replace_mcp_partition mcp s =
     (let next = rebuild_search_index (s\<lparr>sn_mcp := mcp\<rparr>)
      in next_revision (next\<lparr>sn_selection := migrate_selection next (sn_selection next)\<rparr>))"

section \<open>selection.rs\<close>

datatype load_skip_reason = SkipUnavailable | SkipHidden | SkipDisabled | SkipNotDeferred | SkipDefinitionTooLarge | SkipBudgetExceeded

record load_report =
  lr_loaded :: "string list"
  lr_already_loaded :: "string list"
  lr_skipped :: "(string \<times> load_skip_reason) list"

definition LOAD_BUDGET :: nat where
  "LOAD_BUDGET = 32 * 1024"

definition skip_reason :: "'i tool_registry \<Rightarrow> tool_selection \<Rightarrow> string \<Rightarrow> load_skip_reason option" where
  "skip_reason available sel name =
     (case exposure_of available name of
        None \<Rightarrow> Some SkipUnavailable
      | Some Hidden \<Rightarrow> Some SkipHidden
      | Some x \<Rightarrow>
          if name \<in> sel_disabled sel then Some SkipDisabled
          else if x \<noteq> Deferred then Some SkipNotDeferred
          else None)"

text \<open>The serialized size of a definition comes from \<^verbatim>\<open>serde_json\<close>; the counting writer gives up behind the
  budget, so a larger definition is too large whatever the rest of it.\<close>

fun load_loop ::
    "(tool_definition \<Rightarrow> nat) \<Rightarrow> 'i tool_registry \<Rightarrow> string list \<Rightarrow> string set \<Rightarrow> nat \<Rightarrow> tool_selection \<Rightarrow> load_report
      \<Rightarrow> tool_selection \<times> load_report" where
  "load_loop bytes available [] seen used sel r = (sel, r)"
| "load_loop bytes available (name # names) seen used sel r =
     (if name \<in> seen then load_loop bytes available names seen used sel r
      else
        let seen' = insert name seen in
        case skip_reason available sel name of
          Some reason \<Rightarrow>
            load_loop bytes available names seen' used sel
              (r\<lparr>lr_skipped := lr_skipped r @ [(if reason = SkipHidden then ''<hidden>'' else name, reason)]\<rparr>)
        | None \<Rightarrow>
            if name \<in> sel_loaded sel then
              load_loop bytes available names seen' used sel (r\<lparr>lr_already_loaded := lr_already_loaded r @ [name]\<rparr>)
            else
              let size = (case registry_tool name available of Some tool \<Rightarrow> bytes (ag_definition tool) | None \<Rightarrow> 0) in
              if size > LOAD_BUDGET then
                load_loop bytes available names seen' used sel
                  (r\<lparr>lr_skipped := lr_skipped r @ [(name, SkipDefinitionTooLarge)]\<rparr>)
              else if used + size > LOAD_BUDGET then
                load_loop bytes available names seen' used sel
                  (r\<lparr>lr_skipped := lr_skipped r @ [(name, SkipBudgetExceeded)]\<rparr>)
              else
                load_loop bytes available names seen' (used + size)
                  (sel\<lparr>sel_loaded := insert name (sel_loaded sel)\<rparr>) (r\<lparr>lr_loaded := lr_loaded r @ [name]\<rparr>))"

definition encode_selection :: "tool_selection \<Rightarrow> json" where
  "encode_selection sel =
     JObject [(''version'', json_u64 (sel_version sel)),
       (''loaded'', JArray (map JString (sorted_list_of_set (sel_loaded sel)))),
       (''disabled'', JArray (map JString (sorted_list_of_set (sel_disabled sel))))]"

fun decode_names :: "json \<Rightarrow> string list option" where
  "decode_names (JArray vs) = those (map as_str vs)"
| "decode_names _ = None"

text \<open>The version is a \<^verbatim>\<open>u8\<close>.\<close>

definition decode_selection :: "json \<Rightarrow> tool_selection option" where
  "decode_selection v =
     Option.bind (Option.bind (json_get ''version'' v) as_u64) (\<lambda>n.
     if n > 255 then None else
     Option.bind (Option.bind (json_get ''loaded'' v) decode_names) (\<lambda>loaded.
     Option.bind (Option.bind (json_get ''disabled'' v) decode_names) (\<lambda>disabled.
       Some \<lparr>sel_version = n, sel_loaded = set loaded, sel_disabled = set disabled\<rparr>)))"

record selection_io =
  sio_now :: nat
  sio_entry_id :: string
  sio_write :: write_outcome
  sio_sync :: write_outcome

definition selection_entry :: "selection_io \<Rightarrow> 'i tool_snapshot \<Rightarrow> new_entry" where
  "selection_entry io s =
     \<lparr>ne_id = sio_entry_id io, ne_kind = EkActiveToolsChange,
      ne_payload = JObject [(''activeTools'', JArray (map JString (active_names s))),
        (''selection'', encode_selection (sn_selection s))]\<rparr>"

definition persist_selection ::
    "transcript_env \<Rightarrow> selection_io \<Rightarrow> 'i tool_snapshot \<Rightarrow> transcript \<Rightarrow> transcript \<times> (unit, kernel_error) result" where
  "persist_selection env io s t =
     (case id_try_from ''entry'' (sio_entry_id io) of
        Err e \<Rightarrow> (t, Err (ProtocolError (scalar_text e)))
      | Ok i \<Rightarrow> commit_setting env (sio_write io) (sio_sync io) (sio_now io) (selection_entry io s) t)"

text \<open>\<^verbatim>\<open>SessionToolState::update\<close>: the new snapshot is published only when the update and its write succeed.\<close>

definition publish_update ::
    "'i tool_snapshot \<Rightarrow> 'i tool_snapshot \<Rightarrow> transcript \<times> ('r, kernel_error) result
      \<Rightarrow> 'i tool_snapshot \<times> transcript \<times> ('r, kernel_error) result" where
  "publish_update s next written =
     (case written of (t, Ok r) \<Rightarrow> (next_revision next, t, Ok r) | (t, Err e) \<Rightarrow> (s, t, Err e))"

definition selection_adopt ::
    "transcript_env \<Rightarrow> selection_io \<Rightarrow> tool_selection \<Rightarrow> 'i tool_snapshot \<Rightarrow> transcript
      \<Rightarrow> 'i tool_snapshot \<times> transcript \<times> (unit, kernel_error) result" where
  "selection_adopt env io selection s t =
     (let next = s\<lparr>sn_selection := selection\<rparr> in publish_update s next (persist_selection env io next t))"

definition selection_replace ::
    "transcript_env \<Rightarrow> selection_io \<Rightarrow> 'i tool_snapshot \<Rightarrow> string list \<Rightarrow> 'i tool_snapshot \<Rightarrow> transcript
      \<Rightarrow> 'i tool_snapshot \<times> transcript \<times> (unit, kernel_error) result" where
  "selection_replace env io observed names s t =
     (case replace_selection observed names s of
        Err e \<Rightarrow> (s, t, Err (kernel_tool_error e))
      | Ok next \<Rightarrow> publish_update s next
          (if sn_selection next \<noteq> sn_selection s then persist_selection env io next t else (t, Ok ())))"

definition selection_load ::
    "(tool_definition \<Rightarrow> nat) \<Rightarrow> transcript_env \<Rightarrow> selection_io \<Rightarrow> string list \<Rightarrow> 'i tool_snapshot \<Rightarrow> transcript
      \<Rightarrow> 'i tool_snapshot \<times> transcript \<times> (load_report, kernel_error) result" where
  "selection_load bytes env io names s t =
     (let (sel, r) = load_loop bytes (available_registry s) names {} 0 (sn_selection s)
            \<lparr>lr_loaded = [], lr_already_loaded = [], lr_skipped = []\<rparr>;
          next = s\<lparr>sn_selection := sel\<rparr>
      in publish_update s next
           (if lr_loaded r \<noteq> [] then
              (case persist_selection env io next t of (t', Ok _) \<Rightarrow> (t', Ok r) | (t', Err e) \<Rightarrow> (t', Err e))
            else (t, Ok r)))"

text \<open>Restoring takes the last setting of the branch.\<close>

definition selection_of_entry :: "'i tool_snapshot \<Rightarrow> session_entry \<Rightarrow> (tool_selection, kernel_error) result" where
  "selection_of_entry catalog e =
     (case map_of (se_payload e) ''selection'' of
        Some v \<Rightarrow>
          (case decode_selection v of
             None \<Rightarrow> Err (StoreFailed StoreJson)
           | Some sel \<Rightarrow>
               if sel_version sel \<noteq> 1 \<or> sel_loaded sel \<inter> sel_disabled sel \<noteq> {}
               then Err (ProtocolError ''unsupported or overlapping tool selection'') else Ok sel)
      | None \<Rightarrow>
          (case map_of (se_payload e) ''activeTools'' of
             None \<Rightarrow> Err (ProtocolError ''active-tools change has no selection'')
           | Some v \<Rightarrow>
               (case decode_names v of
                  None \<Rightarrow> Err (StoreFailed StoreJson)
                | Some names \<Rightarrow>
                    (let sel = migrate_selection catalog (selection_from names)
                     in Ok (sel\<lparr>sel_disabled := set (available_names catalog) - sel_loaded sel\<rparr>)))))"

fun restore_loop ::
    "'i tool_snapshot \<Rightarrow> session_entry list \<Rightarrow> tool_selection \<Rightarrow> (tool_selection, kernel_error) result" where
  "restore_loop catalog [] sel = Ok sel"
| "restore_loop catalog (e # es) sel =
     (if se_kind e = EkActiveToolsChange
      then and_then (selection_of_entry catalog e) (\<lambda>sel'. restore_loop catalog es sel')
      else restore_loop catalog es sel)"

definition selection_restore ::
    "'i tool_snapshot \<Rightarrow> session_entry list \<Rightarrow> (tool_selection, kernel_error) result" where
  "selection_restore catalog entries =
     and_then (restore_loop catalog entries default_selection) (\<lambda>sel. Ok (migrate_selection catalog sel))"

end
