(* ===== verification/Catalog_Props.thy ===== *)
theory Catalog_Props
  imports Tool_Catalog
begin

text \<open>
  The catalog of tools as a finite map, what the model is offered of it, and the selection: never
  contradictory, bounded in what one search loads, and restored from the log as it was persisted.
\<close>

section \<open>Registries as finite maps\<close>

definition btree :: "(string \<times> 'v) list \<Rightarrow> bool" where
  "btree m \<longleftrightarrow> sorted_wrt (<) (map fst m)"

lemma btree_Nil [simp]: "btree []"
  by (simp add: btree_def)

lemma map_of_btree_insert [simp]: "map_of (btree_insert k v m) = (map_of m)(k \<mapsto> v)"
  by (induction m rule: btree_insert.induct) auto

lemma keys_btree_insert: "set (map fst (btree_insert k v m)) = insert k (set (map fst m))"
  by (induction m rule: btree_insert.induct) auto

lemma btree_insert_btree [simp]: "btree m \<Longrightarrow> btree (btree_insert k v m)"
proof (induction m rule: btree_insert.induct)
  case (2 k v k' v' m)
  then show ?case using keys_btree_insert [of k v m] by (auto simp: btree_def)
qed (simp add: btree_def)

lemma btree_distinct: "btree m \<Longrightarrow> distinct (map fst m)"
  by (simp add: btree_def strict_sorted_iff)

lemma overlay_btree [simp]: "btree r \<Longrightarrow> btree (overlay other r)"
  unfolding overlay_def by (induction other arbitrary: r) auto

lemma overlay_map:
  assumes "distinct (map fst other)"
  shows "map_of (overlay other r) = map_of r ++ map_of other"
  using assms unfolding overlay_def
proof (induction other arbitrary: r)
  case (Cons e other)
  obtain k v where e: "e = (k, v)" by (rule prod.exhaust)
  have "map_of other k = None" using Cons.prems e by (auto simp: map_of_eq_None_iff)
  with Cons e show ?case by (auto simp: fun_eq_iff map_add_def split: option.split)
qed simp

lemma subset_loop_Ok:
  assumes "distinct names" "\<forall>n \<in> set names. map_of r n \<noteq> None \<and> map_of acc n = None"
  shows "\<exists>r'. subset_loop r names acc = Ok r' \<and> (\<forall>n. map_of r' n = (if n \<in> set names then map_of r n else map_of acc n))"
  using assms
proof (induction names arbitrary: acc)
  case (Cons name names)
  then obtain tool where tool: "map_of r name = Some tool" "map_of acc name = None" by auto
  have "\<forall>n \<in> set names. map_of r n \<noteq> None \<and> map_of (btree_insert name tool acc) n = None" using Cons.prems by auto
  from Cons.IH [OF _ this] Cons.prems tool show ?case by (auto split: if_splits)
qed simp

definition catalog_ok :: "'i tool_snapshot \<Rightarrow> bool" where
  "catalog_ok s \<longleftrightarrow> btree (sn_builtins s) \<and> btree (sn_extensions s) \<and> btree (sn_mcp s)"

lemma available_btree: "catalog_ok s \<Longrightarrow> btree (available_registry s)"
  by (simp add: catalog_ok_def available_registry_def)

text \<open>MCP tools shadow extension tools, and these the built-in ones.\<close>

lemma available_map:
  "catalog_ok s \<Longrightarrow>
    map_of (available_registry s) = map_of (sn_builtins s) ++ map_of (sn_extensions s) ++ map_of (sn_mcp s)"
  by (simp add: catalog_ok_def available_registry_def overlay_map btree_distinct)

lemma active_names_distinct: "catalog_ok s \<Longrightarrow> distinct (active_names s)"
  using available_btree [of s] by (simp add: active_names_def active_names_in_def registry_names_def btree_distinct)

lemma exposure_of_Some: "exposure_of r n = Some x \<longleftrightarrow> (\<exists>tool. map_of r n = Some tool \<and> tm_exposure (ag_metadata tool) = x)"
  by (auto simp: exposure_of_def registry_tool_def)

lemma active_names_iff:
  "n \<in> set (active_names s) \<longleftrightarrow>
    (\<exists>tool. map_of (available_registry s) n = Some tool \<and> declares n (tm_exposure (ag_metadata tool)) s) \<and>
    (n = ''tool_search'' \<longrightarrow> search_available s)"
proof -
  have "n \<in> set (registry_names (available_registry s)) \<longleftrightarrow> map_of (available_registry s) n \<noteq> None"
    by (simp add: registry_names_def map_of_eq_None_iff)
  then show ?thesis
    by (auto simp: active_names_def active_names_in_def exposure_of_def registry_tool_def split: option.splits)
qed

lemma active_registry_map:
  assumes "catalog_ok s"
  shows "\<exists>r. active_registry s = Ok r \<and>
    (\<forall>n. map_of r n = (if n \<in> set (active_names s) then map_of (available_registry s) n else None))"
proof -
  have "\<forall>n \<in> set (active_names s). map_of (available_registry s) n \<noteq> None \<and> map_of [] n = None"
    using active_names_iff by auto
  from subset_loop_Ok [OF active_names_distinct [OF assms] this] show ?thesis
    by (auto simp: active_registry_def registry_subset_def active_names_def Let_def)
qed

section \<open>The selection\<close>

definition selection_ok :: "tool_selection \<Rightarrow> bool" where
  "selection_ok sel \<longleftrightarrow> sel_version sel = 1 \<and> finite (sel_loaded sel) \<and> finite (sel_disabled sel) \<and>
     sel_loaded sel \<inter> sel_disabled sel = {}"

lemma default_selection_ok: "selection_ok default_selection"
  by (simp add: selection_ok_def default_selection_def)

lemma set_preference_ok: "selection_ok sel \<Longrightarrow> selection_ok (set_preference S n sel)"
  by (auto simp: selection_ok_def set_preference_def)

lemma preferences_ok: "selection_ok sel \<Longrightarrow> selection_ok (fold (set_preference S) names sel)"
  by (induction names arbitrary: sel) (auto simp: set_preference_ok)

lemma migrate_ok: "selection_ok sel \<Longrightarrow> selection_ok (migrate_selection s sel)"
  by (auto simp: selection_ok_def migrate_selection_def Let_def)

lemma load_loop_ok:
  "load_loop bytes available names seen used sel r = (sel', r') \<Longrightarrow> selection_ok sel \<Longrightarrow> selection_ok sel'"
proof (induction names arbitrary: seen used sel r)
  case (Cons name names)
  have "selection_ok (sel\<lparr>sel_loaded := insert name (sel_loaded sel)\<rparr>)" if "skip_reason available sel name = None"
    using Cons.prems(2) that
    by (auto simp: selection_ok_def skip_reason_def split: option.splits tool_exposure.splits if_splits)
  with Cons show ?case by (auto simp: Let_def split: if_splits option.splits)
qed simp

lemma fold_preferences:
  "sel_loaded (fold (set_preference S) names sel) = sel_loaded sel - (set names - S) \<union> (set names \<inter> S)"
  "sel_disabled (fold (set_preference S) names sel) = sel_disabled sel - (set names \<inter> S) \<union> (set names - S)"
  by (induction names arbitrary: sel) (auto simp: set_preference_def)

text \<open>What one load takes in: deferred tools that are not disabled, each once, within the budget.\<close>

definition definition_size :: "(tool_definition \<Rightarrow> nat) \<Rightarrow> 'i tool_registry \<Rightarrow> string \<Rightarrow> nat" where
  "definition_size bytes available n =
     (case registry_tool n available of Some tool \<Rightarrow> bytes (ag_definition tool) | None \<Rightarrow> 0)"

lemma skip_reason_None:
  "skip_reason available sel n = None \<longleftrightarrow> exposure_of available n = Some Deferred \<and> n \<notin> sel_disabled sel"
  by (auto simp: skip_reason_def split: option.splits tool_exposure.splits)

lemma load_loop_step:
  obtains (Taken) r1 where "name \<notin> seen" "exposure_of available name = Some Deferred"
      "name \<notin> sel_disabled sel \<union> sel_loaded sel" "used + definition_size bytes available name \<le> LOAD_BUDGET"
      "lr_loaded r1 = lr_loaded r @ [name]"
      "load_loop bytes available (name # names) seen used sel r =
        load_loop bytes available names (insert name seen) (used + definition_size bytes available name)
          (sel\<lparr>sel_loaded := insert name (sel_loaded sel)\<rparr>) r1"
  | (Passed) r1 where "lr_loaded r1 = lr_loaded r"
      "load_loop bytes available (name # names) seen used sel r =
        load_loop bytes available names (insert name seen) used sel r1"
proof (cases "name \<in> seen")
  case True
  with Passed show thesis by (simp add: insert_absorb)
next
  case fresh: False
  show thesis
  proof (cases "skip_reason available sel name")
    case (Some reason)
    with fresh show thesis
      by (intro Passed [of "r\<lparr>lr_skipped := lr_skipped r @ [(if reason = SkipHidden then ''<hidden>'' else name, reason)]\<rparr>"])
        (simp_all add: Let_def)
  next
    case None
    show thesis
    proof (cases "name \<in> sel_loaded sel")
      case True
      with fresh None show thesis
        by (intro Passed [of "r\<lparr>lr_already_loaded := lr_already_loaded r @ [name]\<rparr>"]) (simp_all add: Let_def)
    next
      case unloaded: False
      consider (Large) "definition_size bytes available name > LOAD_BUDGET"
        | (Full) "definition_size bytes available name \<le> LOAD_BUDGET" "used + definition_size bytes available name > LOAD_BUDGET"
        | (Fits) "used + definition_size bytes available name \<le> LOAD_BUDGET" by linarith
      then show thesis
      proof cases
        case Large
        with fresh None unloaded show thesis
          by (intro Passed [of "r\<lparr>lr_skipped := lr_skipped r @ [(name, SkipDefinitionTooLarge)]\<rparr>"])
            (simp_all add: Let_def definition_size_def)
      next
        case Full
        with fresh None unloaded show thesis
          by (intro Passed [of "r\<lparr>lr_skipped := lr_skipped r @ [(name, SkipBudgetExceeded)]\<rparr>"])
            (simp_all add: Let_def definition_size_def)
      next
        case Fits
        have "exposure_of available name = Some Deferred" "name \<notin> sel_disabled sel"
          using None by (simp_all add: skip_reason_None)
        with Fits fresh None unloaded show thesis
          by (intro Taken [of "r\<lparr>lr_loaded := lr_loaded r @ [name]\<rparr>"])
            (simp_all add: Let_def definition_size_def)
      qed
    qed
  qed
qed

lemma load_loop_spec:
  assumes "load_loop bytes available names seen used sel r = (sel', r')" "used \<le> LOAD_BUDGET"
  shows "\<exists>new. lr_loaded r' = lr_loaded r @ new \<and> distinct new \<and> set new \<subseteq> set names - seen \<and>
    used + sum_list (map (definition_size bytes available) new) \<le> LOAD_BUDGET \<and>
    sel_loaded sel' = sel_loaded sel \<union> set new \<and> sel_disabled sel' = sel_disabled sel \<and>
    (\<forall>n \<in> set new. exposure_of available n = Some Deferred \<and> n \<notin> sel_disabled sel \<union> sel_loaded sel)"
  using assms
proof (induction names arbitrary: seen used sel r)
  case Nil
  then show ?case by simp
next
  case (Cons name names)
  show ?case
  proof (cases rule: load_loop_step [of name seen available sel used bytes r names])
    case (Taken r1)
    from Cons.IH [OF Cons.prems(1) [unfolded Taken(6)] Taken(4)] obtain new where new:
      "lr_loaded r' = lr_loaded r1 @ new" "distinct new" "set new \<subseteq> set names - insert name seen"
      "used + definition_size bytes available name + sum_list (map (definition_size bytes available) new) \<le> LOAD_BUDGET"
      "sel_loaded sel' = insert name (sel_loaded sel) \<union> set new" "sel_disabled sel' = sel_disabled sel"
      "\<forall>n \<in> set new. exposure_of available n = Some Deferred \<and> n \<notin> sel_disabled sel \<union> insert name (sel_loaded sel)"
      by auto
    with Taken(1-5) show ?thesis by (intro exI [of _ "name # new"]) auto
  next
    case (Passed r1)
    from Cons.IH [OF Cons.prems(1) [unfolded Passed(2)] Cons.prems(2)] obtain new where
      "lr_loaded r' = lr_loaded r1 @ new" "distinct new" "set new \<subseteq> set names - insert name seen"
      "used + sum_list (map (definition_size bytes available) new) \<le> LOAD_BUDGET"
      "sel_loaded sel' = sel_loaded sel \<union> set new" "sel_disabled sel' = sel_disabled sel"
      "\<forall>n \<in> set new. exposure_of available n = Some Deferred \<and> n \<notin> sel_disabled sel \<union> sel_loaded sel"
      by auto
    with Passed(1) show ?thesis by (intro exI [of _ new]) auto
  qed
qed

section \<open>The selection in the log\<close>

lemma those_strings: "those (map (as_str \<circ> JString) xs) = Some xs"
  by (induction xs) auto

lemma decode_encode_selection: "selection_ok sel \<Longrightarrow> decode_selection (encode_selection sel) = Some sel"
  by (cases sel)
    (simp add: decode_selection_def encode_selection_def selection_ok_def json_u64_def u64_max_def those_strings)

lemma restore_loop_snoc:
  assumes "restore_loop catalog es sel = Ok sel0" "se_kind e = EkActiveToolsChange"
  shows "restore_loop catalog (es @ [e]) sel = selection_of_entry catalog e"
  using assms
proof (induction es arbitrary: sel)
  case Nil
  then show ?case by (cases "selection_of_entry catalog e") simp_all
next
  case (Cons e' es)
  then show ?case by (cases "selection_of_entry catalog e'") (auto split: if_splits)
qed

lemma selection_of_persisted:
  assumes "selection_ok (sn_selection s)" "se_payload e = the (as_object (ne_payload (selection_entry io s)))"
  shows "selection_of_entry catalog e = Ok (sn_selection s)"
proof -
  have "map_of (se_payload e) ''selection'' = Some (encode_selection (sn_selection s))"
    using assms(2) by (simp add: selection_entry_def)
  with assms(1) show ?thesis by (simp add: selection_of_entry_def decode_encode_selection) (simp add: selection_ok_def)
qed

text \<open>What is restored depends on the tools of the catalog, not on its own selection.\<close>

lemma restore_loop_cong:
  assumes "available_registry s' = available_registry s"
  shows "restore_loop s' es sel = restore_loop s es sel"
proof -
  have "migrate_selection s' sel = migrate_selection s sel" "available_names s' = available_names s" for sel
    by (simp_all add: migrate_selection_def available_names_def assms)
  then have "selection_of_entry s' = selection_of_entry s"
    by (intro ext) (simp only: selection_of_entry_def)
  then have "restore_loop s' es = restore_loop s es" by (induction es) (auto intro!: ext)
  then show ?thesis by simp
qed

definition stored_selection :: "'i tool_snapshot \<Rightarrow> transcript \<Rightarrow> bool" where
  "stored_selection s t \<longleftrightarrow>
     (\<exists>es. active_branch (ts_store t) (ts_lane t) = Some (Ok es) \<and>
        restore_loop s es default_selection = Ok (sn_selection s))"

lemma persist_selection_spec:
  assumes "persist_selection env io snap t = (t', r)" "store_inv (ts_lane t) (ts_store t)" "sio_now io \<le> u64_max"
    and "selection_ok (sn_selection snap)" "stored_selection s t" "available_registry snap = available_registry s"
  shows "case r of Ok _ \<Rightarrow> store_inv (ts_lane t') (ts_store t') \<and> stored_selection snap t'
    | Err e \<Rightarrow> store_inv (ts_lane t') (ts_store t') \<and> (t' = t \<or> ts_write_failed t')"
proof -
  from assms(5) obtain es where es: "active_branch (ts_store t) (ts_lane t) = Some (Ok es)"
    "restore_loop s es default_selection = Ok (sn_selection s)" by (auto simp: stored_selection_def)
  show ?thesis
  proof (cases "is_blank (sio_entry_id io) \<or> \<not> is_ok (writable t)")
    case True
    with assms(1,2) show ?thesis
      by (auto simp: persist_selection_def id_try_from_def commit_setting_def is_ok_iff split: result.splits)
  next
    case False
    have typed: "typed_entry (selection_entry io snap)"
      using False by (simp add: typed_entry_def selection_entry_def id_ok_def typed_payload_def payload_clear_def keys_def entry_keys_def)
    obtain st1 r1 where a: "append_entry (senv env) (sio_write io) (sio_now io) (ts_lane t) (selection_entry io snap) (ts_store t) = (st1, r1)"
      by (rule prod.exhaust)
    obtain st2 r2 where s2: "sync (sio_sync io) st1 = (st2, r2)" by (rule prod.exhaust)
    have state: "js_state st2 = js_state st1" using sync_state [of "sio_sync io" st1] s2 by simp
    have run: "commit_setting env (sio_write io) (sio_sync io) (sio_now io) (selection_entry io snap) t = (t', r)"
      using assms(1) False by (simp add: persist_selection_def id_try_from_def)
    show ?thesis
    proof (cases r1)
      case (Err e)
      then have "js_state st1 = js_state (ts_store t)" using a append_entry_Err_state by metis
      with run a Err False assms(2) show ?thesis by (auto simp: commit_setting_def is_ok_iff store_inv_def lane_leaf_def)
    next
      case (Ok stored)
      from append_entry_active_branch [OF a [unfolded Ok] assms(2) typed assms(3) es(1)]
      have eff: "active_branch st1 (ts_lane t) = Some (Ok (es @ [stored]))" "store_inv (ts_lane t) st1"
        "stored = new_session_entry (ts_store t) (sio_now io) (ts_lane t) (selection_entry io snap)" by auto
      have inv2: "store_inv (ts_lane t) st2" "active_branch st2 (ts_lane t) = Some (Ok (es @ [stored]))"
        using eff state active_branch_cong [of st2 st1] by (simp_all add: store_inv_def lane_leaf_def)
      have "restore_loop snap es default_selection = Ok (sn_selection s)" using es(2) restore_loop_cong [OF assms(6)] by simp
      from restore_loop_snoc [OF this, of stored] eff(3) selection_of_persisted [OF assms(4), of stored io snap]
      have "restore_loop snap (es @ [stored]) default_selection = Ok (sn_selection snap)"
        by (simp add: selection_entry_def)
      with run a Ok s2 inv2 False show ?thesis
        by (cases r2) (auto simp: commit_setting_def is_ok_iff stored_selection_def)
    qed
  qed
qed

datatype 'i selection_op =
    SelAdopt selection_io tool_selection
  | SelReplace selection_io "'i tool_snapshot" "string list"
  | SelLoad selection_io "string list"

fun run_selection_op ::
    "(tool_definition \<Rightarrow> nat) \<Rightarrow> transcript_env \<Rightarrow> 'i selection_op \<Rightarrow> 'i tool_snapshot \<times> transcript
      \<Rightarrow> 'i tool_snapshot \<times> transcript" where
  "run_selection_op bytes env (SelAdopt io sel) (s, t) = (case selection_adopt env io sel s t of (s', t', r) \<Rightarrow> (s', t'))"
| "run_selection_op bytes env (SelReplace io observed names) (s, t) =
     (case selection_replace env io observed names s t of (s', t', r) \<Rightarrow> (s', t'))"
| "run_selection_op bytes env (SelLoad io names) (s, t) =
     (case selection_load bytes env io names s t of (s', t', r) \<Rightarrow> (s', t'))"

fun typed_selection_op :: "'i selection_op \<Rightarrow> bool" where
  "typed_selection_op (SelAdopt io sel) \<longleftrightarrow> sio_now io \<le> u64_max \<and> selection_ok sel"
| "typed_selection_op (SelReplace io observed names) \<longleftrightarrow> sio_now io \<le> u64_max"
| "typed_selection_op (SelLoad io names) \<longleftrightarrow> sio_now io \<le> u64_max"

definition selection_inv :: "'i tool_snapshot \<Rightarrow> transcript \<Rightarrow> bool" where
  "selection_inv s t \<longleftrightarrow> store_inv (ts_lane t) (ts_store t) \<and> selection_ok (sn_selection s) \<and>
     (ts_write_failed t \<or> stored_selection s t)"

lemma available_selection [simp]:
  "available_registry (s\<lparr>sn_selection := sel\<rparr>) = available_registry s"
  "available_registry (next_revision s) = available_registry s"
  by (simp_all add: available_registry_def next_revision_def)

lemma next_revision_selection [simp]: "sn_selection (next_revision s) = sn_selection s"
  by (simp add: next_revision_def)

lemma stored_selection_cong:
  assumes "available_registry s' = available_registry s" "sn_selection s' = sn_selection s"
  shows "stored_selection s' t = stored_selection s t"
  using restore_loop_cong [OF assms(1)] assms(2) by (simp add: stored_selection_def)

lemma persist_failed: "ts_write_failed t \<Longrightarrow> \<exists>e. persist_selection env io s t = (t, Err e)"
  by (auto simp: persist_selection_def commit_setting_def writable_def split: result.split)

text \<open>One update: persisted and published together, or not at all.\<close>

lemma publish_persisted:
  assumes "selection_inv s t" "persist_selection env io snap t = (t', r)" "sio_now io \<le> u64_max"
    and "selection_ok (sn_selection snap)" "available_registry snap = available_registry s"
  shows "selection_inv (if is_ok r then next_revision snap else s) t'"
proof (cases "ts_write_failed t")
  case True
  with persist_failed assms(2) have "\<not> is_ok r" "t' = t" by (metis is_ok.simps(2) prod.inject)+
  with assms(1) show ?thesis by simp
next
  case False
  with assms(1) have inv: "store_inv (ts_lane t) (ts_store t)" "stored_selection s t" by (auto simp: selection_inv_def)
  from persist_selection_spec [OF assms(2) inv(1) assms(3,4) inv(2) assms(5)] assms(1,4) show ?thesis
    using stored_selection_cong [of "next_revision snap" snap]
    by (cases r) (auto simp: selection_inv_def)
qed

lemma unchanged_update:
  assumes "selection_inv s t" "sn_selection snap = sn_selection s" "available_registry snap = available_registry s"
  shows "selection_inv (next_revision snap) t"
  using assms stored_selection_cong [of "next_revision snap" s] by (auto simp: selection_inv_def)

lemma load_loop_frame:
  "load_loop bytes available names seen used sel r = (sel', r') \<Longrightarrow> sel' = sel\<lparr>sel_loaded := sel_loaded sel'\<rparr>"
proof (induction names arbitrary: seen used sel r)
  case (Cons name names)
  show ?case
  proof (cases rule: load_loop_step [of name seen available sel used bytes r names])
    case (Taken r1)
    from Cons.IH [OF Cons.prems [unfolded Taken(6)]] show ?thesis by simp
  next
    case (Passed r1)
    from Cons.IH [OF Cons.prems [unfolded Passed(2)]] show ?thesis .
  qed
qed simp

lemma selection_op_inv:
  assumes "selection_inv s t" "typed_selection_op operation" "run_selection_op bytes env operation (s, t) = (s', t')"
  shows "selection_inv s' t'"
proof (cases operation)
  case (SelAdopt io sel)
  obtain t1 r where p: "persist_selection env io (s\<lparr>sn_selection := sel\<rparr>) t = (t1, r)" by (rule prod.exhaust)
  from publish_persisted [OF assms(1) p] assms(2,3) SelAdopt p show ?thesis
    by (cases r) (auto simp: selection_adopt_def publish_update_def)
next
  case (SelReplace io observed names)
  show ?thesis
  proof (cases "replace_selection observed names s")
    case (Err e)
    with assms SelReplace show ?thesis by (simp add: selection_replace_def)
  next
    case (Ok snap)
    then have snap: "snap = s\<lparr>sn_selection := fold (set_preference (set names)) (available_names observed) (sn_selection s)\<rparr>"
      by (auto simp: replace_selection_def and_then_Ok_iff split: option.splits)
    have ok: "selection_ok (sn_selection snap)" "available_registry snap = available_registry s"
      using assms(1) by (simp_all add: snap preferences_ok selection_inv_def)
    obtain t1 r where p: "persist_selection env io snap t = (t1, r)" by (rule prod.exhaust)
    from publish_persisted [OF assms(1) p _ ok] unchanged_update [OF assms(1) _ ok(2)] assms(2,3) SelReplace Ok p
    show ?thesis by (cases r) (auto simp: selection_replace_def publish_update_def split: if_splits)
  qed
next
  case (SelLoad io names)
  obtain sel rep where l: "load_loop bytes (available_registry s) names {} 0 (sn_selection s)
      \<lparr>lr_loaded = [], lr_already_loaded = [], lr_skipped = []\<rparr> = (sel, rep)" by (rule prod.exhaust)
  let ?snap = "s\<lparr>sn_selection := sel\<rparr>"
  have ok: "selection_ok (sn_selection ?snap)" using load_loop_ok [OF l] assms(1) by (simp add: selection_inv_def)
  have same: "sel = sn_selection s" if "lr_loaded rep = []"
    using load_loop_spec [OF l] load_loop_frame [OF l] that by auto
  obtain t1 r where p: "persist_selection env io ?snap t = (t1, r)" by (rule prod.exhaust)
  from publish_persisted [OF assms(1) p _ ok] unchanged_update [OF assms(1), of ?snap] same assms(2,3) SelLoad l p
  show ?thesis by (cases r) (auto simp: selection_load_def publish_update_def Let_def split: if_splits)
qed

lemma selection_ops_inv:
  assumes "selection_inv s t" "list_all typed_selection_op ops"
  shows "case fold (run_selection_op bytes env) ops (s, t) of (s', t') \<Rightarrow>
    selection_inv s' t' \<and> available_registry s' = available_registry s"
  using assms
proof (induction ops arbitrary: s t)
  case (Cons operation ops)
  obtain s1 t1 where step: "run_selection_op bytes env operation (s, t) = (s1, t1)" by (rule prod.exhaust)
  have "available_registry s1 = available_registry s"
    using step by (cases operation) (auto simp: selection_adopt_def selection_replace_def selection_load_def publish_update_def
        replace_selection_def and_then_Ok_iff Let_def split: prod.splits result.splits if_splits option.splits)
  with Cons.IH [OF selection_op_inv [OF Cons.prems(1) _ step]] Cons.prems(2) step show ?case by (auto split: prod.splits)
qed simp

section \<open>Kernel tools\<close>

text \<open>\<open>ours\<close> tells the kernel's own implementations apart. A name is remembered as the kernel's only
  while the extension partition holds the kernel's tool under it.\<close>

definition owned_ok :: "('i \<Rightarrow> bool) \<Rightarrow> 'i tool_snapshot \<Rightarrow> bool" where
  "owned_ok ours s \<longleftrightarrow> catalog_ok s \<and>
     (\<forall>n \<in> sn_kernel_owned s. \<exists>tool. map_of (sn_extensions s) n = Some tool \<and> ours (ag_implementation tool))"

datatype 'i catalog_op =
    CatRegister "'i agent_tool"
  | CatRegisterKernel "'i agent_tool"
  | CatReplaceMcp "'i tool_registry"

fun run_catalog_op :: "'i catalog_op \<Rightarrow> 'i tool_snapshot \<Rightarrow> 'i tool_snapshot" where
  "run_catalog_op (CatRegister tool) s = fst (tool_register tool s)"
| "run_catalog_op (CatRegisterKernel tool) s = fst (tool_register_kernel tool s)"
| "run_catalog_op (CatReplaceMcp mcp) s = replace_mcp_partition mcp s"

fun trusted_op :: "('i \<Rightarrow> bool) \<Rightarrow> 'i catalog_op \<Rightarrow> bool" where
  "trusted_op ours (CatRegister tool) \<longleftrightarrow> True"
| "trusted_op ours (CatRegisterKernel tool) \<longleftrightarrow> ours (ag_implementation tool)"
| "trusted_op ours (CatReplaceMcp mcp) \<longleftrightarrow> btree mcp"

lemma owned_publish:
  "owned_ok ours s \<Longrightarrow> (owned \<Longrightarrow> ours (ag_implementation tool)) \<Longrightarrow> owned_ok ours (tool_publish tool owned s)"
  by (auto simp: owned_ok_def catalog_ok_def tool_publish_def Let_def rebuild_search_index_def next_revision_def upsert_def)

lemma owned_op: "owned_ok ours s \<Longrightarrow> trusted_op ours operation \<Longrightarrow> owned_ok ours (run_catalog_op operation s)"
proof (cases operation)
  case (CatReplaceMcp mcp)
  assume "owned_ok ours s" "trusted_op ours operation"
  with CatReplaceMcp show ?thesis
    by (simp add: owned_ok_def catalog_ok_def replace_mcp_partition_def rebuild_search_index_def next_revision_def Let_def)
qed (auto simp: tool_register_def tool_register_kernel_def owned_publish)

lemma owned_ops:
  "owned_ok ours s \<Longrightarrow> list_all (trusted_op ours) ops \<Longrightarrow> owned_ok ours (fold run_catalog_op ops s)"
  by (induction ops arbitrary: s) (auto simp: owned_op)

text \<open>An MCP tool cannot take a kernel tool's name: its name starts with \<^verbatim>\<open>mcp__\<close>.\<close>

lemma public_name_prefix: "take 5 (public_name sha256 r) = ''mcp__''"
proof -
  have "name_safe CHR ''m''" "name_safe CHR ''c''" "name_safe CHR ''p''" "name_safe CHR ''_''" by (simp_all add: name_safe_def is_ascii_alphanumeric_def is_ascii_digit_def)
  then show ?thesis by (auto simp: public_name_def plain_tool_name_def Let_def sanitized_def continues_char_def)
qed

lemma owned_resolves:
  assumes "owned_ok ours s" "n \<in> sn_kernel_owned s" "map_of (sn_mcp s) n = None"
    and "active_registry s = Ok r" "registry_tool n r = Some tool"
  shows "ours (ag_implementation tool)"
proof -
  have ok: "catalog_ok s" using assms(1) by (simp add: owned_ok_def)
  from active_registry_map [OF ok] assms(4,5) have "map_of (available_registry s) n = Some tool"
    by (auto simp: registry_tool_def split: if_splits)
  with available_map [OF ok] assms(1,2,3) show ?thesis by (auto simp: owned_ok_def map_add_def)
qed

section \<open>Properties\<close>


definition sample_tool :: "string \<Rightarrow> tool_exposure \<Rightarrow> unit agent_tool" where
  "sample_tool name exposure = \<lparr>ag_definition = \<lparr>td_name = name, td_description = [], td_parameters = JNull\<rparr>,
     ag_metadata = \<lparr>tm_exposure = exposure, tm_read_only_hint = None, tm_output_policy = PolicyPreserve, tm_mcp_ref = None\<rparr>,
     ag_validate = (\<lambda>c. Ok ()), ag_implementation = ()\<rparr>"

definition sample_snapshot :: "unit tool_snapshot" where
  "sample_snapshot = tool_state_new [(''find'', sample_tool ''find'' Deferred)] [] [] default_selection"

definition sample_selection_op :: "unit selection_op" where
  "sample_selection_op = SelLoad \<lparr>sio_now = 7, sio_entry_id = ''e1'', sio_write = Written, sio_sync = Written\<rparr> [''find'']"


text \<open>One tool search loads only deferred tools that are not disabled and not yet loaded, each once, with
  definitions of at most 32 KiB together, and disables nothing.\<close>

lemma load_within_budget:
  assumes "selection_load bytes env io names s t = (s', t', Ok report)"
  shows "sum_list (map (definition_size bytes (available_registry s)) (lr_loaded report)) \<le> 32 * 1024 \<and>
    distinct (lr_loaded report) \<and> set (lr_loaded report) \<subseteq> set names \<and>
    sel_loaded (sn_selection s') = sel_loaded (sn_selection s) \<union> set (lr_loaded report) \<and>
    sel_disabled (sn_selection s') = sel_disabled (sn_selection s) \<and>
    (\<forall>n \<in> set (lr_loaded report). exposure_of (available_registry s) n = Some Deferred \<and>
       n \<notin> sel_disabled (sn_selection s) \<union> sel_loaded (sn_selection s))"
proof -
  obtain sel rep where l: "load_loop bytes (available_registry s) names {} 0 (sn_selection s)
      \<lparr>lr_loaded = [], lr_already_loaded = [], lr_skipped = []\<rparr> = (sel, rep)" by (rule prod.exhaust)
  have "report = rep" "sn_selection s' = sel"
    using assms l by (auto simp: selection_load_def publish_update_def Let_def split: if_splits prod.splits result.splits)
  with load_loop_spec [OF l] show ?thesis by (auto simp: LOAD_BUDGET_def)
qed

end
