(* ===== verification/Extension_Hooks.thy ===== *)
theory Extension_Hooks
  imports Attempt Tool_Output "HOL-Library.Sublist"
begin

text \<open>
  How the answers of several extensions compose at one extension point,
  \<^verbatim>\<open>crates/extension/src/runtime\<close>. A handler is a function from the event to its answer or to the
  text of its error; the context it also receives is not modelled. Errors are reported to the
  diagnostic sink and never stop the chain, except where a tool call fails closed.
\<close>

type_synonym ('e, 'o) handler = "string \<times> ('e \<Rightarrow> ('o, string) result)"
type_synonym reports = "(string \<times> string) list"

section \<open>runtime/mod.rs\<close>

definition report :: "string \<Rightarrow> string \<Rightarrow> reports \<Rightarrow> reports" where
  "report source error reports = reports @ [(source, error)]"

definition observe :: "('e, unit) handler list \<Rightarrow> 'e \<Rightarrow> reports" where
  "observe handlers event =
     fold (\<lambda>(source, handle) reports.
       case handle event of Ok _ \<Rightarrow> reports | Err e \<Rightarrow> report source e reports) handlers []"

section \<open>runtime/agent.rs\<close>

record 'd before_agent_start_result =
  ba_messages :: "'d list"
  ba_system_prompt :: "string option"

text \<open>The event is the prompt with the system prompt of the moment.\<close>

definition before_agent_step ::
    "('e \<times> string, 'd before_agent_start_result) handler \<Rightarrow> ('e \<times> string \<times> 'd list \<times> bool) \<times> reports
      \<Rightarrow> ('e \<times> string \<times> 'd list \<times> bool) \<times> reports" where
  "before_agent_step = (\<lambda>(source, handle) ((event, prompt, messages, changed), reports).
     case handle (event, prompt) of
       Ok r \<Rightarrow> (case ba_system_prompt r of
           Some p \<Rightarrow> ((event, p, messages @ ba_messages r, True), reports)
         | None \<Rightarrow> ((event, prompt, messages @ ba_messages r, changed), reports))
     | Err e \<Rightarrow> ((event, prompt, messages, changed), report source e reports))"

definition emit_before_agent_start ::
    "('e \<times> string, 'd before_agent_start_result) handler list \<Rightarrow> 'e \<Rightarrow> string
      \<Rightarrow> 'd before_agent_start_result \<times> reports" where
  "emit_before_agent_start handlers event prompt =
     (let ((_, p, messages, changed), reports) = fold before_agent_step handlers ((event, prompt, [], False), [])
      in (\<lparr>ba_messages = messages, ba_system_prompt = (if changed then Some p else None)\<rparr>, reports))"

record ('t, 'o) model_request =
  mr_messages :: "agent_message list"
  mr_tools :: "'t list"
  mr_options :: 'o

definition context_step ::
    "(('t, 'o) model_request, agent_message list option) handler \<Rightarrow> ('t, 'o) model_request \<times> reports \<Rightarrow> ('t, 'o) model_request \<times> reports" where
  "context_step = (\<lambda>(source, handle) (request, reports).
     case handle request of
       Ok (Some messages) \<Rightarrow> (request\<lparr>mr_messages := messages\<rparr>, reports)
     | Ok None \<Rightarrow> (request, reports)
     | Err e \<Rightarrow> (request, report source e reports))"

definition emit_context ::
    "(('t, 'o) model_request, agent_message list option) handler list \<Rightarrow> ('t, 'o) model_request \<Rightarrow> ('t, 'o) model_request \<times> reports" where
  "emit_context handlers request = fold context_step handlers (request, [])"

definition message_end_step ::
    "(agent_message, agent_message option) handler \<Rightarrow> agent_message \<times> reports \<Rightarrow> agent_message \<times> reports" where
  "message_end_step = (\<lambda>(source, handle) (message, reports).
     case handle message of
       Ok (Some replacement) \<Rightarrow>
         if \<not> same_role (msg_content replacement) (msg_content message) then
           (message, report source ''message_end replacement changed the message role and was discarded'' reports)
         else if msg_identity replacement \<noteq> msg_identity message then
           (replacement\<lparr>msg_identity := msg_identity message\<rparr>,
            report source ''message_end replacement changed the message identity, which was restored'' reports)
         else (replacement, reports)
     | Ok None \<Rightarrow> (message, reports)
     | Err e \<Rightarrow> (message, report source e reports))"

definition emit_message_end ::
    "(agent_message, agent_message option) handler list \<Rightarrow> agent_message \<Rightarrow> agent_message \<times> reports" where
  "emit_message_end handlers message = fold message_end_step handlers (message, [])"

section \<open>runtime/input.rs\<close>

datatype input_result = InputContinue | InputTransform string | InputHandled

fun input_chain ::
    "(string, input_result) handler list \<Rightarrow> string \<Rightarrow> bool \<Rightarrow> reports \<Rightarrow> input_result \<times> reports" where
  "input_chain [] input transformed reports = (if transformed then InputTransform input else InputContinue, reports)"
| "input_chain ((source, handle) # handlers) input transformed reports =
     (case handle input of
        Ok InputContinue \<Rightarrow> input_chain handlers input transformed reports
      | Ok (InputTransform t) \<Rightarrow> input_chain handlers t True reports
      | Ok InputHandled \<Rightarrow> (InputHandled, reports)
      | Err e \<Rightarrow> input_chain handlers input transformed (report source e reports))"

definition emit_input :: "(string, input_result) handler list \<Rightarrow> string \<Rightarrow> input_result \<times> reports" where
  "emit_input handlers input = input_chain handlers input False []"

section \<open>runtime/tool.rs\<close>

record tool_block =
  tb_reason :: string
  tb_terminate :: bool

datatype tool_call_result = TcContinue | TcReplace json | TcBlock tool_block

text \<open>The event is the call with the metadata of its tool.\<close>

fun tool_call_chain ::
    "(tool_call \<times> 'm option, tool_call_result) handler list \<Rightarrow> tool_call \<times> 'm option \<Rightarrow> bool \<Rightarrow> reports
      \<Rightarrow> tool_call_result \<times> reports" where
  "tool_call_chain [] (call, metadata) replaced reports =
     (if replaced then TcReplace (tc_arguments call) else TcContinue, reports)"
| "tool_call_chain ((source, handle) # handlers) (call, metadata) replaced reports =
     (case handle (call, metadata) of
        Ok TcContinue \<Rightarrow> tool_call_chain handlers (call, metadata) replaced reports
      | Ok (TcReplace arguments) \<Rightarrow>
          tool_call_chain handlers (call\<lparr>tc_arguments := arguments\<rparr>, metadata) True reports
      | Ok (TcBlock b) \<Rightarrow> (TcBlock b, reports)
      | Err e \<Rightarrow> (TcBlock \<lparr>tb_reason = e, tb_terminate = False\<rparr>, report source e reports))"

definition emit_tool_call ::
    "(tool_call \<times> 'm option, tool_call_result) handler list \<Rightarrow> tool_call \<times> 'm option \<Rightarrow> tool_call_result \<times> reports" where
  "emit_tool_call handlers event = tool_call_chain handlers event False []"

record tool_result_patch =
  tp_blocks :: "content_block list option"
  tp_details :: "json option"
  tp_is_error :: "bool option"
  tp_usage :: "json option"

definition patch_result :: "tool_result_patch \<Rightarrow> tool_result \<Rightarrow> tool_result" where
  "patch_result p r =
     (let r1 = (case tp_blocks p of Some b \<Rightarrow> r\<lparr>tr_blocks := b\<rparr> | None \<Rightarrow> r);
          r2 = (case tp_details p of Some d \<Rightarrow> r1\<lparr>tr_details := Some d\<rparr> | None \<Rightarrow> r1)
      in case tp_is_error p of Some e \<Rightarrow> r2\<lparr>tr_is_error := e\<rparr> | None \<Rightarrow> r2)"

definition tool_result_step ::
    "(tool_call \<times> tool_result, tool_result_patch) handler \<Rightarrow> (tool_call \<times> tool_result \<times> json option) \<times> reports
      \<Rightarrow> (tool_call \<times> tool_result \<times> json option) \<times> reports" where
  "tool_result_step = (\<lambda>(source, handle) ((call, r, usage), reports).
     case handle (call, r) of
       Ok p \<Rightarrow> ((call, patch_result p r, if tp_usage p \<noteq> None then tp_usage p else usage), reports)
     | Err e \<Rightarrow> ((call, r, usage), report source e reports))"

definition emit_tool_result ::
    "(tool_call \<times> tool_result, tool_result_patch) handler list \<Rightarrow> tool_call \<Rightarrow> tool_result
      \<Rightarrow> (tool_result \<times> json option) \<times> reports" where
  "emit_tool_result handlers call r =
     (let ((_, r', usage), reports) = fold tool_result_step handlers ((call, r, None), []) in ((r', usage), reports))"

text \<open>The first answer of a list of handlers that satisfies a condition.\<close>

fun first_answer :: "('o \<Rightarrow> bool) \<Rightarrow> ('e, 'o) handler list \<Rightarrow> 'e \<Rightarrow> reports \<Rightarrow> 'o option \<times> reports" where
  "first_answer P [] event reports = (None, reports)"
| "first_answer P ((source, handle) # handlers) event reports =
     (case handle event of
        Ok x \<Rightarrow> if P x then (Some x, reports) else first_answer P handlers event reports
      | Err e \<Rightarrow> first_answer P handlers event (report source e reports))"

definition emit_user_bash :: "('e, 'r option) handler list \<Rightarrow> 'e \<Rightarrow> 'r option \<times> reports" where
  "emit_user_bash handlers event =
     (case first_answer (\<lambda>r. r \<noteq> None) handlers event [] of (r, reports) \<Rightarrow> (Option.bind r (\<lambda>x. x), reports))"

section \<open>runtime/session.rs and runtime/startup.rs\<close>

definition emit_session_before_switch :: "('e, bool) handler list \<Rightarrow> 'e \<Rightarrow> bool \<times> reports" where
  "emit_session_before_switch handlers event =
     (case first_answer (\<lambda>c. c) handlers event [] of (r, reports) \<Rightarrow> (r \<noteq> None, reports))"

record before_fork_result =
  bf_cancel :: bool
  bf_skip_conversation_restore :: bool

fun before_fork_chain :: "('e, before_fork_result) handler list \<Rightarrow> 'e \<Rightarrow> bool \<Rightarrow> reports \<Rightarrow> before_fork_result \<times> reports" where
  "before_fork_chain [] event skip reports = (\<lparr>bf_cancel = False, bf_skip_conversation_restore = skip\<rparr>, reports)"
| "before_fork_chain ((source, handle) # handlers) event skip reports =
     (case handle event of
        Ok r \<Rightarrow>
          (let skip' = (skip \<or> bf_skip_conversation_restore r) in
           if bf_cancel r then (\<lparr>bf_cancel = True, bf_skip_conversation_restore = skip'\<rparr>, reports)
           else before_fork_chain handlers event skip' reports)
      | Err e \<Rightarrow> before_fork_chain handlers event skip (report source e reports))"

definition emit_session_before_fork :: "('e, before_fork_result) handler list \<Rightarrow> 'e \<Rightarrow> before_fork_result \<times> reports" where
  "emit_session_before_fork handlers event = before_fork_chain handlers event False []"

record 'c before_compact_result =
  bc_cancel :: bool
  bc_compaction :: "'c option"

definition emit_session_before_compact ::
    "('e, 'c before_compact_result) handler list \<Rightarrow> 'e \<Rightarrow> 'c before_compact_result \<times> reports" where
  "emit_session_before_compact handlers event =
     (case first_answer (\<lambda>r. bc_cancel r \<or> bc_compaction r \<noteq> None) handlers event [] of
        (Some r, reports) \<Rightarrow> (r, reports)
      | (None, reports) \<Rightarrow> (\<lparr>bc_cancel = False, bc_compaction = None\<rparr>, reports))"

record 's before_tree_result =
  bt_cancel :: bool
  bt_summary :: "'s option"
  bt_custom_instructions :: "string option"
  bt_replace_instructions :: "bool option"
  bt_label :: "string option"

definition later :: "'a option \<Rightarrow> 'a option \<Rightarrow> 'a option" where
  "later new old = (case new of None \<Rightarrow> old | Some x \<Rightarrow> Some x)"

definition overlay_tree :: "'s before_tree_result \<Rightarrow> 's before_tree_result \<Rightarrow> 's before_tree_result" where
  "overlay_tree r composed =
     composed\<lparr>bt_summary := later (bt_summary r) (bt_summary composed),
       bt_custom_instructions := later (bt_custom_instructions r) (bt_custom_instructions composed),
       bt_replace_instructions := later (bt_replace_instructions r) (bt_replace_instructions composed),
       bt_label := later (bt_label r) (bt_label composed)\<rparr>"

fun before_tree_chain ::
    "('e, 's before_tree_result) handler list \<Rightarrow> 'e \<Rightarrow> 's before_tree_result \<Rightarrow> reports
      \<Rightarrow> 's before_tree_result \<times> reports" where
  "before_tree_chain [] event composed reports = (composed, reports)"
| "before_tree_chain ((source, handle) # handlers) event composed reports =
     (case handle event of
        Ok r \<Rightarrow>
          (let composed' = overlay_tree r composed in
           if bt_cancel r then (composed'\<lparr>bt_cancel := True\<rparr>, reports)
           else before_tree_chain handlers event composed' reports)
      | Err e \<Rightarrow> before_tree_chain handlers event composed (report source e reports))"

definition emit_session_before_tree ::
    "('e, 's before_tree_result) handler list \<Rightarrow> 'e \<Rightarrow> 's before_tree_result \<times> reports" where
  "emit_session_before_tree handlers event =
     before_tree_chain handlers event
       \<lparr>bt_cancel = False, bt_summary = None, bt_custom_instructions = None, bt_replace_instructions = None,
        bt_label = None\<rparr> []"

datatype project_trust_decision = TrustUndecided | TrustYes | TrustNo

definition emit_project_trust ::
    "('e, project_trust_decision \<times> bool) handler list \<Rightarrow> 'e \<Rightarrow> (project_trust_decision \<times> bool) \<times> reports" where
  "emit_project_trust handlers event =
     (case first_answer (\<lambda>(trusted, remember). trusted \<noteq> TrustUndecided) handlers event [] of
        (Some r, reports) \<Rightarrow> (r, reports)
      | (None, reports) \<Rightarrow> ((TrustUndecided, False), reports))"

definition resources_step ::
    "'e \<Rightarrow> ('e, string list \<times> string list) handler \<Rightarrow> (string list \<times> string list) \<times> reports
      \<Rightarrow> (string list \<times> string list) \<times> reports" where
  "resources_step event = (\<lambda>(source, handle) ((skills, prompts), reports).
     case handle event of
       Ok (s, p) \<Rightarrow> ((skills @ s, prompts @ p), reports)
     | Err e \<Rightarrow> ((skills, prompts), report source e reports))"

definition emit_resources_discover ::
    "('e, string list \<times> string list) handler list \<Rightarrow> 'e \<Rightarrow> (string list \<times> string list) \<times> reports" where
  "emit_resources_discover handlers event = fold (resources_step event) handlers (([], []), [])"

section \<open>Chains\<close>

text \<open>What every chain of handlers keeps of the value it passes on: a relation each handler respects,
  whatever the handler answers; and reports are only added.\<close>

locale hook_chain =
  fixes step :: "'h \<Rightarrow> 's \<times> reports \<Rightarrow> 's \<times> reports" and keeps :: "'s \<Rightarrow> 's \<Rightarrow> bool"
  assumes keeps_refl: "keeps s s"
    and keeps_trans: "keeps s t \<Longrightarrow> keeps t u \<Longrightarrow> keeps s u"
    and step_keeps: "keeps s (fst (step h (s, reports)))"
    and step_reports: "prefix reports (snd (step h (s, reports)))"
begin

lemma chain_keeps: "keeps s (fst (fold step handlers (s, reports)))"
proof (induction handlers arbitrary: s reports)
  case Nil
  show ?case by (simp add: keeps_refl)
next
  case (Cons h handlers)
  obtain s' reports' where step: "step h (s, reports) = (s', reports')" by (rule prod.exhaust)
  have "keeps s s'" using step_keeps [of s h reports] step by simp
  with Cons [of s' reports'] step show ?case by (auto intro: keeps_trans)
qed

lemma chain_reports: "prefix reports (snd (fold step handlers (s, reports)))"
proof (induction handlers arbitrary: s reports)
  case (Cons h handlers)
  obtain s' reports' where step: "step h (s, reports) = (s', reports')" by (rule prod.exhaust)
  have "prefix reports reports'" using step_reports [of reports h s] step by simp
  with Cons [of reports' s'] step show ?case by (auto intro: prefix_order.trans)
qed simp

lemma chain_append: "fold step (hs @ hs') s = fold step hs' (fold step hs s)"
  by simp

end

lemma report_prefix [simp]: "prefix reports (report source e reports)"
  by (simp add: report_def)

lemma same_role_refl: "same_role c c"
  by (cases c) (auto simp: same_role_def)

lemma same_role_trans: "same_role a b \<Longrightarrow> same_role b c \<Longrightarrow> same_role a c"
  by (cases a; cases b; cases c) (auto simp: same_role_def)

lemma same_role_assistant: "same_role c (McAssistant b m n) \<longleftrightarrow> is_assistant c"
  by (cases c) (auto simp: same_role_def)

definition keeps_message :: "agent_message \<Rightarrow> agent_message \<Rightarrow> bool" where
  "keeps_message m m' \<longleftrightarrow> msg_identity m' = msg_identity m \<and> same_role (msg_content m') (msg_content m)"

interpretation message_end: hook_chain message_end_step keeps_message
proof
  fix s t u :: agent_message and h and reports
  show "keeps_message s s" by (simp add: keeps_message_def same_role_refl)
  show "keeps_message s t \<Longrightarrow> keeps_message t u \<Longrightarrow> keeps_message s u"
    by (auto simp: keeps_message_def intro: same_role_trans)
  show "keeps_message s (fst (message_end_step h (s, reports)))" "prefix reports (snd (message_end_step h (s, reports)))"
    by (auto simp: message_end_step_def keeps_message_def same_role_refl split: prod.splits result.splits option.splits)
qed

definition keeps_result :: "tool_call \<times> tool_result \<times> json option \<Rightarrow> tool_call \<times> tool_result \<times> json option \<Rightarrow> bool" where
  "keeps_result = (\<lambda>(c, r, u) (c', r', u'). c' = c \<and> tr_tool_call_id r' = tr_tool_call_id r \<and>
     tr_cancelled r' = tr_cancelled r \<and> tr_output r' = tr_output r)"

lemma patch_result_keeps:
  "tr_tool_call_id (patch_result p r) = tr_tool_call_id r" "tr_cancelled (patch_result p r) = tr_cancelled r"
  "tr_output (patch_result p r) = tr_output r"
  by (simp_all add: patch_result_def Let_def split: option.split)

interpretation tool_result: hook_chain tool_result_step keeps_result
proof
  fix s t u :: "tool_call \<times> tool_result \<times> json option" and h and reports
  show "keeps_result s s" by (simp add: keeps_result_def split: prod.splits)
  show "keeps_result s t \<Longrightarrow> keeps_result t u \<Longrightarrow> keeps_result s u"
    by (simp add: keeps_result_def split: prod.splits)
  show "keeps_result s (fst (tool_result_step h (s, reports)))" "prefix reports (snd (tool_result_step h (s, reports)))"
    by (auto simp: tool_result_step_def keeps_result_def patch_result_keeps split: prod.splits result.splits)
qed

interpretation context_chain: hook_chain context_step
  "\<lambda>r r'. mr_tools r' = mr_tools r \<and> mr_options r' = mr_options r"
  by unfold_locales
    (auto simp: context_step_def split: prod.splits result.splits option.splits)

lemma emit_message_end_keeps: "keeps_message m (fst (emit_message_end handlers m))"
  unfolding emit_message_end_def by (rule message_end.chain_keeps)

lemma emit_tool_result_keeps:
  assumes "emit_tool_result handlers call r = ((r', usage), reports)"
  shows "tr_tool_call_id r' = tr_tool_call_id r" "tr_cancelled r' = tr_cancelled r" "tr_output r' = tr_output r"
  using tool_result.chain_keeps [of "(call, r, None)" handlers "[]"] assms
  by (auto simp: emit_tool_result_def keeps_result_def split: prod.splits)

text \<open>A call that extensions let pass ran through all of them without an error; the arguments are those of
  the last replacement.\<close>

lemma tool_call_passes:
  "fst (tool_call_chain handlers (call, metadata) replaced reports) = TcContinue \<Longrightarrow>
    \<not> replaced \<and> (\<forall>(source, handle) \<in> set handlers. handle (call, metadata) = Ok TcContinue)"
  by (induction handlers "(call, metadata)" replaced reports arbitrary: call rule: tool_call_chain.induct)
    (auto split: result.splits tool_call_result.splits if_splits)

lemma first_answer_satisfies: "fst (first_answer P handlers event reports) = Some x \<Longrightarrow> P x"
  by (induction P handlers event reports rule: first_answer.induct) (auto split: result.splits if_splits)

text \<open>The earliest decision wins, whatever the handlers behind it would answer.\<close>

lemma first_answer_find:
  "fst (first_answer P handlers event reports) = find P (List.map_filter (\<lambda>(s, h). result_ok (h event)) handlers)"
  by (induction P handlers event reports rule: first_answer.induct)
    (auto simp: List.map_filter_simps split: result.splits)

end
