(* ===== verification/Tool_Batch.thy ===== *)
theory Tool_Batch
  imports Catalog_Props Extension_Hooks Command_Line
begin

text \<open>
  The tool calls of one turn: the plan-mode gate (\<^verbatim>\<open>crates/kernel/src/runtime/plan/gate.rs\<close>), the latest
  snapshot of every running call (\<^verbatim>\<open>crates/kernel/src/runtime/tools/update.rs\<close>) and the batch that
  prepares the calls in order, runs them side by side and collects their results
  (\<^verbatim>\<open>crates/kernel/src/runtime/tools/batch.rs\<close>). The order in which calls finish, what they answer and
  when the turn is cancelled come in as a list of events.
\<close>

section \<open>gate.rs\<close>

record plan_gate =
  pg_mode :: session_mode
  pg_kernel_owned :: "string set"

fun violation_text :: "read_only_violation \<Rightarrow> string" where
  "violation_text Unparsable = ''the command could not be parsed in plan mode''"
| "violation_text Substitution = ''command substitution is not allowed in plan mode''"
| "violation_text Redirect = ''output redirection is not allowed in plan mode''"
| "violation_text (Program p) = p @ '' is not allowed in plan mode''"
| "violation_text (Argument p a) = p @ '' '' @ a @ '' is not allowed in plan mode''"
| "violation_text (GitGlobalOption g) = ''git global options are not allowed in plan mode: '' @ g"

definition gate_check ::
    "(string \<Rightarrow> string list option) \<Rightarrow> plan_gate \<Rightarrow> tool_call \<Rightarrow> tool_metadata option \<Rightarrow> (unit, string) result" where
  "gate_check shlex gate call metadata =
     (if pg_mode gate = ModeDefault \<or> tc_name call \<in> pg_kernel_owned gate then Ok ()
      else if tc_name call = ''bash'' then
        (case Option.bind (json_get ''command'' (tc_arguments call)) as_str of
           Some command \<Rightarrow> (case read_only shlex command of Ok _ \<Rightarrow> Ok () | Err v \<Rightarrow> Err (violation_text v))
         | None \<Rightarrow> Err ''plan mode needs a bash command to check'')
      else if Option.bind metadata tm_read_only_hint = Some True then Ok ()
      else Err (''Plan mode is active: '' @ tc_name call @
        '' is not allowed. Finish the plan and call exit_plan_mode.''))"

section \<open>update.rs\<close>

text \<open>The latest snapshot of each call with its revision, and the revision last handed on.\<close>

record 'u update_channel =
  uc_latest :: "(string \<times> nat \<times> 'u) list"
  uc_revision :: nat
  uc_consumed :: "string \<Rightarrow> nat"

definition new_channel :: "'u update_channel" where
  "new_channel = \<lparr>uc_latest = [], uc_revision = 0, uc_consumed = (\<lambda>k. 0)\<rparr>"

definition publish_snapshot :: "string \<Rightarrow> 'u \<Rightarrow> 'u update_channel \<Rightarrow> 'u update_channel" where
  "publish_snapshot key u c =
     (let revision = saturating_add_u64 (uc_revision c) 1
      in c\<lparr>uc_revision := Suc (uc_revision c), uc_latest := btree_insert key (revision, u) (uc_latest c)\<rparr>)"

definition take_for :: "string \<Rightarrow> 'u update_channel \<Rightarrow> 'u option \<times> 'u update_channel" where
  "take_for key c =
     (case map_of (uc_latest c) key of
        None \<Rightarrow> (None, c)
      | Some (revision, u) \<Rightarrow>
          if uc_consumed c key \<ge> revision then (None, c)
          else (Some u, c\<lparr>uc_consumed := (uc_consumed c)(key := revision)\<rparr>))"

fun take_unseen_loop :: "(string \<times> nat \<times> 'u) list \<Rightarrow> (string \<Rightarrow> nat) \<Rightarrow> 'u list \<times> (string \<Rightarrow> nat)" where
  "take_unseen_loop [] consumed = ([], consumed)"
| "take_unseen_loop ((key, revision, u) # latest) consumed =
     (if consumed key \<ge> revision then take_unseen_loop latest consumed
      else let (us, consumed') = take_unseen_loop latest (consumed(key := revision)) in (u # us, consumed'))"

definition take_unseen :: "'u update_channel \<Rightarrow> 'u list \<times> 'u update_channel" where
  "take_unseen c =
     (let (us, consumed) = take_unseen_loop (uc_latest c) (uc_consumed c) in (us, c\<lparr>uc_consumed := consumed\<rparr>))"

section \<open>batch.rs: preparing a call\<close>

definition blocked_details :: "tool_block \<Rightarrow> json" where
  "blocked_details b = JObject [(''type'', JString ''blocked''), (''reason'', JString (tb_reason b)),
     (''terminate'', JBool (tb_terminate b))]"

definition blocked_result :: "string \<Rightarrow> tool_block \<Rightarrow> tool_result" where
  "blocked_result call_id b =
     \<lparr>tr_tool_call_id = call_id, tr_blocks = [CbText (tb_reason b)], tr_is_error = True,
      tr_details = Some (blocked_details b), tr_output = None, tr_cancelled = False\<rparr>"

definition error_result :: "string \<Rightarrow> string \<Rightarrow> bool \<Rightarrow> tool_result" where
  "error_result call_id text cancelled =
     \<lparr>tr_tool_call_id = call_id, tr_blocks = [CbText text], tr_is_error = True, tr_details = None,
      tr_output = None, tr_cancelled = cancelled\<rparr>"

definition INVALID_JSON :: string where
  "INVALID_JSON = ''Tool arguments are invalid JSON; provide a complete JSON object.''"

text \<open>A call as the hooks left it, the result that replaces its execution if there is one, and whether a
  policy ends the run.\<close>

record prepared_call =
  pc_call :: tool_call
  pc_immediate :: "tool_result option"
  pc_terminate :: bool

definition prepare_call ::
    "(string \<Rightarrow> string list option) \<Rightarrow> 'i tool_registry \<Rightarrow> plan_gate
      \<Rightarrow> (tool_call \<times> tool_metadata option, tool_call_result) handler list \<Rightarrow> tool_call \<Rightarrow> prepared_call" where
  "prepare_call shlex tools gate hooks call0 =
     (let metadata = (\<lambda>c. map_option ag_metadata (registry_tool (tc_name c) tools));
          answer = fst (emit_tool_call hooks (call0, metadata call0));
          call = (case answer of TcReplace arguments \<Rightarrow> call0\<lparr>tc_arguments := arguments, tc_invalid_arguments := None\<rparr>
                  | _ \<Rightarrow> call0);
          i = tc_tool_call_id call;
          immediate =
            (case answer of
               TcBlock b \<Rightarrow> Some (blocked_result i b)
             | _ \<Rightarrow>
               (case gate_check shlex gate call (metadata call) of
                  Err reason \<Rightarrow> Some (blocked_result i \<lparr>tb_reason = reason, tb_terminate = False\<rparr>)
                | Ok _ \<Rightarrow>
                    if tc_invalid_arguments call \<noteq> None then Some (error_result i INVALID_JSON False)
                    else (case registry_validate call tools of
                        Err e \<Rightarrow> Some (error_result i (tool_error_text e) False)
                      | Ok _ \<Rightarrow> None)))
      in \<lparr>pc_call = call, pc_immediate = immediate,
          pc_terminate = (case answer of TcBlock b \<Rightarrow> tb_terminate b | _ \<Rightarrow> False)\<rparr>)"

section \<open>batch.rs: running the batch\<close>

text \<open>What happens to the batch: snapshots of running calls are published; the turn is cancelled; or a call
  finishes with what its tool answered, while the token is or is not cancelled, with the outcomes of
  publishing its last snapshot, of the result projection and of publishing its end, at a time and with
  a message id.\<close>

datatype batch_event =
    BeUpdated "(unit, kernel_error) result"
  | BeCancelled
  | BeFinished nat "(tool_result, tool_error) result" bool "(unit, kernel_error) result"
      "tool_result \<Rightarrow> (tool_result, kernel_error) result" "(unit, kernel_error) result" nat "(message_id, kernel_error) result"

definition rejects_plan :: "json \<Rightarrow> bool" where
  "rejects_plan d \<longleftrightarrow> json_get ''type'' d = Some (JString ''plan_approval'') \<and> json_get ''approved'' d = Some (JBool False)"

record batch_env =
  bt_turn_id :: turn_id
  bt_result_hooks :: "(tool_call \<times> tool_result, tool_result_patch) handler list"
  bt_policy :: "string \<Rightarrow> output_policy option"
  bt_output_json :: "tool_output_info \<Rightarrow> json"

text \<open>The result of one finished call, as it is announced and stored.\<close>

definition call_result :: "prepared_call \<Rightarrow> (tool_result, tool_error) result \<Rightarrow> tool_result" where
  "call_result p outcome =
     (case pc_immediate p of
        Some r \<Rightarrow> r
      | None \<Rightarrow> (case outcome of
            Ok r \<Rightarrow> r
          | Err e \<Rightarrow> error_result (tc_tool_call_id (pc_call p)) (tool_error_text e) (e = TeCancelled)))"

text \<open>The projection runs only for executed calls of registered tools whose policy is not to preserve.\<close>

definition projected :: "batch_env \<Rightarrow> prepared_call \<Rightarrow> bool" where
  "projected env p \<longleftrightarrow> pc_immediate p = None \<and> bt_policy env (tc_name (pc_call p)) \<notin> {None, Some PolicyPreserve}"

definition finish_result ::
    "batch_env \<Rightarrow> prepared_call \<Rightarrow> (tool_result, tool_error) result \<Rightarrow> bool
      \<Rightarrow> (tool_result \<Rightarrow> (tool_result, kernel_error) result) \<Rightarrow> bool \<times> (tool_result, kernel_error) result" where
  "finish_result env p outcome token_cancelled project =
     (let r0 = call_result p outcome;
          r1 = r0\<lparr>tr_cancelled := (tr_cancelled r0 \<or> (tr_is_error r0 \<and> token_cancelled))\<rparr>;
          r2 = fst (fst (emit_tool_result (bt_result_hooks env) (pc_call p) r1));
          r3 = r2\<lparr>tr_cancelled := (tr_cancelled r2 \<or> tr_cancelled r1)\<rparr>;
          ends = (case tr_details r3 of None \<Rightarrow> False | Some d \<Rightarrow> rejects_plan d)
      in (ends, if projected env p then project r3 else Ok r3))"

definition result_message ::
    "batch_env \<Rightarrow> message_id \<Rightarrow> nat \<Rightarrow> nat \<Rightarrow> tool_result \<Rightarrow> (agent_message, kernel_error) result" where
  "result_message env mid started now r =
     (case message_timing_try_from started started now of
        Err (s, e) \<Rightarrow> Err (ProtocolError (''message ended at '' @ decimal e @ '' before it started at '' @ decimal s))
      | Ok timing \<Rightarrow> Ok \<lparr>msg_identity = \<lparr>mi_message_id = mid, mi_turn_id = bt_turn_id env\<rparr>, msg_timing = timing,
          msg_content = McToolResult (tr_tool_call_id r) (tr_blocks r) (tr_is_error r) (tr_details r)
            (map_option (bt_output_json env) (tr_output r)) (tr_cancelled r)\<rparr>)"

record batch_state =
  bs_pending :: "(nat \<times> nat \<times> prepared_call) list"
  bs_completed :: "(nat \<times> agent_message \<times> tool_result) list"
  bs_cancelled :: bool
  bs_terminate :: bool

text \<open>\<open>None\<close> is a batch whose calls never all finish, or a call that is not running.\<close>

fun batch_loop :: "batch_env \<Rightarrow> batch_event list \<Rightarrow> batch_state \<Rightarrow> (batch_state, kernel_error) result option" where
  "batch_loop env [] s = (if bs_pending s = [] then Some (Ok s) else None)"
| "batch_loop env (event # events) s =
     (if bs_pending s = [] then Some (Ok s)
      else case event of
        BeUpdated announced \<Rightarrow> (case announced of Ok _ \<Rightarrow> batch_loop env events s | Err e \<Rightarrow> Some (Err e))
      | BeCancelled \<Rightarrow> batch_loop env events (s\<lparr>bs_cancelled := True\<rparr>)
      | BeFinished index outcome token_cancelled updated project announced now mid \<Rightarrow>
         (case map_of (bs_pending s) index of
            None \<Rightarrow> None
          | Some (started, p) \<Rightarrow>
             (case and_then updated (\<lambda>_. case finish_result env p outcome token_cancelled project of
                     (ends, Ok r) \<Rightarrow> Ok (ends, r) | (ends, Err e) \<Rightarrow> Err e) of
                Err e \<Rightarrow> Some (Err e)
              | Ok (ends, r) \<Rightarrow>
                 (case and_then announced (\<lambda>_. and_then mid (\<lambda>i. result_message env i started now r)) of
                    Err e \<Rightarrow> Some (Err e)
                  | Ok m \<Rightarrow> batch_loop env events
                      (s\<lparr>bs_pending := filter (\<lambda>(i, x). i \<noteq> index) (bs_pending s),
                         bs_completed := bs_completed s @ [(index, m, r)], bs_terminate := (bs_terminate s \<or> ends)\<rparr>)))))"

record batch_result =
  br_messages :: "agent_message list"
  br_results :: "tool_result list"
  br_cancelled :: bool
  br_terminate :: bool

definition start_batch :: "(nat \<times> prepared_call) list \<Rightarrow> batch_state" where
  "start_batch calls =
     \<lparr>bs_pending = zip [0..<length calls] calls, bs_completed = [], bs_cancelled = False,
      bs_terminate = list_ex (\<lambda>(started, p). pc_terminate p) calls\<rparr>"

definition collect_batch :: "batch_state \<Rightarrow> batch_result" where
  "collect_batch s =
     (let sorted = sort_key fst (bs_completed s) in
      \<lparr>br_messages = map (\<lambda>(i, m, r). m) sorted, br_results = map (\<lambda>(i, m, r). r) sorted,
       br_cancelled = bs_cancelled s, br_terminate = bs_terminate s\<rparr>)"

text \<open>Preparation announces every call; the first announcement that fails ends the batch.\<close>

fun prepare_batch ::
    "(tool_call \<Rightarrow> prepared_call) \<Rightarrow> (tool_call \<times> nat \<times> (unit, kernel_error) result) list
      \<Rightarrow> ((nat \<times> prepared_call) list, kernel_error) result" where
  "prepare_batch prepare [] = Ok []"
| "prepare_batch prepare ((call, started, announced) # calls) =
     and_then announced (\<lambda>_. and_then (prepare_batch prepare calls) (\<lambda>ps. Ok ((started, prepare call) # ps)))"

definition execute_tool_batch ::
    "(tool_call \<Rightarrow> prepared_call) \<Rightarrow> batch_env \<Rightarrow> (tool_call \<times> nat \<times> (unit, kernel_error) result) list \<Rightarrow> batch_event list
      \<Rightarrow> (unit, kernel_error) result \<Rightarrow> (batch_result, kernel_error) result option" where
  "execute_tool_batch prepare env calls events flushed =
     (case prepare_batch prepare calls of
        Err e \<Rightarrow> Some (Err e)
      | Ok prepared \<Rightarrow>
          (case batch_loop env events (start_batch prepared) of
             None \<Rightarrow> None
           | Some (Err e) \<Rightarrow> Some (Err e)
           | Some (Ok s) \<Rightarrow> Some (and_then flushed (\<lambda>_. Ok (collect_batch s)))))"

end
