(* ===== verification/Batch_Props.thy ===== *)
theory Batch_Props
  imports Tool_Batch
begin

text \<open>
  Every call of a batch gets exactly one result, in the order of the calls, whatever order they finish
  in; in plan mode only harmless calls run; and no snapshot of a running call is shown twice.
\<close>

section \<open>Prepared calls\<close>

lemma prepare_call_id [simp]: "tc_tool_call_id (pc_call (prepare_call shlex tools gate hooks call)) = tc_tool_call_id call"
  "tc_name (pc_call (prepare_call shlex tools gate hooks call)) = tc_name call"
  by (simp_all add: prepare_call_def Let_def split: tool_call_result.split)

lemma immediate_id:
  "pc_immediate (prepare_call shlex tools gate hooks call) = Some r \<Longrightarrow> tr_tool_call_id r = tc_tool_call_id call"
  by (auto simp: prepare_call_def Let_def blocked_result_def error_result_def
      split: tool_call_result.splits result.splits if_splits)

lemma executed_call:
  assumes "pc_immediate (prepare_call shlex tools gate hooks call) = None"
  defines "final \<equiv> pc_call (prepare_call shlex tools gate hooks call)"
  shows "gate_check shlex gate final (map_option ag_metadata (registry_tool (tc_name final) tools)) = Ok ()"
    and "tc_invalid_arguments final = None" "registry_validate final tools = Ok ()"
    and "\<forall>b. fst (emit_tool_call hooks (call, map_option ag_metadata (registry_tool (tc_name call) tools))) \<noteq> TcBlock b"
  using assms by (auto simp: prepare_call_def Let_def split: tool_call_result.splits result.splits if_splits)

section \<open>Results\<close>

text \<open>What a tool has to keep: its answer, and its bounded form, carry the id of the call.\<close>

fun event_keeps_id :: "(nat \<Rightarrow> string) \<Rightarrow> batch_event \<Rightarrow> bool" where
  "event_keeps_id ids (BeFinished i outcome c u project a now mid) \<longleftrightarrow>
     (\<forall>r. outcome = Ok r \<longrightarrow> tr_tool_call_id r = ids i) \<and>
     (\<forall>r r'. project r = Ok r' \<longrightarrow> tr_tool_call_id r' = tr_tool_call_id r)"
| "event_keeps_id ids _ \<longleftrightarrow> True"

definition answers :: "string \<Rightarrow> agent_message \<Rightarrow> tool_result \<Rightarrow> bool" where
  "answers i m r \<longleftrightarrow> tr_tool_call_id r = i \<and>
     (\<exists>blocks err details out c. msg_content m = McToolResult i blocks err details out c \<and>
        blocks = tr_blocks r \<and> err = tr_is_error r \<and> details = tr_details r \<and> c = tr_cancelled r)"

lemma result_message_answers:
  "result_message env mid started now r = Ok m \<Longrightarrow> answers (tr_tool_call_id r) m r"
  by (auto simp: result_message_def answers_def split: result.splits prod.splits)

lemma finish_result_id:
  assumes "finish_result env p outcome c project = (ends, Ok r)"
    and "\<And>r. pc_immediate p = Some r \<Longrightarrow> tr_tool_call_id r = tc_tool_call_id (pc_call p)"
    and "\<And>r. outcome = Ok r \<Longrightarrow> tr_tool_call_id r = tc_tool_call_id (pc_call p)"
    and "\<And>r r'. project r = Ok r' \<Longrightarrow> tr_tool_call_id r' = tr_tool_call_id r"
  shows "tr_tool_call_id r = tc_tool_call_id (pc_call p)"
proof -
  have "tr_tool_call_id (call_result p outcome) = tc_tool_call_id (pc_call p)"
    using assms(2,3) by (auto simp: call_result_def error_result_def split: option.split result.split)
  moreover have "tr_tool_call_id (fst (fst (emit_tool_result hooks c' r'))) = tr_tool_call_id r'" for hooks c' r'
    using emit_tool_result_keeps(1) [of hooks c' r'] by (metis prod.collapse)
  ultimately show ?thesis using assms(1,4) by (auto simp: finish_result_def Let_def split: if_splits)
qed

text \<open>The invariant of the loop over a batch with the given call ids.\<close>

definition batch_inv :: "string list \<Rightarrow> batch_state \<Rightarrow> bool" where
  "batch_inv ids s \<longleftrightarrow>
     distinct (map fst (bs_pending s) @ map fst (bs_completed s)) \<and>
     set (map fst (bs_pending s) @ map fst (bs_completed s)) = {0..<length ids} \<and>
     (\<forall>(i, started, p) \<in> set (bs_pending s). tc_tool_call_id (pc_call p) = ids ! i \<and>
        (\<forall>r. pc_immediate p = Some r \<longrightarrow> tr_tool_call_id r = ids ! i)) \<and>
     (\<forall>(i, m, r) \<in> set (bs_completed s). answers (ids ! i) m r)"

lemma fst_filter_key: "set (map fst (filter (\<lambda>(j, x). j \<noteq> i) xs)) = set (map fst xs) - {i}"
  by (induction xs) auto

lemma distinct_filter_key: "distinct (map fst xs) \<Longrightarrow> distinct (map fst (filter P xs))"
  by (induction xs) auto

lemma batch_inv_finish:
  assumes "batch_inv ids s" "map_of (bs_pending s) i = Some (started, p)" "answers (ids ! i) m r"
  shows "batch_inv ids (s\<lparr>bs_pending := filter (\<lambda>(j, x). j \<noteq> i) (bs_pending s),
    bs_completed := bs_completed s @ [(i, m, r)], bs_terminate := b\<rparr>)"
proof -
  have i: "i \<in> set (map fst (bs_pending s))" using map_of_SomeD [OF assms(2)] by force
  have d: "distinct (map fst (bs_pending s))" "distinct (map fst (bs_completed s))"
    "set (map fst (bs_pending s)) \<inter> set (map fst (bs_completed s)) = {}"
    "set (map fst (bs_pending s)) \<union> set (map fst (bs_completed s)) = {0..<length ids}"
    using assms(1) by (auto simp: batch_inv_def)
  have "distinct (map fst (filter (\<lambda>(j, x). j \<noteq> i) (bs_pending s)) @ map fst (bs_completed s @ [(i, m, r)]))"
    using d i distinct_filter_key [OF d(1), of "\<lambda>(j, x). j \<noteq> i"] fst_filter_key [of i "bs_pending s"] by auto
  moreover have "set (map fst (filter (\<lambda>(j, x). j \<noteq> i) (bs_pending s)) @ map fst (bs_completed s @ [(i, m, r)])) = {0..<length ids}"
    using d(4) i fst_filter_key [of i "bs_pending s"] by auto
  ultimately show ?thesis using assms(1,3) by (auto simp: batch_inv_def)
qed

lemma batch_loop_inv:
  assumes "batch_loop env events s = Some (Ok s')" "batch_inv ids s" "list_all (event_keeps_id (\<lambda>i. ids ! i)) events"
  shows "batch_inv ids s' \<and> bs_pending s' = []"
  using assms
proof (induction events arbitrary: s)
  case Nil
  then show ?case by (auto split: if_splits)
next
  case (Cons event events)
  show ?case
  proof (cases "bs_pending s = []")
    case True
    with Cons.prems show ?thesis by simp
  next
    case False
    show ?thesis
    proof (cases event)
      case (BeUpdated announced)
      with Cons.prems False Cons.IH [of s] show ?thesis by (cases announced) auto
    next
      case BeCancelled
      have "batch_inv ids (s\<lparr>bs_cancelled := True\<rparr>)" using Cons.prems(2) by (simp add: batch_inv_def)
      with BeCancelled Cons.prems False Cons.IH show ?thesis by simp
    next
      case (BeFinished i outcome c u project a now mid)
      from Cons.prems(1) False BeFinished obtain started p ends r m where
        p: "map_of (bs_pending s) i = Some (started, p)" and u: "u = Ok ()"
        and r: "finish_result env p outcome c project = (ends, Ok r)"
        and m: "and_then a (\<lambda>_. and_then mid (\<lambda>j. result_message env j started now r)) = Ok m"
        and rest: "batch_loop env events (s\<lparr>bs_pending := filter (\<lambda>(j, x). j \<noteq> i) (bs_pending s),
          bs_completed := bs_completed s @ [(i, m, r)], bs_terminate := (bs_terminate s \<or> ends)\<rparr>) = Some (Ok s')"
        by (auto split: option.splits prod.splits result.splits simp: and_then_Ok_iff)
      have "(i, started, p) \<in> set (bs_pending s)" using p by (rule map_of_SomeD)
      with Cons.prems(2) have ids: "tc_tool_call_id (pc_call p) = ids ! i" "\<And>r. pc_immediate p = Some r \<Longrightarrow> tr_tool_call_id r = ids ! i"
        by (auto simp: batch_inv_def)
      have keeps: "\<And>r. outcome = Ok r \<Longrightarrow> tr_tool_call_id r = ids ! i"
        "\<And>r r'. project r = Ok r' \<Longrightarrow> tr_tool_call_id r' = tr_tool_call_id r"
        using Cons.prems(3) BeFinished by auto
      have "tr_tool_call_id r = ids ! i" using finish_result_id [OF r _ _ keeps(2)] ids keeps(1) by simp
      with m have "answers (ids ! i) m r" by (auto simp: and_then_Ok_iff dest: result_message_answers)
      from Cons.IH [OF rest batch_inv_finish [OF Cons.prems(2) p this]] Cons.prems(3) show ?thesis by simp
    qed
  qed
qed

lemma prepare_batch_calls:
  "prepare_batch prepare calls = Ok ps \<Longrightarrow> ps = map (\<lambda>(call, started, a). (started, prepare call)) calls"
  by (induction calls arbitrary: ps) (auto simp: and_then_Ok_iff)

lemma start_batch_inv:
  assumes "\<And>call. tc_tool_call_id (pc_call (prepare call)) = tc_tool_call_id call"
    and "\<And>call r. pc_immediate (prepare call) = Some r \<Longrightarrow> tr_tool_call_id r = tc_tool_call_id call"
  shows "batch_inv (map (\<lambda>(call, x). tc_tool_call_id call) calls)
    (start_batch (map (\<lambda>(call, started, a). (started, prepare call)) calls))"
  using assms by (auto simp: batch_inv_def start_batch_def set_zip split: prod.splits)

lemma collected_order:
  assumes "batch_inv ids s" "bs_pending s = []"
  shows "map fst (sort_key fst (bs_completed s)) = [0..<length ids]"
proof (rule sorted_distinct_set_unique)
  show "sorted (map fst (sort_key fst (bs_completed s)))" by (rule sorted_sort_key)
  have d: "distinct (map fst (bs_completed s))" "set (map fst (bs_completed s)) = {0..<length ids}"
    using assms by (auto simp: batch_inv_def)
  show "set (map fst (sort_key fst (bs_completed s))) = set [0..<length ids]" using d(2) by simp
  show "distinct (map fst (sort_key fst (bs_completed s)))"
    using d(1) by (metis distinct_map distinct_sort set_sort)
qed simp_all

lemma collected_answers:
  assumes "batch_inv ids s" "bs_pending s = []"
  shows "list_all2 (\<lambda>i (m, r). answers i m r) ids (zip (br_messages (collect_batch s)) (br_results (collect_batch s)))"
proof -
  let ?sorted = "sort_key fst (bs_completed s)"
  note order = collected_order [OF assms]
  have len: "length ?sorted = length ids" using arg_cong [OF order, of length] by simp
  have "answers (ids ! k) m r" if "?sorted ! k = (i, m, r)" "k < length ids" for k i m r
  proof -
    have "i = k" using arg_cong [OF order, of "\<lambda>xs. xs ! k"] that len by simp
    moreover have "(i, m, r) \<in> set (bs_completed s)" using that len nth_mem by (metis set_sort)
    ultimately show ?thesis using assms(1) by (auto simp: batch_inv_def)
  qed
  then show ?thesis using len
    by (auto simp: list_all2_conv_all_nth collect_batch_def Let_def split: prod.splits)
qed

section \<open>Snapshots of running calls\<close>

definition channel_ok :: "'u update_channel \<Rightarrow> bool" where
  "channel_ok c \<longleftrightarrow> btree (uc_latest c) \<and>
     (\<forall>k revision u. map_of (uc_latest c) k = Some (revision, u) \<longrightarrow> revision \<le> uc_revision c) \<and>
     (\<forall>k. uc_consumed c k \<le> uc_revision c)"

lemma publish_channel_ok: "channel_ok c \<Longrightarrow> uc_revision c < u64_max \<Longrightarrow> channel_ok (publish_snapshot k u c)"
  by (auto simp: channel_ok_def publish_snapshot_def Let_def saturating_add_u64_def le_Suc_eq split: if_splits)

lemma publish_then_take:
  assumes "channel_ok c" "uc_revision c < u64_max"
  shows "fst (take_for k (publish_snapshot k u c)) = Some u"
proof -
  have "uc_consumed c k \<le> uc_revision c" using assms(1) by (simp add: channel_ok_def)
  with assms(2) show ?thesis by (simp add: take_for_def publish_snapshot_def Let_def saturating_add_u64_def)
qed

lemma take_for_once: "fst (take_for k (snd (take_for k c))) = None"
  by (auto simp: take_for_def split: option.splits prod.splits)

lemma take_unseen_loop_keys:
  "take_unseen_loop latest consumed = (us, consumed') \<Longrightarrow> k \<notin> set (map fst latest) \<Longrightarrow> consumed' k = consumed k"
  by (induction latest consumed arbitrary: us rule: take_unseen_loop.induct) (auto simp: Let_def split: if_splits prod.splits)

lemma take_unseen_loop_all:
  assumes "take_unseen_loop latest consumed = (us, consumed')" "distinct (map fst latest)" "(k, revision, u) \<in> set latest"
  shows "consumed' k \<ge> revision"
  using assms
proof (induction latest consumed arbitrary: us rule: take_unseen_loop.induct)
  case (2 key rev0 u0 latest consumed)
  then show ?case
    by (auto simp: Let_def fun_upd_def dest: take_unseen_loop_keys [where k = key] split: if_splits prod.splits)
qed simp

text \<open>After a sweep nothing is left to show until a call publishes again.\<close>

lemma take_unseen_empties:
  assumes "channel_ok c"
  shows "fst (take_unseen (snd (take_unseen c))) = []"
proof -
  obtain us consumed where t: "take_unseen_loop (uc_latest c) (uc_consumed c) = (us, consumed)" by (rule prod.exhaust)
  have "distinct (map fst (uc_latest c))" using assms by (simp add: channel_ok_def btree_distinct)
  from take_unseen_loop_all [OF t this] have seen: "\<forall>(k, revision, u) \<in> set (uc_latest c). consumed k \<ge> revision" by auto
  have "fst (take_unseen_loop latest consumed) = []" if "\<forall>(k, revision, u) \<in> set latest. consumed k \<ge> revision"
    for latest :: "(string \<times> nat \<times> 'a) list"
    using that by (induction latest) auto
  from this [OF seen] t show ?thesis by (auto simp: take_unseen_def split: prod.splits)
qed

section \<open>Termination of a batch\<close>

text \<open>An event that ends a call without an error.\<close>

fun clean_finish :: "batch_event \<Rightarrow> nat option" where
  "clean_finish (BeFinished i outcome c (Ok u) project (Ok a) now (Ok mid)) = Some i"
| "clean_finish _ = None"

definition clean_events :: "(nat \<Rightarrow> nat) \<Rightarrow> batch_event list \<Rightarrow> bool" where
  "clean_events started events \<longleftrightarrow> distinct (map clean_finish events) \<and>
     (\<forall>e \<in> set events. \<exists>i outcome c project now mid. e = BeFinished i outcome c (Ok ()) project (Ok ()) now (Ok mid) \<and>
        (\<forall>r. is_ok (project r)) \<and> started i \<le> now)"

lemma finish_result_total:
  assumes "\<And>r. is_ok (project r)"
  shows "\<exists>ends r. finish_result env p outcome c project = (ends, Ok r)"
  using assms by (auto simp: finish_result_def Let_def is_ok_iff)

lemma result_message_total: "started \<le> now \<Longrightarrow> \<exists>m. result_message env mid started now r = Ok m"
  by (simp add: result_message_def message_timing_try_from_def)

lemma batch_loop_total:
  assumes "clean_events (\<lambda>i. fst (the (map_of (bs_pending s) i))) events" "distinct (map fst (bs_pending s))"
    and "set (map clean_finish events) = Some ` set (map fst (bs_pending s))"
  shows "\<exists>s'. batch_loop env events s = Some (Ok s')"
  using assms
proof (induction events arbitrary: s)
  case Nil
  then show ?case by simp
next
  case (Cons event events)
  from Cons.prems(1) obtain i outcome c project now mid where
    e: "event = BeFinished i outcome c (Ok ()) project (Ok ()) now (Ok mid)" "\<And>r. is_ok (project r)"
      "fst (the (map_of (bs_pending s) i)) \<le> now"
    by (auto simp: clean_events_def)
  have "i \<in> set (map fst (bs_pending s))" using Cons.prems(3) e(1) by auto
  then obtain started p where p: "map_of (bs_pending s) i = Some (started, p)"
    by (metis map_of_eq_None_iff not_Some_eq set_map prod.collapse)
  obtain ends r where r: "finish_result env p outcome c project = (ends, Ok r)"
    using finish_result_total [of project env p outcome c] e(2) by blast
  obtain m where m: "result_message env mid started now r = Ok m"
    using result_message_total [of started now] e(3) p by fastforce
  let ?s = "s\<lparr>bs_pending := filter (\<lambda>(j, x). j \<noteq> i) (bs_pending s), bs_completed := bs_completed s @ [(i, m, r)],
    bs_terminate := (bs_terminate s \<or> ends)\<rparr>"
  have lookup: "map_of (bs_pending ?s) j = (if j = i then None else map_of (bs_pending s) j)" for j
  proof -
    have "map_of (filter (\<lambda>(j, x). j \<noteq> i) xs) j = (if j = i then None else map_of xs j)" for xs :: "(nat \<times> nat \<times> prepared_call) list"
      by (induction xs) auto
    then show ?thesis by simp
  qed
  have "clean_finish event \<notin> set (map clean_finish events)" using Cons.prems(1) by (auto simp: clean_events_def)
  then have later: "Some i \<notin> set (map clean_finish events)" using e(1) by simp
  have "clean_events (\<lambda>j. fst (the (map_of (bs_pending ?s) j))) events"
    unfolding clean_events_def
  proof (intro conjI ballI)
    show "distinct (map clean_finish events)" using Cons.prems(1) by (simp add: clean_events_def)
    fix x assume x: "x \<in> set events"
    with Cons.prems(1) obtain j outcome' c' project' now' mid' where
      "x = BeFinished j outcome' c' (Ok ()) project' (Ok ()) now' (Ok mid')" "\<forall>r. is_ok (project' r)"
      "fst (the (map_of (bs_pending s) j)) \<le> now'" by (fastforce simp: clean_events_def)
    moreover from this x later have "j \<noteq> i" by (metis clean_finish.simps(1) imageI set_map)
    ultimately show "\<exists>j outcome c project now mid. x = BeFinished j outcome c (Ok ()) project (Ok ()) now (Ok mid) \<and>
        (\<forall>r. is_ok (project r)) \<and> fst (the (map_of (bs_pending ?s) j)) \<le> now"
      using lookup by auto
  qed
  moreover have "distinct (map fst (bs_pending ?s))" using Cons.prems(2) by (simp add: distinct_filter_key)
  moreover have "set (map clean_finish events) = Some ` set (map fst (bs_pending ?s))"
  proof -
    have "set (map clean_finish events) = Some ` set (map fst (bs_pending s)) - {Some i}"
      using Cons.prems(3) [symmetric] e(1) later by (simp add: insert_Diff_if)
    then show ?thesis using fst_filter_key [of i "bs_pending s"] by auto
  qed
  ultimately obtain s' where "batch_loop env events ?s = Some (Ok s')" using Cons.IH by blast
  moreover have "bs_pending s \<noteq> []" using p by auto
  ultimately show ?case using e(1) p r m by simp
qed

section \<open>Properties\<close>

text \<open>C18: a batch that ends well has one result and one stored message for every call of the turn, in the order
  of the calls, each under the id of its call and with the same content: whatever order the calls
  finish in, and whether a call ran, failed, or was blocked by a hook, by plan mode or by its arguments.\<close>

theorem batch_answers_every_call:
  fixes calls :: "(tool_call \<times> nat \<times> (unit, kernel_error) result) list"
  defines "ids \<equiv> map (\<lambda>(call, x). tc_tool_call_id call) calls"
  assumes run: "execute_tool_batch (prepare_call shlex tools gate hooks) env calls events flushed = Some (Ok b)"
    and keeps: "list_all (event_keeps_id (\<lambda>i. ids ! i)) events"
  shows "map tr_tool_call_id (br_results b) = ids \<and> length (br_messages b) = length ids \<and>
    list_all2 (\<lambda>i (m, r). answers i m r) ids (zip (br_messages b) (br_results b))"
proof -
  let ?prepare = "prepare_call shlex tools gate hooks"
  from run obtain prepared s where prepared: "prepare_batch ?prepare calls = Ok prepared"
    and loop: "batch_loop env events (start_batch prepared) = Some (Ok s)" and b: "b = collect_batch s"
    by (auto simp: execute_tool_batch_def and_then_Ok_iff split: result.splits option.splits)
  have "batch_inv ids (start_batch prepared)"
    unfolding ids_def prepare_batch_calls [OF prepared] by (rule start_batch_inv) (auto dest: immediate_id)
  from batch_loop_inv [OF loop this keeps] have s: "batch_inv ids s" "bs_pending s = []" by auto
  have "length (br_messages b) = length ids" "length (br_results b) = length ids"
    using arg_cong [OF collected_order [OF s], of length] b by (simp_all add: collect_batch_def Let_def)
  moreover note collected_answers [OF s, folded b]
  moreover from calculation have "map tr_tool_call_id (br_results b) = ids"
    by (auto simp: list_eq_iff_nth_eq list_all2_conv_all_nth answers_def)
  ultimately show ?thesis by blast
qed

definition sample_call :: "string \<Rightarrow> string \<Rightarrow> tool_call" where
  "sample_call call_id name =
     \<lparr>tc_tool_call_id = call_id, tc_name = name, tc_arguments = JObject [], tc_invalid_arguments = None\<rparr>"

definition sample_batch_env :: batch_env where
  "sample_batch_env = \<lparr>bt_turn_id = ''t'', bt_result_hooks = [], bt_policy = (\<lambda>n. None), bt_output_json = (\<lambda>info. JNull)\<rparr>"

definition sample_finish :: "nat \<Rightarrow> (tool_result, tool_error) result \<Rightarrow> batch_event" where
  "sample_finish i outcome = BeFinished i outcome False (Ok ()) Ok (Ok ()) 9 (Ok ''m'')"

definition sample_events :: "batch_event list" where
  "sample_events = [sample_finish 1 (Err (TeNotFound ''x'')), BeCancelled,
     sample_finish 0 (Ok (error_result ''c0'' ''failed'' False))]"

definition sample_tools :: "unit tool_registry" where
  "sample_tools = [(''find'', sample_tool ''find'' Direct)]"

definition default_gate :: plan_gate where
  "default_gate = \<lparr>pg_mode = ModeDefault, pg_kernel_owned = {}\<rparr>"

theorem batch_answers_every_call_witness:
  "\<exists>b. execute_tool_batch (prepare_call (\<lambda>c. None) sample_tools default_gate []) sample_batch_env
      [(sample_call ''c0'' ''find'', 1, Ok ()), (sample_call ''c1'' ''missing'', 2, Ok ())] sample_events (Ok ()) = Some (Ok b) \<and>
    map tr_tool_call_id (br_results b) = [''c0'', ''c1''] \<and> length (br_messages b) = 2"
proof -
  let ?calls = "[(sample_call ''c0'' ''find'', 1, Ok ()), (sample_call ''c1'' ''missing'', 2, Ok ())]"
  let ?run = "execute_tool_batch (prepare_call (\<lambda>c. None) sample_tools default_gate []) sample_batch_env ?calls sample_events (Ok ())"
  have "\<exists>b. ?run = Some (Ok b)"
    by (simp add: execute_tool_batch_def start_batch_def sample_events_def sample_finish_def finish_result_def Let_def
        result_message_def message_timing_try_from_def projected_def sample_batch_env_def upt_rec)
  then obtain b where run: "?run = Some (Ok b)" by blast
  have "list_all (event_keeps_id (\<lambda>i. map (\<lambda>(call, x). tc_tool_call_id call) ?calls ! i)) sample_events"
    by (simp add: sample_events_def sample_finish_def sample_call_def error_result_def)
  from batch_answers_every_call [OF run this] run show ?thesis by (simp add: sample_call_def)
qed

text \<open>C17: in plan mode the only calls that reach a tool are those of tools the kernel itself registered, bash
  commands the read-only check accepts, and tools whose metadata promises that they only read,
  whatever tools extensions and MCP servers registered before and whatever the hooks rewrote.\<close>

theorem plan_mode_executes_only_permitted:
  assumes "owned_ok ours s0" "list_all (trusted_op ours) ops" and s: "s = fold run_catalog_op ops s0"
    and names: "\<forall>n \<in> sn_kernel_owned s. map_of (sn_mcp s) n = None" and active: "active_registry s = Ok tools"
    and p: "p = prepare_call shlex tools \<lparr>pg_mode = ModePlan, pg_kernel_owned = sn_kernel_owned s\<rparr> hooks call"
    and runs: "pc_immediate p = None"
  shows "\<exists>tool. registry_tool (tc_name call) tools = Some tool \<and>
    (ours (ag_implementation tool) \<or>
     (tc_name call = ''bash'' \<and> (\<exists>command v. json_get ''command'' (tc_arguments (pc_call p)) = Some (JString command) \<and>
        read_only shlex command = Ok v)) \<or>
     tm_read_only_hint (ag_metadata tool) = Some True)"
proof -
  have owned: "owned_ok ours s" using owned_ops [OF assms(1,2)] s by simp
  have name: "tc_name (pc_call p) = tc_name call" by (simp add: p)
  note checked = executed_call [OF runs [unfolded p], folded p]
  from checked(3) obtain tool where tool: "registry_tool (tc_name call) tools = Some tool"
    by (auto simp: registry_validate_def name split: option.splits)
  show ?thesis
  proof (cases "tc_name call \<in> sn_kernel_owned s")
    case True
    with names have "ours (ag_implementation tool)" by (intro owned_resolves [OF owned True _ active tool]) simp
    with tool show ?thesis by simp
  next
    case False
    with checked(1) tool name show ?thesis
      by (auto simp: gate_check_def elim!: as_str.elims split: if_splits option.splits result.splits json.splits bind_splits)
  qed
qed

theorem plan_mode_executes_only_permitted_witness:
  "\<exists>tools tool. active_registry (fold run_catalog_op [CatRegisterKernel (sample_tool ''exit_plan_mode'' Direct)] sample_snapshot) =
      Ok tools \<and> registry_tool ''exit_plan_mode'' tools = Some tool"
proof -
  let ?exit = "sample_tool ''exit_plan_mode'' Direct"
  let ?s = "fold run_catalog_op [CatRegisterKernel ?exit] sample_snapshot"
  have ours: "owned_ok (\<lambda>u. True) sample_snapshot"
    by (simp add: owned_ok_def catalog_ok_def btree_def sample_snapshot_def tool_state_new_def rebuild_search_index_def Let_def)
  note catalog = sample_snapshot_def tool_state_new_def rebuild_search_index_def tool_register_kernel_def tool_publish_def
    next_revision_def upsert_def sample_tool_def tool_name_def Let_def
  have active: "active_registry ?s = Ok [(''exit_plan_mode'', ?exit)]"
    by (simp add: catalog active_registry_def available_registry_def overlay_def active_names_in_def registry_subset_def
        registry_names_def exposure_of_def registry_tool_def declares_def default_selection_def search_available_def)
  have runs: "pc_immediate (prepare_call (\<lambda>c. None) [(''exit_plan_mode'', ?exit)]
      \<lparr>pg_mode = ModePlan, pg_kernel_owned = sn_kernel_owned ?s\<rparr> [] (sample_call ''c'' ''exit_plan_mode'')) = None"
    by (simp add: prepare_call_def catalog sample_call_def emit_tool_call_def gate_check_def registry_validate_def registry_tool_def)
  have "\<forall>n \<in> sn_kernel_owned ?s. map_of (sn_mcp ?s) n = None" by (simp add: catalog)
  from plan_mode_executes_only_permitted [OF ours _ refl this active refl runs] active show ?thesis
    by (simp add: sample_call_def)
qed

end
