(* ===== verification/Run_World.thy ===== *)
theory Run_World
  imports Pending_Queue Tool_Batch
begin

text \<open>
  The world one run of the kernel works in: the session it writes to, the events it publishes and the
  requests it sends, with the small steps every phase is built from (the helpers of
  \<^verbatim>\<open>crates/kernel/src/runtime/session.rs\<close> and \<^verbatim>\<open>run.rs\<close>). Each step draws what the clock, the id
  generator, the disk, the event sink and the other tasks of the session do from the environment, by
  the number of the step; nothing is assumed about these draws here.
\<close>

section \<open>Actions\<close>

text \<open>An action changes the state and answers or fails; \<open>None\<close> is an action that never returns.\<close>

type_synonym ('s, 'a) act = "'s \<Rightarrow> ('s \<times> ('a, kernel_error) result) option"

definition give :: "'a \<Rightarrow> ('s, 'a) act" where
  "give x s = Some (s, Ok x)"

definition lift :: "('a, kernel_error) result \<Rightarrow> ('s, 'a) act" where
  "lift r s = Some (s, r)"

definition seq :: "('s, 'a) act \<Rightarrow> ('a \<Rightarrow> ('s, 'b) act) \<Rightarrow> ('s, 'b) act" where
  "seq f g s =
     (case f s of
        None \<Rightarrow> None
      | Some (s', Err e) \<Rightarrow> Some (s', Err e)
      | Some (s', Ok x) \<Rightarrow> g x s')"

fun each :: "('x \<Rightarrow> ('s, unit) act) \<Rightarrow> 'x list \<Rightarrow> ('s, unit) act" where
  "each f [] = give ()"
| "each f (x # xs) = seq (f x) (\<lambda>_. each f xs)"

text \<open>A loop whose body hands on its local state or leaves with an answer.\<close>

partial_function (option) act_loop :: "('c \<Rightarrow> ('s, 'c + 'a) act) \<Rightarrow> 'c \<Rightarrow> ('s, 'a) act" where
  "act_loop body c s =
     (case body c s of
        None \<Rightarrow> None
      | Some (s', Err e) \<Rightarrow> Some (s', Err e)
      | Some (s', Ok (Inl c')) \<Rightarrow> act_loop body c' s'
      | Some (s', Ok (Inr x)) \<Rightarrow> Some (s', Ok x))"

text \<open>What holds before every round and is enough at the exit holds of the answer; a round that always returns
  and decreases a measure makes the loop return.\<close>

lemma act_loop_rule:
  assumes "act_loop body c s = Some (s', r)" "I c s"
    and step: "\<And>c s c' s'. I c s \<Longrightarrow> body c s = Some (s', Ok (Inl c')) \<Longrightarrow> I c' s'"
    and leave: "\<And>c s x s'. I c s \<Longrightarrow> body c s = Some (s', Ok (Inr x)) \<Longrightarrow> Q s' (Ok x)"
    and stop: "\<And>c s e s'. I c s \<Longrightarrow> body c s = Some (s', Err e) \<Longrightarrow> Q s' (Err e)"
  shows "Q s' r"
proof -
  have loop: "b = body \<longrightarrow> I c s \<longrightarrow> Q (fst y) (snd y)" if "act_loop b c s = Some y" for b c s y
    using that
  proof (rule act_loop.raw_induct [rotated], goal_cases)
    case (1 f b c s y)
    show ?case
    proof (intro impI)
      assume "b = body" "I c s"
      with 1 show "Q (fst y) (snd y)"
        using leave [of c s] stop [of c s] step [of c s]
        by (auto split: option.splits result.splits sum.splits prod.splits)
    qed
  qed
  from loop [OF assms(1)] assms(2) show ?thesis by simp
qed

lemma act_loop_total:
  assumes "I c s"
    and "\<And>c s. I c s \<Longrightarrow> body c s \<noteq> None"
    and "\<And>c s c' s'. I c s \<Longrightarrow> body c s = Some (s', Ok (Inl c')) \<Longrightarrow> I c' s' \<and> m c' s' < (m c s :: nat)"
  shows "\<exists>y. act_loop body c s = Some y"
  using assms(1)
proof (induction "m c s" arbitrary: c s rule: less_induct)
  case less
  from assms(2) [OF less.prems] obtain s' r where body: "body c s = Some (s', r)" by auto
  show ?case
  proof (cases "\<exists>c'. r = Ok (Inl c')")
    case True
    then obtain c' where r: "r = Ok (Inl c')" by blast
    with body assms(3) [OF less.prems] have "I c' s'" "m c' s' < m c s" by auto
    with less.hyps have "\<exists>y. act_loop body c' s' = Some y" by blast
    with body r show ?thesis by (subst act_loop.simps) simp
  next
    case False
    with body show ?thesis by (subst act_loop.simps) (auto split: result.splits sum.splits)
  qed
qed

section \<open>The world\<close>

datatype turn_outcome = TurnCompleted stop_reason | TurnCancelled | TurnFailed string

record turn_record =
  tn_run_id :: run_id
  tn_turn_id :: turn_id
  tn_started_at_ms :: nat
  tn_ended_at_ms :: nat
  tn_outcome :: turn_outcome

datatype run_event =
    EvTurnStart turn_id
  | EvMessageStart turn_id message_id
  | EvMessageDelta turn_id message_id message_delta
  | EvMessageEnd turn_id agent_message
  | EvUsage turn_id json nat
  | EvTitle turn_id string
  | EvTurnEnd turn_record
  | EvRetryScheduled turn_id retry_schedule string
  | EvRetryStart turn_id nat nat
  | EvRetryEnd turn_id nat bool "string option"
  | EvCompactionStart turn_id run_id compaction_reason
  | EvCompactionEnd turn_id run_id compaction_reason "string option"
  | EvRunEnd turn_id run_id agent_outcome
  | EvAgentSettled turn_id run_id agent_outcome json

record sent_request =
  sq_messages :: "agent_message list"
  sq_tools :: "tool_definition list"
  sq_max_tokens :: "nat option"

text \<open>A complete compaction an extension may supply; the kernel reads these fields of it.\<close>

record given_compaction =
  gc_summary :: string
  gc_retained_tail :: "agent_message list"
  gc_tokens_before :: nat

text \<open>Where a run stands: the number of the next draw, the session, and what went out so far.\<close>

record run_state =
  rw_step :: nat
  rw_session :: queue_session
  rw_events :: "run_event list"
  rw_requests :: "sent_request list"

record run_env =
  re_tenv :: transcript_env
  re_model :: model_env
  re_native_text :: "json \<Rightarrow> string"
  re_measure :: measure_env
  re_describe :: "kernel_error \<Rightarrow> string"
  re_compaction_policy :: compaction_policy
  re_retry_policy :: retry_policy
  re_retry_limit :: nat
  re_now :: "nat \<Rightarrow> nat"
  re_id :: "nat \<Rightarrow> string"
  re_write :: "nat \<Rightarrow> write_outcome"
  re_queue_io :: "nat \<Rightarrow> queue_io"
  re_emit :: "nat \<Rightarrow> (unit, kernel_error) result"
  re_others :: "nat \<Rightarrow> queue_session \<Rightarrow> queue_session"
  re_cancelled :: "nat \<Rightarrow> bool"
  re_profile :: "nat \<Rightarrow> (model_profile, kernel_error) result"
  re_preflight :: "nat \<Rightarrow> (unit, model_error) result"
  re_opened :: "nat \<Rightarrow> (unit, model_error) result"
  re_stream :: "nat \<Rightarrow> stream_item list"
  re_before_compact :: "nat \<Rightarrow> (compaction_reason \<times> bool, given_compaction before_compact_result) handler list"
  re_message_end :: "nat \<Rightarrow> (agent_message, agent_message option) handler list"

section \<open>Single steps\<close>

definition draw :: "(nat \<Rightarrow> 'a) \<Rightarrow> ('z run_state_scheme, 'a) act" where
  "draw f s = Some (s\<lparr>rw_step := Suc (rw_step s)\<rparr>, Ok (f (rw_step s)))"

text \<open>While an action waits, extensions, tools and clients may work on the session.\<close>

definition await_others :: "run_env \<Rightarrow> ('z run_state_scheme, unit) act" where
  "await_others env s =
     Some (s\<lparr>rw_step := Suc (rw_step s), rw_session := re_others env (rw_step s) (rw_session s)\<rparr>, Ok ())"

text \<open>An event counts as published when the sink took it.\<close>

definition emit :: "run_env \<Rightarrow> run_event \<Rightarrow> ('z run_state_scheme, unit) act" where
  "emit env event s =
     (let s' = s\<lparr>rw_step := Suc (rw_step s), rw_session := re_others env (rw_step s) (rw_session s)\<rparr> in
      case re_emit env (rw_step s) of
        Ok _ \<Rightarrow> Some (s'\<lparr>rw_events := rw_events s' @ [event]\<rparr>, Ok ())
      | Err e \<Rightarrow> Some (s', Err e))"

definition session_act ::
    "(queue_session \<Rightarrow> queue_session \<times> ('a, kernel_error) result) \<Rightarrow> ('z run_state_scheme, 'a) act" where
  "session_act f s = (case f (rw_session s) of (q, r) \<Rightarrow> Some (s\<lparr>rw_session := q\<rparr>, r))"

definition transcript_act ::
    "run_env \<Rightarrow> (write_outcome \<Rightarrow> nat \<Rightarrow> transcript \<Rightarrow> transcript \<times> ('a, kernel_error) result)
      \<Rightarrow> ('z run_state_scheme, 'a) act" where
  "transcript_act env f =
     seq (draw (\<lambda>k. k)) (\<lambda>k. session_act (\<lambda>q.
       case f (re_write env k) (re_now env k) (qs_transcript q) of (t, r) \<Rightarrow> (q\<lparr>qs_transcript := t\<rparr>, r)))"

definition now_ms :: "run_env \<Rightarrow> ('z run_state_scheme, nat) act" where
  "now_ms env = draw (re_now env)"

definition is_cancelled :: "run_env \<Rightarrow> ('z run_state_scheme, bool) act" where
  "is_cancelled env = draw (re_cancelled env)"

definition fresh_id :: "run_env \<Rightarrow> string \<Rightarrow> ('z run_state_scheme, string) act" where
  "fresh_id env kind = seq (draw (re_id env)) (\<lambda>text. lift
     (case id_try_from kind text of Ok i \<Rightarrow> Ok i | Err e \<Rightarrow> Err (ProtocolError (scalar_text e))))"

definition drop_answer :: "'s \<times> ('a, 'e) result \<Rightarrow> 's \<times> (unit, 'e) result" where
  "drop_answer = (\<lambda>(s, r). (s, and_then r (\<lambda>_. Ok ())))"

definition persist_message :: "run_env \<Rightarrow> agent_message \<Rightarrow> ('z run_state_scheme, unit) act" where
  "persist_message env message =
     seq (fresh_id env ''entry'') (\<lambda>entry_id.
       transcript_act env (\<lambda>w now. append_context_message (re_tenv env) w now entry_id message))"

definition record_operation ::
    "run_env \<Rightarrow> run_id \<Rightarrow> record_kind \<Rightarrow> json \<Rightarrow> ('z run_state_scheme, unit) act" where
  "record_operation env run_id kind payload =
     seq (fresh_id env ''record'') (\<lambda>record_id.
       transcript_act env (\<lambda>w now t. drop_answer (transcript_append_record (re_tenv env) w now
         \<lparr>nr_id = record_id, nr_lane = ts_lane t, nr_run_id = Some run_id, nr_kind = kind, nr_payload = payload\<rparr> t)))"

definition sync_store :: "run_env \<Rightarrow> ('z run_state_scheme, unit) act" where
  "sync_store env = transcript_act env (\<lambda>w now. transcript_sync w)"

definition timed_message ::
    "nat \<Rightarrow> nat \<Rightarrow> message_id \<Rightarrow> turn_id \<Rightarrow> message_content \<Rightarrow> (agent_message, kernel_error) result" where
  "timed_message started ended message_id turn_id content =
     (case message_timing_try_from started started ended of
        Err (s, e) \<Rightarrow> Err (ProtocolError (''message ended at '' @ decimal e @ '' before it started at '' @ decimal s))
      | Ok timing \<Rightarrow> Ok \<lparr>msg_identity = \<lparr>mi_message_id = message_id, mi_turn_id = turn_id\<rparr>,
          msg_timing = timing, msg_content = content\<rparr>)"

definition message_now :: "run_env \<Rightarrow> turn_id \<Rightarrow> message_content \<Rightarrow> ('z run_state_scheme, agent_message) act" where
  "message_now env turn_id content =
     seq (now_ms env) (\<lambda>now. seq (fresh_id env ''message'') (\<lambda>message_id.
       lift (timed_message now now message_id turn_id content)))"

definition new_turn_id :: "run_env \<Rightarrow> ('z run_state_scheme, turn_id) act" where
  "new_turn_id env = fresh_id env ''turn''"

definition message_end_hooks :: "run_env \<Rightarrow> agent_message \<Rightarrow> ('z run_state_scheme, agent_message) act" where
  "message_end_hooks env message =
     seq (draw (\<lambda>k. fst (emit_message_end (re_message_end env k) message))) (\<lambda>m.
     seq (await_others env) (\<lambda>_. give m))"

end
