(* ===== verification/Compaction_Run.thy ===== *)
theory Compaction_Run
  imports Run_World
begin

text \<open>
  Compacting a context with the model: the prompt of a summary
  (\<^verbatim>\<open>crates/kernel/src/runtime/compaction/prompt.rs\<close>), the model call with its retries, the operation
  that writes the new boundary (\<^verbatim>\<open>compaction.rs\<close>) and its terminal records (\<^verbatim>\<open>lifecycle.rs\<close>).
\<close>

section \<open>prompt.rs\<close>

definition SUMMARIZATION_PROMPT :: string where
  "SUMMARIZATION_PROMPT = join_with [newline] [
     ''The messages above are a conversation to summarize. Create a structured context checkpoint summary that another LLM will use to continue the work.'',
     [],
     ''Use this EXACT format:'',
     [],
     ''## Goal'',
     ''[What is the user trying to accomplish? Can be multiple items if the session covers different tasks.]'',
     [],
     ''## Constraints & Preferences'',
     ''- [Any constraints, preferences, or requirements mentioned by user]'',
     ''- [Or \"(none)\" if none were mentioned]'',
     [],
     ''## Progress'',
     ''### Done'',
     ''- [x] [Completed tasks/changes]'',
     [],
     ''### In Progress'',
     ''- [ ] [Current work]'',
     [],
     ''### Blocked'',
     ''- [Issues preventing progress, if any]'',
     [],
     ''## Key Decisions'',
     ''- **[Decision]**: [Brief rationale]'',
     [],
     ''## Next Steps'',
     ''1. [Ordered list of what should happen next]'',
     [],
     ''## Critical Context'',
     ''- [Any data, examples, or references needed to continue]'',
     ''- [Or \"(none)\" if not applicable]'',
     [],
     ''Keep each section concise. Preserve exact file paths, function names, and error messages.'']"

definition UPDATE_SUMMARIZATION_PROMPT :: string where
  "UPDATE_SUMMARIZATION_PROMPT = join_with [newline] [
     ''The messages above are NEW conversation messages to incorporate into the existing summary provided in <previous-summary> tags.'',
     [],
     ''Update the existing structured summary with new information. RULES:'',
     ''- PRESERVE all existing information from the previous summary'',
     ''- ADD new progress, decisions, and context from the new messages'',
     ''- UPDATE the Progress section: move items from \"In Progress\" to \"Done\" when completed'',
     ''- UPDATE \"Next Steps\" based on what was accomplished'',
     ''- PRESERVE exact file paths, function names, and error messages'',
     ''- If something is no longer relevant, you may remove it'',
     [],
     ''Use this EXACT format:'',
     [],
     ''## Goal'',
     ''[Preserve existing goals, add new ones if the task expanded]'',
     [],
     ''## Constraints & Preferences'',
     ''- [Preserve existing, add new ones discovered]'',
     [],
     ''## Progress'',
     ''### Done'',
     ''- [x] [Include previously done items AND newly completed items]'',
     [],
     ''### In Progress'',
     ''- [ ] [Current work - update based on progress]'',
     [],
     ''### Blocked'',
     ''- [Current blockers - remove if resolved]'',
     [],
     ''## Key Decisions'',
     ''- **[Decision]**: [Brief rationale] (preserve all previous, add new)'',
     [],
     ''## Next Steps'',
     ''1. [Update based on current state]'',
     [],
     ''## Critical Context'',
     ''- [Preserve important context, add new if needed]'',
     [],
     ''Keep each section concise. Preserve exact file paths, function names, and error messages.'']"

definition TURN_PREFIX_SUMMARIZATION_PROMPT :: string where
  "TURN_PREFIX_SUMMARIZATION_PROMPT = join_with [newline] [
     ''This is the PREFIX of a turn that was too large to keep. The SUFFIX (recent work) is retained.'',
     [],
     ''Summarize the prefix to provide context for the retained suffix:'',
     [],
     ''## Original Request'',
     ''[What did the user ask for in this turn?]'',
     [],
     ''## Early Progress'',
     ''- [Key decisions and work done in the prefix]'',
     [],
     ''## Context for Suffix'',
     ''- [Information needed to understand the retained recent work]'',
     [],
     ''Be concise. Focus on what's needed to understand the kept suffix.'']"

definition SUMMARIZATION_SYSTEM_PROMPT :: string where
  "SUMMARIZATION_SYSTEM_PROMPT =
     ''You are a context summarization assistant. Your task is to read a conversation between a user and an AI assistant, then produce a structured summary following the exact format specified.'' @ [newline, newline] @
     ''Do NOT continue the conversation. Do NOT respond to any questions in the conversation. ONLY output the structured summary.''"

datatype summary_template = TemplateCheckpoint | TemplateTurnPrefix

definition labelled :: "string \<Rightarrow> string \<Rightarrow> string list" where
  "labelled label text = (if text = [] then [] else [label @ text])"

definition shortened_result :: "string \<Rightarrow> string" where
  "shortened_result text =
     (if chars_count text > 2000 then
        take_chars 2000 text @ [newline, newline] @ ''[... '' @ decimal (chars_count text - 2000) @ '' more characters truncated]''
      else text)"

text \<open>What one message adds to the conversation text; \<open>json\<close> is the compact text of a value.\<close>

fun conversation_parts :: "(json \<Rightarrow> string) \<Rightarrow> message_content \<Rightarrow> string list" where
  "conversation_parts json (McUser blocks) =
     (case text_content (McUser blocks) of None \<Rightarrow> [] | Some t \<Rightarrow> [''[User]: '' @ t])"
| "conversation_parts json (McExpandedUser e) =
     (case text_content (McExpandedUser e) of None \<Rightarrow> [] | Some t \<Rightarrow> [''[User]: '' @ t])"
| "conversation_parts json (McAssistant blocks metadata native) =
     labelled ''[Assistant thinking]: ''
       (join_with [newline] (List.map_filter (\<lambda>b. case b of CbReasoning t \<Rightarrow> Some t | _ \<Rightarrow> None) blocks)) @
     labelled ''[Assistant]: '' (concat (List.map_filter block_text blocks)) @
     labelled ''[Assistant tool calls]: ''
       (join_with ''; '' (List.map_filter (\<lambda>b. case b of
            CbToolCall i n a x \<Rightarrow> Some (n @ ''('' @ json a @ '')'') | _ \<Rightarrow> None) blocks))"
| "conversation_parts json (McToolResult i blocks err details out c) =
     (case text_content (McToolResult i blocks err details out c) of
        None \<Rightarrow> [] | Some t \<Rightarrow> [''[Tool result]: '' @ shortened_result t])"
| "conversation_parts json (McBashExecution b) =
     (if be_exclude_from_context b then [] else [''[User]: '' @ bash_model_text b])"
| "conversation_parts json (McExtension e) =
     (if em_include_in_context e then labelled ''[User]: '' (concat (List.map_filter block_text (em_blocks e))) else [])"
| "conversation_parts json (McSystem blocks) = []"
| "conversation_parts json (McSlashCommand m) = []"
| "conversation_parts json (McCompactionSummary m) = []"

definition render_prompt ::
    "(json \<Rightarrow> string) \<Rightarrow> agent_message list \<Rightarrow> string option \<Rightarrow> string option \<Rightarrow> summary_template \<Rightarrow> string" where
  "render_prompt json messages previous_summary custom_instructions template =
     (let conversation = concat (map (\<lambda>m. conversation_parts json (msg_content m)) messages);
          focus = (case custom_instructions of None \<Rightarrow> [] | Some t \<Rightarrow> trim t)
      in ''<conversation>'' @ [newline] @ join_with [newline, newline] conversation @ [newline] @
         ''</conversation>'' @ [newline, newline] @
         (case template of
            TemplateCheckpoint \<Rightarrow>
              (case previous_summary of
                 Some previous \<Rightarrow> ''<previous-summary>'' @ [newline] @ previous @ [newline] @ ''</previous-summary>'' @
                   [newline, newline] @ UPDATE_SUMMARIZATION_PROMPT
               | None \<Rightarrow> SUMMARIZATION_PROMPT)
          | TemplateTurnPrefix \<Rightarrow> TURN_PREFIX_SUMMARIZATION_PROMPT) @
         (if focus = [] then [] else [newline, newline] @ ''Additional focus: '' @ focus))"

datatype summary_protocol =
    SpCompaction "string option" "string option"
  | SpTurnPrefix
  | SpBranch string

record generated_summary =
  gs_text :: string
  gs_usage :: json
  gs_stop_reason :: stop_reason

section \<open>model.rs: images for text-only models\<close>

fun adapt_blocks :: "string \<Rightarrow> bool \<Rightarrow> content_block list \<Rightarrow> content_block list" where
  "adapt_blocks placeholder previous [] = []"
| "adapt_blocks placeholder previous (CbImage d m # blocks) =
     (if previous then [] else [CbText placeholder]) @ adapt_blocks placeholder True blocks"
| "adapt_blocks placeholder previous (block # blocks) =
     block # adapt_blocks placeholder (block = CbText placeholder) blocks"

definition USER_IMAGE_PLACEHOLDER :: string where
  "USER_IMAGE_PLACEHOLDER = ''(image omitted: model does not support images)''"

definition TOOL_IMAGE_PLACEHOLDER :: string where
  "TOOL_IMAGE_PLACEHOLDER = ''(tool image omitted: model does not support images)''"

fun adapt_content :: "message_content \<Rightarrow> message_content" where
  "adapt_content (McUser blocks) = McUser (adapt_blocks USER_IMAGE_PLACEHOLDER False blocks)"
| "adapt_content (McExpandedUser e) =
     McExpandedUser (e\<lparr>sce_model_blocks := adapt_blocks USER_IMAGE_PLACEHOLDER False (sce_model_blocks e)\<rparr>)"
| "adapt_content (McToolResult i blocks err details out c) =
     McToolResult i (adapt_blocks TOOL_IMAGE_PLACEHOLDER False blocks) err details out c"
| "adapt_content (McExtension e) =
     McExtension (if em_include_in_context e
       then e\<lparr>em_blocks := adapt_blocks USER_IMAGE_PLACEHOLDER False (em_blocks e)\<rparr> else e)"
| "adapt_content content = content"

definition adapt_input :: "model_profile \<Rightarrow> agent_message list \<Rightarrow> agent_message list" where
  "adapt_input profile messages =
     (if supports (mp_input profile) ModalityImage then messages
      else map (\<lambda>m. m\<lparr>msg_content := adapt_content (msg_content m)\<rparr>) messages)"

section \<open>compaction.rs: the model call\<close>

text \<open>The summary a stream yields; \<open>None\<close> is a stream that neither ends nor is cancelled.\<close>

fun collect_summary ::
    "stream_item list \<Rightarrow> string \<Rightarrow> model_final option \<Rightarrow> (string \<times> model_final option, model_error) result option" where
  "collect_summary [] summary final = None"
| "collect_summary (SiCancelled now # items) summary final = Some (Err MeCancelled)"
| "collect_summary (SiClosed now # items) summary final = Some (Ok (summary, final))"
| "collect_summary (SiError e now # items) summary final = Some (Err e)"
| "collect_summary (SiEvent event now then_ms outcome # items) summary final =
     (case event of
        TextDelta d \<Rightarrow> collect_summary items (summary @ d) final
      | ReasoningDelta d \<Rightarrow> collect_summary items summary final
      | Finished f \<Rightarrow> collect_summary items summary (Some f)
      | StreamToolCall c \<Rightarrow> Some (Err (MeProtocol ''compaction model returned a tool call'')))"

definition finish_summary ::
    "run_env \<Rightarrow> string \<times> model_final option \<Rightarrow> (generated_summary, model_error) result" where
  "finish_summary env = (\<lambda>(streamed, final).
     case final of
       None \<Rightarrow> Err (MeProtocol ''compaction model returned no terminal usage'')
     | Some f \<Rightarrow>
         let text = trim (case fin_model_message f of None \<Rightarrow> streamed | Some native \<Rightarrow> re_native_text env native) in
         if text = [] then Err (MeProtocol ''compaction summary was empty'')
         else case fin_stop_reason f of
             StopCancelled \<Rightarrow> Err MeCancelled
           | StopError \<Rightarrow> Err (MeProtocol ''compaction model returned an error outcome'')
           | Refusal \<Rightarrow> Err (MeProtocol ''compaction model returned an error outcome'')
           | ToolUse \<Rightarrow> Err (MeProtocol ''compaction model returned a tool-use outcome'')
           | EndTurn \<Rightarrow> Ok \<lparr>gs_text = text, gs_usage = fin_usage f, gs_stop_reason = fin_stop_reason f\<rparr>
           | MaxTokens \<Rightarrow> Ok \<lparr>gs_text = text, gs_usage = fin_usage f, gs_stop_reason = fin_stop_reason f\<rparr>)"

definition summary_attempt ::
    "run_env \<Rightarrow> (unit, model_error) result \<Rightarrow> stream_item list \<Rightarrow> (generated_summary, model_error) result option" where
  "summary_attempt env opened items =
     (case opened of
        Err e \<Rightarrow> Some (Err e)
      | Ok _ \<Rightarrow> map_option (\<lambda>r. and_then r (finish_summary env)) (collect_summary items [] None))"

fun attempt_failure :: "model_error \<Rightarrow> failure option" where
  "attempt_failure (MePreflight f) = Some f"
| "attempt_failure (MeRequest f) = Some f"
| "attempt_failure (MeStream f) = Some f"
| "attempt_failure _ = None"

definition send_request ::
    "run_env \<Rightarrow> sent_request \<Rightarrow> ('z run_state_scheme, (unit, model_error) result \<times> stream_item list) act" where
  "send_request env request =
     seq (\<lambda>s. Some (s\<lparr>rw_requests := rw_requests s @ [request]\<rparr>, Ok ())) (\<lambda>_.
     seq (draw (\<lambda>k. (re_opened env k, re_stream env k))) (\<lambda>answer.
     seq (await_others env) (\<lambda>_. give answer)))"

text \<open>One round: an answer ends the loop, a failure that may be retried waits and goes round again.\<close>

definition summary_round ::
    "run_env \<Rightarrow> sent_request \<Rightarrow> retry_state \<Rightarrow> ('z run_state_scheme, retry_state + generated_summary) act" where
  "summary_round env request retry =
     seq (send_request env request) (\<lambda>(opened, items).
       case summary_attempt env opened items of
         None \<Rightarrow> (\<lambda>s. None)
       | Some (Ok g) \<Rightarrow> give (Inr g)
       | Some (Err e) \<Rightarrow>
          (case attempt_failure e of
             None \<Rightarrow> lift (Err (kernel_model_error (re_model env) e))
           | Some f \<Rightarrow>
              (case schedule f retry of
                 (retry', None) \<Rightarrow> lift (Err (kernel_model_error (re_model env) e))
               | (retry', Some planned) \<Rightarrow>
                   seq (await_others env) (\<lambda>_. seq (is_cancelled env) (\<lambda>cancelled.
                     if cancelled then lift (Err ModelCancelled) else give (Inl retry'))))))"

definition summary_request ::
    "run_env \<Rightarrow> turn_id \<Rightarrow> nat \<Rightarrow> agent_message list \<Rightarrow> summary_protocol \<Rightarrow> ('z run_state_scheme, sent_request) act" where
  "summary_request env turn_id timestamp messages protocol =
     (let json = json_string (re_measure env); reserve = cpo_reserve_tokens (re_compaction_policy env);
          (system_prompt, user_prompt, max_tokens) =
            (case protocol of
               SpCompaction previous custom \<Rightarrow>
                 (SUMMARIZATION_SYSTEM_PROMPT, Some (render_prompt json messages previous custom TemplateCheckpoint),
                  Some (saturating_mul_u64 reserve 8 div 10))
             | SpTurnPrefix \<Rightarrow>
                 (SUMMARIZATION_SYSTEM_PROMPT, Some (render_prompt json messages None None TemplateTurnPrefix),
                  Some (reserve div 2))
             | SpBranch instruction \<Rightarrow> (instruction, None, None))
      in seq (fresh_id env ''message'') (\<lambda>i.
         seq (lift (timed_message timestamp timestamp i turn_id (McSystem [CbText system_prompt]))) (\<lambda>system_message.
         seq (case user_prompt of
                None \<Rightarrow> give messages
              | Some text \<Rightarrow> seq (fresh_id env ''message'') (\<lambda>j. seq (lift (timed_message timestamp timestamp j turn_id
                  (McUser [CbText text]))) (\<lambda>m. give [m]))) (\<lambda>rest.
         seq (seq (draw (re_profile env)) lift) (\<lambda>profile.
         seq (seq (draw (re_preflight env)) (\<lambda>r. lift (case r of Ok x \<Rightarrow> Ok x
             | Err e \<Rightarrow> Err (kernel_model_error (re_model env) e)))) (\<lambda>_.
         seq (await_others env) (\<lambda>_.
         give \<lparr>sq_messages = adapt_input profile (system_message # rest), sq_tools = [],
           sq_max_tokens = map_option (\<lambda>n. min n (mp_max_output_tokens profile)) max_tokens\<rparr>)))))))"

definition generate_compaction_summary ::
    "run_env \<Rightarrow> turn_id \<Rightarrow> nat \<Rightarrow> agent_message list \<Rightarrow> summary_protocol
      \<Rightarrow> ('z run_state_scheme, generated_summary) act" where
  "generate_compaction_summary env turn_id timestamp messages protocol =
     seq (summary_request env turn_id timestamp messages protocol) (\<lambda>request.
       act_loop (summary_round env request) (new_retry_state (re_retry_policy env) (re_retry_limit env)))"

section \<open>capability.rs: records of a compaction\<close>

fun stop_reason_name :: "stop_reason \<Rightarrow> string" where
  "stop_reason_name EndTurn = ''end_turn''"
| "stop_reason_name ToolUse = ''tool_use''"
| "stop_reason_name MaxTokens = ''max_tokens''"
| "stop_reason_name Refusal = ''refusal''"
| "stop_reason_name StopError = ''error''"
| "stop_reason_name StopCancelled = ''cancelled''"

definition nullable :: "string option \<Rightarrow> json" where
  "nullable x = (case x of None \<Rightarrow> JNull | Some t \<Rightarrow> JString t)"

definition started_payload :: "entry_id option \<Rightarrow> string option \<Rightarrow> entry_id \<Rightarrow> json" where
  "started_payload source_leaf instruction entry_id = JObject
     [(''sourceLeafId'', nullable source_leaf),
      (''intent'', JObject [(''kind'', JString ''compaction''), (''customInstructions'', nullable instruction),
         (''resultEntryId'', JString entry_id)])]"

definition step_payload :: "entry_id \<Rightarrow> compaction_reason \<Rightarrow> json" where
  "step_payload entry_id reason = JObject
     [(''step'', JString ''compaction''), (''attempt'', json_u64 1), (''resultEntryId'', JString entry_id),
      (''compactionReason'', JString (compaction_reason_name reason))]"

definition usage_payload :: "entry_id \<Rightarrow> generated_summary \<Rightarrow> json" where
  "usage_payload entry_id g = JObject
     [(''cause'', JString ''compaction''), (''entryId'', JString entry_id), (''attempt'', json_u64 1),
      (''stopReason'', JString (stop_reason_name (gs_stop_reason g))), (''usage'', gs_usage g)]"

definition finished_payload :: "run_env \<Rightarrow> kernel_error option \<Rightarrow> json" where
  "finished_payload env failed = JObject
     (case failed of
        None \<Rightarrow> [(''outcome'', JString ''completed'')]
      | Some e \<Rightarrow> [(''outcome'', JString (if e = ModelCancelled then ''aborted'' else ''failed'')),
          (''error'', JObject [(''code'', JString ''compaction_failed''), (''message'', JString (re_describe env e))])])"

definition encode_compaction_details :: "compaction_details \<Rightarrow> json" where
  "encode_compaction_details d = JObject
     [(''reason'', JString (compaction_reason_name (cd_reason d))), (''runId'', JString (cd_run_id d)),
      (''turnId'', JString (cd_turn_id d)), (''startedAtMs'', encode_timestamp (cd_started_at_ms d)),
      (''endedAtMs'', encode_timestamp (cd_ended_at_ms d)), (''readFiles'', JArray (map JString (cd_read_files d))),
      (''modifiedFiles'', JArray (map JString (cd_modified_files d)))]"

definition encode_compaction :: "compaction_data \<Rightarrow> json" where
  "encode_compaction d = JObject
     ([(''summary'', JString (cp_summary d)), (''retainedTail'', JArray (cp_retained_tail d)),
       (''tokensBefore'', encode_timestamp (cp_tokens_before d))] @
      (case cp_usage d of None \<Rightarrow> [] | Some u \<Rightarrow> [(''usage'', u)]) @
      (case cp_details d of None \<Rightarrow> [] | Some x \<Rightarrow> [(''details'', encode_compaction_details x)]))"

section \<open>lifecycle.rs\<close>

definition finish_compaction ::
    "run_env \<Rightarrow> turn_id \<Rightarrow> run_id \<Rightarrow> compaction_reason \<Rightarrow> kernel_error option \<Rightarrow> ('z run_state_scheme, unit) act" where
  "finish_compaction env turn_id run_id reason failed =
     seq (record_operation env run_id OperationFinished (finished_payload env failed)) (\<lambda>_.
     seq (sync_store env) (\<lambda>_.
     emit env (EvCompactionEnd turn_id run_id reason (map_option
       (\<lambda>e. if e = ModelCancelled then ''cancelled'' else ''context compaction failed'') failed))))"

section \<open>compaction.rs: the operation\<close>

definition split_summary ::
    "run_env \<Rightarrow> turn_id \<Rightarrow> nat \<Rightarrow> compaction_preparation \<Rightarrow> string option \<Rightarrow> ('z run_state_scheme, generated_summary) act" where
  "split_summary env turn_id started prep instruction =
     (let checkpoint = generate_compaction_summary env turn_id started (cpr_summarized prep)
            (SpCompaction (cpr_previous_summary prep) instruction) in
      if cpr_turn_prefix prep = [] then checkpoint
      else
        seq (if cpr_summarized prep = [] then give None else seq checkpoint (\<lambda>g. give (Some g))) (\<lambda>history.
        seq (generate_compaction_summary env turn_id started (cpr_turn_prefix prep) SpTurnPrefix) (\<lambda>prefix.
        give \<lparr>gs_text = split_turn_summary (map_option gs_text history) (gs_text prefix),
              gs_usage = (case history of None \<Rightarrow> gs_usage prefix
                | Some h \<Rightarrow> add_usage (re_model env) (gs_usage h) (gs_usage prefix)),
              gs_stop_reason = gs_stop_reason prefix\<rparr>)))"

record compaction_result =
  cr_entry_id :: entry_id
  cr_turn_id :: turn_id
  cr_summary :: string
  cr_tokens_before :: nat
  cr_usage :: "json option"
  cr_started_at_ms :: nat
  cr_ended_at_ms :: nat

text \<open>The entry of the new boundary and the context it starts.\<close>

definition compaction_boundary ::
    "run_env \<Rightarrow> compaction_reason \<Rightarrow> run_id \<Rightarrow> turn_id \<Rightarrow> entry_id \<Rightarrow> nat \<Rightarrow> nat \<Rightarrow> file_operations
      \<Rightarrow> string \<Rightarrow> agent_message list \<Rightarrow> nat \<Rightarrow> json option
      \<Rightarrow> (new_entry \<times> agent_message list, kernel_error) result" where
  "compaction_boundary env reason run_id turn_id entry_id started ended files summary tail tokens usage =
     (let details = \<lparr>cd_reason = reason, cd_run_id = run_id, cd_turn_id = turn_id, cd_started_at_ms = started,
            cd_ended_at_ms = ended, cd_read_files = read_files files, cd_modified_files = modified_files files\<rparr>;
          data = \<lparr>cp_summary = summary, cp_retained_tail = map (encode_message (re_tenv env)) tail,
            cp_tokens_before = tokens, cp_usage = usage, cp_details = Some details\<rparr>
      in and_then (case id_try_from ''message'' (''compaction-summary-'' @ entry_id) of
             Ok i \<Rightarrow> Ok i | Err e \<Rightarrow> Err (ProtocolError (scalar_text e))) (\<lambda>message_id.
         and_then (timed_message started ended message_id turn_id (McCompactionSummary
             \<lparr>csm_entry_id = entry_id, csm_summary = summary, csm_tokens_before = tokens,
              csm_read_files = read_files files, csm_modified_files = modified_files files\<rparr>)) (\<lambda>m.
           Ok (\<lparr>ne_id = entry_id, ne_kind = EkCompaction, ne_payload = encode_compaction data\<rparr>, m # tail))))"

definition commit_boundary ::
    "run_env \<Rightarrow> new_entry \<Rightarrow> agent_message list \<Rightarrow> ('z run_state_scheme, unit) act" where
  "commit_boundary env entry context s =
     (case commit_compaction (re_tenv env) (re_write env (rw_step s)) (re_now env (rw_step s)) entry context
         (qs_transcript (rw_session s)) of
        None \<Rightarrow> None
      | Some (t, r) \<Rightarrow> Some (s\<lparr>rw_step := Suc (rw_step s), rw_session := (rw_session s)\<lparr>qs_transcript := t\<rparr>\<rparr>, r))"

definition compaction_work ::
    "run_env \<Rightarrow> compaction_reason \<Rightarrow> string option \<Rightarrow> run_id \<Rightarrow> turn_id \<Rightarrow> nat \<Rightarrow> entry_id
      \<Rightarrow> compaction_preparation \<Rightarrow> given_compaction option \<Rightarrow> ('z run_state_scheme, compaction_result) act" where
  "compaction_work env reason instruction run_id turn_id started entry_id prep given =
     seq (record_operation env run_id StepAttempt (step_payload entry_id reason)) (\<lambda>_.
     seq (case given of
            Some c \<Rightarrow> give (gc_summary c, gc_retained_tail c, gc_tokens_before c, None)
          | None \<Rightarrow>
              seq (split_summary env turn_id started prep instruction) (\<lambda>g.
              seq (record_operation env run_id UsageRecord (usage_payload entry_id g)) (\<lambda>_.
              give (gs_text g, cpr_retained_tail prep, cpr_tokens_before prep, Some (gs_usage g)))))
       (\<lambda>(text, tail, tokens, usage).
     let summary = summary_with_files (cpr_file_operations prep) text in
     seq (now_ms env) (\<lambda>ended.
     seq (lift (compaction_boundary env reason run_id turn_id entry_id started ended (cpr_file_operations prep)
         summary tail tokens usage)) (\<lambda>(entry, context).
     seq (commit_boundary env entry context) (\<lambda>_.
     give \<lparr>cr_entry_id = entry_id, cr_turn_id = turn_id, cr_summary = summary, cr_tokens_before = tokens,
           cr_usage = usage, cr_started_at_ms = started, cr_ended_at_ms = ended\<rparr>)))))"

text \<open>Every failure after the start is recorded and announced; the first error is the one reported.\<close>

definition settle_compaction ::
    "run_env \<Rightarrow> turn_id \<Rightarrow> run_id \<Rightarrow> compaction_reason \<Rightarrow> ('z run_state_scheme, 'r) act \<Rightarrow> ('z run_state_scheme, 'r) act" where
  "settle_compaction env turn_id run_id reason work s =
     (case work s of
        None \<Rightarrow> None
      | Some (s', Err e) \<Rightarrow>
         (case finish_compaction env turn_id run_id reason (Some e) s' of
            None \<Rightarrow> None
          | Some (s'', _) \<Rightarrow> Some (s'', Err e))
      | Some (s', Ok x) \<Rightarrow>
         (case finish_compaction env turn_id run_id reason None s' of
            None \<Rightarrow> None
          | Some (s'', ended) \<Rightarrow> seq (await_others env) (\<lambda>_. lift (and_then ended (\<lambda>_. Ok x))) s''))"

definition compaction_identity ::
    "run_env \<Rightarrow> (run_id \<times> turn_id \<times> nat) option \<Rightarrow> ('z run_state_scheme, run_id \<times> turn_id \<times> nat) act" where
  "compaction_identity env identity =
     (case identity of
        Some i \<Rightarrow> give i
      | None \<Rightarrow>
          seq (fresh_id env ''run'') (\<lambda>run_id. seq (new_turn_id env) (\<lambda>turn_id. seq (now_ms env) (\<lambda>now.
            give (run_id, turn_id, now)))))"

definition no_context :: kernel_error where
  "no_context = OtherError ''there is no context to compact''"

definition perform_compaction ::
    "run_env \<Rightarrow> compaction_reason \<Rightarrow> message_id option \<Rightarrow> (run_id \<times> turn_id \<times> nat) option \<Rightarrow> string option
      \<Rightarrow> ('z run_state_scheme, compaction_result) act" where
  "perform_compaction env reason excluded identity instruction =
     seq (\<lambda>s. give (fst (ts_context (qs_transcript (rw_session s)))) s) (\<lambda>history.
     seq (lift (ok_or no_context (prepare_compaction (re_measure env) (re_compaction_policy env) excluded history))) (\<lambda>prep.
     seq (compaction_identity env identity) (\<lambda>(run_id, turn_id, started).
     seq (fresh_id env ''entry'') (\<lambda>entry_id.
     seq (draw (\<lambda>k. fst (emit_session_before_compact (re_before_compact env k)
         (reason, reason = CrOverflow \<and> excluded \<noteq> None)))) (\<lambda>answer.
     seq (await_others env) (\<lambda>_.
     if bc_cancel answer then lift (Err (ExtensionBlocked ''session compaction cancelled''))
     else
       seq (\<lambda>s. give (lane_leaf (ts_store (qs_transcript (rw_session s))) (ts_lane (qs_transcript (rw_session s)))) s)
         (\<lambda>source_leaf.
       seq (record_operation env run_id OperationStarted (started_payload source_leaf instruction entry_id)) (\<lambda>_.
       seq (emit env (EvCompactionStart turn_id run_id reason)) (\<lambda>_.
       settle_compaction env turn_id run_id reason
         (compaction_work env reason instruction run_id turn_id started entry_id prep (bc_compaction answer)))))))))))"

end
