(* ===== verification/Turn_Loop.thy ===== *)
theory Turn_Loop
  imports Compaction_Run
begin

text \<open>
  One agent run, \<^verbatim>\<open>crates/kernel/src/runtime/run/turn.rs\<close>, from the hooks at its start through its turns
  to its settlement (\<^verbatim>\<open>settlement.rs\<close>, \<^verbatim>\<open>run.rs\<close>). Every phase is one action over the session and the
  continuation state of the run; the model, the tools, the hooks, the clock, the disk and the other
  tasks answer through the environment.
\<close>

section \<open>State\<close>

record turn_state = run_state +
  tl_produced :: "agent_message list"
  tl_turns :: "turn_record list"
  tl_initial_input :: "message_content option"
  tl_queued_item :: "pending_item option"
  tl_next_turn_id :: "turn_id option"
  tl_retry :: retry_state
  tl_overflow_attempted :: bool
  tl_system_override :: "string option"
  tl_before_messages :: "extension_message list option"
  tl_retained_input :: "message_content option"
  tl_user_inserted :: bool
  tl_usage :: json

text \<open>The run: its identity, the client's notice if it has one, the turn limit, and what the session's tools,
  prompt, hooks and tool batches answer at a draw.\<close>

record 'i turn_env =
  te_world :: run_env
  te_run_id :: run_id
  te_notice :: "nat option"
  te_max_turns :: "nat option"
  te_tools :: "nat \<Rightarrow> 'i tool_snapshot"
  te_mode :: "nat \<Rightarrow> session_mode"
  te_system_prompt :: "nat \<Rightarrow> 'i tool_registry \<Rightarrow> (string, kernel_error) result"
  te_before_agent :: "nat \<Rightarrow> (string \<times> string, extension_message before_agent_start_result) handler list"
  te_context_hooks :: "nat \<Rightarrow> ((tool_definition, unit) model_request, agent_message list option) handler list"
  te_observes :: bool
  te_shlex :: "string \<Rightarrow> string list option"
  te_call_hooks :: "nat \<Rightarrow> (tool_call \<times> tool_metadata option, tool_call_result) handler list"
  te_result_hooks :: "nat \<Rightarrow> (tool_call \<times> tool_result, tool_result_patch) handler list"
  te_output_json :: "tool_output_info \<Rightarrow> json"
  te_announced :: "nat \<Rightarrow> nat \<Rightarrow> nat \<times> (unit, kernel_error) result"
  te_batch :: "nat \<Rightarrow> batch_event list"
  te_flushed :: "nat \<Rightarrow> (unit, kernel_error) result"

type_synonym 'a turn_act = "(turn_state, 'a) act"

record turn_context =
  tx_turn_id :: turn_id
  tx_started_at :: nat
  tx_profile :: model_profile

record run_completion =
  rc_messages :: "agent_message list"
  rc_turns :: "turn_record list"
  rc_turn_id :: turn_id
  rc_outcome :: agent_outcome
  rc_auto_compaction :: "compaction_reason option"

definition update :: "(turn_state \<Rightarrow> turn_state) \<Rightarrow> unit turn_act" where
  "update f s = Some (f s, Ok ())"

definition produced :: "agent_message \<Rightarrow> unit turn_act" where
  "produced m = update (\<lambda>s. s\<lparr>tl_produced := tl_produced s @ [m]\<rparr>)"

definition finish :: "turn_id \<Rightarrow> agent_outcome \<Rightarrow> compaction_reason option \<Rightarrow> run_completion turn_act" where
  "finish turn_id outcome reason s =
     Some (s\<lparr>tl_produced := [], tl_turns := []\<rparr>,
       Ok \<lparr>rc_messages = tl_produced s, rc_turns = tl_turns s, rc_turn_id = turn_id, rc_outcome = outcome,
           rc_auto_compaction = reason\<rparr>)"

text \<open>An item that was claimed and not consumed goes back when its owner fails.\<close>

definition return_item :: "pending_item option \<Rightarrow> 'z run_state_scheme \<Rightarrow> 'z run_state_scheme" where
  "return_item item s =
     (case item of
        None \<Rightarrow> s
      | Some i \<Rightarrow> s\<lparr>rw_session := (rw_session s)\<lparr>qs_queue := return_claim i (qs_queue (rw_session s))\<rparr>\<rparr>)"

definition holding :: "pending_item option \<Rightarrow> ('z run_state_scheme, 'a) act \<Rightarrow> ('z run_state_scheme, 'a) act" where
  "holding item f s =
     (case f s of
        Some (s', Err e) \<Rightarrow> Some (return_item item s', Err e)
      | other \<Rightarrow> other)"

section \<open>Beginning a turn\<close>

definition turn_limit_error :: "nat \<Rightarrow> kernel_error" where
  "turn_limit_error n = OtherError (''run exceeded the maximum of '' @ decimal n @ '' turns'')"

definition model_result :: "run_env \<Rightarrow> ('a, model_error) result \<Rightarrow> ('a, kernel_error) result" where
  "model_result env r = (case r of Ok x \<Rightarrow> Ok x | Err e \<Rightarrow> Err (kernel_model_error (re_model env) e))"

definition choose_turn_id :: "'i turn_env \<Rightarrow> pending_item option \<Rightarrow> turn_id turn_act" where
  "choose_turn_id env item s =
     (case item of
        Some i \<Rightarrow> give (mi_turn_id (msg_identity (qm_message (pi_queued i)))) s
      | None \<Rightarrow>
         (case tl_next_turn_id s of
            Some t \<Rightarrow> give t (s\<lparr>tl_next_turn_id := None\<rparr>)
          | None \<Rightarrow> new_turn_id (te_world env) s))"

definition begin_turn :: "'i turn_env \<Rightarrow> pending_item option \<Rightarrow> turn_context turn_act" where
  "begin_turn env item =
     (let w = te_world env in
      seq (choose_turn_id env item) (\<lambda>turn_id.
      seq (now_ms w) (\<lambda>started.
      seq (seq (draw (re_profile w)) lift) (\<lambda>profile.
      seq (seq (draw (re_preflight w)) (\<lambda>r. lift (model_result w r))) (\<lambda>_.
      seq (emit w (EvTurnStart turn_id)) (\<lambda>_.
      seq (await_others w) (\<lambda>_.
      give \<lparr>tx_turn_id = turn_id, tx_started_at = started, tx_profile = profile\<rparr>)))))))"

section \<open>The user's message\<close>

text \<open>\<^verbatim>\<open>SessionRename::default_on\<close>: a session never named takes the title; a failed announcement is only logged.\<close>

definition rename_default :: "run_env \<Rightarrow> string \<Rightarrow> turn_id \<Rightarrow> ('z run_state_scheme, unit) act" where
  "rename_default w title turn_id =
     seq (transcript_act w (\<lambda>write now. set_default_name (re_tenv w) write title)) (\<lambda>stored.
       if stored = None then give ()
       else seq (sync_store w) (\<lambda>_. seq (\<lambda>s. case emit w (EvTitle turn_id title) s of
           Some (s', r) \<Rightarrow> Some (s', Ok ()) | None \<Rightarrow> None) (\<lambda>_. await_others w)))"

definition user_message :: "'i turn_env \<Rightarrow> turn_id \<Rightarrow> pending_item option \<Rightarrow> agent_message option turn_act" where
  "user_message env turn_id item s =
     (case item of
        Some i \<Rightarrow> give (Some (qm_message (pi_queued i))) s
      | None \<Rightarrow>
         (case tl_initial_input s of
            None \<Rightarrow> give None s
          | Some content \<Rightarrow>
              seq (message_now (te_world env) turn_id content) (\<lambda>m. give (Some m)) (s\<lparr>tl_initial_input := None\<rparr>)))"

definition notify_inserted :: "nat option \<Rightarrow> message_id \<Rightarrow> unit turn_act" where
  "notify_inserted notice mid =
     (case notice of
        None \<Rightarrow> give ()
      | Some k \<Rightarrow> session_act (\<lambda>q. (q\<lparr>qs_notices := (qs_notices q)(k := inserted mid (qs_notices q k))\<rparr>, Ok ())))"

definition queue_io_at :: "run_env \<Rightarrow> nat \<Rightarrow> queue_io" where
  "queue_io_at w k = (re_queue_io w k)\<lparr>qi_env := re_tenv w, qi_describe := re_describe w\<rparr>"

text \<open>Announcing the message and running its hooks, during all of which a claimed item is held.\<close>

definition announce_user ::
    "'i turn_env \<Rightarrow> turn_id \<Rightarrow> pending_item option \<Rightarrow> (agent_message \<times> string) option turn_act" where
  "announce_user env turn_id item =
     (let w = te_world env in
      seq (user_message env turn_id item) (\<lambda>message.
      seq (is_cancelled w) (\<lambda>cancelled.
      case message of
        None \<Rightarrow> give None
      | Some m0 \<Rightarrow>
          if te_notice env \<noteq> None \<and> item = None \<and> cancelled then lift (Err PromptCancelled)
          else
            seq (emit w (EvMessageStart turn_id (mi_message_id (msg_identity m0)))) (\<lambda>_.
            seq (await_others w) (\<lambda>_.
            seq (message_end_hooks w m0) (\<lambda>m.
            seq (is_cancelled w) (\<lambda>cancelled.
            if cancelled \<and> (item \<noteq> None \<or> te_notice env \<noteq> None) then lift (Err PromptCancelled)
            else
              seq (if item = None then give [] else fresh_id w ''record'') (\<lambda>record_id.
              give (Some (m, record_id))))))))))"

definition insert_user_message :: "'i turn_env \<Rightarrow> turn_context \<Rightarrow> pending_item option \<Rightarrow> unit turn_act" where
  "insert_user_message env turn item =
     (let w = te_world env; turn_id = tx_turn_id turn in
      seq (holding item (announce_user env turn_id item)) (\<lambda>announced.
      case announced of
        None \<Rightarrow> give ()
      | Some (m, record_id) \<Rightarrow>
          seq (case item of
                 Some i \<Rightarrow>
                   seq (draw (queue_io_at w)) (\<lambda>io. session_act (\<lambda>q.
                     consume_claimed io i m \<lparr>nr_id = record_id, nr_lane = ts_lane (qs_transcript q), nr_run_id = Some (te_run_id env),
                       nr_kind = QueueCancelled, nr_payload = cancelled_payload (item_id i) QcConsumed\<rparr> q))
               | None \<Rightarrow>
                   seq (persist_message w m) (\<lambda>_. seq (update (\<lambda>s. s\<lparr>tl_user_inserted := True\<rparr>)) (\<lambda>_.
                     notify_inserted (te_notice env) (mi_message_id (msg_identity m))))) (\<lambda>_.
          seq (case default_title (msg_content m) of None \<Rightarrow> give () | Some title \<Rightarrow> rename_default w title turn_id) (\<lambda>_.
          seq (emit w (EvMessageEnd turn_id m)) (\<lambda>_. produced m)))))"

section \<open>The request\<close>

definition failed_assistant :: "agent_message \<Rightarrow> bool" where
  "failed_assistant m \<longleftrightarrow>
     (case msg_content m of McAssistant blocks metadata native \<Rightarrow> am_error metadata \<noteq> None | _ \<Rightarrow> False)"

text \<open>The messages \<^verbatim>\<open>before_agent_start\<close> hooks add in front of the first request.\<close>

fun add_drafts :: "run_env \<Rightarrow> turn_id \<Rightarrow> extension_message list \<Rightarrow> agent_message list \<Rightarrow> agent_message list turn_act" where
  "add_drafts w turn_id [] history = give history"
| "add_drafts w turn_id (draft # drafts) history =
     seq (message_now w turn_id (McExtension draft)) (\<lambda>m0.
     seq (await_others w) (\<lambda>_.
     seq (message_end_hooks w m0) (\<lambda>m.
     seq (persist_message w m) (\<lambda>_.
     seq (emit w (EvMessageEnd turn_id m)) (\<lambda>_.
     seq (produced m) (\<lambda>_.
     add_drafts w turn_id drafts (history @ [m])))))))"

definition system_prompt_message ::
    "'i turn_env \<Rightarrow> turn_context \<Rightarrow> 'i tool_registry \<Rightarrow> agent_message turn_act" where
  "system_prompt_message env turn tools =
     seq (seq (draw (\<lambda>k. te_system_prompt env k tools)) lift) (\<lambda>text.
     seq (\<lambda>s. give (or_else (tl_system_override s) text) s) (\<lambda>shown.
     seq (lift (case id_try_from ''message'' (''system-'' @ tx_turn_id turn) of
         Ok i \<Rightarrow> Ok i | Err e \<Rightarrow> Err (ProtocolError (scalar_text e)))) (\<lambda>i.
     lift (timed_message (tx_started_at turn) (tx_started_at turn) i (tx_turn_id turn) (McSystem [CbText shown])))))"

definition take_drafts :: "extension_message list turn_act" where
  "take_drafts s = Some (s\<lparr>tl_before_messages := None\<rparr>, Ok (or_else (tl_before_messages s) []))"

definition model_request_of ::
    "'i turn_env \<Rightarrow> turn_context \<Rightarrow> (sent_request \<times> 'i tool_registry \<times> plan_gate) turn_act" where
  "model_request_of env turn =
     (let w = te_world env in
      seq (\<lambda>s. give (filter (\<lambda>m. \<not> failed_assistant m) (fst (ts_context (qs_transcript (rw_session s))))) s) (\<lambda>history0.
      seq (draw (\<lambda>k. (te_tools env k, te_mode env k))) (\<lambda>(snapshot, mode).
      seq (lift (case active_registry snapshot of Ok r \<Rightarrow> Ok r | Err e \<Rightarrow> Err (kernel_tool_error e))) (\<lambda>tools.
      seq (system_prompt_message env turn tools) (\<lambda>system_message.
      seq take_drafts (\<lambda>drafts.
      seq (add_drafts w (tx_turn_id turn) drafts history0) (\<lambda>history.
      seq (draw (\<lambda>k. fst (emit_context (te_context_hooks env k)
          \<lparr>mr_messages = system_message # history, mr_tools = definitions tools, mr_options = ()\<rparr>))) (\<lambda>request.
      seq (await_others w) (\<lambda>_.
      give (\<lparr>sq_messages = adapt_input (tx_profile turn) (mr_messages request), sq_tools = mr_tools request,
             sq_max_tokens = None\<rparr>,
        tools, \<lparr>pg_mode = mode, pg_kernel_owned = sn_kernel_owned snapshot\<rparr>))))))))))"

section \<open>The assistant\<close>

definition stream_turn ::
    "'i turn_env \<Rightarrow> turn_context \<Rightarrow> sent_request \<Rightarrow> (message_id \<times> attempt_result) turn_act" where
  "stream_turn env turn request =
     (let w = te_world env; turn_id = tx_turn_id turn in
      seq (fresh_id w ''message'') (\<lambda>assistant_id.
      seq (now_ms w) (\<lambda>timestamp.
      seq (emit w (EvMessageStart turn_id assistant_id)) (\<lambda>_.
      seq (await_others w) (\<lambda>_.
      seq (send_request w request) (\<lambda>(opened, items).
      seq (now_ms w) (\<lambda>now s.
      case stream_assistant (re_model w) (te_observes env)
          (attempt_new assistant_id turn_id (tx_profile turn) timestamp) (Ok ()) opened now items of
        (deltas, None) \<Rightarrow> None
      | (deltas, Some r) \<Rightarrow>
          Some (s\<lparr>rw_events := rw_events s @ map (EvMessageDelta turn_id assistant_id) deltas\<rparr>,
            and_then r (\<lambda>a. Ok (assistant_id, a))))))))))"

definition settle_turn ::
    "'i turn_env \<Rightarrow> turn_context \<Rightarrow> message_id \<Rightarrow> attempt_result \<Rightarrow> (agent_message \<times> settled_assistant) turn_act" where
  "settle_turn env turn assistant_id attempt =
     (let w = te_world env in
      seq (draw (\<lambda>k. re_message_end w k)) (\<lambda>handlers.
      seq (\<lambda>s. case settle_assistant (re_model w) (re_measure w) (re_compaction_policy w) (tx_profile turn)
            (\<lambda>m. fst (emit_message_end handlers m)) assistant_id attempt (tl_usage s) of
          (usage, r) \<Rightarrow> Some (s\<lparr>tl_usage := usage\<rparr>, r)) (\<lambda>settled.
      seq (await_others w) (\<lambda>_. give settled))))"

definition publish_assistant :: "'i turn_env \<Rightarrow> turn_context \<Rightarrow> agent_message \<Rightarrow> json \<Rightarrow> unit turn_act" where
  "publish_assistant env turn assistant usage =
     (let w = te_world env in
      seq (persist_message w assistant) (\<lambda>_.
      seq (produced assistant) (\<lambda>_.
      seq (emit w (EvMessageEnd (tx_turn_id turn) assistant)) (\<lambda>_.
      emit w (EvUsage (tx_turn_id turn) usage (mp_context_tokens (tx_profile turn)))))))"

section \<open>Tools\<close>

definition empty_batch :: batch_result where
  "empty_batch = \<lparr>br_messages = [], br_results = [], br_cancelled = False, br_terminate = False\<rparr>"

definition turn_batch ::
    "'i turn_env \<Rightarrow> turn_context \<Rightarrow> tool_call list \<Rightarrow> 'i tool_registry \<Rightarrow> plan_gate \<Rightarrow> batch_result turn_act" where
  "turn_batch env turn calls tools gate =
     seq (draw (\<lambda>k. k)) (\<lambda>k s.
       let announced = map (\<lambda>(j, call). (call, te_announced env k j)) (enumerate 0 calls) in
       case execute_tool_batch (prepare_call (te_shlex env) tools gate (te_call_hooks env k))
           \<lparr>bt_turn_id = tx_turn_id turn, bt_result_hooks = te_result_hooks env k,
            bt_policy = (\<lambda>n. map_option (\<lambda>t. tm_output_policy (ag_metadata t)) (registry_tool n tools)),
            bt_output_json = te_output_json env\<rparr>
           announced (te_batch env k) (te_flushed env k) of
         None \<Rightarrow> None
       | Some r \<Rightarrow> seq (await_others (te_world env)) (\<lambda>_. lift r) s)"

fun keep_cancelled :: "bool \<Rightarrow> message_content \<Rightarrow> message_content" where
  "keep_cancelled cancelled (McToolResult i blocks err details out c) =
     McToolResult i blocks err details out (c \<or> cancelled)"
| "keep_cancelled cancelled content = content"

fun is_cancelled_result :: "message_content \<Rightarrow> bool" where
  "is_cancelled_result (McToolResult i blocks err details out c) \<longleftrightarrow> c"
| "is_cancelled_result _ \<longleftrightarrow> False"

definition publish_result_message :: "run_env \<Rightarrow> turn_id \<Rightarrow> agent_message \<Rightarrow> unit turn_act" where
  "publish_result_message w turn_id m0 =
     seq (emit w (EvMessageStart turn_id (mi_message_id (msg_identity m0)))) (\<lambda>_.
     seq (await_others w) (\<lambda>_.
     seq (message_end_hooks w m0) (\<lambda>m1.
     let m = m1\<lparr>msg_content := keep_cancelled (is_cancelled_result (msg_content m0)) (msg_content m1)\<rparr> in
     seq (persist_message w m) (\<lambda>_.
     seq (produced m) (\<lambda>_.
     emit w (EvMessageEnd turn_id m))))))"

definition run_tools ::
    "'i turn_env \<Rightarrow> turn_context \<Rightarrow> settled_assistant \<Rightarrow> 'i tool_registry \<Rightarrow> plan_gate
      \<Rightarrow> (settled_assistant \<times> bool) turn_act" where
  "run_tools env turn settled tools gate =
     seq (if sa_cancelled settled then give empty_batch
          else turn_batch env turn (sa_tool_calls settled) tools gate) (\<lambda>batch.
     seq (each (publish_result_message (te_world env) (tx_turn_id turn)) (br_messages batch)) (\<lambda>_.
     give (settled\<lparr>sa_cancelled := (sa_cancelled settled \<or> br_cancelled batch)\<rparr>, br_terminate batch)))"

section \<open>Recording the turn\<close>

fun encode_turn_outcome :: "turn_outcome \<Rightarrow> json" where
  "encode_turn_outcome (TurnCompleted stop) =
     JObject [(''type'', JString ''completed''), (''stop_reason'', JString (stop_reason_name stop))]"
| "encode_turn_outcome TurnCancelled = JObject [(''type'', JString ''cancelled'')]"
| "encode_turn_outcome (TurnFailed m) = JObject [(''type'', JString ''failed''), (''message'', JString m)]"

definition encode_turn_record :: "turn_record \<Rightarrow> json" where
  "encode_turn_record t = JObject
     [(''run_id'', JString (tn_run_id t)), (''turn_id'', JString (tn_turn_id t)),
      (''started_at_ms'', encode_timestamp (tn_started_at_ms t)), (''ended_at_ms'', encode_timestamp (tn_ended_at_ms t)),
      (''outcome'', encode_turn_outcome (tn_outcome t))]"

definition settled_outcome :: "settled_assistant \<Rightarrow> turn_outcome" where
  "settled_outcome settled =
     (if sa_cancelled settled then TurnCancelled
      else case sa_failure settled of
        Some f \<Rightarrow> TurnFailed (mf_summary f)
      | None \<Rightarrow> TurnCompleted (sa_stop_reason settled))"

definition record_turn :: "'i turn_env \<Rightarrow> turn_context \<Rightarrow> settled_assistant \<Rightarrow> unit turn_act" where
  "record_turn env turn settled =
     (let w = te_world env in
      seq (now_ms w) (\<lambda>ended.
      if ended < tx_started_at turn then lift (Err (ProtocolError (''turn ended at '' @ decimal ended @
        '' before it started at '' @ decimal (tx_started_at turn))))
      else
        let t = \<lparr>tn_run_id = te_run_id env, tn_turn_id = tx_turn_id turn, tn_started_at_ms = tx_started_at turn,
                 tn_ended_at_ms = ended, tn_outcome = settled_outcome settled\<rparr> in
        seq (record_operation w (te_run_id env) StepAttempt (encode_turn_record t)) (\<lambda>_.
        seq (sync_store w) (\<lambda>_.
        seq (emit w (EvTurnEnd t)) (\<lambda>_.
        seq (await_others w) (\<lambda>_.
        seq (sync_store w) (\<lambda>_.
        update (\<lambda>s. s\<lparr>tl_turns := tl_turns s @ [t]\<rparr>))))))))"

section \<open>The next action\<close>

definition go_on :: "run_completion option turn_act" where
  "go_on = give None"

definition complete :: "turn_id \<Rightarrow> agent_outcome \<Rightarrow> compaction_reason option \<Rightarrow> run_completion option turn_act" where
  "complete turn_id outcome reason = seq (finish turn_id outcome reason) (\<lambda>c. give (Some c))"

text \<open>A failed turn asks for a retry; the state keeps the budget.\<close>

definition ask_retry :: "settled_assistant \<Rightarrow> (failure \<times> retry_schedule) option turn_act" where
  "ask_retry settled s =
     (case sa_failure settled of
        None \<Rightarrow> give None s
      | Some f \<Rightarrow>
         (case schedule f (tl_retry s) of
            (retry, None) \<Rightarrow> give None (s\<lparr>tl_retry := retry\<rparr>)
          | (retry, Some planned) \<Rightarrow> give (Some (f, planned)) (s\<lparr>tl_retry := retry\<rparr>)))"

definition retry_turn ::
    "'i turn_env \<Rightarrow> turn_id \<Rightarrow> failure \<Rightarrow> retry_schedule \<Rightarrow> run_completion option turn_act" where
  "retry_turn env turn_id f planned =
     (let w = te_world env in
      seq (emit w (EvRetryScheduled turn_id planned (mf_summary f))) (\<lambda>_.
      seq (await_others w) (\<lambda>_.
      seq (is_cancelled w) (\<lambda>cancelled.
      if cancelled then
        seq (emit w (EvRetryEnd turn_id (rs_attempt planned) False (Some ''Retry cancelled''))) (\<lambda>_.
        complete turn_id RunCancelled None)
      else
        seq (new_turn_id w) (\<lambda>next_id.
        seq (emit w (EvRetryStart next_id (rs_attempt planned) (rs_max_attempts planned))) (\<lambda>_.
        seq (update (\<lambda>s. s\<lparr>tl_next_turn_id := Some next_id\<rparr>)) (\<lambda>_. go_on)))))))"

text \<open>A retry sequence that ends is announced; a success gives the budget back.\<close>

definition end_retries :: "'i turn_env \<Rightarrow> turn_id \<Rightarrow> settled_assistant \<Rightarrow> unit turn_act" where
  "end_retries env turn_id settled s =
     (let attempts = rt_attempts (tl_retry s) in
      if attempts = 0 then give () s
      else case sa_failure settled of
        None \<Rightarrow> seq (emit (te_world env) (EvRetryEnd turn_id attempts True None))
            (\<lambda>_. update (\<lambda>s. s\<lparr>tl_retry := reset_retries (tl_retry s)\<rparr>)) s
      | Some f \<Rightarrow> emit (te_world env) (EvRetryEnd turn_id attempts False (Some (mf_summary f))) s)"

definition claim_next :: "bool \<Rightarrow> unit turn_act" where
  "claim_next allow_follow_up s =
     (case claim_next_or_close allow_follow_up (qs_queue (rw_session s)) of
        (q, item) \<Rightarrow> Some (s\<lparr>rw_session := (rw_session s)\<lparr>qs_queue := q\<rparr>, tl_queued_item := item\<rparr>, Ok ()))"

definition auto_compaction :: "'i turn_env \<Rightarrow> turn_context \<Rightarrow> settled_assistant \<Rightarrow> turn_state \<Rightarrow> compaction_reason option" where
  "auto_compaction env turn settled s =
     (if sa_overflow_recovery settled = Some CompactOnly then Some CrOverflow
      else if should_compact (mp_context_tokens (tx_profile turn)) (re_compaction_policy (te_world env))
          (usage_estimate (re_measure (te_world env)) (fst (ts_context (qs_transcript (rw_session s)))))
      then Some CrThreshold else None)"

definition next_action ::
    "'i turn_env \<Rightarrow> turn_context \<Rightarrow> settled_assistant \<Rightarrow> bool \<Rightarrow> run_completion option turn_act" where
  "next_action env turn settled continue_for_tools =
     (let w = te_world env; turn_id = tx_turn_id turn in
      if sa_cancelled settled then complete turn_id RunCancelled None
      else
        seq (\<lambda>s. give (sa_overflow_recovery settled = Some CompactAndRetry \<and> \<not> tl_overflow_attempted s) s) (\<lambda>recover.
        if recover then
          seq (update (\<lambda>s. s\<lparr>tl_overflow_attempted := True\<rparr>)) (\<lambda>_.
          seq (perform_compaction w CrOverflow (Some (sa_assistant_id settled)) None None) (\<lambda>_.
          seq (new_turn_id w) (\<lambda>next_id.
          seq (update (\<lambda>s. s\<lparr>tl_next_turn_id := Some next_id\<rparr>)) (\<lambda>_. go_on))))
        else
          seq (ask_retry settled) (\<lambda>planned.
          case planned of
            Some (f, p) \<Rightarrow> retry_turn env turn_id f p
          | None \<Rightarrow>
              seq (end_retries env turn_id settled) (\<lambda>_.
              case sa_failure settled of
                Some f \<Rightarrow> complete turn_id (RunFailed (mf_summary f)) None
              | None \<Rightarrow>
                  seq (claim_next (\<not> continue_for_tools)) (\<lambda>_.
                  seq (\<lambda>s. give (tl_queued_item s) s) (\<lambda>item.
                  if continue_for_tools \<or> item \<noteq> None then go_on
                  else seq (\<lambda>s. give (auto_compaction env turn settled s) s) (\<lambda>reason.
                    complete turn_id RunSucceeded reason)))))))"

section \<open>A turn, and the loop\<close>

definition take_item :: "pending_item option turn_act" where
  "take_item s = Some (s\<lparr>tl_queued_item := None\<rparr>, Ok (tl_queued_item s))"

definition check_limit :: "'i turn_env \<Rightarrow> unit turn_act" where
  "check_limit env s =
     (case te_max_turns env of
        Some n \<Rightarrow> lift (if length (tl_turns s) \<ge> n then Err (turn_limit_error n) else Ok ()) s
      | None \<Rightarrow> give () s)"

definition run_turn :: "'i turn_env \<Rightarrow> run_completion option turn_act" where
  "run_turn env =
     seq take_item (\<lambda>item.
     seq (holding item (seq (check_limit env) (\<lambda>_. begin_turn env item))) (\<lambda>turn.
     seq (insert_user_message env turn item) (\<lambda>_.
     seq (model_request_of env turn) (\<lambda>(request, tools, gate).
     seq (stream_turn env turn request) (\<lambda>(assistant_id, attempt).
     seq (settle_turn env turn assistant_id attempt) (\<lambda>(assistant, settled0).
     seq (publish_assistant env turn assistant (sa_usage settled0)) (\<lambda>_.
     seq (run_tools env turn settled0 tools gate) (\<lambda>(settled, terminated).
     seq (record_turn env turn settled) (\<lambda>_.
     next_action env turn settled (\<not> terminated \<and> sa_tool_calls settled0 \<noteq> []))))))))))"

definition turn_round :: "'i turn_env \<Rightarrow> unit \<Rightarrow> (unit + run_completion) turn_act" where
  "turn_round env c = seq (run_turn env) (\<lambda>completion. give (case completion of None \<Rightarrow> Inl () | Some x \<Rightarrow> Inr x))"

definition start_agent :: "'i turn_env \<Rightarrow> string \<Rightarrow> unit turn_act" where
  "start_agent env prompt =
     (let w = te_world env in
      seq (draw (te_tools env)) (\<lambda>snapshot.
      seq (lift (case active_registry snapshot of Ok r \<Rightarrow> Ok r | Err e \<Rightarrow> Err (kernel_tool_error e))) (\<lambda>tools.
      seq (seq (draw (\<lambda>k. te_system_prompt env k tools)) lift) (\<lambda>text.
      seq (draw (\<lambda>k. fst (emit_before_agent_start (te_before_agent env k) prompt text))) (\<lambda>answer.
      seq (await_others w) (\<lambda>_.
      seq (update (\<lambda>s. s\<lparr>tl_system_override := ba_system_prompt answer, tl_before_messages := Some (ba_messages answer)\<rparr>)) (\<lambda>_.
      seq (await_others w) (\<lambda>_.
      seq (seq (draw (re_profile w)) lift) (\<lambda>profile.
      seq (\<lambda>s. give (pre_prompt_compaction (re_measure w) (re_compaction_policy w) profile
          (fst (ts_context (qs_transcript (rw_session s))))) s) (\<lambda>planned.
      case planned of
        None \<Rightarrow> give ()
      | Some (reason, excluded) \<Rightarrow> seq (perform_compaction w reason excluded None None) (\<lambda>_. give ())))))))))))"

definition execute :: "'i turn_env \<Rightarrow> string \<Rightarrow> run_completion turn_act" where
  "execute env prompt = seq (start_agent env prompt) (\<lambda>_. act_loop (turn_round env) ())"

end
