(* ===== verification/Run_Settlement.thy ===== *)
theory Run_Settlement
  imports Turn_Loop
begin

text \<open>
  The end of a run, \<^verbatim>\<open>crates/kernel/src/runtime/run/settlement.rs\<close> with \<^verbatim>\<open>RunScope::settle\<close> of \<^verbatim>\<open>turn.rs\<close>, and
  the run as a whole from its accepted input on (\<^verbatim>\<open>run.rs\<close>): the terminal record, the terminal events,
  the answers to everybody who waits, and what happens to input that never reached history.
\<close>

section \<open>settlement.rs\<close>

fun outcome_payload :: "agent_outcome \<Rightarrow> json" where
  "outcome_payload RunSucceeded = JObject [(''status'', JString ''completed'')]"
| "outcome_payload RunCancelled = JObject [(''status'', JString ''cancelled'')]"
| "outcome_payload (RunFailed m) = JObject [(''status'', JString ''failed''), (''error'', JString m)]"

definition settle_accepted :: "submission_answer \<Rightarrow> queue_session \<Rightarrow> queue_session" where
  "settle_accepted answer q =
     q\<lparr>qs_accepted := [], qs_receipts := fold (\<lambda>k r. r(k := resolve answer (r k))) (qs_accepted q) (qs_receipts q)\<rparr>"

definition run_settlement ::
    "run_env \<Rightarrow> run_id \<Rightarrow> turn_id \<Rightarrow> agent_outcome \<Rightarrow> json \<Rightarrow> agent_message list \<Rightarrow> compaction_reason option
      \<Rightarrow> ('z run_state_scheme, submission_answer) act" where
  "run_settlement w run_id turn_id outcome usage messages afterwards =
     (let answer = submission_answer_from outcome messages in
      seq (record_operation w run_id OperationFinished (outcome_payload outcome)) (\<lambda>_.
      seq (sync_store w) (\<lambda>_.
      seq (emit w (EvRunEnd turn_id run_id outcome)) (\<lambda>_.
      seq (await_others w) (\<lambda>_.
      seq (case afterwards of
             None \<Rightarrow> give ()
           | Some reason \<Rightarrow> seq (perform_compaction w reason None None None) (\<lambda>_. give ())) (\<lambda>_.
      seq (sync_store w) (\<lambda>_.
      seq (emit w (EvAgentSettled turn_id run_id outcome usage)) (\<lambda>_.
      seq (await_others w) (\<lambda>_.
      seq (sync_store w) (\<lambda>_.
      seq (session_act (\<lambda>q. (settle_accepted answer q, Ok ()))) (\<lambda>_.
      give answer)))))))))))"

section \<open>run.rs: input that was retained\<close>

record run_result =
  rr_run_id :: run_id
  rr_messages :: "agent_message list"
  rr_turns :: "turn_record list"

definition settle_retained ::
    "'i turn_env \<Rightarrow> turn_id \<Rightarrow> message_content \<Rightarrow> (run_result \<times> submission_answer option) turn_act" where
  "settle_retained env turn_id content =
     (let w = te_world env in
      seq (message_now w turn_id content) (\<lambda>m.
      seq (emit w (EvMessageStart turn_id (mi_message_id (msg_identity m)))) (\<lambda>_.
      seq (persist_message w m) (\<lambda>_.
      seq (emit w (EvMessageEnd turn_id m)) (\<lambda>_.
      seq (run_settlement w (te_run_id env) turn_id RunCancelled (default_usage (re_model w)) [m] None) (\<lambda>answer.
      give (\<lparr>rr_run_id = te_run_id env, rr_messages = [m], rr_turns = []\<rparr>, Some answer)))))))"

section \<open>turn.rs: settling the run\<close>

definition drop_claim :: "unit turn_act" where
  "drop_claim s = Some (return_item (tl_queued_item s) (s\<lparr>tl_queued_item := None\<rparr>), Ok ())"

definition close_run_queue :: "unit turn_act" where
  "close_run_queue = session_act (\<lambda>q. (q\<lparr>qs_queue := close_queue (qs_queue q)\<rparr>, Ok ()))"

definition withdraw_rest :: "run_env \<Rightarrow> unit turn_act" where
  "withdraw_rest w = seq (draw (queue_io_at w)) (\<lambda>io. session_act (withdraw_pending io))"

fun succeeded :: "(run_completion, kernel_error) result \<Rightarrow> bool" where
  "succeeded (Ok c) \<longleftrightarrow> rc_outcome c = RunSucceeded"
| "succeeded (Err e) \<longleftrightarrow> False"

definition settle_run ::
    "'i turn_env \<Rightarrow> turn_id \<Rightarrow> (run_completion, kernel_error) result
      \<Rightarrow> (run_result \<times> submission_answer option) turn_act" where
  "settle_run env first_turn_id execution =
     (let w = te_world env; run_id = te_run_id env in
      seq drop_claim (\<lambda>_.
      seq close_run_queue (\<lambda>_.
      seq (if succeeded execution then give () else withdraw_rest w) (\<lambda>_.
      seq (\<lambda>s. give (tl_usage s, tl_user_inserted s, tl_retained_input s) s) (\<lambda>(usage, user_inserted, retained).
      case execution of
        Ok c \<Rightarrow>
          seq (run_settlement w run_id (rc_turn_id c) (rc_outcome c) usage (rc_messages c) (rc_auto_compaction c)) (\<lambda>answer.
          give (\<lparr>rr_run_id = run_id, rr_messages = rc_messages c, rr_turns = rc_turns c\<rparr>, Some answer))
      | Err e \<Rightarrow>
          if \<not> user_inserted \<and> is_cancellation e then
            (case retained of
               Some content \<Rightarrow> settle_retained env first_turn_id content
             | None \<Rightarrow>
                 seq (run_settlement w run_id first_turn_id RunCancelled usage [] None) (\<lambda>_. lift (Err PromptCancelled)))
          else
            seq (run_settlement w run_id first_turn_id (RunFailed (re_describe w e)) usage [] None) (\<lambda>_. lift (Err e)))))))"

section \<open>run.rs: the run\<close>

text \<open>\<^verbatim>\<open>insert_handled\<close>: input an extension consumed is shown to its client and never stored.\<close>

definition insert_handled :: "'i turn_env \<Rightarrow> turn_id \<Rightarrow> string \<Rightarrow> nat \<Rightarrow> unit turn_act" where
  "insert_handled env turn_id text notice =
     (let w = te_world env in
      seq (sync_store w) (\<lambda>_.
      seq (message_now w turn_id (McUser [CbText text])) (\<lambda>m.
      seq (emit w (EvMessageStart turn_id (mi_message_id (msg_identity m)))) (\<lambda>_.
      seq (is_cancelled w) (\<lambda>cancelled.
      if cancelled then lift (Err PromptCancelled)
      else
        seq (emit w (EvMessageEnd turn_id m)) (\<lambda>_.
        notify_inserted (Some notice) (mi_message_id (msg_identity m))))))))"

text \<open>The text the input hooks leave, or \<open>None\<close> when one of them handled it; \<open>hooks\<close> are their handlers.\<close>

definition transform_text ::
    "'i turn_env \<Rightarrow> (nat \<Rightarrow> (string, input_result) handler list) \<Rightarrow> bool \<Rightarrow> turn_id \<Rightarrow> string \<Rightarrow> string option turn_act" where
  "transform_text env hooks input_processed first_turn_id text =
     (let w = te_world env in
      seq (if input_processed then give InputContinue
           else seq (draw (\<lambda>k. fst (emit_input (hooks k) text))) (\<lambda>r. seq (await_others w) (\<lambda>_. give r))) (\<lambda>r.
      case r of
        InputContinue \<Rightarrow> give (Some text)
      | InputTransform t \<Rightarrow> give (Some t)
      | InputHandled \<Rightarrow>
          seq (case te_notice env of
                 Some k \<Rightarrow> insert_handled env first_turn_id text k
               | None \<Rightarrow> sync_store w) (\<lambda>_. give None)))"

definition started_loop ::
    "'i turn_env \<Rightarrow> turn_id \<Rightarrow> message_content \<Rightarrow> run_state \<Rightarrow> turn_state" where
  "started_loop env first_turn_id content s =
     run_state.extend s
       \<lparr>tl_produced = [], tl_turns = [], tl_initial_input = Some content, tl_queued_item = None,
        tl_next_turn_id = Some first_turn_id,
        tl_retry = new_retry_state (re_retry_policy (te_world env)) (re_retry_limit (te_world env)),
        tl_overflow_attempted = False, tl_system_override = None, tl_before_messages = None,
        tl_retained_input = (if te_notice env = None then Some content else None), tl_user_inserted = False,
        tl_usage = default_usage (re_model (te_world env))\<rparr>"

definition catching :: "('s, 'a) act \<Rightarrow> ('s, ('a, kernel_error) result) act" where
  "catching f s = map_option (\<lambda>(s', r). (s', Ok r)) (f s)"

text \<open>From the expanded input on: the boundary record, the open queue, the turns and the settlement.\<close>

definition run_agent ::
    "'i turn_env \<Rightarrow> turn_id \<Rightarrow> string \<Rightarrow> (run_result \<times> submission_answer option) turn_act" where
  "run_agent env first_turn_id prompt =
     (let w = te_world env in
      seq (record_operation w (te_run_id env) OperationStarted (JObject [(''operation'', JString ''agent'')])) (\<lambda>_.
      seq (is_cancelled w) (\<lambda>cancelled.
      seq (session_act (\<lambda>q. (q\<lparr>qs_queue := open_queue cancelled (qs_queue q)\<rparr>, Ok ()))) (\<lambda>_.
      seq (catching (execute env prompt)) (\<lambda>execution.
      settle_run env first_turn_id execution)))))"

end
