(* ===== verification/Run_Rules.thy ===== *)
theory Run_Rules
  imports Run_Settlement Queue_Recovery
begin

text \<open>
  How to reason about the phases of a run. An action keeps an invariant and a relation between the states
  before and after it when each of its steps does; the locales below state once what the single steps
  have to keep, and derive it for every phase that is composed of them.
\<close>

section \<open>Actions that keep a relation\<close>

definition keeps :: "('s \<Rightarrow> bool) \<Rightarrow> ('s \<Rightarrow> 's \<Rightarrow> bool) \<Rightarrow> ('s, 'a) act \<Rightarrow> bool" where
  "keeps I R f \<longleftrightarrow> (\<forall>s s' r. I s \<longrightarrow> f s = Some (s', r) \<longrightarrow> I s' \<and> R s s')"

named_theorems keeps_intros \<open>composition of actions that keep a relation\<close>

lemma keepsI: "(\<And>s s' r. I s \<Longrightarrow> f s = Some (s', r) \<Longrightarrow> I s' \<and> R s s') \<Longrightarrow> keeps I R f"
  by (auto simp: keeps_def)

lemma keepsD: "keeps I R f \<Longrightarrow> I s \<Longrightarrow> f s = Some (s', r) \<Longrightarrow> I s' \<and> R s s'"
  by (auto simp: keeps_def)

lemma keeps_if [keeps_intros]: "(b \<Longrightarrow> keeps I R f) \<Longrightarrow> (\<not> b \<Longrightarrow> keeps I R g) \<Longrightarrow> keeps I R (if b then f else g)"
  by simp

lemma keeps_option [keeps_intros]:
  "(x = None \<Longrightarrow> keeps I R f) \<Longrightarrow> (\<And>y. x = Some y \<Longrightarrow> keeps I R (g y)) \<Longrightarrow> keeps I R (case x of None \<Rightarrow> f | Some y \<Rightarrow> g y)"
  by (cases x) simp_all

lemma keeps_result [keeps_intros]:
  "(\<And>y. x = Ok y \<Longrightarrow> keeps I R (f y)) \<Longrightarrow> (\<And>e. x = Err e \<Longrightarrow> keeps I R (g e)) \<Longrightarrow>
    keeps I R (case x of Ok y \<Rightarrow> f y | Err e \<Rightarrow> g e)"
  by (cases x) simp_all

lemma keeps_prod [keeps_intros]: "(\<And>a b. p = (a, b) \<Longrightarrow> keeps I R (f a b)) \<Longrightarrow> keeps I R (case p of (a, b) \<Rightarrow> f a b)"
  by (cases p) simp

text \<open>What the answers of an action satisfy.\<close>

definition gives :: "('a \<Rightarrow> bool) \<Rightarrow> ('s, 'a) act \<Rightarrow> bool" where
  "gives P f \<longleftrightarrow> (\<forall>s s' x. f s = Some (s', Ok x) \<longrightarrow> P x)"

lemma givesD: "gives P f \<Longrightarrow> f s = Some (s', Ok x) \<Longrightarrow> P x"
  by (simp add: gives_def)

lemma gives_give: "P x \<Longrightarrow> gives P (give x)"
  by (simp add: gives_def give_def)

lemma gives_lift: "(\<And>x. r = Ok x \<Longrightarrow> P x) \<Longrightarrow> gives P (lift r)"
  by (auto simp: gives_def lift_def)

lemma gives_if: "(b \<Longrightarrow> gives P f) \<Longrightarrow> (\<not> b \<Longrightarrow> gives P g) \<Longrightarrow> gives P (if b then f else g)"
  by simp

lemma gives_option: "(x = None \<Longrightarrow> gives P f) \<Longrightarrow> (\<And>y. x = Some y \<Longrightarrow> gives P (g y)) \<Longrightarrow>
    gives P (case x of None \<Rightarrow> f | Some y \<Rightarrow> g y)"
  by (cases x) simp_all

lemma gives_seq:
  assumes "gives Q f" "\<And>x. Q x \<Longrightarrow> gives P (g x)"
  shows "gives P (seq f g)"
  unfolding gives_def
proof (intro allI impI)
  fix s s' x assume "seq f g s = Some (s', Ok x)"
  then obtain t y where "f s = Some (t, Ok y)" "g y t = Some (s', Ok x)"
    by (cases "f s") (auto simp: seq_def split: result.splits)
  with givesD [OF assms(1)] givesD [OF assms(2)] show "P x" by blast
qed

lemma gives_last: "(\<And>x. gives P (g x)) \<Longrightarrow> gives P (seq f g)"
  by (rule gives_seq [where Q = "\<lambda>_. True"]) (simp_all add: gives_def)

lemma gives_loop:
  assumes "\<And>c. gives (\<lambda>r. case r of Inl _ \<Rightarrow> True | Inr x \<Rightarrow> P x) (body c)"
  shows "gives P (act_loop body c)"
  unfolding gives_def
proof (intro allI impI)
  fix s s' x assume "act_loop body c s = Some (s', Ok x)"
  then have "case Ok x of Ok y \<Rightarrow> P y | Err (e :: kernel_error) \<Rightarrow> True"
    by (rule act_loop_rule [where I = "\<lambda>_ _. True" and Q = "\<lambda>_ r. case r of Ok y \<Rightarrow> P y | Err e \<Rightarrow> True"])
      (use givesD [OF assms] in fastforce)+
  then show "P x" by simp
qed

lemma id_try_from_ok: "id_try_from kind text = Ok i \<Longrightarrow> id_ok i"
  by (auto simp: id_try_from_def id_ok_def split: if_splits)

lemma gives_fresh: "gives id_ok (fresh_id env kind)"
  unfolding fresh_id_def
  by (intro gives_last gives_lift) (auto dest: id_try_from_ok split: result.splits)

lemma keeps_never [keeps_intros]: "keeps I R (\<lambda>s. None)"
  by (simp add: keeps_def)

locale action_frame =
  fixes I :: "'s \<Rightarrow> bool" and R :: "'s \<Rightarrow> 's \<Rightarrow> bool"
  assumes R_refl: "R s s" and R_trans: "R s t \<Longrightarrow> R t u \<Longrightarrow> R s u"
begin

lemma keeps_give [keeps_intros]: "keeps I R (give x)"
  by (simp add: keeps_def give_def R_refl)

lemma keeps_lift [keeps_intros]: "keeps I R (lift r)"
  by (simp add: keeps_def lift_def R_refl)

lemma keeps_read [keeps_intros]: "keeps I R (\<lambda>s. give (f s) s)"
  by (simp add: keeps_def give_def R_refl)

lemma keeps_seq [keeps_intros]:
  assumes "keeps I R f" "\<And>x. keeps I R (g x)"
  shows "keeps I R (seq f g)"
proof (rule keepsI)
  fix s s' r assume I: "I s" and run: "seq f g s = Some (s', r)"
  then obtain t q where t: "f s = Some (t, q)" by (cases "f s") (auto simp: seq_def)
  note first = keepsD [OF assms(1) I t]
  show "I s' \<and> R s s'"
  proof (cases q)
    case (Ok x)
    with run t have "g x t = Some (s', r)" by (simp add: seq_def)
    from keepsD [OF assms(2) _ this] first show ?thesis using R_trans by blast
  next
    case (Err e)
    with run t first show ?thesis by (simp add: seq_def)
  qed
qed

lemma keeps_seq_gives:
  assumes "keeps I R f" "gives P f" "\<And>x. P x \<Longrightarrow> keeps I R (g x)"
  shows "keeps I R (seq f g)"
proof -
  have "keeps I R (seq f (\<lambda>x. if P x then g x else (\<lambda>s. None)))"
    using assms by (intro keeps_seq keeps_if keeps_never)
  moreover have "seq f g s = seq f (\<lambda>x. if P x then g x else (\<lambda>s. None)) s" for s
    using assms(2) by (auto simp: seq_def gives_def split: option.splits result.splits)
  ultimately show ?thesis by (simp add: keeps_def)
qed

lemma keeps_seq_lift: "(\<And>x. r = Ok x \<Longrightarrow> keeps I R (g x)) \<Longrightarrow> keeps I R (seq (lift r) g)"
  by (rule keeps_seq_gives [where P = "\<lambda>x. r = Ok x"]) (auto intro: keeps_lift gives_lift)

lemma keeps_each [keeps_intros]: "(\<And>x. keeps I R (f x)) \<Longrightarrow> keeps I R (each f xs)"
  by (induction xs) (auto intro: keeps_give keeps_seq)

lemma keeps_loop [keeps_intros]:
  assumes "\<And>c. keeps I R (body c)"
  shows "keeps I R (act_loop body c)"
proof (rule keepsI)
  fix s s' r assume I: "I s" and run: "act_loop body c s = Some (s', r)"
  show "I s' \<and> R s s'"
  proof (rule act_loop_rule [OF run, where I = "\<lambda>c t. I t \<and> R s t"])
    show "I s \<and> R s s" using I R_refl by simp
  qed (use keepsD [OF assms] R_trans in blast)+
qed

lemma keeps_catching [keeps_intros]: "keeps I R f \<Longrightarrow> keeps I R (catching f)"
  by (auto simp: keeps_def catching_def)

end

section \<open>What the draws are made of\<close>

lemma gives_draw: "(\<And>k. P (f k)) \<Longrightarrow> gives P (draw f)"
  by (auto simp: gives_def draw_def)

abbreviation usage_ok :: "run_env \<Rightarrow> json \<Rightarrow> bool" where
  "usage_ok env \<equiv> accepts_usage (codec (senv (re_tenv env)))"

text \<open>The clock and the token counts are 64-bit numbers, and the usages a provider reports are usages.\<close>

definition typed_draws :: "run_env \<Rightarrow> bool" where
  "typed_draws env \<longleftrightarrow>
     (\<forall>k. re_now env k \<le> u64_max) \<and>
     (\<forall>k f now then_ms out. SiEvent (Finished f) now then_ms out \<in> set (re_stream env k) \<longrightarrow> usage_ok env (fin_usage f)) \<and>
     (\<forall>a b. usage_ok env a \<longrightarrow> usage_ok env b \<longrightarrow> usage_ok env (add_usage (re_model env) a b)) \<and>
     (\<forall>k source handle event r c. (source, handle) \<in> set (re_before_compact env k) \<longrightarrow> handle event = Ok r \<longrightarrow>
        bc_compaction r = Some c \<longrightarrow> gc_tokens_before c \<le> u64_max)"

definition when_typed :: "run_env \<Rightarrow> bool \<Rightarrow> bool" where
  "when_typed env b \<longleftrightarrow> (typed_draws env \<longrightarrow> b)"

lemma gives_now: "gives (\<lambda>n. when_typed env (n \<le> u64_max)) (now_ms env)"
  unfolding now_ms_def by (intro gives_draw) (simp add: when_typed_def typed_draws_def)

lemma gives_turn_id: "gives id_ok (new_turn_id env)"
  unfolding new_turn_id_def by (rule gives_fresh)

abbreviation identity_ok :: "run_env \<Rightarrow> run_id \<times> turn_id \<times> nat \<Rightarrow> bool" where
  "identity_ok env \<equiv> (\<lambda>(run_id, turn_id, started). id_ok run_id \<and> id_ok turn_id \<and> when_typed env (started \<le> u64_max))"

lemma gives_identity:
  assumes "\<And>i. identity = Some i \<Longrightarrow> identity_ok env i"
  shows "gives (identity_ok env) (compaction_identity env identity)"
proof (cases identity)
  case None
  show ?thesis unfolding compaction_identity_def None option.case
    by (rule gives_seq [OF gives_fresh], rule gives_seq [OF gives_turn_id], rule gives_seq [OF gives_now])
      (intro gives_give, simp)
next
  case (Some i)
  with assms show ?thesis by (simp add: compaction_identity_def gives_give)
qed

lemma first_answer_source:
  "fst (first_answer P handlers event reports) = Some r \<Longrightarrow> \<exists>source handle. (source, handle) \<in> set handlers \<and> handle event = Ok r"
  by (induction P handlers event reports rule: first_answer.induct) (auto split: result.splits if_splits)

lemma before_compact_typed:
  "when_typed env (\<forall>c. bc_compaction (fst (emit_session_before_compact (re_before_compact env k) event)) = Some c \<longrightarrow>
     gc_tokens_before c \<le> u64_max)"
proof -
  let ?first = "first_answer (\<lambda>r. bc_cancel r \<or> bc_compaction r \<noteq> None) (re_before_compact env k) event []"
  have "gc_tokens_before c \<le> u64_max"
    if typed: "typed_draws env" and c: "bc_compaction (fst (emit_session_before_compact (re_before_compact env k) event)) = Some c" for c
  proof -
    from c obtain r where r: "fst ?first = Some r" "bc_compaction r = Some c"
      by (auto simp: emit_session_before_compact_def split: prod.splits option.splits)
    from first_answer_source [OF r(1)] r(2) typed show ?thesis unfolding typed_draws_def by blast
  qed
  then show ?thesis by (simp add: when_typed_def)
qed

text \<open>The summary's usage is one a provider reported, or the sum of two.\<close>

lemma collect_summary_final:
  "collect_summary items streamed final = Some (Ok (t, Some f)) \<Longrightarrow>
    final = Some f \<or> (\<exists>now then_ms out. SiEvent (Finished f) now then_ms out \<in> set items)"
  by (induction items streamed final rule: collect_summary.induct) (auto split: model_stream_event.splits)

lemma typed_usage:
  "typed_draws env \<Longrightarrow> SiEvent (Finished f) now then_ms out \<in> set (re_stream env k) \<Longrightarrow> usage_ok env (fin_usage f)"
  unfolding typed_draws_def by blast

lemma gives_summary:
  "gives (\<lambda>g. when_typed env (usage_ok env (gs_usage g))) (generate_compaction_summary env turn_id timestamp messages protocol)"
proof -
  have finish: "\<exists>t f. p = (t, Some f) \<and> gs_usage g = fin_usage f" if "finish_summary env p = Ok g" for p g
    using that by (auto simp: finish_summary_def Let_def split: prod.splits option.splits if_splits stop_reason.splits)
  have attempt: "when_typed env (usage_ok env (gs_usage g))"
    if "summary_attempt env opened (re_stream env k) = Some (Ok g)" for opened k g
    using that
    by (auto simp: summary_attempt_def when_typed_def result_simps split: result.splits
        dest!: finish collect_summary_final intro: typed_usage)
  have sent: "gives (\<lambda>(opened, items). \<exists>k. items = re_stream env k) (send_request env request)" for request
    unfolding send_request_def
    by (rule gives_last, rule gives_seq [OF gives_draw [where P = "\<lambda>(opened, items). \<exists>k. items = re_stream env k"]])
      (auto intro!: gives_last gives_give)
  have "gives (\<lambda>r. case r of Inl _ \<Rightarrow> True | Inr g \<Rightarrow> when_typed env (usage_ok env (gs_usage g))) (summary_round env request c)"
    for request c
    unfolding summary_round_def
    by (rule gives_seq [OF sent])
      (auto intro!: gives_give gives_lift gives_last attempt simp: gives_def [of _ "\<lambda>s. None"]
        split: option.splits result.splits prod.splits)
  then show ?thesis unfolding generate_compaction_summary_def by (intro gives_last gives_loop)
qed

lemma gives_split_summary:
  "gives (\<lambda>g. when_typed env (usage_ok env (gs_usage g))) (split_summary env turn_id started prep instruction)"
proof -
  let ?ok = "\<lambda>g. when_typed env (usage_ok env (gs_usage g))"
  have history: "gives (\<lambda>h. \<forall>g. h = Some g \<longrightarrow> ?ok g)
      (if b then give None else seq (generate_compaction_summary env turn_id started ms protocol) (\<lambda>g. give (Some g)))" for b ms protocol
    by (cases b) (auto intro!: gives_give gives_seq [OF gives_summary])
  show ?thesis
  proof (cases "cpr_turn_prefix prep = []")
    case True
    then show ?thesis using gives_summary by (simp add: split_summary_def)
  next
    case False
    show ?thesis unfolding split_summary_def Let_def if_not_P [OF False]
      by (rule gives_seq [OF history], rule gives_seq [OF gives_summary], rule gives_give)
        (auto simp: when_typed_def typed_draws_def split: option.splits)
  qed
qed

lemma saturating_sum_bounded: "saturating_sum xs \<le> u64_max"
proof -
  have "a \<le> u64_max \<Longrightarrow> fold (\<lambda>n total. saturating_add_u64 total n) ns a \<le> u64_max" for a ns
    by (induction ns arbitrary: a) (auto simp: saturating_add_u64_def)
  from this [of 0 xs] show ?thesis by (simp add: saturating_sum_def)
qed

lemma estimate_bounded: "cu_tokens (usage_estimate m history) \<le> u64_max"
  using saturating_sum_bounded
  by (auto simp: usage_estimate_def total_tokens_def saturating_add_u64_def Let_def split: option.splits)

lemma prepared_tokens: "prepare_compaction m policy excluded history = Some prep \<Longrightarrow> cpr_tokens_before prep \<le> u64_max"
  using estimate_bounded
  by (auto simp: prepare_compaction_def preparation_from_history_def Let_def split: if_splits prod.splits option.splits)

lemma typed_payloads [simp]:
  "typed_payload record_keys (step_payload entry_id reason)"
  "typed_payload record_keys (usage_payload entry_id g)"
  "typed_payload record_keys (finished_payload env failed)"
  "typed_payload record_keys (started_payload source_leaf instruction entry_id)"
  "typed_payload record_keys (encode_turn_record t)"
  "typed_payload record_keys (outcome_payload outcome)"
  by (cases failed; cases outcome;
      simp add: typed_payload_def payload_clear_def keys_def record_keys_def step_payload_def usage_payload_def
        finished_payload_def started_payload_def encode_turn_record_def)+

section \<open>The steps of the world\<close>

abbreviation set_transcript :: "transcript \<Rightarrow> 'z run_state_scheme \<Rightarrow> 'z run_state_scheme" where
  "set_transcript t s \<equiv> s\<lparr>rw_session := (rw_session s)\<lparr>qs_transcript := t\<rparr>\<rparr>"

abbreviation run_transcript_of :: "'z run_state_scheme \<Rightarrow> transcript" where
  "run_transcript_of s \<equiv> qs_transcript (rw_session s)"

locale world_frame = action_frame I R
  for I :: "'z run_state_scheme \<Rightarrow> bool" and R :: "'z run_state_scheme \<Rightarrow> 'z run_state_scheme \<Rightarrow> bool" +
  fixes env :: run_env
  assumes bookkeeping: "\<And>s k es qs. I s \<Longrightarrow> I (s\<lparr>rw_step := k, rw_events := es, rw_requests := qs\<rparr>) \<and>
      R s (s\<lparr>rw_step := k, rw_events := es, rw_requests := qs\<rparr>)"
    and others: "\<And>s k. I s \<Longrightarrow> I (s\<lparr>rw_session := re_others env k (rw_session s)\<rparr>) \<and>
      R s (s\<lparr>rw_session := re_others env k (rw_session s)\<rparr>)"
    and record_step: "I s \<Longrightarrow> id_ok record_id \<Longrightarrow> id_ok run_id \<Longrightarrow> typed_payload record_keys payload \<Longrightarrow>
      transcript_append_record (re_tenv env) (re_write env k) (re_now env k)
        \<lparr>nr_id = record_id, nr_lane = ts_lane (run_transcript_of s), nr_run_id = Some run_id, nr_kind = kind, nr_payload = payload\<rparr>
        (run_transcript_of s) = (t, x) \<Longrightarrow> I (set_transcript t s) \<and> R s (set_transcript t s)"
    and sync_step: "I s \<Longrightarrow> transcript_sync w (run_transcript_of s) = (t, y) \<Longrightarrow>
      I (set_transcript t s) \<and> R s (set_transcript t s)"
begin

lemma booked:
  assumes "I t \<and> R s t"
  shows "I (t\<lparr>rw_step := k, rw_events := es, rw_requests := qs\<rparr>) \<and> R s (t\<lparr>rw_step := k, rw_events := es, rw_requests := qs\<rparr>)"
  using assms bookkeeping [of t qs es k] R_trans [of s t] by blast

lemma keeps_draw [keeps_intros]: "keeps I R (draw f)"
  using bookkeeping [of s "rw_requests s" "rw_events s" "Suc (rw_step s)" for s] by (auto simp: keeps_def draw_def)

lemma keeps_await [keeps_intros]: "keeps I R (await_others env)"
proof (rule keepsI)
  fix s s' r assume s: "I s" "await_others env s = Some (s', r)"
  let ?t = "s\<lparr>rw_session := re_others env (rw_step s) (rw_session s)\<rparr>"
  have s': "s' = ?t\<lparr>rw_step := Suc (rw_step s), rw_events := rw_events s, rw_requests := rw_requests s\<rparr>"
    using s(2) by (auto simp: await_others_def)
  show "I s' \<and> R s s'" unfolding s' by (rule booked [OF others [OF s(1)]])
qed

lemma keeps_emit [keeps_intros]: "keeps I R (emit env event)"
proof (rule keepsI)
  fix s s' r assume s: "I s" "emit env event s = Some (s', r)"
  let ?t = "s\<lparr>rw_session := re_others env (rw_step s) (rw_session s)\<rparr>"
  have s': "s' = ?t\<lparr>rw_step := Suc (rw_step s), rw_events := rw_events s', rw_requests := rw_requests s\<rparr>"
    using s(2) by (auto simp: emit_def Let_def split: result.splits)
  show "I s' \<and> R s s'" by (subst (1 2) s') (rule booked [OF others [OF s(1)]])
qed

lemma keeps_now [keeps_intros]: "keeps I R (now_ms env)"
  unfolding now_ms_def by (intro keeps_intros)

lemma keeps_cancelled [keeps_intros]: "keeps I R (is_cancelled env)"
  unfolding is_cancelled_def by (intro keeps_intros)

lemma keeps_fresh [keeps_intros]: "keeps I R (fresh_id env kind)"
  unfolding fresh_id_def by (intro keeps_intros)

lemma keeps_message_now [keeps_intros]: "keeps I R (message_now env turn_id content)"
  unfolding message_now_def by (intro keeps_intros)

lemma keeps_turn_id [keeps_intros]: "keeps I R (new_turn_id env)"
  unfolding new_turn_id_def by (intro keeps_intros)

lemma keeps_hooks [keeps_intros]: "keeps I R (message_end_hooks env m)"
  unfolding message_end_hooks_def by (intro keeps_intros)

lemma keeps_transcript_act:
  assumes "\<And>s k t r. I s \<Longrightarrow> f (re_write env k) (re_now env k) (run_transcript_of s) = (t, r) \<Longrightarrow>
    I (set_transcript t s) \<and> R s (set_transcript t s)"
  shows "keeps I R (transcript_act env f)"
  unfolding transcript_act_def
  by (intro keeps_intros) (auto simp: keeps_def session_act_def dest: assms split: prod.splits)

lemma keeps_record [keeps_intros]:
  "id_ok run_id \<Longrightarrow> typed_payload record_keys payload \<Longrightarrow> keeps I R (record_operation env run_id kind payload)"
  unfolding record_operation_def
  by (intro keeps_seq_gives [OF keeps_fresh gives_fresh] keeps_transcript_act)
    (auto simp: drop_answer_def dest: record_step split: prod.splits)

lemma keeps_sync [keeps_intros]: "keeps I R (sync_store env)"
  unfolding sync_store_def by (intro keeps_transcript_act) (auto dest: sync_step)

lemma keeps_send [keeps_intros]: "keeps I R (send_request env request)"
proof -
  have "keeps I R (\<lambda>s. Some (s\<lparr>rw_requests := rw_requests s @ [request]\<rparr>, Ok ()))"
    using bookkeeping [of s "rw_requests s @ [request]" "rw_events s" "rw_step s" for s] by (auto simp: keeps_def)
  then show ?thesis unfolding send_request_def by (intro keeps_intros)
qed

lemma keeps_summary_round [keeps_intros]: "keeps I R (summary_round env request retry)"
  unfolding summary_round_def by (intro keeps_intros)

lemma keeps_summary_request [keeps_intros]: "keeps I R (summary_request env turn_id timestamp messages protocol)"
  unfolding summary_request_def Let_def by (intro keeps_intros)

lemma keeps_summary [keeps_intros]: "keeps I R (generate_compaction_summary env turn_id timestamp messages protocol)"
  unfolding generate_compaction_summary_def by (intro keeps_intros)

lemma keeps_split_summary [keeps_intros]: "keeps I R (split_summary env turn_id started prep instruction)"
  unfolding split_summary_def Let_def by (intro keeps_intros)

lemma keeps_identity [keeps_intros]: "keeps I R (compaction_identity env identity)"
  unfolding compaction_identity_def by (intro keeps_intros)

lemma keeps_finish_compaction [keeps_intros]:
  "id_ok run_id \<Longrightarrow> keeps I R (finish_compaction env turn_id run_id reason failed)"
  unfolding finish_compaction_def by (intro keeps_intros) simp_all

end

text \<open>With the steps that also write the context, every compaction keeps the relation.\<close>

locale world_full = world_frame I R env
  for I :: "'z run_state_scheme \<Rightarrow> bool" and R :: "'z run_state_scheme \<Rightarrow> 'z run_state_scheme \<Rightarrow> bool" and env :: run_env +
  assumes persist_step: "I s \<Longrightarrow> id_ok entry_id \<Longrightarrow> append_context_message (re_tenv env) (re_write env k) (re_now env k) entry_id m (run_transcript_of s) = (t, x) \<Longrightarrow>
      I (set_transcript t s) \<and> R s (set_transcript t s)"
    and name_step: "I s \<Longrightarrow> set_default_name (re_tenv env) (re_write env k) title (run_transcript_of s) = (t, y) \<Longrightarrow>
      I (set_transcript t s) \<and> R s (set_transcript t s)"
    and boundary_step: "I s \<Longrightarrow>
      compaction_boundary env reason run_id turn_id entry_id started ended files summary tail tokens usage = Ok (entry, context) \<Longrightarrow>
      id_ok run_id \<Longrightarrow> id_ok turn_id \<Longrightarrow> id_ok entry_id \<Longrightarrow>
      when_typed env (started \<le> u64_max \<and> ended \<le> u64_max \<and> tokens \<le> u64_max \<and> (\<forall>u. usage = Some u \<longrightarrow> usage_ok env u)) \<Longrightarrow>
      commit_compaction (re_tenv env) (re_write env k) (re_now env k) entry context (run_transcript_of s) = Some (t, x) \<Longrightarrow>
      I (set_transcript t s) \<and> R s (set_transcript t s)"
begin

lemma keeps_persist [keeps_intros]: "keeps I R (persist_message env m)"
  unfolding persist_message_def
  by (rule keeps_seq_gives [OF keeps_fresh gives_fresh], rule keeps_transcript_act) (rule persist_step)

lemma keeps_boundary:
  assumes "compaction_boundary env reason run_id turn_id entry_id started ended files summary tail tokens usage = Ok (entry, context)"
    and "id_ok run_id" "id_ok turn_id" "id_ok entry_id"
    and "when_typed env (started \<le> u64_max \<and> ended \<le> u64_max \<and> tokens \<le> u64_max \<and> (\<forall>u. usage = Some u \<longrightarrow> usage_ok env u))"
  shows "keeps I R (commit_boundary env entry context)"
proof (rule keepsI)
  fix s s' r assume s: "I s" "commit_boundary env entry context s = Some (s', r)"
  then obtain t where commit: "commit_compaction (re_tenv env) (re_write env (rw_step s)) (re_now env (rw_step s)) entry context
      (run_transcript_of s) = Some (t, r)"
    and s': "s' = (set_transcript t s)\<lparr>rw_step := Suc (rw_step s), rw_events := rw_events s, rw_requests := rw_requests s\<rparr>"
    by (auto simp: commit_boundary_def split: option.splits)
  show "I s' \<and> R s s'" unfolding s' by (rule booked [OF boundary_step [OF s(1) assms commit]])
qed

lemma keeps_work:
  assumes "id_ok run_id" "id_ok turn_id" "id_ok entry_id" "when_typed env (started \<le> u64_max)"
    and "cpr_tokens_before prep \<le> u64_max" "\<And>c. given = Some c \<Longrightarrow> when_typed env (gc_tokens_before c \<le> u64_max)"
  shows "keeps I R (compaction_work env reason instruction run_id turn_id started entry_id prep given)"
proof -
  let ?ok = "\<lambda>(summary :: string, tail :: agent_message list, tokens, usage). when_typed env (tokens \<le> u64_max \<and> (\<forall>u. usage = Some u \<longrightarrow> usage_ok env u))"
  let ?chosen = "case given of
      Some c \<Rightarrow> give (gc_summary c, gc_retained_tail c, gc_tokens_before c, None)
    | None \<Rightarrow>
        seq (split_summary env turn_id started prep instruction) (\<lambda>g.
        seq (record_operation env run_id UsageRecord (usage_payload entry_id g)) (\<lambda>_.
        give (gs_text g, cpr_retained_tail prep, cpr_tokens_before prep, Some (gs_usage g))))"
  have ok: "gives ?ok ?chosen"
  proof (cases given)
    case None
    show ?thesis unfolding None option.case
      by (rule gives_seq [OF gives_split_summary], rule gives_last, rule gives_give) (use assms(5) in \<open>simp add: when_typed_def\<close>)
  next
    case (Some c)
    with assms(6) [OF Some] show ?thesis by (auto intro!: gives_give simp: when_typed_def)
  qed
  have "keeps I R ?chosen" using assms(1) by (intro keeps_intros) simp_all
  note chosen = keeps_seq_gives [OF this ok]
  have rest: "keeps I R (seq (now_ms env) (\<lambda>ended. seq (lift (compaction_boundary env reason run_id turn_id entry_id started ended
      files summary tail tokens usage)) (\<lambda>(entry, ctx). seq (commit_boundary env entry ctx) (\<lambda>_. give (result ended)))))"
    if "when_typed env (tokens \<le> u64_max \<and> (\<forall>u. usage = Some u \<longrightarrow> usage_ok env u))" for files summary tail tokens usage result
  proof (intro keeps_seq_gives [OF keeps_now gives_now] keeps_seq_lift keeps_prod keeps_seq keeps_give, goal_cases)
    case (1 ended x entry ctx)
    then have boundary: "compaction_boundary env reason run_id turn_id entry_id started ended files summary tail tokens usage = Ok (entry, ctx)"
      by simp
    show ?case by (rule keeps_boundary [OF boundary assms(1-3)]) (use 1 that assms(4) in \<open>auto simp: when_typed_def\<close>)
  qed
  show ?thesis unfolding compaction_work_def Let_def
    by (rule keeps_seq [OF keeps_record [OF assms(1) typed_payloads(1)]], rule chosen) (auto intro!: rest)
qed

lemma keeps_settle_compaction:
  assumes "keeps I R work" "id_ok run_id"
  shows "keeps I R (settle_compaction env turn_id run_id reason work)"
proof (rule keepsI)
  fix s s' r assume s: "I s" and run: "settle_compaction env turn_id run_id reason work s = Some (s', r)"
  then obtain t q where work: "work s = Some (t, q)" by (cases "work s") (auto simp: settle_compaction_def)
  note t = keepsD [OF assms(1) s work]
  obtain u p where finish: "finish_compaction env turn_id run_id reason (case q of Ok _ \<Rightarrow> None | Err e \<Rightarrow> Some e) t = Some (u, p)"
    using run work by (cases q) (auto simp: settle_compaction_def split: option.splits)
  note u = keepsD [OF keeps_finish_compaction [OF assms(2)] conjunct1 [OF t] finish]
  show "I s' \<and> R s s'"
  proof (cases q)
    case (Ok x)
    with run work finish have "seq (await_others env) (\<lambda>_. lift (and_then p (\<lambda>_. Ok x))) u = Some (s', r)"
      by (simp add: settle_compaction_def)
    from keepsD [OF keeps_seq [OF keeps_await keeps_lift] conjunct1 [OF u] this] t u show ?thesis using R_trans by blast
  next
    case (Err e)
    with run work finish t u show ?thesis using R_trans by (auto simp: settle_compaction_def)
  qed
qed

lemma keeps_compaction:
  assumes "\<And>i. identity = Some i \<Longrightarrow> identity_ok env i"
  shows "keeps I R (perform_compaction env reason excluded identity instruction)"
proof -
  note identity = keeps_seq_gives [OF keeps_identity gives_identity [OF assms]]
  have answer: "gives (\<lambda>answer. \<forall>c. bc_compaction answer = Some c \<longrightarrow> when_typed env (gc_tokens_before c \<le> u64_max))
      (draw (\<lambda>k. fst (emit_session_before_compact (re_before_compact env k) event)))" for event
    by (rule gives_draw) (use before_compact_typed [of env _ event] in \<open>auto simp: when_typed_def\<close>)
  show ?thesis unfolding perform_compaction_def
    by (intro keeps_seq_lift identity keeps_prod keeps_seq_gives [OF keeps_fresh gives_fresh]
        keeps_seq_gives [OF keeps_draw answer] keeps_settle_compaction keeps_work keeps_intros)
      (auto simp: result_simps dest: prepared_tokens split: option.splits)
qed

lemma keeps_auto_compaction [keeps_intros]: "keeps I R (perform_compaction env reason excluded None instruction)"
  by (rule keeps_compaction) simp

lemma keeps_rename [keeps_intros]: "keeps I R (rename_default env title turn_id)"
proof -
  have "keeps I R (\<lambda>s. case emit env (EvTitle turn_id title) s of Some (s', r) \<Rightarrow> Some (s', Ok ()) | None \<Rightarrow> None)"
    using keepsD [OF keeps_emit] by (auto simp: keeps_def split: option.splits)
  then show ?thesis unfolding rename_default_def
    by (intro keeps_intros keeps_transcript_act) (auto dest: name_step)
qed

end

end
