(* ===== verification/Turn_Rules.thy ===== *)
theory Turn_Rules
  imports Run_Rules
begin

text \<open>
  The same for the phases of a turn, of the loop over turns and of the settlement: what the steps of the
  world and the bookkeeping of the loop keep, the run keeps.
\<close>

section \<open>Reading and changing the state\<close>

lemma keeps_given: "(\<And>s. I s \<Longrightarrow> P) \<Longrightarrow> (P \<Longrightarrow> keeps I R f) \<Longrightarrow> keeps I R f"
  unfolding keeps_def by meson

lemma keeps_update: "(\<And>s. I s \<Longrightarrow> I (f s) \<and> R s (f s)) \<Longrightarrow> keeps I R (update f)"
  by (auto simp: keeps_def update_def)

lemma keeps_session: "(\<And>s q r. I s \<Longrightarrow> f (rw_session s) = (q, r) \<Longrightarrow> I (s\<lparr>rw_session := q\<rparr>) \<and> R s (s\<lparr>rw_session := q\<rparr>)) \<Longrightarrow>
    keeps I R (session_act f)"
  by (auto simp: keeps_def session_act_def split: prod.splits)

definition queue_items :: "queue_session \<Rightarrow> pending_item set" where
  "queue_items q = set (pq_steering (qs_queue q)) \<union> set (pq_follow_up (qs_queue q))"

lemma queue_items_return: "queue_items (q\<lparr>qs_queue := return_claim i (qs_queue q)\<rparr>) = insert i (queue_items q)"
  by (auto simp: queue_items_def return_claim_def split: queue_kind.splits)

lemma queue_items_claim:
  "claim_next_or_close b (qs_queue q) = (p, item) \<Longrightarrow>
    queue_items (q\<lparr>qs_queue := p\<rparr>) \<subseteq> queue_items q \<and> (\<forall>i. item = Some i \<longrightarrow> i \<in> queue_items q)"
  by (auto simp: queue_items_def claim_next_or_close_def split: list.splits if_splits)

lemma queue_items_marks [simp]:
  "queue_items (q\<lparr>qs_queue := open_queue c (qs_queue q)\<rparr>) = queue_items q"
  "queue_items (q\<lparr>qs_queue := close_queue (qs_queue q)\<rparr>) = queue_items q"
  "queue_items (q\<lparr>qs_notices := n\<rparr>) = queue_items q" "queue_items (q\<lparr>qs_receipts := r\<rparr>) = queue_items q"
  "queue_items (q\<lparr>qs_accepted := a\<rparr>) = queue_items q" "queue_items (q\<lparr>qs_transcript := t\<rparr>) = queue_items q"
  by (simp_all add: queue_items_def open_queue_def close_queue_def)

lemma gives_holding: "gives P f \<Longrightarrow> gives P (holding item f)"
  by (fastforce simp: gives_def holding_def split: option.splits prod.splits result.splits)

lemma gives_announce: "gives (\<lambda>a. \<forall>m i. a = Some (m, i) \<longrightarrow> item \<noteq> None \<longrightarrow> id_ok i) (announce_user env turn_id item)"
proof -
  let ?P = "\<lambda>a :: (agent_message \<times> string) option. \<forall>m i. a = Some (m, i) \<longrightarrow> item \<noteq> None \<longrightarrow> id_ok i"
  let ?drawn = "if item = None then give [] else fresh_id (te_world env) ''record''"
  have drawn: "gives (\<lambda>i. item \<noteq> None \<longrightarrow> id_ok i) ?drawn"
    using gives_fresh [of "te_world env" "''record''"] by (auto simp: gives_def give_def)
  have last: "gives ?P (seq ?drawn (\<lambda>i. give (Some (m, i))))" for m
    by (rule gives_seq [OF drawn], rule gives_give) simp
  have inner: "gives ?P (seq e (\<lambda>_. seq e' (\<lambda>_. seq h (\<lambda>m. seq c (\<lambda>cancelled. if b cancelled then lift (Err PromptCancelled)
        else seq ?drawn (\<lambda>i. give (Some (m, i))))))))"
    for e e' :: "unit turn_act" and h :: "agent_message turn_act" and c :: "bool turn_act" and b
    by (rule gives_last, rule gives_last, rule gives_last, rule gives_last, rule gives_if, rule gives_lift, simp, rule last)
  show ?thesis unfolding announce_user_def Let_def
    by (rule gives_last, rule gives_last, rule gives_option, rule gives_give, simp, rule gives_if, rule gives_lift, simp)
      (rule inner)
qed

section \<open>The phases of a turn\<close>

locale turn_frame = world_full I R "te_world env"
  for I :: "turn_state \<Rightarrow> bool" and R :: "turn_state \<Rightarrow> turn_state \<Rightarrow> bool" and env :: "'i turn_env" +
  fixes ok_item :: "pending_item \<Rightarrow> bool"
  assumes run_id: "I s \<Longrightarrow> id_ok (te_run_id env)"
    and loop_step: "I s \<Longrightarrow> I (s\<lparr>tl_initial_input := a, tl_next_turn_id := b, tl_system_override := c, tl_before_messages := d,
        tl_user_inserted := e, tl_usage := u\<rparr>) \<and>
      R s (s\<lparr>tl_initial_input := a, tl_next_turn_id := b, tl_system_override := c, tl_before_messages := d,
        tl_user_inserted := e, tl_usage := u\<rparr>)"
    and queued_ok: "I s \<Longrightarrow> tl_queued_item s = Some i \<Longrightarrow> ok_item i"
    and items_ok: "I s \<Longrightarrow> i \<in> queue_items (rw_session s) \<Longrightarrow> ok_item i"
    and queued_step: "I s \<Longrightarrow> (\<And>i. held = Some i \<Longrightarrow> ok_item i) \<Longrightarrow> I (s\<lparr>tl_queued_item := held\<rparr>) \<and> R s (s\<lparr>tl_queued_item := held\<rparr>)"
    and session_step: "I s \<Longrightarrow> qs_transcript q = run_transcript_of s \<Longrightarrow> (\<And>i. i \<in> queue_items q \<Longrightarrow> ok_item i) \<Longrightarrow>
      I (s\<lparr>rw_session := q\<rparr>) \<and> R s (s\<lparr>rw_session := q\<rparr>)"
    and consume_step: "I s \<Longrightarrow> ok_item item \<Longrightarrow> id_ok record_id \<Longrightarrow>
      consume_claimed (queue_io_at (te_world env) k) item m
        \<lparr>nr_id = record_id, nr_lane = ts_lane (run_transcript_of s), nr_run_id = Some (te_run_id env), nr_kind = QueueCancelled,
         nr_payload = cancelled_payload (item_id item) QcConsumed\<rparr> (rw_session s) = (q, r) \<Longrightarrow>
      I (s\<lparr>rw_session := q\<rparr>) \<and> R s (s\<lparr>rw_session := q\<rparr>)"
    and withdraw_step: "I s \<Longrightarrow> withdraw_pending (queue_io_at (te_world env) k) (rw_session s) = (q, r) \<Longrightarrow>
      I (s\<lparr>rw_session := q\<rparr>) \<and> R s (s\<lparr>rw_session := q\<rparr>)"
begin

abbreviation held_ok :: "pending_item option \<Rightarrow> bool" where
  "held_ok item \<equiv> (\<forall>i. item = Some i \<longrightarrow> ok_item i)"

lemmas loop_steps =
  loop_step [where s = s and a = a and b = "tl_next_turn_id s" and c = "tl_system_override s" and d = "tl_before_messages s"
    and e = "tl_user_inserted s" and u = "tl_usage s" for s a, simplified]
  loop_step [where s = s and b = b and a = "tl_initial_input s" and c = "tl_system_override s" and d = "tl_before_messages s"
    and e = "tl_user_inserted s" and u = "tl_usage s" for s b, simplified]
  loop_step [where s = s and d = d and a = "tl_initial_input s" and b = "tl_next_turn_id s" and c = "tl_system_override s"
    and e = "tl_user_inserted s" and u = "tl_usage s" for s d, simplified]
  loop_step [where s = s and e = e and a = "tl_initial_input s" and b = "tl_next_turn_id s" and c = "tl_system_override s"
    and d = "tl_before_messages s" and u = "tl_usage s" for s e, simplified]
  loop_step [where s = s and u = u and a = "tl_initial_input s" and b = "tl_next_turn_id s" and c = "tl_system_override s"
    and d = "tl_before_messages s" and e = "tl_user_inserted s" for s u, simplified]
  loop_step [where s = s and c = c and d = d and a = "tl_initial_input s" and b = "tl_next_turn_id s"
    and e = "tl_user_inserted s" and u = "tl_usage s" for s c d, simplified]

lemma kept_item:
  assumes "I s \<and> R t s" "held_ok item"
  shows "I (return_item item s) \<and> R t (return_item item s)"
proof (cases item)
  case (Some i)
  with assms items_ok have "I (return_item item s) \<and> R s (return_item item s)"
    unfolding return_item_def Some option.case by (intro session_step) (auto simp: queue_items_return)
  with assms R_trans show ?thesis by blast
qed (use assms in \<open>simp add: return_item_def\<close>)

lemma keeps_holding:
  assumes "keeps I R f" "held_ok item"
  shows "keeps I R (holding item f)"
proof (rule keepsI)
  fix s s' r assume s: "I s" "holding item f s = Some (s', r)"
  then obtain t q where f: "f s = Some (t, q)" by (cases "f s") (auto simp: holding_def)
  from s f kept_item [OF keepsD [OF assms(1) s(1) f] assms(2)] keepsD [OF assms(1) s(1) f]
  show "I s' \<and> R s s'" by (cases q) (auto simp: holding_def)
qed

lemma keeps_after:
  assumes "\<And>s. I s \<Longrightarrow> I (u s) \<and> R s (u s)" "keeps I R f"
  shows "keeps I R (\<lambda>s. f (u s))"
proof (rule keepsI)
  fix s s' r assume s: "I s" "f (u s) = Some (s', r)"
  from keepsD [OF assms(2) conjunct1 [OF assms(1) [OF s(1)]] s(2)] assms(1) [OF s(1)] R_trans show "I s' \<and> R s s'" by blast
qed

lemma keeps_take: "(\<And>item. held_ok item \<Longrightarrow> keeps I R (g item)) \<Longrightarrow> keeps I R (seq take_item g)"
proof (rule keepsI)
  fix s s' r assume g: "\<And>item. held_ok item \<Longrightarrow> keeps I R (g item)" and s: "I s" "seq take_item g s = Some (s', r)"
  then have run: "g (tl_queued_item s) (s\<lparr>tl_queued_item := None\<rparr>) = Some (s', r)" by (simp add: seq_def take_item_def)
  have "held_ok (tl_queued_item s)" using queued_ok s(1) by blast
  from keepsD [OF g [OF this] _ run] queued_step [OF s(1), of None] R_trans show "I s' \<and> R s s'" by blast
qed

lemma keeps_choose [keeps_intros]: "keeps I R (choose_turn_id env item)"
  using keepsD [OF keeps_turn_id] loop_steps(2) [where b = None]
  by (auto simp: keeps_def choose_turn_id_def give_def R_refl split: option.splits)

lemma keeps_limit [keeps_intros]: "keeps I R (check_limit env)"
  by (auto simp: keeps_def check_limit_def give_def lift_def R_refl split: option.splits)

lemma keeps_begin [keeps_intros]: "keeps I R (begin_turn env item)"
  unfolding begin_turn_def Let_def by (intro keeps_intros)

lemma keeps_user_message [keeps_intros]: "keeps I R (user_message env turn_id item)"
proof -
  have "keeps I R (\<lambda>s. seq (message_now (te_world env) turn_id content) (\<lambda>m. give (Some m)) (s\<lparr>tl_initial_input := None\<rparr>))" for content
    by (rule keeps_after [OF loop_steps(1)], assumption) (intro keeps_intros)
  then show ?thesis
    by (auto simp: keeps_def user_message_def give_def R_refl split: option.splits)
qed

lemma keeps_notify [keeps_intros]: "keeps I R (notify_inserted notice mid)"
  unfolding notify_inserted_def
  by (intro keeps_intros keeps_session session_step) (auto dest: items_ok)

lemma keeps_announce [keeps_intros]: "keeps I R (announce_user env turn_id item)"
  unfolding announce_user_def Let_def by (intro keeps_intros)

lemma keeps_system_prompt [keeps_intros]: "keeps I R (system_prompt_message env turn tools)"
  unfolding system_prompt_message_def by (intro keeps_intros)

lemma keeps_take_drafts [keeps_intros]: "keeps I R take_drafts"
  using loop_steps(3) [where d = None] by (auto simp: keeps_def take_drafts_def)

lemma keeps_stream [keeps_intros]: "keeps I R (stream_turn env turn request)"
proof -
  have "keeps I R (\<lambda>s. case stream_assistant m obs a (Ok ()) opened now items of (deltas, None) \<Rightarrow> None
      | (deltas, Some r) \<Rightarrow> Some (s\<lparr>rw_events := rw_events s @ f deltas\<rparr>, g r))" for m obs a opened now items f
      and g :: "(attempt_result, kernel_error) result \<Rightarrow> (message_id \<times> attempt_result, kernel_error) result"
    using bookkeeping [of s "rw_requests s" es "rw_step s" for s es]
    by (auto simp: keeps_def split: prod.splits option.splits)
  then show ?thesis unfolding stream_turn_def Let_def by (intro keeps_intros)
qed

lemma keeps_settle_turn [keeps_intros]: "keeps I R (settle_turn env turn assistant_id attempt)"
proof -
  have "keeps I R (\<lambda>s. case f (tl_usage s) of (usage, r) \<Rightarrow> Some (s\<lparr>tl_usage := usage\<rparr>, r))"
    for f :: "json \<Rightarrow> json \<times> (agent_message \<times> settled_assistant, kernel_error) result"
    using loop_steps(5) by (auto simp: keeps_def split: prod.splits)
  then show ?thesis unfolding settle_turn_def Let_def by (intro keeps_intros)
qed

lemma keeps_batch [keeps_intros]: "keeps I R (turn_batch env turn calls tools gate)"
proof -
  have "keeps I R (\<lambda>s. case x of None \<Rightarrow> None | Some r \<Rightarrow> seq (await_others (te_world env)) (\<lambda>_. lift r) s)"
    for x :: "(batch_result, kernel_error) result option"
    by (cases x) (simp_all add: keeps_never keeps_seq [OF keeps_await keeps_lift])
  then show ?thesis unfolding turn_batch_def Let_def by (intro keeps_seq keeps_draw)
qed

end

text \<open>With the messages a turn produces, and with the turns and budgets the loop keeps.\<close>

locale producing_frame = turn_frame I R env ok_item
  for I :: "turn_state \<Rightarrow> bool" and R :: "turn_state \<Rightarrow> turn_state \<Rightarrow> bool" and env :: "'i turn_env" and ok_item :: "pending_item \<Rightarrow> bool" +
  assumes produce_step: "I s \<Longrightarrow> I (s\<lparr>tl_produced := tl_produced s @ [m]\<rparr>) \<and> R s (s\<lparr>tl_produced := tl_produced s @ [m]\<rparr>)"
begin

lemma keeps_produced [keeps_intros]: "keeps I R (produced m)"
  unfolding produced_def by (rule keeps_update) (rule produce_step)

lemma keeps_consume:
  assumes "ok_item i" "id_ok record_id"
  shows "keeps I R (seq (draw (queue_io_at (te_world env))) (\<lambda>io. session_act (\<lambda>q. consume_claimed io i m
      \<lparr>nr_id = record_id, nr_lane = ts_lane (qs_transcript q), nr_run_id = Some (te_run_id env), nr_kind = QueueCancelled,
       nr_payload = cancelled_payload (item_id i) QcConsumed\<rparr> q)))"
  by (rule keeps_seq_gives [OF keeps_draw gives_draw [where P = "\<lambda>io. \<exists>k. io = queue_io_at (te_world env) k"]])
    (auto intro!: keeps_session dest: consume_step [OF _ assms])

lemma keeps_insert [keeps_intros]:
  assumes "held_ok item"
  shows "keeps I R (insert_user_message env turn item)"
  unfolding insert_user_message_def Let_def
proof (rule keeps_seq_gives [OF keeps_holding [OF keeps_announce assms] gives_holding [OF gives_announce]], goal_cases)
  case (1 announced)
  then show ?case using assms
    by (intro keeps_intros keeps_consume keeps_update loop_steps(4)) auto
qed

lemma keeps_drafts [keeps_intros]: "keeps I R (add_drafts (te_world env) turn_id drafts history)"
  by (induction "te_world env" turn_id drafts history rule: add_drafts.induct) (auto intro!: keeps_intros)

lemma keeps_request [keeps_intros]: "keeps I R (model_request_of env turn)"
  unfolding model_request_of_def Let_def by (intro keeps_intros)

lemma keeps_publish [keeps_intros]: "keeps I R (publish_assistant env turn assistant usage)"
  unfolding publish_assistant_def Let_def by (intro keeps_intros)

lemma keeps_result_message [keeps_intros]: "keeps I R (publish_result_message (te_world env) turn_id m)"
  unfolding publish_result_message_def Let_def by (intro keeps_intros)

lemma keeps_tools [keeps_intros]: "keeps I R (run_tools env turn settled tools gate)"
  unfolding run_tools_def by (intro keeps_intros)

lemma keeps_retry_turn:
  assumes "\<And>turn_id. keeps I R (complete turn_id RunCancelled None)"
  shows "keeps I R (retry_turn env turn_id f planned)"
  unfolding retry_turn_def go_on_def Let_def by (intro keeps_intros assms keeps_update loop_steps(2))

lemma keeps_claim [keeps_intros]: "keeps I R (claim_next b)"
proof (rule keepsI)
  fix s s' r assume s: "I s" "claim_next b s = Some (s', r)"
  obtain p item where claim: "claim_next_or_close b (qs_queue (rw_session s)) = (p, item)" by fastforce
  let ?t = "s\<lparr>rw_session := (rw_session s)\<lparr>qs_queue := p\<rparr>\<rparr>"
  note items = queue_items_claim [OF claim]
  have t: "I ?t \<and> R s ?t" using items items_ok [OF s(1)] by (intro session_step [OF s(1)]) auto
  then have "I (?t\<lparr>tl_queued_item := item\<rparr>) \<and> R ?t (?t\<lparr>tl_queued_item := item\<rparr>)"
    using items items_ok [OF s(1)] by (intro queued_step) auto
  moreover have "s' = ?t\<lparr>tl_queued_item := item\<rparr>" using s(2) claim by (simp add: claim_next_def)
  ultimately show "I s' \<and> R s s'" using t R_trans by metis
qed

lemma keeps_start [keeps_intros]: "keeps I R (start_agent env prompt)"
  unfolding start_agent_def Let_def by (intro keeps_intros keeps_update loop_steps(6))

end

section \<open>The run\<close>

locale run_frame = producing_frame I R env ok_item
  for I :: "turn_state \<Rightarrow> bool" and R :: "turn_state \<Rightarrow> turn_state \<Rightarrow> bool" and env :: "'i turn_env" and ok_item :: "pending_item \<Rightarrow> bool" +
  assumes counter_step: "I s \<Longrightarrow> I (s\<lparr>tl_turns := ts, tl_retry := rt, tl_overflow_attempted := oa\<rparr>) \<and>
      R s (s\<lparr>tl_turns := ts, tl_retry := rt, tl_overflow_attempted := oa\<rparr>)"
    and finish_step: "I s \<Longrightarrow> I (s\<lparr>tl_produced := [], tl_turns := []\<rparr>) \<and> R s (s\<lparr>tl_produced := [], tl_turns := []\<rparr>)"
begin

lemmas counter_steps =
  counter_step [where s = s and ts = ts and rt = "tl_retry s" and oa = "tl_overflow_attempted s" for s ts, simplified]
  counter_step [where s = s and rt = rt and ts = "tl_turns s" and oa = "tl_overflow_attempted s" for s rt, simplified]
  counter_step [where s = s and oa = oa and ts = "tl_turns s" and rt = "tl_retry s" for s oa, simplified]

lemma keeps_record_turn [keeps_intros]: "keeps I R (record_turn env turn settled)"
  unfolding record_turn_def Let_def
  by (rule keeps_given [OF run_id], assumption) (intro keeps_intros keeps_update counter_steps(1) typed_payloads)

lemma keeps_complete [keeps_intros]: "keeps I R (complete turn_id outcome reason)"
proof -
  have "keeps I R (finish turn_id outcome reason)"
    using finish_step by (auto simp: keeps_def finish_def)
  then show ?thesis unfolding complete_def by (intro keeps_intros)
qed

lemma keeps_go_on [keeps_intros]: "keeps I R go_on"
  unfolding go_on_def by (rule keeps_give)

lemma keeps_ask [keeps_intros]: "keeps I R (ask_retry settled)"
  using counter_steps(2)
  by (auto simp: keeps_def ask_retry_def give_def R_refl split: option.splits prod.splits)

lemma keeps_end_retries [keeps_intros]: "keeps I R (end_retries env turn_id settled)"
proof -
  have "keeps I R (if rt_attempts (tl_retry t) = 0 then give ()
      else case sa_failure settled of
        None \<Rightarrow> seq (emit (te_world env) (EvRetryEnd turn_id (rt_attempts (tl_retry t)) True None))
            (\<lambda>_. update (\<lambda>s. s\<lparr>tl_retry := reset_retries (tl_retry s)\<rparr>))
      | Some f \<Rightarrow> emit (te_world env) (EvRetryEnd turn_id (rt_attempts (tl_retry t)) False (Some (mf_summary f))))" for t
    by (intro keeps_intros keeps_update counter_steps(2))
  note kept = keepsD [OF this]
  show ?thesis
  proof (rule keepsI)
    fix s s' r assume "I s" "end_retries env turn_id settled s = Some (s', r)"
    with kept [of s s s' r] show "I s' \<and> R s s'"
      by (cases "rt_attempts (tl_retry s) = 0"; cases "sa_failure settled") (simp_all add: end_retries_def)
  qed
qed

lemma keeps_next [keeps_intros]: "keeps I R (next_action env turn settled continue_for_tools)"
  unfolding next_action_def Let_def
  by (intro keeps_intros keeps_update counter_steps(3) loop_steps(2) keeps_retry_turn)

lemma keeps_run_turn [keeps_intros]: "keeps I R (run_turn env)"
  unfolding run_turn_def
  by (rule keeps_take) (intro keeps_intros keeps_holding)

lemma keeps_execute [keeps_intros]: "keeps I R (execute env prompt)"
  unfolding execute_def turn_round_def by (intro keeps_intros)

lemma keeps_settlement [keeps_intros]:
  "keeps I R (run_settlement (te_world env) (te_run_id env) turn_id outcome usage messages afterwards)"
  unfolding run_settlement_def Let_def
  by (rule keeps_given [OF run_id], assumption)
    (intro keeps_intros keeps_session session_step typed_payloads; auto simp: settle_accepted_def dest: items_ok)

lemma keeps_retained [keeps_intros]: "keeps I R (settle_retained env turn_id content)"
  unfolding settle_retained_def Let_def by (intro keeps_intros)

lemma keeps_drop_claim [keeps_intros]: "keeps I R drop_claim"
proof (rule keepsI)
  fix s s' r assume s: "I s" "drop_claim s = Some (s', r)"
  have "held_ok (tl_queued_item s)" using queued_ok s(1) by blast
  from kept_item [OF queued_step [OF s(1), of None] this] s(2) show "I s' \<and> R s s'" by (simp add: drop_claim_def)
qed

lemma keeps_queue_ends [keeps_intros]: "keeps I R close_run_queue" "keeps I R (withdraw_rest (te_world env))"
proof -
  show "keeps I R close_run_queue"
    unfolding close_run_queue_def by (intro keeps_session session_step) (auto dest: items_ok)
  show "keeps I R (withdraw_rest (te_world env))" unfolding withdraw_rest_def
    by (rule keeps_seq_gives [OF keeps_draw gives_draw [where P = "\<lambda>io. \<exists>k. io = queue_io_at (te_world env) k"]])
      (auto intro!: keeps_session dest: withdraw_step)
qed

lemma keeps_settle_run [keeps_intros]: "keeps I R (settle_run env first_turn_id execution)"
  unfolding settle_run_def Let_def by (intro keeps_intros)

lemma keeps_run [keeps_intros]: "keeps I R (run_agent env first_turn_id prompt)"
proof -
  have typed: "typed_payload record_keys (JObject [(''operation'', JString ''agent'')])"
    by (simp add: typed_payload_def payload_clear_def keys_def record_keys_def)
  show ?thesis unfolding run_agent_def Let_def
    by (rule keeps_given [OF run_id], assumption)
      (intro keeps_intros keeps_session session_step typed; auto dest: items_ok)
qed

end

end
