(* ===== verification/Run_Props.thy ===== *)
theory Run_Props
  imports Turn_Rules
begin

text \<open>
  What a run keeps: the model context in memory stays the one a restart would rebuild from the log, through
  every turn, compaction, retry and settlement, whatever the model, the tools, the disk and the hooks answer.
\<close>

section \<open>A compaction boundary reads back\<close>

definition lawful_codec :: "transcript_env \<Rightarrow> bool" where
  "lawful_codec tenv \<longleftrightarrow> (\<forall>m. typed_payload entry_keys (encode_message tenv m) \<and>
     decode_message tenv (encode_message tenv m) = Some m \<and> accepts_message (codec (senv tenv)) (encode_message tenv m))"

lemma those_Some [simp]: "those (map (\<lambda>x. Some (f x)) xs) = Some (map f xs)"
  by (induction xs) simp_all

interpretation reason_names: wire_names "[CrManual, CrThreshold, CrOverflow]" compaction_reason_name
proof unfold_locales
  show "x \<in> set [CrManual, CrThreshold, CrOverflow]" for x by (cases x) simp_all
qed simp

lemma details_roundtrip:
  assumes "id_ok (cd_run_id d)" "id_ok (cd_turn_id d)" "cd_started_at_ms d \<le> u64_max" "cd_ended_at_ms d \<le> u64_max"
  shows "decode_compaction_details (encode_compaction_details d) = Some d"
  using assms
  by (simp add: encode_compaction_details_def field_def default_field_def reason_names.decode_name json_simps id_ok_def comp_def)

lemma opt_field_present: "map_of m k = Some v \<Longrightarrow> v \<noteq> JNull \<Longrightarrow> d v = Some x \<Longrightarrow> opt_field k d m = Some (Some x)"
  by (cases v) (auto simp: opt_field_def)

lemma opt_field_defined: "(\<And>v. map_of m k = Some v \<Longrightarrow> d v \<noteq> None) \<Longrightarrow> \<exists>x. opt_field k d m = Some x"
  by (cases "map_of m k"; cases "the (map_of m k)") (auto simp: opt_field_def)

lemma compaction_roundtrip:
  assumes "cp_details d = Some x" "decode_compaction_details (encode_compaction_details x) = Some x"
    and "list_all (accepts_message c) (cp_retained_tail d)" "cp_tokens_before d \<le> u64_max"
    and "\<And>u. cp_usage d = Some u \<Longrightarrow> accepts_usage c u"
  shows "\<exists>p usage. encode_compaction d = JObject p \<and> payload_clear entry_keys p \<and>
    decode_compaction c p = Some (d\<lparr>cp_usage := usage\<rparr>)"
proof -
  define p where "p = [(''summary'', JString (cp_summary d)), (''retainedTail'', JArray (cp_retained_tail d)),
     (''tokensBefore'', encode_timestamp (cp_tokens_before d))] @
    (case cp_usage d of None \<Rightarrow> [] | Some u \<Rightarrow> [(''usage'', u)]) @ [(''details'', encode_compaction_details x)]"
  have "encode_compaction_details x \<noteq> JNull" by (simp add: encode_compaction_details_def)
  then have details: "opt_field ''details'' decode_compaction_details p = Some (Some x)"
    using opt_field_present [of p "''details''" "encode_compaction_details x" decode_compaction_details x] assms(2)
    by (cases "cp_usage d") (simp_all add: p_def)
  obtain usage where usage: "opt_field ''usage'' (\<lambda>v. if accepts_usage c v then Some v else None) p = Some usage"
    using opt_field_defined [of p "''usage''" "\<lambda>v. if accepts_usage c v then Some v else None"] assms(5)
    by (cases "cp_usage d") (auto simp: p_def)
  have "decode_compaction c p = Some (d\<lparr>cp_usage := usage\<rparr>)"
    using assms(1,3,4) details usage
    by (simp add: decode_compaction_def field_def json_simps) (simp add: p_def json_simps)
  moreover have "encode_compaction d = JObject p" using assms(1) by (simp add: encode_compaction_def p_def)
  moreover have "payload_clear entry_keys p"
    by (cases "cp_usage d") (simp_all add: p_def payload_clear_def keys_def entry_keys_def)
  ultimately show ?thesis by blast
qed

text \<open>The entry a compaction writes starts, on a rebuild, the very context the compaction put in place.\<close>

lemma boundary_typed:
  assumes "lawful_codec (re_tenv env)"
    and "compaction_boundary env reason run_id turn_id entry_id started ended files summary tail tokens usage = Ok (entry, ctx)"
    and "id_ok run_id" "id_ok turn_id" "id_ok entry_id" "started \<le> u64_max" "ended \<le> u64_max" "tokens \<le> u64_max"
    and "\<And>u. usage = Some u \<Longrightarrow> usage_ok env u"
  shows "typed_op (re_tenv env) (TCompaction w entry ctx)"
proof -
  let ?details = "\<lparr>cd_reason = reason, cd_run_id = run_id, cd_turn_id = turn_id, cd_started_at_ms = started,
    cd_ended_at_ms = ended, cd_read_files = read_files files, cd_modified_files = modified_files files\<rparr>"
  let ?data = "\<lparr>cp_summary = summary, cp_retained_tail = map (encode_message (re_tenv env)) tail, cp_tokens_before = tokens,
    cp_usage = usage, cp_details = Some ?details\<rparr>"
  have "decode_compaction_details (encode_compaction_details ?details) = Some ?details"
    using assms(3,4,6,7) by (intro details_roundtrip) simp_all
  then obtain p usage' where p: "encode_compaction ?data = JObject p" "payload_clear entry_keys p"
    "decode_compaction (codec (senv (re_tenv env))) p = Some (?data\<lparr>cp_usage := usage'\<rparr>)"
    using compaction_roundtrip [of ?data ?details "codec (senv (re_tenv env))"] assms(1,8,9)
    by (auto simp: lawful_codec_def list_all_iff)
  from assms(2) obtain mid timing where b: "id_try_from ''message'' (''compaction-summary-'' @ entry_id) = Ok mid"
    "message_timing_try_from started started ended = Ok timing"
    "entry = \<lparr>ne_id = entry_id, ne_kind = EkCompaction, ne_payload = JObject p\<rparr>"
    "ctx = \<lparr>msg_identity = \<lparr>mi_message_id = mid, mi_turn_id = turn_id\<rparr>, msg_timing = timing,
      msg_content = McCompactionSummary \<lparr>csm_entry_id = entry_id, csm_summary = summary, csm_tokens_before = tokens,
        csm_read_files = read_files files, csm_modified_files = modified_files files\<rparr>\<rparr> # tail"
    using p(1)
    by (auto simp: compaction_boundary_def timed_message_def Let_def result_simps split: result.splits)
  have "those (map (decode_message (re_tenv env)) (map (encode_message (re_tenv env)) tail)) = Some tail"
    using assms(1) by (simp add: lawful_codec_def comp_def)
  with b p(3) have "compaction_context (re_tenv env) entry_id p = Ok ctx"
    by (simp add: compaction_context_def)
  then show ?thesis using b(3) p(2) assms(5) by (simp add: typed_entry_def typed_payload_def)
qed

section \<open>The invariant of a run\<close>

definition session_inv :: "transcript_env \<Rightarrow> queue_session \<Rightarrow> bool" where
  "session_inv tenv q \<longleftrightarrow> transcript_inv tenv (qs_transcript q) \<and> (\<forall>i \<in> queue_items q. id_ok (pi_entry_id i))"

text \<open>The surroundings of a run: the message codec round-trips, clocks and counts are 64-bit numbers, identifiers are
  identifiers, and the other tasks of the session leave its transcript in step.\<close>

definition lawful_run :: "'i turn_env \<Rightarrow> bool" where
  "lawful_run env \<longleftrightarrow> (let w = te_world env; tenv = re_tenv w in
     id_ok (te_run_id env) \<and> lawful_codec tenv \<and> typed_draws w \<and> (\<forall>k. qi_now (re_queue_io w k) \<le> u64_max) \<and>
     (\<forall>k q. session_inv tenv q \<longrightarrow> session_inv tenv (re_others w k q)))"

definition run_inv :: "'i turn_env \<Rightarrow> turn_state \<Rightarrow> bool" where
  "run_inv env s \<longleftrightarrow> lawful_run env \<and> session_inv (re_tenv (te_world env)) (rw_session s) \<and>
     (\<forall>i. tl_queued_item s = Some i \<longrightarrow> id_ok (pi_entry_id i))"

lemma commits_inv:
  assumes "transcript_inv env (qs_transcript s)" "qi_env io = env" "qi_now io \<le> u64_max" "commits io s s' ok"
  shows "transcript_inv env (qs_transcript s')"
  using assms(4) unfolding commits_def
proof (elim disjE exE conjE)
  fix rs r
  assume c: "commit_records (qi_env io) (qi_sync io) (qi_now io) rs (qs_transcript s) = (qs_transcript s', r)"
    "\<forall>rw \<in> set rs. typed_record (fst rw)"
  show ?thesis using inv_records [OF assms(1) c(2) assms(3), of "qi_sync io"] c(1) assms(2) by simp
qed (use assms(1) in simp)

lemma reject_items [simp]: "queue_items (reject_item describe e item s) = queue_items s"
  by (simp add: queue_items_def)

lemma remove_first_subset: "set (remove_first qid is) \<subseteq> set is"
  by (induction "is") auto

lemma remove_item_subset: "queue_items (s\<lparr>qs_queue := fst (remove_item qid (qs_queue s))\<rparr>) \<subseteq> queue_items s"
  using remove_first_subset by (fastforce simp: queue_items_def remove_item_def split: option.splits)

lemma withdraw_items_subset: "queue_items (withdraw_items io qids s) \<subseteq> queue_items s"
proof (induction io qids s rule: withdraw_items.induct)
  case (2 io qid qids s)
  show ?case
  proof (cases "remove_item qid (qs_queue s)")
    case (Pair q item)
    with 2 remove_item_subset [of qid s] show ?thesis by (cases item) auto
  qed
qed simp

lemma withdraw_subset: "queue_items (fst (withdraw_pending io s)) \<subseteq> queue_items s"
proof -
  let ?s = "s\<lparr>qs_queue := (qs_queue s)\<lparr>pq_open := False\<rparr>\<rparr>"
  have open_items: "queue_items ?s = queue_items s" by (simp add: queue_items_def)
  have fold_items: "queue_items (fold (reject_item d e) xs t) = queue_items t" for d e xs t
    by (simp add: queue_items_def)
  have commit_items: "commit_queue_records io rs t = (t', r) \<Longrightarrow> queue_items t' = queue_items t" for rs t t' r
    by (auto simp: commit_queue_records_def split: prod.splits)
  show ?thesis unfolding withdraw_pending_def Let_def
    using open_items withdraw_items_subset fold_items
    by (auto split: result.splits prod.splits dest!: commit_items) (metis fold_items subsetD withdraw_items_subset)+
qed

lemma lawful_message: "lawful_codec tenv \<Longrightarrow> id_ok i \<Longrightarrow> typed_message tenv i m"
  by (simp add: lawful_codec_def typed_message_def typed_entry_def message_entry_def)

lemma inv_record:
  assumes "transcript_inv env t" "typed_record r" "now \<le> u64_max"
  shows "transcript_inv env (fst (transcript_append_record env w now r t))"
proof -
  have "transcript_inv env (t\<lparr>ts_store := fst (append_record (senv env) w now r (ts_store t))\<rparr>)"
    using append_record_frame [OF assms(2,3), of "senv env" w "ts_store t"] append_record_wf [of "ts_store t" "senv env" w now r] assms(1)
    by (intro inv_frame [OF assms(1)]) (auto simp: transcript_inv_def store_inv_def)
  with assms(1) show ?thesis
    by (auto simp: transcript_append_record_def guarded_def split: prod.splits result.splits)
qed

lemma inv_default_name: "transcript_inv env t \<Longrightarrow> transcript_inv env (fst (set_default_name env w name t))"
  using inv_name [of env t w "Some name"]
  by (auto simp: set_default_name_def transcript_set_name_def guarded_def split: prod.splits result.splits)

lemma consume_session_inv:
  assumes "session_inv tenv q" "qi_env io = tenv" "qi_now io \<le> u64_max" "typed_message tenv (pi_entry_id item) m" "typed_record r"
    and "id_ok (pi_entry_id item)" "consume_claimed io item m r q = (q', x)"
  shows "session_inv tenv q'"
proof (cases "qs_cancelled q")
  case True
  with assms show ?thesis by (auto simp: session_inv_def consume_claimed_def queue_items_return)
next
  case False
  obtain t y where c: "commit_consumed tenv (qi_write io 0) (qi_write io 1) (qi_now io) (pi_entry_id item) m r (qs_transcript q) = (t, y)"
    by force
  have t: "transcript_inv tenv t"
    using inv_consumed [OF _ assms(4,5,3), of "qs_transcript q" "qi_write io 0" "qi_write io 1"] c assms(1) by (simp add: session_inv_def)
  have "qs_transcript q' = t \<and> queue_items q' = queue_items q"
    using False c assms(2,7)
    by (auto simp: consume_claimed_def Let_def split: result.splits option.splits queue_waiter.splits)
  with t assms(1) show ?thesis by (simp add: session_inv_def)
qed

lemma run_inv_cong:
  "rw_session s' = rw_session s \<Longrightarrow> tl_queued_item s' = tl_queued_item s \<Longrightarrow> run_inv env s' = run_inv env s"
  by (simp add: run_inv_def)

lemma run_inv_transcript:
  "run_inv env s \<Longrightarrow> transcript_inv (re_tenv (te_world env)) t \<Longrightarrow> run_inv env (set_transcript t s)"
  by (simp add: run_inv_def session_inv_def)

lemma run_inv_session:
  "run_inv env s \<Longrightarrow> session_inv (re_tenv (te_world env)) q \<Longrightarrow> run_inv env (s\<lparr>rw_session := q\<rparr>)"
  by (simp add: run_inv_def)

lemma run_invD:
  assumes "run_inv env s"
  shows "id_ok (te_run_id env)" "lawful_codec (re_tenv (te_world env))" "typed_draws (te_world env)"
    "re_now (te_world env) k \<le> u64_max" "qi_now (re_queue_io (te_world env) k) \<le> u64_max"
    "session_inv (re_tenv (te_world env)) (rw_session s)" "transcript_inv (re_tenv (te_world env)) (run_transcript_of s)"
    "id_ok (ts_lane (run_transcript_of s))"
  using assms
  by (auto simp: run_inv_def lawful_run_def Let_def typed_draws_def session_inv_def transcript_inv_def store_inv_def)

lemma run_inv_record:
  assumes "run_inv env s" "id_ok record_id" "id_ok run_id" "typed_payload record_keys payload"
    and "transcript_append_record (re_tenv (te_world env)) w (re_now (te_world env) k)
      \<lparr>nr_id = record_id, nr_lane = ts_lane (run_transcript_of s), nr_run_id = Some run_id, nr_kind = kind, nr_payload = payload\<rparr>
      (run_transcript_of s) = (t, x)"
  shows "run_inv env (set_transcript t s)"
proof (rule run_inv_transcript [OF assms(1)])
  let ?r = "\<lparr>nr_id = record_id, nr_lane = ts_lane (run_transcript_of s), nr_run_id = Some run_id, nr_kind = kind, nr_payload = payload\<rparr>"
  have "typed_record ?r" using assms(2-4) run_invD(8) [OF assms(1)] by (simp add: typed_record_def opt_id_ok_def)
  from inv_record [OF run_invD(7) [OF assms(1)] this run_invD(4) [OF assms(1), of k], of w] assms(5)
  show "transcript_inv (re_tenv (te_world env)) t" by simp
qed

lemma run_inv_boundary:
  assumes "run_inv env s"
    and "compaction_boundary (te_world env) reason run_id turn_id entry_id started ended files summary tail tokens usage = Ok (entry, ctx)"
    and "id_ok run_id" "id_ok turn_id" "id_ok entry_id"
    and "when_typed (te_world env) (started \<le> u64_max \<and> ended \<le> u64_max \<and> tokens \<le> u64_max \<and> (\<forall>u. usage = Some u \<longrightarrow> usage_ok (te_world env) u))"
    and "commit_compaction (re_tenv (te_world env)) w (re_now (te_world env) k) entry ctx (run_transcript_of s) = Some (t, x)"
  shows "run_inv env (set_transcript t s)"
proof (rule run_inv_transcript [OF assms(1)])
  have "typed_op (re_tenv (te_world env)) (TCompaction w entry ctx)"
    using boundary_typed [OF run_invD(2) [OF assms(1)] assms(2-5)] assms(6) run_invD(3) [OF assms(1)]
    by (simp add: when_typed_def)
  from inv_compaction [OF run_invD(7) [OF assms(1)] this run_invD(4) [OF assms(1), of k] assms(7)]
  show "transcript_inv (re_tenv (te_world env)) t" .
qed

lemma run_inv_consume:
  assumes "run_inv env s" "id_ok (pi_entry_id item)" "id_ok record_id"
    and "consume_claimed (queue_io_at (te_world env) k) item m
      \<lparr>nr_id = record_id, nr_lane = ts_lane (run_transcript_of s), nr_run_id = Some (te_run_id env), nr_kind = QueueCancelled,
       nr_payload = cancelled_payload (item_id item) QcConsumed\<rparr> (rw_session s) = (q, x)"
  shows "run_inv env (s\<lparr>rw_session := q\<rparr>)"
proof (rule run_inv_session [OF assms(1)])
  note inv = run_invD [OF assms(1)]
  show "session_inv (re_tenv (te_world env)) q"
    by (rule consume_session_inv [OF inv(6) _ _ lawful_message [OF inv(2) assms(2)] _ assms(2,4)])
      (use inv assms(3) typed_cancelled_payload in \<open>simp_all add: queue_io_at_def typed_record_def opt_id_ok_def\<close>)
qed

lemma run_inv_withdraw:
  assumes "run_inv env s" "withdraw_pending (queue_io_at (te_world env) k) (rw_session s) = (q, x)"
  shows "run_inv env (s\<lparr>rw_session := q\<rparr>)"
proof (rule run_inv_session [OF assms(1)])
  note inv = run_invD [OF assms(1)]
  let ?io = "queue_io_at (te_world env) k"
  have "qi_env ?io = re_tenv (te_world env)" "qi_now ?io \<le> u64_max" using inv(5) [of k] by (simp_all add: queue_io_at_def)
  from commits_inv [OF inv(7) this withdraw_commits [OF inv(8)]] withdraw_subset [of ?io "rw_session s"] inv(6)
  show "session_inv (re_tenv (te_world env)) q" using assms(2) by (auto simp: session_inv_def)
qed

lemma run_inv_persist:
  assumes "run_inv env s" "id_ok entry_id"
    and "append_context_message (re_tenv (te_world env)) w (re_now (te_world env) k) entry_id m (run_transcript_of s) = (t, x)"
  shows "run_inv env (set_transcript t s)"
  using inv_context_message [OF run_invD(7) [OF assms(1)] lawful_message [OF run_invD(2) [OF assms(1)] assms(2)]
      run_invD(4) [OF assms(1), of k], of w m] assms(3)
  by (intro run_inv_transcript [OF assms(1)]) simp

lemma run_inv_sync:
  assumes "run_inv env s" "transcript_sync w (run_transcript_of s) = (t, x)"
  shows "run_inv env (set_transcript t s)"
  using inv_transcript_sync [OF run_invD(7) [OF assms(1)], of w] assms(2)
  by (intro run_inv_transcript [OF assms(1)]) simp

lemma run_inv_name:
  assumes "run_inv env s" "set_default_name (re_tenv (te_world env)) w title (run_transcript_of s) = (t, x)"
  shows "run_inv env (set_transcript t s)"
  using inv_default_name [OF run_invD(7) [OF assms(1)], of w title] assms(2)
  by (intro run_inv_transcript [OF assms(1)]) simp

interpretation context_run: run_frame "run_inv env" "\<lambda>_ _. True" env "\<lambda>i. id_ok (pi_entry_id i)"
  for env :: "'i turn_env"
proof (unfold_locales; (intro conjI TrueI)?; (elim run_inv_record run_inv_boundary run_inv_consume run_inv_withdraw
    run_inv_persist run_inv_sync run_inv_name; assumption)?)
  fix s :: turn_state and k q
  assume inv: "run_inv env s"
  show "run_inv env (s\<lparr>rw_session := re_others (te_world env) k (rw_session s)\<rparr>)"
    using inv by (simp add: run_inv_def lawful_run_def Let_def)
qed (auto simp: run_inv_def session_inv_def lawful_run_def Let_def)

end
