(* ===== verification/Run_Returns.thy ===== *)
theory Run_Returns
  imports Run_Props
begin

text \<open>
  When a run returns. Every phase returns when the model's streams and the tool batches end; the retries of a summary
  are bounded by their budget, and the turns of a run by its limit.
\<close>

section \<open>Actions that return\<close>

definition returns :: "('s \<Rightarrow> bool) \<Rightarrow> ('s, 'a) act \<Rightarrow> bool" where
  "returns I f \<longleftrightarrow> (\<forall>s. I s \<longrightarrow> f s \<noteq> None)"

named_theorems returns_intros \<open>composition of actions that return\<close>

lemma returnsD: "returns I f \<Longrightarrow> I s \<Longrightarrow> \<exists>s' r. f s = Some (s', r)"
  by (auto simp: returns_def)

lemma returns_give [returns_intros]: "returns I (give x)" "returns I (lift r)" "returns I (\<lambda>s. give (f s) s)"
  by (simp_all add: returns_def give_def lift_def)

lemma returns_if [returns_intros]:
  "(b \<Longrightarrow> returns I f) \<Longrightarrow> (\<not> b \<Longrightarrow> returns I g) \<Longrightarrow> returns I (if b then f else g)"
  by simp

lemma returns_option [returns_intros]:
  "(x = None \<Longrightarrow> returns I f) \<Longrightarrow> (\<And>y. x = Some y \<Longrightarrow> returns I (g y)) \<Longrightarrow> returns I (case x of None \<Rightarrow> f | Some y \<Rightarrow> g y)"
  by (cases x) simp_all

lemma returns_result [returns_intros]:
  "(\<And>y. x = Ok y \<Longrightarrow> returns I (f y)) \<Longrightarrow> (\<And>e. x = Err e \<Longrightarrow> returns I (g e)) \<Longrightarrow>
    returns I (case x of Ok y \<Rightarrow> f y | Err e \<Rightarrow> g e)"
  by (cases x) simp_all

lemma returns_prod [returns_intros]:
  "(\<And>a b. p = (a, b) \<Longrightarrow> returns I (f a b)) \<Longrightarrow> returns I (case p of (a, b) \<Rightarrow> f a b)"
  by (cases p) simp

lemma returns_seq:
  assumes "returns I f" "keeps I R f" "\<And>x. returns I (g x)"
  shows "returns I (seq f g)"
  unfolding returns_def
proof (intro allI impI)
  fix s assume s: "I s"
  obtain t r where f: "f s = Some (t, r)" using returnsD [OF assms(1) s] by blast
  have "g x t \<noteq> None" for x using assms(3) keepsD [OF assms(2) s f] by (auto simp: returns_def)
  with f show "seq f g s \<noteq> None" by (cases r) (simp_all add: seq_def)
qed

lemma returns_seq_gives:
  assumes "returns I f" "keeps I R f" "gives P f" "\<And>x. P x \<Longrightarrow> returns I (g x)"
  shows "returns I (seq f g)"
proof -
  have "seq f g s = seq f (\<lambda>x. if P x then g x else lift (Err ModelCancelled)) s" for s
    using assms(3) by (auto simp: seq_def gives_def split: option.splits result.splits)
  moreover have "returns I (seq f (\<lambda>x. if P x then g x else lift (Err ModelCancelled)))"
    using assms by (intro returns_seq [OF assms(1,2)] returns_if returns_give)
  ultimately show ?thesis by (simp add: returns_def)
qed

lemma returns_seq_any: "returns I f \<Longrightarrow> (\<And>x. returns (\<lambda>_. True) (g x)) \<Longrightarrow> returns I (seq f g)"
  by (fastforce simp: returns_def seq_def split: result.splits)

lemma returns_given: "(\<And>s. I s \<Longrightarrow> P) \<Longrightarrow> (P \<Longrightarrow> returns I f) \<Longrightarrow> returns I f"
  unfolding returns_def by meson

lemma returns_steps [returns_intros]:
  "returns I (draw f)" "returns I (await_others env)" "returns I (emit env event)" "returns I (session_act g)"
  by (auto simp: returns_def draw_def await_others_def emit_def session_act_def Let_def split: result.splits prod.splits)

lemma returns_each:
  assumes "\<And>x. returns I (f x)" "\<And>x. keeps I R (f x)"
  shows "returns I (each f xs)"
  by (induction xs) (auto intro: returns_give returns_seq [OF assms])

lemma returns_catching: "returns I f \<Longrightarrow> returns I (catching f)"
  by (simp add: returns_def catching_def)

section \<open>Streams that end\<close>

fun ends_stream :: "stream_item \<Rightarrow> bool" where
  "ends_stream (SiEvent event now then_ms out) \<longleftrightarrow> False"
| "ends_stream _ \<longleftrightarrow> True"

definition stream_ends :: "stream_item list \<Rightarrow> bool" where
  "stream_ends items \<longleftrightarrow> list_ex ends_stream items"

lemma collect_summary_ends: "stream_ends items \<Longrightarrow> collect_summary items streamed final \<noteq> None"
  by (induction items streamed final rule: collect_summary.induct) (auto simp: stream_ends_def split: model_stream_event.splits)

lemma summary_attempt_ends: "(opened = Ok () \<Longrightarrow> stream_ends items) \<Longrightarrow> summary_attempt env opened items \<noteq> None"
  using collect_summary_ends [of items "[]" None] by (cases opened) (auto simp: summary_attempt_def)

lemma stream_loop_ends: "stream_ends items \<Longrightarrow> snd (stream_loop env observes items a) \<noteq> None"
  by (induction env observes items a rule: stream_loop.induct)
    (auto simp: stream_ends_def split: result.splits option.splits prod.splits model_stream_event.splits)

section \<open>The phases\<close>

locale world_returns = world_full I R env
  for I :: "'z run_state_scheme \<Rightarrow> bool" and R :: "'z run_state_scheme \<Rightarrow> 'z run_state_scheme \<Rightarrow> bool" and env :: run_env +
  assumes streams_end: "I s \<Longrightarrow> re_opened env k = Ok () \<Longrightarrow> stream_ends (re_stream env k)"
    and boundary_returns: "I s \<Longrightarrow> commit_compaction (re_tenv env) w now entry context (run_transcript_of s) \<noteq> None"
begin

lemmas returns_then = returns_seq [where R = R]

lemma returns_fresh [returns_intros]: "returns I (fresh_id env kind)"
  unfolding fresh_id_def by (intro returns_then returns_intros keeps_intros)

lemma returns_transcript [returns_intros]: "returns I (transcript_act env f)"
  unfolding transcript_act_def by (intro returns_then returns_intros keeps_intros)

lemma returns_records [returns_intros]:
  "returns I (persist_message env m)" "returns I (record_operation env run_id kind payload)" "returns I (sync_store env)"
  unfolding persist_message_def record_operation_def sync_store_def by (intro returns_then returns_intros keeps_intros)+

lemma returns_now [returns_intros]:
  "returns I (now_ms env)" "returns I (is_cancelled env)" "returns I (new_turn_id env)"
  unfolding now_ms_def is_cancelled_def new_turn_id_def by (intro returns_intros)+

lemma returns_message_now [returns_intros]: "returns I (message_now env turn_id content)" "returns I (message_end_hooks env m)"
  unfolding message_now_def message_end_hooks_def by (intro returns_then returns_intros keeps_intros)+

lemma returns_send [returns_intros]: "returns I (send_request env request)"
proof -
  have sent: "keeps I R (\<lambda>s. Some (s\<lparr>rw_requests := rw_requests s @ [request]\<rparr>, Ok ()))"
    using bookkeeping [of s "rw_requests s @ [request]" "rw_events s" "rw_step s" for s] by (auto simp: keeps_def)
  have "returns I (\<lambda>s. Some (s\<lparr>rw_requests := rw_requests s @ [request]\<rparr>, Ok ()))" by (simp add: returns_def)
  then show ?thesis unfolding send_request_def
    by (rule returns_then [OF _ sent]) (intro returns_then returns_intros keeps_intros)
qed

lemma gives_sent: "gives (\<lambda>(opened, items). \<exists>k. opened = re_opened env k \<and> items = re_stream env k) (send_request env request)"
  unfolding send_request_def
  by (rule gives_last, rule gives_seq [OF gives_draw [where P = "\<lambda>(opened, items). \<exists>k. opened = re_opened env k \<and> items = re_stream env k"]])
    (auto intro!: gives_last gives_give)

lemma returns_round [returns_intros]: "returns I (summary_round env request retry)"
proof -
  have ends: "returns I (case summary_attempt env (re_opened env k) (re_stream env k) of
         None \<Rightarrow> (\<lambda>s. None)
       | Some (Ok g) \<Rightarrow> give (Inr g)
       | Some (Err e) \<Rightarrow>
          (case attempt_failure e of
             None \<Rightarrow> lift (Err (kernel_model_error (re_model env) e))
           | Some f \<Rightarrow>
              (case schedule f retry of
                 (retry', None) \<Rightarrow> lift (Err (kernel_model_error (re_model env) e))
               | (retry', Some planned) \<Rightarrow>
                   seq (await_others env) (\<lambda>_. seq (is_cancelled env) (\<lambda>cancelled.
                     if cancelled then lift (Err ModelCancelled) else give (Inl retry'))))))" for k
  proof (rule returns_given [where P = "re_opened env k = Ok () \<longrightarrow> stream_ends (re_stream env k)"], goal_cases)
    case 2
    then have "summary_attempt env (re_opened env k) (re_stream env k) \<noteq> None" by (intro summary_attempt_ends) simp
    then obtain r where r: "summary_attempt env (re_opened env k) (re_stream env k) = Some r" by blast
    show ?case unfolding r option.case by (intro returns_then returns_intros keeps_intros)
  qed (use streams_end in blast)
  show ?thesis unfolding summary_round_def
    by (rule returns_seq_gives [OF returns_send keeps_send gives_sent]) (use ends in auto)
qed

text \<open>A further round was granted by the budget, which shrinks with it.\<close>

lemma round_spends:
  "gives (\<lambda>r. case r of Inl c' \<Rightarrow> rp_max_retries (rt_policy c') - rt_attempts c' < rp_max_retries (rt_policy c) - rt_attempts c | Inr g \<Rightarrow> True)
    (summary_round env request c)"
proof -
  have "rp_max_retries (rt_policy c') - rt_attempts c' < rp_max_retries (rt_policy c) - rt_attempts c"
    if "schedule f c = (c', Some p)" for f c' p
    using that by (auto simp: schedule_def checked_add_u32_def split: if_splits option.splits)
  then show ?thesis unfolding summary_round_def
    by (intro gives_last) (auto intro!: gives_give gives_lift gives_last simp: gives_def [of _ "\<lambda>s. None"]
        split: option.splits result.splits prod.splits)
qed

lemma returns_loop:
  assumes "\<And>c. returns I (body c)" "\<And>c. keeps I R (body c)"
    and "\<And>c. gives (\<lambda>r. case r of Inl c' \<Rightarrow> m c' < (m c :: nat) | Inr g \<Rightarrow> True) (body c)"
  shows "returns I (act_loop body c)"
  unfolding returns_def
proof (intro allI impI)
  fix s assume "I s"
  then have "\<exists>y. act_loop body c s = Some y"
  proof (rule act_loop_total [where I = "\<lambda>c. I" and m = "\<lambda>c s. m c"])
    show "body c s \<noteq> None" if "I s" for c s using returnsD [OF assms(1) that] by auto
    show "I s' \<and> m c' < m c" if "I s" "body c s = Some (s', Ok (Inl c'))" for c s c' s'
      using keepsD [OF assms(2) that] givesD [OF assms(3) that(2)] by simp
  qed
  then show "act_loop body c s \<noteq> None" by auto
qed

lemma returns_summary_request [returns_intros]: "returns I (summary_request env turn_id timestamp messages protocol)"
  unfolding summary_request_def Let_def by (intro returns_then returns_intros keeps_intros)

lemma returns_summary [returns_intros]: "returns I (generate_compaction_summary env turn_id timestamp messages protocol)"
  unfolding generate_compaction_summary_def
  by (intro returns_then returns_intros keeps_intros returns_loop [where m = "\<lambda>c. rp_max_retries (rt_policy c) - rt_attempts c"] round_spends)

lemma returns_split_summary [returns_intros]: "returns I (split_summary env turn_id started prep instruction)"
  unfolding split_summary_def Let_def by (intro returns_then returns_intros keeps_intros)

lemma returns_boundary [returns_intros]: "returns I (commit_boundary env entry ctx)"
  unfolding returns_def
proof (intro allI impI)
  fix s assume "I s"
  from boundary_returns [OF this, of "re_write env (rw_step s)" "re_now env (rw_step s)" entry ctx]
  show "commit_boundary env entry ctx s \<noteq> None" by (auto simp: commit_boundary_def)
qed

lemma returns_work:
  assumes "id_ok run_id"
  shows "returns I (compaction_work env reason instruction run_id turn_id started entry_id prep given)"
proof -
  let ?chosen = "case given of
      Some c \<Rightarrow> give (gc_summary c, gc_retained_tail c, gc_tokens_before c, None)
    | None \<Rightarrow>
        seq (split_summary env turn_id started prep instruction) (\<lambda>g.
        seq (record_operation env run_id UsageRecord (usage_payload entry_id g)) (\<lambda>_.
        give (gs_text g, cpr_retained_tail prep, cpr_tokens_before prep, Some (gs_usage g))))"
  have chosen: "returns I ?chosen" "keeps I R ?chosen"
    using assms by (intro returns_then returns_intros keeps_intros; simp)+
  show ?thesis unfolding compaction_work_def Let_def
    using assms
    by (intro returns_then [OF _ keeps_record] returns_then [OF chosen] returns_then [OF _ keeps_now] returns_then [OF _ keeps_lift]
        returns_seq_any [OF returns_boundary] returns_intros) simp_all
qed

lemma returns_settle_compaction:
  assumes "returns I work" "keeps I R work" "id_ok run_id"
  shows "returns I (settle_compaction env turn_id run_id reason work)"
  unfolding returns_def
proof (intro allI impI)
  fix s assume s: "I s"
  obtain t r where work: "work s = Some (t, r)" using returnsD [OF assms(1) s] by blast
  then have t: "I t" using keepsD [OF assms(2) s] by blast
  have finish: "returns I (finish_compaction env turn_id run_id reason failed)" for failed
    unfolding finish_compaction_def using assms(3) by (intro returns_then returns_intros keeps_intros) simp_all
  obtain u e where u: "finish_compaction env turn_id run_id reason (case r of Ok _ \<Rightarrow> None | Err e \<Rightarrow> Some e) t = Some (u, e)"
    using returnsD [OF finish t] by blast
  show "settle_compaction env turn_id run_id reason work s \<noteq> None"
    using work u by (cases r) (auto simp: settle_compaction_def seq_def await_others_def lift_def)
qed

lemma returns_compaction:
  assumes "\<And>i. identity = Some i \<Longrightarrow> identity_ok env i"
  shows "returns I (perform_compaction env reason excluded identity instruction)"
proof -
  have identity: "returns I (compaction_identity env identity)"
    unfolding compaction_identity_def by (intro returns_then returns_intros keeps_intros)
  have answer: "gives (\<lambda>answer. \<forall>c. bc_compaction answer = Some c \<longrightarrow> when_typed env (gc_tokens_before c \<le> u64_max))
      (draw (\<lambda>k. fst (emit_session_before_compact (re_before_compact env k) event)))" for event
    by (rule gives_draw) (use before_compact_typed [of env _ event] in \<open>auto simp: when_typed_def\<close>)
  have prepared: "returns I (seq (lift (ok_or no_context p)) g)" if "\<And>x. p = Some x \<Longrightarrow> returns I (g x)" for p g
    using that by (cases p) (auto simp: returns_def seq_def lift_def)
  show ?thesis unfolding perform_compaction_def
    by (intro returns_then [OF returns_give(3) keeps_read] prepared returns_seq_gives [OF identity keeps_identity gives_identity [OF assms]]
        returns_prod returns_seq_gives [OF returns_fresh keeps_fresh gives_fresh]
        returns_seq_gives [OF returns_steps(1) keeps_draw answer] returns_then [OF returns_steps(2) keeps_await] returns_if
        returns_give(2) returns_then [OF returns_records(2) keeps_record] returns_then [OF returns_steps(3) keeps_emit]
        returns_settle_compaction returns_work keeps_work)
      (auto dest: prepared_tokens)
qed

lemma returns_auto_compaction [returns_intros]: "returns I (perform_compaction env reason excluded None instruction)"
  by (rule returns_compaction) simp

lemma returns_rename [returns_intros]: "returns I (rename_default env title turn_id)"
proof -
  let ?announce = "\<lambda>s. case emit env (EvTitle turn_id title) s of Some (s', r) \<Rightarrow> Some (s', Ok ()) | None \<Rightarrow> None"
  have returned: "returns I ?announce" by (auto simp: returns_def emit_def Let_def split: result.splits)
  have kept: "keeps I R ?announce" using keepsD [OF keeps_emit] by (auto simp: keeps_def split: option.splits)
  have name: "keeps I R (transcript_act env (\<lambda>write now. set_default_name (re_tenv env) write title))"
    by (intro keeps_transcript_act) (auto dest: name_step)
  show ?thesis unfolding rename_default_def
    by (intro returns_then [OF _ name] returns_then [OF returned kept] returns_then [OF _ keeps_sync] returns_intros)
qed

end

end
