(* ===== verification/Turn_Limit.thy ===== *)
theory Turn_Limit
  imports Run_Returns
begin

text \<open>
  How far a run goes. The phases of a turn leave the counters of the loop alone, so a round that goes on has added
  exactly one turn; with a limit the run ends, and it has at most that many turns. A failed turn is followed by another
  only within the retry budget, or once after a compaction.
\<close>

section \<open>Counters\<close>

definition same_counters :: "turn_state \<Rightarrow> turn_state \<Rightarrow> bool" where
  "same_counters s s' \<longleftrightarrow> tl_turns s' = tl_turns s \<and> tl_retry s' = tl_retry s \<and> tl_overflow_attempted s' = tl_overflow_attempted s"

interpretation counters: producing_frame "\<lambda>_. id_ok (te_run_id env)" same_counters env "\<lambda>_. True"
  for env :: "'i turn_env"
  by unfold_locales (auto simp: same_counters_def)

lemma seq_Ok: "seq f g s = Some (s', Ok x) \<longleftrightarrow> (\<exists>t y. f s = Some (t, Ok y) \<and> g y t = Some (s', Ok x))"
  by (cases "f s") (auto simp: seq_def split: result.splits)

lemma seq_read: "seq (\<lambda>s. give (f s) s) g s = g (f s) s"
  by (simp add: seq_def give_def)

lemma same_countersI:
  assumes "keeps (\<lambda>_. id_ok (te_run_id env)) same_counters f" "id_ok (te_run_id env)" "f s = Some (s', r)"
  shows "same_counters s s'"
  using keepsD [OF assms(1), of s s' r] assms(2,3) by simp

lemma same_counters_trans [trans]: "same_counters a b \<Longrightarrow> same_counters b c \<Longrightarrow> same_counters a c"
  by (simp add: same_counters_def)

lemma record_turn_adds:
  assumes "record_turn env turn settled s = Some (s', Ok u)" "id_ok (te_run_id env)"
  shows "\<exists>t. tl_turns s' = tl_turns s @ [t] \<and> tn_outcome t = settled_outcome settled \<and> tl_retry s' = tl_retry s \<and>
    tl_overflow_attempted s' = tl_overflow_attempted s"
proof -
  let ?w = "te_world env"
  define t where "t k = \<lparr>tn_run_id = te_run_id env, tn_turn_id = tx_turn_id turn, tn_started_at_ms = tx_started_at turn,
    tn_ended_at_ms = k, tn_outcome = settled_outcome settled\<rparr>" for k
  from assms(1) obtain k s1 s2 s3 s4 s5 s6 where
    run: "now_ms ?w s = Some (s1, Ok k)" "record_operation ?w (te_run_id env) StepAttempt (encode_turn_record (t k)) s1 = Some (s2, Ok ())"
      "sync_store ?w s2 = Some (s3, Ok ())" "emit ?w (EvTurnEnd (t k)) s3 = Some (s4, Ok ())" "await_others ?w s4 = Some (s5, Ok ())"
      "sync_store ?w s5 = Some (s6, Ok ())"
    and s': "s' = s6\<lparr>tl_turns := tl_turns s6 @ [t k]\<rparr>"
    by (auto simp: record_turn_def Let_def seq_Ok update_def lift_def t_def [symmetric] split: if_splits)
  note same = same_countersI [OF _ assms(2)]
  have "same_counters s s1" by (rule same [OF counters.keeps_now run(1)])
  also have "same_counters s1 s2" by (rule same [OF counters.keeps_record run(2)]) (use assms(2) in simp_all)
  also have "same_counters s2 s3" by (rule same [OF counters.keeps_sync run(3)])
  also have "same_counters s3 s4" by (rule same [OF counters.keeps_emit run(4)])
  also have "same_counters s4 s5" by (rule same [OF counters.keeps_await run(5)])
  also have "same_counters s5 s6" by (rule same [OF counters.keeps_sync run(6)])
  finally show ?thesis using s' by (auto simp: same_counters_def t_def)
qed

lemma holding_Ok: "holding item f s = Some (s', Ok x) \<longleftrightarrow> f s = Some (s', Ok x)"
  by (auto simp: holding_def split: option.splits prod.splits result.splits)

lemma check_limit_Ok:
  "check_limit env s = Some (s', Ok u) \<longleftrightarrow> s' = s \<and> (\<forall>n. te_max_turns env = Some n \<longrightarrow> length (tl_turns s) < n)"
  by (auto simp: check_limit_def lift_def give_def split: option.splits)

lemma run_turn_parts:
  assumes "run_turn env s = Some (s', Ok r)" "id_ok (te_run_id env)"
  shows "\<exists>s1 s2 turn settled on. same_counters s s1 \<and> (\<forall>n. te_max_turns env = Some n \<longrightarrow> length (tl_turns s) < n) \<and>
    record_turn env turn settled s1 = Some (s2, Ok ()) \<and> next_action env turn settled on s2 = Some (s', Ok r)"
proof -
  from assms(1) obtain t0 item t1 turn t2 t3 request tools gate t4 assistant_id attempt t5 assistant settled0 t6 t7 settled terminated t8
    where t0: "take_item s = Some (t0, Ok item)" and limit: "check_limit env t0 = Some (t0, Ok ())"
      and run: "begin_turn env item t0 = Some (t1, Ok turn)" "insert_user_message env turn item t1 = Some (t2, Ok ())"
        "model_request_of env turn t2 = Some (t3, Ok (request, tools, gate))"
        "stream_turn env turn request t3 = Some (t4, Ok (assistant_id, attempt))"
        "settle_turn env turn assistant_id attempt t4 = Some (t5, Ok (assistant, settled0))"
        "publish_assistant env turn assistant (sa_usage settled0) t5 = Some (t6, Ok ())"
        "run_tools env turn settled0 tools gate t6 = Some (t7, Ok (settled, terminated))"
      and ends: "record_turn env turn settled t7 = Some (t8, Ok ())"
        "next_action env turn settled (\<not> terminated \<and> sa_tool_calls settled0 \<noteq> []) t8 = Some (s', Ok r)"
    unfolding run_turn_def seq_Ok holding_Ok by (auto simp: check_limit_Ok seq_Ok)
  note same = same_countersI [OF _ assms(2)]
  have "same_counters s t0" using t0 by (auto simp: take_item_def same_counters_def)
  also have "same_counters t0 t1" by (rule same [OF counters.keeps_begin run(1)])
  also have "same_counters t1 t2" by (rule same [OF counters.keeps_insert run(2)]) simp
  also have "same_counters t2 t3" by (rule same [OF counters.keeps_request run(3)])
  also have "same_counters t3 t4" by (rule same [OF counters.keeps_stream run(4)])
  also have "same_counters t4 t5" by (rule same [OF counters.keeps_settle_turn run(5)])
  also have "same_counters t5 t6" by (rule same [OF counters.keeps_publish run(6)])
  also have "same_counters t6 t7" by (rule same [OF counters.keeps_tools run(7)])
  finally have "same_counters s t7" .
  moreover have "tl_turns t0 = tl_turns s" using t0 by (auto simp: take_item_def)
  ultimately show ?thesis using limit ends unfolding check_limit_Ok by metis
qed

lemma complete_Ok:
  "complete turn_id outcome reason s = Some (s', Ok r) \<longleftrightarrow>
    s' = s\<lparr>tl_produced := [], tl_turns := []\<rparr> \<and> r = Some \<lparr>rc_messages = tl_produced s, rc_turns = tl_turns s, rc_turn_id = turn_id,
      rc_outcome = outcome, rc_auto_compaction = reason\<rparr>"
  by (auto simp: complete_def finish_def seq_Ok give_def)

lemma retry_turn_Ok:
  assumes "retry_turn env turn_id f p s = Some (s', Ok r)" "id_ok (te_run_id env)"
  shows "case r of None \<Rightarrow> same_counters s s' | Some c \<Rightarrow> rc_turns c = tl_turns s \<and> rc_outcome c = RunCancelled"
proof -
  let ?w = "te_world env"
  note same = same_countersI [OF _ assms(2)]
  from assms(1) obtain s1 s2 s3 cancelled where
    run: "emit ?w (EvRetryScheduled turn_id p (mf_summary f)) s = Some (s1, Ok ())" "await_others ?w s1 = Some (s2, Ok ())"
      "is_cancelled ?w s2 = Some (s3, Ok cancelled)"
    and rest: "(if cancelled then seq (emit ?w (EvRetryEnd turn_id (rs_attempt p) False (Some ''Retry cancelled''))) (\<lambda>_.
          complete turn_id RunCancelled None)
        else seq (new_turn_id ?w) (\<lambda>next_id. seq (emit ?w (EvRetryStart next_id (rs_attempt p) (rs_max_attempts p))) (\<lambda>_.
          seq (update (\<lambda>s. s\<lparr>tl_next_turn_id := Some next_id\<rparr>)) (\<lambda>_. go_on)))) s3 = Some (s', Ok r)"
    unfolding retry_turn_def Let_def seq_Ok by auto
  have "same_counters s s1" by (rule same [OF counters.keeps_emit run(1)])
  also have "same_counters s1 s2" by (rule same [OF counters.keeps_await run(2)])
  also have "same_counters s2 s3" by (rule same [OF counters.keeps_cancelled run(3)])
  finally have s3: "same_counters s s3" .
  show ?thesis
  proof (cases cancelled)
    case True
    with rest obtain s4 where s4: "emit ?w (EvRetryEnd turn_id (rs_attempt p) False (Some ''Retry cancelled'')) s3 = Some (s4, Ok ())"
      and "r = Some \<lparr>rc_messages = tl_produced s4, rc_turns = tl_turns s4, rc_turn_id = turn_id, rc_outcome = RunCancelled,
        rc_auto_compaction = None\<rparr>" by (auto simp: seq_Ok complete_Ok)
    with same [OF counters.keeps_emit s4] s3 show ?thesis by (simp add: same_counters_def)
  next
    case False
    with rest obtain s4 s5 next_id where s4: "new_turn_id ?w s3 = Some (s4, Ok next_id)"
      and s5: "emit ?w (EvRetryStart next_id (rs_attempt p) (rs_max_attempts p)) s4 = Some (s5, Ok ())"
      and "r = None" "s' = s5\<lparr>tl_next_turn_id := Some next_id\<rparr>"
      by (auto simp: seq_Ok update_def go_on_def give_def)
    with s3 same [OF counters.keeps_turn_id s4] same [OF counters.keeps_emit s5] show ?thesis by (simp add: same_counters_def)
  qed
qed

text \<open>Why a further turn follows: the overflow was compacted away for the first time, a retry was granted, or the turn
  did not fail, and then the retry budget is full again.\<close>

definition goes_on :: "settled_assistant \<Rightarrow> turn_state \<Rightarrow> turn_state \<Rightarrow> bool" where
  "goes_on settled s s' \<longleftrightarrow>
     \<not> tl_overflow_attempted s \<and> tl_overflow_attempted s' \<and> tl_retry s' = tl_retry s \<or>
     tl_overflow_attempted s' = tl_overflow_attempted s \<and>
       (\<exists>f p. sa_failure settled = Some f \<and> schedule f (tl_retry s) = (tl_retry s', Some p)) \<or>
     tl_overflow_attempted s' = tl_overflow_attempted s \<and> sa_failure settled = None \<and> tl_retry s' = reset_retries (tl_retry s)"

lemma ask_retry_Ok:
  assumes "ask_retry settled s = Some (s', Ok planned)"
  shows "case planned of
      Some (f, p) \<Rightarrow> sa_failure settled = Some f \<and> schedule f (tl_retry s) = (tl_retry s', Some p) \<and> tl_turns s' = tl_turns s \<and>
        tl_overflow_attempted s' = tl_overflow_attempted s
    | None \<Rightarrow> s' = s"
proof (cases "sa_failure settled")
  case (Some f)
  obtain rt q where sch: "schedule f (tl_retry s) = (rt, q)" by fastforce
  with schedule_refused [of f "tl_retry s"] assms Some show ?thesis
    by (cases q) (auto simp: ask_retry_def give_def)
qed (use assms in \<open>auto simp: ask_retry_def give_def\<close>)

lemma end_retries_Ok:
  assumes "end_retries env turn_id settled s = Some (s', Ok u)" "id_ok (te_run_id env)"
  shows "tl_turns s' = tl_turns s \<and> tl_overflow_attempted s' = tl_overflow_attempted s \<and>
    (sa_failure settled = None \<longrightarrow> tl_retry s' = reset_retries (tl_retry s))"
proof (cases "rt_attempts (tl_retry s) = 0")
  case True
  then have "reset_retries (tl_retry s) = tl_retry s" by (simp add: reset_retries_def)
  with True assms(1) show ?thesis by (auto simp: end_retries_def give_def)
next
  case False
  show ?thesis
  proof (cases "sa_failure settled")
    case None
    with False assms(1) obtain s1 where s1: "emit (te_world env) (EvRetryEnd turn_id (rt_attempts (tl_retry s)) True None) s = Some (s1, Ok ())"
      and "s' = s1\<lparr>tl_retry := reset_retries (tl_retry s1)\<rparr>"
      by (auto simp: end_retries_def Let_def seq_Ok update_def)
    with same_countersI [OF counters.keeps_emit assms(2) s1] show ?thesis by (simp add: same_counters_def)
  next
    case (Some f)
    with False assms(1) have "emit (te_world env) (EvRetryEnd turn_id (rt_attempts (tl_retry s)) False (Some (mf_summary f))) s = Some (s', Ok u)"
      by (simp add: end_retries_def)
    from same_countersI [OF counters.keeps_emit assms(2) this] Some show ?thesis by (simp add: same_counters_def)
  qed
qed

lemma recover_Ok:
  fixes env :: "'i turn_env"
  assumes "seq (update (\<lambda>s. s\<lparr>tl_overflow_attempted := True\<rparr>)) (\<lambda>_.
      seq (perform_compaction (te_world env) reason excluded None None) (\<lambda>_.
      seq (new_turn_id (te_world env)) (\<lambda>next_id.
      seq (update (\<lambda>s. s\<lparr>tl_next_turn_id := Some next_id\<rparr>)) (\<lambda>_. go_on)))) s = Some (s', Ok r)" "id_ok (te_run_id env)"
  shows "r = None \<and> tl_turns s' = tl_turns s \<and> tl_retry s' = tl_retry s \<and> tl_overflow_attempted s'"
proof -
  from assms(1) obtain s1 s2 x next_id where
    s1: "perform_compaction (te_world env) reason excluded None None (s\<lparr>tl_overflow_attempted := True\<rparr>) = Some (s1, Ok x)"
    and s2: "new_turn_id (te_world env) s1 = Some (s2, Ok next_id)" and s': "s' = s2\<lparr>tl_next_turn_id := Some next_id\<rparr>" "r = None"
    by (auto simp: seq_Ok update_def go_on_def give_def)
  from same_countersI [OF counters.keeps_auto_compaction assms(2) s1] same_countersI [OF counters.keeps_turn_id assms(2) s2] s'
  show ?thesis by (simp add: same_counters_def)
qed

lemma claimed_Ok:
  assumes "seq (claim_next b) (\<lambda>_. seq (\<lambda>s. give (tl_queued_item s) s) (\<lambda>item.
      if on \<or> item \<noteq> None then go_on
      else seq (\<lambda>s. give (auto_compaction env turn settled s) s) (\<lambda>reason. complete turn_id RunSucceeded reason))) s = Some (s', Ok r)"
    "id_ok (te_run_id env)"
  shows "case r of None \<Rightarrow> same_counters s s' | Some c \<Rightarrow> rc_turns c = tl_turns s \<and> rc_outcome c = RunSucceeded"
proof -
  from assms(1) obtain s1 where s1: "claim_next b s = Some (s1, Ok ())"
    and rest: "(if on \<or> tl_queued_item s1 \<noteq> None then go_on
      else seq (\<lambda>s. give (auto_compaction env turn settled s) s) (\<lambda>reason. complete turn_id RunSucceeded reason)) s1 = Some (s', Ok r)"
    by (auto simp: seq_Ok give_def)
  from same_countersI [OF counters.keeps_claim assms(2) s1] rest show ?thesis
    by (auto simp: same_counters_def seq_Ok go_on_def give_def complete_Ok split: if_splits)
qed

lemma next_action_Ok:
  assumes "next_action env turn settled on s = Some (s', Ok r)" "id_ok (te_run_id env)"
  shows "case r of None \<Rightarrow> tl_turns s' = tl_turns s \<and> goes_on settled s s' | Some c \<Rightarrow> rc_turns c = tl_turns s"
proof (cases "sa_cancelled settled")
  case True
  with assms(1) show ?thesis by (auto simp: next_action_def Let_def complete_Ok)
next
  case False
  show ?thesis
  proof (cases "sa_overflow_recovery settled = Some CompactAndRetry \<and> \<not> tl_overflow_attempted s")
    case True
    with assms(1) False recover_Ok [OF _ assms(2), of CrOverflow "Some (sa_assistant_id settled)" s s' r] show ?thesis
      by (simp add: next_action_def Let_def seq_read goes_on_def)
  next
    case plain: False
    with assms(1) False obtain s1 planned where s1: "ask_retry settled s = Some (s1, Ok planned)"
      and rest: "(case planned of
          Some (f, p) \<Rightarrow> retry_turn env (tx_turn_id turn) f p
        | None \<Rightarrow>
            seq (end_retries env (tx_turn_id turn) settled) (\<lambda>_.
            case sa_failure settled of
              Some f \<Rightarrow> complete (tx_turn_id turn) (RunFailed (mf_summary f)) None
            | None \<Rightarrow>
                seq (claim_next (\<not> on)) (\<lambda>_. seq (\<lambda>s. give (tl_queued_item s) s) (\<lambda>item.
                if on \<or> item \<noteq> None then go_on
                else seq (\<lambda>s. give (auto_compaction env turn settled s) s) (\<lambda>reason.
                  complete (tx_turn_id turn) RunSucceeded reason))))) s1 = Some (s', Ok r)"
      unfolding next_action_def Let_def
      by (auto simp: seq_read seq_Ok [of "ask_retry settled"])
    show ?thesis
    proof (cases planned)
      case (Some fp)
      then obtain f p where fp: "planned = Some (f, p)" by (cases fp) simp
      from ask_retry_Ok [OF s1] fp have s1': "sa_failure settled = Some f" "schedule f (tl_retry s) = (tl_retry s1, Some p)"
        "tl_turns s1 = tl_turns s" "tl_overflow_attempted s1 = tl_overflow_attempted s" by simp_all
      with rest fp retry_turn_Ok [OF _ assms(2), of "tx_turn_id turn" f p s1 s' r] show ?thesis
        by (auto simp: same_counters_def goes_on_def split: option.splits)
    next
      case None
      with ask_retry_Ok [OF s1] have "s1 = s" by simp
      with rest None obtain s2 where s2: "end_retries env (tx_turn_id turn) settled s = Some (s2, Ok ())"
        and rest': "(case sa_failure settled of
              Some f \<Rightarrow> complete (tx_turn_id turn) (RunFailed (mf_summary f)) None
            | None \<Rightarrow>
                seq (claim_next (\<not> on)) (\<lambda>_. seq (\<lambda>s. give (tl_queued_item s) s) (\<lambda>item.
                if on \<or> item \<noteq> None then go_on
                else seq (\<lambda>s. give (auto_compaction env turn settled s) s) (\<lambda>reason.
                  complete (tx_turn_id turn) RunSucceeded reason)))) s2 = Some (s', Ok r)"
        by (auto simp: seq_Ok)
      note e = end_retries_Ok [OF s2 assms(2)]
      show ?thesis
      proof (cases "sa_failure settled")
        case None
        with rest' e claimed_Ok [OF _ assms(2), of "\<not> on" on turn settled "tx_turn_id turn" s2 s' r] show ?thesis
          by (auto simp: same_counters_def goes_on_def split: option.splits)
      next
        case (Some f)
        with rest' e show ?thesis by (auto simp: complete_Ok)
      qed
    qed
  qed
qed

section \<open>A limited run returns\<close>

lemma stream_assistant_ends:
  "(opened = Ok () \<Longrightarrow> stream_ends items) \<Longrightarrow> snd (stream_assistant env observes a started opened now items) \<noteq> None"
  using stream_loop_ends [of items env observes a]
  by (auto simp: stream_assistant_def split: result.splits prod.splits option.splits model_error.splits)

lemma round_adds:
  assumes "turn_round env c s = Some (s', Ok (Inl c'))" "id_ok (te_run_id env)"
  shows "length (tl_turns s') = Suc (length (tl_turns s)) \<and> (\<forall>n. te_max_turns env = Some n \<longrightarrow> length (tl_turns s) < n)"
proof -
  from assms(1) have "run_turn env s = Some (s', Ok None)"
    by (auto simp: turn_round_def seq_Ok give_def split: option.splits)
  from run_turn_parts [OF this assms(2)] obtain s1 s2 turn settled on where p: "same_counters s s1"
    "\<forall>n. te_max_turns env = Some n \<longrightarrow> length (tl_turns s) < n" "record_turn env turn settled s1 = Some (s2, Ok ())"
    "next_action env turn settled on s2 = Some (s', Ok None)" by blast
  from record_turn_adds [OF p(3) assms(2)] next_action_Ok [OF p(4) assms(2)] p(1,2) show ?thesis
    by (auto simp: same_counters_def)
qed

locale run_returns = run_frame I R env ok_item + world_returns I R "te_world env"
  for I :: "turn_state \<Rightarrow> bool" and R :: "turn_state \<Rightarrow> turn_state \<Rightarrow> bool" and env :: "'i turn_env" and ok_item :: "pending_item \<Rightarrow> bool" +
  assumes batches_end: "I s \<Longrightarrow> turn_batch env turn calls tools gate s \<noteq> None"
    and limited: "I s \<Longrightarrow> te_max_turns env \<noteq> None"
begin

lemma returns_holding: "returns I f \<Longrightarrow> returns I (holding item f)"
  by (fastforce simp: returns_def holding_def split: option.splits result.splits)

lemma returns_loop_steps [returns_intros]:
  "returns I (update f)" "returns I take_item" "returns I (check_limit env)" "returns I take_drafts" "returns I (produced m)"
  "returns I (finish turn_id outcome reason)" "returns I (ask_retry settled)" "returns I (claim_next b)" "returns I drop_claim"
  "returns I go_on"
  by (auto simp: returns_def update_def take_item_def check_limit_def take_drafts_def produced_def finish_def ask_retry_def
      claim_next_def drop_claim_def go_on_def give_def lift_def split: option.splits prod.splits)

lemma returns_choose [returns_intros]: "returns I (choose_turn_id env item)"
  using returnsD [OF returns_now(3)] by (fastforce simp: returns_def choose_turn_id_def give_def split: option.splits)

lemma returns_begin [returns_intros]: "returns I (begin_turn env item)"
  unfolding begin_turn_def Let_def by (intro returns_then returns_intros keeps_intros)

lemma returns_user_message [returns_intros]: "returns I (user_message env turn_id item)"
proof -
  have "returns (\<lambda>_. True) (seq (message_now (te_world env) turn_id content) (\<lambda>m. give (Some m)) :: agent_message option turn_act)" for content
    by (auto simp: returns_def seq_def message_now_def now_ms_def draw_def fresh_id_def lift_def give_def split: result.splits)
  then show ?thesis by (auto simp: returns_def user_message_def give_def split: option.splits)
qed

lemma returns_announce [returns_intros]: "returns I (announce_user env turn_id item)"
  unfolding announce_user_def Let_def by (intro returns_then returns_intros keeps_intros)

lemma returns_notify [returns_intros]: "returns I (notify_inserted notice mid)"
  unfolding notify_inserted_def by (intro returns_intros)

lemma returns_insert:
  assumes "held_ok item"
  shows "returns I (insert_user_message env turn item)"
  unfolding insert_user_message_def Let_def
proof (rule returns_seq_gives [OF returns_holding [OF returns_announce] keeps_holding [OF keeps_announce assms]
    gives_holding [OF gives_announce]], goal_cases)
  case (1 announced)
  then show ?case using assms
    by (intro returns_then returns_intros keeps_intros keeps_consume keeps_update loop_steps(4)) auto
qed

lemma returns_drafts [returns_intros]: "returns I (add_drafts (te_world env) turn_id drafts history)"
  by (induction "te_world env" turn_id drafts history rule: add_drafts.induct) (auto intro!: returns_then returns_intros keeps_intros)

lemma returns_request [returns_intros]: "returns I (model_request_of env turn)"
  unfolding model_request_of_def system_prompt_message_def Let_def by (intro returns_then returns_intros keeps_intros)

lemma returns_stream [returns_intros]: "returns I (stream_turn env turn request)"
proof -
  have ends: "returns I (\<lambda>s. case stream_assistant m obs a (Ok ()) (re_opened (te_world env) k) now (re_stream (te_world env) k) of
      (deltas, None) \<Rightarrow> None | (deltas, Some r) \<Rightarrow> Some (s\<lparr>rw_events := rw_events s @ f deltas\<rparr>, g r))"
    for m obs a k now f and g :: "(attempt_result, kernel_error) result \<Rightarrow> (message_id \<times> attempt_result, kernel_error) result"
    unfolding returns_def
  proof (intro allI impI)
    fix s assume s: "I s"
    have "snd (stream_assistant m obs a (Ok ()) (re_opened (te_world env) k) now (re_stream (te_world env) k)) \<noteq> None"
      by (rule stream_assistant_ends) (rule streams_end [OF s])
    then show "(case stream_assistant m obs a (Ok ()) (re_opened (te_world env) k) now (re_stream (te_world env) k) of
      (deltas, None) \<Rightarrow> None | (deltas, Some r) \<Rightarrow> Some (s\<lparr>rw_events := rw_events s @ f deltas\<rparr>, g r)) \<noteq> None"
      by (auto split: prod.splits option.splits)
  qed
  have sent: "returns I (seq (send_request (te_world env) request) (\<lambda>(opened, items). h opened items))"
    if "\<And>k. returns I (h (re_opened (te_world env) k) (re_stream (te_world env) k))" for h :: "_ \<Rightarrow> _ \<Rightarrow> (message_id \<times> attempt_result) turn_act"
    by (rule returns_seq_gives [OF returns_send keeps_send gives_sent]) (use that in auto)
  show ?thesis unfolding stream_turn_def Let_def
    by (rule returns_then [OF returns_fresh keeps_fresh], rule returns_then [OF returns_now(1) keeps_now],
        rule returns_then [OF returns_steps(3) keeps_emit], rule returns_then [OF returns_steps(2) keeps_await], rule sent,
        rule returns_then [OF returns_now(1) keeps_now], rule ends)
qed

lemma returns_settle_turn [returns_intros]: "returns I (settle_turn env turn assistant_id attempt)"
proof -
  have returned: "returns I (\<lambda>s. case f (tl_usage s) of (usage, r) \<Rightarrow> Some (s\<lparr>tl_usage := usage\<rparr>, r))"
    for f :: "json \<Rightarrow> json \<times> (agent_message \<times> settled_assistant, kernel_error) result"
    by (auto simp: returns_def split: prod.splits)
  have kept: "keeps I R (\<lambda>s. case f (tl_usage s) of (usage, r) \<Rightarrow> Some (s\<lparr>tl_usage := usage\<rparr>, r))"
    for f :: "json \<Rightarrow> json \<times> (agent_message \<times> settled_assistant, kernel_error) result"
    using loop_steps(5) by (auto simp: keeps_def split: prod.splits)
  show ?thesis unfolding settle_turn_def Let_def
    by (rule returns_then [OF returns_steps(1) keeps_draw], rule returns_then [OF returned kept])
      (intro returns_then returns_intros keeps_intros)
qed

lemma returns_publish [returns_intros]:
  "returns I (publish_assistant env turn assistant usage)" "returns I (publish_result_message (te_world env) turn_id m)"
  unfolding publish_assistant_def publish_result_message_def Let_def by (intro returns_then returns_intros keeps_intros)+

lemma returns_tools [returns_intros]: "returns I (run_tools env turn settled tools gate)"
proof -
  have "returns I (turn_batch env turn calls tools gate)" for calls using batches_end by (simp add: returns_def)
  then show ?thesis unfolding run_tools_def
    by (intro returns_then returns_intros keeps_intros returns_each [where R = R])
qed

lemma returns_record_turn [returns_intros]: "returns I (record_turn env turn settled)"
  unfolding record_turn_def Let_def
  by (rule returns_given [OF run_id], assumption) (intro returns_then returns_intros keeps_intros typed_payloads)

lemma returns_complete [returns_intros]: "returns I (complete turn_id outcome reason)"
  by (auto simp: returns_def complete_def finish_def seq_def give_def)

lemma returns_retry_turn [returns_intros]: "returns I (retry_turn env turn_id f planned)"
  unfolding retry_turn_def Let_def by (intro returns_then returns_intros keeps_intros keeps_update loop_steps(2))

lemma returns_end_retries [returns_intros]: "returns I (end_retries env turn_id settled)"
  by (auto simp: returns_def end_retries_def Let_def give_def seq_def emit_def update_def split: option.splits result.splits)

lemma returns_next [returns_intros]: "returns I (next_action env turn settled on)"
  unfolding next_action_def Let_def
  by (intro returns_then returns_intros keeps_intros keeps_update counter_steps(3) loop_steps(2))

lemma returns_take: "(\<And>item. held_ok item \<Longrightarrow> returns I (g item)) \<Longrightarrow> returns I (seq take_item g)"
  unfolding returns_def
proof (intro allI impI)
  fix s assume g: "\<And>item. held_ok item \<Longrightarrow> \<forall>s. I s \<longrightarrow> g item s \<noteq> None" and s: "I s"
  have "held_ok (tl_queued_item s)" using queued_ok s by blast
  with g queued_step [OF s, of None] show "seq take_item g s \<noteq> None" by (simp add: seq_def take_item_def)
qed

lemma returns_turn [returns_intros]: "returns I (run_turn env)"
  unfolding run_turn_def
proof (rule returns_take)
  fix item assume item: "held_ok item"
  have kept: "keeps I R (holding item (seq (check_limit env) (\<lambda>_. begin_turn env item)))"
    using item by (intro keeps_holding keeps_intros)
  have begun: "returns I (holding item (seq (check_limit env) (\<lambda>_. begin_turn env item)))"
    by (intro returns_holding returns_then returns_intros keeps_intros)
  show "returns I (seq (holding item (seq (check_limit env) (\<lambda>_. begin_turn env item))) (\<lambda>turn.
     seq (insert_user_message env turn item) (\<lambda>_.
     seq (model_request_of env turn) (\<lambda>(request, tools, gate).
     seq (stream_turn env turn request) (\<lambda>(assistant_id, attempt).
     seq (settle_turn env turn assistant_id attempt) (\<lambda>(assistant, settled0).
     seq (publish_assistant env turn assistant (sa_usage settled0)) (\<lambda>_.
     seq (run_tools env turn settled0 tools gate) (\<lambda>(settled, terminated).
     seq (record_turn env turn settled) (\<lambda>_.
     next_action env turn settled (\<not> terminated \<and> sa_tool_calls settled0 \<noteq> []))))))))))"
    by (rule returns_then [OF begun kept], rule returns_then [OF returns_insert [OF item] keeps_insert [OF item]])
      (intro returns_then returns_intros keeps_intros)
qed

lemma returns_rounds: "returns I (act_loop (turn_round env) ())"
  unfolding returns_def
proof (intro allI impI)
  fix s assume s: "I s"
  from limited [OF s] obtain n where n: "te_max_turns env = Some n" by blast
  have turn: "returns I (turn_round env c)" "keeps I R (turn_round env c)" for c
    unfolding turn_round_def by (intro returns_then returns_intros keeps_intros)+
  have "\<exists>y. act_loop (turn_round env) () s = Some y"
  proof (rule act_loop_total [where I = "\<lambda>_. I" and m = "\<lambda>_ s. n - length (tl_turns s)"])
    show "turn_round env c s \<noteq> None" if "I s" for c s using returnsD [OF turn(1) that] by auto
    show "I s' \<and> n - length (tl_turns s') < n - length (tl_turns s)" if "I s" "turn_round env c s = Some (s', Ok (Inl c'))" for c s c' s'
      using keepsD [OF turn(2) that] round_adds [OF that(2) run_id [OF that(1)]] n by auto
  qed (rule s)
  then show "act_loop (turn_round env) () s \<noteq> None" by auto
qed

lemma returns_execute [returns_intros]: "returns I (execute env prompt)"
  unfolding execute_def start_agent_def Let_def
  by (intro returns_then returns_intros keeps_intros keeps_update loop_steps(6) returns_rounds)

lemma returns_settlement [returns_intros]:
  "returns I (run_settlement (te_world env) (te_run_id env) turn_id outcome usage messages afterwards)"
  unfolding run_settlement_def Let_def
  by (rule returns_given [OF run_id], assumption)
    (intro returns_then returns_intros keeps_intros keeps_session session_step typed_payloads; auto simp: settle_accepted_def dest: items_ok)

lemma returns_settle_run [returns_intros]: "returns I (settle_run env first_turn_id execution)"
  unfolding settle_run_def settle_retained_def close_run_queue_def withdraw_rest_def Let_def
  by (intro returns_then returns_intros keeps_intros keeps_queue_ends [unfolded close_run_queue_def withdraw_rest_def])

lemma returns_run: "returns I (run_agent env first_turn_id prompt)"
proof -
  have typed: "typed_payload record_keys (JObject [(''operation'', JString ''agent'')])"
    by (simp add: typed_payload_def payload_clear_def keys_def record_keys_def)
  show ?thesis unfolding run_agent_def Let_def
    by (rule returns_given [OF run_id], assumption)
      (intro returns_then returns_intros keeps_intros keeps_session session_step typed returns_catching; auto dest: items_ok)
qed

end

end
