(* ===== verification/Message_Codec.thy ===== *)
theory Message_Codec
  imports Transcript_Props "HOL-Library.Countable"
begin

text \<open>
  A codec of messages exists: messages are countable, so that each can be written as its number. The real codec is a
  parameter of the development; this one shows that what is asked of it can be had.
\<close>

section \<open>Messages are countable\<close>

instance char :: countable
  by (rule countable_classI [of "of_char"]) simp

instance json_number :: countable by countable_datatype
instance json :: countable by countable_datatype
instance embedded_resource_content :: countable by countable_datatype
instance content_block :: countable by countable_datatype
instance stop_reason :: countable by countable_datatype
instance slash_command_source :: countable by countable_datatype
instance slash_command_status :: countable by countable_datatype
instance user_bash_disposition :: countable by countable_datatype

instance message_identity_ext :: (countable) countable
  by (rule countable_classI [of "\<lambda>r. to_nat (mi_message_id r, mi_turn_id r, message_identity.more r)"]) simp

instance message_timing_ext :: (countable) countable
  by (rule countable_classI [of "\<lambda>r. to_nat (mt_timestamp_ms r, mt_started_at_ms r, mt_ended_at_ms r, message_timing.more r)"]) simp

instance assistant_metadata_ext :: (countable) countable
  by (rule countable_classI [of "\<lambda>r. to_nat (am_provider_id r, am_model_id r, am_stop_reason r, am_raw_stop_reason r,
    am_usage r, am_error r, am_context_overflow r, assistant_metadata.more r)"]) simp

instance extension_message_ext :: (countable) countable
  by (rule countable_classI [of "\<lambda>r. to_nat (em_extension_id r, em_custom_type r, em_blocks r, em_display r,
    em_include_in_context r, em_details r, extension_message.more r)"]) simp

instance compaction_summary_message_ext :: (countable) countable
  by (rule countable_classI [of "\<lambda>r. to_nat (csm_entry_id r, csm_summary r, csm_tokens_before r, csm_read_files r,
    csm_modified_files r, compaction_summary_message.more r)"]) simp

instance user_bash_result_ext :: (countable) countable
  by (rule countable_classI [of "\<lambda>r. to_nat (ub_disposition r, ub_output r, ub_exit_code r, ub_signal r, ub_cancelled r,
    ub_truncated r, ub_full_output_path r, user_bash_result.more r)"]) simp

instance bash_execution_message_ext :: (countable) countable
  by (rule countable_classI [of "\<lambda>r. to_nat (be_command r, be_result r, be_exclude_from_context r, be_cwd r,
    bash_execution_message.more r)"]) simp

instance slash_command_invocation_ext :: (countable) countable
  by (rule countable_classI [of "\<lambda>r. to_nat (sci_original r, sci_name r, sci_arguments r, slash_command_invocation.more r)"]) simp

instance slash_command_expansion_ext :: (countable) countable
  by (rule countable_classI [of "\<lambda>r. to_nat (sce_invocation r, sce_source r, sce_model_blocks r, slash_command_expansion.more r)"]) simp

instance slash_command_output_ext :: (countable) countable
  by (rule countable_classI [of "\<lambda>r. to_nat (sco_command r, sco_source r, sco_status r, sco_blocks r, slash_command_output.more r)"]) simp

instance slash_command_message :: countable by countable_datatype
instance message_content :: countable by countable_datatype

instance agent_message_ext :: (countable) countable
  by (rule countable_classI [of "\<lambda>r. to_nat (msg_identity r, msg_timing r, msg_content r, agent_message.more r)"]) simp

section \<open>The codec\<close>

definition number_message :: "agent_message \<Rightarrow> json" where
  "number_message m = JObject [(''number'', JNumber (PosInt (to_nat m)))]"

fun numbered_message :: "json \<Rightarrow> agent_message option" where
  "numbered_message (JObject [(k, JNumber (PosInt n))]) = Some (from_nat n)"
| "numbered_message _ = None"

lemma number_message_roundtrip: "numbered_message (number_message m) = Some m"
  by (simp add: number_message_def)

end
