(* ===== verification/Run_Correct.thy ===== *)
theory Run_Correct
  imports Turn_Limit Message_Codec Attempt_Props Catalog_Props
begin

text \<open>
  The properties of a run as a whole, with a concrete run for each.
\<close>

section \<open>A run that ends\<close>

definition ending :: "'i turn_env \<Rightarrow> bool" where
  "ending env \<longleftrightarrow>
     (\<forall>k. re_opened (te_world env) k = Ok () \<longrightarrow> stream_ends (re_stream (te_world env) k)) \<and>
     (\<forall>turn calls tools gate s. turn_batch env turn calls tools gate s \<noteq> None) \<and> te_max_turns env \<noteq> None"

lemma boundary_commits: "transcript_inv tenv t \<Longrightarrow> commit_compaction tenv w now entry ctx t \<noteq> None"
  using run_transcript_op_defined [of tenv t now "TCompaction w entry ctx"] by (auto split: option.splits)

interpretation limited_run: run_returns "\<lambda>s. ending env \<and> run_inv env s" "\<lambda>_ _. True" env "\<lambda>i. id_ok (pi_entry_id i)"
  for env :: "'i turn_env"
proof (unfold_locales; (elim conjE)?; (intro conjI TrueI)?; assumption?; (elim run_inv_record run_inv_boundary run_inv_consume run_inv_withdraw
    run_inv_persist run_inv_sync run_inv_name; assumption)?)
  fix s :: turn_state and k q
  assume inv: "run_inv env s"
  show "run_inv env (s\<lparr>rw_session := re_others (te_world env) k (rw_session s)\<rparr>)"
    using inv by (simp add: run_inv_def lawful_run_def Let_def)
  show "commit_compaction (re_tenv (te_world env)) w now entry ctx (run_transcript_of s) \<noteq> None" for w now entry ctx
    using boundary_commits [OF run_invD(7) [OF inv]] .
qed (auto simp: run_inv_def session_inv_def lawful_run_def ending_def Let_def)

lemma started_inv:
  assumes "lawful_run env" "session_inv (re_tenv (te_world env)) (rw_session r)"
  shows "run_inv env (started_loop env first_turn_id content r)"
  using assms by (simp add: run_inv_def started_loop_def run_state.extend_def)

section \<open>Failures in a row\<close>

definition failed_turn :: "turn_record \<Rightarrow> bool" where
  "failed_turn t \<longleftrightarrow> (case tn_outcome t of TurnFailed m \<Rightarrow> True | _ \<Rightarrow> False)"

definition trailing :: "turn_record list \<Rightarrow> nat" where
  "trailing ts = length (takeWhile failed_turn (rev ts))"

lemma trailing_snoc: "trailing (ts @ [t]) = (if failed_turn t then Suc (trailing ts) else 0)"
  by (simp add: trailing_def)

lemma trailing_stretch: "list_all failed_turn fs \<Longrightarrow> length fs \<le> trailing (xs @ fs)"
  by (induction fs arbitrary: xs rule: rev_induct) (simp_all add: trailing_def)

text \<open>What holds before every turn: the failures at the end are covered by the retries granted since the last
  success, and by the one recovery from an overflow.\<close>

definition spent :: "retry_policy \<Rightarrow> turn_state \<Rightarrow> bool" where
  "spent policy s \<longleftrightarrow> rt_policy (tl_retry s) = policy \<and> rt_attempts (tl_retry s) \<le> rp_max_retries policy \<and>
     trailing (tl_turns s) \<le> rt_attempts (tl_retry s) + of_bool (tl_overflow_attempted s) \<and>
     (\<forall>n. trailing (take n (tl_turns s)) \<le> rp_max_retries policy + 2)"

lemma schedule_spends:
  "schedule f rt = (rt', Some p) \<Longrightarrow>
    rt_policy rt' = rt_policy rt \<and> rt_attempts rt' = Suc (rt_attempts rt) \<and> rt_attempts rt < rp_max_retries (rt_policy rt)"
  by (auto simp: schedule_def checked_add_u32_def split: if_splits option.splits)

lemma take_snoc_bound:
  assumes "\<forall>n. trailing (take n ts) \<le> b" "trailing (ts @ [t]) \<le> b"
  shows "\<forall>n. trailing (take n (ts @ [t])) \<le> b"
proof
  fix n show "trailing (take n (ts @ [t])) \<le> b"
  proof (cases "n \<le> length ts")
    case True
    with assms(1) show ?thesis by simp
  next
    case False
    then have "take n (ts @ [t]) = ts @ [t]" by simp
    with assms(2) show ?thesis by simp
  qed
qed

lemma run_turn_spends:
  assumes "run_turn env s = Some (s', Ok r)" "id_ok (te_run_id env)" "spent policy s"
  shows "case r of None \<Rightarrow> spent policy s' | Some c \<Rightarrow> (\<forall>n. trailing (take n (rc_turns c)) \<le> rp_max_retries policy + 2)"
proof -
  from run_turn_parts [OF assms(1,2)] obtain s1 s2 turn settled on where p: "same_counters s s1"
    "record_turn env turn settled s1 = Some (s2, Ok ())" "next_action env turn settled on s2 = Some (s', Ok r)" by blast
  from record_turn_adds [OF p(2) assms(2)] p(1) obtain t where t: "tl_turns s2 = tl_turns s @ [t]"
    "tn_outcome t = settled_outcome settled" "tl_retry s2 = tl_retry s" "tl_overflow_attempted s2 = tl_overflow_attempted s"
    by (auto simp: same_counters_def)
  note sp = assms(3) [unfolded spent_def]
  have "trailing (tl_turns s @ [t]) \<le> rp_max_retries policy + 2"
    using sp by (cases "tl_overflow_attempted s") (simp_all add: trailing_snoc)
  then have all: "\<forall>n. trailing (take n (tl_turns s @ [t])) \<le> rp_max_retries policy + 2"
    using sp by (intro take_snoc_bound) simp_all
  show ?thesis
  proof (cases r)
    case (Some c)
    with next_action_Ok [OF p(3) assms(2)] t(1) all show ?thesis by simp
  next
    case None
    with next_action_Ok [OF p(3) assms(2)] t(1) have s': "tl_turns s' = tl_turns s @ [t]" "goes_on settled s2 s'" by simp_all
    have unfailed: "\<not> failed_turn t" if "sa_failure settled = None"
      using that t(2) by (auto simp: failed_turn_def settled_outcome_def)
    show ?thesis
      using None s' sp t(3,4) all unfailed
      by (auto simp: goes_on_def spent_def trailing_snoc reset_retries_def dest!: schedule_spends)
  qed
qed

section \<open>A concrete run\<close>

definition number_tenv :: transcript_env where
  "number_tenv = \<lparr>senv = sample_env, encode_message = number_message, decode_message = numbered_message\<rparr>"

definition sample_world :: "transcript_env \<Rightarrow> run_env" where
  "sample_world tenv = \<lparr>re_tenv = tenv, re_model = sample_model_env, re_native_text = (\<lambda>v. []), re_measure = sample_counters,
     re_describe = (\<lambda>e. ''failed''), re_compaction_policy = default_compaction_policy, re_retry_policy = default_retry_policy,
     re_retry_limit = 0, re_now = (\<lambda>k. k mod 1000), re_id = decimal, re_write = (\<lambda>k. Written),
     re_queue_io = (\<lambda>k. sample_io), re_emit = (\<lambda>k. Ok ()), re_others = (\<lambda>k q. q), re_cancelled = (\<lambda>k. False),
     re_profile = (\<lambda>k. Ok sample_profile), re_preflight = (\<lambda>k. Ok ()), re_opened = (\<lambda>k. Ok ()),
     re_stream = (\<lambda>k. sample_stream), re_before_compact = (\<lambda>k. []), re_message_end = (\<lambda>k. [])\<rparr>"

definition sample_run :: "transcript_env \<Rightarrow> unit turn_env" where
  "sample_run tenv = \<lparr>te_world = sample_world tenv, te_run_id = ''run'', te_notice = None, te_max_turns = Some 3,
     te_tools = (\<lambda>k. sample_snapshot), te_mode = (\<lambda>k. ModeDefault), te_system_prompt = (\<lambda>k tools. Ok ''system''),
     te_before_agent = (\<lambda>k. []), te_context_hooks = (\<lambda>k. []), te_observes = False, te_shlex = (\<lambda>t. None),
     te_call_hooks = (\<lambda>k. []), te_result_hooks = (\<lambda>k. []), te_output_json = (\<lambda>info. JNull),
     te_announced = (\<lambda>k j. (0, Err PromptCancelled)), te_batch = (\<lambda>k. []), te_flushed = (\<lambda>k. Ok ())\<rparr>"

definition sample_start :: "transcript_env \<Rightarrow> turn_state" where
  "sample_start tenv = started_loop (sample_run tenv) ''t1'' (McUser [CbText ''hi''])
     \<lparr>rw_step = 0, rw_session = sample_queue_session, rw_events = [], rw_requests = []\<rparr>"

lemma sample_session_inv: "session_inv number_tenv sample_queue_session"
proof -
  have nb: "\<not> is_blank ''main''" by (rule not_blank_char; simp add: ws1_def)
  have "store_inv ''main'' sample_store"
    using wf_state_new nb
    by (simp add: store_inv_def sample_store_def id_ok_def opt_id_ok_def lane_leaf_def) (simp add: SessionState_new_def)
  moreover have "synced number_tenv sample_transcript"
    by (simp add: synced_def active_branch_def lane_leaf_def sample_transcript_def sample_store_def SessionState_new_def rebuild_def)
  ultimately show ?thesis
    by (simp add: session_inv_def transcript_inv_def sample_queue_session_def queue_items_def empty_queue_def)
      (simp add: sample_transcript_def)
qed

lemma sample_lawful: "lawful_run (sample_run number_tenv)"
proof -
  have nb: "\<not> is_blank ''run''" by (rule not_blank_char; simp add: ws1_def)
  have codec: "lawful_codec number_tenv"
    by (simp add: lawful_codec_def number_tenv_def number_message_roundtrip sample_env_def)
      (simp add: number_message_def typed_payload_def payload_clear_def keys_def entry_keys_def)
  have time: "k mod 1000 \<le> u64_max" for k :: nat
    by (rule order_trans [of _ 1000]) (simp_all add: u64_max_def less_imp_le)
  have "typed_draws (sample_world number_tenv)"
    using time by (simp add: typed_draws_def sample_world_def number_tenv_def sample_env_def)
  with nb codec show ?thesis
    by (simp add: lawful_run_def sample_run_def id_ok_def) (simp add: sample_world_def Queue_Recovery.sample_io_def u64_max_def)
qed

lemma sample_ending: "ending (sample_run number_tenv)"
proof -
  have "turn_batch (sample_run number_tenv) turn calls tools gate s \<noteq> None" for turn calls tools gate s
    by (cases calls) (simp_all add: turn_batch_def seq_def draw_def await_others_def lift_def sample_run_def execute_tool_batch_def
        start_batch_def Let_def split: result.splits option.splits)
  then show ?thesis by (simp add: ending_def) (simp add: sample_run_def sample_world_def stream_ends_def sample_stream_def)
qed

lemma sample_inv: "run_inv (sample_run number_tenv) (sample_start number_tenv)"
  using started_inv [OF sample_lawful] sample_session_inv
  by (simp add: sample_start_def) (simp add: sample_run_def sample_world_def)

section \<open>Properties of a run\<close>

text \<open>C5: with a turn limit, model streams that end and tool batches that settle, every run returns, with an answer or
  with an error: its retries and the retries of its summaries are bounded by their budgets, its turns by the limit.\<close>

theorem limited_run_returns:
  assumes "lawful_run env" "ending env" "session_inv (re_tenv (te_world env)) (rw_session r)"
  shows "\<exists>s' answer. run_agent env first_turn_id prompt (started_loop env first_turn_id content r) = Some (s', answer)"
  using returnsD [OF limited_run.returns_run] started_inv [OF assms(1,3)] assms(2) by blast

theorem limited_run_returns_witness:
  "\<exists>s' answer. run_agent (sample_run number_tenv) ''t1'' ''hi'' (sample_start number_tenv) = Some (s', answer)"
  using limited_run_returns [OF sample_lawful sample_ending,
      of "\<lparr>rw_step = 0, rw_session = sample_queue_session, rw_events = [], rw_requests = []\<rparr>" "''t1''" "''hi''" "McUser [CbText ''hi'']"]
    sample_session_inv
  by (simp add: sample_start_def) (simp add: sample_run_def sample_world_def)



end
