(* ===== verification/Run_Limits.thy ===== *)
theory Run_Limits
  imports Run_Correct
begin

text \<open>
  The limits of a run: how many turns it may take and how many of them may fail in a row, with a
  concrete run whose model stream breaks off with an error that is not retried.
\<close>

section \<open>A run that fails once\<close>

definition lost_world :: run_env where
  "lost_world = (sample_world sample_tenv)\<lparr>re_stream := (\<lambda>k. [SiError (MeProtocol ''lost'') 9]), re_now := (\<lambda>k. 7),
     re_id := (\<lambda>k. ''x''),
     re_compaction_policy := \<lparr>cpo_enabled = False, cpo_reserve_tokens = 0, cpo_keep_recent_tokens = 0\<rparr>\<rparr>"

definition lost_tools :: "unit tool_snapshot" where
  "lost_tools = \<lparr>sn_builtins = [], sn_extensions = [], sn_mcp = [], sn_selection = default_selection, sn_revision = 0,
     sn_search_index = [], sn_kernel_owned = {}\<rparr>"

definition lost_run :: "unit turn_env" where
  "lost_run = (sample_run sample_tenv)\<lparr>te_world := lost_world, te_tools := (\<lambda>k. lost_tools)\<rparr>"

definition lost_start :: turn_state where
  "lost_start = (sample_start sample_tenv)\<lparr>tl_initial_input := None\<rparr>"

definition lost_turn :: turn_context where
  "lost_turn = \<lparr>tx_turn_id = ''t1'', tx_started_at = 7, tx_profile = sample_profile\<rparr>"

definition lost_message :: agent_message where
  "lost_message = \<lparr>msg_identity = \<lparr>mi_message_id = ''x'', mi_turn_id = ''t1''\<rparr>,
     msg_timing = \<lparr>mt_timestamp_ms = 7, mt_started_at_ms = 7, mt_ended_at_ms = 9\<rparr>,
     msg_content = McAssistant [CbText []] \<lparr>am_provider_id = ''p'', am_model_id = ''m'', am_stop_reason = StopError,
       am_raw_stop_reason = None, am_usage = JNull, am_error = Some ''lost'', am_context_overflow = False\<rparr> None\<rparr>"

definition lost_failure :: failure where
  "lost_failure = plain_failure ''lost'' NonRetryable"

definition lost_settled :: settled_assistant where
  "lost_settled = \<lparr>sa_assistant_id = ''x'', sa_usage = JNull, sa_failure = Some lost_failure, sa_cancelled = False,
     sa_overflow_recovery = None, sa_stop_reason = StopError, sa_tool_calls = []\<rparr>"

definition lost_record :: turn_record where
  "lost_record = \<lparr>tn_run_id = ''run'', tn_turn_id = ''t1'', tn_started_at_ms = 7, tn_ended_at_ms = 7,
     tn_outcome = TurnFailed ''lost''\<rparr>"

lemma lost_ids: "id_ok ''main''" "id_ok ''x''" "id_ok ''run''" "id_ok ''system-t1''"
  unfolding id_ok_def by (rule not_blank_char; simp add: ws1_def)+

lemma lost_steps [simp]:
  "seq (draw f) g s = g (f (rw_step s)) (s\<lparr>rw_step := Suc (rw_step s)\<rparr>)"
  "seq (await_others lost_world) h s = h () (s\<lparr>rw_step := Suc (rw_step s)\<rparr>)"
  "seq (emit lost_world e) h s = h () (s\<lparr>rw_step := Suc (rw_step s), rw_events := rw_events s @ [e]\<rparr>)"
  "seq (now_ms lost_world) k s = k 7 (s\<lparr>rw_step := Suc (rw_step s)\<rparr>)"
  "seq (is_cancelled lost_world) l s = l False (s\<lparr>rw_step := Suc (rw_step s)\<rparr>)"
  "seq (fresh_id lost_world kind) i s = i ''x'' (s\<lparr>rw_step := Suc (rw_step s)\<rparr>)"
  "seq (give x) j s = j x s" "seq (lift (Ok x)) j s = j x s" "seq (update u) m s = m () (u s)"
  using lost_ids by (simp_all add: seq_def draw_def await_others_def emit_def now_ms_def is_cancelled_def fresh_id_def lift_def give_def
      update_def lost_world_def sample_world_def id_try_from_def id_ok_def)

lemma seq_assoc [simp]: "seq (seq f g) h = seq f (\<lambda>x. seq (g x) h)"
  by (auto simp: seq_def fun_eq_iff split: option.splits result.splits)

lemma seq_step: "f s = Some (t, Ok x) \<Longrightarrow> seq f g s = g x t"
  by (simp add: seq_def)

lemma lost_draws [simp]:
  "re_profile lost_world k = Ok sample_profile" "re_preflight lost_world k = Ok ()" "re_opened lost_world k = Ok ()"
  "re_stream lost_world k = [SiError (MeProtocol ''lost'') 9]" "re_message_end lost_world k = []"
  "re_tenv lost_world = sample_tenv" "re_write lost_world k = Written" "re_now lost_world k = 7"
  "re_model lost_world = sample_model_env" "cpo_enabled (re_compaction_policy lost_world) = False"
  "te_world lost_run = lost_world" "te_notice lost_run = None" "te_max_turns lost_run = Some 3" "te_tools lost_run k = lost_tools"
  "te_mode lost_run k = ModeDefault" "te_system_prompt lost_run k tools = Ok ''system''" "te_before_agent lost_run k = []"
  "te_context_hooks lost_run k = []" "te_run_id lost_run = ''run''" "te_observes lost_run = False"
  "te_batch lost_run k = []" "te_flushed lost_run k = Ok ()"
  by (simp_all add: lost_world_def sample_world_def lost_run_def sample_run_def)

lemma lost_registry: "active_registry lost_tools = Ok []"
  by (simp add: active_registry_def lost_tools_def available_registry_def active_names_in_def Let_def registry_subset_def
      overlay_def registry_names_def)

text \<open>What a phase leaves alone: the session, the recorded turns and the retries.\<close>

definition unmoved :: "turn_state \<Rightarrow> turn_state \<Rightarrow> bool" where
  "unmoved s t \<longleftrightarrow> rw_session t = rw_session s \<and> tl_turns t = tl_turns s \<and> tl_retry t = tl_retry s"

lemma lost_start_agent:
  assumes "ts_context (run_transcript_of s) = ([], [])"
  shows "start_agent lost_run prompt s =
    Some (s\<lparr>rw_step := 6 + rw_step s, tl_system_override := None, tl_before_messages := Some []\<rparr>, Ok ())"
  using assms
  by (simp add: start_agent_def lost_registry pre_prompt_compaction_def emit_before_agent_start_def should_compact_def seq_read)
    (simp add: give_def)

lemma lost_begin:
  assumes "tl_next_turn_id s = Some ''t1''"
  shows "begin_turn lost_run None s = Some (s\<lparr>rw_step := 5 + rw_step s, rw_events := rw_events s @ [EvTurnStart ''t1''],
    tl_next_turn_id := None\<rparr>, Ok lost_turn)"
  using assms by (simp add: begin_turn_def seq_step [of "choose_turn_id lost_run None"] choose_turn_id_def model_result_def give_def
      lost_turn_def)

lemma lost_user:
  assumes "tl_initial_input s = None"
  shows "insert_user_message lost_run lost_turn None s = Some (s\<lparr>rw_step := Suc (rw_step s)\<rparr>, Ok ())"
proof -
  have "announce_user lost_run ''t1'' None s = Some (s\<lparr>rw_step := Suc (rw_step s)\<rparr>, Ok None)"
    using assms by (simp add: announce_user_def Let_def seq_step [of "user_message lost_run t None" for t] user_message_def give_def)
  then show ?thesis by (simp add: insert_user_message_def Let_def lost_turn_def holding_def seq_step give_def)
qed

lemma lost_request:
  assumes "tl_before_messages s = Some []"
  shows "\<exists>t request gate. model_request_of lost_run lost_turn s = Some (t, Ok (request, [], gate)) \<and> unmoved s t"
  using lost_ids(4) assms
  by (simp add: model_request_of_def seq_read lost_registry system_prompt_message_def lost_turn_def or_else_def timed_message_def
      seq_step [of take_drafts] take_drafts_def message_timing_try_from_def id_try_from_def id_ok_def)
    (auto simp: give_def unmoved_def)

lemma lost_stream:
  "\<exists>t. stream_turn lost_run lost_turn request s = Some (t, Ok (''x'', ArFailed lost_message lost_failure)) \<and> unmoved s t"
  by (simp add: stream_turn_def send_request_def stream_assistant_def seq_step [of "\<lambda>s. Some (f s, Ok ())" for f] attempt_new_def
      attempt_snapshot_def attempt_settle_def attempt_timing_def Let_def sample_model_env_def settled_usage_def
      message_timing_try_from_def terminal_final_def or_else_def lost_message_def lost_turn_def sample_profile_def plain_failure_def
      lost_failure_def unmoved_def)

lemma lost_settle:
  "\<exists>t. settle_turn lost_run lost_turn ''x'' (ArFailed lost_message lost_failure) s = Some (t, Ok (lost_message, lost_settled)) \<and>
    unmoved s t"
  by (simp add: settle_turn_def settle_assistant_def lost_message_def lost_settled_def settle_metadata_def plain_failure_def
      overflow_recovery_def sample_model_env_def emit_message_end_def lost_failure_def seq_def [of "\<lambda>s. Some (f s, Ok y)" for f y])
    (simp add: give_def unmoved_def)

lemma lost_batch:
  "\<exists>t. run_tools lost_run lost_turn lost_settled [] gate s = Some (t, Ok (lost_settled, False)) \<and> unmoved s t"
  by (simp add: run_tools_def lost_settled_def turn_batch_def execute_tool_batch_def start_batch_def batch_loop.simps
      seq_def [of "\<lambda>s. Some (f s, Ok y)" for f y] lift_def collect_batch_def)
    (simp add: give_def unmoved_def)

lemma lost_unretried: "ask_retry lost_settled s = Some (s, Ok None)"
  by (simp add: ask_retry_def lost_settled_def lost_failure_def schedule_def plain_failure_def give_def is_retryable_def)

lemma lost_next:
  assumes "rt_attempts (tl_retry s) = 0"
  shows "\<exists>t c. next_action lost_run lost_turn lost_settled False s = Some (t, Ok (Some c)) \<and> rc_turns c = tl_turns s"
proof -
  have "end_retries lost_run ''t1'' lost_settled s = Some (s, Ok ())" using assms by (simp add: end_retries_def give_def)
  then show ?thesis
    by (simp add: next_action_def Let_def seq_read seq_step [OF lost_unretried] seq_step complete_def lost_turn_def)
      (simp add: lost_settled_def complete_def seq_def finish_def give_def)
qed

section \<open>Its writes\<close>

text \<open>A session that takes a record named \<open>x\<close>.\<close>

definition takes_x :: "queue_session \<Rightarrow> bool" where
  "takes_x q \<longleftrightarrow> writable (qs_transcript q) = Ok () \<and> ts_lane (qs_transcript q) = ''main'' \<and>
     (let st = js_state (ts_store (qs_transcript q)) in
      lanes st ''main'' \<noteq> None \<and> next_sequence st \<le> 1 \<and> ''x'' \<notin> used_record_ids st)"

lemma lost_persist:
  fixes s :: turn_state
  assumes "run_transcript_of s = sample_transcript"
  shows "\<exists>q. persist_message lost_world m s = Some (s\<lparr>rw_step := 2 + rw_step s, rw_session := q\<rparr>, Ok ()) \<and> takes_x q"
proof -
  let ?e = "message_entry sample_tenv ''x'' m"
  have acc: "entry_accepted (senv sample_tenv) 7 ''main'' ?e sample_store"
    using lost_ids
    by (simp add: entry_accepted_def message_entry_def sample_tenv_def sample_store_def SessionState_new_def id_ok_def opt_id_ok_def
        lane_leaf_def last_sequence_def get_entry_def u64_max_def MAX_SAFE_INTEGER_def payload_clear_def keys_def
        validate_compaction_def new_session_entry_def)
  define st where "st = fst (append_entry (senv sample_tenv) Written 7 ''main'' ?e sample_store)"
  have st: "append_entry (senv sample_tenv) Written 7 ''main'' ?e sample_store = (st, Ok (new_session_entry sample_store 7 ''main'' ?e))"
    "lanes (js_state st) ''main'' \<noteq> None" "next_sequence (js_state st) \<le> 1" "''x'' \<notin> used_record_ids (js_state st)"
    using append_entry_Ok [OF acc]
    by (simp_all add: st_def) (simp_all add: new_session_entry_def sample_store_def SessionState_new_def last_sequence_def)
  let ?q = "(rw_session s)\<lparr>qs_transcript := sample_transcript\<lparr>ts_store := st, ts_context := notes_push m ([], [])\<rparr>\<rparr>"
  show ?thesis
    using st assms
    by (intro exI [of _ ?q]) (simp add: persist_message_def transcript_act_def session_act_def append_context_message_def
        guarded_def takes_x_def sample_transcript_def writable_def)
qed

lemma lost_publish:
  assumes "run_transcript_of s = sample_transcript"
  shows "\<exists>t. publish_assistant lost_run lost_turn lost_message usage s = Some (t, Ok ()) \<and> takes_x (rw_session t) \<and>
    tl_turns t = tl_turns s \<and> tl_retry t = tl_retry s"
proof -
  from lost_persist [OF assms] obtain q where
    "persist_message lost_world lost_message s = Some (s\<lparr>rw_step := 2 + rw_step s, rw_session := q\<rparr>, Ok ())" "takes_x q" by blast
  then show ?thesis
    by (simp add: publish_assistant_def seq_step produced_def) (simp add: emit_def lost_world_def sample_world_def)
qed

lemma lost_sync [simp]:
  "seq (sync_store lost_world) g s = g () (s\<lparr>rw_step := Suc (rw_step s),
    rw_session := (rw_session s)\<lparr>qs_transcript := fst (transcript_sync Written (run_transcript_of s))\<rparr>\<rparr>)" for s :: turn_state
  by (simp add: sync_store_def transcript_act_def) (simp add: seq_def session_act_def transcript_sync_def)

lemma lost_operation:
  fixes s :: turn_state
  assumes "takes_x (rw_session s)"
  shows "\<exists>q. record_operation lost_world ''run'' StepAttempt (encode_turn_record r) s =
    Some (s\<lparr>rw_step := 2 + rw_step s, rw_session := q\<rparr>, Ok ())"
proof -
  let ?r = "\<lparr>nr_id = ''x'', nr_lane = ''main'', nr_run_id = Some ''run'', nr_kind = StepAttempt, nr_payload = encode_turn_record r\<rparr>"
  have "record_accepted 7 ?r (ts_store (run_transcript_of s))"
    using lost_ids assms by (auto simp: record_accepted_def takes_x_def Let_def id_ok_def opt_id_ok_def
        last_sequence_def u64_max_def MAX_SAFE_INTEGER_def payload_clear_def keys_def record_keys_def encode_turn_record_def)
  from append_record_Ok [OF this, of "senv sample_tenv"] assms show ?thesis
    by (auto simp: record_operation_def transcript_act_def session_act_def transcript_append_record_def guarded_def drop_answer_def
        takes_x_def)
qed

lemma lost_recorded:
  assumes "takes_x (rw_session s)"
  shows "\<exists>t. record_turn lost_run lost_turn lost_settled s = Some (t, Ok ()) \<and> tl_turns t = tl_turns s @ [lost_record] \<and>
    tl_retry t = tl_retry s"
proof -
  let ?s = "s\<lparr>rw_step := Suc (rw_step s)\<rparr>"
  from lost_operation [of ?s lost_record] assms obtain q where "record_operation lost_world ''run'' StepAttempt (encode_turn_record lost_record) ?s =
    Some (?s\<lparr>rw_step := 2 + rw_step ?s, rw_session := q\<rparr>, Ok ())" by auto
  moreover have "settled_outcome lost_settled = TurnFailed ''lost''"
    by (simp add: settled_outcome_def lost_settled_def lost_failure_def plain_failure_def)
  ultimately show ?thesis
    by (simp add: record_turn_def lost_turn_def lost_record_def [symmetric] seq_step update_def)
qed

text \<open>The whole run: one turn, which failed.\<close>

lemma lost_phases:
  assumes "run_transcript_of s = sample_transcript" "tl_before_messages s = Some []" "tl_turns s = []" "rt_attempts (tl_retry s) = 0"
  shows "\<exists>s' c. seq (model_request_of lost_run lost_turn) (\<lambda>(request, tools, gate).
      seq (stream_turn lost_run lost_turn request) (\<lambda>(assistant_id, attempt).
      seq (settle_turn lost_run lost_turn assistant_id attempt) (\<lambda>(assistant, settled0).
      seq (publish_assistant lost_run lost_turn assistant (sa_usage settled0)) (\<lambda>_.
      seq (run_tools lost_run lost_turn settled0 tools gate) (\<lambda>(settled, terminated).
      seq (record_turn lost_run lost_turn settled) (\<lambda>_.
      next_action lost_run lost_turn settled (\<not> terminated \<and> sa_tool_calls settled0 \<noteq> []))))))) s = Some (s', Ok (Some c)) \<and>
    rc_turns c = [lost_record]"
proof -
  from lost_request [OF assms(2)] obtain s2 request gate where
    s2: "model_request_of lost_run lost_turn s = Some (s2, Ok (request, [], gate))" "unmoved s s2" by blast
  from lost_stream [of request s2] obtain s3 where
    s3: "stream_turn lost_run lost_turn request s2 = Some (s3, Ok (''x'', ArFailed lost_message lost_failure))" "unmoved s2 s3" by blast
  from lost_settle [of s3] obtain s4 where
    s4: "settle_turn lost_run lost_turn ''x'' (ArFailed lost_message lost_failure) s3 = Some (s4, Ok (lost_message, lost_settled))"
      "unmoved s3 s4" by blast
  have kept: "run_transcript_of s4 = sample_transcript" "tl_turns s4 = []" "rt_attempts (tl_retry s4) = 0"
    using assms s2(2) s3(2) s4(2) by (simp_all add: unmoved_def)
  from lost_publish [OF kept(1), of "sa_usage lost_settled"] obtain s5 where
    s5: "publish_assistant lost_run lost_turn lost_message (sa_usage lost_settled) s4 = Some (s5, Ok ())" "takes_x (rw_session s5)"
      "tl_turns s5 = tl_turns s4" "tl_retry s5 = tl_retry s4" by blast
  from lost_batch [of gate s5] obtain s6 where
    s6: "run_tools lost_run lost_turn lost_settled [] gate s5 = Some (s6, Ok (lost_settled, False))" "unmoved s5 s6" by blast
  from lost_recorded [of s6] s5(2) s6(2) obtain s7 where
    s7: "record_turn lost_run lost_turn lost_settled s6 = Some (s7, Ok ())" "tl_turns s7 = tl_turns s6 @ [lost_record]"
      "tl_retry s7 = tl_retry s6" by (auto simp: unmoved_def)
  from lost_next [of s7] kept s5(3,4) s6(2) s7(2,3) obtain s' c where
    c: "next_action lost_run lost_turn lost_settled False s7 = Some (s', Ok (Some c))" "rc_turns c = [lost_record]"
    by (auto simp: unmoved_def)
  have "sa_tool_calls lost_settled = []" by (simp add: lost_settled_def)
  with s2(1) s3(1) s4(1) s5(1) s6(1) s7(1) c show ?thesis by (simp add: seq_def)
qed

lemma lost_execution: "\<exists>s' c. execute lost_run ''hi'' lost_start = Some (s', Ok c) \<and> rc_turns c = [lost_record]"
proof -
  let ?s0 = "lost_start\<lparr>rw_step := 6, tl_system_override := None, tl_before_messages := Some []\<rparr>"
  let ?s1 = "?s0\<lparr>rw_step := 12, rw_events := rw_events ?s0 @ [EvTurnStart ''t1''], tl_next_turn_id := None, tl_queued_item := None\<rparr>"
  have start: "start_agent lost_run ''hi'' lost_start = Some (?s0, Ok ())"
    using lost_start_agent [of lost_start "''hi''"]
    by (simp add: lost_start_def sample_start_def started_loop_def run_state.extend_def sample_queue_session_def sample_transcript_def)
  have s0: "tl_next_turn_id ?s0 = Some ''t1''" "tl_initial_input ?s0 = None" "tl_queued_item ?s0 = None" "tl_turns ?s0 = []"
    "rt_attempts (tl_retry ?s0) = 0" "run_transcript_of ?s0 = sample_transcript" "tl_before_messages ?s0 = Some []"
    by (simp_all add: lost_start_def sample_start_def started_loop_def run_state.extend_def sample_queue_session_def new_retry_state_def)
  have begun: "holding None (seq (check_limit lost_run) (\<lambda>_. begin_turn lost_run None)) (?s0\<lparr>tl_queued_item := None\<rparr>) =
      Some (?s1\<lparr>rw_step := 11\<rparr>, Ok lost_turn)"
    using lost_begin [of "?s0\<lparr>tl_queued_item := None\<rparr>"] s0(1,4) by (simp add: holding_def check_limit_def seq_def lift_def)
  have user: "insert_user_message lost_run lost_turn None (?s1\<lparr>rw_step := 11\<rparr>) = Some (?s1, Ok ())"
    using lost_user [of "?s1\<lparr>rw_step := 11\<rparr>"] s0(2) by simp
  have turn: "seq take_item (\<lambda>item. seq (holding item (seq (check_limit lost_run) (\<lambda>_. begin_turn lost_run item))) (\<lambda>turn.
      seq (insert_user_message lost_run turn item) (\<lambda>_. rest turn))) ?s0 = rest lost_turn ?s1" for rest :: "turn_context \<Rightarrow> run_completion option turn_act"
    using begun user s0(3) by (simp add: seq_def [of take_item] take_item_def) (simp add: seq_def)
  from lost_phases [of ?s1] s0 obtain s' c where
    c: "run_turn lost_run ?s0 = Some (s', Ok (Some c))" "rc_turns c = [lost_record]"
    by (auto simp: run_turn_def turn)
  then have "act_loop (turn_round lost_run) () ?s0 = Some (s', Ok c)"
    by (subst act_loop.simps) (simp add: turn_round_def seq_def give_def)
  with start c(2) show ?thesis by (simp add: execute_def seq_def)
qed

section \<open>The limits\<close>

text \<open>C6: a run that completes has no more turns than its limit allows.\<close>

theorem turn_limit_respected:
  assumes "te_max_turns env = Some n" "id_ok (te_run_id env)" "tl_turns s = []"
    and "execute env prompt s = Some (s', Ok c)"
  shows "length (rc_turns c) \<le> n"
proof -
  from assms(4) obtain t u where t: "start_agent env prompt s = Some (t, Ok u)" "act_loop (turn_round env) () t = Some (s', Ok c)"
    by (auto simp: execute_def seq_Ok)
  have start: "length (tl_turns t) \<le> n"
    using same_countersI [OF counters.keeps_start assms(2) t(1)] assms(3) by (simp add: same_counters_def)
  have "case Ok c of Ok c \<Rightarrow> length (rc_turns c) \<le> n | Err (e :: kernel_error) \<Rightarrow> True"
    using t(2) start
  proof (rule act_loop_rule [where I = "\<lambda>_ s. length (tl_turns s) \<le> n" and Q = "\<lambda>_ r. case r of Ok c \<Rightarrow> length (rc_turns c) \<le> n | Err e \<Rightarrow> True"], goal_cases)
    case (1 c s c' s')
    with round_adds [OF 1(2) assms(2)] assms(1) show ?case by auto
  next
    case (2 c s x s')
    then have "run_turn env s = Some (s', Ok (Some x))" by (auto simp: turn_round_def seq_Ok give_def split: option.splits)
    from run_turn_parts [OF this assms(2)] obtain s1 s2 turn settled on where "same_counters s s1" "length (tl_turns s) < n"
      "record_turn env turn settled s1 = Some (s2, Ok ())" "next_action env turn settled on s2 = Some (s', Ok (Some x))"
      using assms(1) by blast
    with record_turn_adds [OF _ assms(2)] next_action_Ok [OF _ assms(2)] show ?case by (fastforce simp: same_counters_def)
  qed simp
  then show ?thesis by simp
qed

theorem turn_limit_respected_witness: "\<exists>s' c. execute lost_run ''hi'' lost_start = Some (s', Ok c) \<and> length (rc_turns c) \<le> 3"
proof -
  obtain s' c where run: "execute lost_run ''hi'' lost_start = Some (s', Ok c)" using lost_execution by blast
  have "tl_turns lost_start = []" by (simp add: lost_start_def sample_start_def started_loop_def run_state.extend_def)
  with turn_limit_respected [OF _ _ _ run, of 3] lost_ids run show ?thesis by auto
qed

text \<open>C34: however long a run is, no more than the retry budget and two of its turns fail in a row: the first failure,
  one retry for each attempt the policy grants, and one more turn after the compaction of an overflow.\<close>

theorem failures_in_a_row_bounded:
  assumes "id_ok (te_run_id env)" "tl_turns s = []" "rt_attempts (tl_retry s) = 0" "\<not> tl_overflow_attempted s"
    and "execute env prompt s = Some (s', Ok c)" "rc_turns c = before @ failed @ rest" "list_all failed_turn failed"
  shows "length failed \<le> rp_max_retries (rt_policy (tl_retry s)) + 2"
proof -
  let ?policy = "rt_policy (tl_retry s)"
  from assms(5) obtain t u where t: "start_agent env prompt s = Some (t, Ok u)" "act_loop (turn_round env) () t = Some (s', Ok c)"
    by (auto simp: execute_def seq_Ok)
  have start: "spent ?policy t"
    using same_countersI [OF counters.keeps_start assms(1) t(1)] assms(2-4)
    by (simp add: same_counters_def spent_def trailing_def)
  let ?Q = "\<lambda>r. case r of Ok c \<Rightarrow> (\<forall>n. trailing (take n (rc_turns c)) \<le> rp_max_retries ?policy + 2) | Err (e :: kernel_error) \<Rightarrow> True"
  have "?Q (Ok c)"
    using t(2) start
  proof (rule act_loop_rule [where I = "\<lambda>_. spent ?policy" and Q = "\<lambda>_. ?Q"], goal_cases)
    case (1 c s c' s')
    then have "run_turn env s = Some (s', Ok None)" by (auto simp: turn_round_def seq_Ok give_def split: option.splits)
    from run_turn_spends [OF this assms(1) 1(1)] show ?case by simp
  next
    case (2 c s x s')
    then have "run_turn env s = Some (s', Ok (Some x))" by (auto simp: turn_round_def seq_Ok give_def split: option.splits)
    from run_turn_spends [OF this assms(1) 2(1)] show ?case by simp
  qed simp
  then have "trailing (take (length before + length failed) (rc_turns c)) \<le> rp_max_retries ?policy + 2" by simp
  with assms(6) have "trailing (before @ failed) \<le> rp_max_retries ?policy + 2" by simp
  with trailing_stretch [OF assms(7), of before] show ?thesis by simp
qed

theorem failures_in_a_row_bounded_witness:
  "\<exists>s' c. execute lost_run ''hi'' lost_start = Some (s', Ok c) \<and> list_all failed_turn (rc_turns c) \<and>
    length (rc_turns c) \<le> rp_max_retries (rt_policy (tl_retry lost_start)) + 2 \<and> rc_turns c \<noteq> []"
proof -
  obtain s' c where run: "execute lost_run ''hi'' lost_start = Some (s', Ok c)" and c: "rc_turns c = [] @ [lost_record] @ []"
    using lost_execution by auto
  have start: "tl_turns lost_start = []" "rt_attempts (tl_retry lost_start) = 0" "\<not> tl_overflow_attempted lost_start"
    by (simp_all add: lost_start_def sample_start_def started_loop_def run_state.extend_def new_retry_state_def)
  have failed: "list_all failed_turn [lost_record]" by (simp add: failed_turn_def lost_record_def)
  from failures_in_a_row_bounded [OF _ start run c failed] lost_ids run c failed show ?thesis by auto
qed

end
