(* ===== verification/Session_Lifecycle.thy ===== *)
theory Session_Lifecycle
  imports Execution Store_Factory Native_Message
begin

text \<open>
  The sessions of one kernel: the map of live sessions with the reserved identifiers
  (\<^verbatim>\<open>crates/kernel/src/runtime/session.rs\<close>), creating a session (\<^verbatim>\<open>session/open.rs\<close>), creating one that
  another session owns (\<^verbatim>\<open>session/ownership.rs\<close>), and closing and deleting a session with everything it
  owns (\<^verbatim>\<open>session/close.rs\<close>). The operations are followed from start to end as one task runs them: what
  the model catalog, extensions, MCP, the clock and the disk answer comes from the environment by the
  number of the step, and the waits (for the gate of a session, its run, its reporters and its queue
  publications) are taken as over. Of a log on disk these operations use the header only.
\<close>

section \<open>State\<close>

record ('h, 't) live_session =
  lv_cwd :: string
  lv_ownership :: "session_ownership option"
  lv_execution :: "('h, 't) session_execution"
  lv_work :: queue_session
  lv_reports_off :: bool
  lv_publishing :: bool
  lv_extensions :: bool
  lv_mcp_open :: bool

record ('h, 't) kernel_state =
  kn_sessions :: "(session_id \<times> ('h, 't) live_session) list"
  kn_pending :: "session_id set"
  kn_disk :: disk
  kn_step :: nat

text \<open>\<open>ke_removed\<close> is how many files a deletion removes before it meets an error, \<open>None\<close> without one.\<close>

record ('h, 't) kernel_env =
  ke_factory :: factory
  ke_tokens :: "('h, 't) token_ops"
  ke_closer :: nat
  ke_now :: "nat \<Rightarrow> nat"
  ke_id :: "nat \<Rightarrow> string"
  ke_queue_io :: "nat \<Rightarrow> queue_io"
  ke_sync :: "nat \<Rightarrow> write_outcome"
  ke_build :: "nat \<Rightarrow> (('h, 't) live_session, kernel_error) result"
  ke_apply :: "nat \<Rightarrow> (unit, kernel_error) result"
  ke_start :: "nat \<Rightarrow> (unit, kernel_error) result"
  ke_rename :: "nat \<Rightarrow> (unit, kernel_error) result"
  ke_joined :: "nat \<Rightarrow> (unit, kernel_error) result"
  ke_context :: "nat \<Rightarrow> (unit, kernel_error) result"
  ke_mcp :: "nat \<Rightarrow> (unit, kernel_error) result"
  ke_scan :: "nat \<Rightarrow> (unit, store_error) result"
  ke_removed :: "nat \<Rightarrow> nat option"

definition tick :: "('h, 't) kernel_state \<Rightarrow> ('h, 't) kernel_state" where
  "tick k = k\<lparr>kn_step := Suc (kn_step k)\<rparr>"

definition find_live :: "('h, 't) kernel_state \<Rightarrow> session_id \<Rightarrow> ('h, 't) live_session option" where
  "find_live k i = map_of (kn_sessions k) i"

definition change_live ::
    "session_id \<Rightarrow> (('h, 't) live_session \<Rightarrow> ('h, 't) live_session) \<Rightarrow> ('h, 't) kernel_state \<Rightarrow> ('h, 't) kernel_state" where
  "change_live i f k = k\<lparr>kn_sessions := map (\<lambda>(j, l). (j, if j = i then f l else l)) (kn_sessions k)\<rparr>"

definition forget_live :: "session_id \<Rightarrow> ('h, 't) kernel_state \<Rightarrow> ('h, 't) kernel_state" where
  "forget_live i k = k\<lparr>kn_sessions := filter (\<lambda>(j, l). j \<noteq> i) (kn_sessions k)\<rparr>"

section \<open>session.rs: the map and the reservations\<close>

definition duplicate_session :: "session_id \<Rightarrow> kernel_error" where
  "duplicate_session i = OtherError (''session already exists: '' @ i)"

fun not_found :: "kernel_error \<Rightarrow> bool" where
  "not_found (SessionNotFound i) \<longleftrightarrow> True"
| "not_found _ \<longleftrightarrow> False"

definition kernel_session :: "('h, 't) kernel_state \<Rightarrow> session_id \<Rightarrow> (('h, 't) live_session, kernel_error) result" where
  "kernel_session k i =
     (case find_live k i of
        None \<Rightarrow> Err (SessionNotFound i)
      | Some l \<Rightarrow> and_then (ensure_active (lv_execution l)) (\<lambda>_. Ok l))"

definition reserve_session_build ::
    "session_id \<Rightarrow> ('h, 't) kernel_state \<Rightarrow> (('h, 't) kernel_state, kernel_error) result" where
  "reserve_session_build i k =
     (if find_live k i \<noteq> None \<or> i \<in> kn_pending k then Err (duplicate_session i)
      else Ok (k\<lparr>kn_pending := insert i (kn_pending k)\<rparr>))"

definition reserve_session_deletion ::
    "session_id \<Rightarrow> ('h, 't) kernel_state \<Rightarrow> (('h, 't) kernel_state, kernel_error) result" where
  "reserve_session_deletion i k =
     (if i \<in> kn_pending k then Err (duplicate_session i)
      else Ok (k\<lparr>kn_pending := insert i (kn_pending k)\<rparr>))"

definition drop_reservation :: "session_id \<Rightarrow> ('h, 't) kernel_state \<Rightarrow> ('h, 't) kernel_state" where
  "drop_reservation i k = k\<lparr>kn_pending := kn_pending k - {i}\<rparr>"

definition preserve_primary_error ::
    "(unit, kernel_error) result \<Rightarrow> (unit, kernel_error) result \<Rightarrow> (unit, kernel_error) result" where
  "preserve_primary_error primary secondary = (case primary of Ok _ \<Rightarrow> secondary | Err e \<Rightarrow> Err e)"

text \<open>A runtime that is not registered is released: its extensions and MCP connections end with it.\<close>

definition register_session ::
    "session_id \<Rightarrow> ('h, 't) live_session \<Rightarrow> ('h, 't) kernel_state \<Rightarrow> ('h, 't) kernel_state \<times> (unit, kernel_error) result" where
  "register_session i l k =
     (if find_live k i \<noteq> None then (k, Err (duplicate_session i))
      else (k\<lparr>kn_sessions := (i, l) # kn_sessions k\<rparr>, Ok ()))"

text \<open>\<^verbatim>\<open>StoreFactory::delete\<close>, with the error it may meet between two files.\<close>

definition delete_log ::
    "('h, 't) kernel_env \<Rightarrow> session_id \<Rightarrow> ('h, 't) kernel_state \<Rightarrow> ('h, 't) kernel_state \<times> (unit, kernel_error) result" where
  "delete_log env i k =
     (let f = ke_factory env in
      case ke_removed env (kn_step k) of
        None \<Rightarrow> (tick k\<lparr>kn_disk := delete_session f i (kn_disk k)\<rparr>, Ok ())
      | Some m \<Rightarrow>
         (let paths = map sh_path (filter (\<lambda>h. sh_id h = i) (headers f None (kn_disk k)))
          in (tick k\<lparr>kn_disk := filter (\<lambda>lf. file_path f lf \<notin> set (take m paths)) (kn_disk k)\<rparr>,
              Err (StoreFailed StoreIo))))"

definition rollback_session_registration ::
    "('h, 't) kernel_env \<Rightarrow> session_id \<Rightarrow> bool \<Rightarrow> ('h, 't) kernel_state \<Rightarrow> ('h, 't) kernel_state \<times> (unit, kernel_error) result" where
  "rollback_session_registration env i delete_persisted k =
     (case find_live k i of
        Some l \<Rightarrow>
          (let mcp = ke_mcp env (kn_step k); k' = tick (forget_live i k)
           in if delete_persisted
              then (case delete_log env i k' of (k'', deleted) \<Rightarrow> (k'', preserve_primary_error mcp deleted))
              else (k', preserve_primary_error mcp (Ok ())))
      | None \<Rightarrow> if delete_persisted then delete_log env i k else (k, Ok ()))"

section \<open>open.rs: creating a session\<close>

definition checkpoint_started_session ::
    "('h, 't) kernel_env \<Rightarrow> session_id \<Rightarrow> bool \<Rightarrow> ('h, 't) kernel_state \<Rightarrow> ('h, 't) kernel_state \<times> (unit, kernel_error) result" where
  "checkpoint_started_session env i delete_persisted k =
     (case find_live k i of
        None \<Rightarrow> (k, Err (SessionNotFound i))
      | Some l \<Rightarrow>
         (case transcript_sync (ke_sync env (kn_step k)) (qs_transcript (lv_work l)) of (t, saved) \<Rightarrow>
          (case (case saved of
                   Err e \<Rightarrow> (lv_execution l, Err e)
                 | Ok _ \<Rightarrow> finish_starting (lv_execution l)) of (x, r) \<Rightarrow>
           let k' = change_live i (\<lambda>l. l\<lparr>lv_work := (lv_work l)\<lparr>qs_transcript := t\<rparr>, lv_execution := x\<rparr>) (tick k)
           in case r of
                Ok _ \<Rightarrow> (k', Ok ())
              | Err e \<Rightarrow> (fst (rollback_session_registration env i delete_persisted k'), Err e))))"

text \<open>\<^verbatim>\<open>build_session\<close>: the runtime of a store, which starts and has not been published.\<close>

definition build_session ::
    "('h, 't) kernel_env \<Rightarrow> jsonl_store \<Rightarrow> string \<Rightarrow> session_ownership option \<Rightarrow> ('h, 't) kernel_state
      \<Rightarrow> ('h, 't) kernel_state \<times> (('h, 't) live_session, kernel_error) result" where
  "build_session env st cwd ownership k =
     (tick k, and_then (ke_build env (kn_step k)) (\<lambda>l. Ok (l\<lparr>lv_cwd := cwd, lv_ownership := ownership,
        lv_work := (lv_work l)\<lparr>qs_transcript := (qs_transcript (lv_work l))\<lparr>ts_store := st\<rparr>\<rparr>,
        lv_execution := (lv_execution l)\<lparr>sx_lifecycle := Starting, sx_closing := False\<rparr>,
        lv_reports_off := False, lv_publishing := True, lv_extensions := True, lv_mcp_open := True\<rparr>)))"

definition start_registered ::
    "('h, 't) kernel_env \<Rightarrow> session_id \<Rightarrow> ('h, 't) kernel_state \<Rightarrow> ('h, 't) kernel_state \<times> (unit, kernel_error) result" where
  "start_registered env i k =
     (case ke_start env (kn_step k) of
        Err e \<Rightarrow> (fst (rollback_session_registration env i True (tick k)), Err e)
      | Ok _ \<Rightarrow> checkpoint_started_session env i True (tick k))"

definition create_session ::
    "('h, 't) kernel_env \<Rightarrow> create_options \<Rightarrow> ('h, 't) kernel_state \<Rightarrow> ('h, 't) kernel_state \<times> (string, kernel_error) result" where
  "create_session env options k =
     (let i = co_session_id options in
      case reserve_session_build i k of
        Err e \<Rightarrow> (k, Err e)
      | Ok k1 \<Rightarrow> (\<lambda>(k', r). (drop_reservation i k', r))
         (case create_with (ke_factory env) (ke_now env (kn_step k1)) options None (kn_disk k1) of
            (disk, Err e) \<Rightarrow> (k1\<lparr>kn_disk := disk\<rparr>, Err (StoreFailed e))
          | (disk, Ok st) \<Rightarrow>
             (case build_session env st (co_cwd options) None (tick k1\<lparr>kn_disk := disk\<rparr>) of
                (k2, Err e) \<Rightarrow> (k2, Err e)
              | (k2, Ok l) \<Rightarrow>
                 (case register_session i l k2 of
                    (k3, Err e) \<Rightarrow> (k3, Err e)
                  | (k3, Ok _) \<Rightarrow>
                     (case start_registered env i k3 of
                        (k4, Err e) \<Rightarrow> (k4, Err e)
                      | (k4, Ok _) \<Rightarrow> (k4, Ok (js_path st)))))))"

section \<open>ownership.rs: creating an owned session\<close>

definition owner_unavailable :: "session_id \<Rightarrow> kernel_error" where
  "owner_unavailable i = OtherError (''owner session is unavailable: '' @ i)"

text \<open>The steps whose failure rolls back: the log, the runtime, the settings it adopts, its registration, the
  startup of its extensions, the checkpoint and its title.\<close>

definition start_owned ::
    "('h, 't) kernel_env \<Rightarrow> session_id \<Rightarrow> session_ownership \<Rightarrow> string \<Rightarrow> ('h, 't) kernel_state
      \<Rightarrow> ('h, 't) kernel_state \<times> (unit, kernel_error) result" where
  "start_owned env child ownership cwd k =
     (case create_with (ke_factory env) (ke_now env (kn_step k))
         \<lparr>co_session_id = child, co_cwd = cwd, co_parent_session_id = None\<rparr> (Some ownership) (kn_disk k) of
        (disk, Err e) \<Rightarrow> (k\<lparr>kn_disk := disk\<rparr>, Err (StoreFailed e))
      | (disk, Ok st) \<Rightarrow>
         (case build_session env st cwd (Some ownership) (tick k\<lparr>kn_disk := disk\<rparr>) of
            (k1, Err e) \<Rightarrow> (k1, Err e)
          | (k1, Ok l) \<Rightarrow>
             (case and_then (ke_apply env (kn_step k1)) (\<lambda>_. and_then (kernel_session k1 (owner ownership)) (\<lambda>_. Ok ())) of
                Err e \<Rightarrow> (tick k1, Err e)
              | Ok _ \<Rightarrow>
                 (case register_session child l (tick k1) of
                    (k2, Err e) \<Rightarrow> (k2, Err e)
                  | (k2, Ok _) \<Rightarrow>
                     (case ke_start env (kn_step k2) of
                        Err e \<Rightarrow> (tick k2, Err e)
                      | Ok _ \<Rightarrow>
                         (case checkpoint_started_session env child True (tick k2) of
                            (k3, Err e) \<Rightarrow> (k3, Err e)
                          | (k3, Ok _) \<Rightarrow> (tick k3, ke_rename env (kn_step k3))))))))"

definition create_owned_session ::
    "('h, 't) kernel_env \<Rightarrow> session_ownership \<Rightarrow> ('h, 't) kernel_state \<Rightarrow> ('h, 't) kernel_state \<times> (session_id, kernel_error) result" where
  "create_owned_session env ownership k =
     (case kernel_session k (owner ownership) of
        Err e \<Rightarrow> (k, Err (if not_found e then owner_unavailable (owner ownership) else e))
      | Ok o' \<Rightarrow>
         (case id_try_from ''session'' (ke_id env (kn_step k)) of
            Err e \<Rightarrow> (tick k, Err (ProtocolError (scalar_text e)))
          | Ok child \<Rightarrow>
             (case reserve_session_build child (tick k) of
                Err e \<Rightarrow> (tick k, Err e)
              | Ok k1 \<Rightarrow> (\<lambda>(k', r). (drop_reservation child k', r))
                 (case start_owned env child ownership (lv_cwd o') k1 of
                    (k2, Ok _) \<Rightarrow> (k2, Ok child)
                  | (k2, Err e) \<Rightarrow> (fst (rollback_session_registration env child True k2), Err e)))))"

text \<open>\<^verbatim>\<open>live_children\<close> reads the owner edges of the live sessions.\<close>

definition live_children :: "session_id \<Rightarrow> ('h, 't) kernel_state \<Rightarrow> session_id list" where
  "live_children i k =
     map fst (filter (\<lambda>(j, l). map_option owner (lv_ownership l) = Some i) (kn_sessions k))"

text \<open>The check of \<^verbatim>\<open>resume_owner\<close> against a cycle of owners among the logs of one directory. The list of
  headers bounds the walk, as every step finds a new one.\<close>

definition header_owner :: "session_header list \<Rightarrow> session_id \<Rightarrow> session_id option" where
  "header_owner hs i = Option.bind (find (\<lambda>h. sh_id h = i) hs) (\<lambda>h. map_option owner (sh_ownership h))"

fun owner_walk :: "session_header list \<Rightarrow> nat \<Rightarrow> session_id set \<Rightarrow> session_id option \<Rightarrow> (unit, kernel_error) result option" where
  "owner_walk hs n seen None = Some (Ok ())"
| "owner_walk hs 0 seen (Some i) = None"
| "owner_walk hs (Suc n) seen (Some i) =
     (if i \<in> seen then Some (Err (ProtocolError (''cyclic session ownership at '' @ i)))
      else owner_walk hs n (insert i seen) (header_owner hs i))"

definition check_owners :: "session_header list \<Rightarrow> session_id \<Rightarrow> session_id \<Rightarrow> (unit, kernel_error) result option" where
  "check_owners hs child i = owner_walk hs (length hs + 2) {child} (Some i)"

section \<open>close.rs: closing\<close>

text \<open>The reports of subagents are abandoned, the close is requested, the gate is taken once the run has drained,
  and what waits in the queue is withdrawn; a failure of the withdrawal is only logged.\<close>

definition request_closing :: "('h, 't) kernel_env \<Rightarrow> session_id \<Rightarrow> ('h, 't) kernel_state \<Rightarrow> ('h, 't) kernel_state" where
  "request_closing env i k =
     change_live i (\<lambda>l.
       let x = request_close (ke_tokens env) ((lv_execution l)\<lparr>sx_queue := qs_queue (lv_work l)\<rparr>);
           w = fst (withdraw_pending (ke_queue_io env (kn_step k)) ((lv_work l)\<lparr>qs_queue := sx_queue x\<rparr>))
       in l\<lparr>lv_reports_off := True, lv_execution := x\<lparr>sx_queue := qs_queue w, sx_gate := Some (ke_closer env)\<rparr>,
            lv_work := w\<rparr>) (tick k)"

definition begin_close ::
    "session_id \<Rightarrow> ('h, 't) kernel_state \<Rightarrow> ('h, 't) kernel_state \<times> (unit, kernel_error) result" where
  "begin_close i k =
     (case find_live k i of
        None \<Rightarrow> (k, Err (SessionNotFound i))
      | Some l \<Rightarrow>
         (case begin_closing (lv_execution l) of
            (x, r) \<Rightarrow> (change_live i (\<lambda>l. l\<lparr>lv_execution := x, lv_publishing := (case r of Ok _ \<Rightarrow> False | Err e \<Rightarrow> lv_publishing l)\<rparr>) k, r)))"

text \<open>The guards of the operation end with it.\<close>

definition end_close :: "('h, 't) kernel_env \<Rightarrow> session_id \<Rightarrow> ('h, 't) kernel_state \<Rightarrow> ('h, 't) kernel_state" where
  "end_close env i k =
     change_live i (\<lambda>l. l\<lparr>lv_execution := release_gate (ke_closer env) (drop_closing_guard (lv_execution l))\<rparr>) k"

definition abort_close :: "('h, 't) kernel_env \<Rightarrow> session_id \<Rightarrow> ('h, 't) kernel_state \<Rightarrow> ('h, 't) kernel_state" where
  "abort_close env i k =
     end_close env i (change_live i (\<lambda>l. l\<lparr>lv_execution := fst (abort_closing (ke_tokens env) (lv_execution l))\<rparr>) k)"

text \<open>Once MCP goes down every step of the shutdown is taken, whatever fails; the first error is the answer.\<close>

definition finish_close ::
    "('h, 't) kernel_env \<Rightarrow> session_id \<Rightarrow> (unit, kernel_error) result \<Rightarrow> ('h, 't) kernel_state
      \<Rightarrow> ('h, 't) kernel_state \<times> (unit, kernel_error) result" where
  "finish_close env i children k =
     (let step = kn_step k;
          mcp = preserve_primary_error children (ke_mcp env step);
          k1 = change_live i (\<lambda>l. l\<lparr>lv_mcp_open := False\<rparr>) (tick k);
          saved = (case find_live k1 i of
              None \<Rightarrow> Ok ()
            | Some l \<Rightarrow> snd (transcript_sync (ke_sync env step) (qs_transcript (lv_work l))));
          k2 = change_live i (\<lambda>l. l\<lparr>lv_work := (lv_work l)\<lparr>qs_transcript :=
                   fst (transcript_sync (ke_sync env step) (qs_transcript (lv_work l)))\<rparr>,
                 lv_execution := finish_closing (lv_execution l), lv_extensions := False\<rparr>) k1
      in (forget_live i (end_close env i k2), preserve_primary_error mcp saved))"

text \<open>A child that is gone already counts as closed.\<close>

definition absent_closed :: "(unit, kernel_error) result \<Rightarrow> (unit, kernel_error) result" where
  "absent_closed r = (case r of Ok u \<Rightarrow> Ok u | Err e \<Rightarrow> if not_found e then Ok () else Err e)"

fun close_all ::
    "(session_id \<Rightarrow> ('h, 't) kernel_state \<Rightarrow> (('h, 't) kernel_state \<times> (unit, kernel_error) result) option)
      \<Rightarrow> session_id list \<Rightarrow> (unit, kernel_error) result \<Rightarrow> ('h, 't) kernel_state
      \<Rightarrow> (('h, 't) kernel_state \<times> (unit, kernel_error) result) option" where
  "close_all close [] r k = Some (k, r)"
| "close_all close (c # cs) r k =
     (case close c k of
        None \<Rightarrow> None
      | Some (k', r') \<Rightarrow>
          close_all close cs (preserve_primary_error r (absent_closed r')) k')"

text \<open>The cascade, with a bound on its depth.\<close>

primrec close_within ::
    "('h, 't) kernel_env \<Rightarrow> nat \<Rightarrow> session_id \<Rightarrow> ('h, 't) kernel_state
      \<Rightarrow> (('h, 't) kernel_state \<times> (unit, kernel_error) result) option" where
  "close_within env 0 i k = None"
| "close_within env (Suc n) i k =
     (case kernel_session k i of
        Err e \<Rightarrow> Some (k, Err e)
      | Ok _ \<Rightarrow>
         (case begin_close i (request_closing env i k) of
            (k1, Err e) \<Rightarrow> Some (end_close env i k1, Err e)
          | (k1, Ok _) \<Rightarrow>
             (case close_all (close_within env n) (live_children i k1) (Ok ()) k1 of
                None \<Rightarrow> None
              | Some (k2, children) \<Rightarrow>
                 (case ke_context env (kn_step k2) of
                    Err e \<Rightarrow> Some (abort_close env i (tick k2), Err e)
                  | Ok _ \<Rightarrow> Some (finish_close env i
                      (preserve_primary_error children (ke_joined env (kn_step k2))) (tick k2))))))"

definition close_session ::
    "('h, 't) kernel_env \<Rightarrow> session_id \<Rightarrow> ('h, 't) kernel_state
      \<Rightarrow> (('h, 't) kernel_state \<times> (unit, kernel_error) result) option" where
  "close_session env i k = close_within env (Suc (length (kn_sessions k))) i k"

section \<open>close.rs: deleting\<close>

definition family_directory ::
    "('h, 't) kernel_env \<Rightarrow> session_id \<Rightarrow> ('h, 't) kernel_state \<Rightarrow> (string option, kernel_error) result" where
  "family_directory env i k =
     (case kernel_session k i of
        Ok l \<Rightarrow> Ok (Some (lv_cwd l))
      | Err e \<Rightarrow>
          if not_found e then
            (case ke_scan env (kn_step k) of
               Err e \<Rightarrow> Err (StoreFailed e)
             | Ok _ \<Rightarrow> Ok (map_option sh_cwd (find_header (ke_factory env) i (kn_disk k))))
          else Err e)"

definition owned_logs :: "('h, 't) kernel_env \<Rightarrow> session_id \<Rightarrow> string \<Rightarrow> ('h, 't) kernel_state \<Rightarrow> session_id list" where
  "owned_logs env i cwd k =
     map sh_id (filter (\<lambda>h. map_option owner (sh_ownership h) = Some i) (headers (ke_factory env) (Some cwd) (kn_disk k)))"

fun delete_all ::
    "(session_id \<Rightarrow> ('h, 't) kernel_state \<Rightarrow> (('h, 't) kernel_state \<times> (unit, kernel_error) result) option)
      \<Rightarrow> session_id list \<Rightarrow> ('h, 't) kernel_state \<Rightarrow> (('h, 't) kernel_state \<times> (unit, kernel_error) result) option" where
  "delete_all delete [] k = Some (k, Ok ())"
| "delete_all delete (c # cs) k =
     (case delete c k of
        None \<Rightarrow> None
      | Some (k', Err e) \<Rightarrow> Some (k', Err e)
      | Some (k', Ok _) \<Rightarrow> delete_all delete cs k')"

text \<open>The logs of a family: the children first, the session's own log last.\<close>

definition delete_family ::
    "('h, 't) kernel_env
      \<Rightarrow> (session_id \<Rightarrow> ('h, 't) kernel_state \<Rightarrow> (('h, 't) kernel_state \<times> (unit, kernel_error) result) option)
      \<Rightarrow> session_id \<Rightarrow> string option \<Rightarrow> ('h, 't) kernel_state
      \<Rightarrow> (('h, 't) kernel_state \<times> (unit, kernel_error) result) option" where
  "delete_family env delete i cwd k =
     (case (case cwd of
              None \<Rightarrow> Some (k, Ok ())
            | Some c \<Rightarrow>
               (case ke_scan env (kn_step k) of
                  Err e \<Rightarrow> Some (tick k, Err (StoreFailed e))
                | Ok _ \<Rightarrow> delete_all delete (owned_logs env i c k) (tick k))) of
        None \<Rightarrow> None
      | Some (k', Err e) \<Rightarrow> Some (k', Err e)
      | Some (k', Ok _) \<Rightarrow> Some (delete_log env i k'))"

primrec delete_within ::
    "('h, 't) kernel_env \<Rightarrow> nat \<Rightarrow> session_id \<Rightarrow> ('h, 't) kernel_state
      \<Rightarrow> (('h, 't) kernel_state \<times> (unit, kernel_error) result) option" where
  "delete_within env 0 i k = None"
| "delete_within env (Suc n) i k =
     (case reserve_session_deletion i k of
        Err e \<Rightarrow> Some (k, Err e)
      | Ok k1 \<Rightarrow> map_option (\<lambda>(k', r). (drop_reservation i k', r))
         (case family_directory env i k1 of
            Err e \<Rightarrow> Some (tick k1, Err e)
          | Ok cwd \<Rightarrow>
             (case close_session env i (tick k1) of
                None \<Rightarrow> None
              | Some (k2, Ok _) \<Rightarrow> delete_family env (delete_within env n) i cwd k2
              | Some (k2, Err e) \<Rightarrow>
                  if not_found e then delete_family env (delete_within env n) i cwd k2 else Some (k2, Err e))))"

definition kernel_delete_session ::
    "('h, 't) kernel_env \<Rightarrow> session_id \<Rightarrow> ('h, 't) kernel_state
      \<Rightarrow> (('h, 't) kernel_state \<times> (unit, kernel_error) result) option" where
  "kernel_delete_session env i k = delete_within env (length (kn_disk k) + 2) i k"

end
