(* ===== verification/Subagents.thy ===== *)
theory Subagents
  imports Session_Lifecycle Tool_Catalog Truncation Tool_Output Mcp_Identity
begin

text \<open>
  Subagents, \<^verbatim>\<open>crates/kernel/src/runtime/subagent\<close>: the \<^verbatim>\<open>background_subagent\<close> tool with its named children, the
  reporters that bring their answers back to the owner, and the foreground \<^verbatim>\<open>subagent\<close> tool. Submitting to a
  session, resuming one and resolving a model reference are answers of the environment.
\<close>

section \<open>background.rs: names and actions\<close>

definition subagent_name_ok :: "string \<Rightarrow> bool" where
  "subagent_name_ok s \<longleftrightarrow> 1 \<le> length s \<and> length s \<le> 64 \<and> list_all name_safe s"

datatype when_busy = WhenSteer | WhenFollowUp

datatype background_action =
    BaSpawn string string when_busy "string option"
  | BaSend string string when_busy
  | BaStop string
  | BaStatus "string option"

fun as_bool :: "json \<Rightarrow> bool option" where
  "as_bool (JBool b) = Some b"
| "as_bool _ = None"

definition argument_or_empty :: "string \<Rightarrow> json \<Rightarrow> string" where
  "argument_or_empty key arguments = (case json_get_str key arguments of Some s \<Rightarrow> s | None \<Rightarrow> [])"

definition background_action_try_from :: "json \<Rightarrow> (background_action, string) result" where
  "background_action_try_from arguments =
     (let action = argument_or_empty ''action'' arguments;
          name = json_get_str ''name'' arguments;
          message = argument_or_empty ''message'' arguments;
          busy = (if Option.bind (json_get ''followUp'' arguments) as_bool = Some True then WhenFollowUp else WhenSteer)
      in if action \<notin> {''spawn'', ''send'', ''stop'', ''status''} then Err ''Unknown action; use spawn, send, stop, or status.''
         else if action \<noteq> ''status'' \<and> (name = None \<or> name = Some []) then Err (action @ '' needs a name.'')
         else if name \<noteq> None \<and> \<not> subagent_name_ok (the name)
         then Err (''Invalid subagent name: use 1-64 letters, digits, '' @ [CHR 0x27] @ ''_'' @ [CHR 0x27] @ '' or '' @ [CHR 0x27] @ ''-'' @ [CHR 0x27] @ ''.'')
         else if action \<in> {''spawn'', ''send''} \<and> is_blank message then Err (action @ '' needs a message.'')
         else if action \<noteq> ''spawn'' \<and> json_get ''model'' arguments \<noteq> None then Err ''model only applies to spawn.''
         else case name of
             Some n \<Rightarrow>
               if action = ''spawn'' then Ok (BaSpawn n message busy (json_get_str ''model'' arguments))
               else if action = ''send'' then Ok (BaSend n message busy)
               else if action = ''stop'' then Ok (BaStop n)
               else Ok (BaStatus (Some n))
           | None \<Rightarrow> if action = ''status'' then Ok (BaStatus None) else Err (action @ '' needs a name.''))"

fun action_name :: "background_action \<Rightarrow> string option" where
  "action_name (BaSpawn n m b r) = Some n"
| "action_name (BaSend n m b) = Some n"
| "action_name (BaStop n) = Some n"
| "action_name (BaStatus n) = n"

section \<open>background.rs: reporters\<close>

record reporter =
  rp_owner :: session_id
  rp_child :: session_id
  rp_name :: string
  rp_message :: string
  rp_when_busy :: when_busy

definition mark_reported ::
    "session_id \<Rightarrow> message_id \<Rightarrow> (session_id \<times> message_id) set \<Rightarrow> (session_id \<times> message_id) set \<times> bool" where
  "mark_reported child message reported = (insert (child, message) reported, (child, message) \<notin> reported)"

definition truncated_note :: string where
  "truncated_note = [newline, newline] @ ''[subagent answer truncated; open the subagent session for the full answer]''"

definition answered_text :: "string \<Rightarrow> string \<Rightarrow> string" where
  "answered_text name text =
     (let t = truncate_head text DEFAULT_MAX_LINES TOOL_TEXT_BYTES
      in ''[subagent '' @ name @ '' answered, no reply needed] '' @ td_content t @ (if td_truncated t then truncated_note else []))"

text \<open>What comes back for an answer, and the answers that were claimed so far.\<close>

definition report_answer ::
    "string \<Rightarrow> session_id \<Rightarrow> submission_answer \<Rightarrow> (session_id \<times> message_id) set
      \<Rightarrow> (session_id \<times> message_id) set \<times> string option" where
  "report_answer name child answer reported =
     (case sa_outcome answer of
        AnswerCancelled \<Rightarrow> (reported, None)
      | AnswerFailed message \<Rightarrow> (reported, Some (''[subagent '' @ name @ '' failed: '' @ message @ '']''))
      | AnswerCompleted \<Rightarrow>
         (case sa_message_id answer of
            None \<Rightarrow> (reported, Some (answered_text name (sa_text answer)))
          | Some message \<Rightarrow>
             (case mark_reported child message reported of
                (reported', True) \<Rightarrow> (reported', Some (answered_text name (sa_text answer)))
              | (reported', False) \<Rightarrow> (reported', None))))"

text \<open>A whole reporter: \<open>stopped\<close> is what the shutdown token answers at the start and before the report, \<open>delivered\<close>
  the answer of the child. The result is the text submitted to the owner.\<close>

definition reporter_run ::
    "reporter \<Rightarrow> bool \<times> bool \<Rightarrow> (submission_answer, kernel_error) result \<Rightarrow> (session_id \<times> message_id) set
      \<Rightarrow> (session_id \<times> message_id) set \<times> string option" where
  "reporter_run r stopped delivered reported =
     (if fst stopped then (reported, None)
      else case delivered of
        Err e \<Rightarrow> (reported, None)
      | Ok answer \<Rightarrow>
         (case report_answer (rp_name r) (rp_child r) answer reported of
            (reported', report) \<Rightarrow> (reported', if snd stopped then None else report)))"

section \<open>background.rs: executing an action\<close>

record ('h, 't) subagent_state =
  sb_kernel :: "('h, 't) kernel_state"
  sb_reporters :: "reporter list"

record ('h, 't) subagent_env =
  se_kernel :: "('h, 't) kernel_env"
  se_model :: "string \<Rightarrow> (unit, string) result"
  se_resume :: "session_id \<Rightarrow> ('h, 't) kernel_state \<Rightarrow> ('h, 't) kernel_state \<times> (unit, kernel_error) result"
  se_submit :: "session_id \<Rightarrow> string \<Rightarrow> ('h, 't) kernel_state \<Rightarrow> ('h, 't) kernel_state \<times> (submission_answer, kernel_error) result"

fun background_name :: "session_id \<Rightarrow> session_ownership option \<Rightarrow> string option" where
  "background_name o' (Some (OwnedInBackground i n)) = (if i = o' then Some n else None)"
| "background_name o' _ = None"

definition named_children :: "factory \<Rightarrow> session_id \<Rightarrow> string \<Rightarrow> disk \<Rightarrow> (string \<times> session_id) list" where
  "named_children f o' cwd disk =
     List.map_filter (\<lambda>h. map_option (\<lambda>n. (n, sh_id h)) (background_name o' (sh_ownership h))) (headers f (Some cwd) disk)"

definition session_runtime ::
    "('h, 't) kernel_env \<Rightarrow> session_id \<Rightarrow> ('h, 't) kernel_state \<Rightarrow> (bool, kernel_error) result" where
  "session_runtime env i k =
     (case kernel_session k i of
        Ok l \<Rightarrow> Ok (sx_active_run (lv_execution l) \<noteq> None)
      | Err e \<Rightarrow>
          if not_found e then
            (case ke_scan env (kn_step k) of
               Err e \<Rightarrow> Err (StoreFailed e)
             | Ok _ \<Rightarrow> if session_exists (ke_factory env) i (kn_disk k) then Ok False else Err (SessionNotFound i))
          else Err e)"

definition state_word :: "bool \<Rightarrow> string" where
  "state_word running = (if running then ''working'' else ''idle'')"

fun status_lines ::
    "('h, 't) kernel_env \<Rightarrow> (string \<times> session_id) list \<Rightarrow> ('h, 't) kernel_state \<Rightarrow> (string list, kernel_error) result" where
  "status_lines env [] k = Ok []"
| "status_lines env ((name, child) # rest) k =
     and_then (session_runtime env child k) (\<lambda>running.
     and_then (status_lines env rest k) (\<lambda>more. Ok ((name @ '': '' @ state_word running) # more)))"

definition stop_child ::
    "('h, 't) kernel_env \<Rightarrow> session_id \<Rightarrow> ('h, 't) kernel_state \<Rightarrow> ('h, 't) kernel_state \<times> (unit, kernel_error) result" where
  "stop_child env child k =
     (case kernel_session k child of
        Err e \<Rightarrow> (k, if not_found e then Ok () else Err e)
      | Ok l \<Rightarrow>
         (let x = cancel (ke_tokens env) ((lv_execution l)\<lparr>sx_queue := qs_queue (lv_work l)\<rparr>);
              (w, r) = clear_pending_messages (ke_queue_io env (kn_step k)) ((lv_work l)\<lparr>qs_queue := sx_queue x\<rparr>)
          in (change_live child (\<lambda>l. l\<lparr>lv_execution := x\<lparr>sx_queue := qs_queue w\<rparr>, lv_work := w\<rparr>) (tick k), r)))"

text \<open>\<^verbatim>\<open>SessionBackgroundWork::spawn\<close>: a closing session takes no reporter.\<close>

definition spawn_reporter ::
    "('h, 't) live_session \<Rightarrow> reporter \<Rightarrow> ('h, 't) subagent_state \<Rightarrow> ('h, 't) subagent_state \<times> (unit, kernel_error) result" where
  "spawn_reporter session r s =
     (if lv_reports_off session then (s, Err SessionClosing) else (s\<lparr>sb_reporters := sb_reporters s @ [r]\<rparr>, Ok ()))"

definition child_prompt :: "string \<Rightarrow> string \<Rightarrow> string" where
  "child_prompt name message =
     ''You are the subagent '' @ [CHR 0x22] @ name @ [CHR 0x22] @ ''. Answer the main agent'' @ [CHR 0x27] @ ''s requests.'' @
     [newline, newline] @ message"

definition report_later ::
    "('h, 't) live_session \<Rightarrow> session_id \<Rightarrow> session_id \<Rightarrow> string \<Rightarrow> string \<Rightarrow> when_busy \<Rightarrow> string
      \<Rightarrow> ('h, 't) subagent_state \<Rightarrow> ('h, 't) subagent_state \<times> (string \<times> session_id option, kernel_error) result" where
  "report_later session o' child name body busy reply s =
     (case spawn_reporter session \<lparr>rp_owner = o', rp_child = child, rp_name = name, rp_message = body, rp_when_busy = busy\<rparr> s of
        (s', Err e) \<Rightarrow> (s', Err e)
      | (s', Ok _) \<Rightarrow> (s', Ok (reply, Some child)))"

text \<open>The action \<^verbatim>\<open>execute\<close> applies for the owner \<open>o'\<close>, whose runtime is \<open>session\<close>.\<close>

definition execute_action ::
    "('h, 't) subagent_env \<Rightarrow> session_id \<Rightarrow> ('h, 't) live_session \<Rightarrow> background_action \<Rightarrow> ('h, 't) subagent_state
      \<Rightarrow> ('h, 't) subagent_state \<times> (string \<times> session_id option, kernel_error) result" where
  "execute_action env o' session action s =
     (let ke = se_kernel env; k = sb_kernel s in
      case ke_scan ke (kn_step k) of
        Err e \<Rightarrow> (s\<lparr>sb_kernel := tick k\<rparr>, Err (StoreFailed e))
      | Ok _ \<Rightarrow>
         (let k = tick k; s = s\<lparr>sb_kernel := k\<rparr>;
              children = sort_key fst (named_children (ke_factory ke) o' (lv_cwd session) (kn_disk k));
              child = Option.bind (action_name action) (map_of children)
          in case (action, child) of
               (BaStatus None, _) \<Rightarrow>
                 (s, and_then (status_lines ke children k) (\<lambda>lines.
                   Ok (if lines = [] then ''No subagents.'' else join_with [newline] lines, None)))
             | (BaSpawn name message busy model, Some c) \<Rightarrow> (s, Ok (name @ '' already exists; use send.'', Some c))
             | (BaSend name message busy, None) \<Rightarrow> (s, Ok (''No subagent named '' @ name @ ''.'', None))
             | (BaStop name, None) \<Rightarrow> (s, Ok (''No subagent named '' @ name @ ''.'', None))
             | (BaStatus (Some name), None) \<Rightarrow> (s, Ok (''No subagent named '' @ name @ ''.'', None))
             | (BaStatus (Some name), Some c) \<Rightarrow>
                 (s, and_then (session_runtime ke c k) (\<lambda>running. Ok (name @ '': '' @ state_word running, Some c)))
             | (BaStop name, Some c) \<Rightarrow>
                 (case stop_child ke c k of
                    (k', r) \<Rightarrow> (s\<lparr>sb_kernel := k'\<rparr>, and_then r (\<lambda>_. Ok (''Stopped '' @ name @ ''.'', Some c))))
             | (BaSpawn name message busy model, None) \<Rightarrow>
                 (case (case model of None \<Rightarrow> Ok () | Some reference \<Rightarrow> se_model env reference) of
                    Err text \<Rightarrow> (s, Ok (text, None))
                  | Ok _ \<Rightarrow>
                     (case session_title_try_from name of
                        Err e \<Rightarrow> (s, Err (ProtocolError (scalar_text e)))
                      | Ok title \<Rightarrow>
                         (case create_owned_session ke (OwnedInBackground o' name) k of
                            (k', Err e) \<Rightarrow> (s\<lparr>sb_kernel := k'\<rparr>, Err e)
                          | (k', Ok c) \<Rightarrow>
                              report_later session o' c name (child_prompt name message) busy (''Started '' @ name @ ''.'')
                                (s\<lparr>sb_kernel := k'\<rparr>))))
             | (BaSend name message busy, Some c) \<Rightarrow>
                 (case (case kernel_session k c of
                          Ok l \<Rightarrow> (k, Ok ())
                        | Err e \<Rightarrow> if not_found e then se_resume env c k else (k, Err e)) of
                    (k', Err e) \<Rightarrow> (s\<lparr>sb_kernel := k'\<rparr>, Err e)
                  | (k', Ok _) \<Rightarrow>
                      report_later session o' c name message busy (''Sent to '' @ name @ ''.'') (s\<lparr>sb_kernel := k'\<rparr>))))"

section \<open>mod.rs and background.rs: the tool\<close>

datatype subagent_error = SubagentKernel string kernel_error | SubagentGone string

datatype tool_failure = FailTool tool_error | FailSubagent subagent_error

record tool_reply =
  ty_text :: string
  ty_is_error :: bool
  ty_child :: "session_id option"

definition register_subagents :: "'i agent_tool \<Rightarrow> 'i agent_tool \<Rightarrow> 'i tool_snapshot \<Rightarrow> 'i tool_snapshot" where
  "register_subagents foreground background s =
     (let s1 = (if has_extension ''subagent'' s then s else fst (tool_register_kernel foreground s))
      in if has_extension ''background_subagent'' s1 then s1 else fst (tool_register_kernel background s1))"

text \<open>\<open>cancelled\<close> is what the token of the call answers at the start and once the names are locked; \<open>session\<close> is the
  owner's runtime while it lives.\<close>

definition background_execute ::
    "('h, 't) subagent_env \<Rightarrow> bool \<times> bool \<Rightarrow> session_id \<Rightarrow> ('h, 't) live_session option \<Rightarrow> json \<Rightarrow> ('h, 't) subagent_state
      \<Rightarrow> ('h, 't) subagent_state \<times> (tool_reply, tool_failure) result" where
  "background_execute env cancelled o' session arguments s =
     (if fst cancelled then (s, Err (FailTool TeCancelled))
      else case session of
        None \<Rightarrow> (s, Err (FailSubagent (SubagentGone ''background_subagent'')))
      | Some l \<Rightarrow>
         (case background_action_try_from arguments of
            Err message \<Rightarrow> (s, Ok \<lparr>ty_text = message, ty_is_error = False, ty_child = None\<rparr>)
          | Ok action \<Rightarrow>
              if snd cancelled then (s, Err (FailTool TeCancelled))
              else (case execute_action env o' l action s of
                  (s', Err e) \<Rightarrow> (s', Err (FailSubagent (SubagentKernel ''background_subagent'' e)))
                | (s', Ok (text, child)) \<Rightarrow> (s', Ok \<lparr>ty_text = text, ty_is_error = False, ty_child = child\<rparr>))))"

section \<open>foreground.rs: the tool\<close>

text \<open>Reading the answer; \<open>None\<close> ends the call as cancelled together with its owner.\<close>

definition foreground_result :: "bool \<Rightarrow> submission_answer \<Rightarrow> (string \<times> bool) option" where
  "foreground_result owner_cancelled answer =
     (case sa_outcome answer of
        AnswerCompleted \<Rightarrow> Some (if sa_text answer = [] then ''(no output)'' else sa_text answer, False)
      | AnswerCancelled \<Rightarrow>
          if owner_cancelled then None else Some (''Subagent was stopped before answering.'', True)
      | AnswerFailed message \<Rightarrow> Some (''Subagent failed: '' @ message, True))"

definition foreground_execute ::
    "('h, 't) subagent_env \<Rightarrow> bool \<times> bool \<Rightarrow> session_id \<Rightarrow> bool \<Rightarrow> tool_call \<Rightarrow> ('h, 't) kernel_state
      \<Rightarrow> ('h, 't) kernel_state \<times> (tool_reply, tool_failure) result" where
  "foreground_execute env cancelled o' alive call k =
     (let arguments = tc_arguments call; task = argument_or_empty ''task'' arguments in
      if fst cancelled then (k, Err (FailTool TeCancelled))
      else if is_blank task then (k, Ok \<lparr>ty_text = ''subagent needs a task.'', ty_is_error = False, ty_child = None\<rparr>)
      else if \<not> alive then (k, Err (FailSubagent (SubagentGone ''subagent'')))
      else case (case json_get_str ''model'' arguments of None \<Rightarrow> Ok () | Some reference \<Rightarrow> se_model env reference) of
        Err message \<Rightarrow> (k, Err (FailTool (TeInvalidArguments (tc_name call) message)))
      | Ok _ \<Rightarrow>
         (case session_title_try_from (''subagent: '' @ take_chars 60 task) of
            Err e \<Rightarrow> (k, Err (FailTool (TeInvalidArguments (tc_name call) (scalar_text e))))
          | Ok title \<Rightarrow>
             (case create_owned_session (se_kernel env) (OwnedByTool o' (tc_tool_call_id call)) k of
                (k1, Err e) \<Rightarrow> (k1, Err (FailSubagent (SubagentKernel ''subagent'' e)))
              | (k1, Ok child) \<Rightarrow>
                 (case se_submit env child task k1 of
                    (k2, Err e) \<Rightarrow> (k2, Err (FailSubagent (SubagentKernel ''subagent'' e)))
                  | (k2, Ok answer) \<Rightarrow>
                     (case foreground_result (snd cancelled) answer of
                        None \<Rightarrow> (k2, Err (FailTool TeCancelled))
                      | Some (text, is_error) \<Rightarrow>
                          (k2, Ok \<lparr>ty_text = text, ty_is_error = is_error, ty_child = Some child\<rparr>))))))"

end
