(* ===== verification/Lifecycle_Props.thy ===== *)
theory Lifecycle_Props
  imports Session_Lifecycle Log_Recovery Queue_Recovery
begin

text \<open>
  Closing and deleting follow the owner edges: a close takes down exactly the sessions below the one it
  was asked for, a deletion removes their logs children first, and both come to an end.
\<close>

section \<open>The map of live sessions\<close>

lemma find_change: "find_live (change_live i f k) x = (if x = i then map_option f (find_live k x) else find_live k x)"
proof -
  have "map_of (map (\<lambda>(j, l). (j, if j = i then f l else l)) xs) x = (if x = i then map_option f (map_of xs x) else map_of xs x)"
    for xs by (induction xs) auto
  then show ?thesis by (simp add: find_live_def change_live_def)
qed

lemma find_forget: "find_live (forget_live i k) x = (if x = i then None else find_live k x)"
proof -
  have "map_of (filter (\<lambda>(j, l). j \<noteq> i) xs) x = (if x = i then None else map_of xs x)" for xs by (induction xs) auto
  then show ?thesis by (cases "x = i") (simp_all add: find_live_def forget_live_def)
qed

lemma keys_change: "map fst (kn_sessions (change_live i f k)) = map fst (kn_sessions k)"
  by (simp add: change_live_def comp_def case_prod_beta')

lemma keys_forget: "distinct (map fst (kn_sessions k)) \<Longrightarrow> distinct (map fst (kn_sessions (forget_live i k)))"
  by (simp add: forget_live_def distinct_map_filter)

lemma find_tick [simp]: "find_live (tick k) = find_live k"
  by (simp add: fun_eq_iff find_live_def tick_def)

lemma rest_same [simp]:
  "kn_disk (change_live i f k) = kn_disk k" "kn_pending (change_live i f k) = kn_pending k" "kn_step (change_live i f k) = kn_step k"
  "kn_disk (forget_live i k) = kn_disk k" "kn_pending (forget_live i k) = kn_pending k"
  "kn_disk (tick k) = kn_disk k" "kn_pending (tick k) = kn_pending k" "kn_sessions (tick k) = kn_sessions k"
  by (simp_all add: change_live_def forget_live_def tick_def)

section \<open>Owner edges\<close>

definition owned_by :: "('h, 't) kernel_state \<Rightarrow> session_id \<Rightarrow> session_id \<Rightarrow> bool" where
  "owned_by k x y \<longleftrightarrow> (\<exists>l. find_live k x = Some l \<and> map_option owner (lv_ownership l) = Some y)"

definition descends :: "('h, 't) kernel_state \<Rightarrow> session_id \<Rightarrow> session_id \<Rightarrow> bool" where
  "descends k = (owned_by k)\<^sup>*\<^sup>*"

definition active_in :: "('h, 't) kernel_state \<Rightarrow> session_id set" where
  "active_in k = {x. \<exists>l. find_live k x = Some l \<and> sx_lifecycle (lv_execution l) = Active}"

definition single :: "('h, 't) kernel_state \<Rightarrow> bool" where
  "single k \<longleftrightarrow> distinct (map fst (kn_sessions k))"

text \<open>What every step of a close does at most: sessions leave, none changes its owner or becomes active.\<close>

definition shrinks :: "('h, 't) kernel_state \<Rightarrow> ('h, 't) kernel_state \<Rightarrow> bool" where
  "shrinks k k' \<longleftrightarrow> kn_disk k' = kn_disk k \<and> kn_pending k' = kn_pending k \<and> (single k \<longrightarrow> single k') \<and>
     active_in k' \<subseteq> active_in k \<and>
     (\<forall>x l'. find_live k' x = Some l' \<longrightarrow>
        (\<exists>l. find_live k x = Some l \<and> lv_ownership l' = lv_ownership l \<and> lv_cwd l' = lv_cwd l))"

text \<open>Outside of what is below \<open>i\<close> nothing happens.\<close>

definition same_outside :: "session_id \<Rightarrow> ('h, 't) kernel_state \<Rightarrow> ('h, 't) kernel_state \<Rightarrow> bool" where
  "same_outside i k k' \<longleftrightarrow> (\<forall>x. \<not> descends k x i \<longrightarrow> find_live k' x = find_live k x)"

text \<open>No session loses the owner it had.\<close>

definition keeps_owners :: "('h, 't) kernel_state \<Rightarrow> ('h, 't) kernel_state \<Rightarrow> bool" where
  "keeps_owners k k' \<longleftrightarrow> (\<forall>x y. find_live k' x \<noteq> None \<and> owned_by k x y \<and> find_live k y \<noteq> None \<longrightarrow> find_live k' y \<noteq> None)"

lemma shrinks_refl: "shrinks k k" by (simp add: shrinks_def)

lemma shrinks_trans: "shrinks k1 k2 \<Longrightarrow> shrinks k2 k3 \<Longrightarrow> shrinks k1 k3"
  unfolding shrinks_def by (safe; metis subsetD)

lemma shrinks_owned: "shrinks k k' \<Longrightarrow> owned_by k' x y \<Longrightarrow> owned_by k x y"
  by (force simp: shrinks_def owned_by_def)

lemma shrinks_descends: "shrinks k k' \<Longrightarrow> descends k' x y \<Longrightarrow> descends k x y"
  unfolding descends_def by (rule rtranclp_mono [THEN predicate2D]) (auto intro: shrinks_owned)

lemma shrinks_live: "shrinks k k' \<Longrightarrow> find_live k' x \<noteq> None \<Longrightarrow> find_live k x \<noteq> None"
  by (force simp: shrinks_def)

lemma shrinks_owned_still:
  assumes "shrinks k k'" "owned_by k x y" "find_live k' x \<noteq> None"
  shows "owned_by k' x y"
  using assms unfolding shrinks_def owned_by_def by (metis option.exhaust option.inject)

lemma same_outside_trans:
  assumes "shrinks k1 k2" "same_outside i k1 k2" "same_outside j k2 k3" "descends k1 j i"
  shows "same_outside i k1 k3"
  unfolding same_outside_def
proof (intro allI impI)
  fix x assume x: "\<not> descends k1 x i"
  with shrinks_descends [OF assms(1)] assms(4) have "\<not> descends k2 x j" by (metis descends_def rtranclp_trans)
  with x assms(2,3) show "find_live k3 x = find_live k1 x" by (simp add: same_outside_def)
qed

lemma keeps_owners_trans:
  assumes "shrinks k1 k2" "shrinks k2 k3" "keeps_owners k1 k2" "keeps_owners k2 k3"
  shows "keeps_owners k1 k3"
  using assms shrinks_owned_still [OF assms(1)] shrinks_live [OF assms(2)] unfolding keeps_owners_def by blast

lemma keeps_owners_below:
  assumes "keeps_owners k k'" "descends k x i" "find_live k i \<noteq> None" "find_live k' i = None"
  shows "find_live k' x = None"
  using assms(2)
  unfolding descends_def
proof (induction rule: converse_rtranclp_induct)
  case base
  with assms(4) show ?case by simp
next
  case (step x z)
  then have "find_live k z \<noteq> None"
    by (metis assms(3) converse_rtranclpE owned_by_def option.distinct(1))
  with step assms(1) show ?case unfolding keeps_owners_def by blast
qed

lemma finite_active: "finite (active_in k)"
proof -
  have "active_in k \<subseteq> dom (map_of (kn_sessions k))" by (auto simp: active_in_def find_live_def)
  then show ?thesis by (rule finite_subset) (rule finite_dom_map_of)
qed

lemma active_bound: "card (active_in k) \<le> length (kn_sessions k)"
proof -
  have "active_in k \<subseteq> fst ` set (kn_sessions k)" by (force simp: active_in_def find_live_def dest: map_of_SomeD)
  then have "card (active_in k) \<le> card (fst ` set (kn_sessions k))" by (intro card_mono) simp_all
  also have "\<dots> \<le> length (kn_sessions k)" by (rule order_trans [OF card_image_le card_length]) simp
  finally show ?thesis .
qed

lemma children_owned: "single k \<Longrightarrow> c \<in> set (live_children i k) \<Longrightarrow> owned_by k c i"
  by (auto simp: live_children_def owned_by_def single_def find_live_def)

lemma owned_children: "owned_by k x i \<Longrightarrow> x \<in> set (live_children i k)"
  by (force simp: live_children_def owned_by_def find_live_def dest: map_of_SomeD)

section \<open>Closing\<close>

lemma shrinks_change:
  assumes "shrinks k k'" "i \<in> active_in k"
    and "\<And>l. lv_ownership (f l) = lv_ownership l \<and> lv_cwd (f l) = lv_cwd l"
  shows "shrinks k (change_live i f k')"
proof -
  have "single k' \<Longrightarrow> single (change_live i f k')" by (simp add: single_def keys_change)
  moreover have "active_in (change_live i f k') \<subseteq> insert i (active_in k')" by (auto simp: active_in_def find_change split: if_splits)
  ultimately show ?thesis using assms by (auto simp: shrinks_def find_change split: if_splits)
qed

lemma shrinks_forget: "shrinks k k' \<Longrightarrow> shrinks k (forget_live i k')"
  by (auto simp: shrinks_def find_forget single_def keys_forget active_in_def split: if_splits)

lemma shrinks_tick: "shrinks k k' \<Longrightarrow> shrinks k (tick k')"
  by (simp add: shrinks_def single_def active_in_def)

lemma same_change: "same_outside i k k' \<Longrightarrow> same_outside i k (change_live i f k')"
  by (auto simp: same_outside_def find_change descends_def)

lemma same_forget: "same_outside i k k' \<Longrightarrow> same_outside i k (forget_live i k')"
  by (auto simp: same_outside_def find_forget descends_def)

lemma same_tick: "same_outside i k k' \<Longrightarrow> same_outside i k (tick k')"
  by (simp add: same_outside_def)

lemmas close_steps = shrinks_change shrinks_forget shrinks_tick same_change same_forget same_tick

lemma request_close_lifecycle: "sx_lifecycle (request_close ops s) = sx_lifecycle s"
  by (simp add: request_close_def cancel_def cancel_token_def Let_def case_prod_beta)

lemma begin_close_Ok:
  assumes "kernel_session k i = Ok l"
  shows "\<exists>k1. begin_close i (request_closing env i k) = (k1, Ok ()) \<and> shrinks k k1 \<and> same_outside i k k1 \<and>
    i \<in> active_in k \<and> active_in k1 \<subseteq> active_in k - {i} \<and> (\<forall>x. find_live k1 x = None \<longleftrightarrow> find_live k x = None) \<and>
    owned_by k1 = owned_by k"
proof -
  from assms have l: "find_live k i = Some l" "sx_lifecycle (lv_execution l) = Active"
    by (auto simp: kernel_session_def ensure_active_def split: option.splits session_lifecycle.splits result.splits)
  then have act: "i \<in> active_in k" by (simp add: active_in_def)
  let ?k = "request_closing env i k"
  obtain l1 where l1: "find_live ?k i = Some l1" "sx_lifecycle (lv_execution l1) = Active"
    using l by (simp add: request_closing_def find_change Let_def request_close_lifecycle)
  let ?f = "\<lambda>l. l\<lparr>lv_execution := (lv_execution l1)\<lparr>sx_lifecycle := Closing, sx_closing := True\<rparr>, lv_publishing := False\<rparr>"
  have k1: "begin_close i ?k = (change_live i ?f ?k, Ok ())" using l1 by (simp add: begin_close_def begin_closing_def)
  have "shrinks k (change_live i ?f ?k)" "same_outside i k (change_live i ?f ?k)"
    unfolding request_closing_def
    by (intro close_steps shrinks_refl act; simp add: Let_def) (intro close_steps; simp add: same_outside_def)
  moreover have "active_in (change_live i ?f ?k) \<subseteq> active_in k - {i}"
    by (auto simp: active_in_def find_change request_closing_def split: if_splits)
  moreover have "find_live (change_live i ?f ?k) x = None \<longleftrightarrow> find_live k x = None" for x
    by (simp add: find_change request_closing_def)
  moreover have "owned_by (change_live i ?f ?k) = owned_by k"
    by (force simp: fun_eq_iff owned_by_def find_change request_closing_def Let_def)
  ultimately show ?thesis using k1 act by blast
qed

text \<open>What one close does, whatever it answers.\<close>

definition closes :: "session_id \<Rightarrow> ('h, 't) kernel_state \<Rightarrow> ('h, 't) kernel_state \<times> (unit, kernel_error) result \<Rightarrow> bool" where
  "closes i k out \<longleftrightarrow> (case out of (k', r) \<Rightarrow> shrinks k k' \<and> same_outside i k k' \<and>
     (r = Ok () \<or> (\<exists>e. r = Err e \<and> not_found e) \<longrightarrow> keeps_owners k k' \<and> find_live k' i = None))"

lemma close_all_closes:
  assumes "close_all close cs r k = Some (k', r')" "single k" "shrinks k0 k" "same_outside i k0 k" "\<forall>c \<in> set cs. descends k0 c i"
    and "\<And>c k out. close c k = Some out \<Longrightarrow> single k \<Longrightarrow> closes c k out"
  shows "shrinks k k' \<and> same_outside i k0 k' \<and> (r' = Ok () \<longrightarrow> r = Ok () \<and> keeps_owners k k' \<and> (\<forall>c \<in> set cs. find_live k' c = None))"
  using assms(1-5)
proof (induction cs arbitrary: r k)
  case Nil
  then show ?case by (auto simp: shrinks_refl keeps_owners_def)
next
  case (Cons c cs)
  from Cons.prems(1) obtain k1 r1 where c: "close c k = Some (k1, r1)"
    and rest: "close_all close cs (preserve_primary_error r (absent_closed r1)) k1 = Some (k', r')"
    by (auto split: option.splits prod.splits)
  from assms(6) [OF c Cons.prems(2)] have one: "shrinks k k1" "same_outside c k k1"
    "r1 = Ok () \<or> (\<exists>e. r1 = Err e \<and> not_found e) \<Longrightarrow> keeps_owners k k1 \<and> find_live k1 c = None" by (auto simp: closes_def)
  have single: "single k1" using one(1) Cons.prems(2) by (simp add: shrinks_def)
  have all: "shrinks k0 k1" "same_outside i k0 k1"
    using shrinks_trans [OF Cons.prems(3) one(1)] same_outside_trans [OF Cons.prems(3,4) one(2)] Cons.prems(5) by auto
  have ih: "shrinks k1 k'" "same_outside i k0 k'"
    "r' = Ok () \<Longrightarrow> preserve_primary_error r (absent_closed r1) = Ok () \<and>
      keeps_owners k1 k' \<and> (\<forall>c \<in> set cs. find_live k' c = None)"
    using Cons.IH [OF rest single all] Cons.prems(5) by auto
  have "r = Ok () \<and> keeps_owners k k' \<and> (\<forall>d \<in> set (c # cs). find_live k' d = None)" if "r' = Ok ()"
  proof -
    from ih(3) [OF that] have r: "r = Ok ()" "r1 = Ok () \<or> (\<exists>e. r1 = Err e \<and> not_found e)"
      by (auto simp: preserve_primary_error_def absent_closed_def split: result.splits if_splits)
    from one(3) [OF r(2)] ih(1,3) that one(1) r(1) show ?thesis
      by (auto intro: keeps_owners_trans dest: shrinks_live)
  qed
  with shrinks_trans [OF one(1) ih(1)] ih(2) show ?case by blast
qed

lemma close_all_error:
  "close_all close cs r k = Some (k', Err e) \<Longrightarrow> not_found e \<Longrightarrow> r = Err e"
proof (induction cs arbitrary: r k)
  case (Cons c cs)
  then obtain k1 r1 where
    "close_all close cs (preserve_primary_error r (absent_closed r1)) k1 = Some (k', Err e)"
    by (auto split: option.splits prod.splits)
  with Cons.IH Cons.prems(2) show ?case by (fastforce simp: preserve_primary_error_def absent_closed_def split: result.splits if_splits)
qed simp

text \<open>The errors of contexts, reporters and MCP are not the one that a session is missing.\<close>

definition lawful_answers :: "('h, 't) kernel_env \<Rightarrow> bool" where
  "lawful_answers env \<longleftrightarrow> (\<forall>n e. ke_context env n = Err e \<or> ke_joined env n = Err e \<or> ke_mcp env n = Err e \<longrightarrow> \<not> not_found e)"

lemma finish_close_result:
  assumes "lawful_answers env" "finish_close env i (preserve_primary_error children (ke_joined env n)) k = (k', r)"
    and "\<And>e. children = Err e \<Longrightarrow> \<not> not_found e"
  shows "r \<noteq> Ok () \<longrightarrow> \<not> (\<exists>e. r = Err e \<and> not_found e)" "r = Ok () \<longrightarrow> children = Ok ()"
    "find_live k' x = (if x = i then None else find_live k x)"
proof -
  have synced: "snd (transcript_sync w t) = Err e \<Longrightarrow> \<not> not_found e" for w t e
    by (auto simp: transcript_sync_def split: prod.splits result.splits)
  show "r \<noteq> Ok () \<longrightarrow> \<not> (\<exists>e. r = Err e \<and> not_found e)" "r = Ok () \<longrightarrow> children = Ok ()"
    using assms synced unfolding lawful_answers_def
    by (auto simp: finish_close_def Let_def preserve_primary_error_def split: result.splits option.splits)
  show "find_live k' x = (if x = i then None else find_live k x)"
    using assms(2) by (auto simp: finish_close_def Let_def find_forget end_close_def find_change)
qed

lemma kernel_session_missing: "kernel_session k i = Err e \<Longrightarrow> not_found e \<Longrightarrow> find_live k i = None"
  by (auto simp: kernel_session_def ensure_active_def split: option.splits session_lifecycle.splits)

lemma close_within_closes:
  assumes "lawful_answers env"
  shows "close_within env n i k = Some out \<Longrightarrow> single k \<Longrightarrow> closes i k out"
proof (induction n arbitrary: i k out)
  case (Suc n)
  show ?case
  proof (cases "kernel_session k i")
    case (Err e)
    with Suc.prems show ?thesis
      by (auto simp: closes_def shrinks_refl same_outside_def keeps_owners_def dest: kernel_session_missing)
  next
    case (Ok l)
    from begin_close_Ok [OF Ok, of env] obtain k1 where k1: "begin_close i (request_closing env i k) = (k1, Ok ())" "shrinks k k1"
      "same_outside i k k1" "i \<in> active_in k" "\<And>x. find_live k1 x = None \<longleftrightarrow> find_live k x = None" "owned_by k1 = owned_by k" by blast
    have single: "single k1" using k1(2) Suc.prems(2) by (simp add: shrinks_def)
    from Suc.prems(1) Ok k1(1) obtain k2 children where all: "close_all (close_within env n) (live_children i k1) (Ok ()) k1 = Some (k2, children)"
      and out: "out = (case ke_context env (kn_step k2) of Err e \<Rightarrow> (abort_close env i (tick k2), Err e)
        | Ok _ \<Rightarrow> finish_close env i (preserve_primary_error children (ke_joined env (kn_step k2))) (tick k2))"
      by (auto split: option.splits result.splits)
    have below: "\<forall>c \<in> set (live_children i k1). descends k c i"
      using children_owned [OF single] k1(6) by (auto simp: descends_def)
    have loop: "shrinks k1 k2" "same_outside i k k2"
      "children = Ok () \<Longrightarrow> keeps_owners k1 k2 \<and> (\<forall>c \<in> set (live_children i k1). find_live k2 c = None)"
      using close_all_closes [OF all single k1(2,3) below Suc.IH] by auto
    note k2 = shrinks_trans [OF k1(2) loop(1)]
    show ?thesis
    proof (cases "ke_context env (kn_step k2)")
      case (Err e)
      have "shrinks k (abort_close env i (tick k2))" "same_outside i k (abort_close env i (tick k2))"
        unfolding abort_close_def end_close_def by (intro close_steps k2 loop(2) k1(4); simp)+
      with Err out assms show ?thesis by (auto simp: closes_def lawful_answers_def)
    next
      case (Ok u)
      with out obtain k3 r where fin: "out = (k3, r)"
        "finish_close env i (preserve_primary_error children (ke_joined env (kn_step k2))) (tick k2) = (k3, r)" by (metis (no_types, lifting) prod.exhaust result.simps(5))
      have err: "\<And>e. children = Err e \<Longrightarrow> \<not> not_found e" using close_all_error all by fastforce
      note res = finish_close_result [OF assms fin(2) err]
      have "shrinks k k3" "same_outside i k k3"
        using fin(2) by (auto simp: finish_close_def Let_def end_close_def intro!: close_steps k2 loop(2) k1(4))
      moreover have "keeps_owners k k3 \<and> find_live k3 i = None" if "r = Ok ()"
      proof -
        from loop(3) res(2) that have "keeps_owners k1 k2" "\<forall>c \<in> set (live_children i k1). find_live k2 c = None" by auto
        moreover have "find_live k3 x = (if x = i then None else find_live k2 x)" for x using res(3) [of x] by simp
        ultimately show ?thesis
          using owned_children [of k1 _ i] k1(5,6) unfolding keeps_owners_def by (simp add: Ball_def) metis
      qed
      ultimately show ?thesis using fin(1) res(1) by (auto simp: closes_def)
    qed
  qed
qed simp

lemma close_all_returns:
  assumes "\<And>c k. m k \<le> b \<Longrightarrow> single k \<Longrightarrow> \<exists>out. close c k = Some out \<and> single (fst out) \<and> m (fst out) \<le> (m k :: nat)"
  shows "m k \<le> b \<Longrightarrow> single k \<Longrightarrow> \<exists>out. close_all close cs r k = Some out"
proof (induction cs arbitrary: r k)
  case (Cons c cs)
  from assms [OF Cons.prems, of c] obtain k' r' where "close c k = Some (k', r')" "single k'" "m k' \<le> m k" by fastforce
  with Cons.IH [of k'] Cons.prems(1) show ?case by simp
qed simp

lemma close_within_returns:
  assumes "lawful_answers env"
  shows "card (active_in k) < n \<Longrightarrow> single k \<Longrightarrow> \<exists>out. close_within env n i k = Some out"
proof (induction n arbitrary: i k)
  case (Suc n)
  show ?case
  proof (cases "kernel_session k i")
    case (Ok l)
    from begin_close_Ok [OF Ok, of env] obtain k1 where k1: "begin_close i (request_closing env i k) = (k1, Ok ())" "shrinks k k1"
      "i \<in> active_in k" "active_in k1 \<subseteq> active_in k - {i}" by blast
    have fewer: "card (active_in k1) < card (active_in k)"
      using k1(3,4) finite_active [of k] by (intro psubset_card_mono) auto
    have step: "\<exists>out. close_within env n c k' = Some out \<and> single (fst out) \<and> card (active_in (fst out)) \<le> card (active_in k')"
      if "card (active_in k') \<le> card (active_in k1)" "single k'" for c and k' :: "('a, 'b) kernel_state"
    proof -
      from Suc.IH [of k' c] that fewer Suc.prems(1) obtain out where out: "close_within env n c k' = Some out" by auto
      with close_within_closes [OF assms out that(2)] that(2) show ?thesis
        by (auto simp: closes_def shrinks_def intro!: card_mono finite_active split: prod.splits)
    qed
    have "single k1" using k1(2) Suc.prems(2) by (simp add: shrinks_def)
    then have "\<exists>out. close_all (close_within env n) (live_children i k1) (Ok ()) k1 = Some out"
      by (intro close_all_returns [where m = "\<lambda>k. card (active_in k)" and b = "card (active_in k1)"] step) simp_all
    with Ok k1(1) show ?thesis by (fastforce split: result.splits)
  qed simp
qed simp

section \<open>Logs and their owners\<close>

definition edge_to :: "session_header \<Rightarrow> session_id \<Rightarrow> bool" where
  "edge_to h y \<longleftrightarrow> map_option owner (sh_ownership h) = Some y"

definition log_owned :: "factory \<Rightarrow> disk \<Rightarrow> session_id \<Rightarrow> session_id \<Rightarrow> bool" where
  "log_owned f d x y \<longleftrightarrow> (\<exists>h \<in> set (headers f None d). sh_id h = x \<and> edge_to h y)"

definition log_descends :: "factory \<Rightarrow> disk \<Rightarrow> session_id \<Rightarrow> session_id \<Rightarrow> bool" where
  "log_descends f d = (log_owned f d)\<^sup>*\<^sup>*"

definition has_log :: "factory \<Rightarrow> disk \<Rightarrow> session_id \<Rightarrow> bool" where
  "has_log f d x \<longleftrightarrow> (\<exists>h \<in> set (headers f None d). sh_id h = x)"

text \<open>The logs of a family lie in the directory of its owner: owned sessions are created in the owner's directory.\<close>

definition families_together :: "factory \<Rightarrow> ('h, 't) kernel_state \<Rightarrow> bool" where
  "families_together f k \<longleftrightarrow> (\<forall>lf \<in> set (kn_disk k). \<forall>h y.
     scan_header f None lf = Some h \<and> edge_to h y \<longrightarrow>
       (\<forall>h' \<in> set (headers f None (kn_disk k)). sh_id h' = y \<longrightarrow> lf_directory lf = cwd_session_directory (sh_cwd h')) \<and>
       (\<forall>l. find_live k y = Some l \<longrightarrow> lf_directory lf = cwd_session_directory (lv_cwd l)))"

definition prunes :: "('h, 't) kernel_state \<Rightarrow> ('h, 't) kernel_state \<Rightarrow> bool" where
  "prunes k k' \<longleftrightarrow> set (kn_disk k') \<subseteq> set (kn_disk k) \<and> kn_pending k' = kn_pending k \<and> (single k \<longrightarrow> single k') \<and>
     (\<forall>x l'. find_live k' x = Some l' \<longrightarrow> (\<exists>l. find_live k x = Some l \<and> lv_cwd l' = lv_cwd l))"

definition log_keeps :: "factory \<Rightarrow> disk \<Rightarrow> disk \<Rightarrow> bool" where
  "log_keeps f d d' \<longleftrightarrow> (\<forall>x y. log_owned f d' x y \<and> has_log f d y \<longrightarrow> has_log f d' y)"

definition log_outside :: "factory \<Rightarrow> session_id \<Rightarrow> disk \<Rightarrow> disk \<Rightarrow> bool" where
  "log_outside f i d d' \<longleftrightarrow>
     (\<forall>h \<in> set (headers f None d). \<not> log_descends f d (sh_id h) i \<longrightarrow> h \<in> set (headers f None d'))"

text \<open>A session keeps all of its logs or none.\<close>

definition log_whole :: "factory \<Rightarrow> disk \<Rightarrow> disk \<Rightarrow> bool" where
  "log_whole f d d' \<longleftrightarrow> (\<forall>h \<in> set (headers f None d). has_log f d' (sh_id h) \<longrightarrow> h \<in> set (headers f None d'))"

lemma headers_mono: "set d' \<subseteq> set d \<Longrightarrow> set (headers f None d') \<subseteq> set (headers f None d)"
  using headers_mem [of _ f] by blast

lemma log_owned_mono: "set d' \<subseteq> set d \<Longrightarrow> log_owned f d' x y \<Longrightarrow> log_owned f d x y"
  using headers_mono [of d' d f] by (auto simp: log_owned_def)

lemma log_descends_mono: "set d' \<subseteq> set d \<Longrightarrow> log_descends f d' x y \<Longrightarrow> log_descends f d x y"
  unfolding log_descends_def by (rule rtranclp_mono [THEN predicate2D]) (auto intro: log_owned_mono)

lemma has_log_mono: "set d' \<subseteq> set d \<Longrightarrow> has_log f d' x \<Longrightarrow> has_log f d x"
  using headers_mono [of d' d f] by (auto simp: has_log_def)

lemma prunes_refl: "prunes k k" by (simp add: prunes_def)

lemma prunes_trans:
  assumes "prunes k1 k2" "prunes k2 k3"
  shows "prunes k1 k3"
proof -
  have "\<exists>l. find_live k1 x = Some l \<and> lv_cwd l' = lv_cwd l" if l': "find_live k3 x = Some l'" for x l'
  proof -
    from l' assms(2) obtain l2 where "find_live k2 x = Some l2" "lv_cwd l' = lv_cwd l2" unfolding prunes_def by blast
    with assms(1) show ?thesis unfolding prunes_def by metis
  qed
  with assms show ?thesis by (simp add: prunes_def subset_trans [of "set (kn_disk k3)" "set (kn_disk k2)"])
qed

lemma shrinks_prunes: "shrinks k k' \<Longrightarrow> prunes k k'"
  by (force simp: shrinks_def prunes_def)

lemma families_prune:
  assumes "families_together f k" "prunes k k'"
  shows "families_together f k'"
  unfolding families_together_def
proof (intro ballI allI impI)
  fix lf h y assume lf: "lf \<in> set (kn_disk k')" "scan_header f None lf = Some h \<and> edge_to h y"
  from lf(1) assms(2) have "lf \<in> set (kn_disk k)" by (auto simp: prunes_def)
  with assms(1) lf(2) have all: "\<forall>h' \<in> set (headers f None (kn_disk k)). sh_id h' = y \<longrightarrow> lf_directory lf = cwd_session_directory (sh_cwd h')"
    "\<forall>l. find_live k y = Some l \<longrightarrow> lf_directory lf = cwd_session_directory (lv_cwd l)" unfolding families_together_def by blast+
  have "set (headers f None (kn_disk k')) \<subseteq> set (headers f None (kn_disk k))"
    using assms(2) by (intro headers_mono) (simp add: prunes_def)
  moreover have "\<exists>l. find_live k y = Some l \<and> lv_cwd l' = lv_cwd l" if "find_live k' y = Some l'" for l'
    using assms(2) that by (simp add: prunes_def)
  ultimately show "(\<forall>h' \<in> set (headers f None (kn_disk k')). sh_id h' = y \<longrightarrow> lf_directory lf = cwd_session_directory (sh_cwd h')) \<and>
      (\<forall>l. find_live k' y = Some l \<longrightarrow> lf_directory lf = cwd_session_directory (lv_cwd l))"
    using all by fastforce
qed

lemma log_keeps_trans:
  assumes "set d2 \<subseteq> set d1" "set d3 \<subseteq> set d2" "log_keeps f d1 d2" "log_keeps f d2 d3"
  shows "log_keeps f d1 d3"
  using assms log_owned_mono [OF assms(2)] unfolding log_keeps_def by blast

lemma log_whole_trans: "set d3 \<subseteq> set d2 \<Longrightarrow> log_whole f d1 d2 \<Longrightarrow> log_whole f d2 d3 \<Longrightarrow> log_whole f d1 d3"
  using has_log_mono [of d3 d2 f] unfolding log_whole_def by blast

lemma log_outside_trans:
  assumes "set d2 \<subseteq> set d1" "log_outside f i d1 d2" "log_outside f j d2 d3" "log_descends f d1 j i"
  shows "log_outside f i d1 d3"
  unfolding log_outside_def
proof (intro ballI impI)
  fix h assume h: "h \<in> set (headers f None d1)" "\<not> log_descends f d1 (sh_id h) i"
  with log_descends_mono [OF assms(1), of f "sh_id h" j] assms(4) have "\<not> log_descends f d2 (sh_id h) j"
    by (auto simp: log_descends_def dest: rtranclp_trans)
  with h assms(2,3) show "h \<in> set (headers f None d3)" by (simp add: log_outside_def)
qed

lemma find_header_cases:
  "case find_header f i d of None \<Rightarrow> \<not> has_log f d i | Some h \<Rightarrow> h \<in> set (headers f None d) \<and> sh_id h = i"
proof -
  have sound: "h \<in> set (headers f None d) \<and> sh_id h = i" if "h \<in> set (scan_headers f None (Some i) d)" for h
  proof -
    from that obtain lf where lf: "lf \<in> set d" "scan_header f (Some i) lf = Some h"
      by (auto simp: scan_headers_def map_filter_def)
    then have "sh_id h = i \<and> scan_header f None lf = Some h" by (auto simp: scan_header_def split: if_splits option.splits)
    with lf(1) show ?thesis by (auto simp: headers_mem)
  qed
  show ?thesis
  proof (cases "scan_headers f None (Some i) d")
    case Nil
    then show ?thesis by (auto simp: find_header_def has_log_def find_Some_iff find_None_iff split: option.splits)
  next
    case (Cons h hs)
    with sound [of h] show ?thesis by (simp add: find_header_def)
  qed
qed

section \<open>Deleting\<close>

text \<open>A deletion that stops after some files has removed no log of another session.\<close>

lemma removed_headers:
  assumes "distinct (map (file_path f) d)" "set paths \<subseteq> set (map sh_path (filter (\<lambda>h. sh_id h = i) (headers f None d)))"
  shows "{h \<in> set (headers f None d). sh_id h \<noteq> i} \<subseteq> set (headers f None (filter (\<lambda>lf. file_path f lf \<notin> set paths) d))"
proof
  fix h assume "h \<in> {h \<in> set (headers f None d). sh_id h \<noteq> i}"
  then obtain lf where lf: "lf \<in> set d" "scan_header f None lf = Some h" "sh_id h \<noteq> i" by (auto simp: headers_mem)
  have path: "sh_path h = file_path f lf" if "scan_header f None lf = Some h" for h lf
    using that by (auto simp: scan_header_def split: if_splits option.splits)
  have "file_path f lf \<notin> set paths"
  proof
    assume "file_path f lf \<in> set paths"
    with assms(2) obtain h' lf' where h': "lf' \<in> set d" "scan_header f None lf' = Some h'" "sh_id h' = i"
      "file_path f lf = sh_path h'" by (auto simp: headers_mem)
    with path [OF h'(2)] assms(1) lf(1) have "lf = lf'" by (metis distinct_map inj_onD)
    with lf h' show False by simp
  qed
  with lf show "h \<in> set (headers f None (filter (\<lambda>lf. file_path f lf \<notin> set paths) d))" by (auto simp: headers_mem)
qed

lemma delete_log_effect:
  assumes "delete_log env i k = (k', r)" "distinct (map (file_path (ke_factory env)) (kn_disk k))"
  shows "prunes k k'" "r = Ok () \<Longrightarrow> \<not> has_log (ke_factory env) (kn_disk k') i"
    "distinct (map (file_path (ke_factory env)) (kn_disk k'))"
    "{h \<in> set (headers (ke_factory env) None (kn_disk k)). sh_id h \<noteq> i} \<subseteq> set (headers (ke_factory env) None (kn_disk k'))"
proof -
  let ?f = "ke_factory env"
  let ?paths = "map sh_path (filter (\<lambda>h. sh_id h = i) (headers ?f None (kn_disk k)))"
  define paths where "paths = (case ke_removed env (kn_step k) of None \<Rightarrow> ?paths | Some m \<Rightarrow> take m ?paths)"
  have disk: "kn_disk k' = filter (\<lambda>lf. file_path ?f lf \<notin> set paths) (kn_disk k)" "set paths \<subseteq> set ?paths"
    using assms(1) set_take_subset [of _ ?paths] unfolding paths_def
    by (auto simp: delete_log_def delete_session_def Let_def split: option.splits)
  have rest: "kn_pending k' = kn_pending k" "kn_sessions k' = kn_sessions k"
    using assms(1) by (auto simp: delete_log_def Let_def split: option.splits)
  with disk(1) show "prunes k k'" by (auto simp: prunes_def single_def find_live_def)
  show "distinct (map (file_path ?f) (kn_disk k'))" using assms(2) disk(1) by (simp add: distinct_map_filter)
  show "{h \<in> set (headers ?f None (kn_disk k)). sh_id h \<noteq> i} \<subseteq> set (headers ?f None (kn_disk k'))"
    using removed_headers [OF assms(2) disk(2)] disk(1) by simp
  show "\<not> has_log ?f (kn_disk k') i" if "r = Ok ()"
    using assms that delete_removes_exactly_session [OF assms(2), of i]
    by (auto simp: delete_log_def has_log_def Let_def split: option.splits)
qed

text \<open>What one deletion does to the logs, whatever it answers.\<close>

definition deletes :: "factory \<Rightarrow> session_id \<Rightarrow> ('h, 't) kernel_state \<Rightarrow> ('h, 't) kernel_state \<times> (unit, kernel_error) result \<Rightarrow> bool" where
  "deletes f i k out \<longleftrightarrow> (case out of (k', r) \<Rightarrow> prunes k k' \<and> distinct (map (file_path f) (kn_disk k')) \<and>
     log_outside f i (kn_disk k) (kn_disk k') \<and> log_keeps f (kn_disk k) (kn_disk k') \<and>
     (r = Ok () \<longrightarrow> \<not> has_log f (kn_disk k') i \<and> log_whole f (kn_disk k) (kn_disk k')))"

definition deletable :: "factory \<Rightarrow> ('h, 't) kernel_state \<Rightarrow> bool" where
  "deletable f k \<longleftrightarrow> single k \<and> distinct (map (file_path f) (kn_disk k)) \<and> families_together f k"

lemma deletable_same [simp]:
  "deletable f (tick k) = deletable f k" "deletable f (k\<lparr>kn_pending := p\<rparr>) = deletable f k"
  by (simp_all add: deletable_def single_def families_together_def) (simp add: find_live_def)

lemma deletable_after: "deletable f k \<Longrightarrow> prunes k k' \<Longrightarrow> distinct (map (file_path f) (kn_disk k')) \<Longrightarrow> deletable f k'"
  by (auto simp: deletable_def intro: families_prune) (simp add: prunes_def)

lemma delete_all_deletes:
  assumes "delete_all delete cs k = Some (k', r)" "deletable f k" "set (kn_disk k) \<subseteq> set d0" "log_outside f i d0 (kn_disk k)"
    and "\<forall>c \<in> set cs. log_descends f d0 c i"
    and "\<And>c k out. delete c k = Some out \<Longrightarrow> deletable f k \<Longrightarrow> deletes f c k out"
  shows "prunes k k' \<and> deletable f k' \<and> log_outside f i d0 (kn_disk k') \<and> log_keeps f (kn_disk k) (kn_disk k') \<and>
    (r = Ok () \<longrightarrow> log_whole f (kn_disk k) (kn_disk k') \<and> (\<forall>c \<in> set cs. \<not> has_log f (kn_disk k') c))"
  using assms(1-5)
proof (induction cs arbitrary: k)
  case Nil
  then show ?case by (auto simp: prunes_refl log_keeps_def log_whole_def)
next
  case (Cons c cs)
  from Cons.prems(1) obtain k1 r1 where c: "delete c k = Some (k1, r1)"
    and rest: "r1 = Ok () \<Longrightarrow> delete_all delete cs k1 = Some (k', r)" "r1 \<noteq> Ok () \<Longrightarrow> k1 = k' \<and> r = r1"
    by (cases "delete c k") (auto split: result.splits)
  from assms(6) [OF c Cons.prems(2)] have one: "prunes k k1" "distinct (map (file_path f) (kn_disk k1))"
    "log_outside f c (kn_disk k) (kn_disk k1)" "log_keeps f (kn_disk k) (kn_disk k1)" "r1 = Ok () \<Longrightarrow> \<not> has_log f (kn_disk k1) c"
    "r1 = Ok () \<Longrightarrow> log_whole f (kn_disk k) (kn_disk k1)" by (auto simp: deletes_def)
  note k1 = deletable_after [OF Cons.prems(2) one(1,2)]
  have sub: "set (kn_disk k1) \<subseteq> set (kn_disk k)" using one(1) by (simp add: prunes_def)
  have out1: "log_outside f i d0 (kn_disk k1)" using log_outside_trans [OF Cons.prems(3,4) one(3)] Cons.prems(5) by simp
  show ?case
  proof (cases "r1 = Ok ()")
    case True
    have ih: "prunes k1 k'" "deletable f k'" "log_outside f i d0 (kn_disk k')" "log_keeps f (kn_disk k1) (kn_disk k')"
      "r = Ok () \<longrightarrow> log_whole f (kn_disk k1) (kn_disk k') \<and> (\<forall>c \<in> set cs. \<not> has_log f (kn_disk k') c)"
      using Cons.IH [OF rest(1) [OF True] k1 order_trans [OF sub Cons.prems(3)] out1] Cons.prems(5) by auto
    have sub': "set (kn_disk k') \<subseteq> set (kn_disk k1)" using ih(1) by (simp add: prunes_def)
    show ?thesis
      using ih prunes_trans [OF one(1) ih(1)] log_keeps_trans [OF sub sub' one(4) ih(4)] one(5,6) [OF True] has_log_mono [OF sub']
        log_whole_trans [OF sub' one(6) [OF True]] by auto
  next
    case False
    with rest(2) one k1 out1 show ?thesis by auto
  qed
qed

text \<open>Where the logs of the sessions owned by \<open>i\<close> are looked for.\<close>

definition home :: "factory \<Rightarrow> disk \<Rightarrow> session_id \<Rightarrow> string option \<Rightarrow> bool" where
  "home f d i cwd \<longleftrightarrow> (case cwd of
      None \<Rightarrow> \<not> has_log f d i
    | Some c \<Rightarrow> (\<forall>lf \<in> set d. \<forall>h. scan_header f None lf = Some h \<and> edge_to h i \<longrightarrow>
        lf_directory lf = cwd_session_directory c))"

lemma family_directory_home:
  assumes "family_directory env i k = Ok cwd" "families_together (ke_factory env) k"
  shows "home (ke_factory env) (kn_disk k) i cwd"
proof (cases "kernel_session k i")
  case (Ok l)
  then have "find_live k i = Some l" by (auto simp: kernel_session_def ensure_active_def split: option.splits session_lifecycle.splits)
  with Ok assms show ?thesis by (auto simp: family_directory_def home_def families_together_def)
next
  case (Err e)
  with assms(1) have "cwd = map_option sh_cwd (find_header (ke_factory env) i (kn_disk k))"
    by (auto simp: family_directory_def split: if_splits result.splits)
  with find_header_cases [of "ke_factory env" "kn_disk k" i] assms(2) show ?thesis
    by (auto simp: home_def families_together_def split: option.splits)
qed

lemma owned_logs_exact:
  "set (owned_logs env i c k) \<subseteq> {x. log_owned (ke_factory env) (kn_disk k) x i}"
  "home (ke_factory env) (kn_disk k) i (Some c) \<Longrightarrow> log_owned (ke_factory env) (kn_disk k) x i \<Longrightarrow> x \<in> set (owned_logs env i c k)"
proof -
  have mem: "h \<in> set (headers f (Some c) d) \<longleftrightarrow> (\<exists>lf \<in> set d. lf_directory lf = cwd_session_directory c \<and> scan_header f None lf = Some h)"
    for f d h by (force simp: headers_def scan_headers_def map_filter_def in_directory_def image_iff)
  show "set (owned_logs env i c k) \<subseteq> {x. log_owned (ke_factory env) (kn_disk k) x i}"
    unfolding owned_logs_def edge_to_def [symmetric] log_owned_def by (force simp: mem headers_mem)
  show "x \<in> set (owned_logs env i c k)"
    if "home (ke_factory env) (kn_disk k) i (Some c)" "log_owned (ke_factory env) (kn_disk k) x i"
    using that unfolding owned_logs_def edge_to_def [symmetric] log_owned_def by (force simp: home_def mem headers_mem image_iff)
qed

lemma delete_log_deletes:
  assumes "delete_log env i k = (k', r)" "deletable (ke_factory env) k"
    and "has_log (ke_factory env) (kn_disk k) i \<Longrightarrow> \<forall>x. \<not> log_owned (ke_factory env) (kn_disk k) x i"
  shows "deletes (ke_factory env) i k (k', r)"
proof -
  let ?f = "ke_factory env" and ?d = "kn_disk k" and ?d' = "kn_disk k'"
  note eff = delete_log_effect [OF assms(1)] assms(2) [unfolded deletable_def]
  have sub: "set ?d' \<subseteq> set ?d" using eff by (simp add: prunes_def)
  have "log_outside ?f i ?d ?d'" "r = Ok () \<longrightarrow> log_whole ?f ?d ?d'"
    using eff(2,4,5) by (auto simp: log_outside_def log_descends_def log_whole_def)
  moreover have "log_keeps ?f ?d ?d'"
    unfolding log_keeps_def
  proof (intro allI impI, elim conjE)
    fix x y assume "log_owned ?f ?d' x y" "has_log ?f ?d y"
    with assms(3) log_owned_mono [OF sub] have "y \<noteq> i" by blast
    with \<open>has_log ?f ?d y\<close> eff(4,5) show "has_log ?f ?d' y" by (auto simp: has_log_def)
  qed
  ultimately show ?thesis using eff by (simp add: deletes_def)
qed

lemma deletes_tick: "deletable f k \<Longrightarrow> deletes f i k (tick k, Err e)"
  by (simp add: deletes_def deletable_def prunes_def single_def log_outside_def log_keeps_def)

lemma deletes_after:
  assumes "prunes k k1" "log_outside f i (kn_disk k) (kn_disk k1)" "log_keeps f (kn_disk k) (kn_disk k1)" "deletes f i k1 out"
    and "snd out = Ok () \<Longrightarrow> log_whole f (kn_disk k) (kn_disk k1)"
  shows "deletes f i k out"
proof -
  obtain k' r where out: "out = (k', r)" by (cases out)
  have sub: "set (kn_disk k1) \<subseteq> set (kn_disk k)" "set (kn_disk k') \<subseteq> set (kn_disk k1)"
    using assms(1,4) by (auto simp: out deletes_def prunes_def)
  have "log_descends f (kn_disk k) i i" by (simp add: log_descends_def)
  with assms log_outside_trans [OF sub(1) assms(2)] log_keeps_trans [OF sub assms(3)] prunes_trans [OF assms(1)]
    log_whole_trans [OF sub(2), of f "kn_disk k"] show ?thesis
    by (auto simp: out deletes_def)
qed

lemma delete_family_deletes:
  assumes "delete_family env delete i cwd k = Some (k', r)" "deletable (ke_factory env) k" "home (ke_factory env) (kn_disk k) i cwd"
    and "\<And>c k out. delete c k = Some out \<Longrightarrow> deletable (ke_factory env) k \<Longrightarrow> deletes (ke_factory env) c k out"
  shows "deletes (ke_factory env) i k (k', r)"
proof (cases cwd)
  case None
  with assms(1) have "delete_log env i k = (k', r)" by (simp add: delete_family_def)
  from delete_log_deletes [OF this assms(2)] assms(3) None show ?thesis by (simp add: home_def)
next
  case (Some c)
  let ?f = "ke_factory env"
  have tick: "deletable ?f (tick k)" using assms(2) by simp
  show ?thesis
  proof (cases "ke_scan env (kn_step k)")
    case (Err e)
    with assms(1) Some deletes_tick [OF assms(2)] show ?thesis by (auto simp: delete_family_def)
  next
    case (Ok u)
    with assms(1) Some obtain k1 r1 where all: "delete_all delete (owned_logs env i c k) (tick k) = Some (k1, r1)"
      and rest: "case r1 of Err e \<Rightarrow> (k', r) = (k1, Err e) | Ok _ \<Rightarrow> delete_log env i k1 = (k', r)"
      by (auto simp: delete_family_def split: option.splits result.splits)
    have below: "\<forall>x \<in> set (owned_logs env i c k). log_descends ?f (kn_disk k) x i"
      using owned_logs_exact(1) [of env i c k] by (auto simp: log_descends_def)
    have loop: "prunes (tick k) k1" "deletable ?f k1" "log_outside ?f i (kn_disk k) (kn_disk k1)" "log_keeps ?f (kn_disk k) (kn_disk k1)"
      "r1 = Ok () \<Longrightarrow> log_whole ?f (kn_disk k) (kn_disk k1) \<and> (\<forall>x \<in> set (owned_logs env i c k). \<not> has_log ?f (kn_disk k1) x)"
      using delete_all_deletes [OF all tick _ _ below assms(4)] by (auto simp: log_outside_def)
    have pr: "prunes k k1" using loop(1) by (simp add: prunes_def single_def)
    show ?thesis
    proof (cases r1)
      case (Err e)
      with rest loop pr show ?thesis by (auto simp: deletes_def deletable_def)
    next
      case (Ok u)
      have sub: "set (kn_disk k1) \<subseteq> set (kn_disk k)" using pr by (simp add: prunes_def)
      have "\<not> log_owned ?f (kn_disk k1) x i" for x
      proof
        assume own: "log_owned ?f (kn_disk k1) x i"
        then have "has_log ?f (kn_disk k1) x" by (auto simp: has_log_def log_owned_def)
        moreover have "x \<in> set (owned_logs env i c k)"
          using owned_logs_exact(2) [of env k i c x] assms(3) Some log_owned_mono [OF sub own] by simp
        ultimately show False using loop(5) Ok by simp
      qed
      with delete_log_deletes [OF _ loop(2)] rest Ok have "deletes ?f i k1 (k', r)" by simp
      from deletes_after [OF pr loop(3,4) this] loop(5) Ok show ?thesis by simp
    qed
  qed
qed

lemma deletes_drop:
  assumes "deletes f i (k\<lparr>kn_pending := insert i (kn_pending k)\<rparr>) (k', r)" "i \<notin> kn_pending k"
  shows "deletes f i k (drop_reservation i k', r)"
proof -
  have "find_live (drop_reservation i k') = find_live k'" "find_live (k\<lparr>kn_pending := p\<rparr>) = find_live k" for p
    by (simp_all add: fun_eq_iff find_live_def drop_reservation_def)
  with assms show ?thesis by (auto simp: deletes_def prunes_def drop_reservation_def single_def)
qed

lemma delete_within_deletes:
  assumes "lawful_answers env"
  shows "delete_within env n i k = Some out \<Longrightarrow> deletable (ke_factory env) k \<Longrightarrow> deletes (ke_factory env) i k out"
proof (induction n arbitrary: i k out)
  case (Suc n)
  let ?f = "ke_factory env" and ?k = "k\<lparr>kn_pending := insert i (kn_pending k)\<rparr>"
  show ?case
  proof (cases "i \<in> kn_pending k")
    case True
    with Suc.prems show ?thesis
      by (auto simp: reserve_session_deletion_def deletes_def deletable_def prunes_refl log_outside_def log_keeps_def)
  next
    case False
    have able: "deletable ?f ?k" using Suc.prems(2) by simp
    then have able': "deletable ?f (tick ?k)" by simp
    show ?thesis
    proof (cases "family_directory env i ?k")
      case (Err e)
      with Suc.prems(1) False deletes_drop [OF deletes_tick [OF able] False] show ?thesis by (auto simp: reserve_session_deletion_def)
    next
      case (Ok cwd)
      note home = family_directory_home [OF Ok] able [unfolded deletable_def]
      from Suc.prems(1) False Ok obtain k2 r2 k' r where closed: "close_session env i (tick ?k) = Some (k2, r2)"
        and out: "out = (drop_reservation i k', r)"
        and rest: "(k', r) = (k2, r2) \<and> r2 \<noteq> Ok () \<or> delete_family env (delete_within env n) i cwd k2 = Some (k', r)"
        by (auto simp: reserve_session_deletion_def split: option.splits result.splits if_splits)
      have shr: "shrinks (tick ?k) k2"
        using close_within_closes [OF assms closed [unfolded close_session_def]] able' by (simp add: closes_def deletable_def)
      have disk: "kn_disk k2 = kn_disk k" using shr by (simp add: shrinks_def)
      have able2: "deletable ?f k2" using deletable_after [OF able' shrinks_prunes [OF shr]] able disk by (simp add: deletable_def)
      have "deletes ?f i k2 (k', r)"
        using rest
      proof
        assume "(k', r) = (k2, r2) \<and> r2 \<noteq> Ok ()"
        with able2 show ?thesis by (auto simp: deletes_def deletable_def prunes_refl log_outside_def log_keeps_def)
      next
        assume "delete_family env (delete_within env n) i cwd k2 = Some (k', r)"
        from delete_family_deletes [OF this able2 _ Suc.IH] home disk show ?thesis by simp
      qed
      moreover have "prunes ?k k2" using shrinks_prunes [OF shr] by (simp add: prunes_def single_def)
      moreover have "log_outside ?f i (kn_disk ?k) (kn_disk k2)" "log_keeps ?f (kn_disk ?k) (kn_disk k2)"
        "log_whole ?f (kn_disk ?k) (kn_disk k2)" using disk by (simp_all add: log_outside_def log_keeps_def log_whole_def)
      ultimately have "deletes ?f i ?k (k', r)" using deletes_after [of ?k k2 ?f i "(k', r)"] by blast
      from deletes_drop [OF this False] out show ?thesis by simp
    qed
  qed
qed simp

text \<open>A deletion reserves one more session at every level, so it ends, also where owners form a cycle.\<close>

definition unreserved :: "factory \<Rightarrow> session_id \<Rightarrow> ('h, 't) kernel_state \<Rightarrow> session_id set" where
  "unreserved f i k = insert i (sh_id ` set (headers f None (kn_disk k))) - kn_pending k"

lemma delete_all_returns:
  assumes "\<And>c k out. delete c k = Some out \<Longrightarrow> deletable f k \<Longrightarrow> deletes f c k out"
    and "\<And>c k. c \<in> set cs \<Longrightarrow> prunes k0 k \<Longrightarrow> deletable f k \<Longrightarrow> \<exists>out. delete c k = Some out"
  shows "prunes k0 k \<Longrightarrow> deletable f k \<Longrightarrow> \<exists>out. delete_all delete cs k = Some out"
  using assms(2)
proof (induction cs arbitrary: k)
  case (Cons c cs)
  from Cons.prems(3) [OF _ Cons.prems(1,2)] obtain k' r where c: "delete c k = Some (k', r)" by fastforce
  from assms(1) [OF c Cons.prems(2)] have "prunes k k'" "distinct (map (file_path f) (kn_disk k'))" by (auto simp: deletes_def)
  with Cons.prems deletable_after [of f k k'] prunes_trans [of k0 k k'] have "\<exists>out. delete_all delete cs k' = Some out"
    by (intro Cons.IH) auto
  with c show ?case by (cases r) auto
qed simp

lemma close_session_returns: "lawful_answers env \<Longrightarrow> single k \<Longrightarrow> \<exists>k' r. close_session env i k = Some (k', r)"
  using close_within_returns [of env k "Suc (length (kn_sessions k))" i] active_bound [of k] by (auto simp: close_session_def)

lemma delete_family_returns:
  assumes "\<And>c. \<exists>out. delete_all delete (owned_logs env i c k) (tick k) = Some out"
  shows "\<exists>out. delete_family env delete i cwd k = Some out"
proof (cases cwd)
  case (Some c)
  from assms [of c] obtain k' r where "delete_all delete (owned_logs env i c k) (tick k) = Some (k', r)" by fastforce
  with Some show ?thesis by (cases r) (auto simp: delete_family_def split: result.splits)
qed (simp add: delete_family_def)

lemma delete_within_returns:
  assumes "lawful_answers env"
  shows "card (unreserved (ke_factory env) i k) < n \<Longrightarrow> deletable (ke_factory env) k \<Longrightarrow> \<exists>out. delete_within env n i k = Some out"
proof (induction n arbitrary: i k)
  case (Suc n)
  let ?f = "ke_factory env" and ?k = "k\<lparr>kn_pending := insert i (kn_pending k)\<rparr>"
  show ?case
  proof (cases "i \<in> kn_pending k \<or> (\<exists>e. family_directory env i ?k = Err e)")
    case True
    then show ?thesis by (auto simp: reserve_session_deletion_def)
  next
    case False
    then obtain cwd where cwd: "i \<notin> kn_pending k" "family_directory env i ?k = Ok cwd" by (cases "family_directory env i ?k") auto
    have able: "deletable ?f (tick ?k)" using Suc.prems(2) by simp
    have single: "single (tick ?k)" using Suc.prems(2) by (simp add: deletable_def single_def)
    from close_session_returns [OF assms single, of i] obtain k2 r2 where closed: "close_session env i (tick ?k) = Some (k2, r2)" by blast
    have shr: "shrinks (tick ?k) k2"
      using close_within_closes [OF assms closed [unfolded close_session_def] single] by (simp add: closes_def)
    have "distinct (map (file_path ?f) (kn_disk k2))" using shr able by (simp add: deletable_def shrinks_def)
    from deletable_after [OF able shrinks_prunes [OF shr] this] have able2: "deletable ?f (tick k2)" by simp
    have nested: "\<exists>out. delete_within env n x k' = Some out"
      if "log_owned ?f (kn_disk k2) x i" "prunes (tick k2) k'" "deletable ?f k'" for x k'
    proof (rule Suc.IH [OF _ that(3)])
      have "set (headers ?f None (kn_disk k')) \<subseteq> set (headers ?f None (kn_disk k))"
        using that(2) shr by (intro headers_mono) (simp add: prunes_def shrinks_def)
      then have "unreserved ?f x k' \<subseteq> unreserved ?f i k - {i}"
        using that(1,2) shr by (auto simp: unreserved_def prunes_def shrinks_def log_owned_def)
      then have "card (unreserved ?f x k') \<le> card (unreserved ?f i k - {i})" by (intro card_mono) (simp_all add: unreserved_def)
      also have "\<dots> < card (unreserved ?f i k)" using cwd(1) by (intro card_Diff1_less) (simp_all add: unreserved_def)
      finally show "card (unreserved ?f x k') < n" using Suc.prems(1) by simp
    qed
    have "\<exists>out. delete_all (delete_within env n) (owned_logs env i c k2) (tick k2) = Some out" for c
      using owned_logs_exact(1) [of env i c k2] nested able2 prunes_refl
      by (intro delete_all_returns [where f = ?f and ?k0.0 = "tick k2"] delete_within_deletes [OF assms]) auto
    then have "\<exists>out. delete_family env (delete_within env n) i cwd k2 = Some out"
      by (intro delete_family_returns)
    with cwd closed show ?thesis by (cases r2) (auto simp: reserve_session_deletion_def)
  qed
qed simp

lemma unreserved_bound: "card (unreserved f i k) < length (kn_disk k) + 2"
proof -
  have "card (unreserved f i k) \<le> card (insert i (sh_id ` set (headers f None (kn_disk k))))"
    by (intro card_mono) (auto simp: unreserved_def)
  also have "\<dots> \<le> Suc (card (sh_id ` set (headers f None (kn_disk k))))" by (rule card_insert_le_m1) simp_all
  also have "card (sh_id ` set (headers f None (kn_disk k))) \<le> length (headers f None (kn_disk k))"
    by (rule order_trans [OF card_image_le card_length]) simp
  also have "length (headers f None (kn_disk k)) \<le> length (kn_disk k)"
    by (simp add: headers_def scan_headers_def map_filter_def in_directory_def)
  finally show ?thesis by simp
qed

end
