(* ===== verification/Lifecycle_Correct.thy ===== *)
theory Lifecycle_Correct
  imports Lifecycle_Props Execution_Props
begin

text \<open>
  The properties of the sessions of a kernel: creating an owned session is all or nothing, closing takes
  down exactly a family, deleting leaves no log without its owner. A small kernel shows them at work.
\<close>

section \<open>Creating\<close>

definition new_file :: "factory \<Rightarrow> nat \<Rightarrow> session_id \<Rightarrow> string \<Rightarrow> session_ownership \<Rightarrow> log_file" where
  "new_file f now child cwd ownership =
     \<lparr>lf_directory = cwd_session_directory cwd, lf_name = timestamp_to_string now @ ''_'' @ child @ ''.jsonl'',
      lf_content = to_text (fenv f) (encode_header (created_header now \<lparr>co_session_id = child, co_cwd = cwd,
        co_parent_session_id = None\<rparr> (Some ownership))) @ [newline],
      lf_modified_ms = now\<rparr>"

text \<open>The line of a header, with the newline it ends in, is read back as written.\<close>

definition reads_headers :: "factory \<Rightarrow> bool" where
  "reads_headers f \<longleftrightarrow> (\<forall>h. header_ok h \<longrightarrow> newline \<notin> set (to_text (fenv f) (encode_header h)) \<and>
     from_text f (to_text (fenv f) (encode_header h) @ [newline]) = Some (encode_header h))"

definition owned_header_ok :: "nat \<Rightarrow> session_id \<Rightarrow> session_ownership \<Rightarrow> bool" where
  "owned_header_ok now child ownership \<longleftrightarrow> header_ok (created_header now
     \<lparr>co_session_id = child, co_cwd = [], co_parent_session_id = None\<rparr> (Some ownership))"

lemma new_file_listed:
  assumes "reads_headers f" "owned_header_ok now child ownership"
  shows "\<exists>h. scan_header f None (new_file f now child cwd ownership) = Some h \<and> sh_id h = child \<and>
    sh_path h = file_path f (new_file f now child cwd ownership) \<and> sh_cwd h = cwd \<and> sh_ownership h = Some ownership"
proof -
  let ?h = "created_header now \<lparr>co_session_id = child, co_cwd = cwd, co_parent_session_id = None\<rparr> (Some ownership)"
  have ok: "header_ok ?h" using assms(2) by (simp add: owned_header_ok_def header_ok_def created_header_def)
  then have "newline \<notin> set (to_text (fenv f) (encode_header ?h))" using assms(1) by (auto simp: reads_headers_def)
  then have "read_line (to_text (fenv f) (encode_header ?h) @ [newline]) = to_text (fenv f) (encode_header ?h) @ [newline]"
    by (simp add: read_line_def) (subst takeWhile_append2; auto)
  moreover have "is_jsonl (timestamp_to_string now @ ''_'' @ child @ ''.jsonl'')" by (simp add: is_jsonl_def ends_with_def starts_with_def)
  ultimately show ?thesis
    using assms(1) ok header_roundtrip [OF ok] by (simp add: scan_header_def new_file_def reads_headers_def)
      (simp add: created_header_def)
qed

lemma delete_session_absent: "\<not> has_log f d i \<Longrightarrow> delete_session f i d = d"
  by (simp add: delete_session_def has_log_def filter_empty_conv Let_def)

lemma delete_session_new:
  assumes "\<not> has_log f d child" "reads_headers f" "owned_header_ok now child ownership"
    "file_path f (new_file f now child cwd ownership) \<notin> set (map (file_path f) d)"
  shows "delete_session f child (d @ [new_file f now child cwd ownership]) = d"
proof -
  let ?lf = "new_file f now child cwd ownership"
  from new_file_listed [OF assms(2,3)] obtain h where
    h: "scan_header f None ?lf = Some h" "sh_id h = child" and path: "sh_path h = file_path f ?lf" by blast
  have "headers f None (d @ [?lf]) = headers f None d @ [h]"
    using h(1) by (simp add: headers_def scan_headers_def map_filter_def in_directory_def)
  with assms(1) h(2) have "filter (\<lambda>h. sh_id h = child) (headers f None (d @ [?lf])) = [h]"
    by (auto simp: has_log_def filter_empty_conv)
  then have "delete_session f child (d @ [?lf]) = filter (\<lambda>lf. file_path f lf \<noteq> file_path f ?lf) d"
    by (simp add: delete_session_def path)
  also have "\<dots> = d" using assms(4) by (intro filter_True ballI) (metis image_eqI list.set_map)
  finally show ?thesis .
qed

text \<open>Between its reservation and its end, a creation has at most added one log and one session.\<close>

definition adds_at_most ::
    "factory \<Rightarrow> session_id \<Rightarrow> string \<Rightarrow> session_ownership \<Rightarrow> ('h, 't) kernel_state \<Rightarrow> ('h, 't) kernel_state \<Rightarrow> bool" where
  "adds_at_most f child cwd ownership k k' \<longleftrightarrow> kn_pending k' = kn_pending k \<and>
     (kn_sessions k' = kn_sessions k \<or> (\<exists>l. kn_sessions k' = (child, l) # kn_sessions k)) \<and>
     (kn_disk k' = kn_disk k \<or> (\<exists>now. kn_disk k' = kn_disk k @ [new_file f now child cwd ownership] \<and>
        owned_header_ok now child ownership \<and> file_path f (new_file f now child cwd ownership) \<notin> set (map (file_path f) (kn_disk k))))"

lemma adds_refl: "adds_at_most f child cwd ownership k k" by (simp add: adds_at_most_def)

lemma adds_tick: "adds_at_most f child cwd ownership k k' \<Longrightarrow> adds_at_most f child cwd ownership k (tick k')" by (simp add: adds_at_most_def)

lemma rollback_undoes:
  assumes "adds_at_most (ke_factory env) child cwd ownership k k'" "find_live k child = None" "\<not> has_log (ke_factory env) (kn_disk k) child"
    and "reads_headers (ke_factory env)" "\<And>n. ke_removed env n = None"
  defines "k'' \<equiv> fst (rollback_session_registration env child True k')"
  shows "kn_sessions k'' = kn_sessions k \<and> kn_pending k'' = kn_pending k \<and> kn_disk k'' = kn_disk k"
proof -
  let ?f = "ke_factory env"
  have absent: "filter (\<lambda>(j, l). j \<noteq> child) (kn_sessions k) = kn_sessions k"
    using assms(2) by (intro filter_True) (auto simp: find_live_def map_of_eq_None_iff image_iff)
  have disk: "delete_session ?f child (kn_disk k') = kn_disk k"
    using assms(1,3,4) delete_session_absent [OF assms(3)] delete_session_new [OF assms(3,4)] by (auto simp: adds_at_most_def)
  show ?thesis
    using assms(1) absent disk assms(2) unfolding k''_def
    by (auto simp: rollback_session_registration_def delete_log_def assms(5) adds_at_most_def forget_live_def find_live_def tick_def
        split: option.splits)
qed

text \<open>What the environment hands a creation: times in range, and the identifiers of its owner and of the call.\<close>

definition typed_ownership :: "session_ownership \<Rightarrow> bool" where
  "typed_ownership o' \<longleftrightarrow> (case o' of OwnedByTool s c \<Rightarrow> id_ok s \<and> id_ok c | OwnedInBackground s n \<Rightarrow> id_ok s)"

lemma create_owned_log:
  assumes "create_with f now \<lparr>co_session_id = child, co_cwd = cwd, co_parent_session_id = None\<rparr> (Some ownership) d = (d', r)"
  shows "r = Err StoreIo \<and> d' = d \<or> (\<exists>st. r = Ok st) \<and> d' = d @ [new_file f now child cwd ownership] \<and>
    file_path f (new_file f now child cwd ownership) \<notin> set (map (file_path f) d)"
  using assms by (auto simp: create_with_def Let_def new_file_def created_header_def read_file_def find_None_iff split: if_splits)

lemma change_absent: "find_live k i = None \<Longrightarrow> map (\<lambda>(j, l). (j, if j = i then g l else l)) (kn_sessions k) = kn_sessions k"
  by (intro map_idI) (auto simp: find_live_def map_of_eq_None_iff image_iff)

lemma adds_change:
  "adds_at_most f child cwd ownership k k' \<Longrightarrow> find_live k child = None \<Longrightarrow> adds_at_most f child cwd ownership k (change_live child g k')"
  unfolding adds_at_most_def using change_absent [of k child g] by (auto simp: change_live_def)

lemma checkpoint_adds:
  assumes "checkpoint_started_session env child True k' = (k'', r)" "adds_at_most (ke_factory env) child cwd ownership k k'"
    and "find_live k child = None" "\<not> has_log (ke_factory env) (kn_disk k) child" "reads_headers (ke_factory env)" "\<And>n. ke_removed env n = None"
  shows "adds_at_most (ke_factory env) child cwd ownership k k''"
proof -
  consider "k'' = k'" | g where "k'' = change_live child g (tick k')"
    | g where "k'' = fst (rollback_session_registration env child True (change_live child g (tick k')))"
    using assms(1) by (auto simp: checkpoint_started_session_def Let_def split: option.splits prod.splits result.splits)
  then show ?thesis
  proof cases
    case 1
    with assms(2) show ?thesis by simp
  next
    case (2 g)
    with adds_change [OF adds_tick [OF assms(2)] assms(3)] show ?thesis by simp
  next
    case (3 g)
    have "adds_at_most (ke_factory env) child cwd ownership k (change_live child g (tick k'))" by (rule adds_change [OF adds_tick [OF assms(2)] assms(3)])
    from rollback_undoes [OF this assms(3-6)] 3 show ?thesis by (simp add: adds_at_most_def)
  qed
qed

lemma checkpoint_active:
  assumes "checkpoint_started_session env i del k = (k', Ok ())" "find_live k i = Some l"
  shows "\<exists>l'. find_live k' i = Some l' \<and> sx_lifecycle (lv_execution l') = Active \<and> lv_ownership l' = lv_ownership l \<and> lv_cwd l' = lv_cwd l"
  using assms by (auto simp: checkpoint_started_session_def Let_def find_change finish_starting_def
      split: prod.splits result.splits session_lifecycle.splits)

lemma start_owned_adds:
  assumes "start_owned env child ownership cwd k = (k', r)" "find_live k child = None" "\<not> has_log (ke_factory env) (kn_disk k) child"
    and "reads_headers (ke_factory env)" "\<And>n. ke_removed env n = None" "\<And>n. owned_header_ok (ke_now env n) child ownership"
  shows "adds_at_most (ke_factory env) child cwd ownership k k'"
    "r = Ok () \<Longrightarrow> \<exists>l. find_live k' child = Some l \<and> sx_lifecycle (lv_execution l) = Active \<and> lv_ownership l = Some ownership \<and> lv_cwd l = cwd"
proof -
  obtain d r1 where created: "create_with (ke_factory env) (ke_now env (kn_step k))
      \<lparr>co_session_id = child, co_cwd = cwd, co_parent_session_id = None\<rparr> (Some ownership) (kn_disk k) = (d, r1)" by fastforce
  note log = create_owned_log [OF this]
  have "adds_at_most (ke_factory env) child cwd ownership k k' \<and> (r = Ok () \<longrightarrow>
    (\<exists>l. find_live k' child = Some l \<and> sx_lifecycle (lv_execution l) = Active \<and> lv_ownership l = Some ownership \<and> lv_cwd l = cwd))"
  proof (cases r1)
    case (Err e)
    with log created assms(1) show ?thesis by (auto simp: start_owned_def adds_at_most_def)
  next
    case (Ok st)
    let ?k = "tick k\<lparr>kn_disk := d\<rparr>"
    have base: "adds_at_most (ke_factory env) child cwd ownership k (tick ?k)" using log Ok assms(6) by (auto simp: adds_at_most_def)
    obtain b where built: "build_session env st cwd (Some ownership) ?k = (tick ?k, b)"
      "\<And>l. b = Ok l \<Longrightarrow> lv_ownership l = Some ownership \<and> lv_cwd l = cwd"
      by (cases "ke_build env (kn_step ?k)") (auto simp: build_session_def)
    let ?prepared = "and_then (ke_apply env (kn_step (tick ?k))) (\<lambda>_. and_then (kernel_session (tick ?k) (owner ownership)) (\<lambda>_. Ok ()))"
    show ?thesis
    proof (cases "\<exists>l. b = Ok l \<and> ?prepared = Ok ()")
      case False
      then show ?thesis
        using assms(1) created Ok built(1) base adds_tick [OF base] by (cases b; cases ?prepared) (auto simp: start_owned_def)
    next
      case True
      then obtain l where l: "b = Ok l" "?prepared = Ok ()" by blast
      let ?k2 = "(tick (tick ?k))\<lparr>kn_sessions := (child, l) # kn_sessions k\<rparr>"
      have reg: "register_session child l (tick (tick ?k)) = (?k2, Ok ())"
        using assms(2) by (simp add: register_session_def find_live_def)
      have k2: "adds_at_most (ke_factory env) child cwd ownership k ?k2" using base by (auto simp: adds_at_most_def)
      have live: "find_live (tick ?k2) child = Some l" by (simp add: find_live_def)
      show ?thesis
      proof (cases "ke_start env (kn_step ?k2)")
        case (Err e)
        with assms(1) created Ok built(1) l reg adds_tick [OF k2] show ?thesis by (auto simp: start_owned_def)
      next
        case start: (Ok u)
        obtain k3 r3 where check: "checkpoint_started_session env child True (tick ?k2) = (k3, r3)" by fastforce
        note k3 = checkpoint_adds [OF check adds_tick [OF k2] assms(2-5)]
        have out: "(k', r) = (case r3 of Err e \<Rightarrow> (k3, Err e) | Ok _ \<Rightarrow> (tick k3, ke_rename env (kn_step k3)))"
          using assms(1) created Ok built(1) l reg start check by (simp add: start_owned_def)
        show ?thesis
        proof (cases r3)
          case (Err e)
          with out k3 show ?thesis by simp
        next
          case (Ok u)
          with checkpoint_active [of env child True "tick ?k2" k3 l] check live built(2) [OF l(1)] out adds_tick [OF k3] show ?thesis by auto
        qed
      qed
    qed
  qed
  then show "adds_at_most (ke_factory env) child cwd ownership k k'"
    "r = Ok () \<Longrightarrow> \<exists>l. find_live k' child = Some l \<and> sx_lifecycle (lv_execution l) = Active \<and> lv_ownership l = Some ownership \<and> lv_cwd l = cwd"
    by blast+
qed

lemma checkpoint_ok_disk:
  "checkpoint_started_session env i del k = (k', Ok ()) \<Longrightarrow> kn_disk k' = kn_disk k"
  by (auto simp: checkpoint_started_session_def change_live_def Let_def split: option.splits prod.splits result.splits)

lemma start_owned_disk:
  assumes "start_owned env child ownership cwd k = (k', Ok ())"
  shows "kn_disk k' = kn_disk k @ [new_file (ke_factory env) (ke_now env (kn_step k)) child cwd ownership]"
proof -
  obtain d r where created: "create_with (ke_factory env) (ke_now env (kn_step k))
      \<lparr>co_session_id = child, co_cwd = cwd, co_parent_session_id = None\<rparr> (Some ownership) (kn_disk k) = (d, r)" by fastforce
  with assms obtain st where st: "r = Ok st" by (cases r) (auto simp: start_owned_def)
  with create_owned_log [OF created] have d: "d = kn_disk k @ [new_file (ke_factory env) (ke_now env (kn_step k)) child cwd ownership]"
    by auto
  have "kn_disk k' = d"
    using assms created st
    by (auto simp: start_owned_def build_session_def register_session_def dest!: checkpoint_ok_disk
        split: result.splits prod.splits if_splits)
  with d show ?thesis by simp
qed

text \<open>How a creation for an owner ends.\<close>

lemma create_owned_result:
  assumes "create_owned_session env ownership k = (k', r)" "reads_headers (ke_factory env)" "typed_ownership ownership"
    and "\<And>n. ke_removed env n = None" "\<And>n. ke_now env n \<le> u64_max"
    and "\<And>n. \<not> has_log (ke_factory env) (kn_disk k) (ke_id env n)"
  shows "kn_pending k' = kn_pending k \<and>
    (case r of
       Err e \<Rightarrow> kn_sessions k' = kn_sessions k \<and> kn_disk k' = kn_disk k
     | Ok child \<Rightarrow> find_live k child = None \<and>
        (\<exists>l. kn_sessions k' = (child, l) # kn_sessions k \<and> sx_lifecycle (lv_execution l) = Active \<and> lv_ownership l = Some ownership) \<and>
        (\<exists>o' now. kernel_session k (owner ownership) = Ok o' \<and> owned_header_ok now child ownership \<and>
           kn_disk k' = kn_disk k @ [new_file (ke_factory env) now child (lv_cwd o') ownership]))"
proof -
  let ?f = "ke_factory env"
  define child where "child = ke_id env (kn_step k)"
  let ?k1 = "(tick k)\<lparr>kn_pending := insert child (kn_pending k)\<rparr>"
  show ?thesis
  proof (cases "\<exists>o'. kernel_session k (owner ownership) = Ok o' \<and> \<not> is_blank child \<and> find_live k child = None \<and> child \<notin> kn_pending k")
    case False
    then show ?thesis
      using assms(1) by (cases "kernel_session k (owner ownership)")
        (auto simp: create_owned_session_def id_try_from_def child_def [symmetric] reserve_session_build_def split: if_splits)
  next
    case True
    then obtain o' where o': "kernel_session k (owner ownership) = Ok o'" and ok: "\<not> is_blank child" "find_live k child = None"
      "child \<notin> kn_pending k" by blast
    obtain k2 r2 where started: "start_owned env child ownership (lv_cwd o') ?k1 = (k2, r2)" by fastforce
    have live: "find_live ?k1 child = None" using ok(2) by (simp add: find_live_def)
    have log: "\<not> has_log ?f (kn_disk ?k1) child" using assms(6) by (simp add: child_def)
    have header: "owned_header_ok (ke_now env n) child ownership" for n
      using assms(3,5) ok(1) by (auto simp: owned_header_ok_def header_ok_def created_header_def id_ok_def opt_id_ok_def
          typed_ownership_def split: session_ownership.splits)
    note adds = start_owned_adds [OF started live log assms(2,4) header]
    have out: "(k', r) = (case r2 of Ok _ \<Rightarrow> (drop_reservation child k2, Ok child)
        | Err e \<Rightarrow> (drop_reservation child (fst (rollback_session_registration env child True k2)), Err e))"
      using assms(1) o' ok started
      by (auto simp: create_owned_session_def id_try_from_def child_def [symmetric] reserve_session_build_def split: result.splits)
    show ?thesis
    proof (cases r2)
      case (Err e)
      with out rollback_undoes [OF adds(1) live log assms(2,4)] ok(3) show ?thesis by (simp add: drop_reservation_def)
    next
      case (Ok u)
      then obtain l where l: "find_live k2 child = Some l" "sx_lifecycle (lv_execution l) = Active" "lv_ownership l = Some ownership"
        using adds(2) by auto
      with adds(1) live have "kn_sessions k2 = (child, l) # kn_sessions k" "kn_pending k2 = insert child (kn_pending k)"
        by (auto simp: adds_at_most_def find_live_def)
      moreover have "kn_disk k2 = kn_disk k @ [new_file ?f (ke_now env (kn_step ?k1)) child (lv_cwd o') ownership]"
        using start_owned_disk [of env child ownership "lv_cwd o'" ?k1 k2] started Ok by simp
      ultimately show ?thesis using out Ok l ok(2,3) o' header by (auto simp: drop_reservation_def)
    qed
  qed
qed

text \<open>A plain creation whose runtime cannot be built answers with the error and leaves the log it created, which is
  listed as a session from then on.\<close>

lemma failed_build_leaves_log:
  assumes "reserve_session_build (co_session_id options) k = Ok k1" "ke_build env (Suc (kn_step k)) = Err e"
    and "create_with (ke_factory env) (ke_now env (kn_step k)) options None (kn_disk k) = (disk, Ok st)"
  shows "\<exists>k'. create_session env options k = (k', Err e) \<and> kn_disk k' = disk \<and> kn_sessions k' = kn_sessions k"
  using assms by (auto simp: create_session_def reserve_session_build_def build_session_def drop_reservation_def Let_def tick_def
      split: if_splits)

section \<open>The walk up the owners\<close>

lemma owner_walk_returns:
  "card (sh_id ` set hs - seen) < n \<Longrightarrow> \<exists>r. owner_walk hs n seen (Some i) = Some r"
proof (induction n arbitrary: seen i)
  case (Suc n)
  show ?case
  proof (cases "i \<in> seen \<or> header_owner hs i = None")
    case True
    then show ?thesis by (cases n) auto
  next
    case False
    then obtain j where j: "header_owner hs i = Some j" by auto
    then have "i \<in> sh_id ` set hs" by (auto simp: header_owner_def find_Some_iff bind_eq_Some_conv)
    with False have "card (sh_id ` set hs - insert i seen) < card (sh_id ` set hs - seen)"
      by (intro psubset_card_mono) auto
    with Suc.IH [of "insert i seen" j] Suc.prems False j show ?thesis by auto
  qed
qed simp

text \<open>The check for a cycle of owners ends, however the logs refer to each other.\<close>

lemma check_owners_returns: "\<exists>r. check_owners hs child i = Some r"
proof -
  have "card (sh_id ` set hs - {child}) \<le> card (sh_id ` set hs)" by (intro card_mono) auto
  also have "\<dots> \<le> length hs" by (rule order_trans [OF card_image_le card_length]) simp
  finally show ?thesis unfolding check_owners_def by (intro owner_walk_returns) simp
qed

text \<open>When it passes, the chain of owners ends and never comes back to the child.\<close>

definition owner_above :: "session_header list \<Rightarrow> nat \<Rightarrow> session_id option \<Rightarrow> session_id option" where
  "owner_above hs m = (\<lambda>x. Option.bind x (header_owner hs)) ^^ m"

lemma owner_walk_passes:
  "owner_walk hs n seen x = Some (Ok ()) \<Longrightarrow>
    \<exists>m. owner_above hs m x = None \<and> (\<forall>j < m. \<forall>y \<in> seen. owner_above hs j x \<noteq> Some y)"
proof (induction hs n seen x rule: owner_walk.induct)
  case (1 hs n seen)
  then show ?case by (intro exI [of _ 0]) (simp add: owner_above_def)
next
  case (3 hs n seen i)
  then obtain m where m: "owner_above hs m (header_owner hs i) = None"
    "\<forall>j < m. \<forall>y \<in> insert i seen. owner_above hs j (header_owner hs i) \<noteq> Some y" and new: "i \<notin> seen"
    by (auto split: if_splits)
  have step: "owner_above hs (Suc j) (Some i) = owner_above hs j (header_owner hs i)" for j
    by (simp add: owner_above_def funpow_Suc_right del: funpow.simps)
  have "owner_above hs j (Some i) \<noteq> Some y" if "j < Suc m" "y \<in> seen" for j y
    using that m(2) new by (cases j) (auto simp: step, auto simp: owner_above_def)
  with m(1) step [of m] show ?case by (intro exI [of _ "Suc m"]) simp
qed simp

lemma checked_owners_end:
  assumes "check_owners hs child i = Some (Ok ())"
  shows "\<exists>m. owner_above hs m (Some i) = None \<and> (\<forall>j < m. owner_above hs j (Some i) \<noteq> Some child)"
  using owner_walk_passes [OF assms [unfolded check_owners_def]] by simp

section \<open>A small kernel\<close>

text \<open>The numeral factory, whose reader skips newlines; three live sessions of which one owns another, and three logs.\<close>

definition family_factory :: factory where
  "family_factory = numeral_factory\<lparr>from_text := (\<lambda>t. from_text numeral_factory (filter (\<lambda>c. c \<noteq> newline) t))\<rparr>"

definition family_session :: "session_ownership option \<Rightarrow> (nat \<times> nat list list, nat list) live_session" where
  "family_session o' = \<lparr>lv_cwd = ''w'', lv_ownership = o', lv_execution = idle_execution, lv_work = sample_queue_session,
     lv_reports_off = False, lv_publishing = True, lv_extensions = True, lv_mcp_open = True\<rparr>"

definition family_log :: "session_id \<Rightarrow> session_id \<Rightarrow> log_file" where
  "family_log i o' = new_file family_factory 5 i ''w'' (OwnedInBackground o' ''n'')"

definition family_kernel :: "(nat \<times> nat list list, nat list) kernel_state" where
  "family_kernel = \<lparr>kn_sessions = [(''p'', family_session None), (''c'', family_session (Some (OwnedInBackground ''p'' ''n''))),
       (''o'', family_session None)],
     kn_pending = {}, kn_disk = [family_log ''p'' ''r'', family_log ''c'' ''p'', family_log ''o'' ''r''], kn_step = 0\<rparr>"

definition family_env :: "(nat \<times> nat list list, nat list) kernel_env" where
  "family_env = \<lparr>ke_factory = family_factory, ke_tokens = path_tokens, ke_closer = 9, ke_now = (\<lambda>n. 7), ke_id = (\<lambda>n. ''d''),
     ke_queue_io = (\<lambda>n. Queue_Recovery.sample_io), ke_sync = (\<lambda>n. Written), ke_build = (\<lambda>n. Ok (family_session None)),
     ke_apply = (\<lambda>n. Ok ()), ke_start = (\<lambda>n. Ok ()), ke_rename = (\<lambda>n. Ok ()), ke_joined = (\<lambda>n. Ok ()),
     ke_context = (\<lambda>n. Ok ()), ke_mcp = (\<lambda>n. Ok ()), ke_scan = (\<lambda>n. Ok ()), ke_removed = (\<lambda>n. None)\<rparr>"

lemma family_reads: "reads_headers family_factory"
proof -
  have nl: "newline \<notin> set (to_text (fenv numeral_factory) v)" and got: "from_text numeral_factory (to_text (fenv numeral_factory) v) = Some v" for v
    using numeral_printable [of v] by (simp_all add: printable_def)
  have "filter (\<lambda>c. c \<noteq> newline) (to_text (fenv numeral_factory) v) = to_text (fenv numeral_factory) v" for v
    using nl [of v] by (intro filter_True) auto
  with nl got show ?thesis by (simp add: reads_headers_def family_factory_def)
qed

lemma family_ids: "id_ok ''p''" "id_ok ''c''" "id_ok ''o''" "id_ok ''r''" "id_ok ''d''"
  unfolding id_ok_def by (rule not_blank_char; simp add: ws1_def)+

lemma family_listed:
  assumes "id_ok i" "id_ok o'"
  shows "\<exists>h. scan_header family_factory None (family_log i o') = Some h \<and> sh_id h = i \<and> sh_cwd h = ''w'' \<and>
    sh_ownership h = Some (OwnedInBackground o' ''n'')"
  using new_file_listed [OF family_reads, of 5 i "OwnedInBackground o' ''n''" "''w''"] assms
  by (auto simp: family_log_def owned_header_ok_def header_ok_def created_header_def opt_id_ok_def u64_max_def)

lemma family_headers:
  "\<exists>hp hc ho. headers family_factory None (kn_disk family_kernel) = [hp, hc, ho] \<and> sh_id hp = ''p'' \<and> sh_id hc = ''c'' \<and> sh_id ho = ''o'' \<and>
    sh_ownership hp = Some (OwnedInBackground ''r'' ''n'') \<and> sh_ownership hc = Some (OwnedInBackground ''p'' ''n'') \<and>
    sh_ownership ho = Some (OwnedInBackground ''r'' ''n'') \<and> sh_cwd hp = ''w'' \<and> sh_cwd hc = ''w'' \<and> sh_cwd ho = ''w''"
  using family_listed [OF family_ids(1,4)] family_listed [OF family_ids(2,1)] family_listed [OF family_ids(3,4)]
  by (auto simp: family_kernel_def headers_def scan_headers_def map_filter_def in_directory_def)

lemma family_lawful: "lawful_answers family_env" "single family_kernel"
  by (simp_all add: lawful_answers_def family_env_def single_def family_kernel_def)

lemma family_deletable: "deletable family_factory family_kernel"
proof -
  obtain hp hc ho where h: "headers family_factory None (kn_disk family_kernel) = [hp, hc, ho]" "sh_cwd hp = ''w''" "sh_cwd hc = ''w''" "sh_cwd ho = ''w''"
    using family_headers by blast
  have "lf_directory lf = cwd_session_directory ''w''" if "lf \<in> set (kn_disk family_kernel)" for lf
    using that by (auto simp: family_kernel_def family_log_def new_file_def)
  moreover have "lv_cwd l = ''w''" if "find_live family_kernel y = Some l" for y l
    using that by (auto simp: family_kernel_def find_live_def family_session_def split: if_splits)
  ultimately have "families_together family_factory family_kernel" using h by (auto simp: families_together_def)
  moreover have "distinct (map (file_path family_factory) (kn_disk family_kernel))"
    by (simp add: family_kernel_def family_log_def new_file_def file_path_def)
  ultimately show ?thesis using family_lawful(2) by (simp add: deletable_def)
qed

lemma family_creates:
  "\<exists>k'. create_owned_session family_env (OwnedInBackground ''p'' ''n'') (family_kernel\<lparr>kn_disk := []\<rparr>) = (k', Ok ''d'')"
  using family_ids(5)
  by (simp add: create_owned_session_def kernel_session_def find_live_def family_kernel_def family_session_def ensure_active_def
      idle_execution_def id_try_from_def id_ok_def family_env_def reserve_session_build_def tick_def start_owned_def create_with_def Let_def
      read_file_def build_session_def register_session_def checkpoint_started_session_def transcript_sync_def finish_starting_def)

lemma family_closes: "\<exists>k'. close_session family_env ''p'' family_kernel = Some (k', Ok ())"
  by (simp add: close_session_def family_kernel_def eval_nat_numeral kernel_session_def find_live_def family_session_def ensure_active_def
      idle_execution_def request_closing_def change_live_def begin_close_def begin_closing_def request_close_lifecycle Let_def
      live_children_def tick_def family_env_def preserve_primary_error_def absent_closed_def finish_close_def transcript_sync_def
      end_close_def forget_live_def)

section \<open>The properties\<close>



text \<open>C11: a close returns whatever the hooks, MCP and the disk answer, leaves every session outside the family of the
  closed one as it was, and when it succeeds no session of the family is left: children, their children and so on.\<close>

theorem close_takes_down_family:
  assumes "lawful_answers env" "single k"
  shows "\<exists>k' r. close_session env i k = Some (k', r) \<and> (\<forall>x. \<not> descends k x i \<longrightarrow> find_live k' x = find_live k x) \<and>
    (r = Ok () \<longrightarrow> (\<forall>x. descends k x i \<longrightarrow> find_live k' x = None))"
proof -
  from close_session_returns [OF assms] obtain k' r where run: "close_session env i k = Some (k', r)" by blast
  have c: "closes i k (k', r)" using close_within_closes [OF assms(1) run [unfolded close_session_def] assms(2)] .
  have "find_live k i \<noteq> None" if "r = Ok ()"
    using run that by (auto simp: close_session_def kernel_session_def split: option.splits)
  with c run keeps_owners_below [of k k' _ i] show ?thesis by (auto simp: closes_def same_outside_def)
qed

theorem close_takes_down_family_witness:
  "\<exists>k'. close_session family_env ''p'' family_kernel = Some (k', Ok ()) \<and> find_live k' ''c'' = None \<and>
    find_live k' ''o'' = Some (family_session None)"
proof -
  have edges: "owned_by family_kernel x y \<longleftrightarrow> x = ''c'' \<and> y = ''p''" for x y
    by (auto simp: owned_by_def find_live_def family_kernel_def family_session_def)
  have "descends family_kernel ''c'' ''p''" "\<not> descends family_kernel ''o'' ''p''"
    unfolding descends_def by (auto simp: edges elim: converse_rtranclpE)
  moreover have "find_live family_kernel ''o'' = Some (family_session None)" by (simp add: find_live_def family_kernel_def)
  ultimately show ?thesis
    using close_takes_down_family [OF family_lawful, of "''p''"] family_closes by auto
qed



end
