(* ===== verification/Subagent_Props.thy ===== *)
theory Subagent_Props
  imports Subagents Lifecycle_Correct
begin

text \<open>
  Properties of subagents: the names of an owner's background children stay unique and lead to the child a
  reply names, an answer is reported once, and what is reported is bounded.
\<close>

section \<open>Listing\<close>

lemma named_children_same:
  "headers f (Some cwd) d' = headers f (Some cwd) d \<Longrightarrow> named_children f o' cwd d' = named_children f o' cwd d"
  by (simp add: named_children_def)

lemma named_children_new:
  assumes "reads_headers f" "owned_header_ok now child (OwnedInBackground o' name)"
  shows "named_children f o' cwd (d @ [new_file f now child cwd (OwnedInBackground o' name)]) =
    named_children f o' cwd d @ [(name, child)]"
proof -
  from new_file_listed [OF assms] obtain h where
    h: "scan_header f None (new_file f now child cwd (OwnedInBackground o' name)) = Some h" "sh_id h = child"
    "sh_ownership h = Some (OwnedInBackground o' name)" by blast
  have "in_directory (Some cwd) (new_file f now child cwd (OwnedInBackground o' name))"
    by (simp add: in_directory_def new_file_def)
  with h show ?thesis by (simp add: named_children_def headers_def scan_headers_def map_filter_def)
qed

definition names_unique :: "factory \<Rightarrow> session_id \<Rightarrow> string \<Rightarrow> disk \<Rightarrow> bool" where
  "names_unique f o' cwd disk \<longleftrightarrow> distinct (map fst (named_children f o' cwd disk))"

lemma distinct_map_sort_key: "distinct (map g (sort_key f xs)) = distinct (map g xs)"
  by (metis distinct_map distinct_sort set_sort)

lemma sorted_lookup: "names_unique f o' cwd d \<Longrightarrow>
    map_of (sort_key fst (named_children f o' cwd d)) = map_of (named_children f o' cwd d)"
  by (subst map_of_inject_set) (auto simp: names_unique_def distinct_map_sort_key)

section \<open>Actions\<close>

lemma report_later_kernel:
  "report_later session o' child name body busy reply s = (s', r) \<Longrightarrow>
    sb_kernel s' = sb_kernel s \<and> (\<forall>x. r = Ok x \<longrightarrow> snd x = Some child)"
  by (auto simp: report_later_def spawn_reporter_def split: if_splits)

lemma sb_kernel_set: "sb_kernel (s\<lparr>sb_kernel := k\<rparr>) = k" by simp

lemma stop_child_disk: "stop_child env child k = (k', r) \<Longrightarrow> kn_disk k' = kn_disk k"
  by (auto simp: stop_child_def change_live_def Let_def split: result.splits prod.splits)

text \<open>What a creation finds: headers read back as written, times in range, new identifiers, deletions without errors.\<close>

definition creation_laws :: "('h, 't) kernel_env \<Rightarrow> disk \<Rightarrow> bool" where
  "creation_laws env disk \<longleftrightarrow> reads_headers (ke_factory env) \<and> (\<forall>n. ke_removed env n = None) \<and> (\<forall>n. ke_now env n \<le> u64_max) \<and>
     (\<forall>n. \<not> has_log (ke_factory env) disk (ke_id env n))"

text \<open>The child a name leads to.\<close>

definition child_named :: "factory \<Rightarrow> session_id \<Rightarrow> string \<Rightarrow> disk \<Rightarrow> background_action \<Rightarrow> session_id \<Rightarrow> bool" where
  "child_named f o' cwd disk action c \<longleftrightarrow>
     (\<exists>n. action_name action = Some n \<and> map_of (named_children f o' cwd disk) n = Some c)"

lemma spawned_child_named:
  assumes "create_owned_session env (OwnedInBackground o' name) k = (k', r)" "creation_laws env (kn_disk k)" "id_ok o'"
    and "find_live k o' = Some session" "names_unique (ke_factory env) o' (lv_cwd session) (kn_disk k)"
    and "map_of (named_children (ke_factory env) o' (lv_cwd session) (kn_disk k)) name = None"
  shows "names_unique (ke_factory env) o' (lv_cwd session) (kn_disk k')"
    "r = Ok c \<Longrightarrow> map_of (named_children (ke_factory env) o' (lv_cwd session) (kn_disk k')) name = Some c"
proof -
  let ?children = "named_children (ke_factory env) o' (lv_cwd session)"
  have reads: "reads_headers (ke_factory env)" using assms(2) by (simp add: creation_laws_def)
  have "case r of Err e \<Rightarrow> kn_disk k' = kn_disk k
      | Ok child \<Rightarrow> \<exists>now. owned_header_ok now child (OwnedInBackground o' name) \<and>
         kn_disk k' = kn_disk k @ [new_file (ke_factory env) now child (lv_cwd session) (OwnedInBackground o' name)]"
    using create_owned_result [OF assms(1) reads] assms(2-4)
    by (auto simp: creation_laws_def typed_ownership_def kernel_session_def and_then_Ok_iff split: result.splits)
  then have children: "case r of Err e \<Rightarrow> ?children (kn_disk k') = ?children (kn_disk k)
      | Ok child \<Rightarrow> ?children (kn_disk k') = ?children (kn_disk k) @ [(name, child)]"
    using named_children_new [OF reads] by (auto split: result.splits)
  have new: "name \<notin> fst ` set (?children (kn_disk k))" using assms(6) by (simp add: map_of_eq_None_iff)
  from children new assms(5) show "names_unique (ke_factory env) o' (lv_cwd session) (kn_disk k')"
    by (auto simp: names_unique_def split: result.splits)
  from children assms(6) show "r = Ok c \<Longrightarrow> map_of (?children (kn_disk k')) name = Some c"
    by (simp add: map_add_def)
qed

text \<open>Where the actions that start a reporter leave the kernel.\<close>

lemma send_action_cases:
  assumes "execute_action env o' session (BaSend n m b) s = (s', r)" "ke_scan (se_kernel env) (kn_step (sb_kernel s)) = Ok u"
    and "map_of (sort_key fst (named_children (ke_factory (se_kernel env)) o' (lv_cwd session) (kn_disk (sb_kernel s)))) n = Some c"
  shows "sb_kernel s' \<in> {tick (sb_kernel s), fst (se_resume env c (tick (sb_kernel s)))} \<and> (\<forall>x. r = Ok x \<longrightarrow> snd x = Some c)"
proof -
  let ?k = "tick (sb_kernel s)"
  obtain k' r' where woken: "(case kernel_session ?k c of Ok l \<Rightarrow> (?k, Ok ())
      | Err e \<Rightarrow> if not_found e then se_resume env c ?k else (?k, Err e)) = (k', r')" by fastforce
  have "(case r' of Err e \<Rightarrow> (s\<lparr>sb_kernel := k'\<rparr>, Err e)
      | Ok _ \<Rightarrow> report_later session o' c n m b (''Sent to '' @ n @ ''.'') (s\<lparr>sb_kernel := k'\<rparr>)) = (s', r)"
    using assms woken by (cases r'; simp add: execute_action_def Let_def)
  then have "sb_kernel s' = k' \<and> (\<forall>x. r = Ok x \<longrightarrow> snd x = Some c)"
    using report_later_kernel [of session o' c n m b _ "s\<lparr>sb_kernel := k'\<rparr>" s' r] by (cases r') auto
  moreover have "k' \<in> {?k, fst (se_resume env c ?k)}" using woken by (auto split: result.splits if_splits)
  ultimately show ?thesis by simp
qed

lemma spawn_action_cases:
  assumes "execute_action env o' session (BaSpawn n m b model) s = (s', r)" "ke_scan (se_kernel env) (kn_step (sb_kernel s)) = Ok u"
    and "map_of (sort_key fst (named_children (ke_factory (se_kernel env)) o' (lv_cwd session) (kn_disk (sb_kernel s)))) n = None"
    and made: "create_owned_session (se_kernel env) (OwnedInBackground o' n) (tick (sb_kernel s)) = (k', r')"
  shows "sb_kernel s' = tick (sb_kernel s) \<and> (\<forall>text c. r \<noteq> Ok (text, Some c)) \<or>
    sb_kernel s' = k' \<and> (\<forall>text c. r = Ok (text, Some c) \<longrightarrow> r' = Ok c)"
proof -
  let ?s = "s\<lparr>sb_kernel := tick (sb_kernel s)\<rparr>"
  have "(case (case model of None \<Rightarrow> Ok () | Some reference \<Rightarrow> se_model env reference) of
      Err text \<Rightarrow> (?s, Ok (text, None))
    | Ok _ \<Rightarrow> (case session_title_try_from n of
        Err e \<Rightarrow> (?s, Err (ProtocolError (scalar_text e)))
      | Ok title \<Rightarrow> (case r' of
          Err e \<Rightarrow> (s\<lparr>sb_kernel := k'\<rparr>, Err e)
        | Ok c \<Rightarrow> report_later session o' c n (child_prompt n m) b (''Started '' @ n @ ''.'') (s\<lparr>sb_kernel := k'\<rparr>)))) = (s', r)"
    using assms by (simp add: execute_action_def Let_def split: result.splits)
  then show ?thesis
    using report_later_kernel [of session o' _ n "child_prompt n m" b "''Started '' @ n @ ''.''" "s\<lparr>sb_kernel := k'\<rparr>" s' r]
    by (fastforce split: result.splits)
qed

lemma status_action_cases:
  assumes "execute_action env o' session (BaStatus n) s = (s', r)" "ke_scan (se_kernel env) (kn_step (sb_kernel s)) = Ok u"
  shows "sb_kernel s' = tick (sb_kernel s) \<and> (\<forall>text c. r = Ok (text, Some c) \<longrightarrow>
    Option.bind n (map_of (sort_key fst (named_children (ke_factory (se_kernel env)) o' (lv_cwd session) (kn_disk (sb_kernel s))))) = Some c)"
proof (cases n)
  case None
  with assms show ?thesis
    unfolding execute_action_def Let_def
    by (auto simp only: and_then_Ok_iff result.case option.case prod.case background_action.case simp_thms sb_kernel_set)
next
  case (Some name)
  with assms show ?thesis
    by (cases "map_of (sort_key fst (named_children (ke_factory (se_kernel env)) o' (lv_cwd session) (kn_disk (sb_kernel s)))) name")
      (auto simp: execute_action_def Let_def and_then_Ok_iff)
qed

text \<open>Every action keeps the names of the owner's children unique, and a reply that names a child names the one its
  name leads to afterwards.\<close>

lemma execute_action_names:
  assumes exec: "execute_action env o' session action s = (s', r)" and laws: "creation_laws (se_kernel env) (kn_disk (sb_kernel s))" "id_ok o'"
    and live: "find_live (sb_kernel s) o' = Some session"
    and resumed: "\<And>c k. headers (ke_factory (se_kernel env)) (Some (lv_cwd session)) (kn_disk (fst (se_resume env c k))) =
      headers (ke_factory (se_kernel env)) (Some (lv_cwd session)) (kn_disk k)"
    and unique: "names_unique (ke_factory (se_kernel env)) o' (lv_cwd session) (kn_disk (sb_kernel s))"
  shows "names_unique (ke_factory (se_kernel env)) o' (lv_cwd session) (kn_disk (sb_kernel s')) \<and>
    (\<forall>text c. r = Ok (text, Some c) \<longrightarrow>
       child_named (ke_factory (se_kernel env)) o' (lv_cwd session) (kn_disk (sb_kernel s')) action c)"
proof -
  let ?f = "ke_factory (se_kernel env)" and ?cwd = "lv_cwd session" and ?k = "tick (sb_kernel s)"
  let ?children = "named_children ?f o' ?cwd (kn_disk (sb_kernel s))"
  let ?found = "Option.bind (action_name action) (map_of ?children)"
  note sorted = sorted_lookup [OF unique]
  have keeps: ?thesis if "named_children ?f o' ?cwd (kn_disk (sb_kernel s')) = ?children" "\<And>text c. r = Ok (text, Some c) \<Longrightarrow> ?found = Some c"
    using that unique by (auto simp: names_unique_def child_named_def bind_eq_Some_conv)
  show ?thesis
  proof (cases "ke_scan (se_kernel env) (kn_step (sb_kernel s))")
    case (Err e)
    with exec show ?thesis by (intro keeps) (auto simp: execute_action_def Let_def)
  next
    case scan: (Ok u)
    show ?thesis
    proof (cases action)
      case (BaStatus n)
      with status_action_cases [OF exec [unfolded BaStatus] scan] sorted show ?thesis by (intro keeps) auto
    next
      case (BaStop n)
      with exec scan sorted show ?thesis
        by (intro keeps; cases "map_of ?children n")
          (auto simp: execute_action_def Let_def and_then_Ok_iff dest!: stop_child_disk split: prod.splits)
    next
      case (BaSend n m b)
      show ?thesis
      proof (cases "map_of ?children n")
        case None
        with exec scan sorted BaSend show ?thesis by (intro keeps) (auto simp: execute_action_def Let_def)
      next
        case (Some c)
        with send_action_cases [OF exec [unfolded BaSend] scan] sorted have
          k': "sb_kernel s' \<in> {?k, fst (se_resume env c ?k)}" "\<forall>x. r = Ok x \<longrightarrow> snd x = Some c" by simp_all
        have "named_children ?f o' ?cwd (kn_disk (sb_kernel s')) = ?children"
          using k'(1) resumed [of c ?k] by (intro named_children_same) auto
        with k'(2) Some BaSend show ?thesis by (intro keeps) auto
      qed
    next
      case (BaSpawn n m b model)
      show ?thesis
      proof (cases "map_of ?children n")
        case (Some c)
        with exec scan sorted BaSpawn show ?thesis by (intro keeps) (auto simp: execute_action_def Let_def)
      next
        case None
        obtain k' r' where made: "create_owned_session (se_kernel env) (OwnedInBackground o' n) ?k = (k', r')" by fastforce
        have "find_live ?k o' = Some session" using live by (simp add: find_live_def)
        note spawned = spawned_child_named [OF made _ laws(2) this]
        from spawn_action_cases [OF exec [unfolded BaSpawn] scan _ made] sorted None spawned laws(1) unique BaSpawn show ?thesis
          by (auto simp: child_named_def)
      qed
    qed
  qed
qed

section \<open>Reports\<close>

type_synonym reporter_step = "reporter \<times> (bool \<times> bool) \<times> (submission_answer, kernel_error) result"

text \<open>Reporters of one owner, in the order in which their answers arrive.\<close>

fun run_reporters :: "reporter_step list \<Rightarrow> (session_id \<times> message_id) set \<Rightarrow> string option list" where
  "run_reporters [] reported = []"
| "run_reporters ((r, halted, delivered) # rest) reported =
     (case reporter_run r halted delivered reported of
        (reported', report) \<Rightarrow> report # run_reporters rest reported')"

definition brings :: "session_id \<times> message_id \<Rightarrow> reporter_step \<Rightarrow> bool" where
  "brings answer x \<longleftrightarrow> (case x of (r, halted, delivered) \<Rightarrow>
     \<exists>a. delivered = Ok a \<and> sa_outcome a = AnswerCompleted \<and> sa_message_id a = Some (snd answer) \<and> rp_child r = fst answer)"

lemma reporter_run_marks:
  "reporter_run r halted delivered reported = (reported', report) \<Longrightarrow> brings answer (r, halted, delivered) \<Longrightarrow>
    report = None \<or> answer \<notin> reported \<and> answer \<in> reported'"
  by (cases answer) (auto simp: reporter_run_def report_answer_def mark_reported_def brings_def split: if_splits bool.splits)

lemma reporter_run_keeps: "reporter_run r halted delivered reported = (reported', report) \<Longrightarrow> reported \<subseteq> reported'"
  by (auto simp: reporter_run_def report_answer_def mark_reported_def split: if_splits result.splits answer_outcome.splits option.splits bool.splits)

lemma reported_stays_silent:
  "answer \<in> reported \<Longrightarrow> j < length steps \<Longrightarrow> brings answer (steps ! j) \<Longrightarrow> run_reporters steps reported ! j = None"
proof (induction steps reported arbitrary: j rule: run_reporters.induct)
  case (2 r halted delivered rest reported)
  obtain reported' report where run: "reporter_run r halted delivered reported = (reported', report)" by fastforce
  with 2 reporter_run_marks [OF run, of answer] reporter_run_keeps [OF run] show ?case by (cases j) auto
qed simp

text \<open>Two reporters that wait for the same answer of a child bring it to the owner at most once.\<close>

lemma answer_reported_once:
  "i < j \<Longrightarrow> j < length steps \<Longrightarrow> brings answer (steps ! i) \<Longrightarrow> brings answer (steps ! j) \<Longrightarrow>
    run_reporters steps reported ! i = None \<or> run_reporters steps reported ! j = None"
proof (induction steps reported arbitrary: i j rule: run_reporters.induct)
  case (2 r halted delivered rest reported)
  obtain reported' report where run: "reporter_run r halted delivered reported = (reported', report)" by fastforce
  obtain j' where j: "j = Suc j'" using 2(2) by (cases j) auto
  show ?case
  proof (cases i)
    case 0
    with 2 j run reporter_run_marks [OF run, of answer] reported_stays_silent [of answer reported' j' rest] show ?thesis by auto
  next
    case (Suc i')
    with 2(1) [OF run [symmetric], of i' j'] 2(2-5) j run show ?thesis by simp
  qed
qed simp

text \<open>The first answer is not lost: with no shutdown it is reported, and within the bounds of a tool result.\<close>

lemma report_bounded:
  assumes "subagent_name_ok name"
  shows "length (answered_text name body) \<le> TOOL_TEXT_BYTES + 256"
proof -
  let ?t = "truncate_head body DEFAULT_MAX_LINES TOOL_TEXT_BYTES"
  have "TOOL_TEXT_BYTES < u64_max" by (simp add: TOOL_TEXT_BYTES_def u64_max_def)
  from truncate_head_longest_prefix [OF this, of body DEFAULT_MAX_LINES] have "length (td_content ?t) \<le> TOOL_TEXT_BYTES"
    by (auto split: if_splits)
  with assms show ?thesis by (simp add: answered_text_def Let_def truncated_note_def subagent_name_ok_def)
qed

lemma first_answer_reported:
  "\<not> fst halted \<Longrightarrow> \<not> snd halted \<Longrightarrow> delivered = Ok a \<Longrightarrow> sa_outcome a = AnswerCompleted \<Longrightarrow>
    (\<And>m. sa_message_id a = Some m \<Longrightarrow> (rp_child r, m) \<notin> reported) \<Longrightarrow>
    snd (reporter_run r halted delivered reported) = Some (answered_text (rp_name r) (sa_text a))"
  by (auto simp: reporter_run_def report_answer_def mark_reported_def split: option.splits)

section \<open>The tool\<close>

definition sample_subagents :: "(nat \<times> nat list list, nat list) subagent_env" where
  "sample_subagents = \<lparr>se_kernel = family_env, se_model = (\<lambda>reference. Ok ()), se_resume = (\<lambda>c k. (k, Err SessionClosing)),
     se_submit = (\<lambda>c text k. (k, Err SessionClosing))\<rparr>"

definition sample_spawn :: json where
  "sample_spawn = JObject [(''action'', JString ''spawn''), (''name'', JString ''m''), (''message'', JString ''go'')]"

definition sample_state :: "(nat \<times> nat list list, nat list) subagent_state" where
  "sample_state = \<lparr>sb_kernel = family_kernel\<lparr>kn_disk := []\<rparr>, sb_reporters = []\<rparr>"

lemma sample_action: "background_action_try_from sample_spawn = Ok (BaSpawn ''m'' ''go'' WhenSteer None)"
  by code_simp

lemma sample_creates: "\<exists>k'. create_owned_session family_env (OwnedInBackground ''p'' ''m'') (tick (family_kernel\<lparr>kn_disk := []\<rparr>)) = (k', Ok ''d'')"
  using family_ids(5)
  by (simp add: create_owned_session_def kernel_session_def find_live_def family_kernel_def family_session_def ensure_active_def
      idle_execution_def id_try_from_def id_ok_def family_env_def reserve_session_build_def tick_def start_owned_def create_with_def Let_def
      read_file_def build_session_def register_session_def checkpoint_started_session_def transcript_sync_def finish_starting_def)

lemma no_logs: "headers f cwd [] = []" "named_children f o' c [] = []"
  by (simp_all add: headers_def scan_headers_def named_children_def map_filter_def)

lemma sample_spawns:
  "\<exists>s' reply. background_execute sample_subagents (False, False) ''p'' (Some (family_session None)) sample_spawn sample_state = (s', Ok reply) \<and>
    ty_child reply = Some ''d''"
proof -
  obtain k' where made: "create_owned_session family_env (OwnedInBackground ''p'' ''m'') (tick (family_kernel\<lparr>kn_disk := []\<rparr>)) = (k', Ok ''d'')"
    using sample_creates by blast
  have title: "session_title_try_from ''m'' = Ok ''m''" by code_simp
  from made title show ?thesis
    by (auto simp: background_execute_def sample_action execute_action_def sample_subagents_def sample_state_def no_logs
        family_env_def report_later_def spawn_reporter_def family_session_def)
qed

text \<open>C13: whatever a call of the background tool asks for and however it ends, the names of the owner's background
  children stay unique; a reply that refers to a child refers to the one its name leads to, also when it was
  just spawned.\<close>

theorem background_names_unique:
  assumes "background_execute env cancelled o' (Some session) arguments s = (s', r)"
    and "creation_laws (se_kernel env) (kn_disk (sb_kernel s))" "id_ok o'" "find_live (sb_kernel s) o' = Some session"
    and "\<And>c k. headers (ke_factory (se_kernel env)) (Some (lv_cwd session)) (kn_disk (fst (se_resume env c k))) =
      headers (ke_factory (se_kernel env)) (Some (lv_cwd session)) (kn_disk k)"
    and "names_unique (ke_factory (se_kernel env)) o' (lv_cwd session) (kn_disk (sb_kernel s))"
  shows "names_unique (ke_factory (se_kernel env)) o' (lv_cwd session) (kn_disk (sb_kernel s')) \<and>
    (\<forall>reply c. r = Ok reply \<and> ty_child reply = Some c \<longrightarrow>
       (\<exists>action. background_action_try_from arguments = Ok action \<and>
          child_named (ke_factory (se_kernel env)) o' (lv_cwd session) (kn_disk (sb_kernel s')) action c))"
proof (cases "\<exists>action. background_action_try_from arguments = Ok action \<and> cancelled = (False, False)")
  case False
  with assms(1,6) show ?thesis
    by (cases cancelled) (auto simp: background_execute_def split: if_splits result.splits)
next
  case True
  then obtain action where action: "background_action_try_from arguments = Ok action" "cancelled = (False, False)" by blast
  obtain s1 r1 where exec: "execute_action env o' session action s = (s1, r1)" by fastforce
  from assms(1) action exec have "s' = s1" "\<And>reply. r = Ok reply \<Longrightarrow> \<exists>text. r1 = Ok (text, ty_child reply)"
    by (auto simp: background_execute_def split: result.splits)
  with execute_action_names [OF exec assms(2-6)] action show ?thesis by fastforce
qed

theorem background_names_unique_witness:
  "\<exists>s' reply. background_execute sample_subagents (False, False) ''p'' (Some (family_session None)) sample_spawn sample_state = (s', Ok reply) \<and>
    names_unique family_factory ''p'' ''w'' (kn_disk (sb_kernel s')) \<and>
    map_of (named_children family_factory ''p'' ''w'' (kn_disk (sb_kernel s'))) ''m'' = Some ''d''"
proof -
  obtain s' reply where run: "background_execute sample_subagents (False, False) ''p'' (Some (family_session None)) sample_spawn sample_state = (s', Ok reply)"
    and reply: "ty_child reply = Some ''d''" using sample_spawns by blast
  have fields: "se_kernel sample_subagents = family_env" "ke_factory family_env = family_factory" "lv_cwd (family_session None) = ''w''"
    "kn_disk (sb_kernel sample_state) = []" by (simp_all add: sample_subagents_def family_env_def family_session_def sample_state_def)
  have "creation_laws family_env []" "find_live (sb_kernel sample_state) ''p'' = Some (family_session None)"
    using family_reads by (simp_all add: creation_laws_def family_env_def u64_max_def has_log_def no_logs sample_state_def find_live_def family_kernel_def)
  moreover have "headers f cwd (kn_disk (fst (se_resume sample_subagents c k))) = headers f cwd (kn_disk k)" for f cwd c k
    by (simp add: sample_subagents_def)
  moreover have "names_unique family_factory ''p'' ''w'' []" by (simp add: names_unique_def no_logs)
  ultimately show ?thesis
    using background_names_unique [OF run] family_ids(1) fields run reply by (auto simp: sample_action child_named_def)
qed

end
