(* ===== verification/Spec2Isabelle.thy ===== *)
theory Spec2Isabelle
  imports Log_Recovery Queue_Recovery Output_Props Command_Line Acp_Batching Compaction Edit_Props Execution_Props Template Navigation_Props Attempt_Props Batch_Props Run_Limits Subagent_Props
begin

text \<open>
  \<^bold>\<open>A verification library for clawcode\<close>, a coding agent in Rust. All paths below are under \<^verbatim>\<open>src/crates\<close>.

  \<^bold>\<open>The program.\<close> A session is an append-only log of JSON lines (\<^verbatim>\<open>store\<close>), a transcript that holds the model
  context built from it, a queue of messages that wait, a catalog of tools and an execution gate
  (\<^verbatim>\<open>kernel/src/runtime\<close>). A prompt is admitted, waits for the gate, and becomes a run: turns in which the
  kernel builds a request, streams the model's answer, lets extensions look at it, executes the tool calls, records
  the turn, and decides whether to retry, compact, take a queued message or stop. Every message and record goes to the
  log before it counts. Clients see the session through the ACP adapter (\<^verbatim>\<open>acp\<close>), which merges and orders updates.

  \<^bold>\<open>Theories and sources.\<close> Each component has a theory of definitions and, where the proofs are long, one of
  properties.
  \<^item> Prelude: \<open>Claw_Prelude\<close> (\<^verbatim>\<open>Result\<close>, 64-bit arithmetic, strings, lists), \<open>Json\<close> (the values of
    \<^verbatim>\<open>serde_json\<close> and decoding), \<open>Scalars\<close> (\<^verbatim>\<open>protocol/src/scalar.rs\<close>, \<^verbatim>\<open>id.rs\<close>, \<^verbatim>\<open>identity.rs\<close>).
  \<^item> Session log: \<open>Session_Store\<close> models \<^verbatim>\<open>store/src/model.rs\<close>, \<^verbatim>\<open>state.rs\<close> and \<^verbatim>\<open>session.rs\<close>; \<open>Session_Log\<close>,
    \<open>Store_Ops\<close> and \<open>Store_Effects\<close> prove its invariant, its round trips and what each operation does.
    \<open>Store_Factory\<close> models \<^verbatim>\<open>store/src/factory.rs\<close> (create, open, repair, rename, fork, list, delete), with
    \<open>Factory_Props\<close> and \<open>Log_Recovery\<close>. The state is the record \<open>jsonl_store\<close>: the bytes of the file, the bytes the
    \<^verbatim>\<open>BufWriter\<close> holds, and the projection \<open>session_state\<close>.
  \<^item> Transcript: \<open>Messages\<close> (\<^verbatim>\<open>protocol/src/message.rs\<close>, \<^verbatim>\<open>slash_command.rs\<close>), \<open>Plan_Mode\<close>
    (\<^verbatim>\<open>kernel/src/runtime/plan\<close>), \<open>Transcript\<close> (\<^verbatim>\<open>session/transcript.rs\<close>, \<^verbatim>\<open>replay.rs\<close>), \<open>Transcript_Props\<close>,
    \<open>Navigation\<close> and \<open>Navigation_Props\<close> (\<^verbatim>\<open>session/tree.rs\<close>).
  \<^item> Queue and waiting: \<open>Waiters\<close> (\<^verbatim>\<open>run/insertion.rs\<close>), \<open>Pending_Queue\<close> (\<^verbatim>\<open>run/queue.rs\<close>, \<^verbatim>\<open>queue/operations.rs\<close>),
    \<open>Queue_Props\<close>, \<open>Queue_Recovery\<close>, \<open>Admission\<close> (\<^verbatim>\<open>run/admission.rs\<close>), \<open>Execution\<close> (\<^verbatim>\<open>run/lifecycle.rs\<close>),
    \<open>Execution_Props\<close>.
  \<^item> Model calls: \<open>Model_Policy\<close> (settings, retry budget), \<open>Native_Message\<close> (\<^verbatim>\<open>provider/content.rs\<close>), \<open>Attempt\<close> and
    \<open>Attempt_Props\<close> (\<^verbatim>\<open>run/attempt.rs\<close> and the streaming of \<^verbatim>\<open>run/turn.rs\<close>), \<open>Extension_Hooks\<close>
    (\<^verbatim>\<open>extension/src/runtime\<close>), \<open>Compaction\<close> (\<^verbatim>\<open>compaction/context.rs\<close>).
  \<^item> Tools: \<open>Tool_Catalog\<close>, \<open>Catalog_Props\<close> (registry, selection), \<open>Tool_Batch\<close>, \<open>Batch_Props\<close> (\<^verbatim>\<open>plan/gate.rs\<close>,
    \<^verbatim>\<open>run/batch.rs\<close>), \<open>Truncation\<close>, \<open>Tool_Output\<close>, \<open>Output_Props\<close> (output budgets), \<open>Command_Line\<close> (shell commands
    that plan mode accepts), \<open>Edit_Tool\<close>, \<open>Edit_Props\<close> (\<^verbatim>\<open>tools/src/builtin/edit.rs\<close>), \<open>Mcp_Identity\<close>, \<open>Template\<close>
    (\<^verbatim>\<open>prompt/src/template/expansion.rs\<close>).
  \<^item> ACP adapter: \<open>Acp_Coalescing\<close>, \<open>Acp_Batching\<close> (\<^verbatim>\<open>acp/src/coalescing.rs\<close>, \<^verbatim>\<open>batching.rs\<close>).
  \<^item> The run: \<open>Run_World\<close> (actions over the session, the events and the requests), \<open>Compaction_Run\<close>
    (\<^verbatim>\<open>runtime/compaction.rs\<close>, \<^verbatim>\<open>compaction/prompt.rs\<close>, \<^verbatim>\<open>lifecycle.rs\<close>), \<open>Turn_Loop\<close> (\<^verbatim>\<open>run/turn.rs\<close>),
    \<open>Run_Settlement\<close> (\<^verbatim>\<open>run/settlement.rs\<close>, \<^verbatim>\<open>run.rs\<close>). \<open>Run_Rules\<close> and \<open>Turn_Rules\<close> hold the locales in which every
    phase is shown to keep what its single steps keep, \<open>Run_Props\<close> the invariant of a run, \<open>Run_Returns\<close> and
    \<open>Turn_Limit\<close> when phases return and how the counters of the loop move, \<open>Run_Correct\<close> that a run returns
    and what it leaves, \<open>Run_Limits\<close> its bounds. \<open>Message_Codec\<close> shows that a message codec exists.

  \<^item> The sessions of a kernel: \<open>Session_Lifecycle\<close> (\<^verbatim>\<open>runtime/session.rs\<close>, \<^verbatim>\<open>session/open.rs\<close>, \<^verbatim>\<open>ownership.rs\<close>,
    \<^verbatim>\<open>close.rs\<close>) with the record \<open>kernel_state\<close> of the live sessions, the reserved identifiers and the logs;
    \<open>Lifecycle_Props\<close> and \<open>Lifecycle_Correct\<close> prove the cascades. \<open>Subagents\<close> and \<open>Subagent_Props\<close>
    (\<^verbatim>\<open>runtime/subagent\<close>) build on them. An operation is followed from start to end as its task runs it, and what it
    waits for is taken as over. Close and delete recurse over owners with a bound: the number of live sessions and of
    logs; both are shown to return within it.

  \<^bold>\<open>State and operations.\<close> A struct is a record with the source's fields (prefixed), an enum a datatype, a method a
  definition of the source's name from the state to the state and a \<open>result\<close>. The outcome of a write, a clock reading,
  an identifier, an answer of a hook or of the model is an argument. In the theories of the run these draws come from an
  environment (\<open>run_env\<close>, \<open>turn_env\<close>) by the number of the step, and \<open>re_others\<close> is what the other tasks of the session do
  to it while the run waits; nothing is assumed of any of them but what a theorem names.

  \<^bold>\<open>What is shown.\<close>
  \<^item> The log: every operation keeps the projection well formed, reopening reproduces the store, a crash in the middle of
    a write leaves the state before or after it, branches end and are chains, forks copy them, listings agree with a
    full replay, a rename by tail scan equals a rename by replay; a failed operation changes nothing. A line retained
    by the buffer after a failed append is written by the next one (a defect).
  \<^item> The context: whatever is done to a transcript, in a navigation or in a whole run, the context in memory is the one
    a restart rebuilds; no mode note separates a tool call from its results.
  \<^item> The queue: in every reachable state recovery rebuilds the queue, and a message is consumed exactly once.
  \<^item> Waiting: prompts enter in arrival order, each gets its turn, and a cancellation reaches the prompt it is for.
  \<^item> The run: with a limit it returns and respects the limit; failures in a row are bounded by the retry budget.
  \<^item> Model calls and tools: the stored message is the stream, a settled attempt is not revived, a batch answers every call
    in order, plan mode runs only what it permits, output and searches stay within their budgets, edits change only what
    they match, compaction never separates a call from its results.
  \<^item> Sessions: creating an owned session is all or nothing, a close takes down exactly a family, a deletion leaves no log
    without its owner; the names of background subagents stay unique and an answer is reported once. A plain creation
    whose runtime cannot be built leaves its log (a defect).
  \<^item> ACP: the relays deliver every update once and in order.

  \<^bold>\<open>Parameters.\<close> The text form of JSON, the JSON form of messages (\<open>encode_message\<close>, \<open>decode_message\<close>), the provider
  library's view of native messages and usage, token counters, \<^verbatim>\<open>shlex\<close>, SHA-256, NFKC normalization, and the
  cancellation tokens of \<^verbatim>\<open>tokio_util\<close> (\<open>token_laws\<close>). Where a theorem needs a law of one of them, it is a
  hypothesis, and its witness has a concrete function.

  \<^bold>\<open>Bounds and loops.\<close> \<^verbatim>\<open>u64\<close> and \<^verbatim>\<open>u32\<close> values are natural numbers with checked or saturating operations written out;
  text is a list of bytes. Loops are structural or have a measure. The branch walk and the loops of a run
  (\<open>act_loop\<close>) may not end and are partial functions into \<open>option\<close>; that they return is proved. A stream or a batch that
  never ends is \<open>None\<close>.

  \<^bold>\<open>Not modelled.\<close> Duplicate keys of JSON objects; I/O errors beyond the outcomes of writes, reads and file names; lock
  poisoning; \<^verbatim>\<open>from_utf8_lossy\<close>; the rendered diff of an edit; the floating-point ranking of tool search. Of the
  components: model providers, MCP connections, processes and file access of the built-in tools, secret storage and the
  application, which are I/O around other crates; the ACP server, its projection and mapping, which translate between the
  protocol crate's types; configuration, extension host, session assembly, settings and resumption, the interleaving of lifecycle operations,
  slash commands, input expansion and system prompts.
\<close>

end
